(* ===== verification/Prelude.thy ===== *)
theory Prelude
  imports
    Complex_Main
    "HOL-Library.Multiset"
    "HOL-Library.Char_ord"
    "HOL-Library.List_Lexorder"
    "HOL-Library.Product_Lexorder"
    "HOL-Library.Word"
begin

section \<open>Shared vocabulary of the gentest development\<close>

text \<open>
  Types, string helpers and generic lemmas that the component theories share.
  A C++ \<^verbatim>\<open>std::string\<close> or \<^verbatim>\<open>std::string_view\<close> is a
  \<^typ>\<open>string\<close> (a list of bytes), a nullable \<^verbatim>\<open>const char*\<close> is a
  \<^typ>\<open>string option\<close>, \<^verbatim>\<open>std::size_t\<close> and other counters are
  \<^typ>\<open>nat\<close> unless a width matters, and \<^verbatim>\<open>std::uint64_t\<close> values
  whose range is checked by the code are \<^typ>\<open>64 word\<close>.
  The byte order on \<^typ>\<open>char\<close> and the lexicographic order on lists (from the
  library) are the order of \<^verbatim>\<open>std::string_view::operator<\<close>.
\<close>

type_synonym u64 = "64 word"
type_synonym idx = nat

named_theorems str_simps \<open>rewriting of the string helpers\<close>
named_theorems invar_intros \<open>introduction rules: an operation keeps its component's invariant\<close>
named_theorems frame_simps \<open>fields an operation leaves unchanged\<close>

subsection \<open>String helpers\<close>

definition starts_with :: "string \<Rightarrow> string \<Rightarrow> bool" where
  "starts_with s p \<longleftrightarrow> take (length p) s = p"

definition ends_with :: "string \<Rightarrow> string \<Rightarrow> bool" where
  "ends_with s p \<longleftrightarrow> length p \<le> length s \<and> drop (length s - length p) s = p"

lemma starts_with_iff: "starts_with s p \<longleftrightarrow> (\<exists>t. s = p @ t)"
  unfolding starts_with_def by (metis append_eq_conv_conj append_take_drop_id)

lemma starts_with_append [simp, str_simps]: "starts_with (p @ t) p"
  by (simp add: starts_with_def)

lemma starts_with_Nil [simp, str_simps]: "starts_with s []"
  by (simp add: starts_with_def)

lemma starts_with_length: "starts_with s p \<Longrightarrow> length p \<le> length s"
  by (auto simp: starts_with_iff)

lemma ends_with_iff: "ends_with s p \<longleftrightarrow> (\<exists>t. s = t @ p)"
proof
  assume "ends_with s p"
  then have "s = take (length s - length p) s @ p"
    unfolding ends_with_def by (metis append_take_drop_id)
  then show "\<exists>t. s = t @ p" by blast
next
  assume "\<exists>t. s = t @ p"
  then show "ends_with s p" by (auto simp: ends_with_def)
qed

text \<open>\<^verbatim>\<open>fmt::format("{}", n)\<close> of an unsigned number.\<close>

fun show_nat :: "nat \<Rightarrow> string" where
  "show_nat n = (if n < 10 then [char_of (48 + n)] else show_nat (n div 10) @ [char_of (48 + n mod 10)])"

declare show_nat.simps [simp del]

lemma show_nat_nonempty [simp]: "show_nat n \<noteq> []"
  by (subst show_nat.simps) simp

subsection \<open>Lists\<close>

lemma filter_upt_sorted: "sorted (filter P [0..<n])"
  by (rule sorted_wrt_filter) simp

lemma filter_ex_nth:
  "filter P [0..<n] = [] \<longleftrightarrow> (\<forall>i<n. \<not> P i)"
  by (auto simp: filter_empty_conv)

lemma mset_filter_three:
  assumes "\<And>x. P x \<Longrightarrow> \<not> Q x" and "\<And>x. R x \<longleftrightarrow> \<not> P x \<and> \<not> Q x"
  shows "mset (filter P xs) + mset (filter Q xs) + mset (filter R xs) = mset xs"
  using assms by (induction xs) auto

subsection \<open>Keys in order of first appearance, and buckets by key\<close>

text \<open>
  The grouping idiom of the runner: a vector of buckets and a hash map from a key to the
  bucket's position (\<^verbatim>\<open>try_emplace(key, buckets.size())\<close>).
\<close>

definition first_keys :: "'a list \<Rightarrow> 'a list" where
  "first_keys xs = foldl (\<lambda>acc x. if x \<in> set acc then acc else acc @ [x]) [] xs"

lemma first_keys_Nil [simp]: "first_keys [] = []"
  by (simp add: first_keys_def)

lemma first_keys_snoc:
  "first_keys (xs @ [x]) = (if x \<in> set (first_keys xs) then first_keys xs else first_keys xs @ [x])"
  by (simp add: first_keys_def)

lemma set_first_keys [simp]: "set (first_keys xs) = set xs"
  by (induction xs rule: rev_induct) (auto simp: first_keys_snoc)

lemma distinct_first_keys [simp]: "distinct (first_keys xs)"
  by (induction xs rule: rev_induct) (auto simp: first_keys_snoc)

definition bucket_step ::
  "('a \<Rightarrow> 'k) \<Rightarrow> ('k \<Rightarrow> 'b) \<Rightarrow> ('b \<Rightarrow> 'a \<Rightarrow> 'b) \<Rightarrow> 'b list \<times> ('k \<rightharpoonup> nat) \<Rightarrow> 'a \<Rightarrow> 'b list \<times> ('k \<rightharpoonup> nat)" where
  "bucket_step key fresh upd s x =
     (case s of (bs, m) \<Rightarrow>
        (case m (key x) of
           Some n \<Rightarrow> (bs[n := upd (bs ! n) x], m)
         | None \<Rightarrow> (bs @ [upd (fresh (key x)) x], m(key x \<mapsto> length bs))))"

definition index_ok :: "'k list \<Rightarrow> ('k \<rightharpoonup> nat) \<Rightarrow> bool" where
  "index_ok ks m \<longleftrightarrow> distinct ks \<and> (\<forall>k n. m k = Some n \<longleftrightarrow> n < length ks \<and> ks ! n = k)"

lemma index_ok_empty: "index_ok [] Map.empty"
  by (simp add: index_ok_def)

lemma index_ok_None: "index_ok ks m \<Longrightarrow> m k = None \<longleftrightarrow> k \<notin> set ks"
  unfolding index_ok_def by (metis in_set_conv_nth not_Some_eq option.distinct(1))

lemma index_ok_snoc: "index_ok ks m \<Longrightarrow> m k = None \<Longrightarrow> index_ok (ks @ [k]) (m(k \<mapsto> length ks))"
  using index_ok_None[of ks m k] by (auto simp: index_ok_def nth_append less_Suc_eq)

locale bucketing =
  fixes key :: "'a \<Rightarrow> 'k" and mk :: "'k \<Rightarrow> 'a list \<Rightarrow> 'b" and upd :: "'b \<Rightarrow> 'a \<Rightarrow> 'b"
  assumes upd_mk: "key x = k \<Longrightarrow> upd (mk k ys) x = mk k (ys @ [x])"
begin

definition buckets :: "'a list \<Rightarrow> 'b list" where
  "buckets xs = map (\<lambda>k. mk k (filter (\<lambda>x. key x = k) xs)) (first_keys (map key xs))"

lemma buckets_step:
  assumes "index_ok (first_keys (map key xs)) m"
  shows "\<exists>m'. bucket_step key (\<lambda>k. mk k []) upd (buckets xs, m) x = (buckets (xs @ [x]), m')
           \<and> index_ok (first_keys (map key (xs @ [x]))) m'"
proof (cases "m (key x)")
  case None
  let ?ks = "first_keys (map key xs)"
  have new: "key x \<notin> set ?ks" using index_ok_None[OF assms] None by simp
  have ks: "first_keys (map key (xs @ [x])) = ?ks @ [key x]"
    using new by (simp add: first_keys_snoc)
  have "filter (\<lambda>y. key y = key x) xs = []" using new by (simp add: filter_empty_conv image_iff) metis
  then have "buckets (xs @ [x]) = buckets xs @ [upd (mk (key x) []) x]"
    unfolding buckets_def ks using new by (auto simp: upd_mk)
  then show ?thesis
    using None ks index_ok_snoc[OF assms None] by (simp add: bucket_step_def buckets_def)
next
  case (Some n)
  let ?ks = "first_keys (map key xs)"
  have n: "n < length ?ks" "?ks ! n = key x" using assms Some by (auto simp: index_ok_def)
  have ks: "first_keys (map key (xs @ [x])) = ?ks"
  proof -
    have "key x \<in> set ?ks" using n nth_mem by metis
    then show ?thesis by (simp add: first_keys_snoc)
  qed
  have "(buckets xs)[n := upd (buckets xs ! n) x] = buckets (xs @ [x])"
  proof (rule nth_equalityI)
    fix i assume "i < length ((buckets xs)[n := upd (buckets xs ! n) x])"
    then have i: "i < length ?ks" by (simp add: buckets_def)
    have "i = n \<longleftrightarrow> ?ks ! i = key x" using n i distinct_first_keys nth_eq_iff_index_eq by metis
    then show "(buckets xs)[n := upd (buckets xs ! n) x] ! i = buckets (xs @ [x]) ! i"
      using n i ks by (cases "i = n") (auto simp: buckets_def upd_mk nth_list_update)
  qed (unfold buckets_def ks, simp)
  then show ?thesis using Some ks assms by (simp add: bucket_step_def)
qed

lemma buckets_fold:
  "\<exists>m. foldl (bucket_step key (\<lambda>k. mk k []) upd) ([], Map.empty) xs = (buckets xs, m)
     \<and> index_ok (first_keys (map key xs)) m"
proof (induction xs rule: rev_induct)
  case Nil
  then show ?case by (simp add: buckets_def index_ok_empty)
next
  case (snoc x xs)
  then obtain m where "foldl (bucket_step key (\<lambda>k. mk k []) upd) ([], Map.empty) xs = (buckets xs, m)"
    and "index_ok (first_keys (map key xs)) m" by blast
  with buckets_step[of xs m x] show ?case by simp
qed

lemma buckets_fold_fst: "fst (foldl (bucket_step key (\<lambda>k. mk k []) upd) ([], Map.empty) xs) = buckets xs"
  using buckets_fold[of xs] by auto

end

lemma concat_buckets_perm:
  "mset (concat (map (\<lambda>k. filter (\<lambda>x. key x = k) xs) (first_keys (map key xs)))) = mset xs"
proof -
  have "mset (concat (map (\<lambda>k. filter (\<lambda>x. key x = k) xs) ks)) = mset (filter (\<lambda>x. key x \<in> set ks) xs)"
    if "distinct ks" for ks
    using that
  proof (induction ks)
    case (Cons k ks)
    have "mset (filter (\<lambda>x. key x = k) xs) + mset (filter (\<lambda>x. key x \<in> set ks) xs)
        = mset (filter (\<lambda>x. key x \<in> set (k # ks)) xs)"
      using Cons.prems by (induction xs) auto
    then show ?case using Cons by simp
  qed simp
  then have "mset (concat (map (\<lambda>k. filter (\<lambda>x. key x = k) xs) (first_keys (map key xs))))
      = mset (filter (\<lambda>x. key x \<in> set (first_keys (map key xs))) xs)"
    using distinct_first_keys by blast
  also have "filter (\<lambda>x. key x \<in> set (first_keys (map key xs))) xs = xs"
    by (simp add: filter_id_conv)
  finally show ?thesis .
qed

end
