(* ===== verification/Case_Api.thy ===== *)
theory Case_Api
  imports Prelude
begin

section \<open>Test cases, their tags, and the case registry\<close>

text \<open>
  \<^verbatim>\<open>include/gentest/detail/case_api.h\<close> (the case record the generated code
  registers), \<^verbatim>\<open>src/runner_tag_utils.h\<close> (case-insensitive tags) and the
  registry half of \<^verbatim>\<open>src/runner_impl.cpp\<close> (registration, ordering and
  snapshots).  Function pointers are identified by numbers (\<^term>\<open>None\<close> is the null
  pointer); what the functions do is a parameter of the theories that call them.
\<close>

datatype FixtureLifetime = LifetimeNone | MemberEphemeral | MemberSuite | MemberGlobal

record Case =
  c_name :: string
  c_fn :: nat
  c_file :: string
  c_line :: nat
  c_is_benchmark :: bool
  c_is_jitter :: bool
  c_is_baseline :: bool
  c_tags :: "string list"
  c_requirements :: "string list"
  c_skip_reason :: string
  c_should_skip :: bool
  c_fixture :: string
  c_fixture_lifetime :: FixtureLifetime
  c_suite :: string
  c_async_fn :: "nat option"
  c_is_async :: bool
  c_items_per_call :: nat
  c_owner :: string

subsection \<open>Tags: \<^verbatim>\<open>runner_tag_utils.h\<close>\<close>

definition ascii_lower :: "char \<Rightarrow> char" where
  "ascii_lower a = (if CHR ''A'' \<le> a \<and> a \<le> CHR ''Z'' then char_of (of_char a - 65 + 97 :: nat) else a)"

fun iequals_loop :: "string \<Rightarrow> string \<Rightarrow> bool" where
  "iequals_loop (a # lhs) (b # rhs) =
     (if a = b then iequals_loop lhs rhs
      else if ascii_lower a \<noteq> ascii_lower b then False
      else iequals_loop lhs rhs)"
| "iequals_loop _ _ = True"

definition iequals_ascii :: "string \<Rightarrow> string \<Rightarrow> bool" where
  "iequals_ascii lhs rhs = (if length lhs \<noteq> length rhs then False else iequals_loop lhs rhs)"

fun has_tag_loop :: "string list \<Rightarrow> string \<Rightarrow> bool" where
  "has_tag_loop [] tag = False"
| "has_tag_loop (candidate # rest) tag = (if iequals_ascii candidate tag then True else has_tag_loop rest tag)"

definition has_tag_ci :: "Case \<Rightarrow> string \<Rightarrow> bool" where
  "has_tag_ci test tag = has_tag_loop (c_tags test) tag"

lemma iequals_loop_map:
  "length lhs = length rhs \<Longrightarrow> iequals_loop lhs rhs \<longleftrightarrow> map ascii_lower lhs = map ascii_lower rhs"
  by (induction lhs rhs rule: list_induct2) auto

lemma iequals_ascii_iff: "iequals_ascii lhs rhs \<longleftrightarrow> map ascii_lower lhs = map ascii_lower rhs"
  unfolding iequals_ascii_def by (metis iequals_loop_map map_eq_imp_length_eq)

lemma has_tag_ci_iff: "has_tag_ci t tag \<longleftrightarrow> (\<exists>c \<in> set (c_tags t). iequals_ascii c tag)"
proof -
  have "has_tag_loop cs tag \<longleftrightarrow> (\<exists>c \<in> set cs. iequals_ascii c tag)" for cs
    by (induction cs) auto
  then show ?thesis by (simp add: has_tag_ci_def)
qed

subsection \<open>The registry: \<^verbatim>\<open>runner_impl.cpp\<close>\<close>

record CaseRegistry =
  reg_cases :: "Case list"
  reg_sorted :: bool

definition case_less :: "Case \<Rightarrow> Case \<Rightarrow> bool" where
  "case_less lhs rhs =
     (if c_name lhs \<noteq> c_name rhs then c_name lhs < c_name rhs
      else if c_file lhs \<noteq> c_file rhs then c_file lhs < c_file rhs
      else c_line lhs < c_line rhs)"

fun insert_case :: "Case \<Rightarrow> Case list \<Rightarrow> Case list" where
  "insert_case c [] = [c]"
| "insert_case c (d # ds) = (if case_less d c then d # insert_case c ds else c # d # ds)"

text \<open>
  \<^verbatim>\<open>std::ranges::sort\<close> with the comparison above.  The library does not fix
  the order of cases that compare equal; no lemma below depends on it.
\<close>

definition sort_cases :: "Case list \<Rightarrow> Case list" where
  "sort_cases cs = foldr insert_case cs []"

definition sorted_case_copy :: "Case list \<Rightarrow> Case list" where
  "sorted_case_copy cs = sort_cases cs"

definition register_cases :: "Case list \<Rightarrow> CaseRegistry \<Rightarrow> CaseRegistry" where
  "register_cases cs reg = reg\<lparr>reg_cases := reg_cases reg @ cs, reg_sorted := False\<rparr>"

definition snapshot_cases :: "CaseRegistry \<Rightarrow> Case list \<times> CaseRegistry" where
  "snapshot_cases reg =
     (let reg' = (if \<not> reg_sorted reg
                  then reg\<lparr>reg_cases := sort_cases (reg_cases reg), reg_sorted := True\<rparr>
                  else reg)
      in (reg_cases reg', reg'))"

definition empty_registry :: CaseRegistry where
  "empty_registry = \<lparr>reg_cases = [], reg_sorted = False\<rparr>"

definition case_key :: "Case \<Rightarrow> string \<times> string \<times> nat" where
  "case_key c = (c_name c, c_file c, c_line c)"

lemma case_less_key: "case_less a b \<longleftrightarrow> case_key a < case_key b"
  by (auto simp: case_less_def case_key_def less_prod_def)

abbreviation cases_ordered :: "Case list \<Rightarrow> bool" where
  "cases_ordered cs \<equiv> sorted (map case_key cs)"

lemma mset_insert_case [simp]: "mset (insert_case c cs) = add_mset c (mset cs)"
  by (induction cs) auto

lemma set_insert_case [simp]: "set (insert_case c cs) = insert c (set cs)"
  by (metis mset_insert_case set_mset_add_mset_insert set_mset_mset)

lemma ordered_insert_case: "cases_ordered cs \<Longrightarrow> cases_ordered (insert_case c cs)"
  by (induction cs) (auto simp: case_less_key)

lemma mset_sort_cases [simp]: "mset (sort_cases cs) = mset cs"
  by (induction cs) (auto simp: sort_cases_def)

lemma ordered_sort_cases: "cases_ordered (sort_cases cs)"
  by (induction cs) (auto simp: sort_cases_def ordered_insert_case)

text \<open>The registry's invariant: the flag is set only on an ordered list.\<close>

definition registry_wf :: "CaseRegistry \<Rightarrow> bool" where
  "registry_wf reg \<longleftrightarrow> (reg_sorted reg \<longrightarrow> cases_ordered (reg_cases reg))"

lemma registry_wf_empty [invar_intros]: "registry_wf empty_registry"
  by (simp add: registry_wf_def empty_registry_def)

lemma registry_wf_register [invar_intros]: "registry_wf (register_cases cs reg)"
  by (simp add: registry_wf_def register_cases_def)

lemma registry_wf_snapshot [invar_intros]: "registry_wf reg \<Longrightarrow> registry_wf (snd (snapshot_cases reg))"
  by (auto simp: registry_wf_def snapshot_cases_def ordered_sort_cases Let_def)

lemma snapshot_ordered: "registry_wf reg \<Longrightarrow> cases_ordered (fst (snapshot_cases reg))"
  by (auto simp: registry_wf_def snapshot_cases_def ordered_sort_cases Let_def)

lemma snapshot_mset:
  "mset (fst (snapshot_cases reg)) = mset (reg_cases reg)"
  "mset (reg_cases (snd (snapshot_cases reg))) = mset (reg_cases reg)"
  by (auto simp: snapshot_cases_def Let_def)

lemma snapshot_stable:
  "fst (snapshot_cases (snd (snapshot_cases reg))) = fst (snapshot_cases reg)"
  by (simp add: snapshot_cases_def Let_def)

text \<open>A history of the process: the generated translation units register, callers snapshot.\<close>

datatype registry_op = Register "Case list" | Snapshot

fun registry_run :: "registry_op list \<Rightarrow> CaseRegistry \<Rightarrow> CaseRegistry" where
  "registry_run [] reg = reg"
| "registry_run (Register cs # ops) reg = registry_run ops (register_cases cs reg)"
| "registry_run (Snapshot # ops) reg = registry_run ops (snd (snapshot_cases reg))"

fun registered_by :: "registry_op list \<Rightarrow> Case list" where
  "registered_by [] = []"
| "registered_by (Register cs # ops) = cs @ registered_by ops"
| "registered_by (Snapshot # ops) = registered_by ops"

lemma registry_run_wf: "registry_wf reg \<Longrightarrow> registry_wf (registry_run ops reg)"
  by (induction ops reg rule: registry_run.induct) (auto intro: invar_intros)

lemma registry_run_mset:
  "mset (reg_cases (registry_run ops reg)) = mset (reg_cases reg) + mset (registered_by ops)"
  by (induction ops reg rule: registry_run.induct)
     (auto simp: register_cases_def snapshot_mset)

end
