(* ===== verification/Test_Plan.thy ===== *)
theory Test_Plan
  imports Case_Api
begin

section \<open>Execution plans: \<^verbatim>\<open>src/runner_test_plan.cpp\<close>\<close>

text \<open>
  Grouping of the selected cases by suite and, inside a suite, by shared fixture.  The
  builders keep the hash maps of the source.  \<^verbatim>\<open>std::shuffle\<close> driven by an
  \<^verbatim>\<open>mt19937_64\<close> and \<^verbatim>\<open>std::hash\<close> are implementation-defined: they
  are arguments (\<open>rng_shuffle\<close>, \<open>hash\<close>) of the definitions, and the only law
  used of the first is that it permutes its input.
\<close>

record FixtureGroupPlan =
  g_fixture :: string
  g_fixture_lifetime :: FixtureLifetime
  g_idxs :: "idx list"

record SuiteExecutionPlan =
  p_suite :: string
  p_free_like :: "idx list"
  p_suite_groups :: "FixtureGroupPlan list"
  p_global_groups :: "FixtureGroupPlan list"

record SuitePlanBuilder =
  b_plan :: SuiteExecutionPlan
  b_suite_group_indices :: "string \<rightharpoonup> nat"
  b_global_group_indices :: "string \<rightharpoonup> nat"

definition append_fixture_group_case ::
  "FixtureGroupPlan list \<times> (string \<rightharpoonup> nat) \<Rightarrow> string \<Rightarrow> FixtureLifetime \<Rightarrow> idx
     \<Rightarrow> FixtureGroupPlan list \<times> (string \<rightharpoonup> nat)" where
  "append_fixture_group_case gi fixture lifetime i =
     (case gi of (groups, indices) \<Rightarrow>
        (case indices fixture of
           None \<Rightarrow> (groups @ [\<lparr>g_fixture = fixture, g_fixture_lifetime = lifetime, g_idxs = [i]\<rparr>],
                    indices(fixture \<mapsto> length groups))
         | Some n \<Rightarrow> (groups[n := (groups ! n)\<lparr>g_idxs := g_idxs (groups ! n) @ [i]\<rparr>], indices)))"

definition empty_builder :: "string \<Rightarrow> SuitePlanBuilder" where
  "empty_builder suite =
     \<lparr>b_plan = \<lparr>p_suite = suite, p_free_like = [], p_suite_groups = [], p_global_groups = []\<rparr>,
      b_suite_group_indices = Map.empty, b_global_group_indices = Map.empty\<rparr>"

text \<open>The rest of the loop body, once the builder of the case's suite is at hand.\<close>

definition builder_add :: "Case list \<Rightarrow> SuitePlanBuilder \<Rightarrow> idx \<Rightarrow> SuitePlanBuilder" where
  "builder_add cases b i =
     (let t = cases ! i; plan = b_plan b
      in if c_fixture_lifetime t = LifetimeNone \<or> c_fixture_lifetime t = MemberEphemeral
         then b\<lparr>b_plan := plan\<lparr>p_free_like := p_free_like plan @ [i]\<rparr>\<rparr>
         else if c_fixture_lifetime t = MemberSuite
         then (case append_fixture_group_case (p_suite_groups plan, b_suite_group_indices b)
                      (c_fixture t) (c_fixture_lifetime t) i of
                 (gs, m) \<Rightarrow> b\<lparr>b_plan := plan\<lparr>p_suite_groups := gs\<rparr>, b_suite_group_indices := m\<rparr>)
         else (case append_fixture_group_case (p_global_groups plan, b_global_group_indices b)
                      (c_fixture t) (c_fixture_lifetime t) i of
                 (gs, m) \<Rightarrow> b\<lparr>b_plan := plan\<lparr>p_global_groups := gs\<rparr>, b_global_group_indices := m\<rparr>))"

definition build_step ::
  "Case list \<Rightarrow> SuitePlanBuilder list \<times> (string \<rightharpoonup> nat) \<Rightarrow> idx \<Rightarrow> SuitePlanBuilder list \<times> (string \<rightharpoonup> nat)" where
  "build_step cases s i =
     (case s of (builders, suite_indices) \<Rightarrow>
        let suite = c_suite (cases ! i);
            (builders', suite_indices') =
              (case suite_indices suite of
                 None \<Rightarrow> (builders @ [empty_builder suite], suite_indices(suite \<mapsto> length builders))
               | Some _ \<Rightarrow> (builders, suite_indices));
            n = the (suite_indices' suite)
        in (builders'[n := builder_add cases (builders' ! n) i], suite_indices'))"

definition shuffle_with_seed :: "(u64 \<Rightarrow> idx list \<Rightarrow> idx list) \<Rightarrow> idx list \<Rightarrow> u64 \<Rightarrow> idx list" where
  "shuffle_with_seed rng_shuffle order seed = (if length order \<le> 1 then order else rng_shuffle seed order)"

definition shuffle_plan ::
  "(u64 \<Rightarrow> idx list \<Rightarrow> idx list) \<Rightarrow> (string \<Rightarrow> u64) \<Rightarrow> u64 \<Rightarrow> SuiteExecutionPlan \<Rightarrow> SuiteExecutionPlan" where
  "shuffle_plan rng_shuffle hash base_seed plan =
     (let suite_seed = Bit_Operations.xor base_seed (push_bit 1 (hash (p_suite plan)));
          shuffle_group = (\<lambda>g. g\<lparr>g_idxs := shuffle_with_seed rng_shuffle (g_idxs g) (suite_seed + hash (g_fixture g))\<rparr>)
      in plan\<lparr>p_free_like := shuffle_with_seed rng_shuffle (p_free_like plan) suite_seed,
              p_suite_groups := map shuffle_group (p_suite_groups plan),
              p_global_groups := map shuffle_group (p_global_groups plan)\<rparr>)"

definition build_suite_execution_plan ::
  "(u64 \<Rightarrow> idx list \<Rightarrow> idx list) \<Rightarrow> (string \<Rightarrow> u64) \<Rightarrow> Case list \<Rightarrow> idx list \<Rightarrow> bool \<Rightarrow> u64
     \<Rightarrow> SuiteExecutionPlan list" where
  "build_suite_execution_plan rng_shuffle hash cases idxs shuffle base_seed =
     (let builders = fst (foldl (build_step cases) ([], Map.empty) idxs)
      in map (\<lambda>b. if shuffle then shuffle_plan rng_shuffle hash base_seed (b_plan b) else b_plan b) builders)"

subsection \<open>The reference plan\<close>

text \<open>
  Suites in order of first appearance; in a suite, the cases without a shared fixture in
  selection order, then per kind of shared fixture one group per fixture name in order of
  first appearance.
\<close>

definition is_free_like :: "Case list \<Rightarrow> idx \<Rightarrow> bool" where
  "is_free_like cases i \<longleftrightarrow> c_fixture_lifetime (cases ! i) \<in> {LifetimeNone, MemberEphemeral}"

definition has_lifetime :: "Case list \<Rightarrow> FixtureLifetime \<Rightarrow> idx \<Rightarrow> bool" where
  "has_lifetime cases lt i \<longleftrightarrow> c_fixture_lifetime (cases ! i) = lt"

definition mk_group :: "FixtureLifetime \<Rightarrow> string \<Rightarrow> idx list \<Rightarrow> FixtureGroupPlan" where
  "mk_group lt f is = \<lparr>g_fixture = f, g_fixture_lifetime = lt, g_idxs = is\<rparr>"

definition fixture_groups :: "Case list \<Rightarrow> FixtureLifetime \<Rightarrow> idx list \<Rightarrow> FixtureGroupPlan list" where
  "fixture_groups cases lt is =
     map (\<lambda>f. mk_group lt f (filter (\<lambda>i. c_fixture (cases ! i) = f) is))
         (first_keys (map (\<lambda>i. c_fixture (cases ! i)) is))"

definition suite_plan :: "Case list \<Rightarrow> string \<Rightarrow> idx list \<Rightarrow> SuiteExecutionPlan" where
  "suite_plan cases s is =
     \<lparr>p_suite = s, p_free_like = filter (is_free_like cases) is,
      p_suite_groups = fixture_groups cases MemberSuite (filter (has_lifetime cases MemberSuite) is),
      p_global_groups = fixture_groups cases MemberGlobal (filter (has_lifetime cases MemberGlobal) is)\<rparr>"

definition plan_spec :: "Case list \<Rightarrow> idx list \<Rightarrow> SuiteExecutionPlan list" where
  "plan_spec cases idxs =
     map (\<lambda>s. suite_plan cases s (filter (\<lambda>i. c_suite (cases ! i) = s) idxs))
         (first_keys (map (\<lambda>i. c_suite (cases ! i)) idxs))"

interpretation groups: bucketing "\<lambda>i. c_fixture (cases ! i)" "mk_group lt"
    "\<lambda>g i. g\<lparr>g_idxs := g_idxs g @ [i]\<rparr>" for cases :: "Case list" and lt
  by unfold_locales (simp add: mk_group_def)

lemma groups_buckets: "groups.buckets cases lt is = fixture_groups cases lt is"
  by (simp add: groups.buckets_def fixture_groups_def)

lemma append_group_bucket:
  "append_fixture_group_case s (c_fixture (cases ! i)) lt i
     = bucket_step (\<lambda>i. c_fixture (cases ! i)) (\<lambda>f. mk_group lt f []) (\<lambda>g i. g\<lparr>g_idxs := g_idxs g @ [i]\<rparr>) s i"
  by (auto simp: append_fixture_group_case_def bucket_step_def mk_group_def split: prod.splits option.splits)

definition group_state :: "Case list \<Rightarrow> FixtureLifetime \<Rightarrow> idx list \<Rightarrow> FixtureGroupPlan list \<times> (string \<rightharpoonup> nat)" where
  "group_state cases lt is =
     foldl (bucket_step (\<lambda>i. c_fixture (cases ! i)) (\<lambda>f. mk_group lt f []) (\<lambda>g i. g\<lparr>g_idxs := g_idxs g @ [i]\<rparr>))
       ([], Map.empty) is"

lemma group_state_fst: "fst (group_state cases lt is) = fixture_groups cases lt is"
  by (simp add: group_state_def groups.buckets_fold_fst groups_buckets)

lemma group_state_snoc:
  "append_fixture_group_case (group_state cases lt is) (c_fixture (cases ! i)) lt i = group_state cases lt (is @ [i])"
  by (simp add: group_state_def append_group_bucket)

text \<open>The builder of a suite after the given cases.\<close>

definition mk_builder :: "Case list \<Rightarrow> string \<Rightarrow> idx list \<Rightarrow> SuitePlanBuilder" where
  "mk_builder cases s is = foldl (builder_add cases) (empty_builder s) is"

lemma mk_builder_fields:
  "b_plan (mk_builder cases s is) = suite_plan cases s is
   \<and> (p_suite_groups (b_plan (mk_builder cases s is)), b_suite_group_indices (mk_builder cases s is))
       = group_state cases MemberSuite (filter (has_lifetime cases MemberSuite) is)
   \<and> (p_global_groups (b_plan (mk_builder cases s is)), b_global_group_indices (mk_builder cases s is))
       = group_state cases MemberGlobal (filter (has_lifetime cases MemberGlobal) is)"
proof (induction "is" rule: rev_induct)
  case Nil
  then show ?case
    by (simp add: mk_builder_def empty_builder_def suite_plan_def fixture_groups_def group_state_def)
next
  case (snoc i "is")
  let ?b = "mk_builder cases s is"
  have step: "mk_builder cases s (is @ [i]) = builder_add cases ?b i" by (simp add: mk_builder_def)
  have S: "group_state cases MemberSuite (filter (has_lifetime cases MemberSuite) is)
      = (p_suite_groups (b_plan ?b), b_suite_group_indices ?b)"
    and G: "group_state cases MemberGlobal (filter (has_lifetime cases MemberGlobal) is)
      = (p_global_groups (b_plan ?b), b_global_group_indices ?b)"
    and P: "b_plan ?b = suite_plan cases s is"
    using snoc[THEN conjunct2, THEN conjunct1, symmetric] snoc[THEN conjunct2, THEN conjunct2, symmetric]
      snoc[THEN conjunct1] by blast+
  have kinds: "has_lifetime cases MemberSuite i \<longleftrightarrow> c_fixture_lifetime (cases ! i) = MemberSuite"
    "has_lifetime cases MemberGlobal i \<longleftrightarrow> c_fixture_lifetime (cases ! i) = MemberGlobal"
    "is_free_like cases i \<longleftrightarrow> c_fixture_lifetime (cases ! i) \<in> {LifetimeNone, MemberEphemeral}"
    by (simp_all add: has_lifetime_def is_free_like_def)
  show ?case
  proof (cases "c_fixture_lifetime (cases ! i)")
    case MemberSuite
    then show ?thesis
      using group_state_snoc[of cases MemberSuite "filter (has_lifetime cases MemberSuite) is" i]
        group_state_fst[of cases MemberSuite "filter (has_lifetime cases MemberSuite) is @ [i]"] S G P
      by (auto simp: step builder_add_def kinds suite_plan_def split: prod.splits)
  next
    case MemberGlobal
    then show ?thesis
      using group_state_snoc[of cases MemberGlobal "filter (has_lifetime cases MemberGlobal) is" i]
        group_state_fst[of cases MemberGlobal "filter (has_lifetime cases MemberGlobal) is @ [i]"] S G P
      by (auto simp: step builder_add_def kinds suite_plan_def split: prod.splits)
  qed (use S G P in \<open>simp_all add: step builder_add_def kinds suite_plan_def Let_def\<close>)
qed

interpretation suites: bucketing "\<lambda>i. c_suite (cases ! i)" "mk_builder cases" "builder_add cases" for cases :: "Case list"
  by unfold_locales (simp add: mk_builder_def)

lemma build_step_bucket:
  assumes "index_ok ks (snd s)" and "length ks = length (fst s)"
  shows "build_step cases s i
    = bucket_step (\<lambda>i. c_suite (cases ! i)) (\<lambda>s. mk_builder cases s []) (builder_add cases) s i"
  using assms
  by (auto simp: build_step_def bucket_step_def mk_builder_def index_ok_def Let_def list_update_append split: prod.splits option.splits)

lemma build_steps:
  "\<exists>m. foldl (build_step cases) ([], Map.empty) idxs = (suites.buckets cases idxs, m)
     \<and> index_ok (first_keys (map (\<lambda>i. c_suite (cases ! i)) idxs)) m"
proof (induction idxs rule: rev_induct)
  case Nil
  then show ?case by (simp add: suites.buckets_def index_ok_empty)
next
  case (snoc i idxs)
  let ?ks = "first_keys (map (\<lambda>i. c_suite (cases ! i)) idxs)"
  from snoc obtain m where m: "foldl (build_step cases) ([], Map.empty) idxs = (suites.buckets cases idxs, m)"
    "index_ok ?ks m" by blast
  then have "build_step cases (suites.buckets cases idxs, m) i
     = bucket_step (\<lambda>i. c_suite (cases ! i)) (\<lambda>s. mk_builder cases s []) (builder_add cases) (suites.buckets cases idxs, m) i"
    by (intro build_step_bucket[of ?ks]) (simp_all add: suites.buckets_def)
  with m suites.buckets_step[OF m(2), of i] show ?case by simp
qed

lemma plan_unshuffled: "build_suite_execution_plan rng h cases idxs False seed = plan_spec cases idxs"
proof -
  obtain m where "foldl (build_step cases) ([], Map.empty) idxs = (suites.buckets cases idxs, m)"
    using build_steps by blast
  then show ?thesis
    by (simp add: build_suite_execution_plan_def suites.buckets_def plan_spec_def mk_builder_fields)
qed

lemma plan_shuffled:
  "build_suite_execution_plan rng h cases idxs True seed = map (shuffle_plan rng h seed) (plan_spec cases idxs)"
  unfolding plan_unshuffled[of rng h cases idxs seed, symmetric]
  by (simp add: build_suite_execution_plan_def Let_def)

subsection \<open>The order of execution\<close>

text \<open>The indices of a plan in the order the executor visits them.\<close>

definition plan_order :: "SuiteExecutionPlan list \<Rightarrow> idx list" where
  "plan_order plans =
     concat (map (\<lambda>p. p_free_like p @ concat (map g_idxs (p_suite_groups p))
                      @ concat (map g_idxs (p_global_groups p))) plans)"

lemma concat_fixture_groups:
  "mset (concat (map g_idxs (fixture_groups cases lt is))) = mset is"
  using concat_buckets_perm[of "\<lambda>i. c_fixture (cases ! i)" "is"]
  by (simp add: fixture_groups_def mk_group_def o_def)

lemma suite_plan_order: "mset (plan_order [suite_plan cases s is]) = mset is"
proof -
  have "mset (filter (is_free_like cases) is) + mset (filter (has_lifetime cases MemberSuite) is)
      + mset (filter (has_lifetime cases MemberGlobal) is) = mset is"
    by (rule mset_filter_three)
       (auto simp: is_free_like_def has_lifetime_def, metis FixtureLifetime.exhaust)
  then show ?thesis by (simp add: plan_order_def suite_plan_def concat_fixture_groups add.assoc)
qed

lemma plan_order_Cons: "plan_order (p # ps) = plan_order [p] @ plan_order ps"
  by (simp add: plan_order_def)

lemma plan_spec_order: "mset (plan_order (plan_spec cases idxs)) = mset idxs"
proof -
  have "mset (plan_order (map (\<lambda>s. suite_plan cases s (f s)) ss)) = mset (concat (map f ss))" for ss f
  proof (induction ss)
    case (Cons s ss)
    then show ?case
      using plan_order_Cons[of "suite_plan cases s (f s)" "map (\<lambda>s. suite_plan cases s (f s)) ss"]
      by (simp add: suite_plan_order)
  qed (simp add: plan_order_def)
  then show ?thesis by (simp add: plan_spec_def concat_buckets_perm)
qed

definition permutes_input :: "(u64 \<Rightarrow> idx list \<Rightarrow> idx list) \<Rightarrow> bool" where
  "permutes_input rng \<longleftrightarrow> (\<forall>seed xs. mset (rng seed xs) = mset xs)"

lemma shuffle_plan_groups:
  "permutes_input rng \<Longrightarrow> mset (plan_order [shuffle_plan rng h seed p]) = mset (plan_order [p])"
proof -
  assume rng: "permutes_input rng"
  have s: "mset (shuffle_with_seed rng xs sd) = mset xs" for xs sd
    using rng by (simp add: shuffle_with_seed_def permutes_input_def)
  have "mset (concat (map (g_idxs \<circ> (\<lambda>g. g\<lparr>g_idxs := shuffle_with_seed rng (g_idxs g) (f g)\<rparr>)) gs))
      = mset (concat (map g_idxs gs))" for gs :: "FixtureGroupPlan list" and f
    by (induction gs) (auto simp: s)
  then show ?thesis by (simp add: plan_order_def shuffle_plan_def Let_def s)
qed

lemma shuffle_plan_order:
  assumes "permutes_input rng"
  shows "mset (plan_order (map (shuffle_plan rng h seed) ps)) = mset (plan_order ps)"
proof (induction ps)
  case (Cons p ps)
  have "mset (plan_order (map (shuffle_plan rng h seed) (p # ps)))
      = mset (plan_order [shuffle_plan rng h seed p]) + mset (plan_order (map (shuffle_plan rng h seed) ps))"
    using plan_order_Cons[of "shuffle_plan rng h seed p" "map (shuffle_plan rng h seed) ps"] by simp
  also have "\<dots> = mset (plan_order [p]) + mset (plan_order ps)"
    by (simp only: Cons.IH shuffle_plan_groups[OF assms])
  also have "\<dots> = mset (plan_order (p # ps))"
    using plan_order_Cons[of p ps] by simp
  finally show ?case .
qed simp

subsection \<open>Properties of the plan\<close>

lemma plan_shape_shuffle:
  "p_suite (shuffle_plan rng h seed p) = p_suite p"
  "map g_fixture (p_suite_groups (shuffle_plan rng h seed p)) = map g_fixture (p_suite_groups p)"
  "map g_fixture (p_global_groups (shuffle_plan rng h seed p)) = map g_fixture (p_global_groups p)"
  by (simp_all add: shuffle_plan_def Let_def o_def)

text \<open>
  C13. Without shuffling, the incremental hash-map builder computes the reference plan:
  suites in order of first appearance, and in each suite the cases without a shared fixture
  in selection order, followed by one group per suite fixture and one per global fixture, in
  order of first appearance, each with its cases in selection order.
\<close>

theorem build_plan_refines_spec:
  "build_suite_execution_plan rng h cases idxs False seed = plan_spec cases idxs"
  by (rule plan_unshuffled)


definition plan_sample :: "Case list" where
  "plan_sample =
     (let c = \<lparr>c_name = ''a'', c_fn = 0, c_file = [], c_line = 1, c_is_benchmark = False, c_is_jitter = False,
               c_is_baseline = False, c_tags = [], c_requirements = [], c_skip_reason = [], c_should_skip = False,
               c_fixture = [], c_fixture_lifetime = LifetimeNone, c_suite = ''s1'', c_async_fn = None,
               c_is_async = False, c_items_per_call = 1, c_owner = []\<rparr>
      in [c, c\<lparr>c_fixture := ''Db'', c_fixture_lifetime := MemberSuite\<rparr>, c\<lparr>c_suite := ''s2''\<rparr>,
          c\<lparr>c_fixture := ''Db'', c_fixture_lifetime := MemberSuite\<rparr>])"


end
