(* ===== verification/Cli.thy ===== *)
theory Cli
  imports Prelude
begin

section \<open>Command line: \<^verbatim>\<open>src/runner_cli.h\<close>, \<^verbatim>\<open>src/runner_cli.cpp\<close>\<close>

text \<open>
  The option record, the strict decimal parser and the whole of \<^verbatim>\<open>parse_cli\<close>.
  What the function asks of the process environment (\<^verbatim>\<open>getenv\<close>,
  \<^verbatim>\<open>isatty\<close>, \<^verbatim>\<open>std::stod\<close>, \<^verbatim>\<open>std::random_device\<close>) is the
  record \<open>cli_env\<close>, an argument of the definitions that use it.  A message printed
  to stderr followed by \<^verbatim>\<open>return false\<close> is a value of \<open>cli_error\<close>.
  A finite \<^verbatim>\<open>double\<close> is a rational number.
\<close>

datatype Mode = Execute | Help | ListTests | ListMeta | ListJson | ListDeath | ListBenches

datatype KindFilter = KindAll | KindTest | KindBench | KindJitter

datatype TimeUnitMode = TimeAuto | TimeNs

datatype MeasuredReportFormat = FmtTable | FmtMarkdown | FmtCsv | FmtJson

datatype double = DFinite rat | DInf | DNegInf | DNaN

fun d_less :: "double \<Rightarrow> double \<Rightarrow> bool" where
  "d_less (DFinite a) (DFinite b) = (a < b)"
| "d_less (DFinite a) DInf = True"
| "d_less DNegInf (DFinite b) = True"
| "d_less DNegInf DInf = True"
| "d_less _ _ = False"

fun d_isfinite :: "double \<Rightarrow> bool" where
  "d_isfinite (DFinite _) = True"
| "d_isfinite _ = False"

record BenchConfig =
  min_epoch_time_s :: double
  min_total_time_s :: double
  max_total_time_s :: double
  warmup_epochs :: u64
  measure_epochs :: u64

record CliOptions =
  o_mode :: Mode
  o_kind :: KindFilter
  o_time_unit_mode :: TimeUnitMode
  o_measured_report_format :: MeasuredReportFormat
  o_color_output :: bool
  o_github_annotations :: bool
  o_fail_fast :: bool
  o_shuffle :: bool
  o_repeat_n :: u64
  o_async_log_tail :: u64
  o_include_death :: bool
  o_seed_provided :: bool
  o_seed_value :: u64
  o_shuffle_seed :: u64
  o_run_exact :: "string option"
  o_filter_pat :: "string option"
  o_junit_path :: "string option"
  o_allure_dir :: "string option"
  o_bench_table :: bool
  o_bench_cfg :: BenchConfig
  o_jitter_bins :: int

definition default_bench_config :: BenchConfig where
  "default_bench_config =
     \<lparr>min_epoch_time_s = DFinite (1 / 100), min_total_time_s = DFinite 0,
      max_total_time_s = DFinite 1, warmup_epochs = 1, measure_epochs = 12\<rparr>"

definition default_options :: CliOptions where
  "default_options =
     \<lparr>o_mode = Execute, o_kind = KindAll, o_time_unit_mode = TimeAuto,
      o_measured_report_format = FmtTable, o_color_output = True,
      o_github_annotations = False, o_fail_fast = False, o_shuffle = False,
      o_repeat_n = 1, o_async_log_tail = 5, o_include_death = False,
      o_seed_provided = False, o_seed_value = 0, o_shuffle_seed = 0,
      o_run_exact = None, o_filter_pat = None, o_junit_path = None, o_allure_dir = None,
      o_bench_table = False, o_bench_cfg = default_bench_config, o_jitter_bins = 10\<rparr>"

subsection \<open>The process environment\<close>

record cli_env =
  e_getenv :: "string \<Rightarrow> string option"
  e_stdout_is_tty :: bool
  e_stod :: "string \<Rightarrow> (double \<times> nat) option"
  e_rd_first :: "32 word"
  e_rd_second :: "32 word"

definition env_value :: "cli_env \<Rightarrow> string \<Rightarrow> string" where
  "env_value e name = (case e_getenv e name of None \<Rightarrow> [] | Some v \<Rightarrow> v)"

definition env_has_value :: "cli_env \<Rightarrow> string \<Rightarrow> bool" where
  "env_has_value e name \<longleftrightarrow> env_value e name \<noteq> []"

definition env_equals :: "cli_env \<Rightarrow> string \<Rightarrow> string \<Rightarrow> bool" where
  "env_equals e name expected \<longleftrightarrow> env_value e name = expected"

definition env_flag_enabled :: "cli_env \<Rightarrow> string \<Rightarrow> bool" where
  "env_flag_enabled e name \<longleftrightarrow>
     env_value e name \<in> {''1'', ''true'', ''TRUE'', ''yes'', ''YES'', ''on'', ''ON''}"

definition env_flag_disabled :: "cli_env \<Rightarrow> string \<Rightarrow> bool" where
  "env_flag_disabled e name \<longleftrightarrow>
     env_value e name \<in> {''0'', ''false'', ''FALSE'', ''no'', ''NO'', ''off'', ''OFF''}"

definition env_no_color :: "cli_env \<Rightarrow> bool" where
  "env_no_color e \<longleftrightarrow> env_has_value e ''NO_COLOR'' \<or> env_has_value e ''GENTEST_NO_COLOR''"

definition env_github_actions :: "cli_env \<Rightarrow> bool" where
  "env_github_actions e \<longleftrightarrow> env_has_value e ''GITHUB_ACTIONS''"

definition env_plain_output :: "cli_env \<Rightarrow> bool" where
  "env_plain_output e \<longleftrightarrow>
     \<not> e_stdout_is_tty e \<or> env_equals e ''TERM'' ''dumb'' \<or> env_has_value e ''CI''
     \<or> env_has_value e ''CODEX_CI'' \<or> env_flag_enabled e ''GENTEST_NO_ASYNC_LIVE''
     \<or> env_flag_disabled e ''GENTEST_ASYNC_LIVE''"

definition make_random_seed :: "cli_env \<Rightarrow> u64" where
  "make_random_seed e =
     Bit_Operations.xor (push_bit 32 (ucast (e_rd_first e))) (ucast (e_rd_second e))"

subsection \<open>Strict decimal numbers\<close>

datatype ParseU64DecimalResult = U64Ok u64 | U64Empty | U64NonDecimal | U64Overflow

definition is_digit :: "char \<Rightarrow> bool" where
  "is_digit ch \<longleftrightarrow> CHR ''0'' \<le> ch \<and> ch \<le> CHR ''9''"

definition digit_value :: "char \<Rightarrow> nat" where
  "digit_value ch = of_char ch - 48"

fun parse_u64_loop :: "u64 \<Rightarrow> string \<Rightarrow> ParseU64DecimalResult" where
  "parse_u64_loop v [] = U64Ok v"
| "parse_u64_loop v (ch # s) =
     (if \<not> is_digit ch then U64NonDecimal
      else let digit = of_nat (digit_value ch); maxv = (-1 :: u64)
           in if v > (maxv - digit) div 10 then U64Overflow
              else parse_u64_loop (v * 10 + digit) s)"

definition parse_u64_decimal_strict :: "string \<Rightarrow> ParseU64DecimalResult" where
  "parse_u64_decimal_strict s = (if s = [] then U64Empty else parse_u64_loop 0 s)"

subsection \<open>Parser state, errors and value options\<close>

datatype cli_error =
    RequiresValue string
  | RequiresNonEmptyValue string
  | OutOfRangeU64 string string
  | NotDecimal string string
  | NotFloat string string
  | NotFinite string string
  | MustBeNonNegative string
  | BadKind string
  | BadTimeUnit string
  | BadReportFormat string
  | Duplicate string
  | RemovedOption string
  | OutOfRange string
  | JitterBinsNotPositive
  | UnknownOption string
  | UnexpectedArgument string
  | MinTotalExceedsMaxTotal
  | BenchTableNeedsBench

record parse_state =
  ps_opt :: CliOptions
  wants_help :: bool
  wants_list_tests :: bool
  wants_list_meta :: bool
  wants_list_json :: bool
  wants_list_death :: bool
  wants_list_benches :: bool
  no_color_flag :: bool
  github_annotations_flag :: bool
  seen_repeat :: bool
  seen_async_log_tail :: bool
  seen_bench_min_epoch_time :: bool
  seen_bench_min_total_time :: bool
  seen_bench_max_total_time :: bool
  seen_bench_warmup :: bool
  seen_bench_epochs :: bool
  seen_jitter_bins :: bool
  seen_time_unit :: bool
  seen_report_format :: bool

definition init_parse_state :: parse_state where
  "init_parse_state =
     \<lparr>ps_opt = default_options, wants_help = False, wants_list_tests = False,
      wants_list_meta = False, wants_list_json = False, wants_list_death = False,
      wants_list_benches = False, no_color_flag = False, github_annotations_flag = False,
      seen_repeat = False, seen_async_log_tail = False, seen_bench_min_epoch_time = False,
      seen_bench_min_total_time = False, seen_bench_max_total_time = False,
      seen_bench_warmup = False, seen_bench_epochs = False, seen_jitter_bins = False,
      seen_time_unit = False, seen_report_format = False\<rparr>"

definition upd_opt :: "(CliOptions \<Rightarrow> CliOptions) \<Rightarrow> parse_state \<Rightarrow> parse_state" where
  "upd_opt f st = st\<lparr>ps_opt := f (ps_opt st)\<rparr>"

definition upd_cfg :: "(BenchConfig \<Rightarrow> BenchConfig) \<Rightarrow> parse_state \<Rightarrow> parse_state" where
  "upd_cfg f = upd_opt (\<lambda>o'. o'\<lparr>o_bench_cfg := f (o_bench_cfg o')\<rparr>)"

type_synonym args = "string option list"

datatype ValueMatch = MatchNo | MatchYes string args | MatchError cli_error

definition match_value :: "string \<Rightarrow> string \<Rightarrow> args \<Rightarrow> ValueMatch" where
  "match_value s opt_name rest =
     (if s = opt_name then
        (case rest of
           Some value # rest' \<Rightarrow>
             if value = [] then MatchError (RequiresNonEmptyValue opt_name)
             else MatchYes value rest'
         | _ \<Rightarrow> MatchError (RequiresValue opt_name))
      else if length s > length opt_name \<and> starts_with s opt_name \<and> s ! length opt_name = CHR ''='' then
        (let value = drop (length opt_name + 1) s
         in if value = [] then MatchError (RequiresNonEmptyValue opt_name)
            else MatchYes value rest)
      else MatchNo)"

datatype OptionParseResult = NoMatch | Consumed parse_state args | OptError cli_error

definition parse_value_option ::
  "string \<Rightarrow> args \<Rightarrow> string \<Rightarrow> (string \<Rightarrow> cli_error + parse_state) \<Rightarrow> OptionParseResult" where
  "parse_value_option s rest opt_name on_value =
     (case match_value s opt_name rest of
        MatchError e \<Rightarrow> OptError e
      | MatchYes value rest' \<Rightarrow>
          (case on_value value of Inl e \<Rightarrow> OptError e | Inr st \<Rightarrow> Consumed st rest')
      | MatchNo \<Rightarrow> NoMatch)"

definition parse_u64_option :: "string \<Rightarrow> string \<Rightarrow> cli_error + u64" where
  "parse_u64_option opt_name value =
     (case parse_u64_decimal_strict value of
        U64Ok v \<Rightarrow> Inr v
      | U64Empty \<Rightarrow> Inl (RequiresValue opt_name)
      | U64Overflow \<Rightarrow> Inl (OutOfRangeU64 opt_name value)
      | U64NonDecimal \<Rightarrow> Inl (NotDecimal opt_name value))"

definition parse_double_option :: "cli_env \<Rightarrow> string \<Rightarrow> string \<Rightarrow> cli_error + double" where
  "parse_double_option e opt_name value =
     (if value = [] then Inl (RequiresValue opt_name)
      else case e_stod e value of
             None \<Rightarrow> Inl (NotFloat opt_name value)
           | Some (out, i) \<Rightarrow>
               if i \<noteq> length value \<or> \<not> d_isfinite out then Inl (NotFinite opt_name value)
               else Inr out)"

definition parse_non_negative_double_option :: "cli_env \<Rightarrow> string \<Rightarrow> string \<Rightarrow> cli_error + double" where
  "parse_non_negative_double_option e opt_name value =
     (case parse_double_option e opt_name value of
        Inl err \<Rightarrow> Inl err
      | Inr out \<Rightarrow> if d_less out (DFinite 0) then Inl (MustBeNonNegative opt_name) else Inr out)"

definition parse_kind_option :: "string \<Rightarrow> cli_error + KindFilter" where
  "parse_kind_option value =
     (if value = ''all'' then Inr KindAll
      else if value = ''test'' \<or> value = ''tests'' then Inr KindTest
      else if value = ''bench'' \<or> value = ''benches'' \<or> value = ''benchmark'' \<or> value = ''benchmarks''
        then Inr KindBench
      else if value = ''jitter'' \<or> value = ''jitters'' then Inr KindJitter
      else Inl (BadKind value))"

definition parse_time_unit_option :: "string \<Rightarrow> cli_error + TimeUnitMode" where
  "parse_time_unit_option value =
     (if value = ''auto'' then Inr TimeAuto
      else if value = ''ns'' then Inr TimeNs
      else Inl (BadTimeUnit value))"

definition parse_report_format_option :: "string \<Rightarrow> cli_error + MeasuredReportFormat" where
  "parse_report_format_option value =
     (if value = ''table'' then Inr FmtTable
      else if value = ''markdown'' \<or> value = ''md'' then Inr FmtMarkdown
      else if value = ''csv'' then Inr FmtCsv
      else if value = ''json'' then Inr FmtJson
      else Inl (BadReportFormat value))"

definition set_unique_string_option :: "string option \<Rightarrow> string \<Rightarrow> string \<Rightarrow> cli_error + string option" where
  "set_unique_string_option out_value opt_name value =
     (if out_value \<noteq> None then Inl (Duplicate opt_name) else Inr (Some value))"

subsection \<open>The options, in the order the code tries them\<close>

text \<open>The valueless switches.\<close>

definition parse_switch :: "string \<Rightarrow> parse_state \<Rightarrow> parse_state option" where
  "parse_switch s st =
     (if s = ''--help'' then Some (st\<lparr>wants_help := True\<rparr>)
      else if s = ''--list-tests'' then Some (st\<lparr>wants_list_tests := True\<rparr>)
      else if s = ''--list'' then Some (st\<lparr>wants_list_meta := True\<rparr>)
      else if s = ''--list-json'' then Some (st\<lparr>wants_list_json := True\<rparr>)
      else if s = ''--list-death'' then Some (st\<lparr>wants_list_death := True\<rparr>)
      else if s = ''--list-benches'' then Some (st\<lparr>wants_list_benches := True\<rparr>)
      else if s = ''--no-color'' then Some (st\<lparr>no_color_flag := True\<rparr>)
      else if s = ''--github-annotations'' then Some (st\<lparr>github_annotations_flag := True\<rparr>)
      else if s = ''--fail-fast'' then Some (upd_opt (\<lambda>o'. o'\<lparr>o_fail_fast := True\<rparr>) st)
      else if s = ''--shuffle'' then Some (upd_opt (\<lambda>o'. o'\<lparr>o_shuffle := True\<rparr>) st)
      else if s = ''--include-death'' then Some (upd_opt (\<lambda>o'. o'\<lparr>o_include_death := True\<rparr>) st)
      else if s = ''--bench-table'' then Some (upd_opt (\<lambda>o'. o'\<lparr>o_bench_table := True\<rparr>) st)
      else None)"

text \<open>The handlers passed to \<^verbatim>\<open>parse_value_option\<close>.\<close>

definition on_seed :: "parse_state \<Rightarrow> string \<Rightarrow> cli_error + parse_state" where
  "on_seed st value =
     (case parse_u64_option ''--seed'' value of
        Inl e \<Rightarrow> Inl e
      | Inr seed \<Rightarrow>
          Inr (if \<not> o_seed_provided (ps_opt st)
               then upd_opt (\<lambda>o'. o'\<lparr>o_seed_provided := True, o_seed_value := seed\<rparr>) st
               else st))"

definition clamp_repeat :: "u64 \<Rightarrow> u64" where
  "clamp_repeat rep0 =
     (let rep1 = (if rep0 = 0 then 1 else rep0)
      in if rep1 > 1000000 then 1000000 else rep1)"

definition on_repeat :: "parse_state \<Rightarrow> string \<Rightarrow> cli_error + parse_state" where
  "on_repeat st value =
     (case parse_u64_option ''--repeat'' value of
        Inl e \<Rightarrow> Inl e
      | Inr rep0 \<Rightarrow>
          Inr ((upd_opt (\<lambda>o'. o'\<lparr>o_repeat_n := clamp_repeat rep0\<rparr>) st)\<lparr>seen_repeat := True\<rparr>))"

definition size_t_max :: u64 where
  "size_t_max = -1"

definition on_async_log_tail :: "parse_state \<Rightarrow> string \<Rightarrow> cli_error + parse_state" where
  "on_async_log_tail st value =
     (if seen_async_log_tail st then Inl (Duplicate ''--async-log-tail'')
      else case parse_u64_option ''--async-log-tail'' value of
             Inl e \<Rightarrow> Inl e
           | Inr tail \<Rightarrow>
               if tail > size_t_max then Inl (OutOfRange ''--async-log-tail'')
               else Inr ((upd_opt (\<lambda>o'. o'\<lparr>o_async_log_tail := tail\<rparr>) st)\<lparr>seen_async_log_tail := True\<rparr>))"

definition on_run :: "parse_state \<Rightarrow> string \<Rightarrow> cli_error + parse_state" where
  "on_run st value =
     map_sum id (\<lambda>v. upd_opt (\<lambda>o'. o'\<lparr>o_run_exact := v\<rparr>) st)
       (set_unique_string_option (o_run_exact (ps_opt st)) ''--run'' value)"

definition on_filter :: "parse_state \<Rightarrow> string \<Rightarrow> cli_error + parse_state" where
  "on_filter st value =
     map_sum id (\<lambda>v. upd_opt (\<lambda>o'. o'\<lparr>o_filter_pat := v\<rparr>) st)
       (set_unique_string_option (o_filter_pat (ps_opt st)) ''--filter'' value)"

definition on_kind :: "parse_state \<Rightarrow> string \<Rightarrow> cli_error + parse_state" where
  "on_kind st value =
     map_sum id (\<lambda>k. upd_opt (\<lambda>o'. o'\<lparr>o_kind := k\<rparr>) st) (parse_kind_option value)"

definition on_time_unit :: "parse_state \<Rightarrow> string \<Rightarrow> cli_error + parse_state" where
  "on_time_unit st value =
     (if seen_time_unit st then Inl (Duplicate ''--time-unit'')
      else map_sum id
             (\<lambda>m. (upd_opt (\<lambda>o'. o'\<lparr>o_time_unit_mode := m\<rparr>) st)\<lparr>seen_time_unit := True\<rparr>)
             (parse_time_unit_option value))"

definition on_report_format :: "parse_state \<Rightarrow> string \<Rightarrow> cli_error + parse_state" where
  "on_report_format st value =
     (if seen_report_format st then Inl (Duplicate ''--report-format'')
      else map_sum id
             (\<lambda>f. (upd_opt (\<lambda>o'. o'\<lparr>o_measured_report_format := f\<rparr>) st)\<lparr>seen_report_format := True\<rparr>)
             (parse_report_format_option value))"

definition on_junit :: "parse_state \<Rightarrow> string \<Rightarrow> cli_error + parse_state" where
  "on_junit st value =
     map_sum id (\<lambda>v. upd_opt (\<lambda>o'. o'\<lparr>o_junit_path := v\<rparr>) st)
       (set_unique_string_option (o_junit_path (ps_opt st)) ''--junit'' value)"

definition on_allure_dir :: "parse_state \<Rightarrow> string \<Rightarrow> cli_error + parse_state" where
  "on_allure_dir st value =
     map_sum id (\<lambda>v. upd_opt (\<lambda>o'. o'\<lparr>o_allure_dir := v\<rparr>) st)
       (set_unique_string_option (o_allure_dir (ps_opt st)) ''--allure-dir'' value)"

definition on_removed :: "string \<Rightarrow> string \<Rightarrow> cli_error + parse_state" where
  "on_removed name value = Inl (RemovedOption name)"

definition on_min_epoch :: "cli_env \<Rightarrow> parse_state \<Rightarrow> string \<Rightarrow> cli_error + parse_state" where
  "on_min_epoch e st value =
     map_sum id (\<lambda>d. (upd_cfg (\<lambda>c. c\<lparr>min_epoch_time_s := d\<rparr>) st)\<lparr>seen_bench_min_epoch_time := True\<rparr>)
       (parse_non_negative_double_option e ''--bench-min-epoch-time-s'' value)"

definition on_min_total :: "cli_env \<Rightarrow> parse_state \<Rightarrow> string \<Rightarrow> cli_error + parse_state" where
  "on_min_total e st value =
     map_sum id (\<lambda>d. (upd_cfg (\<lambda>c. c\<lparr>min_total_time_s := d\<rparr>) st)\<lparr>seen_bench_min_total_time := True\<rparr>)
       (parse_non_negative_double_option e ''--bench-min-total-time-s'' value)"

definition on_max_total :: "cli_env \<Rightarrow> parse_state \<Rightarrow> string \<Rightarrow> cli_error + parse_state" where
  "on_max_total e st value =
     map_sum id (\<lambda>d. (upd_cfg (\<lambda>c. c\<lparr>max_total_time_s := d\<rparr>) st)\<lparr>seen_bench_max_total_time := True\<rparr>)
       (parse_non_negative_double_option e ''--bench-max-total-time-s'' value)"

definition on_warmup :: "parse_state \<Rightarrow> string \<Rightarrow> cli_error + parse_state" where
  "on_warmup st value =
     (case parse_u64_option ''--bench-warmup'' value of
        Inl e \<Rightarrow> Inl e
      | Inr n \<Rightarrow>
          if n > size_t_max then Inl (OutOfRange ''--bench-warmup'')
          else Inr ((upd_cfg (\<lambda>c. c\<lparr>warmup_epochs := n\<rparr>) st)\<lparr>seen_bench_warmup := True\<rparr>))"

definition on_epochs :: "parse_state \<Rightarrow> string \<Rightarrow> cli_error + parse_state" where
  "on_epochs st value =
     (case parse_u64_option ''--bench-epochs'' value of
        Inl e \<Rightarrow> Inl e
      | Inr n \<Rightarrow>
          if n > size_t_max then Inl (OutOfRange ''--bench-epochs'')
          else Inr ((upd_cfg (\<lambda>c. c\<lparr>measure_epochs := n\<rparr>) st)\<lparr>seen_bench_epochs := True\<rparr>))"

definition int_max :: u64 where
  "int_max = 2147483647"

definition on_jitter_bins :: "parse_state \<Rightarrow> string \<Rightarrow> cli_error + parse_state" where
  "on_jitter_bins st value =
     (case parse_u64_option ''--jitter-bins'' value of
        Inl e \<Rightarrow> Inl e
      | Inr bins \<Rightarrow>
          if bins = 0 \<or> bins > int_max then Inl JitterBinsNotPositive
          else Inr ((upd_opt (\<lambda>o'. o'\<lparr>o_jitter_bins := uint bins\<rparr>) st)\<lparr>seen_jitter_bins := True\<rparr>))"

text \<open>
  The chain of \<^verbatim>\<open>if (... parse_value_option(i, s, "--name", handler) ...)\<close>
  statements of the loop body: guard, name, handler, in source order.  A removed option
  returns \<^verbatim>\<open>false\<close> on any match.
\<close>

definition value_options ::
  "cli_env \<Rightarrow> parse_state \<Rightarrow> (bool \<times> string \<times> (string \<Rightarrow> cli_error + parse_state)) list" where
  "value_options e st =
     [(True, ''--seed'', on_seed st),
      (\<not> seen_repeat st, ''--repeat'', on_repeat st),
      (True, ''--async-log-tail'', on_async_log_tail st),
      (True, ''--run'', on_run st),
      (True, ''--filter'', on_filter st),
      (True, ''--kind'', on_kind st),
      (True, ''--time-unit'', on_time_unit st),
      (True, ''--report-format'', on_report_format st),
      (True, ''--junit'', on_junit st),
      (True, ''--allure-dir'', on_allure_dir st),
      (True, ''--run-test'', on_removed ''--run-test''),
      (True, ''--run-bench'', on_removed ''--run-bench''),
      (True, ''--bench-filter'', on_removed ''--bench-filter''),
      (\<not> seen_bench_min_epoch_time st, ''--bench-min-epoch-time-s'', on_min_epoch e st),
      (\<not> seen_bench_min_total_time st, ''--bench-min-total-time-s'', on_min_total e st),
      (\<not> seen_bench_max_total_time st, ''--bench-max-total-time-s'', on_max_total e st),
      (\<not> seen_bench_warmup st, ''--bench-warmup'', on_warmup st),
      (\<not> seen_bench_epochs st, ''--bench-epochs'', on_epochs st),
      (True, ''--run-jitter'', on_removed ''--run-jitter''),
      (True, ''--jitter-filter'', on_removed ''--jitter-filter''),
      (\<not> seen_jitter_bins st, ''--jitter-bins'', on_jitter_bins st)]"

fun first_option ::
  "(bool \<times> string \<times> (string \<Rightarrow> cli_error + parse_state)) list \<Rightarrow> string \<Rightarrow> args \<Rightarrow> OptionParseResult" where
  "first_option [] s rest = NoMatch"
| "first_option ((guard, name, handler) # opts) s rest =
     (if guard then
        (case parse_value_option s rest name handler of
           NoMatch \<Rightarrow> first_option opts s rest
         | r \<Rightarrow> r)
      else first_option opts s rest)"

definition parse_arg :: "cli_env \<Rightarrow> parse_state \<Rightarrow> string \<Rightarrow> args \<Rightarrow> cli_error + (parse_state \<times> args)" where
  "parse_arg e st s rest =
     (case parse_switch s st of
        Some st' \<Rightarrow> Inr (st', rest)
      | None \<Rightarrow>
          (case first_option (value_options e st) s rest of
             Consumed st' rest' \<Rightarrow> Inr (st', rest')
           | OptError err \<Rightarrow> Inl err
           | NoMatch \<Rightarrow> if starts_with s ''-'' then Inl (UnknownOption s)
                        else Inl (UnexpectedArgument s)))"

lemma match_value_rest:
  "match_value s n rest = MatchYes v rest' \<Longrightarrow> length rest' \<le> length rest"
  by (auto simp: match_value_def Let_def split: if_splits list.splits option.splits)

lemma first_option_rest:
  "first_option opts s rest = Consumed st' rest' \<Longrightarrow> length rest' \<le> length rest"
  by (induction opts s rest rule: first_option.induct)
     (auto simp: parse_value_option_def split: if_splits ValueMatch.splits sum.splits
        OptionParseResult.splits dest: match_value_rest)

lemma parse_arg_rest:
  "parse_arg e st s rest = Inr (st', rest') \<Longrightarrow> length rest' \<le> length rest"
  by (auto simp: parse_arg_def split: option.splits OptionParseResult.splits if_splits
      dest: first_option_rest)

function parse_loop :: "cli_env \<Rightarrow> parse_state \<Rightarrow> args \<Rightarrow> cli_error + parse_state" where
  "parse_loop e st [] = Inr st"
| "parse_loop e st (None # rest) = parse_loop e st rest"
| "parse_loop e st (Some s # rest) =
     (case parse_arg e st s rest of
        Inl err \<Rightarrow> Inl err
      | Inr (st', rest') \<Rightarrow> parse_loop e st' rest')"
  by pat_completeness auto
termination
  by (relation "measure (\<lambda>(e, st, as). length as)")
     (auto dest: parse_arg_rest simp: less_Suc_eq_le)

definition parse_start :: "args \<Rightarrow> args" where
  "parse_start as =
     (case as of
        Some s # rest \<Rightarrow> if s = [] \<or> hd s \<noteq> CHR ''-'' then rest else as
      | _ \<Rightarrow> as)"

definition resolve_mode :: "parse_state \<Rightarrow> Mode" where
  "resolve_mode st =
     (if wants_help st then Help
      else if wants_list_tests st then ListTests
      else if wants_list_meta st then ListMeta
      else if wants_list_json st then ListJson
      else if wants_list_death st then ListDeath
      else if wants_list_benches st then ListBenches
      else Execute)"

definition finish_options :: "cli_env \<Rightarrow> parse_state \<Rightarrow> cli_error + CliOptions" where
  "finish_options e st =
     (let opt0 = (ps_opt st)\<lparr>o_color_output := \<not> no_color_flag st \<and> \<not> env_no_color e \<and> \<not> env_plain_output e,
                             o_github_annotations := github_annotations_flag st \<or> env_github_actions e\<rparr>;
          cfg0 = o_bench_cfg opt0;
          cfg = (if measure_epochs cfg0 = 0 then cfg0\<lparr>measure_epochs := 1\<rparr> else cfg0);
          opt1 = opt0\<lparr>o_bench_cfg := cfg\<rparr>
      in if d_less (DFinite 0) (max_total_time_s cfg) \<and> d_less (max_total_time_s cfg) (min_total_time_s cfg)
         then Inl MinTotalExceedsMaxTotal
         else if o_bench_table opt1 \<and> o_kind opt1 = KindJitter then Inl BenchTableNeedsBench
         else let opt2 = opt1\<lparr>o_mode := resolve_mode st\<rparr>
              in Inr (if o_shuffle opt2
                      then opt2\<lparr>o_shuffle_seed :=
                             (if o_seed_provided opt2 then o_seed_value opt2 else make_random_seed e)\<rparr>
                      else opt2))"

definition parse_cli :: "cli_env \<Rightarrow> args \<Rightarrow> cli_error + CliOptions" where
  "parse_cli e as =
     (case parse_loop e init_parse_state (parse_start as) of
        Inl err \<Rightarrow> Inl err
      | Inr st \<Rightarrow> finish_options e st)"

subsection \<open>Decimal numbers: the parser decides range and value exactly\<close>

text \<open>The mathematical value of a digit string, with an accumulator.\<close>

definition dec_value :: "nat \<Rightarrow> string \<Rightarrow> nat" where
  "dec_value = foldl (\<lambda>a ch. 10 * a + digit_value ch)"

lemma dec_value_simps [simp]:
  "dec_value a [] = a"
  "dec_value a (ch # s) = dec_value (10 * a + digit_value ch) s"
  by (simp_all add: dec_value_def)

lemma dec_value_append: "dec_value a (s @ t) = dec_value (dec_value a s) t"
  by (simp add: dec_value_def)

lemma dec_value_ge: "a \<le> dec_value a s"
proof (induction s arbitrary: a)
  case (Cons ch s)
  have "a \<le> 10 * a + digit_value ch" by simp
  also have "\<dots> \<le> dec_value (10 * a + digit_value ch) s" by (rule Cons.IH)
  finally show ?case by simp
qed simp

lemma of_char_le_iff: "a \<le> b \<longleftrightarrow> (of_char a :: nat) \<le> of_char b"
  by (simp add: less_eq_char_def)

lemma is_digit_value: "is_digit ch \<Longrightarrow> digit_value ch < 10"
  by (auto simp: is_digit_def digit_value_def of_char_le_iff)

text \<open>The overflow test of the loop is exact.\<close>

lemma u64_step_overflow:
  fixes v :: u64
  assumes "d < 10"
  shows "v > (-1 - of_nat d) div 10 \<longleftrightarrow> 2 ^ 64 \<le> unat v * 10 + d"
proof -
  have d: "unat (of_nat d :: u64) = d"
    using assms by (simp add: unat_of_nat)
  have m: "unat (-1 - of_nat d :: u64) = 2 ^ 64 - 1 - d"
    using assms by (subst unat_sub) (auto simp: d word_le_nat_alt unsigned_minus_1_eq_mask mask_eq_exp_minus_1)
  have "v > (-1 - of_nat d) div 10 \<longleftrightarrow> unat v > (2 ^ 64 - 1 - d) div 10"
    by (simp add: word_less_nat_alt unat_div m)
  also have "\<dots> \<longleftrightarrow> 2 ^ 64 \<le> unat v * 10 + d"
    using assms by (simp add: div_less_iff_less_mult) arith
  finally show ?thesis .
qed

lemma u64_step_value:
  fixes v :: u64
  assumes "d < 10" and "unat v * 10 + d < 2 ^ 64"
  shows "unat (v * 10 + of_nat d) = unat v * 10 + d"
proof -
  have "unat (v * 10) = unat v * 10"
    using assms by (subst unat_mult_lem[THEN iffD1]) auto
  then show ?thesis
    using assms by (subst unat_add_lem[THEN iffD1]) (auto simp: unat_of_nat)
qed

lemma parse_u64_loop_ok_iff:
  "parse_u64_loop v s = U64Ok r \<longleftrightarrow>
     list_all is_digit s \<and> dec_value (unat v) s < 2 ^ 64 \<and> unat r = dec_value (unat v) s"
proof (induction s arbitrary: v)
  case Nil
  have "unat v < 2 ^ 64" using unsigned_less[of v] by simp
  then show ?case by (auto dest: word_unat_eq_iff[THEN iffD2])
next
  case (Cons ch s)
  let ?d = "digit_value ch"
  show ?case
  proof (cases "is_digit ch")
    case True
    note d = is_digit_value[OF True]
    show ?thesis
    proof (cases "2 ^ 64 \<le> unat v * 10 + ?d")
      case True
      then have "2 ^ 64 \<le> dec_value (10 * unat v + ?d) s"
        using dec_value_ge[of "10 * unat v + ?d" s] by (simp add: mult.commute)
      with True \<open>is_digit ch\<close> show ?thesis
        by (simp add: u64_step_overflow[OF d] Let_def)
    next
      case False
      then show ?thesis
        using \<open>is_digit ch\<close> u64_step_value[OF d, of v]
        by (simp add: u64_step_overflow[OF d] Let_def Cons.IH mult.commute)
    qed
  qed simp
qed

lemma dec_value_show_nat: "dec_value 0 (show_nat n) = n"
proof (induction n rule: show_nat.induct)
  case (1 n)
  then show ?case
    by (subst show_nat.simps) (auto simp: dec_value_append digit_value_def of_char_of)
qed

lemma is_digit_ascii: "(n :: nat) < 10 \<Longrightarrow> is_digit (char_of (48 + n))"
  by (simp add: is_digit_def of_char_le_iff)

lemma show_nat_digits: "list_all is_digit (show_nat n)"
proof (induction n rule: show_nat.induct)
  case (1 n)
  then show ?case
    by (subst show_nat.simps) (simp add: is_digit_ascii)
qed

subsection \<open>What a successful parse guarantees\<close>

definition duration_ok :: "double \<Rightarrow> bool" where
  "duration_ok d \<longleftrightarrow> d_isfinite d \<and> \<not> d_less d (DFinite 0)"

definition options_ok :: "CliOptions \<Rightarrow> bool" where
  "options_ok opt \<longleftrightarrow>
     1 \<le> o_repeat_n opt \<and> o_repeat_n opt \<le> 1000000
     \<and> 1 \<le> o_jitter_bins opt \<and> o_jitter_bins opt \<le> 2147483647
     \<and> duration_ok (min_epoch_time_s (o_bench_cfg opt))
     \<and> duration_ok (min_total_time_s (o_bench_cfg opt))
     \<and> duration_ok (max_total_time_s (o_bench_cfg opt))"

named_theorems handler_defs \<open>the option handlers, unfolded together\<close>

lemmas handlers [handler_defs] =
  on_seed_def on_repeat_def on_async_log_tail_def on_run_def on_filter_def on_kind_def
  on_time_unit_def on_report_format_def on_junit_def on_allure_dir_def on_removed_def
  on_min_epoch_def on_min_total_def on_max_total_def on_warmup_def on_epochs_def
  on_jitter_bins_def

lemma map_sum_Inr_iff: "map_sum f g x = Inr y \<longleftrightarrow> (\<exists>z. x = Inr z \<and> y = g z)"
  by (cases x) auto

lemma non_negative_double_ok:
  "parse_non_negative_double_option e n v = Inr d \<Longrightarrow> duration_ok d"
  by (auto simp: parse_non_negative_double_option_def parse_double_option_def duration_ok_def
      split: if_splits sum.splits option.splits prod.splits)

lemma uint_int_max: "\<not> bins > int_max \<Longrightarrow> uint bins \<le> 2147483647"
  unfolding int_max_def by (simp add: word_le_def not_less)

lemma uint_nonzero: "bins \<noteq> (0 :: u64) \<Longrightarrow> 1 \<le> uint bins"
  by (metis linorder_not_less uint_0_iff uint_ge_0 zle_diff1_eq diff_self not_le order_antisym_conv add_0 zless_imp_add1_zle)

lemma options_ok_default: "options_ok default_options"
  by (simp add: options_ok_def default_options_def default_bench_config_def duration_ok_def)

lemma clamp_repeat_range: "1 \<le> clamp_repeat r" "clamp_repeat r \<le> 1000000"
  by (auto simp: clamp_repeat_def Let_def word_le_nat_alt word_less_nat_alt unat_gt_0 Suc_le_eq)

subsection \<open>Invariants of the argument loop\<close>

text \<open>
  A property of the parser state that the initial state has, that every switch keeps and
  that every handler keeps when it accepts a non-empty value (the loop passes no other),
  holds when the loop is done.
\<close>

locale parse_invariant =
  fixes env :: cli_env and P :: "parse_state \<Rightarrow> bool"
  assumes init: "P init_parse_state"
    and switch: "P st \<Longrightarrow> parse_switch s st = Some st' \<Longrightarrow> P st'"
    and handler: "P st \<Longrightarrow> (True, n, h) \<in> set (value_options env st) \<Longrightarrow> v \<noteq> [] \<Longrightarrow> h v = Inr st' \<Longrightarrow> P st'"
begin

lemma match_value_nonempty: "match_value s n rest = MatchYes v rest' \<Longrightarrow> v \<noteq> []"
  by (auto simp: match_value_def Let_def split: if_splits list.splits option.splits)

lemma first_option_keeps:
  "P st \<Longrightarrow> set opts \<subseteq> set (value_options env st) \<Longrightarrow> first_option opts s rest = Consumed st' rest' \<Longrightarrow> P st'"
proof (induction opts s rest rule: first_option.induct)
  case (2 guard name h opts s rest)
  then show ?case
    by (auto simp: parse_value_option_def split: if_splits ValueMatch.splits sum.splits
        intro: handler dest: match_value_nonempty)
qed simp

lemma parse_arg_keeps: "P st \<Longrightarrow> parse_arg env st s rest = Inr (st', rest') \<Longrightarrow> P st'"
  by (auto simp: parse_arg_def split: option.splits OptionParseResult.splits if_splits
      intro: switch first_option_keeps[OF _ subset_refl])

lemma parse_loop_keeps: "P st \<Longrightarrow> parse_loop env st as = Inr st' \<Longrightarrow> P st'"
proof (induction "length as" arbitrary: st as rule: less_induct)
  case less
  consider "as = []" | rest where "as = None # rest" | s rest where "as = Some s # rest"
    by (cases as; cases "hd as") auto
  then show ?case
  proof cases
    case (3 s rest)
    with less.prems obtain st1 rest1 where arg: "parse_arg env st s rest = Inr (st1, rest1)"
      and loop: "parse_loop env st1 rest1 = Inr st'"
      by (auto split: sum.splits)
    show ?thesis
      using less.hyps[OF _ parse_arg_keeps[OF less.prems(1) arg] loop] parse_arg_rest[OF arg] 3
      by simp
  qed (use less in auto)
qed

lemma parse_loop_result: "parse_loop env init_parse_state as = Inr st \<Longrightarrow> P st"
  by (rule parse_loop_keeps[OF init])

end

definition state_ok :: "parse_state \<Rightarrow> bool" where
  "state_ok st \<longleftrightarrow> options_ok (ps_opt st)"

lemma state_ok_switch: "state_ok st \<Longrightarrow> parse_switch s st = Some st' \<Longrightarrow> state_ok st'"
  by (auto simp: parse_switch_def state_ok_def options_ok_def upd_opt_def split: if_splits)

lemma state_ok_handler:
  assumes "state_ok st" and "(True, n, h) \<in> set (value_options e st)" and "h v = Inr st'"
  shows "state_ok st'"
  using assms
  by (auto simp: value_options_def handler_defs state_ok_def options_ok_def upd_opt_def upd_cfg_def
      map_sum_Inr_iff Let_def uint_int_max uint_nonzero clamp_repeat_range split: sum.splits if_splits)
     (erule non_negative_double_ok)+

interpretation ok_state: parse_invariant e state_ok for e
  by unfold_locales
     (auto simp: state_ok_def init_parse_state_def options_ok_default
       intro: state_ok_switch[unfolded state_ok_def] state_ok_handler[unfolded state_ok_def])

subsection \<open>Properties of the parser\<close>

lemma finish_options_keeps:
  "finish_options e st = Inr opt \<Longrightarrow> state_ok st \<Longrightarrow> options_ok opt"
  by (auto simp: finish_options_def state_ok_def options_ok_def Let_def split: if_splits)

lemma finish_options_checks:
  "finish_options e st = Inr opt \<Longrightarrow>
     1 \<le> measure_epochs (o_bench_cfg opt)
     \<and> \<not> (d_less (DFinite 0) (max_total_time_s (o_bench_cfg opt))
          \<and> d_less (max_total_time_s (o_bench_cfg opt)) (min_total_time_s (o_bench_cfg opt)))
     \<and> \<not> (o_bench_table opt \<and> o_kind opt = KindJitter)"
  by (auto simp: finish_options_def Let_def word_le_nat_alt unat_gt_0 Suc_le_eq split: if_splits)

lemma parse_arg_env: "e_stod e = e_stod e' \<Longrightarrow> parse_arg e st s rest = parse_arg e' st s rest"
proof -
  assume "e_stod e = e_stod e'"
  then have "parse_non_negative_double_option e = parse_non_negative_double_option e'"
    by (intro ext) (simp add: parse_non_negative_double_option_def parse_double_option_def)
  then have "value_options e st = value_options e' st"
    by (simp add: value_options_def on_min_epoch_def[abs_def] on_min_total_def[abs_def] on_max_total_def[abs_def])
  then show ?thesis unfolding parse_arg_def by (cases "parse_switch s st") simp_all
qed

lemma env_queries_rd [simp]:
  "env_no_color (e\<lparr>e_rd_first := r1, e_rd_second := r2\<rparr>) = env_no_color e"
  "env_plain_output (e\<lparr>e_rd_first := r1, e_rd_second := r2\<rparr>) = env_plain_output e"
  "env_github_actions (e\<lparr>e_rd_first := r1, e_rd_second := r2\<rparr>) = env_github_actions e"
  by (simp_all add: env_no_color_def env_plain_output_def env_github_actions_def
      env_has_value_def env_value_def env_equals_def env_flag_enabled_def env_flag_disabled_def)

lemma finish_options_seed:
  "finish_options e st = Inr opt \<Longrightarrow> o_seed_provided opt = o_seed_provided (ps_opt st)"
  by (auto simp: finish_options_def Let_def split: if_splits)

lemma finish_options_rd:
  "o_seed_provided (ps_opt st) \<Longrightarrow>
     finish_options (e\<lparr>e_rd_first := r1, e_rd_second := r2\<rparr>) st = finish_options e st"
  by (simp add: finish_options_def Let_def cong: if_cong)

lemma finish_options_shuffle_seed:
  "finish_options e st = Inr opt \<Longrightarrow> o_seed_provided opt \<Longrightarrow> o_shuffle opt \<Longrightarrow> o_shuffle_seed opt = o_seed_value opt"
  by (auto simp: finish_options_def Let_def split: if_splits)

lemma parse_loop_env: "e_stod e = e_stod e' \<Longrightarrow> parse_loop e st as = parse_loop e' st as"
proof (induction e st as rule: parse_loop.induct)
  case (3 e st s rest)
  then show ?case
    by (auto simp: parse_arg_env[OF 3(2)] split: sum.splits)
qed auto

definition sample_env :: cli_env where
  "sample_env =
     \<lparr>e_getenv = (\<lambda>n. if n = ''TERM'' then Some ''xterm'' else None), e_stdout_is_tty = True,
      e_stod = (\<lambda>s. if s = ''0.5'' then Some (DFinite (1 / 2), 3) else None),
      e_rd_first = 3, e_rd_second = 5\<rparr>"

text \<open>
  The strict decimal parser behind \<^verbatim>\<open>--seed\<close>, \<^verbatim>\<open>--repeat\<close> and the
  other numeric options accepts exactly the non-empty digit strings whose value fits in 64
  bits, and returns that value: the division-based overflow test neither wraps nor rejects
  a representable number.
\<close>

theorem parse_u64_decimal_strict_exact:
  "parse_u64_decimal_strict s = U64Ok v \<longleftrightarrow>
     s \<noteq> [] \<and> list_all is_digit s \<and> dec_value 0 s < 2 ^ 64 \<and> unat v = dec_value 0 s"
  by (simp add: parse_u64_decimal_strict_def parse_u64_loop_ok_iff)

text \<open>
  Printing a 64-bit number in decimal and parsing it back gives the number, for every
  value of the type.
\<close>

theorem parse_u64_roundtrip: "parse_u64_decimal_strict (show_nat (unat v)) = U64Ok v"
proof -
  have "unat v < 2 ^ 64" using unsigned_less[of v] by simp
  then show ?thesis
    by (simp add: parse_u64_decimal_strict_def parse_u64_loop_ok_iff dec_value_show_nat show_nat_digits)
qed

text \<open>
  C11. Every option record that \<^verbatim>\<open>parse_cli\<close> returns is in range, whatever the
  arguments and the environment: between one and a million repetitions, at least one
  measuring epoch, a positive number of jitter bins that fits an \<^verbatim>\<open>int\<close>, finite
  non-negative durations with the minimum total not above a positive maximum, and no bench
  table requested for a jitter-only selection.
\<close>

theorem parse_cli_result_in_range:
  assumes "parse_cli e as = Inr opt"
  shows "options_ok opt \<and> 1 \<le> measure_epochs (o_bench_cfg opt)
     \<and> \<not> (d_less (DFinite 0) (max_total_time_s (o_bench_cfg opt))
          \<and> d_less (max_total_time_s (o_bench_cfg opt)) (min_total_time_s (o_bench_cfg opt)))
     \<and> \<not> (o_bench_table opt \<and> o_kind opt = KindJitter)"
proof -
  from assms obtain st where loop: "parse_loop e init_parse_state (parse_start as) = Inr st"
    and fin: "finish_options e st = Inr opt"
    by (auto simp: parse_cli_def split: sum.splits)
  from ok_state.parse_loop_result[OF loop] show ?thesis
    using finish_options_keeps[OF fin] finish_options_checks[OF fin] by simp
qed

theorem parse_cli_result_in_range_witness:
  "\<exists>opt. parse_cli sample_env
           [Some ''prog'', Some ''--repeat=0'', None, Some ''--bench-epochs'', Some ''0'',
            Some ''--jitter-bins=7'', Some ''--bench-max-total-time-s'', Some ''0.5''] = Inr opt
     \<and> o_repeat_n opt = 1 \<and> o_jitter_bins opt = 7 \<and> measure_epochs (o_bench_cfg opt) = 1
     \<and> options_ok opt"
proof -
  let ?as = "[Some ''prog'', Some ''--repeat=0'', None, Some ''--bench-epochs'', Some ''0'',
              Some ''--jitter-bins=7'', Some ''--bench-max-total-time-s'', Some ''0.5'']"
  have "(case parse_cli sample_env ?as of Inl _ \<Rightarrow> False
        | Inr opt \<Rightarrow> o_repeat_n opt = 1 \<and> o_jitter_bins opt = 7 \<and> measure_epochs (o_bench_cfg opt) = 1)"
    by code_simp
  then obtain opt where "parse_cli sample_env ?as = Inr opt" "o_repeat_n opt = 1" "o_jitter_bins opt = 7"
    "measure_epochs (o_bench_cfg opt) = 1"
    by (auto split: sum.splits)
  then show ?thesis using parse_cli_result_in_range[of sample_env ?as opt] by blast
qed

text \<open>
  A run whose seed was given on the command line is reproducible: when the parsed options
  say a seed was provided, the same arguments give the same options, shuffle seed included,
  whatever the random device returns, and a shuffled run uses exactly the seed given.
\<close>

theorem parse_cli_seed_reproducible:
  assumes "parse_cli e as = Inr opt" and "o_seed_provided opt"
  shows "parse_cli (e\<lparr>e_rd_first := r1, e_rd_second := r2\<rparr>) as = Inr opt
     \<and> (o_shuffle opt \<longrightarrow> o_shuffle_seed opt = o_seed_value opt)"
proof -
  let ?e = "e\<lparr>e_rd_first := r1, e_rd_second := r2\<rparr>"
  from assms(1) obtain st where loop: "parse_loop e init_parse_state (parse_start as) = Inr st"
    and fin: "finish_options e st = Inr opt"
    by (auto simp: parse_cli_def split: sum.splits)
  have "parse_loop ?e init_parse_state (parse_start as) = Inr st"
    using loop parse_loop_env[of ?e e] by simp
  moreover have "finish_options ?e st = Inr opt"
    using fin assms(2) finish_options_seed[OF fin] finish_options_rd by simp
  moreover have "o_shuffle opt \<longrightarrow> o_shuffle_seed opt = o_seed_value opt"
    using finish_options_shuffle_seed[OF fin assms(2)] by simp
  ultimately show ?thesis by (simp add: parse_cli_def)
qed

theorem parse_cli_seed_reproducible_witness:
  "\<exists>opt. parse_cli sample_env [Some ''--shuffle'', Some ''--seed=42''] = Inr opt
     \<and> parse_cli (sample_env\<lparr>e_rd_first := 9, e_rd_second := 11\<rparr>) [Some ''--shuffle'', Some ''--seed=42''] = Inr opt
     \<and> o_shuffle_seed opt = 42"
proof -
  let ?as = "[Some ''--shuffle'', Some ''--seed=42'']"
  have "(case parse_cli sample_env ?as of Inl _ \<Rightarrow> False
        | Inr opt \<Rightarrow> o_seed_provided opt \<and> o_shuffle opt \<and> o_seed_value opt = 42)"
    by code_simp
  then obtain opt where ok: "parse_cli sample_env ?as = Inr opt" and seed: "o_seed_provided opt"
    and opt: "o_shuffle opt" "o_seed_value opt = 42"
    by (cases "parse_cli sample_env ?as") simp_all
  note rep = parse_cli_seed_reproducible[OF ok seed, where ?r1.0 = 9 and ?r2.0 = 11]
  have "o_shuffle_seed opt = 42" using rep opt by simp
  with ok conjunct1[OF rep] show ?thesis by (intro exI[of _ opt] conjI)
qed

end
