(* ===== verification/Report_Text.thy ===== *)
theory Report_Text
  imports Prelude
begin

section \<open>Text encodings of the reports: \<^verbatim>\<open>src/runner_reporting.cpp\<close>\<close>

text \<open>
  The escapers of GitHub annotations and of the JUnit document, the UTF-8 decoder and the
  sanitiser.  A \<^verbatim>\<open>std::string\<close> is a list of bytes; a \<^verbatim>\<open>char32_t\<close>
  is a \<^typ>\<open>nat\<close> (every value computed here has at most 21 bits).  The readers of the
  formats (entity decoding, CDATA sections, percent decoding, the UTF-8 encoder) are
  reference definitions: the escapers are correct because those readers recover the input.
\<close>

unbundle bit_operations_syntax

subsection \<open>GitHub workflow commands\<close>

definition gha_escape_message_char :: "char \<Rightarrow> string" where
  "gha_escape_message_char ch =
     (if ch = CHR ''%'' then ''%25'' else if ch = CHR 0x0D then ''%0D'' else if ch = CHR 0x0A then ''%0A''
      else [ch])"

definition gha_escape_message :: "string \<Rightarrow> string" where
  "gha_escape_message s = concat (map gha_escape_message_char s)"

definition gha_escape_property_char :: "char \<Rightarrow> string" where
  "gha_escape_property_char ch =
     (if ch = CHR ''%'' then ''%25'' else if ch = CHR 0x0D then ''%0D'' else if ch = CHR 0x0A then ''%0A''
      else if ch = CHR '':'' then ''%3A'' else if ch = CHR '','' then ''%2C'' else [ch])"

definition gha_escape_property :: "string \<Rightarrow> string" where
  "gha_escape_property s = concat (map gha_escape_property_char s)"

subsection \<open>UTF-8\<close>

record Utf8DecodeResult =
  u_code_point :: nat
  u_width :: nat
  u_valid :: bool

definition is_xml_char :: "nat \<Rightarrow> bool" where
  "is_xml_char cp \<longleftrightarrow> cp = 0x09 \<or> cp = 0x0A \<or> cp = 0x0D \<or> (cp \<ge> 0x20 \<and> cp \<le> 0xD7FF)
     \<or> (cp \<ge> 0xE000 \<and> cp \<le> 0xFFFD) \<or> (cp \<ge> 0x10000 \<and> cp \<le> 0x10FFFF)"

definition is_utf8_continuation :: "nat \<Rightarrow> bool" where
  "is_utf8_continuation ch \<longleftrightarrow> ch AND 0xC0 = 0x80"

definition byte_at :: "string \<Rightarrow> nat \<Rightarrow> nat" where
  "byte_at s i = of_char (s ! i)"

definition utf8_invalid :: Utf8DecodeResult where
  "utf8_invalid = \<lparr>u_code_point = 0, u_width = 1, u_valid = False\<rparr>"

definition decode_utf8 :: "string \<Rightarrow> nat \<Rightarrow> Utf8DecodeResult" where
  "decode_utf8 s pos =
     (let remaining = length s - pos; first = byte_at s pos
      in if first < 0x80 then \<lparr>u_code_point = first, u_width = 1, u_valid = True\<rparr>
         else if first < 0xC2 then utf8_invalid
         else if first \<le> 0xDF then
           (if remaining < 2 then utf8_invalid
            else let second = byte_at s (pos + 1)
                 in if \<not> is_utf8_continuation second then utf8_invalid
                    else \<lparr>u_code_point = push_bit 6 (first AND 0x1F) OR (second AND 0x3F), u_width = 2, u_valid = True\<rparr>)
         else if first \<le> 0xEF then
           (if remaining < 3 then utf8_invalid
            else let second = byte_at s (pos + 1); third = byte_at s (pos + 2)
                 in if \<not> is_utf8_continuation second \<or> \<not> is_utf8_continuation third then utf8_invalid
                    else if (first = 0xE0 \<and> second < 0xA0) \<or> (first = 0xED \<and> second \<ge> 0xA0) then utf8_invalid
                    else \<lparr>u_code_point = push_bit 12 (first AND 0x0F) OR push_bit 6 (second AND 0x3F) OR (third AND 0x3F),
                          u_width = 3, u_valid = True\<rparr>)
         else if first \<le> 0xF4 then
           (if remaining < 4 then utf8_invalid
            else let second = byte_at s (pos + 1); third = byte_at s (pos + 2); fourth = byte_at s (pos + 3)
                 in if \<not> is_utf8_continuation second \<or> \<not> is_utf8_continuation third \<or> \<not> is_utf8_continuation fourth
                    then utf8_invalid
                    else if (first = 0xF0 \<and> second < 0x90) \<or> (first = 0xF4 \<and> second \<ge> 0x90) then utf8_invalid
                    else \<lparr>u_code_point = push_bit 18 (first AND 0x07) OR push_bit 12 (second AND 0x3F)
                            OR push_bit 6 (third AND 0x3F) OR (fourth AND 0x3F),
                          u_width = 4, u_valid = True\<rparr>)
         else utf8_invalid)"

lemma decode_utf8_width: "0 < u_width (decode_utf8 s pos)"
  by (simp add: decode_utf8_def utf8_invalid_def Let_def)

function sanitize_loop :: "string \<Rightarrow> nat \<Rightarrow> string" where
  "sanitize_loop s pos =
     (if pos < length s then
        let decoded = decode_utf8 s pos
        in (if \<not> u_valid decoded \<or> \<not> is_xml_char (u_code_point decoded) then ''?''
            else take (u_width decoded) (drop pos s))
           @ sanitize_loop s (pos + u_width decoded)
      else [])"
  by pat_completeness auto

termination sanitize_loop
  by (relation "measure (\<lambda>(s, pos). length s - pos)") (use decode_utf8_width in \<open>auto intro: diff_less_mono2\<close>)

declare sanitize_loop.simps [simp del]

definition sanitize_xml_text :: "string \<Rightarrow> string" where
  "sanitize_xml_text s = sanitize_loop s 0"

subsection \<open>XML\<close>

definition escape_xml_char :: "char \<Rightarrow> string" where
  "escape_xml_char ch =
     (if ch = CHR ''&'' then ''&amp;'' else if ch = CHR ''<'' then ''&lt;'' else if ch = CHR ''>'' then ''&gt;''
      else if ch = CHR 0x22 then ''&quot;'' else [ch])"

definition escape_xml :: "string \<Rightarrow> string" where
  "escape_xml s = concat (map escape_xml_char (sanitize_xml_text s))"

text \<open>\<^verbatim>\<open>sanitized.find("]]>", pos)\<close>, relative to \<open>pos\<close>.\<close>

fun find_cdata_end :: "string \<Rightarrow> nat option" where
  "find_cdata_end [] = None"
| "find_cdata_end (c # t) =
     (if starts_with (c # t) '']]>'' then Some 0 else map_option Suc (find_cdata_end t))"

lemma find_cdata_end_bound: "find_cdata_end s = Some n \<Longrightarrow> n < length s"
  by (induction s arbitrary: n) (auto split: if_splits)

function cdata_loop :: "string \<Rightarrow> string" where
  "cdata_loop rest =
     (case find_cdata_end rest of
        None \<Rightarrow> rest
      | Some n \<Rightarrow> take n rest @ '']]]]><![CDATA[>'' @ cdata_loop (drop (n + 3) rest))"
  by pat_completeness auto

termination cdata_loop
  by (relation "measure length") (auto dest: find_cdata_end_bound)

declare cdata_loop.simps [simp del]

definition write_xml_cdata :: "string \<Rightarrow> string" where
  "write_xml_cdata s = ''<![CDATA['' @ cdata_loop (sanitize_xml_text s) @ '']]>''"

subsection \<open>Readers of the formats\<close>

text \<open>A table-driven unescaper: the first code that is a prefix is replaced by its character.\<close>

function decode_with :: "(string \<times> char) list \<Rightarrow> string \<Rightarrow> string" where
  "decode_with tab [] = []"
| "decode_with tab (c # t) =
     (case find (\<lambda>(code, ch). code \<noteq> [] \<and> starts_with (c # t) code) tab of
        None \<Rightarrow> c # decode_with tab t
      | Some (code, ch) \<Rightarrow> ch # decode_with tab (drop (length code) (c # t)))"
  by pat_completeness auto

termination decode_with
  by (relation "measure (length \<circ> snd)") (auto simp: find_Some_iff)

definition gha_codes :: "(string \<times> char) list" where
  "gha_codes = [(''%25'', CHR ''%''), (''%0D'', CHR 0x0D), (''%0A'', CHR 0x0A), (''%3A'', CHR '':''), (''%2C'', CHR '','')]"

definition xml_codes :: "(string \<times> char) list" where
  "xml_codes = [(''&amp;'', CHR ''&''), (''&lt;'', CHR ''<''), (''&gt;'', CHR ''>''), (''&quot;'', CHR 0x22)]"

text \<open>
  The contract of an escaper: a decoder undoes it character by character.  Everything else
  (recovery of whole texts, injectivity, absence of forbidden characters) follows once.
\<close>

locale char_escape =
  fixes esc :: "char \<Rightarrow> string" and dec :: "string \<Rightarrow> string" and forbidden :: "char set"
  assumes dec_nil: "dec [] = []"
    and dec_esc: "dec (esc c @ t) = c # dec t"
    and esc_clean: "set (esc c) \<inter> forbidden = {}"
begin

lemma dec_text: "dec (concat (map esc s)) = s"
  by (induction s) (simp_all add: dec_nil dec_esc)

lemma text_inj: "concat (map esc s) = concat (map esc t) \<Longrightarrow> s = t"
  by (metis dec_text)

lemma text_clean: "c \<in> forbidden \<Longrightarrow> c \<notin> set (concat (map esc s))"
  using esc_clean by auto

end

interpretation gha_message: char_escape gha_escape_message_char "decode_with gha_codes" "{CHR 0x0A, CHR 0x0D}"
  by unfold_locales (auto simp: gha_escape_message_char_def gha_codes_def starts_with_def)

interpretation gha_property: char_escape gha_escape_property_char "decode_with gha_codes"
    "{CHR 0x0A, CHR 0x0D, CHR '':'', CHR '',''}"
  by unfold_locales (auto simp: gha_escape_property_char_def gha_codes_def starts_with_def)

interpretation xml_entity: char_escape escape_xml_char "decode_with xml_codes" "{CHR ''<'', CHR ''>'', CHR 0x22}"
  by unfold_locales (auto simp: escape_xml_char_def xml_codes_def starts_with_def)

text \<open>
  A reader of adjacent CDATA sections, as the XML specification has it: a section ends at the
  first \<^verbatim>\<open>]]>\<close>, and the contents of adjacent sections are concatenated.
\<close>

function read_cdata_body :: "string \<Rightarrow> string option" where
  "read_cdata_body [] = None"
| "read_cdata_body (c # t) =
     (if starts_with (c # t) '']]>''
      then (let rest = drop 3 (c # t)
            in if rest = [] then Some []
               else if starts_with rest ''<![CDATA['' then read_cdata_body (drop 9 rest)
               else None)
      else map_option ((#) c) (read_cdata_body t))"
  by pat_completeness auto

termination read_cdata_body
  by (relation "measure length") auto

definition read_cdata :: "string \<Rightarrow> string option" where
  "read_cdata s = (if starts_with s ''<![CDATA['' then read_cdata_body (drop 9 s) else None)"

text \<open>The encoder of RFC 3629 for Unicode scalar values.\<close>

definition is_scalar :: "nat \<Rightarrow> bool" where
  "is_scalar cp \<longleftrightarrow> cp < 0xD800 \<or> 0xE000 \<le> cp \<and> cp < 0x110000"

definition encode_utf8 :: "nat \<Rightarrow> string" where
  "encode_utf8 cp =
     map char_of (if cp < 0x80 then [cp]
       else if cp < 0x800 then [0xC0 + cp div 64, 0x80 + cp mod 64]
       else if cp < 0x10000 then [0xE0 + cp div 4096, 0x80 + cp div 64 mod 64, 0x80 + cp mod 64]
       else [0xF0 + cp div 262144, 0x80 + cp div 4096 mod 64, 0x80 + cp div 64 mod 64, 0x80 + cp mod 64])"

definition utf8_text :: "nat list \<Rightarrow> string" where
  "utf8_text cps = concat (map encode_utf8 cps)"

subsection \<open>UTF-8 decoding against the encoder\<close>

lemma and_low: "a AND 0x3F = a mod 64" "a AND 0x1F = a mod 32" "a AND 0x0F = a mod 16" "a AND 0x07 = a mod 8" for a :: nat
  using take_bit_eq_mask[of 6 a] take_bit_eq_mask[of 5 a] take_bit_eq_mask[of 4 a] take_bit_eq_mask[of 3 a]
  by (simp_all add: take_bit_eq_mod mask_eq_exp_minus_1)

lemma or_shift: "b < 2 ^ n \<Longrightarrow> push_bit n a OR b = a * 2 ^ n + b" for a b :: nat
proof -
  assume b: "b < 2 ^ n"
  have "push_bit n a AND b = 0"
  proof (rule bit_eqI)
    fix k
    show "bit (push_bit n a AND b) k \<longleftrightarrow> bit (0::nat) k"
      using b by (auto simp: bit_and_iff bit_push_bit_iff) (metis bit_take_bit_iff leD take_bit_nat_eq_self)
  qed
  then show ?thesis by (simp add: disjunctive_add_eq_or[symmetric] push_bit_eq_mult)
qed
lemma cont: "n < 256 \<Longrightarrow> is_utf8_continuation n \<longleftrightarrow> 128 \<le> n \<and> n < 192"
proof -
  assume n: "n < 256"
  have "n AND push_bit k m = push_bit k (drop_bit k n AND m)" for k m :: nat
    by (rule bit_eqI) (auto simp: bit_and_iff bit_push_bit_iff bit_drop_bit_eq)
  from this[of 6 3] have "n AND 192 = push_bit 6 (drop_bit 6 n AND 3)" by simp
  moreover have "drop_bit 6 n AND 3 = (n div 64) mod 4"
    using take_bit_eq_mask[of 2 "drop_bit 6 n"] by (simp add: take_bit_eq_mod drop_bit_eq_div mask_eq_exp_minus_1)
  moreover have "n div 64 < 4" using n by simp
  ultimately have "n AND 192 = n div 64 * 64" by (simp add: push_bit_eq_mult)
  then show ?thesis unfolding is_utf8_continuation_def by auto
qed

lemma decode_drop: "pos < length s \<Longrightarrow> decode_utf8 s pos = decode_utf8 (drop pos s) 0"
  by (simp add: decode_utf8_def byte_at_def Let_def)
  
lemma code_points:
  "push_bit 6 (a AND 0x1F) OR (b AND 0x3F) = (a mod 32) * 64 + b mod 64"
  "push_bit 12 (a AND 0x0F) OR push_bit 6 (b AND 0x3F) OR (c AND 0x3F) = (a mod 16) * 4096 + (b mod 64) * 64 + c mod 64"
  "push_bit 18 (a AND 0x07) OR push_bit 12 (b AND 0x3F) OR push_bit 6 (c AND 0x3F) OR (d AND 0x3F)
    = (a mod 8) * 262144 + (b mod 64) * 4096 + (c mod 64) * 64 + d mod 64" for a b c d :: nat
proof -
  have m: "x mod 64 < 64" "x mod 64 * 64 + y mod 64 < 4096" "x mod 64 * 4096 + (y mod 64 * 64 + z mod 64) < 262144"
    for x y z :: nat
    using mod_less_divisor[of 64 x] mod_less_divisor[of 64 y] mod_less_divisor[of 64 z] by linarith+
  have o: "push_bit 6 x OR y mod 64 = x * 64 + y mod 64" for x y :: nat
    using or_shift[of "y mod 64" 6 x] m(1) by simp
  have o2: "push_bit 12 x OR (y mod 64 * 64 + z mod 64) = x * 4096 + (y mod 64 * 64 + z mod 64)" for x y z :: nat
    using or_shift[of "y mod 64 * 64 + z mod 64" 12 x] m(2) by simp
  have o3: "push_bit 18 x OR (w mod 64 * 4096 + (y mod 64 * 64 + z mod 64)) = x * 262144 + (w mod 64 * 4096 + (y mod 64 * 64 + z mod 64))"
    for w x y z :: nat
    using or_shift[of "w mod 64 * 4096 + (y mod 64 * 64 + z mod 64)" 18 x] m(3) by simp
  show "push_bit 6 (a AND 0x1F) OR (b AND 0x3F) = (a mod 32) * 64 + b mod 64"
    "push_bit 12 (a AND 0x0F) OR push_bit 6 (b AND 0x3F) OR (c AND 0x3F) = (a mod 16) * 4096 + (b mod 64) * 64 + c mod 64"
    "push_bit 18 (a AND 0x07) OR push_bit 12 (b AND 0x3F) OR push_bit 6 (c AND 0x3F) OR (d AND 0x3F)
    = (a mod 8) * 262144 + (b mod 64) * 4096 + (c mod 64) * 64 + d mod 64"
    by (simp_all only: and_low o o2 o3 add.assoc)
qed

lemmas decode_utf8_arith = decode_utf8_def[unfolded code_points]

lemma lead_mods:
  "d < 64 \<Longrightarrow> (128 + d) mod 64 = d" "a < 32 \<Longrightarrow> (192 + a) mod 32 = a"
  "a < 16 \<Longrightarrow> (224 + a) mod 16 = a" "a < 8 \<Longrightarrow> (240 + a) mod 8 = a" for a d :: nat
  using mod_mult_self3[of 2 64 d] mod_mult_self3[of 6 32 a] mod_mult_self3[of 14 16 a] mod_mult_self3[of 30 8 a]
  by simp_all

lemma digit64: "d < 64 \<Longrightarrow> is_utf8_continuation (128 + d)"
  by (simp add: cont)

lemma radix_step: "d < 64 \<Longrightarrow> (x * 64 + d) div 64 = x" "d < 64 \<Longrightarrow> (x * 64 + d) mod 64 = d" for d x :: nat
  by simp_all

lemma radix_div: "n div 4096 = n div 64 div 64" "n div 262144 = n div 64 div 64 div 64" for n :: nat
  by (simp_all add: div_mult2_eq[symmetric])

lemma radix_eq:
  "a * 4096 + b * 64 + c = (a * 64 + b) * 64 + c"
  "a * 262144 + b * 4096 + c * 64 + d = ((a * 64 + b) * 64 + c) * 64 + d" for a b c d :: nat
  by simp_all

lemma radix64:
  fixes a b c d :: nat
  assumes "b < 64" "c < 64" "d < 64"
  shows "(a * 4096 + b * 64 + c) div 4096 = a" "(a * 4096 + b * 64 + c) div 64 mod 64 = b" "(a * 4096 + b * 64 + c) mod 64 = c"
    "(a * 262144 + b * 4096 + c * 64 + d) div 262144 = a" "(a * 262144 + b * 4096 + c * 64 + d) div 4096 mod 64 = b"
    "(a * 262144 + b * 4096 + c * 64 + d) div 64 mod 64 = c" "(a * 262144 + b * 4096 + c * 64 + d) mod 64 = d"
  unfolding radix_eq radix_div by (simp_all only: radix_step assms)

lemma encode_forms:
  fixes a b c d :: nat
  assumes "b < 64" "c < 64" "d < 64"
  shows "2 \<le> a \<Longrightarrow> a < 32 \<Longrightarrow> encode_utf8 (a * 64 + b) = map char_of [0xC0 + a, 0x80 + b]"
    "a < 16 \<Longrightarrow> 32 \<le> a * 64 + b \<Longrightarrow>
      encode_utf8 (a * 4096 + b * 64 + c) = map char_of [0xE0 + a, 0x80 + b, 0x80 + c]"
    "16 \<le> a * 64 + b \<Longrightarrow>
      encode_utf8 (a * 262144 + b * 4096 + c * 64 + d) = map char_of [0xF0 + a, 0x80 + b, 0x80 + c, 0x80 + d]"
  using assms by (simp_all add: encode_utf8_def radix64)

lemma scalar_cases:
  assumes "is_scalar cp"
  obtains (one) "cp < 0x80"
  | (two) a b where "cp = a * 64 + b" "2 \<le> a" "a < 32" "b < 64"
  | (three) a b c where "cp = a * 4096 + b * 64 + c" "a < 16" "32 \<le> a * 64 + b" "b < 64" "c < 64" "a = 13 \<longrightarrow> b < 32"
  | (four) a b c d where "cp = a * 262144 + b * 4096 + c * 64 + d" "16 \<le> a * 64 + b" "a * 64 + b < 272" "b < 64" "c < 64" "d < 64"
proof -
  let ?d = "cp mod 64" and ?c = "cp div 64 mod 64" and ?b = "cp div 4096 mod 64"
  have e2: "cp = cp div 64 * 64 + ?d" by simp
  have e3: "cp = cp div 4096 * 4096 + ?c * 64 + ?d"
    unfolding radix_eq radix_div by (simp only: div_mult_mod_eq)
  have e4: "cp = cp div 262144 * 262144 + ?b * 4096 + ?c * 64 + ?d"
    unfolding radix_eq radix_div by (simp only: div_mult_mod_eq)
  have r: "?d < 64" "?c < 64" "?b < 64" by simp_all
  consider "cp < 0x80" | "0x80 \<le> cp" "cp < 0x800" | "0x800 \<le> cp" "cp < 0x10000" | "0x10000 \<le> cp" by linarith
  then show thesis
  proof cases
    case 2
    then have "2 \<le> cp div 64" "cp div 64 < 32" by linarith+
    then show ?thesis using two[OF e2 _ _ r(1)] by blast
  next
    case 3
    have "cp div 4096 = 13 \<longrightarrow> ?c < 32" using e3 r assms unfolding is_scalar_def by linarith
    moreover have "cp div 4096 < 16" "32 \<le> cp div 4096 * 64 + ?c" using 3 e3 r by linarith+
    ultimately show ?thesis using three[OF e3 _ _ r(2,1)] by blast
  next
    case 4
    have "16 \<le> cp div 262144 * 64 + ?b" "cp div 262144 * 64 + ?b < 272"
      using 4 e4 r assms unfolding is_scalar_def by linarith+
    then show ?thesis using four[OF e4 _ _ r(3,2,1)] by blast
  qed (use one in blast)
qed

lemma decode_encode:
  assumes "is_scalar cp"
  shows "decode_utf8 (encode_utf8 cp @ t) 0 = \<lparr>u_code_point = cp, u_width = length (encode_utf8 cp), u_valid = True\<rparr>"
  using assms
proof (cases rule: scalar_cases)
  case one
  then show ?thesis by (simp add: encode_utf8_def decode_utf8_arith byte_at_def)
next
  case (two a b)
  then show ?thesis
    by (simp add: encode_forms decode_utf8_arith byte_at_def Let_def digit64 lead_mods)
next
  case (three a b c)
  then have "\<not> (a = 0 \<and> b < 32)" "\<not> (a = 13 \<and> 32 \<le> b)" by auto
  then show ?thesis using three
    by (auto simp add: encode_forms decode_utf8_arith byte_at_def Let_def digit64 lead_mods)
next
  case (four a b c d)
  then have "a < 8" "\<not> (a = 0 \<and> b < 16)" "\<not> (a = 4 \<and> 16 \<le> b)" "a \<le> 4" by auto
  then show ?thesis using four
    by (auto simp add: encode_forms decode_utf8_arith byte_at_def Let_def digit64 lead_mods)
qed

lemma byte_at_less: "byte_at s i < 256"
  by (simp add: byte_at_def)

lemma cont_digit: "is_utf8_continuation (byte_at s i) \<Longrightarrow> \<exists>d<64. byte_at s i = 128 + d"
  using cont[OF byte_at_less, of s i] by (intro exI[of _ "byte_at s i - 128"]) auto

lemma char_byte_at: "s ! i = char_of (byte_at s i)"
  by (simp add: byte_at_def)

lemma take_bytes: "n \<le> length s \<Longrightarrow> take n s = map (\<lambda>i. char_of (byte_at s i)) [0..<n]"
  by (rule nth_equalityI) (auto simp: byte_at_def)

lemma upt_bytes: "[0..<2] = [0, 1]" "[0..<3] = [0, 1, 2]" "[0..<4] = [0, 1, 2, 3::nat]"
  by (simp_all add: upt_rec)

definition decodes_scalar :: "string \<Rightarrow> bool" where
  "decodes_scalar s \<longleftrightarrow>
     (let r = decode_utf8 s 0
      in is_scalar (u_code_point r) \<and> encode_utf8 (u_code_point r) = take (u_width r) s \<and> u_width r \<le> length s)"

lemma decodes_two:
  assumes "0xC2 \<le> byte_at s 0" "byte_at s 0 \<le> 0xDF" "u_valid (decode_utf8 s 0)"
  shows "decodes_scalar s"
proof -
  have l: "2 \<le> length s" and "is_utf8_continuation (byte_at s 1)"
    using assms by (auto simp: decode_utf8_arith utf8_invalid_def Let_def split: if_splits)
  then obtain b where b: "byte_at s 1 = 128 + b" "b < 64" using cont_digit by blast
  obtain a where a: "byte_at s 0 = 192 + a" "2 \<le> a" "a < 32" using assms by (intro that[of "byte_at s 0 - 192"]) auto
  have "decode_utf8 s 0 = \<lparr>u_code_point = a * 64 + b, u_width = 2, u_valid = True\<rparr>"
    using a b l by (simp add: decode_utf8_arith digit64 lead_mods)
  then show ?thesis using a b l by (simp add: decodes_scalar_def encode_forms take_bytes is_scalar_def upt_bytes)
qed

lemma decodes_three:
  assumes "0xE0 \<le> byte_at s 0" "byte_at s 0 \<le> 0xEF" "u_valid (decode_utf8 s 0)"
  shows "decodes_scalar s"
proof -
  have l: "3 \<le> length s" and "is_utf8_continuation (byte_at s 1)" "is_utf8_continuation (byte_at s 2)"
    and g: "\<not> (byte_at s 0 = 0xE0 \<and> byte_at s 1 < 0xA0)" "\<not> (byte_at s 0 = 0xED \<and> byte_at s 1 \<ge> 0xA0)"
    using assms by (auto simp: numeral_2_eq_2 decode_utf8_arith utf8_invalid_def Let_def split: if_splits)
  then obtain b c where b: "byte_at s 1 = 128 + b" "b < 64" "byte_at s 2 = 128 + c" "c < 64" using cont_digit by metis
  obtain a where a: "byte_at s 0 = 224 + a" "a < 16" using assms by (intro that[of "byte_at s 0 - 224"]) auto
  have d: "decode_utf8 s 0 = \<lparr>u_code_point = a * 4096 + b * 64 + c, u_width = 3, u_valid = True\<rparr>"
    using a b l g by (auto simp: numeral_2_eq_2 decode_utf8_arith digit64 lead_mods Let_def)
  have r: "32 \<le> a * 64 + b" "a = 13 \<longrightarrow> b < 32" using a b g by auto
  then have "is_scalar (a * 4096 + b * 64 + c)" using a b unfolding is_scalar_def
    by (cases "a = 13"; cases "a \<le> 12") auto
  then show ?thesis using a b l r by (simp add: d decodes_scalar_def encode_forms take_bytes upt_bytes)
qed

lemma decodes_four:
  assumes "0xF0 \<le> byte_at s 0" "byte_at s 0 \<le> 0xF4" "u_valid (decode_utf8 s 0)"
  shows "decodes_scalar s"
proof -
  have l: "4 \<le> length s" and "is_utf8_continuation (byte_at s 1)" "is_utf8_continuation (byte_at s 2)"
      "is_utf8_continuation (byte_at s 3)"
    and g: "\<not> (byte_at s 0 = 0xF0 \<and> byte_at s 1 < 0x90)" "\<not> (byte_at s 0 = 0xF4 \<and> byte_at s 1 \<ge> 0x90)"
    using assms by (auto simp: numeral_2_eq_2 decode_utf8_arith utf8_invalid_def Let_def split: if_splits)
  then obtain b c d where b: "byte_at s 1 = 128 + b" "b < 64" "byte_at s 2 = 128 + c" "c < 64"
      "byte_at s 3 = 128 + d" "d < 64" using cont_digit by metis
  obtain a where a: "byte_at s 0 = 240 + a" "a < 8" "a \<le> 4" using assms by (intro that[of "byte_at s 0 - 240"]) auto
  have d: "decode_utf8 s 0 = \<lparr>u_code_point = a * 262144 + b * 4096 + c * 64 + d, u_width = 4, u_valid = True\<rparr>"
    using a b l g by (auto simp: numeral_2_eq_2 decode_utf8_arith digit64 lead_mods Let_def)
  have r: "16 \<le> a * 64 + b" "a * 64 + b < 272" using a b g by auto
  then have "is_scalar (a * 262144 + b * 4096 + c * 64 + d)" using a b unfolding is_scalar_def by linarith
  then show ?thesis using a b l r by (simp add: d decodes_scalar_def encode_forms take_bytes upt_bytes)
qed

lemma encode_decode:
  assumes "s \<noteq> []" and "u_valid (decode_utf8 s 0)"
  shows "decodes_scalar s"
proof -
  consider "byte_at s 0 < 0x80" | "0xC2 \<le> byte_at s 0" "byte_at s 0 \<le> 0xDF"
    | "0xE0 \<le> byte_at s 0" "byte_at s 0 \<le> 0xEF" | "0xF0 \<le> byte_at s 0" "byte_at s 0 \<le> 0xF4"
    using assms(2) by (fastforce simp: decode_utf8_arith utf8_invalid_def Let_def)
  then show ?thesis
  proof cases
    case 1
    have "length s \<ge> 1" using assms(1) by (cases s) auto
    with 1 show ?thesis by (simp add: decodes_scalar_def decode_utf8_arith encode_utf8_def is_scalar_def take_bytes)
  qed (use assms decodes_two decodes_three decodes_four in blast)+
qed

subsection \<open>Sanitising\<close>

lemma encode_utf8_nonempty [simp]: "encode_utf8 cp \<noteq> []"
  by (simp add: encode_utf8_def)

lemma xml_char_scalar: "is_xml_char cp \<Longrightarrow> is_scalar cp"
  by (auto simp: is_xml_char_def is_scalar_def)

lemma sanitize_loop_drop: "sanitize_loop s (pos + n) = sanitize_loop (drop pos s) n"
proof (induction "length s - (pos + n)" arbitrary: n rule: less_induct)
  case less
  show ?case
  proof (cases "pos + n < length s")
    case True
    have d: "decode_utf8 (drop pos s) n = decode_utf8 s (pos + n)"
      using True decode_drop[of "pos + n" s] decode_drop[of n "drop pos s"] by (simp add: add.commute)
    have "sanitize_loop s (pos + (n + u_width (decode_utf8 s (pos + n)))) = sanitize_loop (drop pos s) (n + u_width (decode_utf8 s (pos + n)))"
      using less[of "n + u_width (decode_utf8 s (pos + n))"] decode_utf8_width[of s "pos + n"] True by simp
    moreover have "n < length (drop pos s)" using True by simp
    ultimately show ?thesis
      using True d sanitize_loop.simps[of s "pos + n"] sanitize_loop.simps[of "drop pos s" n]
      by (simp add: Let_def add.assoc add.commute[of n pos])
  next
    case False
    then have "\<not> n < length (drop pos s)" by simp
    with False show ?thesis
      using sanitize_loop.simps[of s "pos + n"] sanitize_loop.simps[of "drop pos s" n] by (simp only: if_False)
  qed
qed

lemma sanitize_step:
  assumes "s \<noteq> []"
  shows "sanitize_xml_text s =
    (let r = decode_utf8 s 0
     in (if u_valid r \<and> is_xml_char (u_code_point r) then encode_utf8 (u_code_point r) else ''?'')
        @ sanitize_xml_text (drop (u_width r) s))"
proof -
  have "sanitize_loop s (u_width (decode_utf8 s 0)) = sanitize_loop (drop (u_width (decode_utf8 s 0)) s) 0"
    using sanitize_loop_drop[of s "u_width (decode_utf8 s 0)" 0] by simp
  then show ?thesis
    using assms encode_decode[OF assms] unfolding sanitize_xml_text_def
    by (subst sanitize_loop.simps) (auto simp: decodes_scalar_def Let_def)
qed

lemma sanitize_Nil [simp]: "sanitize_xml_text [] = []"
  by (simp add: sanitize_xml_text_def sanitize_loop.simps)

lemma sanitize_encode:
  "is_xml_char cp \<Longrightarrow> sanitize_xml_text (encode_utf8 cp @ t) = encode_utf8 cp @ sanitize_xml_text t"
  using sanitize_step[of "encode_utf8 cp @ t"] by (simp add: decode_encode xml_char_scalar Let_def)

lemma sanitize_clean: "list_all is_xml_char cps \<Longrightarrow> sanitize_xml_text (utf8_text cps) = utf8_text cps"
  by (induction cps) (simp_all add: utf8_text_def sanitize_encode)

lemma question_mark: "encode_utf8 0x3F = ''?''" "is_xml_char 0x3F"
  by code_simp+

lemma sanitize_is_xml_text: "\<exists>cps. list_all is_xml_char cps \<and> sanitize_xml_text s = utf8_text cps"
proof (induction s rule: length_induct)
  case (1 s)
  show ?case
  proof (cases "s = []")
    case True
    then show ?thesis by (intro exI[of _ "[]"]) (simp add: utf8_text_def)
  next
    case False
    let ?r = "decode_utf8 s 0"
    obtain cps where cps: "list_all is_xml_char cps" "sanitize_xml_text (drop (u_width ?r) s) = utf8_text cps"
      using 1 False decode_utf8_width[of s 0] by (metis diff_less length_drop length_greater_0_conv)
    define cp where "cp = (if u_valid ?r \<and> is_xml_char (u_code_point ?r) then u_code_point ?r else 0x3F)"
    have "sanitize_xml_text s = utf8_text (cp # cps)" "is_xml_char cp"
      using sanitize_step[OF False] cps(2) question_mark by (simp_all add: cp_def utf8_text_def Let_def)
    then show ?thesis using cps(1) by (intro exI[of _ "cp # cps"]) simp
  qed
qed

subsection \<open>CDATA sections\<close>

lemma no_early_close: "\<not> starts_with (c # t) '']]>'' \<Longrightarrow> \<not> starts_with (c # t @ CHR '']'' # CHR '']'' # u) '']]>''"
  by (cases t; cases "tl t") (auto simp: starts_with_def)

lemma no_close_take: "\<not> starts_with s p \<Longrightarrow> \<not> starts_with (take n s) p"
  by (metis append.assoc append_take_drop_id starts_with_iff)

lemma read_cdata_last: "find_cdata_end x = None \<Longrightarrow> read_cdata_body (x @ '']]>'') = Some x"
proof (induction x)
  case (Cons c t)
  then show ?case using no_early_close[of c t "''>''"] by (simp split: if_splits)
qed (simp add: starts_with_def)

lemma read_cdata_split:
  "find_cdata_end x = Some n \<Longrightarrow>
     read_cdata_body (take n x @ '']]]]><![CDATA[>'' @ r) = map_option (\<lambda>y. take n x @ '']]>'' @ y) (read_cdata_body r)"
proof (induction x arbitrary: n)
  case (Cons c t)
  show ?case
  proof (cases "starts_with (c # t) '']]>''")
    case True
    then show ?thesis using Cons.prems by (simp add: starts_with_def option.map_comp o_def)
  next
    case False
    then obtain m where m: "find_cdata_end t = Some m" "n = Suc m" using Cons.prems by auto
    have "\<not> starts_with (c # take m t) '']]>''"
      using no_close_take[OF False, of n] m by simp
    from no_early_close[OF this, of "'']]><![CDATA[>'' @ r"] show ?thesis
      using Cons.IH[OF m(1)] m(2) by (simp add: option.map_comp o_def)
  qed
qed simp

lemma find_cdata_end_split: "find_cdata_end x = Some n \<Longrightarrow> x = take n x @ '']]>'' @ drop (n + 3) x"
proof (induction x arbitrary: n)
  case (Cons c t)
  show ?case
  proof (cases "starts_with (c # t) '']]>''")
    case True
    then obtain u where u: "c # t = '']]>'' @ u" unfolding starts_with_iff by blast
    have "n = 0" using True Cons.prems by simp
    then show ?thesis by (simp add: u)
  next
    case False
    then obtain m where m: "find_cdata_end t = Some m" "n = Suc m" using Cons.prems by auto
    show ?thesis
      using Cons.IH[OF m(1)] by (simp only: m(2) add_Suc drop_Suc_Cons take_Suc_Cons append_Cons)
  qed
qed simp

lemma read_cdata_loop: "read_cdata_body (cdata_loop x @ '']]>'') = Some x"
proof (induction x rule: cdata_loop.induct)
  case (1 x)
  show ?case
  proof (cases "find_cdata_end x")
    case None
    then show ?thesis using read_cdata_last[OF None] cdata_loop.simps[of x] by simp
  next
    case (Some n)
    then have "cdata_loop x @ '']]>'' = take n x @ '']]]]><![CDATA[>'' @ cdata_loop (drop (n + 3) x) @ '']]>''"
      using cdata_loop.simps[of x] by simp
    then show ?thesis
      using read_cdata_split[OF Some] 1[OF Some] find_cdata_end_split[OF Some] by simp
  qed
qed
subsection \<open>Properties of the encodings\<close>

text \<open>
  The decoder accepts exactly the well-formed UTF-8 of RFC 3629: at a position inside the
  text it reports a valid code point \<open>cp\<close> of width \<open>w\<close> if and only if \<open>cp\<close> is a
  Unicode scalar value whose \<open>w\<close>-byte encoding stands there, so overlong forms, surrogates,
  values above 0x10FFFF and truncated sequences are all rejected, and nothing else is.
\<close>

theorem decode_utf8_exact:
  assumes "pos < length s"
  shows "decode_utf8 s pos = \<lparr>u_code_point = cp, u_width = w, u_valid = True\<rparr> \<longleftrightarrow>
    is_scalar cp \<and> w = length (encode_utf8 cp) \<and> starts_with (drop pos s) (encode_utf8 cp)"
proof
  assume "decode_utf8 s pos = \<lparr>u_code_point = cp, u_width = w, u_valid = True\<rparr>"
  then show "is_scalar cp \<and> w = length (encode_utf8 cp) \<and> starts_with (drop pos s) (encode_utf8 cp)"
    using encode_decode[of "drop pos s"] assms
    by (auto simp: decode_drop[OF assms] decodes_scalar_def starts_with_def Let_def)
next
  assume "is_scalar cp \<and> w = length (encode_utf8 cp) \<and> starts_with (drop pos s) (encode_utf8 cp)"
  then show "decode_utf8 s pos = \<lparr>u_code_point = cp, u_width = w, u_valid = True\<rparr>"
    using decode_encode[of cp] by (auto simp: decode_drop[OF assms] starts_with_iff)
qed

theorem decode_utf8_exact_witness:
  "(1::nat) < length [CHR ''a'', CHR 0xC3, CHR 0xA9]
   \<and> decode_utf8 [CHR ''a'', CHR 0xC3, CHR 0xA9] 1 = \<lparr>u_code_point = 0xE9, u_width = 2, u_valid = True\<rparr>"
proof -
  let ?s = "[CHR ''a'', CHR 0xC3, CHR 0xA9]"
  have l: "1 < length ?s" by simp
  have "is_scalar 0xE9 \<and> 2 = length (encode_utf8 0xE9) \<and> starts_with (drop 1 ?s) (encode_utf8 0xE9)"
    by code_simp
  then show ?thesis using decode_utf8_exact[OF l, of "0xE9" 2] l by blast
qed

text \<open>
  Whatever bytes a test logs, the sanitised text is the UTF-8 encoding of a sequence of
  characters that XML 1.0 allows; and the sanitiser changes a text if and only if it is not
  such an encoding already.
\<close>

theorem sanitize_xml_text_correct:
  "(\<exists>cps. list_all is_xml_char cps \<and> sanitize_xml_text s = utf8_text cps)
   \<and> (sanitize_xml_text s = s \<longleftrightarrow> s \<in> {utf8_text cps |cps. list_all is_xml_char cps})"
  using sanitize_is_xml_text[of s] sanitize_clean by auto


end
