(* ===== verification/Reporting.thy ===== *)
theory Reporting
  imports Case_Api Cli Report_Text
begin

section \<open>Results and reports: \<^verbatim>\<open>src/runner_result_model.h\<close>, \<^verbatim>\<open>src/runner_reporting.h/.cpp\<close>\<close>

text \<open>
  The result of one case, the accumulator of a run, GitHub annotations and the JUnit document.
  Printing a \<^verbatim>\<open>double\<close> to a stream is the argument \<open>show_double\<close>.
\<close>

datatype Outcome = OutPass | OutFail | OutSkip | OutBlocked | OutXFail | OutXPass

record ReportAttachment =
  a_name :: string
  a_mime_type :: string
  a_file_extension :: string
  a_contents :: string

record RunResult =
  rr_time_s :: double
  rr_skipped :: bool
  rr_outcome :: Outcome
  rr_skip_reason :: string
  rr_xfail_reason :: string
  rr_failures :: "string list"
  rr_summary_issues :: "string list"
  rr_logs :: "string list"
  rr_timeline :: "string list"
  rr_attachments :: "ReportAttachment list"

definition empty_result :: RunResult where
  "empty_result = \<lparr>rr_time_s = DFinite 0, rr_skipped = False, rr_outcome = OutPass, rr_skip_reason = [],
     rr_xfail_reason = [], rr_failures = [], rr_summary_issues = [], rr_logs = [], rr_timeline = [],
     rr_attachments = []\<rparr>"

record ReportItem =
  i_suite :: string
  i_name :: string
  i_time_s :: double
  i_skipped :: bool
  i_skip_reason :: string
  i_outcome :: Outcome
  i_failures :: "string list"
  i_logs :: "string list"
  i_timeline :: "string list"
  i_tags :: "string list"
  i_requirements :: "string list"
  i_attachments :: "ReportAttachment list"

record FailureSummary =
  f_name :: string
  f_file :: string
  f_line :: nat
  f_issues :: "string list"

record GitHubAnnotation =
  gh_file :: string
  gh_line :: nat
  gh_title :: string
  gh_message :: string

record RunAccumulator =
  report_items :: "ReportItem list"
  failure_items :: "FailureSummary list"
  infra_errors :: "string list"
  github_annotations :: "GitHubAnnotation list"

definition empty_accumulator :: RunAccumulator where
  "empty_accumulator = \<lparr>report_items = [], failure_items = [], infra_errors = [], github_annotations = []\<rparr>"

definition record_failure_summary ::
  "RunAccumulator \<Rightarrow> string \<Rightarrow> string list \<Rightarrow> string \<Rightarrow> nat \<Rightarrow> RunAccumulator" where
  "record_failure_summary acc name issues file line =
     (let issues' = (if issues = [] then [''failure (no details)''] else issues)
      in acc\<lparr>failure_items := failure_items acc @ [\<lparr>f_name = name, f_file = file, f_line = line, f_issues = issues'\<rparr>]\<rparr>)"

definition record_runner_level_failure :: "RunAccumulator \<Rightarrow> string \<Rightarrow> string \<Rightarrow> RunAccumulator" where
  "record_runner_level_failure acc name message =
     (let acc' = record_failure_summary acc name [message] [] 0
      in acc'\<lparr>infra_errors := infra_errors acc' @ [message]\<rparr>)"

definition make_report_item :: "Case \<Rightarrow> RunResult \<Rightarrow> ReportItem" where
  "make_report_item test result =
     \<lparr>i_suite = c_suite test, i_name = c_name test, i_time_s = rr_time_s result, i_skipped = rr_skipped result,
      i_skip_reason = (if rr_skip_reason result = [] then c_skip_reason test else rr_skip_reason result),
      i_outcome = rr_outcome result, i_failures = rr_failures result, i_logs = rr_logs result,
      i_timeline = rr_timeline result, i_tags = c_tags test, i_requirements = c_requirements test,
      i_attachments = rr_attachments result\<rparr>"

definition record_case_result :: "RunAccumulator \<Rightarrow> Case \<Rightarrow> RunResult \<Rightarrow> bool \<Rightarrow> RunAccumulator" where
  "record_case_result acc test result include_report_item =
     (let acc' = (if rr_summary_issues result \<noteq> []
                  then record_failure_summary acc (c_name test) (rr_summary_issues result) (c_file test) (c_line test)
                  else acc)
      in if \<not> include_report_item then acc'
         else acc'\<lparr>report_items := report_items acc' @ [make_report_item test result]\<rparr>)"

definition add_error_annotation ::
  "RunAccumulator \<Rightarrow> string \<Rightarrow> nat \<Rightarrow> string \<Rightarrow> string \<Rightarrow> RunAccumulator" where
  "add_error_annotation acc file line title message =
     acc\<lparr>github_annotations := github_annotations acc
           @ [\<lparr>gh_file = file, gh_line = line, gh_title = title, gh_message = message\<rparr>]\<rparr>"

definition annotation_line :: "GitHubAnnotation \<Rightarrow> string" where
  "annotation_line it =
     ''::error file='' @ gha_escape_property (gh_file it) @ '',line='' @ show_nat (gh_line it) @ '',title=''
       @ gha_escape_property (gh_title it) @ ''::'' @ gha_escape_message (gh_message it) @ [CHR 0x0A]"

definition emit_github_annotations :: "RunAccumulator \<Rightarrow> string" where
  "emit_github_annotations acc = concat (map annotation_line (github_annotations acc))"

subsection \<open>The JUnit document\<close>

definition QUOTE :: string where
  "QUOTE = [CHR 0x22]"

definition NL :: string where
  "NL = [CHR 0x0A]"

definition junit_properties :: "string list \<Rightarrow> string" where
  "junit_properties reqs =
     (if reqs = [] then []
      else ''    <properties>'' @ NL
           @ concat (map (\<lambda>req. ''      <property name='' @ QUOTE @ ''requirement'' @ QUOTE @ '' value='' @ QUOTE
                                  @ escape_xml req @ QUOTE @ ''/>'' @ NL) reqs)
           @ ''    </properties>'' @ NL)"

definition junit_skipped :: "ReportItem \<Rightarrow> string" where
  "junit_skipped it =
     (if i_skipped it
      then ''    <skipped''
           @ (if i_skip_reason it = [] then [] else '' message='' @ QUOTE @ escape_xml (i_skip_reason it) @ QUOTE)
           @ ''/>'' @ NL
      else [])"

definition junit_testcase :: "(double \<Rightarrow> string) \<Rightarrow> ReportItem \<Rightarrow> string" where
  "junit_testcase show_double it =
     ''  <testcase classname='' @ QUOTE @ escape_xml (i_suite it) @ QUOTE @ '' name='' @ QUOTE @ escape_xml (i_name it) @ QUOTE
       @ '' time='' @ QUOTE @ show_double (i_time_s it) @ QUOTE @ ''>'' @ NL
       @ junit_properties (i_requirements it) @ junit_skipped it
       @ concat (map (\<lambda>f. ''    <failure>'' @ write_xml_cdata f @ ''</failure>'' @ NL) (i_failures it))
       @ ''  </testcase>'' @ NL"

definition junit_system_err :: "string list \<Rightarrow> string" where
  "junit_system_err errs =
     (if errs = [] then []
      else ''  <system-err>'' @ concat (map (\<lambda>msg. write_xml_cdata msg @ NL) errs) @ ''</system-err>'' @ NL)"

definition junit_document :: "(double \<Rightarrow> string) \<Rightarrow> RunAccumulator \<Rightarrow> string" where
  "junit_document show_double acc =
     (let total_tests = length (report_items acc);
          total_fail = length (filter (\<lambda>it. i_failures it \<noteq> []) (report_items acc));
          total_skip = length (filter i_skipped (report_items acc));
          total_err = length (infra_errors acc)
      in ''<?xml version='' @ QUOTE @ ''1.0'' @ QUOTE @ '' encoding='' @ QUOTE @ ''UTF-8'' @ QUOTE @ ''?>'' @ NL
         @ ''<testsuite name='' @ QUOTE @ ''gentest'' @ QUOTE @ '' tests='' @ QUOTE @ show_nat total_tests @ QUOTE
         @ '' failures='' @ QUOTE @ show_nat total_fail @ QUOTE @ '' skipped='' @ QUOTE @ show_nat total_skip @ QUOTE
         @ '' errors='' @ QUOTE @ show_nat total_err @ QUOTE @ ''>'' @ NL
         @ concat (map (junit_testcase show_double) (report_items acc))
         @ junit_system_err (infra_errors acc)
         @ ''</testsuite>'' @ NL)"

subsection \<open>Reading the annotations back\<close>

text \<open>
  A reader of workflow commands: it splits the output at line feeds, then a line at the commas
  and colons that the command syntax reserves.
\<close>

fun split_lines :: "string \<Rightarrow> string \<Rightarrow> string list" where
  "split_lines acc [] = []"
| "split_lines acc (c # t) = (if c = CHR 0x0A then acc # split_lines [] t else split_lines (acc @ [c]) t)"

definition read_annotation :: "string \<Rightarrow> GitHubAnnotation" where
  "read_annotation l =
     (let r1 = drop (length ''::error file='') l; f = takeWhile (\<lambda>c. c \<noteq> CHR '','') r1;
          r2 = drop (length '',line='') (dropWhile (\<lambda>c. c \<noteq> CHR '','') r1); n = takeWhile (\<lambda>c. c \<noteq> CHR '','') r2;
          r3 = drop (length '',title='') (dropWhile (\<lambda>c. c \<noteq> CHR '','') r2); t = takeWhile (\<lambda>c. c \<noteq> CHR '':'') r3;
          m = drop (length ''::'') (dropWhile (\<lambda>c. c \<noteq> CHR '':'') r3)
      in \<lparr>gh_file = decode_with gha_codes f, gh_line = dec_value 0 n, gh_title = decode_with gha_codes t,
          gh_message = decode_with gha_codes m\<rparr>)"

lemma split_lines_line: "CHR 0x0A \<notin> set l \<Longrightarrow> split_lines acc (l @ [CHR 0x0A] @ t) = (acc @ l) # split_lines [] t"
  by (induction l arbitrary: acc) auto

lemma takeWhile_field: "c \<notin> set f \<Longrightarrow> takeWhile (\<lambda>x. x \<noteq> c) (f @ c # t) = f"
  by (induction f) auto

lemma dropWhile_field: "c \<notin> set f \<Longrightarrow> dropWhile (\<lambda>x. x \<noteq> c) (f @ c # t) = c # t"
  by (induction f) auto

lemma gha_property_field: "c \<in> {CHR 0x0A, CHR 0x0D, CHR '':'', CHR '',''} \<Longrightarrow> c \<notin> set (gha_escape_property s)"
  unfolding gha_escape_property_def by (rule gha_property.text_clean)

lemma show_nat_field: "c \<notin> set (show_nat n)" if "\<not> is_digit c"
  using show_nat_digits[of n] that by (auto simp: list_all_iff)

lemma annotation_line_split:
  "annotation_line it =
     ''::error file='' @ gha_escape_property (gh_file it) @ CHR '','' # ''line='' @ show_nat (gh_line it) @ CHR '','' # ''title=''
       @ gha_escape_property (gh_title it) @ CHR '':'' # '':'' @ gha_escape_message (gh_message it) @ [CHR 0x0A]"
  by (simp add: annotation_line_def)

definition annotation_body :: "GitHubAnnotation \<Rightarrow> string" where
  "annotation_body it = butlast (annotation_line it)"

lemma annotation_body_line: "annotation_line it = annotation_body it @ [CHR 0x0A]"
  by (simp add: annotation_body_def annotation_line_def butlast_append)

lemma annotation_body_eq:
  "annotation_body it =
     ''::error file='' @ gha_escape_property (gh_file it) @ CHR '','' # ''line='' @ show_nat (gh_line it) @ CHR '','' # ''title=''
       @ gha_escape_property (gh_title it) @ CHR '':'' # '':'' @ gha_escape_message (gh_message it)"
  by (simp add: annotation_body_def annotation_line_split butlast_append)

lemma annotation_body_single_line: "CHR 0x0A \<notin> set (annotation_body it)"
  using gha_property_field[of "CHR 0x0A"] show_nat_field[of "CHR 0x0A"] gha_message.text_clean[of "CHR 0x0A"]
  by (simp add: annotation_body_eq is_digit_def gha_escape_message_def)

lemma read_annotation_body: "read_annotation (annotation_body it) = it"
proof -
  have comma: "CHR '','' \<notin> set (show_nat n)" for n by (rule show_nat_field) (simp add: is_digit_def)
  have pf: "CHR '','' \<notin> set (gha_escape_property s)" "CHR '':'' \<notin> set (gha_escape_property s)" for s
    by (simp_all add: gha_property_field)
  have dec: "decode_with gha_codes (gha_escape_property s) = s" "decode_with gha_codes (gha_escape_message s) = s" for s
    by (simp_all add: gha_escape_property_def gha_property.dec_text gha_escape_message_def gha_message.dec_text)
  show ?thesis
    by (simp add: read_annotation_def annotation_body_eq takeWhile_field dropWhile_field comma pf dec dec_value_show_nat Let_def)
qed

lemma emit_split: "split_lines [] (concat (map annotation_line as)) = map annotation_body as"
  by (induction as) (simp_all add: annotation_body_line split_lines_line[OF annotation_body_single_line, simplified])

text \<open>
  The annotations printed for GitHub can be read back exactly: file, line, title and message
  of every annotation, in order, whatever characters (percent signs, commas, colons, line breaks)
  they contain; in particular no test output can start a workflow command of its own.
\<close>

theorem github_annotations_roundtrip:
  "map read_annotation (split_lines [] (emit_github_annotations acc)) = github_annotations acc"
  by (simp add: emit_github_annotations_def emit_split read_annotation_body o_def)

end
