(* ===== verification/Run_Context.thy ===== *)
theory Run_Context
  imports Prelude
begin

section \<open>Test contexts: \<^verbatim>\<open>runtime_context.h/.cpp\<close>, \<^verbatim>\<open>context_api.cpp\<close>, \<^verbatim>\<open>runner_context_scope.h\<close>\<close>

text \<open>
  The runtime side of a test: the shared context that collects failures and logs, the
  thread-local current context with its buffer and role, leases that adopt a context in another
  thread, and the scopes of the runner.  Contexts are numbered (a \<^verbatim>\<open>shared_ptr\<close> is
  \<^typ>\<open>nat option\<close>), threads too; a context is never freed while it is referenced, so the
  heap is a total map.  Mutexes are the atomicity of each operation.  Not modelled: condition
  variables and wake generations (their only effect is to end waits), the no-exceptions fatal
  hook, log sinks and observers (outputs).  \<^verbatim>\<open>std::abort\<close> is the result \<open>Aborts\<close>.
\<close>

datatype ContextState = CtxRunning | CtxStopping | CtxClosed
datatype CurrentContextRole = RoleNone | RoleOwner | RoleAdopted
datatype BenchPhase = PhaseNone | PhaseSetup | PhaseCall | PhaseTeardown
datatype RuntimeSkipKind = SkipUser | SkipSharedFixtureInfra

record FailureLoc =
  l_file :: string
  l_line :: nat

record CancelHookEntry =
  h_id :: nat
  h_hook :: "nat option"
  h_ran :: bool

record TestContextInfo =
  x_display_name :: string
  x_failures :: "string list"
  x_failure_locations :: "FailureLoc list"
  x_logs :: "string list"
  x_event_lines :: "string list"
  x_event_kinds :: "char list"
  x_recent_logs :: "string list"
  x_cancel_hooks :: "CancelHookEntry list"
  x_next_cancel_hook_id :: nat
  x_stop_requested :: bool
  x_state :: ContextState
  x_has_failures :: bool
  x_adopted_contexts :: nat
  x_log_count :: nat
  x_recent_log_limit :: nat
  x_suppress_stdout_log :: bool
  x_runtime_skip_requested :: bool
  x_runtime_skip_reason :: string
  x_runtime_skip_kind :: RuntimeSkipKind
  x_xfail_requested :: bool
  x_xfail_reason :: string

definition new_context :: TestContextInfo where
  "new_context = \<lparr>x_display_name = [], x_failures = [], x_failure_locations = [], x_logs = [], x_event_lines = [],
     x_event_kinds = [], x_recent_logs = [], x_cancel_hooks = [], x_next_cancel_hook_id = 0, x_stop_requested = False,
     x_state = CtxClosed, x_has_failures = False, x_adopted_contexts = 0, x_log_count = 0, x_recent_log_limit = 0,
     x_suppress_stdout_log = False, x_runtime_skip_requested = False, x_runtime_skip_reason = [],
     x_runtime_skip_kind = SkipUser, x_xfail_requested = False, x_xfail_reason = []\<rparr>"

record TestContextLocalBuffer =
  bf_owner :: "nat option"
  bf_failures :: "string list"
  bf_failure_locations :: "FailureLoc list"
  bf_logs :: "string list"
  bf_event_lines :: "string list"
  bf_event_kinds :: "char list"

definition buffer_empty :: "TestContextLocalBuffer \<Rightarrow> bool" where
  "buffer_empty b \<longleftrightarrow> bf_failures b = [] \<and> bf_failure_locations b = [] \<and> bf_logs b = [] \<and> bf_event_lines b = []
     \<and> bf_event_kinds b = []"

definition buffer_clear :: "TestContextLocalBuffer \<Rightarrow> TestContextLocalBuffer" where
  "buffer_clear b = b\<lparr>bf_failures := [], bf_failure_locations := [], bf_logs := [], bf_event_lines := [], bf_event_kinds := []\<rparr>"

record ThreadLocal =
  t_current :: "nat option"
  t_role :: CurrentContextRole
  t_buffer :: TestContextLocalBuffer
  t_bench_phase :: BenchPhase

record rt =
  ctxs :: "nat \<Rightarrow> TestContextInfo"
  tls :: "nat \<Rightarrow> ThreadLocal"

datatype exn = SkipException | AssertionExn string | FailureExn string | StdExn string | UnknownExn

datatype rt_result = Returns rt | Throws exn rt | Aborts string

definition upd_ctx :: "nat \<Rightarrow> (TestContextInfo \<Rightarrow> TestContextInfo) \<Rightarrow> rt \<Rightarrow> rt" where
  "upd_ctx c f st = st\<lparr>ctxs := (ctxs st)(c := f (ctxs st c))\<rparr>"

definition upd_tls :: "nat \<Rightarrow> (ThreadLocal \<Rightarrow> ThreadLocal) \<Rightarrow> rt \<Rightarrow> rt" where
  "upd_tls t f st = st\<lparr>tls := (tls st)(t := f (tls st t))\<rparr>"

abbreviation buffer :: "rt \<Rightarrow> nat \<Rightarrow> TestContextLocalBuffer" where
  "buffer st t \<equiv> t_buffer (tls st t)"

abbreviation current :: "rt \<Rightarrow> nat \<Rightarrow> nat option" where
  "current st t \<equiv> t_current (tls st t)"

definition upd_buffer :: "nat \<Rightarrow> (TestContextLocalBuffer \<Rightarrow> TestContextLocalBuffer) \<Rightarrow> rt \<Rightarrow> rt" where
  "upd_buffer t f st = upd_tls t (\<lambda>l. l\<lparr>t_buffer := f (t_buffer l)\<rparr>) st"

subsection \<open>\<^verbatim>\<open>runtime_context.h\<close>\<close>

definition append_buffer :: "TestContextLocalBuffer \<Rightarrow> TestContextInfo \<Rightarrow> TestContextInfo" where
  "append_buffer b x =
     x\<lparr>x_failures := x_failures x @ bf_failures b,
       x_failure_locations := x_failure_locations x @ bf_failure_locations b,
       x_logs := x_logs x @ bf_logs b,
       x_event_lines := x_event_lines x @ bf_event_lines b,
       x_event_kinds := x_event_kinds x @ bf_event_kinds b\<rparr>"

definition flush_current_buffer_for :: "nat \<Rightarrow> nat option \<Rightarrow> rt \<Rightarrow> rt" where
  "flush_current_buffer_for t ctx st =
     (case ctx of
        None \<Rightarrow> st
      | Some c \<Rightarrow>
          if bf_owner (buffer st t) \<noteq> Some c \<or> buffer_empty (buffer st t) then st
          else upd_buffer t buffer_clear (upd_ctx c (append_buffer (buffer st t)) st))"

definition set_current_test :: "nat \<Rightarrow> nat option \<Rightarrow> CurrentContextRole \<Rightarrow> rt \<Rightarrow> rt" where
  "set_current_test t ctx role st =
     (let st1 = flush_current_buffer_for t (current st t) st
      in upd_tls t (\<lambda>l. l\<lparr>t_current := ctx, t_role := (if ctx \<noteq> None then role else RoleNone),
                         t_buffer := (t_buffer l)\<lparr>bf_owner := ctx\<rparr>\<rparr>) st1)"

definition start_context :: "TestContextInfo \<Rightarrow> TestContextInfo" where
  "start_context x = x\<lparr>x_stop_requested := False, x_suppress_stdout_log := False, x_state := CtxRunning\<rparr>"

definition request_context_stop :: "TestContextInfo \<Rightarrow> TestContextInfo" where
  "request_context_stop x = (if x_state x = CtxClosed then x else x\<lparr>x_state := CtxStopping, x_stop_requested := True\<rparr>)"

definition accepts_late_test_operation :: "nat option \<Rightarrow> rt \<Rightarrow> bool" where
  "accepts_late_test_operation ctx st = (case ctx of None \<Rightarrow> False | Some c \<Rightarrow> x_state (ctxs st c) \<noteq> CtxClosed)"

definition close_context_if_released :: "TestContextInfo \<Rightarrow> TestContextInfo" where
  "close_context_if_released x =
     (if x_adopted_contexts x \<noteq> 0 then x else if x_state x = CtxRunning then x else x\<lparr>x_state := CtxClosed\<rparr>)"

definition close_context_to_late_operations :: "TestContextInfo \<Rightarrow> TestContextInfo" where
  "close_context_to_late_operations x = x\<lparr>x_state := CtxClosed\<rparr>"

definition mark_context_failed :: "TestContextInfo \<Rightarrow> TestContextInfo" where
  "mark_context_failed x = x\<lparr>x_has_failures := True\<rparr>"

definition first_recorded_failure :: "TestContextInfo \<Rightarrow> string" where
  "first_recorded_failure x = (if x_failures x = [] then [] else hd (x_failures x))"

subsection \<open>\<^verbatim>\<open>runtime_context.cpp\<close>\<close>

definition require_owner_context :: "nat \<Rightarrow> string \<Rightarrow> rt \<Rightarrow> string option" where
  "require_owner_context t operation st =
     (if \<not> accepts_late_test_operation (current st t) st then Some (operation @ '' without an active test context'')
      else if t_role (tls st t) = RoleOwner then None
      else Some (operation @ '' from an adopted test context''))"

definition require_not_adopted_context :: "nat \<Rightarrow> string \<Rightarrow> rt \<Rightarrow> string option" where
  "require_not_adopted_context t operation st =
     (if current st t = None then None
      else if t_role (tls st t) = RoleAdopted then Some (operation @ '' from an adopted test context'')
      else if \<not> accepts_late_test_operation (current st t) st then Some (operation @ '' without an active test context'')
      else None)"

text \<open>Hand the buffer to the current context when another context owns it.\<close>

definition claim_buffer :: "nat \<Rightarrow> rt \<Rightarrow> rt" where
  "claim_buffer t st =
     (if bf_owner (buffer st t) \<noteq> current st t
      then upd_buffer t (\<lambda>b. b\<lparr>bf_owner := current st t\<rparr>) (flush_current_buffer_for t (bf_owner (buffer st t)) st)
      else st)"

definition add_failure :: "string \<Rightarrow> FailureLoc \<Rightarrow> TestContextLocalBuffer \<Rightarrow> TestContextLocalBuffer" where
  "add_failure msg loc b =
     b\<lparr>bf_failures := bf_failures b @ [msg], bf_failure_locations := bf_failure_locations b @ [loc],
       bf_event_lines := bf_event_lines b @ [msg], bf_event_kinds := bf_event_kinds b @ ''F''\<rparr>"

text \<open>
  \<^verbatim>\<open>std::filesystem::path::lexically_normal\<close> of a POSIX path: split at the separators, drop
  empty and dot components, let a dot-dot cancel the component before it.
\<close>

fun path_components :: "string \<Rightarrow> string \<Rightarrow> string list" where
  "path_components acc [] = [acc]"
| "path_components acc (c # t) = (if c = CHR ''/'' then acc # path_components [] t else path_components (acc @ [c]) t)"

definition normal_step :: "bool \<Rightarrow> string \<Rightarrow> string list \<Rightarrow> string list" where
  "normal_step absolute piece stack =
     (if piece = [] \<or> piece = ''.'' then stack
      else if piece = ''..''
      then (if stack \<noteq> [] \<and> hd stack \<noteq> ''..'' then tl stack
            else if absolute \<and> stack = [] then [] else piece # stack)
      else piece # stack)"

fun join_path :: "string list \<Rightarrow> string" where
  "join_path [] = []"
| "join_path [c] = c"
| "join_path (c # cs) = c @ ''/'' @ join_path cs"

definition lexically_normal :: "string \<Rightarrow> string" where
  "lexically_normal p =
     (if p = [] then []
      else let absolute = hd p = CHR ''/''; comps = path_components [] p;
               stack = fold (normal_step absolute) comps [];
               trailing = last comps \<in> {[], ''.'', ''..''} \<and> stack \<noteq> [] \<and> hd stack \<noteq> ''..'';
               body = join_path (rev stack)
           in if stack = [] then (if absolute then ''/'' else ''.'')
              else (if absolute then ''/'' else []) @ body @ (if trailing then ''/'' else []))"

fun find_substring :: "string \<Rightarrow> string \<Rightarrow> nat option" where
  "find_substring marker [] = (if marker = [] then Some 0 else None)"
| "find_substring marker (c # t) =
     (if starts_with (c # t) marker then Some 0 else map_option Suc (find_substring marker t))"

fun keep_from :: "string list \<Rightarrow> string \<Rightarrow> string" where
  "keep_from [] s = s"
| "keep_from (m # ms) s = (case find_substring m s of Some pos \<Rightarrow> drop pos s | None \<Rightarrow> keep_from ms s)"

definition normalize_failure_file :: "string \<Rightarrow> string" where
  "normalize_failure_file file =
     (if file = [] then [] else keep_from [''tests/'', ''include/'', ''src/'', ''tools/''] (lexically_normal file))"

definition record_failure_loc :: "nat \<Rightarrow> string \<Rightarrow> FailureLoc \<Rightarrow> rt \<Rightarrow> rt_result" where
  "record_failure_loc t msg loc st =
     (case require_owner_context t ''assertion/expectation recorded'' st of
        Some e \<Rightarrow> Aborts e
      | None \<Rightarrow>
          (case current st t of
             None \<Rightarrow> Aborts []
           | Some c \<Rightarrow>
               let st1 = upd_ctx c mark_context_failed (upd_buffer t (add_failure msg loc) (claim_buffer t st))
               in if t_bench_phase (tls st t) = PhaseCall then Throws (AssertionExn msg) st1 else Returns st1))"

definition record_failure :: "nat \<Rightarrow> string \<Rightarrow> rt \<Rightarrow> rt_result" where
  "record_failure t msg st = record_failure_loc t msg \<lparr>l_file = [], l_line = 0\<rparr> st"

definition record_failure_at :: "nat \<Rightarrow> string \<Rightarrow> string \<Rightarrow> nat \<Rightarrow> rt \<Rightarrow> rt_result" where
  "record_failure_at t msg file line st =
     record_failure_loc t msg \<lparr>l_file = normalize_failure_file file, l_line = line\<rparr> st"

definition request_runtime_skip :: "nat \<Rightarrow> string \<Rightarrow> RuntimeSkipKind \<Rightarrow> rt \<Rightarrow> rt_result" where
  "request_runtime_skip t reason kind st =
     (case require_owner_context t ''skip called'' st of
        Some e \<Rightarrow> Aborts e
      | None \<Rightarrow>
          (case current st t of
             None \<Rightarrow> Aborts []
           | Some c \<Rightarrow> Returns (upd_ctx c (\<lambda>x. x\<lparr>x_runtime_skip_requested := True, x_runtime_skip_reason := reason,
                                                x_runtime_skip_kind := kind\<rparr>) st)))"

definition throw_skip :: "rt_result \<Rightarrow> rt_result" where
  "throw_skip r = (case r of Returns st \<Rightarrow> Throws SkipException st | Throws e st \<Rightarrow> Throws e st | Aborts m \<Rightarrow> Aborts m)"

definition skip_shared_fixture_unavailable :: "nat \<Rightarrow> string \<Rightarrow> rt \<Rightarrow> rt_result" where
  "skip_shared_fixture_unavailable t reason st = throw_skip (request_runtime_skip t reason SkipSharedFixtureInfra st)"

definition register_context_cancel_hook :: "nat option \<Rightarrow> TestContextInfo \<Rightarrow> TestContextInfo \<times> nat" where
  "register_context_cancel_hook hook x =
     (if hook = None then (x, 0)
      else let ident = x_next_cancel_hook_id x + 1
           in (x\<lparr>x_next_cancel_hook_id := ident,
                 x_cancel_hooks := x_cancel_hooks x @ [\<lparr>h_id = ident, h_hook = hook, h_ran = False\<rparr>]\<rparr>, ident))"

definition unregister_context_cancel_hook :: "nat \<Rightarrow> TestContextInfo \<Rightarrow> TestContextInfo" where
  "unregister_context_cancel_hook ident x =
     (if ident = 0 then x else x\<lparr>x_cancel_hooks := filter (\<lambda>e. h_id e \<noteq> ident) (x_cancel_hooks x)\<rparr>)"

definition run_context_cancel_hooks :: "TestContextInfo \<Rightarrow> TestContextInfo \<times> nat list" where
  "run_context_cancel_hooks x =
     (x\<lparr>x_cancel_hooks := map (\<lambda>e. if h_ran e \<or> h_hook e = None then e else e\<lparr>h_ran := True\<rparr>) (x_cancel_hooks x)\<rparr>,
      map (the \<circ> h_hook) (filter (\<lambda>e. \<not> (h_ran e \<or> h_hook e = None)) (x_cancel_hooks x)))"

subsection \<open>\<^verbatim>\<open>context_api.cpp\<close>\<close>

record CurrentContextLease =
  ls_previous :: "nat option"
  ls_leased :: "nat option"
  ls_previous_role :: CurrentContextRole

definition lease_acquire :: "nat \<Rightarrow> nat option \<Rightarrow> rt \<Rightarrow> CurrentContextLease \<times> rt" where
  "lease_acquire t context st =
     (\<lparr>ls_previous = current st t, ls_leased = context, ls_previous_role = t_role (tls st t)\<rparr>,
      set_current_test t context RoleAdopted
        (case context of None \<Rightarrow> st
         | Some c \<Rightarrow> upd_ctx c (\<lambda>x. x\<lparr>x_adopted_contexts := x_adopted_contexts x + 1\<rparr>) st))"

definition lease_release :: "nat \<Rightarrow> CurrentContextLease \<Rightarrow> rt \<Rightarrow> rt" where
  "lease_release t lease st =
     (let st1 = set_current_test t (ls_previous lease) (ls_previous_role lease) st
      in case ls_leased lease of
           None \<Rightarrow> st1
         | Some c \<Rightarrow>
             let old = x_adopted_contexts (ctxs st1 c);
                 st2 = upd_ctx c (\<lambda>x. x\<lparr>x_adopted_contexts := old - 1\<rparr>) st1
             in if old = 1 then upd_ctx c close_context_if_released st2 else st2)"

definition push_recent :: "string \<Rightarrow> TestContextInfo \<Rightarrow> TestContextInfo" where
  "push_recent message x =
     (let n = x_recent_log_limit x; r = x_recent_logs x @ [message]
      in x\<lparr>x_log_count := x_log_count x + 1,
           x_recent_logs := (if n \<noteq> 0 then drop (length r - n) r else [])\<rparr>)"

definition log_message :: "nat \<Rightarrow> string \<Rightarrow> rt \<Rightarrow> rt_result" where
  "log_message t message st =
     (case current st t of
        None \<Rightarrow> Aborts ''log called without an active test context''
      | Some c \<Rightarrow>
          if \<not> accepts_late_test_operation (Some c) st then Aborts ''log called without an active test context''
          else Returns (upd_ctx c (push_recent message)
                 (upd_buffer t (\<lambda>b. b\<lparr>bf_logs := bf_logs b @ [message]\<rparr>) (claim_buffer t st))))"

definition skip_test :: "nat \<Rightarrow> string \<Rightarrow> rt \<Rightarrow> rt_result" where
  "skip_test t reason st = throw_skip (request_runtime_skip t reason SkipUser st)"

definition xfail :: "nat \<Rightarrow> string \<Rightarrow> rt \<Rightarrow> rt_result" where
  "xfail t reason st =
     (case require_owner_context t ''xfail called'' st of
        Some e \<Rightarrow> Aborts e
      | None \<Rightarrow>
          (case current st t of
             None \<Rightarrow> Aborts []
           | Some c \<Rightarrow> Returns (upd_ctx c (\<lambda>x. x\<lparr>x_xfail_requested := True,
                                   x_xfail_reason := (if reason \<noteq> [] then reason else x_xfail_reason x)\<rparr>) st)))"

subsection \<open>\<^verbatim>\<open>runner_context_scope.h\<close>\<close>

definition make_active_test_context :: "nat \<Rightarrow> string \<Rightarrow> rt \<Rightarrow> rt" where
  "make_active_test_context c display_name st =
     upd_ctx c (\<lambda>_. start_context (new_context\<lparr>x_display_name := display_name\<rparr>)) st"

definition request_active_test_context_stop :: "nat \<Rightarrow> nat \<Rightarrow> rt \<Rightarrow> rt" where
  "request_active_test_context_stop t c st =
     (let st1 = set_current_test t (Some c) RoleOwner st
      in set_current_test t (current st t) (t_role (tls st t)) (upd_ctx c request_context_stop st1))"

text \<open>\<^verbatim>\<open>wait_for_adopted_contexts\<close> blocks while a lease is out: the result is then \<open>None\<close>.\<close>

definition finish_active_test_context :: "nat \<Rightarrow> nat \<Rightarrow> rt \<Rightarrow> rt option" where
  "finish_active_test_context t c st =
     (let st1 = request_active_test_context_stop t c st
      in if x_adopted_contexts (ctxs st1 c) \<noteq> 0 then None
         else Some (upd_ctx c close_context_to_late_operations st1))"

definition deactivate_active_test_context_without_wait :: "nat \<Rightarrow> nat \<Rightarrow> rt \<Rightarrow> rt" where
  "deactivate_active_test_context_without_wait t c st =
     upd_ctx c close_context_if_released (request_active_test_context_stop t c st)"

definition cancel_active_test_context_without_wait :: "nat \<Rightarrow> nat \<Rightarrow> rt \<Rightarrow> rt \<times> nat list" where
  "cancel_active_test_context_without_wait t c st =
     (let st1 = upd_ctx c request_context_stop (set_current_test t (Some c) RoleOwner st);
          hooks = snd (run_context_cancel_hooks (ctxs st1 c));
          st2 = upd_ctx c (fst \<circ> run_context_cancel_hooks) st1;
          st3 = set_current_test t (current st t) (t_role (tls st t)) st2
      in (upd_ctx c close_context_if_released st3, hooks))"

definition test_scope_enter :: "nat \<Rightarrow> nat \<Rightarrow> rt \<Rightarrow> rt" where
  "test_scope_enter t c st = set_current_test t (Some c) RoleOwner st"

definition test_scope_exit :: "nat \<Rightarrow> nat \<Rightarrow> nat option \<Rightarrow> CurrentContextRole \<Rightarrow> rt \<Rightarrow> rt option" where
  "test_scope_exit t c previous previous_role st =
     map_option (set_current_test t previous previous_role) (finish_active_test_context t c st)"

subsection \<open>Frame facts\<close>

lemma ctxs_upd_ctx [simp]: "ctxs (upd_ctx c f st) = (ctxs st)(c := f (ctxs st c))"
  by (simp add: upd_ctx_def)

lemma tls_upd_ctx [simp]: "tls (upd_ctx c f st) = tls st"
  by (simp add: upd_ctx_def)

lemma ctxs_upd_tls [simp]: "ctxs (upd_tls t f st) = ctxs st"
  by (simp add: upd_tls_def)

lemma tls_upd_tls [simp]: "tls (upd_tls t f st) = (tls st)(t := f (tls st t))"
  by (simp add: upd_tls_def)

lemma upd_buffer_simps [simp]:
  "ctxs (upd_buffer t f st) = ctxs st"
  "current (upd_buffer t f st) s = current st s"
  "t_role (tls (upd_buffer t f st) s) = t_role (tls st s)"
  "t_bench_phase (tls (upd_buffer t f st) s) = t_bench_phase (tls st s)"
  "buffer (upd_buffer t f st) s = (if s = t then f (buffer st t) else buffer st s)"
  by (simp_all add: upd_buffer_def)

lemma buffer_clear_simps [simp]: "bf_owner (buffer_clear b) = bf_owner b" "buffer_empty (buffer_clear b)"
  by (simp_all add: buffer_clear_def buffer_empty_def)

text \<open>
  The thread-local invariant: the buffer belongs to the current context, it is empty when there
  is none, and each of its failures has its location and its event.
\<close>

definition events_balanced :: "string list \<Rightarrow> FailureLoc list \<Rightarrow> string list \<Rightarrow> char list \<Rightarrow> bool" where
  "events_balanced fs ls es ks \<longleftrightarrow> length ls = length fs \<and> es = fs \<and> ks = replicate (length fs) (CHR ''F'')"

definition buffer_ok :: "nat option \<Rightarrow> TestContextLocalBuffer \<Rightarrow> bool" where
  "buffer_ok ctx b \<longleftrightarrow> bf_owner b = ctx \<and> (ctx = None \<longrightarrow> buffer_empty b)
     \<and> events_balanced (bf_failures b) (bf_failure_locations b) (bf_event_lines b) (bf_event_kinds b)"

definition threads_ok :: "rt \<Rightarrow> bool" where
  "threads_ok st \<longleftrightarrow> (\<forall>t. buffer_ok (current st t) (buffer st t))"

definition ctx_balanced :: "TestContextInfo \<Rightarrow> bool" where
  "ctx_balanced x \<longleftrightarrow> events_balanced (x_failures x) (x_failure_locations x) (x_event_lines x) (x_event_kinds x)"

lemma events_balanced_append:
  "events_balanced fs ls es ks \<Longrightarrow> events_balanced fs' ls' es' ks' \<Longrightarrow>
     events_balanced (fs @ fs') (ls @ ls') (es @ es') (ks @ ks')"
  by (simp add: events_balanced_def replicate_add)

lemma flush_current:
  assumes "threads_ok st"
  shows "flush_current_buffer_for t (current st t) st =
    (case current st t of None \<Rightarrow> st
     | Some c \<Rightarrow> if buffer_empty (buffer st t) then st
                else upd_buffer t buffer_clear (upd_ctx c (append_buffer (buffer st t)) st))"
  using assms by (auto simp: flush_current_buffer_for_def threads_ok_def buffer_ok_def split: option.splits)

lemma claim_buffer_noop [simp]: "threads_ok st \<Longrightarrow> claim_buffer t st = st"
  by (auto simp: claim_buffer_def threads_ok_def buffer_ok_def)

lemma set_current_tls:
  "current (set_current_test t ctx role st) s = (if s = t then ctx else current st s)"
  "t_role (tls (set_current_test t ctx role st) s)
     = (if s = t then (if ctx \<noteq> None then role else RoleNone) else t_role (tls st s))"
  "t_bench_phase (tls (set_current_test t ctx role st) s) = t_bench_phase (tls st s)"
  by (auto simp: set_current_test_def flush_current_buffer_for_def Let_def split: option.splits)

lemma set_current_buffer:
  assumes "threads_ok st"
  shows "buffer_empty (buffer (set_current_test t ctx role st) t)"
    and "s \<noteq> t \<Longrightarrow> buffer (set_current_test t ctx role st) s = buffer st s"
    and "bf_owner (buffer (set_current_test t ctx role st) t) = ctx"
proof -
  have "current st t = None \<Longrightarrow> buffer_empty (buffer st t)"
    using assms by (simp add: threads_ok_def buffer_ok_def)
  then show "buffer_empty (buffer (set_current_test t ctx role st) t)"
    unfolding set_current_test_def flush_current[OF assms]
    by (auto simp: buffer_empty_def buffer_clear_def Let_def split: option.splits)
  show "s \<noteq> t \<Longrightarrow> buffer (set_current_test t ctx role st) s = buffer st s"
    unfolding set_current_test_def flush_current[OF assms] by (auto simp: Let_def split: option.splits)
  show "bf_owner (buffer (set_current_test t ctx role st) t) = ctx"
    by (simp add: set_current_test_def Let_def)
qed

lemma set_current_ctxs:
  assumes "threads_ok st"
  shows "ctxs (set_current_test t ctx role st) =
    (case current st t of None \<Rightarrow> ctxs st | Some c \<Rightarrow> (ctxs st)(c := append_buffer (buffer st t) (ctxs st c)))"
proof -
  have "buffer_empty b \<Longrightarrow> append_buffer b x = x" for b x
    by (simp add: append_buffer_def buffer_empty_def)
  then show ?thesis
    unfolding set_current_test_def flush_current[OF assms] by (auto simp: Let_def split: option.splits)
qed

lemma set_current_threads_ok: "threads_ok st \<Longrightarrow> threads_ok (set_current_test t ctx role st)"
proof -
  assume a: "threads_ok st"
  show ?thesis
    unfolding threads_ok_def
  proof
    fix s
    show "buffer_ok (current (set_current_test t ctx role st) s) (buffer (set_current_test t ctx role st) s)"
      using set_current_buffer(1,3)[OF a, of t ctx role] set_current_buffer(2)[OF a, of s t ctx role] a
      by (cases "s = t") (auto simp: set_current_tls buffer_ok_def threads_ok_def buffer_empty_def events_balanced_def)
  qed
qed

subsection \<open>Nothing recorded is lost\<close>

text \<open>
  What a context has collected of one kind of message: the part already stored and the parts
  still in the buffers of the threads (the first \<open>n\<close>) that have it as current context.
\<close>

definition pending :: "nat \<Rightarrow> (TestContextLocalBuffer \<Rightarrow> 'a list) \<Rightarrow> rt \<Rightarrow> nat \<Rightarrow> 'a multiset" where
  "pending n g st c = (\<Sum>t<n. if current st t = Some c then mset (g (buffer st t)) else {#})"

definition collected :: "nat \<Rightarrow> (TestContextInfo \<Rightarrow> 'a list) \<Rightarrow> (TestContextLocalBuffer \<Rightarrow> 'a list) \<Rightarrow> rt \<Rightarrow> nat \<Rightarrow> 'a multiset" where
  "collected n f g st c = mset (f (ctxs st c)) + pending n g st c"

lemma pending_split:
  "t < n \<Longrightarrow> pending n g st c =
     (if current st t = Some c then mset (g (buffer st t)) else {#})
     + (\<Sum>s\<in>{..<n} - {t}. if current st s = Some c then mset (g (buffer st s)) else {#})"
  unfolding pending_def by (simp add: sum.remove[of "{..<n}" t])

lemma pending_change:
  assumes "t < n" and "\<And>s. s \<noteq> t \<Longrightarrow> current st' s = current st s \<and> buffer st' s = buffer st s"
    and "(if current st' t = Some c then mset (g (buffer st' t)) else {#}) + A
       = (if current st t = Some c then mset (g (buffer st t)) else {#}) + B"
  shows "pending n g st' c + A = pending n g st c + B"
proof -
  have rest: "(\<Sum>s\<in>{..<n} - {t}. if current st' s = Some c then mset (g (buffer st' s)) else {#})
      = (\<Sum>s\<in>{..<n} - {t}. if current st s = Some c then mset (g (buffer st s)) else {#})"
    using assms(2) by (intro sum.cong) auto
  have "X' + R + A = X + R + B" if "X' + A = X + B" for X X' R :: "'a multiset"
    using that by (metis add.assoc add.commute)
  then show ?thesis unfolding pending_split[OF assms(1)] rest using assms(3) by blast
qed

lemma pending_cong: "tls st' = tls st \<Longrightarrow> pending n g st' c = pending n g st c"
  by (simp add: pending_def cong: if_cong)

text \<open>The contract of a buffered field: what the flush moves is what the buffer held.\<close>

locale buffered_field =
  fixes f :: "TestContextInfo \<Rightarrow> 'a list" and g :: "TestContextLocalBuffer \<Rightarrow> 'a list"
  assumes append: "f (append_buffer b x) = f x @ g b"
    and empty: "buffer_empty b \<Longrightarrow> g b = []"
begin

lemma set_current_collected:
  assumes "threads_ok st" and "t < n"
  shows "collected n f g (set_current_test t ctx role st) c = collected n f g st c"
proof -
  let ?st = "set_current_test t ctx role st"
  let ?m = "mset (g (buffer st t))"
  have e: "g (buffer ?st t) = []" using set_current_buffer(1)[OF assms(1)] by (rule empty)
  have "pending n g ?st c + (if current st t = Some c then ?m else {#}) = pending n g st c + {#}"
  proof (rule pending_change[OF assms(2)])
    show "current ?st s = current st s \<and> buffer ?st s = buffer st s" if "s \<noteq> t" for s
      using that set_current_buffer(2)[OF assms(1) that] by (simp add: set_current_tls)
  qed (simp add: e)
  then have p: "pending n g st c = (if current st t = Some c then ?m else {#}) + pending n g ?st c"
    by (simp add: add.commute)
  have "mset (f (ctxs ?st c)) = mset (f (ctxs st c)) + (if current st t = Some c then ?m else {#})"
    by (auto simp: set_current_ctxs[OF assms(1)] append split: option.splits)
  then show ?thesis unfolding collected_def p by (simp add: add.assoc)
qed

lemma upd_ctx_collected: "(\<And>x. f (h x) = f x) \<Longrightarrow> collected n f g (upd_ctx d h st) c = collected n f g st c"
  using pending_cong[of "upd_ctx d h st" st n g] by (simp add: collected_def)

end

interpretation logs: buffered_field x_logs bf_logs
  by unfold_locales (simp_all add: append_buffer_def buffer_empty_def)

interpretation failures: buffered_field x_failures bf_failures
  by unfold_locales (simp_all add: append_buffer_def buffer_empty_def)


subsection \<open>Interleaved executions\<close>

text \<open>
  A configuration adds to the runtime state what the program holds: per thread the stack of
  scopes and leases that are open (C++ destroys them in reverse order), and the history of the
  messages logged and the failures recorded through each context.
\<close>

datatype frame = FLease CurrentContextLease | FScope nat "nat option" CurrentContextRole

record cfg =
  cf_rt :: rt
  cf_frames :: "nat \<Rightarrow> frame list"
  cf_logged :: "(nat \<times> string) list"
  cf_failed :: "(nat \<times> string) list"

definition frame_ctx :: "frame \<Rightarrow> nat option" where
  "frame_ctx fr = (case fr of FLease l \<Rightarrow> ls_leased l | FScope c _ _ \<Rightarrow> Some c)"

definition frame_previous :: "frame \<Rightarrow> nat option" where
  "frame_previous fr = (case fr of FLease l \<Rightarrow> ls_previous l | FScope _ p _ \<Rightarrow> p)"

definition top_ctx :: "frame list \<Rightarrow> nat option" where
  "top_ctx frs = (case frs of [] \<Rightarrow> None | fr # _ \<Rightarrow> frame_ctx fr)"

definition push_frame :: "nat \<Rightarrow> frame \<Rightarrow> (nat \<Rightarrow> frame list) \<Rightarrow> nat \<Rightarrow> frame list" where
  "push_frame t fr frs = frs(t := fr # frs t)"

definition leases_of :: "nat \<Rightarrow> frame list \<Rightarrow> nat" where
  "leases_of c frs = length (filter (\<lambda>fr. case fr of FLease l \<Rightarrow> ls_leased l = Some c | FScope _ _ _ \<Rightarrow> False) frs)"

inductive ctx_step :: "nat \<Rightarrow> cfg \<Rightarrow> cfg \<Rightarrow> bool" for n where
  step_log: "t < n \<Longrightarrow> current (cf_rt s) t = Some c \<Longrightarrow> log_message t m (cf_rt s) = Returns st \<Longrightarrow>
    ctx_step n s (s\<lparr>cf_rt := st, cf_logged := cf_logged s @ [(c, m)]\<rparr>)"
| step_fail: "t < n \<Longrightarrow> current (cf_rt s) t = Some c \<Longrightarrow>
    record_failure_loc t m loc (cf_rt s) \<in> {Returns st, Throws (AssertionExn m) st} \<Longrightarrow>
    ctx_step n s (s\<lparr>cf_rt := st, cf_failed := cf_failed s @ [(c, m)]\<rparr>)"
| step_skip: "t < n \<Longrightarrow> request_runtime_skip t reason kind (cf_rt s) = Returns st \<Longrightarrow> ctx_step n s (s\<lparr>cf_rt := st\<rparr>)"
| step_xfail: "t < n \<Longrightarrow> xfail t reason (cf_rt s) = Returns st \<Longrightarrow> ctx_step n s (s\<lparr>cf_rt := st\<rparr>)"
| step_make: "(\<forall>t<n. \<forall>fr\<in>set (cf_frames s t). frame_ctx fr \<noteq> Some c) \<Longrightarrow> c \<notin> fst ` set (cf_logged s @ cf_failed s) \<Longrightarrow>
    ctx_step n s (s\<lparr>cf_rt := make_active_test_context c name (cf_rt s)\<rparr>)"
| step_limit: "x_recent_logs (ctxs (cf_rt s) c) = [] \<Longrightarrow>
    ctx_step n s (s\<lparr>cf_rt := upd_ctx c (\<lambda>x. x\<lparr>x_recent_log_limit := k\<rparr>) (cf_rt s)\<rparr>)"
| step_acquire: "t < n \<Longrightarrow> lease_acquire t ctx (cf_rt s) = (l, st) \<Longrightarrow>
    ctx_step n s (s\<lparr>cf_rt := st, cf_frames := push_frame t (FLease l) (cf_frames s)\<rparr>)"
| step_release: "t < n \<Longrightarrow> cf_frames s t = FLease l # frs \<Longrightarrow>
    ctx_step n s (s\<lparr>cf_rt := lease_release t l (cf_rt s), cf_frames := (cf_frames s)(t := frs)\<rparr>)"
| step_enter: "t < n \<Longrightarrow>
    ctx_step n s (s\<lparr>cf_rt := test_scope_enter t c (cf_rt s),
      cf_frames := push_frame t (FScope c (current (cf_rt s) t) (t_role (tls (cf_rt s) t))) (cf_frames s)\<rparr>)"
| step_exit: "t < n \<Longrightarrow> cf_frames s t = FScope c p r # frs \<Longrightarrow> test_scope_exit t c p r (cf_rt s) = Some st \<Longrightarrow>
    ctx_step n s (s\<lparr>cf_rt := st, cf_frames := (cf_frames s)(t := frs)\<rparr>)"
| step_deactivate: "t < n \<Longrightarrow>
    ctx_step n s (s\<lparr>cf_rt := deactivate_active_test_context_without_wait t c (cf_rt s)\<rparr>)"
| step_cancel: "t < n \<Longrightarrow>
    ctx_step n s (s\<lparr>cf_rt := fst (cancel_active_test_context_without_wait t c (cf_rt s))\<rparr>)"

definition idle_thread :: ThreadLocal where
  "idle_thread = \<lparr>t_current = None, t_role = RoleNone,
     t_buffer = \<lparr>bf_owner = None, bf_failures = [], bf_failure_locations = [], bf_logs = [], bf_event_lines = [], bf_event_kinds = []\<rparr>,
     t_bench_phase = PhaseNone\<rparr>"

definition initial_cfg :: cfg where
  "initial_cfg = \<lparr>cf_rt = \<lparr>ctxs = (\<lambda>_. new_context), tls = (\<lambda>_. idle_thread)\<rparr>, cf_frames = (\<lambda>_. []), cf_logged = [], cf_failed = []\<rparr>"

inductive ctx_reach :: "nat \<Rightarrow> cfg \<Rightarrow> bool" for n where
  reach_start: "ctx_reach n initial_cfg"
| reach_step: "ctx_reach n s \<Longrightarrow> ctx_step n s s' \<Longrightarrow> ctx_reach n s'"

subsection \<open>The invariant of the contents\<close>

definition of_ctx :: "nat \<Rightarrow> (nat \<times> string) list \<Rightarrow> string list" where
  "of_ctx c hist = map snd (filter (\<lambda>e. fst e = c) hist)"

definition recent_ok :: "string list \<Rightarrow> TestContextInfo \<Rightarrow> bool" where
  "recent_ok msgs x \<longleftrightarrow> length (x_recent_logs x) \<le> x_recent_log_limit x
     \<and> (\<exists>k. x_recent_logs x = drop k msgs) \<and> x_log_count x = length msgs"

definition content :: "nat \<Rightarrow> rt \<Rightarrow> (nat \<times> string) list \<Rightarrow> (nat \<times> string) list \<Rightarrow> bool" where
  "content n st logged failed \<longleftrightarrow> threads_ok st \<and>
     (\<forall>c. collected n x_logs bf_logs st c = mset (of_ctx c logged)
        \<and> collected n x_failures bf_failures st c = mset (of_ctx c failed)
        \<and> ctx_balanced (ctxs st c) \<and> (x_has_failures (ctxs st c) \<longleftrightarrow> of_ctx c failed \<noteq> [])
        \<and> recent_ok (of_ctx c logged) (ctxs st c))"

lemma of_ctx_snoc [simp]: "of_ctx c (h @ [(d, m)]) = of_ctx c h @ (if c = d then [m] else [])"
  by (simp add: of_ctx_def)

text \<open>Updates of a context that touch no message.\<close>

definition inert :: "(TestContextInfo \<Rightarrow> TestContextInfo) \<Rightarrow> bool" where
  "inert h \<longleftrightarrow> (\<forall>x. x_logs (h x) = x_logs x \<and> x_failures (h x) = x_failures x \<and> ctx_balanced (h x) = ctx_balanced x
     \<and> x_has_failures (h x) = x_has_failures x \<and> x_log_count (h x) = x_log_count x
     \<and> x_recent_logs (h x) = x_recent_logs x \<and> x_recent_log_limit (h x) = x_recent_log_limit x)"

lemma inert_simps [simp]:
  "inert request_context_stop" "inert close_context_if_released" "inert close_context_to_late_operations"
  "inert (fst \<circ> run_context_cancel_hooks)" "inert (\<lambda>x. x\<lparr>x_adopted_contexts := k x\<rparr>)"
  "inert (\<lambda>x. x\<lparr>x_runtime_skip_requested := True, x_runtime_skip_reason := reason, x_runtime_skip_kind := kind\<rparr>)"
  "inert (\<lambda>x. x\<lparr>x_xfail_requested := True, x_xfail_reason := xr x\<rparr>)"
  by (simp_all add: inert_def request_context_stop_def close_context_if_released_def close_context_to_late_operations_def
      run_context_cancel_hooks_def ctx_balanced_def)

lemma content_inert:
  assumes "inert h" and "content n st logged failed"
  shows "content n (upd_ctx c h st) logged failed"
proof -
  have "threads_ok (upd_ctx c h st)" using assms(2) by (simp add: content_def threads_ok_def)
  moreover have "collected n x_logs bf_logs (upd_ctx c h st) d = collected n x_logs bf_logs st d"
      "collected n x_failures bf_failures (upd_ctx c h st) d = collected n x_failures bf_failures st d" for d
    using assms(1) by (simp_all add: logs.upd_ctx_collected failures.upd_ctx_collected inert_def)
  ultimately show ?thesis using assms by (simp add: content_def inert_def recent_ok_def)
qed

lemma content_set_current:
  assumes "content n st logged failed" and "t < n"
  shows "content n (set_current_test t ctx role st) logged failed"
proof -
  have ok: "threads_ok st" using assms(1) by (simp add: content_def)
  have b: "ctx_balanced (append_buffer (buffer st t) x)" if "ctx_balanced x" for x
  proof -
    have "buffer_ok (current st t) (buffer st t)" using ok by (simp add: threads_ok_def)
    then show ?thesis
      using that events_balanced_append by (simp add: ctx_balanced_def buffer_ok_def append_buffer_def)
  qed
  have a: "x_has_failures (append_buffer bf x) = x_has_failures x" "recent_ok ms (append_buffer bf x) = recent_ok ms x" for bf x ms
    by (simp_all add: append_buffer_def recent_ok_def)
  show ?thesis
    using assms(1) b
    unfolding content_def logs.set_current_collected[OF ok assms(2)] failures.set_current_collected[OF ok assms(2)]
      set_current_ctxs[OF ok]
    by (auto simp: set_current_threads_ok a split: option.splits)
qed

lemma recent_ok_push: "recent_ok ms x \<Longrightarrow> recent_ok (ms @ [m]) (push_recent m x)"
proof -
  assume r: "recent_ok ms x"
  then obtain k where k: "x_recent_logs x = drop k ms" by (auto simp: recent_ok_def)
  let ?r = "drop k ms @ [m]" and ?n = "x_recent_log_limit x"
  define j where "j = min k (length ms) + (length ?r - ?n)"
  have "?r = drop (min k (length ms)) (ms @ [m])" by (simp add: min_def)
  then have "drop (length ?r - ?n) ?r = drop j (ms @ [m])" unfolding j_def by (metis drop_drop add.commute)
  moreover have "length (drop (length ?r - ?n) ?r) \<le> ?n" by simp
  moreover have "[] = drop (Suc (length ms)) (ms @ [m])" by simp
  ultimately show ?thesis
    using r k unfolding recent_ok_def push_recent_def Let_def by (auto simp del: drop_append)
qed

text \<open>Adding to the buffer of the thread that has the context as current.\<close>

lemma collected_buffer:
  assumes "t < n" and "current st t = Some c" and "mset (g (u (buffer st t))) = mset (g (buffer st t)) + M"
    and "\<And>x. f (h x) = f x"
  shows "collected n f g (upd_ctx c h (upd_buffer t u st)) d = collected n f g st d + (if d = c then M else {#})"
proof -
  have "pending n g (upd_ctx c h (upd_buffer t u st)) d + {#} = pending n g st d + (if d = c then M else {#})"
    using assms by (intro pending_change[of t]) auto
  then show ?thesis using assms(4) by (simp add: collected_def ac_simps)
qed

lemma content_log:
  assumes "content n st logged failed" and "t < n" and "current st t = Some c" and "log_message t m st = Returns st'"
  shows "content n st' (logged @ [(c, m)]) failed"
proof -
  have ok: "threads_ok st" using assms(1) by (simp add: content_def)
  let ?u = "\<lambda>b. b\<lparr>bf_logs := bf_logs b @ [m]\<rparr>"
  have st': "st' = upd_ctx c (push_recent m) (upd_buffer t ?u st)"
    using assms(3,4) ok by (auto simp: log_message_def split: if_splits)
  have p: "x_logs (push_recent m x) = x_logs x" "x_failures (push_recent m x) = x_failures x"
      "ctx_balanced (push_recent m x) = ctx_balanced x" "x_has_failures (push_recent m x) = x_has_failures x" for x
    by (simp_all add: push_recent_def ctx_balanced_def Let_def)
  have "threads_ok st'"
    using ok assms(3) by (auto simp: st' threads_ok_def buffer_ok_def)
  moreover have "collected n x_logs bf_logs st' d = collected n x_logs bf_logs st d + (if d = c then {#m#} else {#})"
      "collected n x_failures bf_failures st' d = collected n x_failures bf_failures st d + (if d = c then {#} else {#})" for d
    unfolding st' by (rule collected_buffer[OF assms(2,3)]; simp add: p)+
  ultimately show ?thesis
    using assms(1) recent_ok_push[of "of_ctx c logged" "ctxs st c" m] unfolding content_def
    by (auto simp: st' p)
qed

lemma content_fail:
  assumes "content n st logged failed" and "t < n" and "current st t = Some c"
    and "record_failure_loc t m loc st \<in> {Returns st', Throws (AssertionExn m) st'}"
  shows "content n st' logged (failed @ [(c, m)])"
proof -
  have ok: "threads_ok st" using assms(1) by (simp add: content_def)
  have st': "st' = upd_ctx c mark_context_failed (upd_buffer t (add_failure m loc) st)"
    using assms(3,4) ok by (auto simp: record_failure_loc_def Let_def split: if_splits option.splits)
  have p: "x_logs (mark_context_failed x) = x_logs x" "x_failures (mark_context_failed x) = x_failures x"
      "ctx_balanced (mark_context_failed x) = ctx_balanced x" "x_has_failures (mark_context_failed x)"
      "recent_ok ms (mark_context_failed x) = recent_ok ms x" for x ms
    by (simp_all add: mark_context_failed_def ctx_balanced_def recent_ok_def)
  have "buffer_ok (Some c) (add_failure m loc (buffer st t))" if "buffer_ok (Some c) (buffer st t)"
    using that by (simp add: buffer_ok_def add_failure_def events_balanced_def replicate_append_same)
  then have "threads_ok st'"
    using ok assms(3) unfolding st' threads_ok_def by (metis tls_upd_ctx upd_buffer_simps(2,5))
  moreover have "collected n x_logs bf_logs st' d = collected n x_logs bf_logs st d + (if d = c then {#} else {#})"
      "collected n x_failures bf_failures st' d = collected n x_failures bf_failures st d + (if d = c then {#m#} else {#})" for d
    unfolding st' by (rule collected_buffer[OF assms(2,3)]; simp add: p add_failure_def)+
  ultimately show ?thesis
    using assms(1) unfolding content_def by (auto simp: st' p)
qed

subsection \<open>Scopes and leases\<close>

fun chain :: "frame list \<Rightarrow> bool" where
  "chain [] = True"
| "chain (fr # frs) \<longleftrightarrow> frame_previous fr = top_ctx frs \<and> chain frs"

definition frames_inv :: "nat \<Rightarrow> rt \<Rightarrow> (nat \<Rightarrow> frame list) \<Rightarrow> bool" where
  "frames_inv n st frs \<longleftrightarrow>
     (\<forall>t. current st t = top_ctx (frs t) \<and> chain (frs t)) \<and> (\<forall>t\<ge>n. frs t = [])
     \<and> (\<forall>c. x_adopted_contexts (ctxs st c) = (\<Sum>t<n. leases_of c (frs t)))"

lemma sum_leases_update:
  assumes "t < (n :: nat)"
  shows "(\<Sum>s<n. leases_of c ((frs(t := frs')) s)) + leases_of c (frs t) = (\<Sum>s<n. leases_of c (frs s)) + leases_of c frs'"
proof -
  have "(\<Sum>s\<in>{..<n} - {t}. leases_of c ((frs(t := frs')) s)) = (\<Sum>s\<in>{..<n} - {t}. leases_of c (frs s))"
    by (rule sum.cong) auto
  moreover have "sum h {..<n} = h t + sum h ({..<n} - {t})" for h :: "nat \<Rightarrow> nat"
    using assms by (simp add: sum.remove)
  from this[of "\<lambda>s. leases_of c ((frs(t := frs')) s)"] this[of "\<lambda>s. leases_of c (frs s)"] calculation
  show ?thesis by simp
qed

lemma adopted_set_current [simp]:
  "threads_ok st \<Longrightarrow> x_adopted_contexts (ctxs (set_current_test t ctx role st) c) = x_adopted_contexts (ctxs st c)"
  by (auto simp: set_current_ctxs append_buffer_def split: option.splits)

lemma leases_of_Cons:
  "leases_of c (FLease l # frs) = (if ls_leased l = Some c then 1 else 0) + leases_of c frs"
  "leases_of c (FScope d p r # frs) = leases_of c frs"
  by (simp_all add: leases_of_def)

lemma upd_ctx_upd_ctx: "upd_ctx c g (upd_ctx c f st) = upd_ctx c (g \<circ> f) st"
  by (simp add: upd_ctx_def)

lemma frames_upd_ctx:
  "(\<And>x. x_adopted_contexts (h x) = x_adopted_contexts x) \<Longrightarrow> frames_inv n st frs \<Longrightarrow> frames_inv n (upd_ctx c h st) frs"
  by (simp add: frames_inv_def)

lemma adopted_simps [simp]:
  "x_adopted_contexts (request_context_stop x) = x_adopted_contexts x"
  "x_adopted_contexts (close_context_if_released x) = x_adopted_contexts x"
  "x_adopted_contexts (close_context_to_late_operations x) = x_adopted_contexts x"
  "x_adopted_contexts (fst (run_context_cancel_hooks x)) = x_adopted_contexts x"
  "x_adopted_contexts (push_recent m x) = x_adopted_contexts x"
  "x_adopted_contexts (mark_context_failed x) = x_adopted_contexts x"
  by (simp_all add: request_context_stop_def close_context_if_released_def close_context_to_late_operations_def
      run_context_cancel_hooks_def push_recent_def mark_context_failed_def Let_def)

lemma threads_ok_upd_ctx [simp]: "threads_ok (upd_ctx c h st) = threads_ok st"
  by (simp add: threads_ok_def)

lemma threads_ok_content: "content n st logged failed \<Longrightarrow> threads_ok st"
  by (simp add: content_def)

text \<open>A temporary change of the current context, undone at once.\<close>

lemma temporary_scope:
  assumes "frames_inv n st frs" and "threads_ok st" and "\<And>x. x_adopted_contexts (h x) = x_adopted_contexts x"
  shows "frames_inv n (set_current_test t (current st t) role (upd_ctx c h (set_current_test t ctx role' st))) frs"
  using assms by (auto simp: frames_inv_def set_current_tls set_current_threads_ok)

definition cfg_inv :: "nat \<Rightarrow> cfg \<Rightarrow> bool" where
  "cfg_inv n s \<longleftrightarrow> content n (cf_rt s) (cf_logged s) (cf_failed s) \<and> frames_inv n (cf_rt s) (cf_frames s)"

lemma content_make:
  assumes "content n st logged failed" and "frames_inv n st frs"
    and "\<forall>t<n. \<forall>fr\<in>set (frs t). frame_ctx fr \<noteq> Some c" and "c \<notin> fst ` set (logged @ failed)"
  shows "content n (make_active_test_context c name st) logged failed \<and> frames_inv n (make_active_test_context c name st) frs"
proof -
  have cur: "current st t \<noteq> Some c" for t
    using assms(2,3) by (cases "t < n"; cases "frs t") (auto simp: frames_inv_def top_ctx_def)
  have nil: "of_ctx c logged = []" "of_ctx c failed = []"
    using assms(4) by (auto simp: of_ctx_def filter_empty_conv)
  have "pending n g st c = {#}" for g :: "TestContextLocalBuffer \<Rightarrow> string list"
    using cur by (simp add: pending_def)
  then have pend: "pending n g (make_active_test_context c name st) d = (if d = c then {#} else pending n g st d)"
    for d and g :: "TestContextLocalBuffer \<Rightarrow> string list"
    using pending_cong[of "make_active_test_context c name st" st n g d] by (simp add: make_active_test_context_def)
  have "leases_of c (frs t) = 0" if "t < n" for t
    using assms(3) that by (auto simp: leases_of_def filter_empty_conv frame_ctx_def split: frame.splits)
  then have "(\<Sum>t<n. leases_of c (frs t)) = 0" by simp
  then have "frames_inv n (make_active_test_context c name st) frs"
    using assms(2) by (simp add: frames_inv_def make_active_test_context_def start_context_def new_context_def)
  moreover have "content n (make_active_test_context c name st) logged failed"
    using assms(1) nil pend unfolding content_def collected_def
    by (auto simp: make_active_test_context_def start_context_def new_context_def recent_ok_def ctx_balanced_def events_balanced_def)
  ultimately show ?thesis by blast
qed

lemma content_limit:
  assumes "content n st logged failed" and "x_recent_logs (ctxs st c) = []"
  shows "content n (upd_ctx c (\<lambda>x. x\<lparr>x_recent_log_limit := k\<rparr>) st) logged failed"
proof -
  let ?h = "\<lambda>x. x\<lparr>x_recent_log_limit := k\<rparr>"
  have "collected n x_logs bf_logs (upd_ctx c ?h st) d = collected n x_logs bf_logs st d"
      "collected n x_failures bf_failures (upd_ctx c ?h st) d = collected n x_failures bf_failures st d" for d
    by (simp_all add: logs.upd_ctx_collected failures.upd_ctx_collected)
  then show ?thesis using assms by (auto simp: content_def recent_ok_def ctx_balanced_def)
qed

lemma frames_acquire:
  assumes "frames_inv n st frs" and "threads_ok st" and "t < n" and "lease_acquire t ctx st = (l, st')"
  shows "frames_inv n st' (push_frame t (FLease l) frs)"
proof -
  have l: "l = \<lparr>ls_previous = current st t, ls_leased = ctx, ls_previous_role = t_role (tls st t)\<rparr>"
    and cur: "current st' s = (if s = t then ctx else current st s)" for s
    using assms(4) by (auto simp: lease_acquire_def set_current_tls split: option.splits)
  have ad: "x_adopted_contexts (ctxs st' c) = x_adopted_contexts (ctxs st c) + (if ctx = Some c then 1 else 0)" for c
    using assms(2,4) by (auto simp: lease_acquire_def split: option.splits)
  have "(\<Sum>s<n. leases_of c (push_frame t (FLease l) frs s)) = (\<Sum>s<n. leases_of c (frs s)) + (if ctx = Some c then 1 else 0)" for c
    using sum_leases_update[OF assms(3), of c frs "FLease l # frs t"] by (simp add: push_frame_def leases_of_Cons l)
  then show ?thesis
    using assms(1,3) ad cur unfolding frames_inv_def
    by (auto simp: push_frame_def top_ctx_def frame_ctx_def frame_previous_def l)
qed

lemma frames_release:
  assumes "frames_inv n st frs" and "threads_ok st" and "t < n" and "frs t = FLease l # rest"
  shows "frames_inv n (lease_release t l st) (frs(t := rest))"
proof -
  have prev: "ls_previous l = top_ctx rest" "chain rest"
    using assms(1,4) unfolding frames_inv_def by (metis chain.simps(2) frame.simps(5) frame_previous_def)+
  have sum: "(\<Sum>s<n. leases_of c ((frs(t := rest)) s)) + (if ls_leased l = Some c then 1 else 0) = (\<Sum>s<n. leases_of c (frs s))" for c
    using sum_leases_update[OF assms(3), of c frs rest] by (simp add: assms(4) leases_of_Cons)
  have "x_adopted_contexts (ctxs (lease_release t l st) c) = x_adopted_contexts (ctxs st c) - (if ls_leased l = Some c then 1 else 0)" for c
    using assms(2) by (auto simp: lease_release_def Let_def split: option.splits)
  then have "x_adopted_contexts (ctxs (lease_release t l st) c) = (\<Sum>s<n. leases_of c ((frs(t := rest)) s))" for c
    using sum[of c] assms(1) unfolding frames_inv_def by (metis add_diff_cancel_right')
  moreover have "current (lease_release t l st) s = (if s = t then ls_previous l else current st s)" for s
    by (auto simp: lease_release_def Let_def set_current_tls split: option.splits)
  ultimately show ?thesis using assms(1,3) prev unfolding frames_inv_def by auto
qed

lemma release_content:
  assumes "content n st logged failed" and "t < n"
  shows "content n (lease_release t l st) logged failed"
  using content_set_current[OF assms, of "ls_previous l" "ls_previous_role l"]
  by (auto simp: lease_release_def Let_def intro!: content_inert split: option.splits)

lemma acquire_content:
  assumes "content n st logged failed" and "t < n" and "lease_acquire t ctx st = (l, st')"
  shows "content n st' logged failed"
  using assms by (auto simp: lease_acquire_def intro!: content_set_current content_inert split: option.splits)

lemma stop_content:
  assumes "content n st logged failed" and "t < n"
  shows "content n (request_active_test_context_stop t c st) logged failed"
  using assms unfolding request_active_test_context_stop_def Let_def
  by (intro content_set_current content_inert) simp_all

lemma stop_frames:
  assumes "frames_inv n st frs" and "threads_ok st"
  shows "frames_inv n (request_active_test_context_stop t c st) frs"
  unfolding request_active_test_context_stop_def Let_def using assms by (intro temporary_scope) simp_all

lemma exit_rt:
  assumes "test_scope_exit t c p r st = Some st'"
  shows "st' = set_current_test t p r (upd_ctx c close_context_to_late_operations (request_active_test_context_stop t c st))
    \<and> x_adopted_contexts (ctxs (request_active_test_context_stop t c st) c) = 0"
  using assms by (auto simp: test_scope_exit_def finish_active_test_context_def Let_def split: if_splits)

lemma ctx_step_content: "ctx_step n s s' \<Longrightarrow> cfg_inv n s \<Longrightarrow> content n (cf_rt s') (cf_logged s') (cf_failed s')"
proof (induction rule: ctx_step.induct)
  case (step_log t s c m st)
  then show ?case using content_log[of n "cf_rt s" "cf_logged s" "cf_failed s" t c m st] by (simp add: cfg_inv_def)
next
  case (step_fail t s c m loc st)
  then show ?case using content_fail[of n "cf_rt s" "cf_logged s" "cf_failed s" t c m loc st] by (simp add: cfg_inv_def)
next
  case (step_skip t reason kind s st)
  then show ?case by (auto simp: cfg_inv_def request_runtime_skip_def content_inert split: option.splits)
next
  case (step_xfail t reason s st)
  then show ?case by (auto simp: cfg_inv_def xfail_def content_inert split: option.splits)
next
  case (step_make s c name)
  then show ?case
    using content_make[of n "cf_rt s" "cf_logged s" "cf_failed s" "cf_frames s" c name] by (simp add: cfg_inv_def)
next
  case (step_limit s c k)
  then show ?case by (simp add: cfg_inv_def content_limit)
next
  case (step_acquire t ctx s l st)
  then show ?case using acquire_content[of n "cf_rt s" "cf_logged s" "cf_failed s" t ctx l st] by (simp add: cfg_inv_def)
next
  case (step_release t s l frs)
  then show ?case by (simp add: cfg_inv_def release_content)
next
  case (step_enter t s c)
  then show ?case by (simp add: cfg_inv_def test_scope_enter_def content_set_current)
next
  case (step_exit t s c p r frs st)
  then show ?case using exit_rt[OF step_exit(3)] by (simp add: cfg_inv_def content_set_current content_inert stop_content)
next
  case (step_deactivate t s c)
  then show ?case
    by (simp add: cfg_inv_def deactivate_active_test_context_without_wait_def content_inert stop_content)
next
  case (step_cancel t s c)
  then show ?case
    by (simp add: cfg_inv_def cancel_active_test_context_without_wait_def Let_def content_inert content_set_current)
qed

lemma ctx_step_frames: "ctx_step n s s' \<Longrightarrow> cfg_inv n s \<Longrightarrow> frames_inv n (cf_rt s') (cf_frames s')"
proof (induction rule: ctx_step.induct)
  case (step_log t s c m st)
  then show ?case
    using threads_ok_content[of n "cf_rt s" "cf_logged s" "cf_failed s"]
    by (auto simp: cfg_inv_def log_message_def frames_inv_def split: if_splits)
next
  case (step_fail t s c m loc st)
  then show ?case
    using threads_ok_content[of n "cf_rt s" "cf_logged s" "cf_failed s"]
    by (auto simp: cfg_inv_def record_failure_loc_def frames_inv_def Let_def split: if_splits option.splits)
next
  case (step_skip t reason kind s st)
  then show ?case by (auto simp: cfg_inv_def request_runtime_skip_def frames_inv_def split: option.splits)
next
  case (step_xfail t reason s st)
  then show ?case by (auto simp: cfg_inv_def xfail_def frames_inv_def split: option.splits)
next
  case (step_make s c name)
  then show ?case
    using content_make[of n "cf_rt s" "cf_logged s" "cf_failed s" "cf_frames s" c name] by (simp add: cfg_inv_def)
next
  case (step_limit s c k)
  then show ?case by (simp add: cfg_inv_def frames_upd_ctx)
next
  case (step_acquire t ctx s l st)
  then show ?case
    using frames_acquire[of n "cf_rt s" "cf_frames s" t ctx l st] threads_ok_content by (auto simp: cfg_inv_def)
next
  case (step_release t s l frs)
  then show ?case
    using frames_release[of n "cf_rt s" "cf_frames s" t l frs] threads_ok_content by (auto simp: cfg_inv_def fun_upd_def)
next
  case (step_enter t s c)
  then have ok: "threads_ok (cf_rt s)" using threads_ok_content by (auto simp: cfg_inv_def)
  have "(\<Sum>u<n. leases_of d (push_frame t (FScope c p r) (cf_frames s) u)) = (\<Sum>u<n. leases_of d (cf_frames s u))" for d p r
    using sum_leases_update[OF step_enter(1), of d "cf_frames s" "FScope c p r # cf_frames s t"]
    by (simp add: push_frame_def leases_of_Cons)
  then show ?case
    using step_enter ok unfolding cfg_inv_def frames_inv_def
    by (auto simp: test_scope_enter_def set_current_tls push_frame_def top_ctx_def frame_ctx_def frame_previous_def)
next
  case (step_exit t s c p r frs st)
  then have ok: "threads_ok (request_active_test_context_stop t c (cf_rt s))"
    and fr: "frames_inv n (request_active_test_context_stop t c (cf_rt s)) (cf_frames s)"
    using threads_ok_content[OF stop_content[of n "cf_rt s" "cf_logged s" "cf_failed s" t c]]
      threads_ok_content[of n "cf_rt s" "cf_logged s" "cf_failed s"] stop_frames[of n "cf_rt s" "cf_frames s" t c]
    by (simp_all add: cfg_inv_def)
  have prev: "p = top_ctx frs" "chain frs"
    using fr step_exit(2) unfolding frames_inv_def by (metis chain.simps(2) frame.simps(6) frame_previous_def)+
  have "(\<Sum>u<n. leases_of d (((cf_frames s)(t := frs)) u)) = (\<Sum>u<n. leases_of d (cf_frames s u))" for d
    using sum_leases_update[OF step_exit(1), of d "cf_frames s" frs] by (simp add: step_exit(2) leases_of_Cons)
  then show ?case
    using fr prev ok step_exit(1) exit_rt[OF step_exit(3)] unfolding frames_inv_def by (auto simp: set_current_tls)
next
  case (step_deactivate t s c)
  then show ?case
    using threads_ok_content
    by (auto simp: cfg_inv_def deactivate_active_test_context_without_wait_def intro!: frames_upd_ctx stop_frames)
next
  case (step_cancel t s c)
  then have ok: "threads_ok (cf_rt s)" using threads_ok_content by (auto simp: cfg_inv_def)
  let ?st = "upd_ctx c ((fst \<circ> run_context_cancel_hooks) \<circ> request_context_stop) (set_current_test t (Some c) RoleOwner (cf_rt s))"
  have "frames_inv n (set_current_test t (current (cf_rt s) t) (t_role (tls (cf_rt s) t)) ?st) (cf_frames s)"
    using step_cancel ok by (intro temporary_scope) (simp_all add: cfg_inv_def)
  then show ?case
    by (simp add: cancel_active_test_context_without_wait_def Let_def upd_ctx_upd_ctx frames_upd_ctx)
qed

lemma initial_inv: "cfg_inv n initial_cfg"
  by (auto simp: cfg_inv_def initial_cfg_def content_def frames_inv_def threads_ok_def buffer_ok_def idle_thread_def
      buffer_empty_def events_balanced_def collected_def pending_def of_ctx_def new_context_def ctx_balanced_def
      recent_ok_def top_ctx_def leases_of_def)

lemma reach_inv: "ctx_reach n s \<Longrightarrow> cfg_inv n s"
proof (induction rule: ctx_reach.induct)
  case (reach_step s s')
  then show ?case using ctx_step_content ctx_step_frames unfolding cfg_inv_def by blast
qed (rule initial_inv)

lemma collected_detached:
  "(\<And>t. t < n \<Longrightarrow> current st t \<noteq> Some c) \<Longrightarrow> collected n f g st c = mset (f (ctxs st c))"
  by (simp add: collected_def pending_def)

lemma exit_no_leases:
  assumes "ctx_reach n s" and "t < n" and "test_scope_exit t c p r (cf_rt s) = Some st" and "u < n"
  shows "leases_of c (cf_frames s u) = 0"
proof -
  have i: "content n (cf_rt s) (cf_logged s) (cf_failed s)" "frames_inv n (cf_rt s) (cf_frames s)"
    using reach_inv[OF assms(1)] by (simp_all add: cfg_inv_def)
  have "x_adopted_contexts (ctxs (request_active_test_context_stop t c (cf_rt s)) c) = (\<Sum>t<n. leases_of c (cf_frames s t))"
    using stop_frames[OF i(2) threads_ok_content[OF i(1)]] unfolding frames_inv_def by blast
  then have "(\<Sum>t<n. leases_of c (cf_frames s t)) = 0" using exit_rt[OF assms(3)] by simp
  then show ?thesis using assms(4) by (simp add: sum_eq_0_iff)
qed

lemma exit_state: "threads_ok st \<Longrightarrow> test_scope_exit t c p r st = Some st' \<Longrightarrow> x_state (ctxs st' c) = CtxClosed"
  using exit_rt[of t c p r st st']
  by (auto simp: set_current_ctxs set_current_threads_ok request_active_test_context_stop_def Let_def append_buffer_def
      close_context_to_late_operations_def split: option.splits)

lemma no_frames_no_current:
  "frames_inv n st frs \<Longrightarrow> leases_of c (frs u) = 0 \<Longrightarrow> (\<And>q r. FScope c q r \<notin> set (frs u)) \<Longrightarrow> current st u \<noteq> Some c"
proof -
  assume a: "frames_inv n st frs" "leases_of c (frs u) = 0" "\<And>q r. FScope c q r \<notin> set (frs u)"
  have "frame_ctx fr \<noteq> Some c" if "fr \<in> set (frs u)" for fr
    using a(2,3) that by (cases fr) (auto simp: frame_ctx_def leases_of_def filter_empty_conv)
  then show ?thesis using a(1) by (cases "frs u") (auto simp: frames_inv_def top_ctx_def)
qed

subsection \<open>Properties of the contexts\<close>


text \<open>The run of the witness: a context, its scope on thread 0, a log by an adopting thread, a failure.\<close>

definition run_1 :: cfg where
  "run_1 = initial_cfg\<lparr>cf_rt := make_active_test_context 0 ''t'' (cf_rt initial_cfg)\<rparr>"

definition run_2 :: cfg where
  "run_2 = run_1\<lparr>cf_rt := test_scope_enter 0 0 (cf_rt run_1),
     cf_frames := push_frame 0 (FScope 0 (current (cf_rt run_1) 0) (t_role (tls (cf_rt run_1) 0))) (cf_frames run_1)\<rparr>"

definition run_3 :: cfg where
  "run_3 = run_2\<lparr>cf_rt := snd (lease_acquire 1 (Some 0) (cf_rt run_2)),
     cf_frames := push_frame 1 (FLease (fst (lease_acquire 1 (Some 0) (cf_rt run_2)))) (cf_frames run_2)\<rparr>"

definition rt_of :: "rt_result \<Rightarrow> rt" where
  "rt_of r = (case r of Returns st \<Rightarrow> st | Throws _ st \<Rightarrow> st | Aborts _ \<Rightarrow> cf_rt initial_cfg)"

definition run_4 :: cfg where
  "run_4 = run_3\<lparr>cf_rt := rt_of (log_message 1 ''w'' (cf_rt run_3)), cf_logged := cf_logged run_3 @ [(0, ''w'')]\<rparr>"

definition run_5 :: cfg where
  "run_5 = run_4\<lparr>cf_rt := lease_release 1 (fst (lease_acquire 1 (Some 0) (cf_rt run_2))) (cf_rt run_4),
     cf_frames := (cf_frames run_4)(1 := [])\<rparr>"

definition run_6 :: cfg where
  "run_6 = run_5\<lparr>cf_rt := rt_of (record_failure_loc 0 ''bad'' \<lparr>l_file = ''a.cpp'', l_line = 3\<rparr> (cf_rt run_5)),
     cf_failed := cf_failed run_5 @ [(0, ''bad'')]\<rparr>"

lemmas run_defs = run_1_def run_2_def run_3_def run_4_def run_5_def run_6_def initial_cfg_def make_active_test_context_def
  start_context_def new_context_def test_scope_enter_def set_current_test_def flush_current_buffer_for_def idle_thread_def
  lease_acquire_def lease_release_def log_message_def accepts_late_test_operation_def claim_buffer_def record_failure_loc_def
  require_owner_context_def push_frame_def rt_of_def buffer_empty_def append_buffer_def buffer_clear_def push_recent_def
  add_failure_def mark_context_failed_def close_context_if_released_def upd_ctx_def upd_tls_def upd_buffer_def Let_def

lemma run_6_reach: "ctx_reach 2 run_6"
proof -
  have "ctx_reach 2 run_1" unfolding run_1_def
    by (rule reach_step[OF reach_start step_make]) (simp_all add: initial_cfg_def)
  then have "ctx_reach 2 run_2" unfolding run_2_def by (rule reach_step[OF _ step_enter]) simp
  then have "ctx_reach 2 run_3" unfolding run_3_def by (rule reach_step[OF _ step_acquire]) simp_all
  then have "ctx_reach 2 run_4" unfolding run_4_def
    by (rule reach_step[OF _ step_log[of 1]]) (simp_all add: run_defs)
  then have "ctx_reach 2 run_5" unfolding run_5_def
    by (rule reach_step[OF _ step_release]) (simp_all add: run_defs)
  then show ?thesis unfolding run_6_def
    by (rule reach_step[OF _ step_fail[of 0 _ _ 0 _ "\<lparr>l_file = ''a.cpp'', l_line = 3\<rparr>"]]) (simp_all add: run_defs)
qed


text \<open>
  The tail of the log that the live status display shows never exceeds its limit and is
  always a suffix of the messages logged through the context, in the order in which they were
  logged by all threads together; the counter counts them all.
\<close>

theorem recent_logs_bounded_suffix:
  assumes "ctx_reach n s"
  shows "length (x_recent_logs (ctxs (cf_rt s) c)) \<le> x_recent_log_limit (ctxs (cf_rt s) c)
    \<and> (\<exists>k. x_recent_logs (ctxs (cf_rt s) c) = drop k (of_ctx c (cf_logged s)))
    \<and> x_log_count (ctxs (cf_rt s) c) = length (of_ctx c (cf_logged s))"
  using reach_inv[OF assms] by (simp add: cfg_inv_def content_def recent_ok_def)

theorem recent_logs_bounded_suffix_witness:
  "ctx_reach 2 run_6 \<and> x_log_count (ctxs (cf_rt run_6) 0) = 1"
proof -
  have "of_ctx 0 (cf_logged run_6) = [''w'']" by (simp add: run_defs of_ctx_def)
  then show ?thesis using recent_logs_bounded_suffix[OF run_6_reach, of 0] run_6_reach by simp
qed

text \<open>
  Only the owner of an open context can change the outcome of a test: from a thread that has
  merely adopted a context, or from any thread once the context is closed, recording a failure,
  requesting a skip and marking an expected failure all abort.
\<close>

theorem outcome_needs_owner:
  assumes "t_role (tls st t) \<noteq> RoleOwner \<or> current st t = None \<or> x_state (ctxs st (the (current st t))) = CtxClosed"
  shows "(\<exists>e. record_failure_loc t msg loc st = Aborts e) \<and> (\<exists>e. request_runtime_skip t reason kind st = Aborts e)
    \<and> (\<exists>e. xfail t reason st = Aborts e)"
  using assms
  by (auto simp: record_failure_loc_def request_runtime_skip_def xfail_def require_owner_context_def
      accepts_late_test_operation_def split: option.splits)

theorem outcome_needs_owner_witness:
  "t_role (tls (cf_rt run_4) 1) = RoleAdopted \<and> (\<exists>e. record_failure_loc 1 ''x'' \<lparr>l_file = [], l_line = 0\<rparr> (cf_rt run_4) = Aborts e)"
proof -
  have "t_role (tls (cf_rt run_4) 1) = RoleAdopted" by (simp add: run_defs)
  then show ?thesis using outcome_needs_owner[of "cf_rt run_4" 1] by simp
qed

end
