(* ===== verification/Case_Result.thy ===== *)
theory Case_Result
  imports Reporting Run_Context
begin

section \<open>Results of cases: \<^verbatim>\<open>runner_case_invoker.cpp\<close>, \<^verbatim>\<open>runner_case_result.cpp\<close>\<close>

text \<open>
  Invocation of one case and the translation of what happened into a result, the counters,
  console output and annotations.  The body of a case is user code: what it does to the runtime
  is a list of API calls followed by a normal end or an exception, and the table from function
  pointers to such bodies is an argument.  Console output is a list of chunks (stream, colour,
  text).  The elapsed time is an argument of the invocation.
\<close>

record TestCounters =
  k_total :: nat
  k_passed :: nat
  k_skipped :: nat
  k_blocked :: nat
  k_xfail :: nat
  k_xpass :: nat
  k_failed :: nat
  k_failures :: nat

definition zero_counters :: TestCounters where
  "zero_counters = \<lparr>k_total = 0, k_passed = 0, k_skipped = 0, k_blocked = 0, k_xfail = 0, k_xpass = 0, k_failed = 0, k_failures = 0\<rparr>"

record TestRunContext =
  color_output :: bool
  record_results :: bool
  suppress_case_output :: bool

datatype out_stream = StdOut | StdErr
datatype color = Yellow | Cyan | Red | Green
type_synonym chunk = "out_stream \<times> color option \<times> string"

text \<open>What the functions below mutate: the counters, the accumulator (a nullable pointer), the console.\<close>

record run_state =
  rs_counters :: TestCounters
  rs_acc :: "RunAccumulator option"
  rs_console :: "chunk list"

definition tally :: "(TestCounters \<Rightarrow> TestCounters) \<Rightarrow> run_state \<Rightarrow> run_state" where
  "tally f s = s\<lparr>rs_counters := f (rs_counters s)\<rparr>"

definition inc_total :: "TestCounters \<Rightarrow> TestCounters" where
  "inc_total c = c\<lparr>k_total := k_total c + 1\<rparr>"

definition inc_passed :: "TestCounters \<Rightarrow> TestCounters" where
  "inc_passed c = c\<lparr>k_passed := k_passed c + 1\<rparr>"

definition inc_skipped :: "TestCounters \<Rightarrow> TestCounters" where
  "inc_skipped c = c\<lparr>k_skipped := k_skipped c + 1\<rparr>"

definition inc_blocked :: "TestCounters \<Rightarrow> TestCounters" where
  "inc_blocked c = c\<lparr>k_blocked := k_blocked c + 1\<rparr>"

definition inc_xfail :: "TestCounters \<Rightarrow> TestCounters" where
  "inc_xfail c = c\<lparr>k_xfail := k_xfail c + 1\<rparr>"

definition inc_xpass :: "TestCounters \<Rightarrow> TestCounters" where
  "inc_xpass c = c\<lparr>k_xpass := k_xpass c + 1\<rparr>"

definition inc_failed :: "TestCounters \<Rightarrow> TestCounters" where
  "inc_failed c = c\<lparr>k_failed := k_failed c + 1\<rparr>"

definition inc_failures :: "TestCounters \<Rightarrow> TestCounters" where
  "inc_failures c = c\<lparr>k_failures := k_failures c + 1\<rparr>"

definition print :: "TestRunContext \<Rightarrow> chunk list \<Rightarrow> run_state \<Rightarrow> run_state" where
  "print state cs s = (if suppress_case_output state then s else s\<lparr>rs_console := rs_console s @ cs\<rparr>)"

definition status :: "TestRunContext \<Rightarrow> out_stream \<Rightarrow> color \<Rightarrow> string \<Rightarrow> string \<Rightarrow> run_state \<Rightarrow> run_state" where
  "status state stream col tag rest s =
     print state (if color_output state then [(stream, Some col, tag), (stream, None, rest)]
                  else [(stream, None, tag @ rest)]) s"

definition show_int :: "int \<Rightarrow> string" where
  "show_int i = (if i < 0 then ''-'' @ show_nat (nat (- i)) else show_nat (nat i))"

text \<open>\<^verbatim>\<open>std::llround\<close> rounds half away from zero; a difference of clock readings is finite.\<close>

definition duration_ms :: "double \<Rightarrow> int" where
  "duration_ms s =
     (case s of DFinite q \<Rightarrow> let x = q * 1000 in if x < 0 then - \<lfloor>- x + 1 / 2\<rfloor> else \<lfloor>x + 1 / 2\<rfloor> | _ \<Rightarrow> 0)"

definition ms_suffix :: "string \<Rightarrow> string \<Rightarrow> int \<Rightarrow> string" where
  "ms_suffix name reason ms =
     '' '' @ name @ (if reason = [] then [] else '' :: '' @ reason) @ '' ('' @ show_int ms @ '' ms)'' @ [CHR 0x0A]"

definition annotate :: "string \<Rightarrow> nat \<Rightarrow> string \<Rightarrow> string \<Rightarrow> run_state \<Rightarrow> run_state" where
  "annotate file line title message s =
     s\<lparr>rs_acc := map_option (\<lambda>acc. add_error_annotation acc file line title message) (rs_acc s)\<rparr>"

subsection \<open>Invocation\<close>

datatype InvokeException = ExcNone | ExcSkip | ExcBlocked | ExcAssertion | ExcFailure | ExcStdException | ExcUnknown
datatype UnhandledExceptionPolicy = CaptureOnly | RecordAsFailure

record InvokeResult =
  v_ctxinfo :: TestContextInfo
  v_exception :: InvokeException
  v_elapsed_s :: double
  v_message :: string

text \<open>The API calls of user code on the thread of the test, and a worker that adopts the context and logs.\<close>

datatype user_op =
  UFailure string | UFailureAt string string nat | ULog string | USkip string | USkipFixture string | UXfail string
| UWorkerLog nat string

fun exec_op :: "nat \<Rightarrow> user_op \<Rightarrow> rt \<Rightarrow> rt_result" where
  "exec_op t (UFailure m) st = record_failure t m st"
| "exec_op t (UFailureAt m file line) st = record_failure_at t m file line st"
| "exec_op t (ULog m) st = log_message t m st"
| "exec_op t (USkip r) st = skip_test t r st"
| "exec_op t (USkipFixture r) st = skip_shared_fixture_unavailable t r st"
| "exec_op t (UXfail r) st = xfail t r st"
| "exec_op t (UWorkerLog w m) st =
     (if w = t then log_message t m st
      else case lease_acquire w (current st t) st of (lease, st1) \<Rightarrow>
        (case log_message w m st1 of
           Returns st2 \<Rightarrow> Returns (lease_release w lease st2)
         | Throws e st2 \<Rightarrow> Throws e st2
         | Aborts e \<Rightarrow> Aborts e))"

fun exec_ops :: "nat \<Rightarrow> user_op list \<Rightarrow> rt \<Rightarrow> rt_result" where
  "exec_ops t [] st = Returns st"
| "exec_ops t (p # ps) st = (case exec_op t p st of Returns st' \<Rightarrow> exec_ops t ps st' | Throws e st' \<Rightarrow> Throws e st' | Aborts m \<Rightarrow> Aborts m)"

type_synonym user_body = "user_op list \<times> exn option"

definition run_call :: "nat \<Rightarrow> user_body \<Rightarrow> rt \<Rightarrow> rt_result" where
  "run_call t body st =
     (case exec_ops t (fst body) st of
        Returns st' \<Rightarrow> (case snd body of None \<Rightarrow> Returns st' | Some e \<Rightarrow> Throws e st')
      | Throws e st' \<Rightarrow> Throws e st'
      | Aborts m \<Rightarrow> Aborts m)"

definition set_phase :: "nat \<Rightarrow> BenchPhase \<Rightarrow> rt \<Rightarrow> rt" where
  "set_phase t phase st = upd_tls t (\<lambda>l. l\<lparr>t_bench_phase := phase\<rparr>) st"

text \<open>The phase scope: set on entry, restored on exit and during unwinding.\<close>

definition run_in_phase :: "nat \<Rightarrow> BenchPhase \<Rightarrow> user_body \<Rightarrow> rt \<Rightarrow> rt_result" where
  "run_in_phase t phase body st =
     (if phase = PhaseNone then run_call t body st
      else let prev = t_bench_phase (tls st t)
           in case run_call t body (set_phase t phase st) of
                Returns st' \<Rightarrow> Returns (set_phase t prev st')
              | Throws e st' \<Rightarrow> Throws e (set_phase t prev st')
              | Aborts m \<Rightarrow> Aborts m)"

text \<open>The catch clauses: exception kind, message and the failure to record under the policy.\<close>

definition caught :: "UnhandledExceptionPolicy \<Rightarrow> exn option \<Rightarrow> InvokeException \<times> string \<times> string option" where
  "caught policy e =
     (case e of
        None \<Rightarrow> (ExcNone, [], None)
      | Some SkipException \<Rightarrow> (ExcSkip, [], None)
      | Some (AssertionExn m) \<Rightarrow> (ExcAssertion, m, None)
      | Some (FailureExn m) \<Rightarrow>
          (if policy = RecordAsFailure then (ExcFailure, m, Some (''FAIL() :: '' @ m))
           else (ExcFailure, ''std::exception: '' @ m, None))
      | Some (StdExn m) \<Rightarrow>
          (ExcStdException, ''std::exception: '' @ m,
           if policy = RecordAsFailure then Some (''unexpected std::exception: '' @ m) else None)
      | Some UnknownExn \<Rightarrow>
          (ExcUnknown, ''unknown exception'', if policy = RecordAsFailure then Some ''unknown exception'' else None))"

datatype invoke_outcome = Invoked InvokeResult rt | InvokeThrows exn | InvokeAborts string | InvokeWaits

definition invoke_finish ::
  "nat \<Rightarrow> nat \<Rightarrow> nat option \<Rightarrow> CurrentContextRole \<Rightarrow> InvokeException \<Rightarrow> string \<Rightarrow> double \<Rightarrow> rt \<Rightarrow> invoke_outcome" where
  "invoke_finish t c previous role exc message elapsed st =
     (case test_scope_exit t c previous role st of
        None \<Rightarrow> InvokeWaits
      | Some st' \<Rightarrow>
          let x = ctxs st' c;
              message' = (if exc = ExcAssertion \<and> first_recorded_failure x \<noteq> [] then first_recorded_failure x else message)
          in Invoked \<lparr>v_ctxinfo = x, v_exception = exc, v_elapsed_s = elapsed, v_message = message'\<rparr> st')"

definition invoke_case_once ::
  "nat \<Rightarrow> nat \<Rightarrow> user_body \<Rightarrow> Case \<Rightarrow> BenchPhase \<Rightarrow> UnhandledExceptionPolicy \<Rightarrow> double \<Rightarrow> rt \<Rightarrow> invoke_outcome" where
  "invoke_case_once t c body test phase policy elapsed st0 =
     (let previous = current st0 t; role = t_role (tls st0 t);
          st = test_scope_enter t c (make_active_test_context c (c_name test) st0)
      in case run_in_phase t phase body st of
           Aborts m \<Rightarrow> InvokeAborts m
         | Returns st1 \<Rightarrow> invoke_finish t c previous role ExcNone [] elapsed st1
         | Throws e st1 \<Rightarrow>
             (case caught policy (Some e) of (exc, message, to_record) \<Rightarrow>
                case to_record of
                  None \<Rightarrow> invoke_finish t c previous role exc message elapsed st1
                | Some f \<Rightarrow>
                    (case record_failure t f st1 of
                       Aborts m \<Rightarrow> InvokeAborts m
                     | Returns st2 \<Rightarrow> invoke_finish t c previous role exc message elapsed st2
                     | Throws e' _ \<Rightarrow> InvokeThrows e')))"

subsection \<open>Results\<close>

definition event_kind :: "char list \<Rightarrow> nat \<Rightarrow> char" where
  "event_kind kinds i = (if i < length kinds then kinds ! i else CHR ''L'')"

definition collect_pass_visible_timeline :: "string list \<Rightarrow> char list \<Rightarrow> string list" where
  "collect_pass_visible_timeline lines kinds =
     map (\<lambda>i. lines ! i) (filter (\<lambda>i. event_kind kinds i = CHR ''A'') [0..<length lines])"

definition make_static_skip_result :: "TestRunContext \<Rightarrow> Case \<Rightarrow> run_state \<Rightarrow> RunResult \<times> run_state" where
  "make_static_skip_result state test s =
     (empty_result\<lparr>rr_skipped := True, rr_outcome := OutSkip, rr_skip_reason := c_skip_reason test\<rparr>,
      status state StdOut Yellow ''[ SKIP ]'' (ms_suffix (c_name test) (c_skip_reason test) 0)
        (tally (inc_skipped \<circ> inc_total) s))"

definition finish_blocked :: "TestRunContext \<Rightarrow> Case \<Rightarrow> InvokeResult \<Rightarrow> RunResult \<Rightarrow> run_state \<Rightarrow> RunResult \<times> run_state" where
  "finish_blocked state test ivk rr s =
     (let reason = (if v_message ivk = [] then ''async test cannot resume'' else v_message ivk);
          issue = ''BLOCKED: '' @ reason
      in (rr\<lparr>rr_skipped := True, rr_outcome := OutBlocked, rr_skip_reason := reason, rr_summary_issues := [issue]\<rparr>,
          annotate (c_file test) (c_line test) (c_name test) issue
            (status state StdOut Yellow ''[ BLOCKED ]''
               ('' '' @ c_name test @ '' :: '' @ reason @ '' ('' @ show_int (duration_ms (rr_time_s rr)) @ '' ms)'' @ [CHR 0x0A])
               (tally (inc_failures \<circ> inc_blocked) s))))"

definition finish_skip :: "TestRunContext \<Rightarrow> Case \<Rightarrow> TestContextInfo \<Rightarrow> RunResult \<Rightarrow> run_state \<Rightarrow> RunResult \<times> run_state" where
  "finish_skip state test x rr s =
     (if x_runtime_skip_kind x = SkipSharedFixtureInfra
      then let issue = (if x_runtime_skip_reason x = [] then ''shared fixture unavailable'' else x_runtime_skip_reason x)
           in (rr\<lparr>rr_skipped := True, rr_outcome := OutBlocked, rr_skip_reason := ''blocked: '' @ issue\<rparr>,
               status state StdOut Yellow ''[ BLOCKED ]'' (ms_suffix (c_name test) issue (duration_ms (rr_time_s rr)))
                 (tally inc_blocked s))
      else (rr\<lparr>rr_skipped := True, rr_outcome := OutSkip, rr_skip_reason := x_runtime_skip_reason x\<rparr>,
            status state StdOut Yellow ''[ SKIP ]'' (ms_suffix (c_name test) (x_runtime_skip_reason x) (duration_ms (rr_time_s rr)))
              (tally inc_skipped s)))"

definition finish_xfail :: "TestRunContext \<Rightarrow> Case \<Rightarrow> RunResult \<Rightarrow> run_state \<Rightarrow> RunResult \<times> run_state" where
  "finish_xfail state test rr s =
     (rr\<lparr>rr_outcome := OutXFail, rr_skipped := True,
         rr_skip_reason := (if rr_xfail_reason rr = [] then ''xfail'' else ''xfail: '' @ rr_xfail_reason rr)\<rparr>,
      status state StdOut Cyan ''[ XFAIL ]'' (ms_suffix (c_name test) (rr_xfail_reason rr) (duration_ms (rr_time_s rr)))
        (tally (inc_skipped \<circ> inc_xfail) s))"

definition finish_xpass :: "TestRunContext \<Rightarrow> Case \<Rightarrow> RunResult \<Rightarrow> run_state \<Rightarrow> RunResult \<times> run_state" where
  "finish_xpass state test rr s =
     (let r = rr_xfail_reason rr; failure = (if r = [] then ''xpass'' else ''xpass: '' @ r);
          issue = (if r = [] then ''XPASS'' else ''XPASS: '' @ r)
      in (rr\<lparr>rr_outcome := OutXPass, rr_failures := [failure], rr_summary_issues := [issue]\<rparr>,
          annotate (c_file test) (c_line test) (c_name test) failure
            (print state [(StdErr, None, failure @ [CHR 0x0A, CHR 0x0A])]
              (status state StdErr Red ''[ XPASS ]'' (ms_suffix (c_name test) r (duration_ms (rr_time_s rr)))
                (tally (inc_failures \<circ> inc_failed \<circ> inc_xpass) s)))))"

text \<open>The loop over the events of a failed case: it prints every line and annotates the failures.\<close>

definition failure_position :: "Case \<Rightarrow> FailureLoc list \<Rightarrow> nat \<Rightarrow> string \<times> nat" where
  "failure_position test locs i =
     (if i < length locs \<and> l_file (locs ! i) \<noteq> [] \<and> l_line (locs ! i) > 0 then (l_file (locs ! i), l_line (locs ! i))
      else (c_file test, c_line test))"

fun report_events ::
  "TestRunContext \<Rightarrow> Case \<Rightarrow> FailureLoc list \<Rightarrow> nat \<Rightarrow> (string \<times> char) list \<Rightarrow> run_state \<Rightarrow> string list \<times> run_state" where
  "report_events state test locs failure_printed [] s = ([], s)"
| "report_events state test locs failure_printed ((line_text, kind) # evs) s =
     (let s1 = print state [(StdErr, None, line_text @ [CHR 0x0A])] s
      in if kind = CHR ''F''
         then let (file, line_no) = failure_position test locs failure_printed;
                  (lines, s2) = report_events state test locs (failure_printed + 1) evs
                                  (annotate file line_no (c_name test) line_text s1)
              in (line_text # lines, s2)
         else report_events state test locs failure_printed evs s1)"

definition events_of :: "TestContextInfo \<Rightarrow> (string \<times> char) list" where
  "events_of x = map (\<lambda>i. (x_event_lines x ! i, event_kind (x_event_kinds x) i)) [0..<length (x_event_lines x)]"

definition finish_fail :: "TestRunContext \<Rightarrow> Case \<Rightarrow> TestContextInfo \<Rightarrow> RunResult \<Rightarrow> run_state \<Rightarrow> RunResult \<times> run_state" where
  "finish_fail state test x rr s =
     (let s1 = status state StdErr Red ''[ FAIL ]''
                 ('' '' @ c_name test @ '' :: '' @ show_nat (length (x_failures x)) @ '' issue(s) ('' @ show_int (duration_ms (rr_time_s rr)) @ '' ms)'' @ [CHR 0x0A])
                 (tally (inc_failures \<circ> inc_failed) s);
          (lines, s2) = report_events state test (x_failure_locations x) 0 (events_of x) s1;
          s3 = print state [(StdErr, None, [CHR 0x0A])] s2
      in (rr\<lparr>rr_outcome := OutFail, rr_summary_issues := (if lines = [] then [hd (x_failures x)] else lines)\<rparr>, s3))"

definition finish_pass :: "TestRunContext \<Rightarrow> Case \<Rightarrow> TestContextInfo \<Rightarrow> RunResult \<Rightarrow> run_state \<Rightarrow> RunResult \<times> run_state" where
  "finish_pass state test x rr s =
     (let timeline = collect_pass_visible_timeline (x_event_lines x) (x_event_kinds x);
          s1 = status state StdOut Green ''[ PASS ]'' (ms_suffix (c_name test) [] (duration_ms (rr_time_s rr))) s;
          s2 = print state (map (\<lambda>line_text. (StdOut, None, line_text @ [CHR 0x0A])) timeline
                            @ (if timeline = [] then [] else [(StdOut, None, [CHR 0x0A])])) s1
      in (rr\<lparr>rr_timeline := timeline, rr_outcome := OutPass\<rparr>, tally inc_passed s2))"

definition finish_fatal :: "TestRunContext \<Rightarrow> Case \<Rightarrow> InvokeResult \<Rightarrow> RunResult \<Rightarrow> run_state \<Rightarrow> RunResult \<times> run_state" where
  "finish_fatal state test ivk rr s =
     (let issue = (if v_message ivk = [] then ''fatal assertion or exception (no message)'' else v_message ivk);
          s1 = status state StdErr Red ''[ FAIL ]'' (ms_suffix (c_name test) [] (duration_ms (rr_time_s rr)))
                 (tally (inc_failures \<circ> inc_failed) s);
          s2 = print state [(StdErr, None, [CHR 0x0A])] s1
      in (rr\<lparr>rr_outcome := OutFail, rr_failures := rr_failures rr @ [issue], rr_summary_issues := rr_summary_issues rr @ [issue]\<rparr>,
          annotate (c_file test) (c_line test) (c_name test) issue s2))"

definition finish_invoke_result :: "TestRunContext \<Rightarrow> Case \<Rightarrow> InvokeResult \<Rightarrow> run_state \<Rightarrow> RunResult \<times> run_state" where
  "finish_invoke_result state test ivk s =
     (let x = v_ctxinfo ivk;
          runtime_skipped = v_exception ivk = ExcSkip;
          runtime_blocked = v_exception ivk = ExcBlocked;
          threw_non_skip = v_exception ivk \<noteq> ExcNone \<and> v_exception ivk \<noteq> ExcSkip \<and> v_exception ivk \<noteq> ExcBlocked;
          should_skip = runtime_skipped \<and> x_runtime_skip_requested x;
          has_failures = x_failures x \<noteq> [];
          rr = empty_result\<lparr>rr_time_s := v_elapsed_s ivk, rr_logs := x_logs x, rr_timeline := x_event_lines x\<rparr>
      in if runtime_blocked \<and> \<not> has_failures then finish_blocked state test ivk rr s
         else if should_skip \<and> \<not> has_failures \<and> \<not> threw_non_skip then finish_skip state test x rr s
         else if x_xfail_requested x \<and> \<not> should_skip
         then let rr' = rr\<lparr>rr_xfail_reason := x_xfail_reason x\<rparr>
              in if has_failures \<or> threw_non_skip then finish_xfail state test rr' s else finish_xpass state test rr' s
         else let rr' = rr\<lparr>rr_failures := x_failures x\<rparr>
              in if has_failures then finish_fail state test x rr' s
                 else if \<not> threw_non_skip then finish_pass state test x rr' s
                 else finish_fatal state test ivk rr' s)"

definition record_synthetic_skip :: "TestRunContext \<Rightarrow> Case \<Rightarrow> string \<Rightarrow> bool \<Rightarrow> run_state \<Rightarrow> run_state" where
  "record_synthetic_skip state test reason infra_failure s =
     (let issue = (if reason = [] then ''fixture allocation returned null'' else reason);
          s1 = (if infra_failure
                then status state StdOut Yellow ''[ BLOCKED ]'' (ms_suffix (c_name test) issue 0) (tally (inc_blocked \<circ> inc_total) s)
                else status state StdOut Yellow ''[ SKIP ]'' (ms_suffix (c_name test) reason 0) (tally (inc_skipped \<circ> inc_total) s));
          rr = empty_result\<lparr>rr_skipped := True, rr_outcome := (if infra_failure then OutBlocked else OutSkip),
                            rr_skip_reason := (if infra_failure then ''blocked: '' @ issue else reason)\<rparr>
      in s1\<lparr>rs_acc := map_option (\<lambda>acc. record_case_result acc test rr (record_results state)) (rs_acc s1)\<rparr>)"

definition shared_fixture_unavailable_message :: "string \<Rightarrow> string \<Rightarrow> string" where
  "shared_fixture_unavailable_message fixture reason =
     (let reason' = (if reason = [] then ''fixture allocation returned null'' else reason)
      in if fixture = [] then reason'
         else ''shared fixture unavailable for '' @ [CHR 0x27] @ fixture @ [CHR 0x27] @ '': '' @ reason')"

definition record_result :: "TestRunContext \<Rightarrow> Case \<Rightarrow> RunResult \<times> run_state \<Rightarrow> run_state" where
  "record_result state test r =
     (snd r)\<lparr>rs_acc := map_option (\<lambda>acc. record_case_result acc test (fst r) (record_results state)) (rs_acc (snd r))\<rparr>"

subsection \<open>Execution of one case\<close>

record world =
  w_run :: run_state
  w_rt :: rt
  w_next_ctx :: nat

text \<open>
  What the environment supplies: the bodies behind the function pointers (given the fixture
  object) and the elapsed time of each invocation.
\<close>

record exec_env =
  e_bodies :: "nat \<Rightarrow> nat option \<Rightarrow> user_body"
  e_elapsed :: "nat \<Rightarrow> double"

definition execute_one ::
  "exec_env \<Rightarrow> TestRunContext \<Rightarrow> Case \<Rightarrow> nat option \<Rightarrow> world \<Rightarrow> invoke_outcome + RunResult \<times> world" where
  "execute_one env state test ctx w =
     (if c_should_skip test
      then case make_static_skip_result state test (w_run w) of (rr, s) \<Rightarrow> Inr (rr, w\<lparr>w_run := s\<rparr>)
      else let s1 = tally inc_total (w_run w); c = w_next_ctx w
           in case invoke_case_once 0 c (e_bodies env (c_fn test) ctx) test PhaseNone RecordAsFailure (e_elapsed env c) (w_rt w) of
                Invoked ivk st \<Rightarrow>
                  (case finish_invoke_result state test ivk s1 of
                     (rr, s2) \<Rightarrow> Inr (rr, \<lparr>w_run = s2, w_rt = st, w_next_ctx = c + 1\<rparr>))
              | r \<Rightarrow> Inl r)"

definition execute_and_record ::
  "exec_env \<Rightarrow> TestRunContext \<Rightarrow> Case \<Rightarrow> nat option \<Rightarrow> world \<Rightarrow> invoke_outcome + world" where
  "execute_and_record env state test ctx w =
     (case execute_one env state test ctx w of
        Inl e \<Rightarrow> Inl e
      | Inr (rr, w') \<Rightarrow> Inr (w'\<lparr>w_run := record_result state test (rr, w_run w')\<rparr>))"

subsection \<open>Counters\<close>

definition counters_ok :: "TestCounters \<Rightarrow> bool" where
  "counters_ok c \<longleftrightarrow> k_total c = k_passed c + k_failed c + k_skipped c + k_blocked c
     \<and> k_xfail c \<le> k_skipped c \<and> k_xpass c \<le> k_failed c
     \<and> k_failed c \<le> k_failures c \<and> k_failures c \<le> k_failed c + k_blocked c"

lemmas inc_defs = inc_total_def inc_passed_def inc_skipped_def inc_blocked_def inc_xfail_def inc_xpass_def inc_failed_def inc_failures_def

lemma run_state_frames [simp]:
  "rs_counters (print state cs s) = rs_counters s" "rs_acc (print state cs s) = rs_acc s"
  "rs_counters (status state os col tag r s) = rs_counters s" "rs_acc (status state os col tag r s) = rs_acc s"
  "rs_counters (annotate f l n m s) = rs_counters s"
  "rs_counters (tally g s) = g (rs_counters s)" "rs_acc (tally g s) = rs_acc s"
  by (simp_all add: print_def status_def annotate_def tally_def)

lemma report_events_counters [simp]: "rs_counters (snd (report_events state test locs k evs s)) = rs_counters s"
  by (induction state test locs k evs s rule: report_events.induct) (auto simp: Let_def split: prod.splits)

lemma report_events_lines: "fst (report_events state test locs k evs s) = map fst (filter (\<lambda>e. snd e = CHR ''F'') evs)"
  by (induction state test locs k evs s rule: report_events.induct) (auto simp: Let_def split: prod.splits)

text \<open>The annotations of the failure events, in order, each at the position of its failure.\<close>

fun event_annotations :: "Case \<Rightarrow> FailureLoc list \<Rightarrow> nat \<Rightarrow> string list \<Rightarrow> GitHubAnnotation list" where
  "event_annotations test locs k [] = []"
| "event_annotations test locs k (m # ms) =
     \<lparr>gh_file = fst (failure_position test locs k), gh_line = snd (failure_position test locs k), gh_title = c_name test, gh_message = m\<rparr>
     # event_annotations test locs (k + 1) ms"

lemma report_events_acc:
  "rs_acc (snd (report_events state test locs k evs s)) =
     map_option (\<lambda>acc. acc\<lparr>github_annotations := github_annotations acc
       @ event_annotations test locs k (map fst (filter (\<lambda>e. snd e = CHR ''F'') evs))\<rparr>) (rs_acc s)"
  by (induction state test locs k evs s rule: report_events.induct)
     (auto simp: Let_def annotate_def add_error_annotation_def option.map_comp o_def option.map_ident split: prod.splits)

lemma finish_outcomes [simp]:
  "rr_outcome (fst (finish_blocked state test ivk rr s)) = OutBlocked"
  "rr_outcome (fst (finish_skip state test x rr s)) = (if x_runtime_skip_kind x = SkipSharedFixtureInfra then OutBlocked else OutSkip)"
  "rr_outcome (fst (finish_xfail state test rr s)) = OutXFail"
  "rr_outcome (fst (finish_xpass state test rr s)) = OutXPass"
  "rr_outcome (fst (finish_fail state test x rr s)) = OutFail"
  "rr_outcome (fst (finish_pass state test x rr s)) = OutPass"
  "rr_outcome (fst (finish_fatal state test ivk rr s)) = OutFail"
  by (simp_all add: finish_blocked_def finish_skip_def finish_xfail_def finish_xpass_def finish_fail_def
      finish_pass_def finish_fatal_def Let_def split_beta)

lemma finish_tallies [simp]:
  "rs_counters (snd (finish_blocked state test ivk rr s)) = inc_failures (inc_blocked (rs_counters s))"
  "rs_counters (snd (finish_skip state test x rr s)) =
     (if x_runtime_skip_kind x = SkipSharedFixtureInfra then inc_blocked else inc_skipped) (rs_counters s)"
  "rs_counters (snd (finish_xfail state test rr s)) = inc_skipped (inc_xfail (rs_counters s))"
  "rs_counters (snd (finish_xpass state test rr s)) = inc_failures (inc_failed (inc_xpass (rs_counters s)))"
  "rs_counters (snd (finish_fail state test x rr s)) = inc_failures (inc_failed (rs_counters s))"
  "rs_counters (snd (finish_pass state test x rr s)) = inc_passed (rs_counters s)"
  "rs_counters (snd (finish_fatal state test ivk rr s)) = inc_failures (inc_failed (rs_counters s))"
  by (simp_all add: finish_blocked_def finish_skip_def finish_xfail_def finish_xpass_def finish_fail_def
      finish_pass_def finish_fatal_def Let_def split_beta)

subsection \<open>From user code to the verdict\<close>

fun is_skip :: "user_op \<Rightarrow> bool" where
  "is_skip (USkip _) = True"
| "is_skip (USkipFixture _) = True"
| "is_skip _ = False"

fun is_xfail :: "user_op \<Rightarrow> bool" where
  "is_xfail (UXfail _) = True"
| "is_xfail _ = False"

fun op_failures :: "user_op \<Rightarrow> string list" where
  "op_failures (UFailure m) = [m]"
| "op_failures (UFailureAt m _ _) = [m]"
| "op_failures _ = []"

fun op_skip_kind :: "user_op \<Rightarrow> RuntimeSkipKind \<Rightarrow> RuntimeSkipKind" where
  "op_skip_kind (USkip _) _ = SkipUser"
| "op_skip_kind (USkipFixture _) _ = SkipSharedFixtureInfra"
| "op_skip_kind _ k = k"

definition raises :: "exn option \<Rightarrow> bool" where
  "raises e \<longleftrightarrow> e \<noteq> None \<and> e \<noteq> Some SkipException"

text \<open>
  The promise of the runner to the author of a test: an explicit skip decides unless a failure
  was recorded before it; otherwise a recorded failure or an escaping exception fails the test,
  an expected failure turns failure into success and success into failure.
\<close>

definition expected_outcome :: "user_body \<Rightarrow> Outcome" where
  "expected_outcome body =
     (let ran = takeWhile (\<lambda>p. \<not> is_skip p) (fst body);
          failed = concat (map op_failures ran) \<noteq> []
      in case find is_skip (fst body) of
           Some p \<Rightarrow> if failed then OutFail
                     else if op_skip_kind p SkipUser = SkipSharedFixtureInfra then OutBlocked else OutSkip
         | None \<Rightarrow>
             let bad = failed \<or> raises (snd body)
             in if list_ex is_xfail ran then (if bad then OutXFail else OutXPass) else if bad then OutFail else OutPass)"

text \<open>A state in which thread \<open>t\<close> runs the test of context \<open>c\<close>.\<close>

definition ready :: "nat \<Rightarrow> nat \<Rightarrow> rt \<Rightarrow> bool" where
  "ready t c st \<longleftrightarrow> threads_ok st \<and> current st t = Some c \<and> t_role (tls st t) = RoleOwner \<and> t_bench_phase (tls st t) = PhaseNone
     \<and> x_state (ctxs st c) = CtxRunning \<and> x_adopted_contexts (ctxs st c) = 0 \<and> (\<forall>u. u \<noteq> t \<longrightarrow> current st u \<noteq> Some c)"

definition failures_in :: "nat \<Rightarrow> nat \<Rightarrow> rt \<Rightarrow> string list" where
  "failures_in t c st = x_failures (ctxs st c) @ bf_failures (buffer st t)"

definition flags :: "nat \<Rightarrow> rt \<Rightarrow> bool \<times> bool \<times> RuntimeSkipKind" where
  "flags c st = (x_xfail_requested (ctxs st c), x_runtime_skip_requested (ctxs st c), x_runtime_skip_kind (ctxs st c))"

definition result_is :: "bool \<Rightarrow> rt_result \<Rightarrow> rt \<Rightarrow> bool" where
  "result_is thrown r st \<longleftrightarrow> r = (if thrown then Throws SkipException st else Returns st)"

lemma ready_owner: "ready t c st \<Longrightarrow> require_owner_context t op st = None"
  by (simp add: ready_def require_owner_context_def accepts_late_test_operation_def)

definition same_currents :: "rt \<Rightarrow> rt \<Rightarrow> bool" where
  "same_currents st st' \<longleftrightarrow> (\<forall>u. current st' u = current st u)"

lemma exec_failure:
  assumes "ready t c st"
  shows "\<exists>st'. record_failure_loc t m loc st = Returns st' \<and> ready t c st' \<and> failures_in t c st' = failures_in t c st @ [m]
    \<and> flags c st' = flags c st \<and> same_currents st st'"
proof -
  have ok: "threads_ok st" "current st t = Some c" using assms by (simp_all add: ready_def)
  let ?st = "upd_ctx c mark_context_failed (upd_buffer t (add_failure m loc) st)"
  have "buffer_ok (Some c) (add_failure m loc (buffer st t))" if "buffer_ok (Some c) (buffer st t)"
    using that by (simp add: buffer_ok_def add_failure_def events_balanced_def replicate_append_same)
  then have "threads_ok ?st"
    using ok unfolding threads_ok_def by (metis tls_upd_ctx upd_buffer_simps(2,5))
  then show ?thesis
    using assms ok ready_owner[OF assms]
    by (intro exI[of _ ?st])
       (simp add: record_failure_loc_def ready_def failures_in_def flags_def same_currents_def mark_context_failed_def add_failure_def)
qed

lemma exec_log:
  assumes "ready t c st"
  shows "\<exists>st'. log_message t m st = Returns st' \<and> ready t c st' \<and> failures_in t c st' = failures_in t c st
    \<and> flags c st' = flags c st \<and> same_currents st st'"
proof -
  have ok: "threads_ok st" "current st t = Some c" "x_state (ctxs st c) = CtxRunning" using assms by (simp_all add: ready_def)
  let ?st = "upd_ctx c (push_recent m) (upd_buffer t (\<lambda>b. b\<lparr>bf_logs := bf_logs b @ [m]\<rparr>) st)"
  have "threads_ok ?st" using ok by (auto simp: threads_ok_def buffer_ok_def)
  then show ?thesis
    using assms ok by (intro exI[of _ ?st])
      (simp add: log_message_def accepts_late_test_operation_def ready_def failures_in_def flags_def same_currents_def push_recent_def Let_def)
qed

lemma exec_request:
  assumes "ready t c st"
  shows "\<exists>st'. request_runtime_skip t r k st = Returns st' \<and> ready t c st' \<and> failures_in t c st' = failures_in t c st
      \<and> flags c st' = (fst (flags c st), True, k) \<and> same_currents st st'"
    and "\<exists>st'. xfail t r st = Returns st' \<and> ready t c st' \<and> failures_in t c st' = failures_in t c st
      \<and> flags c st' = (True, snd (flags c st)) \<and> same_currents st st'"
  using assms ready_owner[OF assms]
  by (simp_all add: request_runtime_skip_def xfail_def ready_def failures_in_def flags_def same_currents_def threads_ok_def)

lemma lease_acquire_ready:
  assumes "ready t c st" and "w \<noteq> t"
  shows "\<exists>st1. lease_acquire w (Some c) st =
      (\<lparr>ls_previous = current st w, ls_leased = Some c, ls_previous_role = t_role (tls st w)\<rparr>, st1)
    \<and> threads_ok st1 \<and> (\<forall>u. current st1 u = (if u = w then Some c else current st u))
    \<and> ctxs st1 c = (ctxs st c)\<lparr>x_adopted_contexts := 1\<rparr> \<and> bf_failures (buffer st1 w) = []
    \<and> buffer st1 t = buffer st t \<and> t_role (tls st1 t) = t_role (tls st t) \<and> t_bench_phase (tls st1 t) = t_bench_phase (tls st t)"
proof -
  define st0 where "st0 = upd_ctx c (\<lambda>x. x\<lparr>x_adopted_contexts := x_adopted_contexts x + 1\<rparr>) st"
  have ok: "threads_ok st0" "x_adopted_contexts (ctxs st c) = 0" "current st w \<noteq> Some c"
    using assms by (simp_all add: ready_def st0_def)
  have f: "tls st0 = tls st" "ctxs st0 c = (ctxs st c)\<lparr>x_adopted_contexts := 1\<rparr>" using ok(2) by (simp_all add: st0_def)
  let ?st1 = "set_current_test w (Some c) RoleAdopted st0"
  have "ctxs ?st1 c = ctxs st0 c" using ok(3) f(1) by (auto simp: set_current_ctxs[OF ok(1)] split: option.splits)
  then show ?thesis
    using set_current_threads_ok[OF ok(1), of w "Some c" RoleAdopted] set_current_buffer(1)[OF ok(1), of w "Some c" RoleAdopted]
      set_current_buffer(2)[OF ok(1), of t w "Some c" RoleAdopted] assms(2) f
    by (intro exI[of _ ?st1]) (auto simp: lease_acquire_def set_current_tls buffer_empty_def st0_def)
qed

lemma lease_release_ready:
  assumes "threads_ok st2" and "current st2 w = Some c" and "x_adopted_contexts (ctxs st2 c) = 1" and "x_state (ctxs st2 c) = CtxRunning"
    and "bf_failures (buffer st2 w) = []" and "w \<noteq> t"
  shows "let st4 = lease_release w \<lparr>ls_previous = p, ls_leased = Some c, ls_previous_role = r\<rparr> st2
    in threads_ok st4 \<and> (\<forall>u. current st4 u = (if u = w then p else current st2 u)) \<and> x_adopted_contexts (ctxs st4 c) = 0
      \<and> x_state (ctxs st4 c) = CtxRunning \<and> x_failures (ctxs st4 c) = x_failures (ctxs st2 c) \<and> flags c st4 = flags c st2
      \<and> buffer st4 t = buffer st2 t \<and> t_role (tls st4 t) = t_role (tls st2 t) \<and> t_bench_phase (tls st4 t) = t_bench_phase (tls st2 t)"
proof -
  let ?st3 = "set_current_test w p r st2"
  have c3: "ctxs ?st3 c = append_buffer (buffer st2 w) (ctxs st2 c)"
    using assms(2) by (simp add: set_current_ctxs[OF assms(1)])
  have ok3: "threads_ok ?st3" by (rule set_current_threads_ok[OF assms(1)])
  have x3: "x_adopted_contexts (ctxs ?st3 c) = 1" "x_state (ctxs ?st3 c) = CtxRunning"
      "x_failures (ctxs ?st3 c) = x_failures (ctxs st2 c)" "flags c ?st3 = flags c st2"
    using assms(3-5) unfolding c3 flags_def by (simp_all add: append_buffer_def)
  have st4: "lease_release w \<lparr>ls_previous = p, ls_leased = Some c, ls_previous_role = r\<rparr> st2
      = upd_ctx c close_context_if_released (upd_ctx c (\<lambda>x. x\<lparr>x_adopted_contexts := 0\<rparr>) ?st3)"
    using x3(1) by (simp add: lease_release_def Let_def)
  show ?thesis
    using x3 ok3 assms(6) set_current_buffer(2)[OF assms(1), of t w p r] unfolding st4 Let_def
    by (auto simp: close_context_if_released_def flags_def set_current_tls)
qed

lemma exec_worker:
  assumes "ready t c st" and "w \<noteq> t"
  shows "\<exists>st'. exec_op t (UWorkerLog w m) st = Returns st' \<and> ready t c st' \<and> failures_in t c st' = failures_in t c st
    \<and> flags c st' = flags c st \<and> same_currents st st'"
proof -
  have cur: "current st t = Some c" "x_state (ctxs st c) = CtxRunning" "\<And>u. u \<noteq> t \<Longrightarrow> current st u \<noteq> Some c"
    using assms(1) by (simp_all add: ready_def)
  let ?l = "\<lparr>ls_previous = current st w, ls_leased = Some c, ls_previous_role = t_role (tls st w)\<rparr>"
  obtain st1 where a: "lease_acquire w (Some c) st = (?l, st1)"
    and st1: "threads_ok st1" "\<And>u. current st1 u = (if u = w then Some c else current st u)"
      "ctxs st1 c = (ctxs st c)\<lparr>x_adopted_contexts := 1\<rparr>" "bf_failures (buffer st1 w) = []" "buffer st1 t = buffer st t"
      "t_role (tls st1 t) = t_role (tls st t)" "t_bench_phase (tls st1 t) = t_bench_phase (tls st t)"
    using lease_acquire_ready[OF assms] by blast
  define st2 where "st2 = upd_ctx c (push_recent m) (upd_buffer w (\<lambda>b. b\<lparr>bf_logs := bf_logs b @ [m]\<rparr>) st1)"
  have lg: "log_message w m st1 = Returns st2"
    using st1 cur by (simp add: log_message_def accepts_late_test_operation_def st2_def)
  have "threads_ok st2"
    using st1(1,2) unfolding st2_def threads_ok_upd_ctx threads_ok_def by (simp add: buffer_ok_def)
  then have st2: "threads_ok st2" "current st2 w = Some c" "x_adopted_contexts (ctxs st2 c) = 1" "x_state (ctxs st2 c) = CtxRunning"
      "bf_failures (buffer st2 w) = []" "x_failures (ctxs st2 c) = x_failures (ctxs st c)" "flags c st2 = flags c st"
      "buffer st2 t = buffer st t" "t_role (tls st2 t) = t_role (tls st t)" "t_bench_phase (tls st2 t) = t_bench_phase (tls st t)"
      "\<And>u. current st2 u = (if u = w then Some c else current st u)"
    using st1 cur assms(2) by (simp_all add: st2_def push_recent_def Let_def flags_def)
  let ?st4 = "lease_release w ?l st2"
  note r = lease_release_ready[OF st2(1-5) assms(2), of "current st w" "t_role (tls st w)", unfolded Let_def]
  have "exec_op t (UWorkerLog w m) st = Returns ?st4" using assms(2) cur(1) a lg by simp
  moreover have c4: "current ?st4 u = current st u" for u using r st2(11) by simp
  moreover from r have s4: "threads_ok ?st4" "x_adopted_contexts (ctxs ?st4 c) = 0" "x_state (ctxs ?st4 c) = CtxRunning"
      "x_failures (ctxs ?st4 c) = x_failures (ctxs st c)" "flags c ?st4 = flags c st" "buffer ?st4 t = buffer st t"
      "t_role (tls ?st4 t) = t_role (tls st t)" "t_bench_phase (tls ?st4 t) = t_bench_phase (tls st t)"
    using st2(6-10) by simp_all
  moreover have "ready t c ?st4" using assms(1) unfolding ready_def c4 s4(2,3,7,8) using s4(1) by blast
  moreover have "failures_in t c ?st4 = failures_in t c st" using s4(4,6) by (simp add: failures_in_def)
  ultimately show ?thesis unfolding same_currents_def by blast
qed

text \<open>The flags after an operation.\<close>

fun op_flags :: "user_op \<Rightarrow> bool \<times> bool \<times> RuntimeSkipKind \<Rightarrow> bool \<times> bool \<times> RuntimeSkipKind" where
  "op_flags (USkip _) (x, s, k) = (x, True, SkipUser)"
| "op_flags (USkipFixture _) (x, s, k) = (x, True, SkipSharedFixtureInfra)"
| "op_flags (UXfail _) (x, s, k) = (True, s, k)"
| "op_flags _ f = f"

lemma exec_op_ready:
  assumes "ready t c st"
  shows "\<exists>st'. exec_op t p st = (if is_skip p then Throws SkipException st' else Returns st') \<and> ready t c st'
    \<and> failures_in t c st' = failures_in t c st @ op_failures p \<and> flags c st' = op_flags p (flags c st) \<and> same_currents st st'"
proof (cases p)
  case (UFailure m)
  then show ?thesis using exec_failure[OF assms, of m] by (auto simp: record_failure_def)
next
  case (UFailureAt m f l)
  then show ?thesis using exec_failure[OF assms, of m] by (auto simp: record_failure_at_def)
next
  case (ULog m)
  then show ?thesis using exec_log[OF assms, of m] by auto
next
  case (USkip r)
  then show ?thesis using exec_request(1)[OF assms, of r SkipUser]
    by (cases "flags c st") (auto simp: skip_test_def throw_skip_def)
next
  case (USkipFixture r)
  then show ?thesis using exec_request(1)[OF assms, of r SkipSharedFixtureInfra]
    by (cases "flags c st") (auto simp: skip_shared_fixture_unavailable_def throw_skip_def)
next
  case (UXfail r)
  then show ?thesis using exec_request(2)[OF assms, of r] by (cases "flags c st") auto
next
  case (UWorkerLog w m)
  then show ?thesis using exec_worker[OF assms, of w m] exec_log[OF assms, of m] by (cases "w = t") auto
qed

fun ops_flags :: "user_op list \<Rightarrow> bool \<times> bool \<times> RuntimeSkipKind \<Rightarrow> bool \<times> bool \<times> RuntimeSkipKind" where
  "ops_flags [] f = f"
| "ops_flags (p # ps) f = (if is_skip p then op_flags p f else ops_flags ps (op_flags p f))"

fun ops_failures :: "user_op list \<Rightarrow> string list" where
  "ops_failures [] = []"
| "ops_failures (p # ps) = (if is_skip p then [] else op_failures p @ ops_failures ps)"

lemma ops_failures_takeWhile: "ops_failures ps = concat (map op_failures (takeWhile (\<lambda>p. \<not> is_skip p) ps))"
  by (induction ps) auto

lemma same_currents_trans: "same_currents a b \<Longrightarrow> same_currents b c \<Longrightarrow> same_currents a c"
  by (simp add: same_currents_def)

lemma exec_ops_ready:
  "ready t c st \<Longrightarrow> \<exists>st'. exec_ops t ps st = (if list_ex is_skip ps then Throws SkipException st' else Returns st') \<and> ready t c st'
    \<and> failures_in t c st' = failures_in t c st @ ops_failures ps \<and> flags c st' = ops_flags ps (flags c st) \<and> same_currents st st'"
proof (induction ps arbitrary: st)
  case Nil
  then show ?case by (simp add: same_currents_def)
next
  case (Cons p ps)
  obtain st1 where 1: "exec_op t p st = (if is_skip p then Throws SkipException st1 else Returns st1)" "ready t c st1"
      "failures_in t c st1 = failures_in t c st @ op_failures p" "flags c st1 = op_flags p (flags c st)" "same_currents st st1"
    using exec_op_ready[OF Cons.prems, of p] by blast
  have "is_skip p \<Longrightarrow> op_failures p = []" by (cases p) auto
  then show ?case
    using 1 Cons.IH[OF 1(2)] same_currents_trans by (cases "is_skip p") (simp, fastforce)
qed

lemma ops_flags_eq:
  "ops_flags ps (x, s, k) =
    (x \<or> list_ex is_xfail (takeWhile (\<lambda>p. \<not> is_skip p) ps), s \<or> list_ex is_skip ps,
     case find is_skip ps of None \<Rightarrow> k | Some p \<Rightarrow> op_skip_kind p SkipUser)"
proof (induction ps arbitrary: x s k)
  case (Cons p ps)
  then show ?case by (cases p) auto
qed simp

text \<open>Entering and leaving the scope.\<close>

definition world_ok :: "world \<Rightarrow> bool" where
  "world_ok w \<longleftrightarrow> threads_ok (w_rt w) \<and> (\<forall>u d. current (w_rt w) u = Some d \<longrightarrow> d < w_next_ctx w)
     \<and> t_bench_phase (tls (w_rt w) 0) = PhaseNone"

lemma enter_ready:
  assumes "world_ok w"
  shows "let c = w_next_ctx w; st = test_scope_enter 0 c (make_active_test_context c name (w_rt w))
    in ready 0 c st \<and> failures_in 0 c st = [] \<and> flags c st = (False, False, SkipUser)
      \<and> (\<forall>u. current st u = (if u = 0 then Some c else current (w_rt w) u))"
proof -
  let ?c = "w_next_ctx w"
  let ?st0 = "make_active_test_context ?c name (w_rt w)"
  have ok: "threads_ok ?st0" using assms by (simp add: world_ok_def make_active_test_context_def)
  have cur: "current (w_rt w) u \<noteq> Some ?c" for u using assms unfolding world_ok_def by blast
  have tls: "tls ?st0 = tls (w_rt w)" by (simp add: make_active_test_context_def)
  have c: "ctxs (set_current_test 0 (Some ?c) RoleOwner ?st0) ?c = start_context (new_context\<lparr>x_display_name := name\<rparr>)"
    using cur[of 0] by (auto simp: set_current_ctxs[OF ok] tls split: option.splits) (simp_all add: make_active_test_context_def)
  show ?thesis
    using set_current_threads_ok[OF ok, of 0 "Some ?c" RoleOwner] set_current_buffer(1)[OF ok, of 0 "Some ?c" RoleOwner] cur assms
    unfolding Let_def test_scope_enter_def ready_def failures_in_def flags_def c
    by (auto simp: set_current_tls tls world_ok_def start_context_def new_context_def buffer_empty_def)
qed

lemma exit_ready:
  assumes "ready t c st"
  shows "\<exists>st'. test_scope_exit t c p r st = Some st' \<and> threads_ok st' \<and> x_failures (ctxs st' c) = failures_in t c st
    \<and> (x_xfail_requested (ctxs st' c), x_runtime_skip_requested (ctxs st' c), x_runtime_skip_kind (ctxs st' c)) = flags c st
    \<and> (\<forall>u. current st' u = (if u = t then p else current st u)) \<and> t_bench_phase (tls st' t) = PhaseNone"
proof -
  have ok: "threads_ok st" "current st t = Some c" using assms by (simp_all add: ready_def)
  let ?a = "set_current_test t (Some c) RoleOwner st"
  have a: "threads_ok ?a" "ctxs ?a c = append_buffer (buffer st t) (ctxs st c)" "buffer_empty (buffer ?a t)" "current ?a t = Some c"
    using set_current_threads_ok[OF ok(1)] set_current_ctxs[OF ok(1), of t] set_current_buffer(1)[OF ok(1)] ok(2)
    by (simp_all add: set_current_tls)
  let ?b = "upd_ctx c request_context_stop ?a"
  have b: "threads_ok ?b" "buffer_empty (buffer ?b t)" "current ?b t = Some c" using a by simp_all
  let ?d = "request_active_test_context_stop t c st"
  have d: "?d = set_current_test t (Some c) (t_role (tls st t)) ?b"
    using ok(2) by (simp add: request_active_test_context_stop_def Let_def)
  have noop: "append_buffer bf x = x" if "buffer_empty bf" for bf x using that by (simp add: append_buffer_def buffer_empty_def)
  have dd: "threads_ok ?d" "ctxs ?d c = request_context_stop (append_buffer (buffer st t) (ctxs st c))" "buffer_empty (buffer ?d t)"
      "current ?d t = Some c" "\<And>u. current ?d u = current st u" "t_bench_phase (tls ?d t) = t_bench_phase (tls st t)"
    using set_current_threads_ok[OF b(1)] set_current_ctxs[OF b(1), of t] set_current_buffer(1)[OF b(1)] b(2,3) a(2) noop ok(2)
    unfolding d by (simp_all add: set_current_tls)
  let ?e = "upd_ctx c close_context_to_late_operations ?d"
  have e: "threads_ok ?e" using dd(1) by simp
  have x: "test_scope_exit t c p r st = Some (set_current_test t p r ?e)"
    using assms dd(2) by (simp add: test_scope_exit_def finish_active_test_context_def ready_def append_buffer_def)
  have ce: "ctxs (set_current_test t p r ?e) c = ctxs ?e c"
    using dd(3,4) noop by (simp add: set_current_ctxs[OF e])
  show ?thesis
    unfolding x using set_current_threads_ok[OF e] ce dd(2,5,6) assms
    by (auto simp: set_current_tls close_context_to_late_operations_def request_context_stop_def append_buffer_def
        failures_in_def flags_def ready_def)
qed

lemma finish_outcome:
  "rr_outcome (fst (finish_invoke_result state test ivk s)) =
    (let x = v_ctxinfo ivk; exc = v_exception ivk; failed = x_failures x \<noteq> [];
         threw = exc \<notin> {ExcNone, ExcSkip, ExcBlocked}; skip = exc = ExcSkip \<and> x_runtime_skip_requested x
     in if exc = ExcBlocked \<and> \<not> failed then OutBlocked
        else if skip \<and> \<not> failed then (if x_runtime_skip_kind x = SkipSharedFixtureInfra then OutBlocked else OutSkip)
        else if x_xfail_requested x \<and> \<not> skip then (if failed \<or> threw then OutXFail else OutXPass)
        else if failed \<or> threw then OutFail else OutPass)"
  unfolding finish_invoke_result_def Let_def by (cases "v_exception ivk"; simp)

text \<open>What the scope hands to the result when it is left from a ready state.\<close>

lemma invoke_finish_ready:
  assumes "ready t c st"
  shows "\<exists>ivk st'. invoke_finish t c p r exc m el st = Invoked ivk st' \<and> v_exception ivk = exc
    \<and> x_failures (v_ctxinfo ivk) = failures_in t c st
    \<and> (x_xfail_requested (v_ctxinfo ivk), x_runtime_skip_requested (v_ctxinfo ivk), x_runtime_skip_kind (v_ctxinfo ivk)) = flags c st
    \<and> threads_ok st' \<and> (\<forall>u. current st' u = (if u = t then p else current st u)) \<and> t_bench_phase (tls st' t) = PhaseNone"
  using exit_ready[OF assms, of p r] by (auto simp: invoke_finish_def Let_def)

text \<open>The exception kind and the failures that an invocation ends with.\<close>

definition end_exception :: "user_body \<Rightarrow> InvokeException" where
  "end_exception body = (if list_ex is_skip (fst body) then ExcSkip else fst (caught RecordAsFailure (snd body)))"

definition end_failures :: "user_body \<Rightarrow> string list" where
  "end_failures body = ops_failures (fst body)
     @ (if list_ex is_skip (fst body) then [] else case snd (snd (caught RecordAsFailure (snd body))) of None \<Rightarrow> [] | Some f \<Rightarrow> [f])"

lemma invoke_case_once_total:
  assumes "world_ok w"
  shows "\<exists>ivk st'. invoke_case_once 0 (w_next_ctx w) body test PhaseNone RecordAsFailure el (w_rt w) = Invoked ivk st'
    \<and> v_exception ivk = end_exception body \<and> x_failures (v_ctxinfo ivk) = end_failures body
    \<and> (x_xfail_requested (v_ctxinfo ivk), x_runtime_skip_requested (v_ctxinfo ivk), x_runtime_skip_kind (v_ctxinfo ivk))
        = ops_flags (fst body) (False, False, SkipUser)
    \<and> threads_ok st' \<and> (\<forall>u. current st' u = current (w_rt w) u) \<and> t_bench_phase (tls st' 0) = PhaseNone"
proof -
  let ?c = "w_next_ctx w"
  define st where "st = test_scope_enter 0 ?c (make_active_test_context ?c (c_name test) (w_rt w))"
  have st: "ready 0 ?c st" "failures_in 0 ?c st = []" "flags ?c st = (False, False, SkipUser)"
      "\<And>u. current st u = (if u = 0 then Some ?c else current (w_rt w) u)"
    using enter_ready[OF assms, of "c_name test"] by (simp_all add: st_def Let_def)
  obtain st1 where st1: "exec_ops 0 (fst body) st = (if list_ex is_skip (fst body) then Throws SkipException st1 else Returns st1)"
      "ready 0 ?c st1" "failures_in 0 ?c st1 = ops_failures (fst body)" "flags ?c st1 = ops_flags (fst body) (False, False, SkipUser)"
      "same_currents st st1"
    using exec_ops_ready[OF st(1), of "fst body"] st(2,3) by auto
  define rest where "rest = (if list_ex is_skip (fst body) then None else snd (snd (caught RecordAsFailure (snd body))))"
  obtain st2 where st2: "ready 0 ?c st2" "failures_in 0 ?c st2 = end_failures body" "flags ?c st2 = flags ?c st1" "same_currents st1 st2"
      "case rest of None \<Rightarrow> st2 = st1 | Some f \<Rightarrow> record_failure 0 f st1 = Returns st2"
  proof (cases rest)
    case None
    then show ?thesis using that[of st1] st1 by (auto simp: end_failures_def rest_def same_currents_def split: if_splits)
  next
    case (Some f)
    then show ?thesis using that exec_failure[OF st1(2), of f "\<lparr>l_file = [], l_line = 0\<rparr>"] st1(3)
      by (auto simp: end_failures_def rest_def record_failure_def split: if_splits)
  qed
  have "\<exists>m. invoke_case_once 0 ?c body test PhaseNone RecordAsFailure el (w_rt w)
      = invoke_finish 0 ?c (current (w_rt w) 0) (t_role (tls (w_rt w) 0)) (end_exception body) m el st2"
    using st1(1) st2(5)
    by (cases "list_ex is_skip (fst body)"; cases "snd body"; cases "the (snd body)")
       (auto simp: invoke_case_once_def run_in_phase_def run_call_def caught_def rest_def end_exception_def st_def Let_def)
  then show ?thesis
    using invoke_finish_ready[OF st2(1), of "current (w_rt w) 0" "t_role (tls (w_rt w) 0)" "end_exception body" _ el] st2(2,3,4) st1(4,5) st(4)
    by (fastforce simp: same_currents_def)
qed

lemma expected_outcome_end:
  "expected_outcome body =
    (let exc = end_exception body; failed = end_failures body \<noteq> []; fl = ops_flags (fst body) (False, False, SkipUser);
         threw = exc \<notin> {ExcNone, ExcSkip, ExcBlocked}; skip = exc = ExcSkip \<and> fst (snd fl)
     in if exc = ExcBlocked \<and> \<not> failed then OutBlocked
        else if skip \<and> \<not> failed then (if snd (snd fl) = SkipSharedFixtureInfra then OutBlocked else OutSkip)
        else if fst fl \<and> \<not> skip then (if failed \<or> threw then OutXFail else OutXPass)
        else if failed \<or> threw then OutFail else OutPass)"
proof (cases "find is_skip (fst body)")
  case None
  then have n: "\<not> list_ex is_skip (fst body)" by (auto simp: find_None_iff list_ex_iff)
  show ?thesis
    by (cases "snd body"; cases "the (snd body)")
       (auto simp: None n expected_outcome_def end_exception_def end_failures_def ops_flags_eq caught_def raises_def ops_failures_takeWhile Let_def)
next
  case (Some p)
  then have n: "list_ex is_skip (fst body)" by (auto simp: find_Some_iff list_ex_iff)
  show ?thesis
    by (simp add: Some n expected_outcome_def end_exception_def end_failures_def ops_flags_eq ops_failures_takeWhile Let_def)
qed

text \<open>How one outcome moves the counters, in a run without asynchronous cases.\<close>

fun count_outcome :: "Outcome \<Rightarrow> TestCounters \<Rightarrow> TestCounters" where
  "count_outcome OutPass = inc_passed \<circ> inc_total"
| "count_outcome OutFail = inc_failures \<circ> inc_failed \<circ> inc_total"
| "count_outcome OutSkip = inc_skipped \<circ> inc_total"
| "count_outcome OutBlocked = inc_blocked \<circ> inc_total"
| "count_outcome OutXFail = inc_skipped \<circ> inc_xfail \<circ> inc_total"
| "count_outcome OutXPass = inc_failures \<circ> inc_failed \<circ> inc_xpass \<circ> inc_total"

lemma finish_counts:
  assumes "v_exception ivk \<noteq> ExcBlocked"
  shows "rs_counters (snd (finish_invoke_result state test ivk (tally inc_total s)))
    = count_outcome (rr_outcome (fst (finish_invoke_result state test ivk (tally inc_total s)))) (rs_counters s)"
  using assms unfolding finish_invoke_result_def Let_def by simp

text \<open>The report items and runner-level errors of the accumulator, which only recording a result extends.\<close>

abbreviation items_of :: "run_state \<Rightarrow> (ReportItem list \<times> string list) option" where
  "items_of s \<equiv> map_option (\<lambda>acc. (report_items acc, infra_errors acc)) (rs_acc s)"

lemma annotate_items [simp]: "items_of (annotate f l n m s) = items_of s"
  by (cases "rs_acc s") (simp_all add: annotate_def add_error_annotation_def)

lemma report_events_items [simp]: "items_of (snd (report_events state test locs k evs s)) = items_of s"
  by (cases "rs_acc s") (simp_all add: report_events_acc)

lemma finish_items: "items_of (snd (finish_invoke_result state test ivk s)) = items_of s"
  unfolding finish_invoke_result_def Let_def
  by (simp add: finish_blocked_def finish_skip_def finish_xfail_def finish_xpass_def finish_fail_def
      finish_pass_def finish_fatal_def Let_def split_beta)

lemma end_exception_not_blocked: "end_exception body \<noteq> ExcBlocked"
  by (auto simp: end_exception_def caught_def split: option.splits exn.splits)

lemma execute_one_verdict:
  assumes "world_ok w" and "\<not> c_should_skip test"
  shows "\<exists>rr w'. execute_one env state test fixture w = Inr (rr, w')
    \<and> rr_outcome rr = expected_outcome (e_bodies env (c_fn test) fixture) \<and> world_ok w'
    \<and> rs_counters (w_run w') = count_outcome (rr_outcome rr) (rs_counters (w_run w)) \<and> items_of (w_run w') = items_of (w_run w)"
proof -
  let ?body = "e_bodies env (c_fn test) fixture"
  obtain ivk st' where i: "invoke_case_once 0 (w_next_ctx w) ?body test PhaseNone RecordAsFailure (e_elapsed env (w_next_ctx w)) (w_rt w) = Invoked ivk st'"
    and f: "v_exception ivk = end_exception ?body" "x_failures (v_ctxinfo ivk) = end_failures ?body"
      "(x_xfail_requested (v_ctxinfo ivk), x_runtime_skip_requested (v_ctxinfo ivk), x_runtime_skip_kind (v_ctxinfo ivk))
        = ops_flags (fst ?body) (False, False, SkipUser)"
      "threads_ok st'" "\<And>u. current st' u = current (w_rt w) u" "t_bench_phase (tls st' 0) = PhaseNone"
    using invoke_case_once_total[OF assms(1)] by blast
  obtain rr s2 where r: "finish_invoke_result state test ivk (tally inc_total (w_run w)) = (rr, s2)" by fastforce
  have "rr_outcome rr = expected_outcome ?body"
    using finish_outcome[of state test ivk "tally inc_total (w_run w)"]
    unfolding r expected_outcome_end f(3)[symmetric] Let_def fst_conv snd_conv f(1,2) .
  moreover have "rs_counters s2 = count_outcome (rr_outcome rr) (rs_counters (w_run w))"
    using finish_counts[of ivk state test "w_run w"] f(1) end_exception_not_blocked by (simp add: r)
  moreover have "items_of s2 = items_of (w_run w)" using finish_items[of state test ivk "tally inc_total (w_run w)"] by (simp add: r)
  moreover have "world_ok \<lparr>w_run = s2, w_rt = st', w_next_ctx = w_next_ctx w + 1\<rparr>"
    using assms(1) f(4,5,6) by (auto simp: world_ok_def less_SucI)
  ultimately show ?thesis using assms(2) i r by (simp add: execute_one_def Let_def)
qed

lemma count_outcome_ok: "counters_ok c \<Longrightarrow> counters_ok (count_outcome r c)"
  by (cases r) (simp_all add: counters_ok_def inc_defs)


definition sample_world :: world where
  "sample_world = \<lparr>w_run = \<lparr>rs_counters = zero_counters, rs_acc = Some empty_accumulator, rs_console = []\<rparr>,
     w_rt = cf_rt initial_cfg, w_next_ctx = 0\<rparr>"

definition sample_test :: Case where
  "sample_test = \<lparr>c_name = ''a'', c_fn = 0, c_file = ''a.cpp'', c_line = 1, c_is_benchmark = False, c_is_jitter = False,
     c_is_baseline = False, c_tags = [], c_requirements = [], c_skip_reason = [], c_should_skip = False,
     c_fixture = [], c_fixture_lifetime = LifetimeNone, c_suite = ''s'', c_async_fn = None,
     c_is_async = False, c_items_per_call = 1, c_owner = []\<rparr>"

definition sample_exec_env :: exec_env where
  "sample_exec_env = \<lparr>e_bodies = (\<lambda>_ _. ([ULog ''hello'', UXfail ''bug 7'', UWorkerLog 1 ''w''], Some (StdExn ''boom''))),
     e_elapsed = (\<lambda>_. DFinite 0)\<rparr>"

lemma sample_world_ok: "world_ok sample_world" "counters_ok (rs_counters (w_run sample_world))"
  using initial_inv[of 0]
  by (simp_all add: world_ok_def sample_world_def counters_ok_def zero_counters_def cfg_inv_def content_def)
     (simp_all add: initial_cfg_def idle_thread_def)


end
