(* ===== verification/Fixture_Runtime.thy ===== *)
theory Fixture_Runtime
  imports Case_Api Run_Context
begin

section \<open>Shared fixtures: \<^verbatim>\<open>src/runner_fixture_runtime.cpp\<close>\<close>

text \<open>
  Registration, set-up, look-up and tear-down of suite and global fixtures and the gate that
  admits one run at a time.  A callback is a numbered function pointer; what a call does is
  an argument (\<open>behave\<close>) that may depend on the trace of earlier callback calls: the instance
  and the error text it returns, the exception it ends with and what its private test context
  holds afterwards.  Callbacks do not reach back into the registry (registration is refused while
  a run is active).  Threads are numbers; the default \<^verbatim>\<open>std::thread::id\<close> is \<open>None\<close>.
\<close>

datatype SharedFixtureScope = ScopeSuite | ScopeGlobal

record SharedFixtureEntry =
  fx_name :: string
  fx_suite :: string
  fx_scope :: SharedFixtureScope
  fx_instance :: "nat option"
  fx_initialized :: bool
  fx_initializing :: bool
  fx_failed :: bool
  fx_error :: string
  fx_create :: "nat option"
  fx_setup :: "nat option"
  fx_teardown :: "nat option"

record SharedFixtureRegistry =
  r_entries :: "SharedFixtureEntry list"
  r_teardown_in_progress :: bool
  r_registration_error :: bool
  r_registration_errors :: "string list"

record SharedFixtureRunGate =
  gt_active :: bool
  gt_owner :: "nat option"

record SharedFixtureRuntimeSession =
  ss_owns_gate :: bool
  ss_gate_rejected :: bool
  ss_owner_thread :: "nat option"

datatype fixture_event = EvCreate nat string | EvSetup nat nat | EvTeardown nat nat

text \<open>The outcome of one callback in its own context.\<close>

record phase_outcome =
  po_instance :: "nat option"
  po_error :: string
  po_exn :: "exn option"
  po_first_failure :: string
  po_bench_error :: string
  po_skip_requested :: bool
  po_skip_reason :: string

type_synonym behaviour = "fixture_event list \<Rightarrow> fixture_event \<Rightarrow> phase_outcome"

record fixture_state =
  fs_reg :: SharedFixtureRegistry
  fs_gate :: SharedFixtureRunGate
  fs_trace :: "fixture_event list"

definition upd_reg :: "(SharedFixtureRegistry \<Rightarrow> SharedFixtureRegistry) \<Rightarrow> fixture_state \<Rightarrow> fixture_state" where
  "upd_reg f st = st\<lparr>fs_reg := f (fs_reg st)\<rparr>"

definition upd_entry :: "nat \<Rightarrow> (SharedFixtureEntry \<Rightarrow> SharedFixtureEntry) \<Rightarrow> fixture_state \<Rightarrow> fixture_state" where
  "upd_entry i f st = upd_reg (\<lambda>r. r\<lparr>r_entries := (r_entries r)[i := f (r_entries r ! i)]\<rparr>) st"

abbreviation entries :: "fixture_state \<Rightarrow> SharedFixtureEntry list" where
  "entries st \<equiv> r_entries (fs_reg st)"

subsection \<open>The gate\<close>

definition begin_shared_fixture_run ::
  "nat \<Rightarrow> SharedFixtureRuntimeSession \<Rightarrow> fixture_state \<Rightarrow> string option \<times> SharedFixtureRuntimeSession \<times> fixture_state" where
  "begin_shared_fixture_run self session st =
     (if ss_owns_gate session
      then (Some ''shared fixture runtime run re-entry from the same thread is not supported'',
            session\<lparr>ss_gate_rejected := True, ss_owner_thread := None\<rparr>, st)
      else if gt_active (fs_gate st)
      then (Some (if gt_owner (fs_gate st) = Some self
                  then ''shared fixture runtime run re-entry from the same thread is not supported''
                  else ''shared fixture runtime run is already active in another thread''),
            session\<lparr>ss_gate_rejected := True, ss_owner_thread := None\<rparr>, st)
      else (None, \<lparr>ss_owns_gate = True, ss_gate_rejected = False, ss_owner_thread = Some self\<rparr>,
            st\<lparr>fs_gate := \<lparr>gt_active = True, gt_owner = Some self\<rparr>\<rparr>))"

definition end_shared_fixture_run ::
  "nat \<Rightarrow> SharedFixtureRuntimeSession \<Rightarrow> fixture_state \<Rightarrow> string option \<times> SharedFixtureRuntimeSession \<times> fixture_state" where
  "end_shared_fixture_run self session st =
     (let gate = fs_gate st
      in if \<not> ss_owns_gate session then (None, session, st)
         else if gt_active gate \<and> (gt_owner gate \<noteq> ss_owner_thread session \<or> gt_owner gate \<noteq> Some self)
         then (Some ''shared fixture runtime session release attempted from non-owner thread'', session, st)
         else (None, session\<lparr>ss_owns_gate := False, ss_owner_thread := None\<rparr>,
               if gt_active gate then st\<lparr>fs_gate := \<lparr>gt_active = False, gt_owner = None\<rparr>\<rparr> else st))"

subsection \<open>Registration\<close>

fun shared_fixture_scope_rank :: "SharedFixtureScope \<Rightarrow> nat" where
  "shared_fixture_scope_rank ScopeSuite = 0"
| "shared_fixture_scope_rank ScopeGlobal = 1"

definition shared_fixture_order_less :: "SharedFixtureEntry \<Rightarrow> SharedFixtureEntry \<Rightarrow> bool" where
  "shared_fixture_order_less l r =
     (if fx_name l \<noteq> fx_name r then fx_name l < fx_name r
      else if shared_fixture_scope_rank (fx_scope l) \<noteq> shared_fixture_scope_rank (fx_scope r)
      then shared_fixture_scope_rank (fx_scope l) < shared_fixture_scope_rank (fx_scope r)
      else fx_suite l < fx_suite r)"

definition reset_entry :: "SharedFixtureEntry \<Rightarrow> SharedFixtureEntry" where
  "reset_entry e = e\<lparr>fx_instance := None, fx_initialized := False, fx_initializing := False, fx_failed := False, fx_error := []\<rparr>"

definition reset_shared_fixture_run_state :: "SharedFixtureRegistry \<Rightarrow> SharedFixtureRegistry" where
  "reset_shared_fixture_run_state reg = reg\<lparr>r_entries := map reset_entry (r_entries reg)\<rparr>"

definition shared_fixture_callbacks_match :: "SharedFixtureEntry \<Rightarrow> nat option \<Rightarrow> nat option \<Rightarrow> nat option \<Rightarrow> bool" where
  "shared_fixture_callbacks_match e create setup teardown \<longleftrightarrow>
     fx_create e = create \<and> fx_setup e = setup \<and> fx_teardown e = teardown"

definition quoted :: "string \<Rightarrow> string" where
  "quoted s = [CHR 0x27] @ s @ [CHR 0x27]"

definition registration_failure :: "string \<Rightarrow> SharedFixtureRegistry \<Rightarrow> SharedFixtureRegistry" where
  "registration_failure msg reg = reg\<lparr>r_registration_error := True, r_registration_errors := r_registration_errors reg @ [msg]\<rparr>"

definition new_entry ::
  "SharedFixtureScope \<Rightarrow> string \<Rightarrow> string \<Rightarrow> nat option \<Rightarrow> nat option \<Rightarrow> nat option \<Rightarrow> SharedFixtureEntry" where
  "new_entry scope suite name create setup teardown =
     \<lparr>fx_name = name, fx_suite = suite, fx_scope = scope, fx_instance = None, fx_initialized = False, fx_initializing = False,
      fx_failed = False, fx_error = [], fx_create = create, fx_setup = setup, fx_teardown = teardown\<rparr>"

text \<open>The scan for an entry that settles the registration: \<open>None\<close> when the new entry is to be inserted.\<close>

fun registration_conflict :: "SharedFixtureEntry \<Rightarrow> SharedFixtureEntry list \<Rightarrow> string option option" where
  "registration_conflict n [] = None"
| "registration_conflict n (e # es) =
     (if fx_name e = fx_name n \<and> fx_suite e = fx_suite n \<and> fx_scope e = fx_scope n
      then Some (if shared_fixture_callbacks_match e (fx_create n) (fx_setup n) (fx_teardown n) then None
                 else Some (''fixture '' @ quoted (fx_name n) @ '' registered multiple times with conflicting callbacks''))
      else if fx_name e = fx_name n \<and> fx_scope e \<noteq> fx_scope n
      then Some (Some (''fixture '' @ quoted (fx_name e) @ '' registered with conflicting scopes.''))
      else registration_conflict n es)"

text \<open>\<^verbatim>\<open>lower_bound\<close> on the sorted vector, then \<^verbatim>\<open>insert\<close>.\<close>

fun insert_entry :: "SharedFixtureEntry \<Rightarrow> SharedFixtureEntry list \<Rightarrow> SharedFixtureEntry list" where
  "insert_entry n [] = [n]"
| "insert_entry n (e # es) = (if shared_fixture_order_less e n then e # insert_entry n es else n # e # es)"

definition register_shared_fixture :: "SharedFixtureEntry \<Rightarrow> fixture_state \<Rightarrow> fixture_state" where
  "register_shared_fixture n st =
     (if gt_active (fs_gate st)
      then upd_reg (registration_failure (''fixture '' @ quoted (fx_name n) @ '' cannot be registered while a test run is active'')) st
      else case registration_conflict n (entries st) of
        Some None \<Rightarrow> st
      | Some (Some msg) \<Rightarrow> upd_reg (registration_failure msg) st
      | None \<Rightarrow> upd_reg (\<lambda>r. r\<lparr>r_entries := insert_entry n (r_entries r)\<rparr>) st)"

definition suite_scope_matches :: "string \<Rightarrow> string \<Rightarrow> bool" where
  "suite_scope_matches fixture_suite requested_suite =
     (if fixture_suite = [] then True
      else if requested_suite = fixture_suite then True
      else if length requested_suite \<le> length fixture_suite \<or> \<not> starts_with requested_suite fixture_suite then False
      else let remainder = drop (length fixture_suite) requested_suite
           in if remainder = [] then True
              else if hd remainder = CHR ''/'' then True
              else length remainder \<ge> 2 \<and> remainder ! 0 = CHR '':'' \<and> remainder ! 1 = CHR '':'')"

subsection \<open>Running the callbacks\<close>

definition resolve_fixture_context_issue :: "phase_outcome \<Rightarrow> string \<Rightarrow> bool \<Rightarrow> bool \<Rightarrow> string" where
  "resolve_fixture_context_issue out current_error caught_assertion caught_runtime_skip =
     (if caught_assertion \<and> po_first_failure out \<noteq> [] then po_first_failure out
      else if current_error \<noteq> [] then current_error
      else if po_first_failure out \<noteq> [] then po_first_failure out
      else if po_bench_error out \<noteq> [] then po_bench_error out
      else if po_skip_requested out
      then (if po_skip_reason out \<noteq> [] then po_skip_reason out else ''skip requested'')
      else if caught_runtime_skip then ''skip requested without active runtime skip state''
      else current_error)"

text \<open>The error text after the catch clauses and the resolution; empty means success.\<close>

definition phase_error :: "phase_outcome \<Rightarrow> string" where
  "phase_error out =
     (case po_exn out of
        None \<Rightarrow> resolve_fixture_context_issue out (po_error out) False False
      | Some SkipException \<Rightarrow> resolve_fixture_context_issue out (po_error out) False True
      | Some (AssertionExn m) \<Rightarrow> resolve_fixture_context_issue out m True False
      | Some (FailureExn m) \<Rightarrow> resolve_fixture_context_issue out (''std::exception: '' @ m) False False
      | Some (StdExn m) \<Rightarrow> resolve_fixture_context_issue out (''std::exception: '' @ m) False False
      | Some UnknownExn \<Rightarrow> resolve_fixture_context_issue out ''unknown exception'' False False)"

definition call :: "behaviour \<Rightarrow> fixture_event \<Rightarrow> fixture_state \<Rightarrow> phase_outcome \<times> fixture_state" where
  "call behave ev st = (behave (fs_trace st) ev, st\<lparr>fs_trace := fs_trace st @ [ev]\<rparr>)"

definition run_fixture_phase :: "behaviour \<Rightarrow> fixture_event \<Rightarrow> fixture_state \<Rightarrow> string \<times> fixture_state" where
  "run_fixture_phase behave ev st = (case call behave ev st of (out, st') \<Rightarrow> (phase_error out, st'))"

definition format_fixture_error :: "string \<Rightarrow> string \<Rightarrow> string" where
  "format_fixture_error stage detail =
     (if detail = [] then ''fixture '' @ stage @ '' failed''
      else if stage = ''allocation'' \<and> detail = ''returned null'' then ''fixture allocation returned null''
      else if stage = ''allocation'' \<and> starts_with detail ''std::exception:'' then ''fixture construction threw '' @ detail
      else if stage = ''allocation'' \<and> detail = ''unknown exception'' then ''fixture construction threw unknown exception''
      else ''fixture '' @ stage @ '' failed: '' @ detail)"

subsection \<open>Set-up\<close>

definition is_pending :: "SharedFixtureEntry \<Rightarrow> bool" where
  "is_pending e \<longleftrightarrow> \<not> (fx_initialized e \<or> fx_initializing e \<or> fx_failed e)"

definition mark_failed :: "string \<Rightarrow> SharedFixtureEntry \<Rightarrow> SharedFixtureEntry" where
  "mark_failed msg e = e\<lparr>fx_initializing := False, fx_initialized := False, fx_failed := True, fx_error := msg\<rparr>"

definition mark_ready :: "SharedFixtureEntry \<Rightarrow> SharedFixtureEntry" where
  "mark_ready e = e\<lparr>fx_initializing := False, fx_initialized := True, fx_failed := False, fx_error := []\<rparr>"

text \<open>The creation: error text and instance, once the instance is dropped on an error.\<close>

definition create_instance :: "behaviour \<Rightarrow> SharedFixtureEntry \<Rightarrow> fixture_state \<Rightarrow> string \<times> nat option \<times> fixture_state" where
  "create_instance behave e st =
     (case fx_create e of
        None \<Rightarrow> (''missing factory'', None, st)
      | Some cb \<Rightarrow>
          (case call behave (EvCreate cb (fx_suite e)) st of (out, st') \<Rightarrow>
             let error = phase_error out
             in (error, if error \<noteq> [] \<or> po_exn out \<noteq> None then None else po_instance out, st')))"

text \<open>One turn of the loop on the entry at index \<open>i\<close>.\<close>

definition setup_entry :: "behaviour \<Rightarrow> nat \<Rightarrow> fixture_state \<Rightarrow> bool \<times> fixture_state" where
  "setup_entry behave i st0 =
     (let st = upd_entry i (\<lambda>e. e\<lparr>fx_initializing := True\<rparr>) st0; e = entries st0 ! i
      in case create_instance behave e st of (error, instance, st1) \<Rightarrow>
        (case instance of
           None \<Rightarrow>
             let msg = (if fx_create e \<noteq> None then format_fixture_error ''allocation'' error
                        else ''fixture allocation failed: missing factory'')
             in (False, upd_entry i (\<lambda>e. (mark_failed msg e)\<lparr>fx_instance := None\<rparr>) st1)
         | Some x \<Rightarrow>
             let st2 = upd_entry i (\<lambda>e. e\<lparr>fx_instance := Some x\<rparr>) st1;
                 (setup_error, st3) = (case fx_setup e of None \<Rightarrow> ([], st2)
                                       | Some cb \<Rightarrow> run_fixture_phase behave (EvSetup cb x) st2)
             in if setup_error \<noteq> [] then (False, upd_entry i (mark_failed (format_fixture_error ''setup'' setup_error)) st3)
                else (True, upd_entry i mark_ready st3)))"

definition first_pending :: "fixture_state \<Rightarrow> nat option" where
  "first_pending st = find (\<lambda>i. is_pending (entries st ! i)) [0..<length (entries st)]"

lemma length_upd_entry [simp]: "length (entries (upd_entry i f st)) = length (entries st)"
  by (simp add: upd_entry_def upd_reg_def)

lemma entries_upd_entry: "entries (upd_entry i f st) = (entries st)[i := f (entries st ! i)]"
  by (simp add: upd_entry_def upd_reg_def)

lemma upd_entry_upd_entry: "i < length (entries st) \<Longrightarrow> upd_entry i g (upd_entry i f st) = upd_entry i (g \<circ> f) st"
  by (simp add: upd_entry_def upd_reg_def)

lemma call_simps [simp]:
  "entries (snd (call behave ev st)) = entries st" "fs_reg (snd (call behave ev st)) = fs_reg st"
  "fs_gate (snd (call behave ev st)) = fs_gate st"
  "fs_trace (snd (call behave ev st)) = fs_trace st @ [ev]" "fst (call behave ev st) = behave (fs_trace st) ev"
  by (simp_all add: call_def)

lemma create_instance_reg: "create_instance behave e st = (err, x, st') \<Longrightarrow> fs_reg st' = fs_reg st \<and> fs_gate st' = fs_gate st"
  by (auto simp: create_instance_def call_def Let_def split: option.splits)

lemma run_fixture_phase_reg: "run_fixture_phase behave ev st = (err, st') \<Longrightarrow> fs_reg st' = fs_reg st \<and> fs_gate st' = fs_gate st"
  by (auto simp: run_fixture_phase_def call_def)

text \<open>A turn settles its entry: it becomes ready or failed, and no other entry changes.\<close>

lemma setup_entry_settles:
  assumes "setup_entry behave i st = (ok, st')" and "i < length (entries st)"
  shows "\<exists>e'. entries st' = (entries st)[i := e'] \<and> \<not> is_pending e' \<and> \<not> fx_initializing e'
    \<and> fx_initialized e' = ok \<and> fx_failed e' = (\<not> ok) \<and> (ok \<longrightarrow> fx_instance e' \<noteq> None)"
proof -
  let ?e = "entries st ! i" and ?st = "upd_entry i (\<lambda>e. e\<lparr>fx_initializing := True\<rparr>) st"
  obtain error x st1 where c: "create_instance behave ?e ?st = (error, x, st1)" by (metis prod_cases3)
  have e1: "entries st1 = (entries st)[i := ?e\<lparr>fx_initializing := True\<rparr>]"
    using create_instance_reg[OF c] by (simp add: entries_upd_entry)
  show ?thesis
  proof (cases x)
    case None
    then show ?thesis using assms c e1
      by (auto simp: setup_entry_def Let_def entries_upd_entry mark_failed_def is_pending_def)
  next
    case (Some v)
    let ?st2 = "upd_entry i (\<lambda>e. e\<lparr>fx_instance := Some v\<rparr>) st1"
    obtain err st3 where s: "(case fx_setup ?e of None \<Rightarrow> ([], ?st2) | Some cb \<Rightarrow> run_fixture_phase behave (EvSetup cb v) ?st2) = (err, st3)"
      by fastforce
    then have "entries st3 = entries ?st2" using run_fixture_phase_reg by (auto split: option.splits)
    then show ?thesis using assms c e1 Some s
      by (auto simp: setup_entry_def Let_def entries_upd_entry mark_failed_def mark_ready_def is_pending_def split: if_splits)
  qed
qed

lemma first_pending_Some: "first_pending st = Some i \<Longrightarrow> i < length (entries st) \<and> is_pending (entries st ! i)"
  by (auto simp: first_pending_def find_Some_iff)

definition pending_count :: "fixture_state \<Rightarrow> nat" where
  "pending_count st = length (filter is_pending (entries st))"

lemma filter_update_less:
  "i < length xs \<Longrightarrow> P (xs ! i) \<Longrightarrow> \<not> P y \<Longrightarrow> length (filter P (xs[i := y])) < length (filter P xs)"
proof (induction xs arbitrary: i)
  case (Cons x xs)
  then show ?case by (cases i) auto
qed simp

lemma setup_entry_pending:
  assumes "first_pending st = Some i"
  shows "pending_count (snd (setup_entry behave i st)) < pending_count st"
  using setup_entry_settles[of behave i st] first_pending_Some[OF assms] filter_update_less[of i "entries st" is_pending]
  unfolding pending_count_def by (metis prod.collapse)

function setup_loop :: "behaviour \<Rightarrow> bool \<Rightarrow> fixture_state \<Rightarrow> bool \<times> fixture_state" where
  "setup_loop behave ok st =
     (if r_teardown_in_progress (fs_reg st) then (ok, st)
      else case first_pending st of
        None \<Rightarrow> (ok, st)
      | Some i \<Rightarrow> setup_loop behave (ok \<and> fst (setup_entry behave i st)) (snd (setup_entry behave i st)))"
  by pat_completeness auto

termination setup_loop
  by (relation "measure (\<lambda>(b, ok, st). pending_count st)") (simp_all add: setup_entry_pending)

declare setup_loop.simps [simp del]

text \<open>\<open>setup_shared_fixtures\<close> returns false at once without a session or after a registration error.\<close>

definition setup_shared_fixtures :: "behaviour \<Rightarrow> nat \<Rightarrow> fixture_state \<Rightarrow> bool \<times> fixture_state" where
  "setup_shared_fixtures behave self st =
     (if \<not> gt_active (fs_gate st) \<or> gt_owner (fs_gate st) \<noteq> Some self then (False, st)
      else if r_registration_error (fs_reg st) then (False, st)
      else setup_loop behave True (upd_reg reset_shared_fixture_run_state st))"

subsection \<open>Tear-down\<close>

definition has_work :: "SharedFixtureEntry \<Rightarrow> bool" where
  "has_work e \<longleftrightarrow> \<not> (fx_instance e = None \<or> \<not> fx_initialized e \<and> \<not> fx_failed e)"

definition drop_unused :: "SharedFixtureEntry \<Rightarrow> SharedFixtureEntry" where
  "drop_unused e = (if has_work e then e else e\<lparr>fx_instance := None, fx_initialized := False\<rparr>)"

definition teardown_work :: "SharedFixtureEntry list \<Rightarrow> (nat \<times> SharedFixtureEntry) list" where
  "teardown_work es = filter (\<lambda>(i, e). has_work e) (rev (enumerate 0 es))"

definition release_entry :: "SharedFixtureEntry \<Rightarrow> SharedFixtureEntry" where
  "release_entry e = e\<lparr>fx_instance := None, fx_initialized := False, fx_initializing := False\<rparr>"

fun teardown_items ::
  "behaviour \<Rightarrow> (nat \<times> SharedFixtureEntry) list \<Rightarrow> string list \<Rightarrow> fixture_state \<Rightarrow> string list \<times> fixture_state" where
  "teardown_items behave [] errs st = (errs, st)"
| "teardown_items behave ((i, e) # work) errs st =
     (let (errs1, st1) =
            (case (fx_teardown e, fx_instance e) of
               (Some cb, Some x) \<Rightarrow>
                 (case run_fixture_phase behave (EvTeardown cb x) st of (error, st') \<Rightarrow>
                    (if error = [] then errs else errs @ [''fixture teardown failed for '' @ fx_name e @ '': '' @ error], st'))
             | _ \<Rightarrow> (errs, st));
          st2 = (if i < length (entries st1) then upd_entry i release_entry st1 else st1)
      in teardown_items behave work errs1 st2)"

definition teardown_shared_fixtures :: "behaviour \<Rightarrow> nat \<Rightarrow> fixture_state \<Rightarrow> string list \<times> bool \<times> fixture_state" where
  "teardown_shared_fixtures behave self st =
     (if \<not> gt_active (fs_gate st) \<or> gt_owner (fs_gate st) \<noteq> Some self
      then ([''shared fixture teardown requires an active runtime session''], False, st)
      else let st1 = upd_reg (\<lambda>r. r\<lparr>r_teardown_in_progress := True\<rparr>) st;
               work = teardown_work (entries st1);
               st2 = upd_reg (\<lambda>r. r\<lparr>r_entries := map drop_unused (r_entries r)\<rparr>) st1;
               (errs, st3) = teardown_items behave work [] st2
           in (errs, errs = [], upd_reg (\<lambda>r. r\<lparr>r_teardown_in_progress := False\<rparr>) st3))"

subsection \<open>Look-up and the runtime entry points\<close>

fun select_entry ::
  "SharedFixtureScope \<Rightarrow> string \<Rightarrow> string \<Rightarrow> SharedFixtureEntry list \<Rightarrow> SharedFixtureEntry option \<Rightarrow> SharedFixtureEntry option" where
  "select_entry scope suite name [] selected = selected"
| "select_entry scope suite name (e # es) selected =
     select_entry scope suite name es
       (if fx_scope e = scope \<and> fx_name e = name \<and> suite_scope_matches (fx_suite e) suite
           \<and> (case selected of None \<Rightarrow> True | Some s \<Rightarrow> length (fx_suite e) > length (fx_suite s))
        then Some e else selected)"

definition get_shared_fixture :: "SharedFixtureScope \<Rightarrow> string \<Rightarrow> string \<Rightarrow> fixture_state \<Rightarrow> string + nat" where
  "get_shared_fixture scope suite name st =
     (let reg = fs_reg st
      in if r_registration_error reg
         then Inl (if r_registration_errors reg \<noteq> [] then hd (r_registration_errors reg) else ''fixture registration failed'')
         else case select_entry scope suite name (r_entries reg) None of
           None \<Rightarrow> Inl (if r_teardown_in_progress reg then ''fixture teardown in progress'' else ''fixture not registered'')
         | Some e \<Rightarrow>
             if fx_failed e then Inl (fx_error e)
             else if fx_initializing e then Inl ''fixture initialization in progress''
             else if \<not> fx_initialized e
             then Inl (if r_teardown_in_progress reg then ''fixture teardown in progress'' else ''fixture not initialized'')
             else (case fx_instance e of None \<Rightarrow> Inl ''fixture allocation returned null'' | Some x \<Rightarrow> Inr x))"

definition acquire_case_fixture :: "Case \<Rightarrow> fixture_state \<Rightarrow> string + nat option" where
  "acquire_case_fixture c st =
     (if c_fixture_lifetime c = LifetimeNone \<or> c_fixture_lifetime c = MemberEphemeral then Inr None
      else if c_fixture c = [] then Inl ''fixture allocation returned null''
      else let scope = (if c_fixture_lifetime c = MemberSuite then ScopeSuite else ScopeGlobal)
           in case get_shared_fixture scope (c_suite c) (c_fixture c) st of
                Inl reason \<Rightarrow> Inl (if reason = [] then ''fixture allocation returned null'' else reason)
              | Inr x \<Rightarrow> Inr (Some x))"

definition add_missing :: "string list \<Rightarrow> string \<Rightarrow> string list" where
  "add_missing errs msg = (if msg \<in> set errs then errs else errs @ [msg])"

definition setup_errors :: "SharedFixtureRegistry \<Rightarrow> string list" where
  "setup_errors reg =
     (let e1 = foldl add_missing [] (r_registration_errors reg);
          e2 = foldl (\<lambda>errs e. if \<not> fx_failed e \<or> fx_error e = [] then errs
                               else add_missing errs (''fixture '' @ quoted (fx_name e) @ '' '' @ fx_error e)) e1 (r_entries reg);
          e3 = (if e2 = [] \<and> r_registration_error reg then [''shared fixture registration failed''] else e2)
      in if e3 = [] then [''shared fixture setup failed''] else e3)"

definition setup_shared_fixture_runtime ::
  "behaviour \<Rightarrow> nat \<Rightarrow> SharedFixtureRuntimeSession \<Rightarrow> fixture_state
     \<Rightarrow> bool \<times> string list \<times> SharedFixtureRuntimeSession \<times> fixture_state" where
  "setup_shared_fixture_runtime behave self session st =
     (case begin_shared_fixture_run self session st of
        (Some err, session', st') \<Rightarrow> (False, [err], session', st')
      | (None, session', st') \<Rightarrow>
          (case setup_shared_fixtures behave self st' of
             (True, st'') \<Rightarrow> (True, [], session', st'')
           | (False, st'') \<Rightarrow> (False, setup_errors (fs_reg st''), session', st'')))"

definition teardown_shared_fixture_runtime ::
  "behaviour \<Rightarrow> nat \<Rightarrow> SharedFixtureRuntimeSession \<Rightarrow> fixture_state
     \<Rightarrow> bool \<times> string list \<times> SharedFixtureRuntimeSession \<times> fixture_state" where
  "teardown_shared_fixture_runtime behave self session st =
     (if \<not> ss_owns_gate session then (True, [], session, st)
      else case teardown_shared_fixtures behave self st of
        (errs, ok, st1) \<Rightarrow>
          (case end_shared_fixture_run self session st1 of
             (None, session', st2) \<Rightarrow> (ok, errs, session', st2)
           | (Some e, session', st2) \<Rightarrow> (False, errs @ [e], session', st2)))"

subsection \<open>The registry is a sorted set\<close>

definition entry_key :: "SharedFixtureEntry \<Rightarrow> string \<times> nat \<times> string" where
  "entry_key e = (fx_name e, shared_fixture_scope_rank (fx_scope e), fx_suite e)"

lemma order_less_key: "shared_fixture_order_less l r \<longleftrightarrow> entry_key l < entry_key r"
  by (auto simp: shared_fixture_order_less_def entry_key_def less_prod_def')

lemma scope_rank_inj [simp]: "shared_fixture_scope_rank a = shared_fixture_scope_rank b \<longleftrightarrow> a = b"
  by (cases a; cases b) auto

definition entries_sorted :: "SharedFixtureEntry list \<Rightarrow> bool" where
  "entries_sorted es \<longleftrightarrow> sorted_wrt (\<lambda>a b. entry_key a < entry_key b) es"

lemma set_insert_entry [simp]: "set (insert_entry n es) = insert n (set es)"
  by (induction es) auto

lemma insert_entry_sorted:
  "entries_sorted es \<Longrightarrow> (\<forall>e\<in>set es. entry_key e \<noteq> entry_key n) \<Longrightarrow> entries_sorted (insert_entry n es)"
  unfolding entries_sorted_def
proof (induction es)
  case (Cons e es)
  show ?case
  proof (cases "entry_key e < entry_key n")
    case True
    then show ?thesis using Cons by (simp add: order_less_key)
  next
    case False
    then have "entry_key n < entry_key e" using Cons.prems(2) by (metis linorder_neqE list.set_intros(1))
    then show ?thesis using Cons.prems(1) False by (auto simp: order_less_key)
  qed
qed simp

lemma entries_sorted_unique:
  assumes "entries_sorted as" and "entries_sorted bs" and "set as = set bs"
  shows "as = bs"
proof -
  have s: "sorted (map entry_key xs) \<and> distinct (map entry_key xs)" if "entries_sorted xs" for xs
    using that unfolding entries_sorted_def
    by (induction xs) (auto simp: less_imp_le)
  have "set (map entry_key as) = set (map entry_key bs)" using assms(3) by simp
  then have "map entry_key as = map entry_key bs"
    using s[OF assms(1)] s[OF assms(2)] sorted_distinct_set_unique by blast
  moreover have "inj_on entry_key (set as \<union> set bs)"
    using s[OF assms(1)] assms(3) by (simp add: distinct_map)
  ultimately show ?thesis by (simp add: inj_on_map_eq_map)
qed

text \<open>Registrations that the runtime accepts together: one scope per name, one set of callbacks per key.\<close>

definition compatible :: "SharedFixtureEntry set \<Rightarrow> bool" where
  "compatible S \<longleftrightarrow> (\<forall>a\<in>S. \<forall>b\<in>S. fx_name a = fx_name b \<longrightarrow> fx_scope a = fx_scope b \<and> (fx_suite a = fx_suite b \<longrightarrow> a = b))"

lemma compatible_mono: "compatible S \<Longrightarrow> T \<subseteq> S \<Longrightarrow> compatible T"
  unfolding compatible_def by blast

lemma compatible_pair:
  "compatible S \<Longrightarrow> a \<in> S \<Longrightarrow> b \<in> S \<Longrightarrow> fx_name a = fx_name b \<Longrightarrow> fx_scope a = fx_scope b \<and> (fx_suite a = fx_suite b \<longrightarrow> a = b)"
  unfolding compatible_def by blast

lemma compatible_key: "compatible S \<Longrightarrow> a \<in> S \<Longrightarrow> b \<in> S \<Longrightarrow> entry_key a = entry_key b \<Longrightarrow> a = b"
proof -
  assume c: "compatible S" "a \<in> S" "b \<in> S" and "entry_key a = entry_key b"
  then have "fx_name a = fx_name b" "fx_suite a = fx_suite b" by (simp_all add: entry_key_def)
  then show "a = b" using c unfolding compatible_def by blast
qed

lemma registration_conflict_compatible:
  "compatible (insert n (set es)) \<Longrightarrow> registration_conflict n es = (if n \<in> set es then Some None else None)"
proof (induction es)
  case (Cons e es)
  have "compatible (insert n (set es))" by (rule compatible_mono[OF Cons.prems]) auto
  note IH = Cons.IH[OF this]
  show ?case
  proof (cases "e = n")
    case True
    then show ?thesis by (simp add: shared_fixture_callbacks_match_def)
  next
    case False
    have p: "fx_name e = fx_name n \<Longrightarrow> fx_scope e = fx_scope n \<and> (fx_suite e = fx_suite n \<longrightarrow> e = n)"
      by (rule compatible_pair[OF Cons.prems]) auto
    have "\<not> (fx_name e = fx_name n \<and> fx_suite e = fx_suite n \<and> fx_scope e = fx_scope n)"
      "\<not> (fx_name e = fx_name n \<and> fx_scope e \<noteq> fx_scope n)" using p False by blast+
    then have "registration_conflict n (e # es) = registration_conflict n es" by (simp only: registration_conflict.simps if_False)
    then show ?thesis using IH False by auto
  qed
qed simp

definition registered :: "SharedFixtureEntry list \<Rightarrow> fixture_state \<Rightarrow> fixture_state" where
  "registered ns st = foldl (\<lambda>s n. register_shared_fixture n s) st ns"

lemma registered_set:
  assumes "\<not> gt_active (fs_gate st)" and "entries_sorted (entries st)" and "compatible (set (entries st) \<union> set ns)"
  shows "\<exists>es. registered ns st = upd_reg (\<lambda>r. r\<lparr>r_entries := es\<rparr>) st \<and> entries_sorted es \<and> set es = set (entries st) \<union> set ns"
  using assms
proof (induction ns arbitrary: st)
  case Nil
  then show ?case by (intro exI[of _ "entries st"]) (simp add: registered_def upd_reg_def)
next
  case (Cons n ns)
  have "compatible (insert n (set (entries st)))" by (rule compatible_mono[OF Cons.prems(3)]) auto
  note rc = registration_conflict_compatible[OF this]
  show ?case
  proof (cases "n \<in> set (entries st)")
    case True
    then have "register_shared_fixture n st = st" using rc Cons.prems(1) by (simp add: register_shared_fixture_def)
    then show ?thesis using Cons.IH[OF Cons.prems(1,2)] Cons.prems(3) True by (simp add: registered_def insert_absorb)
  next
    case False
    let ?st = "upd_reg (\<lambda>r. r\<lparr>r_entries := insert_entry n (r_entries r)\<rparr>) st"
    have st: "register_shared_fixture n st = ?st" using rc Cons.prems(1) False by (simp add: register_shared_fixture_def)
    have "entry_key e \<noteq> entry_key n" if "e \<in> set (entries st)" for e
      using compatible_key[OF Cons.prems(3), of e n] that False by auto
    then have "entries_sorted (entries ?st)" using insert_entry_sorted[OF Cons.prems(2)] by (simp add: upd_reg_def)
    then show ?thesis
      using Cons.IH[of ?st] Cons.prems(1,3) st by (auto simp: registered_def upd_reg_def insert_commute)
  qed
qed

definition empty_fixture_state :: fixture_state where
  "empty_fixture_state = \<lparr>fs_reg = \<lparr>r_entries = [], r_teardown_in_progress = False, r_registration_error = False, r_registration_errors = []\<rparr>,
     fs_gate = \<lparr>gt_active = False, gt_owner = None\<rparr>, fs_trace = []\<rparr>"

text \<open>
  C26. The order in which translation units register their shared fixtures does not matter: two
  lists with the same registrations, consistent in scope and callbacks, in any order and with any
  repetitions, give the same registry, so set-up and tear-down order do not depend on static
  initialisation order; the registry is strictly sorted and holds exactly the registrations.
\<close>

theorem registration_order_irrelevant:
  assumes "compatible (set ns)" and "set ns = set ms"
  shows "registered ns empty_fixture_state = registered ms empty_fixture_state
    \<and> entries_sorted (entries (registered ns empty_fixture_state))
    \<and> set (entries (registered ns empty_fixture_state)) = set ns"
proof -
  have e: "\<exists>es. registered xs empty_fixture_state = upd_reg (\<lambda>r. r\<lparr>r_entries := es\<rparr>) empty_fixture_state
      \<and> entries_sorted es \<and> set es = set xs" if "compatible (set xs)" for xs
    using registered_set[of empty_fixture_state xs] that by (simp add: empty_fixture_state_def entries_sorted_def)
  obtain as where as: "registered ns empty_fixture_state = upd_reg (\<lambda>r. r\<lparr>r_entries := as\<rparr>) empty_fixture_state"
      "entries_sorted as" "set as = set ns" using e[OF assms(1)] by blast
  obtain bs where bs: "registered ms empty_fixture_state = upd_reg (\<lambda>r. r\<lparr>r_entries := bs\<rparr>) empty_fixture_state"
      "entries_sorted bs" "set bs = set ms" using e[of ms] assms by auto
  have "as = bs" using entries_sorted_unique[OF as(2) bs(2)] as(3) bs(3) assms(2) by simp
  then show ?thesis using as bs by (simp add: upd_reg_def)
qed

theorem registration_order_irrelevant_witness:
  "registered [new_entry ScopeSuite ''a'' ''Db'' (Some 1) None (Some 2), new_entry ScopeGlobal [] ''Cache'' (Some 3) None None]
      empty_fixture_state
   = registered [new_entry ScopeGlobal [] ''Cache'' (Some 3) None None, new_entry ScopeSuite ''a'' ''Db'' (Some 1) None (Some 2)]
      empty_fixture_state"
proof -
  let ?a = "new_entry ScopeSuite ''a'' ''Db'' (Some 1) None (Some 2)" and ?b = "new_entry ScopeGlobal [] ''Cache'' (Some 3) None None"
  have "compatible (set [?a, ?b])" by (simp add: compatible_def new_entry_def)
  moreover have "set [?a, ?b] = set [?b, ?a]" by auto
  ultimately show ?thesis using registration_order_irrelevant by blast
qed

subsection \<open>Set-up is one pass in registry order\<close>

text \<open>
  The specification of set-up: one entry is settled by calling its factory and then its set-up
  callback, and the registry is settled from the first entry to the last.
\<close>

definition settle :: "behaviour \<Rightarrow> fixture_event list \<Rightarrow> SharedFixtureEntry \<Rightarrow> SharedFixtureEntry \<times> fixture_event list" where
  "settle b tr e =
     (case fx_create e of
        None \<Rightarrow> (e\<lparr>fx_failed := True, fx_error := ''fixture allocation failed: missing factory''\<rparr>, [])
      | Some cb \<Rightarrow>
          let made = EvCreate cb (fx_suite e); out = b tr made
          in if phase_error out \<noteq> [] \<or> po_exn out \<noteq> None \<or> po_instance out = None
             then (e\<lparr>fx_failed := True, fx_error := format_fixture_error ''allocation'' (phase_error out)\<rparr>, [made])
             else case fx_setup e of
               None \<Rightarrow> (e\<lparr>fx_instance := po_instance out, fx_initialized := True\<rparr>, [made])
             | Some scb \<Rightarrow>
                 let prepared = EvSetup scb (the (po_instance out)); err = phase_error (b (tr @ [made]) prepared)
                 in (if err = [] then e\<lparr>fx_instance := po_instance out, fx_initialized := True\<rparr>
                     else e\<lparr>fx_instance := po_instance out, fx_failed := True, fx_error := format_fixture_error ''setup'' err\<rparr>,
                     [made, prepared]))"

fun settle_all :: "behaviour \<Rightarrow> fixture_event list \<Rightarrow> SharedFixtureEntry list \<Rightarrow> SharedFixtureEntry list \<times> fixture_event list" where
  "settle_all b tr [] = ([], [])"
| "settle_all b tr (e # es) =
     (let (e', evs) = settle b tr e; (es', evs') = settle_all b (tr @ evs) es in (e' # es', evs @ evs'))"

definition fresh :: "SharedFixtureEntry \<Rightarrow> bool" where
  "fresh e \<longleftrightarrow> reset_entry e = e"

lemma fresh_reset [simp]: "fresh (reset_entry e)"
  by (simp add: fresh_def reset_entry_def)

lemma fresh_fields:
  "fresh e \<Longrightarrow> fx_instance e = None \<and> \<not> fx_initialized e \<and> \<not> fx_initializing e \<and> \<not> fx_failed e \<and> fx_error e = []"
  by (cases e) (simp add: fresh_def reset_entry_def)

lemma fresh_pending: "fresh e \<Longrightarrow> is_pending e"
  by (simp add: is_pending_def fresh_fields)

lemma fresh_noops:
  "fresh e \<Longrightarrow> e\<lparr>fx_initializing := False\<rparr> = e \<and> e\<lparr>fx_initialized := False\<rparr> = e \<and> e\<lparr>fx_failed := False\<rparr> = e
     \<and> e\<lparr>fx_error := []\<rparr> = e \<and> e\<lparr>fx_instance := None\<rparr> = e"
  by (cases e) (simp add: fresh_def reset_entry_def)

lemma settled_forms:
  assumes "fresh e"
  shows "(mark_failed m (e\<lparr>fx_initializing := True\<rparr>))\<lparr>fx_instance := None\<rparr> = e\<lparr>fx_failed := True, fx_error := m\<rparr>"
    and "mark_failed m (e\<lparr>fx_initializing := True, fx_instance := x\<rparr>) = e\<lparr>fx_instance := x, fx_failed := True, fx_error := m\<rparr>"
    and "mark_ready (e\<lparr>fx_initializing := True, fx_instance := x\<rparr>) = e\<lparr>fx_instance := x, fx_initialized := True\<rparr>"
  using assms by (cases e; simp add: fresh_def reset_entry_def mark_failed_def mark_ready_def)+

lemma settle_done:
  "fresh e \<Longrightarrow> \<not> is_pending (fst (settle b tr e)) \<and> fx_initialized (fst (settle b tr e)) = (\<not> fx_failed (fst (settle b tr e)))"
  by (auto simp: settle_def is_pending_def Let_def fresh_fields split: option.splits)

definition with_run :: "SharedFixtureEntry list \<Rightarrow> fixture_event list \<Rightarrow> fixture_state \<Rightarrow> fixture_state" where
  "with_run es tr st = st\<lparr>fs_reg := (fs_reg st)\<lparr>r_entries := es\<rparr>, fs_trace := tr\<rparr>"

lemma with_run_simps [simp]:
  "entries (with_run es tr st) = es" "fs_trace (with_run es tr st) = tr" "fs_gate (with_run es tr st) = fs_gate st"
  "r_teardown_in_progress (fs_reg (with_run es tr st)) = r_teardown_in_progress (fs_reg st)"
  "r_registration_error (fs_reg (with_run es tr st)) = r_registration_error (fs_reg st)"
  "r_registration_errors (fs_reg (with_run es tr st)) = r_registration_errors (fs_reg st)"
  "with_run es' tr' (with_run es tr st) = with_run es' tr' st"
  by (simp_all add: with_run_def)

lemma with_run_self [simp]: "with_run (entries st) (fs_trace st) st = st"
  by (simp add: with_run_def)

lemma upd_entry_with_run [simp]:
  "upd_entry i f (with_run es tr st) = with_run (es[i := f (es ! i)]) tr st"
  by (simp add: upd_entry_def upd_reg_def with_run_def)

lemma call_with_run [simp]:
  "call b ev (with_run es tr st) = (b tr ev, with_run es (tr @ [ev]) st)"
  by (simp add: call_def with_run_def)

lemma setup_entry_settle:
  assumes "i < length es" and "fresh (es ! i)"
  shows "setup_entry b i (with_run es tr st)
    = (\<not> fx_failed (fst (settle b tr (es ! i))), with_run (es[i := fst (settle b tr (es ! i))]) (tr @ snd (settle b tr (es ! i))) st)"
  using assms
  by (auto simp: setup_entry_def create_instance_def settle_def run_fixture_phase_def Let_def settled_forms fresh_fields
      split: option.splits)

lemma first_pending_split:
  assumes "\<forall>e\<in>set ds. \<not> is_pending e" and "is_pending e"
  shows "first_pending (with_run (ds @ e # es) tr st) = Some (length ds)"
proof -
  have "\<not> is_pending (ds ! j)" if "j < length ds" for j using assms(1) nth_mem[OF that] by blast
  then show ?thesis
    using assms(2) unfolding first_pending_def find_Some_iff by (intro exI[of _ "length ds"]) (auto simp: nth_append)
qed

lemma first_pending_none:
  assumes "\<forall>e\<in>set ds. \<not> is_pending e"
  shows "first_pending (with_run ds tr st) = None"
  using assms nth_mem[of _ ds] unfolding first_pending_def find_None_iff by auto

lemma setup_loop_settle:
  assumes "\<not> r_teardown_in_progress (fs_reg st)" and "\<forall>e\<in>set ds. \<not> is_pending e" and "\<forall>e\<in>set es. fresh e"
  shows "setup_loop b ok (with_run (ds @ es) tr st)
    = (ok \<and> (\<forall>e\<in>set (fst (settle_all b tr es)). \<not> fx_failed e),
       with_run (ds @ fst (settle_all b tr es)) (tr @ snd (settle_all b tr es)) st)"
  using assms(2,3)
proof (induction es arbitrary: ds tr ok)
  case Nil
  then show ?case using assms(1) setup_loop.simps[of b ok "with_run (ds @ []) tr st"] first_pending_none[of ds tr st] by simp
next
  case (Cons e es)
  obtain e' evs where s: "settle b tr e = (e', evs)" by fastforce
  have f: "first_pending (with_run (ds @ e # es) tr st) = Some (length ds)"
    using first_pending_split Cons.prems fresh_pending by simp
  have step: "setup_entry b (length ds) (with_run (ds @ e # es) tr st)
      = (\<not> fx_failed e', with_run (ds @ e' # es) (tr @ evs) st)"
    using setup_entry_settle[of "length ds" "ds @ e # es" b tr st] Cons.prems s by simp
  have "\<forall>d\<in>set (ds @ [e']). \<not> is_pending d" using settle_done[of e b tr] Cons.prems s by auto
  from Cons.IH[OF this, of "ok \<and> \<not> fx_failed e'" "tr @ evs"] Cons.prems(2)
  show ?case using setup_loop.simps[of b ok "with_run (ds @ e # es) tr st"] assms(1) f step s
    by (auto simp: Let_def split: prod.splits)
qed

lemma setup_shared_fixtures_settle:
  assumes "gt_active (fs_gate st)" and "gt_owner (fs_gate st) = Some self"
    and "\<not> r_registration_error (fs_reg st)" and "\<not> r_teardown_in_progress (fs_reg st)"
  shows "setup_shared_fixtures b self st =
    (let (es, evs) = settle_all b (fs_trace st) (map reset_entry (entries st))
     in (\<forall>e\<in>set es. \<not> fx_failed e, with_run es (fs_trace st @ evs) st))"
proof -
  have "upd_reg reset_shared_fixture_run_state st = with_run ([] @ map reset_entry (entries st)) (fs_trace st) st"
    by (simp add: upd_reg_def reset_shared_fixture_run_state_def with_run_def)
  then show ?thesis
    using assms setup_loop_settle[of st "[]" "map reset_entry (entries st)" b True "fs_trace st"]
    by (simp add: setup_shared_fixtures_def Let_def split: prod.splits)
qed

subsection \<open>Tear-down releases everything, last created first\<close>

definition teardown_event :: "SharedFixtureEntry \<Rightarrow> fixture_event list" where
  "teardown_event e = (case (fx_teardown e, fx_instance e) of (Some cb, Some x) \<Rightarrow> [EvTeardown cb x] | _ \<Rightarrow> [])"

definition teardown_message :: "behaviour \<Rightarrow> fixture_event list \<Rightarrow> SharedFixtureEntry \<Rightarrow> string list" where
  "teardown_message b tr e =
     concat (map (\<lambda>ev. if phase_error (b tr ev) = [] then []
                       else [''fixture teardown failed for '' @ fx_name e @ '': '' @ phase_error (b tr ev)]) (teardown_event e))"

fun teardown_messages :: "behaviour \<Rightarrow> fixture_event list \<Rightarrow> SharedFixtureEntry list \<Rightarrow> string list" where
  "teardown_messages b tr [] = []"
| "teardown_messages b tr (e # es) = teardown_message b tr e @ teardown_messages b (tr @ teardown_event e) es"

definition dismiss :: "SharedFixtureEntry \<Rightarrow> SharedFixtureEntry" where
  "dismiss e = (if has_work e then release_entry e else drop_unused e)"

definition release_at :: "nat set \<Rightarrow> SharedFixtureEntry list \<Rightarrow> SharedFixtureEntry list" where
  "release_at I es = map (\<lambda>(i, e). if i \<in> I then release_entry e else e) (enumerate 0 es)"

lemma length_release_at [simp]: "length (release_at I es) = length es"
  by (simp add: release_at_def)

lemma nth_release_at: "i < length es \<Longrightarrow> release_at I es ! i = (if i \<in> I then release_entry (es ! i) else es ! i)"
  by (simp add: release_at_def nth_enumerate_eq)

lemma release_at_empty [simp]: "release_at {} es = es"
  by (rule nth_equalityI) (simp_all add: nth_release_at)

lemma release_at_insert:
  "i < length es \<Longrightarrow> release_at I (es[i := release_entry (es ! i)]) = release_at (insert i I) es"
  by (rule nth_equalityI) (auto simp: nth_release_at nth_list_update release_entry_def)

lemma teardown_items_run:
  assumes "\<forall>(i, e)\<in>set work. i < length es"
  shows "teardown_items b work errs (with_run es tr st)
    = (errs @ teardown_messages b tr (map snd work),
       with_run (release_at (fst ` set work) es) (tr @ concat (map teardown_event (map snd work))) st)"
  using assms
proof (induction work arbitrary: errs es tr)
  case (Cons w work)
  obtain i e where w: "w = (i, e)" by fastforce
  have i: "i < length es" and rest: "\<forall>(j, d)\<in>set work. j < length (es[i := release_entry (es ! i)])"
    using Cons.prems w by auto
  have head: "teardown_items b (w # work) errs (with_run es tr st)
    = teardown_items b work (errs @ teardown_message b tr e)
        (with_run (es[i := release_entry (es ! i)]) (tr @ teardown_event e) st)"
    using i unfolding w
    by (auto simp: Let_def teardown_event_def teardown_message_def run_fixture_phase_def split: option.splits)
  show ?case unfolding head Cons.IH[OF rest] by (simp add: w release_at_insert[OF i] image_Un)
qed simp

lemma teardown_work_snd: "map snd (teardown_work es) = rev (filter has_work es)"
proof -
  have "map snd (filter (\<lambda>(i, e). has_work e) xs) = filter has_work (map snd xs)" for xs :: "(nat \<times> SharedFixtureEntry) list"
    by (induction xs) auto
  then show ?thesis by (simp add: teardown_work_def flip: rev_map rev_filter)
qed

lemma teardown_work_indices: "fst ` set (teardown_work es) = {i. i < length es \<and> has_work (es ! i)}"
  by (auto simp: teardown_work_def in_set_enumerate_eq image_iff)

lemma release_dismiss:
  "release_at {i. i < length es \<and> has_work (es ! i)} (map drop_unused es) = map dismiss es"
  by (rule nth_equalityI) (auto simp: nth_release_at dismiss_def drop_unused_def)

lemma teardown_shared_fixtures_run:
  assumes "gt_active (fs_gate st)" and "gt_owner (fs_gate st) = Some self" and "\<not> r_teardown_in_progress (fs_reg st)"
  shows "teardown_shared_fixtures b self st =
    (let work = rev (filter has_work (entries st)); errs = teardown_messages b (fs_trace st) work
     in (errs, errs = [], with_run (map dismiss (entries st)) (fs_trace st @ concat (map teardown_event work)) st))"
proof -
  let ?st = "upd_reg (\<lambda>r. r\<lparr>r_teardown_in_progress := True\<rparr>) st"
  have e: "entries ?st = entries st" "fs_trace ?st = fs_trace st" by (simp_all add: upd_reg_def)
  have a: "upd_reg (\<lambda>r. r\<lparr>r_entries := map drop_unused (r_entries r)\<rparr>) ?st = with_run (map drop_unused (entries st)) (fs_trace st) ?st"
    by (simp add: upd_reg_def with_run_def)
  have b: "upd_reg (\<lambda>r. r\<lparr>r_teardown_in_progress := False\<rparr>) (with_run es tr ?st) = with_run es tr st" for es tr
    using assms(3) by (cases st; cases "fs_reg st") (simp add: upd_reg_def with_run_def)
  have "\<forall>(i, e)\<in>set (teardown_work (entries st)). i < length (map drop_unused (entries st))"
    by (auto simp: teardown_work_def in_set_enumerate_eq)
  from teardown_items_run[OF this, of b "[]" "fs_trace st" ?st] show ?thesis
    using assms(1,2) e a b
    by (simp add: teardown_shared_fixtures_def Let_def teardown_work_snd teardown_work_indices release_dismiss)
qed

lemma dismiss_released: "fx_instance (dismiss e) = None \<and> \<not> fx_initialized (dismiss e)"
  by (simp add: dismiss_def drop_unused_def release_entry_def)

subsection \<open>A whole run\<close>

definition idle :: "fixture_state \<Rightarrow> SharedFixtureRuntimeSession \<Rightarrow> bool" where
  "idle st session \<longleftrightarrow> \<not> gt_active (fs_gate st) \<and> \<not> ss_owns_gate session
     \<and> \<not> r_registration_error (fs_reg st) \<and> \<not> r_teardown_in_progress (fs_reg st)"

definition acquired :: "nat \<Rightarrow> fixture_state \<Rightarrow> fixture_state" where
  "acquired self st = st\<lparr>fs_gate := \<lparr>gt_active = True, gt_owner = Some self\<rparr>\<rparr>"

lemma setup_runtime_idle:
  assumes "idle st session"
  shows "setup_shared_fixture_runtime b self session st =
    (let (es, evs) = settle_all b (fs_trace st) (map reset_entry (entries st));
         st' = with_run es (fs_trace st @ evs) (acquired self st); ok = (\<forall>e\<in>set es. \<not> fx_failed e)
     in (ok, if ok then [] else setup_errors (fs_reg st'),
         \<lparr>ss_owns_gate = True, ss_gate_rejected = False, ss_owner_thread = Some self\<rparr>, st'))"
proof -
  have "begin_shared_fixture_run self session st
      = (None, \<lparr>ss_owns_gate = True, ss_gate_rejected = False, ss_owner_thread = Some self\<rparr>, acquired self st)"
    using assms by (simp add: begin_shared_fixture_run_def idle_def acquired_def)
  moreover have "setup_shared_fixtures b self (acquired self st) =
      (let (es, evs) = settle_all b (fs_trace st) (map reset_entry (entries st))
       in (\<forall>e\<in>set es. \<not> fx_failed e, with_run es (fs_trace st @ evs) (acquired self st)))"
    using setup_shared_fixtures_settle[of "acquired self st" self b] assms by (simp add: acquired_def idle_def)
  ultimately show ?thesis
    by (auto simp: setup_shared_fixture_runtime_def Let_def split: prod.splits bool.splits)
qed

lemma settle_all_settled:
  "\<forall>e\<in>set es. fresh e \<Longrightarrow> d \<in> set (fst (settle_all b tr es)) \<Longrightarrow> \<not> is_pending d \<and> \<not> fx_initializing d"
proof (induction es arbitrary: tr)
  case (Cons e es)
  have "\<not> is_pending (fst (settle b tr e)) \<and> \<not> fx_initializing (fst (settle b tr e))"
    using Cons.prems(1) by (auto simp: settle_def is_pending_def Let_def fresh_fields split: option.splits)
  then show ?case using Cons.IH[of "tr @ snd (settle b tr e)"] Cons.prems by (auto simp: Let_def split: prod.splits)
qed simp

lemma teardown_events_filter:
  "\<forall>e\<in>set es. \<not> is_pending e \<and> \<not> fx_initializing e
     \<Longrightarrow> concat (map teardown_event (filter has_work es)) = concat (map teardown_event es)"
  by (induction es) (auto simp: has_work_def is_pending_def teardown_event_def split: option.splits)

lemma fixture_run_end:
  assumes "idle st session"
    and "settle_all b (fs_trace st) (map reset_entry (entries st)) = (es, evs)"
    and "setup_shared_fixture_runtime b self session st = (ok, errs, s1, st1)"
    and "teardown_shared_fixture_runtime b self s1 st1 = (ok', errs', s2, st2)"
  shows "ok = (\<forall>e\<in>set es. \<not> fx_failed e) \<and> entries st1 = es
    \<and> fs_trace st2 = fs_trace st @ evs @ concat (map teardown_event (rev es))
    \<and> errs' = teardown_messages b (fs_trace st @ evs) (rev (filter has_work es)) \<and> ok' = (errs' = [])
    \<and> (\<forall>e\<in>set (entries st2). fx_instance e = None \<and> \<not> fx_initialized e)
    \<and> \<not> gt_active (fs_gate st2) \<and> \<not> ss_owns_gate s2"
proof -
  note su = assms(3)[unfolded setup_runtime_idle[OF assms(1)] assms(2) Let_def prod.case]
  have ok: "ok = (\<forall>e\<in>set es. \<not> fx_failed e)" and st1: "st1 = with_run es (fs_trace st @ evs) (acquired self st)"
    and s1: "s1 = \<lparr>ss_owns_gate = True, ss_gate_rejected = False, ss_owner_thread = Some self\<rparr>"
    using su by (simp_all add: prod_eq_iff)
  have gate: "gt_active (fs_gate st1)" "gt_owner (fs_gate st1) = Some self" "\<not> r_teardown_in_progress (fs_reg st1)"
    using assms(1) by (simp_all add: st1 acquired_def idle_def)
  note td = teardown_shared_fixtures_run[OF gate, of b]
  have settled: "\<forall>e\<in>set (rev es). \<not> is_pending e \<and> \<not> fx_initializing e"
    using settle_all_settled[of "map reset_entry (entries st)" _ b "fs_trace st"] assms(2) by auto
  have work: "concat (map teardown_event (rev (filter has_work es))) = concat (map teardown_event (rev es))"
    using teardown_events_filter[OF settled] by (simp add: rev_filter)
  show ?thesis
    using assms(4) ok work unfolding teardown_shared_fixture_runtime_def td end_shared_fixture_run_def
    by (auto simp: st1 s1 Let_def acquired_def dismiss_released)
qed

text \<open>
  C6. A run over an idle registry, set-up followed by tear-down on the same thread: every
  registered fixture is settled exactly once in registry order (\<open>settle_all\<close>: its factory is
  called, then its set-up callback on the new instance; a failing fixture stops neither), set-up
  reports success iff no fixture failed, and tear-down then calls the tear-down callback of every
  instance that was created, fixtures whose set-up failed included, exactly once and in the
  reverse order, reports success iff none of them failed, leaves no fixture holding an instance,
  and gives the gate back.
\<close>

theorem fixture_run_releases_everything:
  assumes "idle st session"
    and "settle_all b (fs_trace st) (map reset_entry (entries st)) = (es, evs)"
    and "setup_shared_fixture_runtime b self session st = (ok, errs, s1, st1)"
    and "teardown_shared_fixture_runtime b self s1 st1 = (ok', errs', s2, st2)"
  shows "ok = (\<forall>e\<in>set es. \<not> fx_failed e) \<and> entries st1 = es
    \<and> fs_trace st2 = fs_trace st @ evs @ concat (map teardown_event (rev es))
    \<and> errs' = teardown_messages b (fs_trace st @ evs) (rev (filter has_work es)) \<and> ok' = (errs' = [])
    \<and> (\<forall>e\<in>set (entries st2). fx_instance e = None \<and> \<not> fx_initialized e)
    \<and> \<not> gt_active (fs_gate st2) \<and> \<not> ss_owns_gate s2"
  using assms by (rule fixture_run_end)

definition demo_behaviour :: behaviour where
  "demo_behaviour tr ev =
     \<lparr>po_instance = Some (length tr), po_error = (if ev = EvSetup 2 0 then ''no port'' else []), po_exn = None, po_first_failure = [],
      po_bench_error = [], po_skip_requested = False, po_skip_reason = []\<rparr>"

definition demo_session :: SharedFixtureRuntimeSession where
  "demo_session = \<lparr>ss_owns_gate = False, ss_gate_rejected = False, ss_owner_thread = None\<rparr>"

definition demo_fixtures :: fixture_state where
  "demo_fixtures = registered [new_entry ScopeSuite ''s'' ''Db'' (Some 5) None (Some 6),
     new_entry ScopeGlobal [] ''Cache'' (Some 1) (Some 2) (Some 3)] empty_fixture_state"

lemmas demo_defs = demo_behaviour_def demo_session_def demo_fixtures_def registered_def register_shared_fixture_def
  empty_fixture_state_def new_entry_def upd_reg_def shared_fixture_order_less_def reset_entry_def

lemma demo_settle:
  "settle_all demo_behaviour (fs_trace demo_fixtures) (map reset_entry (entries demo_fixtures)) =
   ([(new_entry ScopeGlobal [] ''Cache'' (Some 1) (Some 2) (Some 3))\<lparr>fx_instance := Some 0, fx_failed := True,
       fx_error := ''fixture setup failed: no port''\<rparr>,
     (new_entry ScopeSuite ''s'' ''Db'' (Some 5) None (Some 6))\<lparr>fx_instance := Some 2, fx_initialized := True\<rparr>],
    [EvCreate 1 [], EvSetup 2 0, EvCreate 5 ''s''])"
  by (simp add: demo_defs settle_def phase_error_def resolve_fixture_context_issue_def format_fixture_error_def Let_def starts_with_def)

theorem fixture_run_releases_everything_witness:
  "\<exists>ok errs s1 st1 ok' errs' s2 st2. setup_shared_fixture_runtime demo_behaviour 7 demo_session demo_fixtures = (ok, errs, s1, st1)
     \<and> teardown_shared_fixture_runtime demo_behaviour 7 s1 st1 = (ok', errs', s2, st2)
     \<and> \<not> ok \<and> ok' = (errs' = []) \<and> \<not> gt_active (fs_gate st2)
     \<and> fs_trace st2 = [EvCreate 1 [], EvSetup 2 0, EvCreate 5 ''s'', EvTeardown 6 2, EvTeardown 3 0]"
proof -
  have i: "idle demo_fixtures demo_session" by (simp add: idle_def demo_defs)
  obtain ok errs s1 st1 where a: "setup_shared_fixture_runtime demo_behaviour 7 demo_session demo_fixtures = (ok, errs, s1, st1)"
    by (metis prod_cases4)
  obtain ok' errs' s2 st2 where b: "teardown_shared_fixture_runtime demo_behaviour 7 s1 st1 = (ok', errs', s2, st2)"
    by (metis prod_cases4)
  have t: "fs_trace demo_fixtures = []" by (simp add: demo_defs)
  note r = fixture_run_releases_everything[OF i demo_settle a b]
  have "\<not> ok" using conjunct1[OF r] by simp
  moreover have "fs_trace st2 = [EvCreate 1 [], EvSetup 2 0, EvCreate 5 ''s'', EvTeardown 6 2, EvTeardown 3 0]"
    using conjunct1[OF conjunct2[OF conjunct2[OF r]]] by (simp add: t teardown_event_def new_entry_def)
  ultimately show ?thesis using a b r by blast
qed

subsection \<open>Look-up: the innermost enclosing suite\<close>

lemma suite_scope_matches_iff:
  "suite_scope_matches f r \<longleftrightarrow> f = [] \<or> r = f \<or> (\<exists>rest. r = f @ CHR ''/'' # rest) \<or> (\<exists>rest. r = f @ CHR '':'' # CHR '':'' # rest)"
proof -
  have "suite_scope_matches f (f @ rest) \<longleftrightarrow> f = [] \<or> rest = [] \<or> (\<exists>t. rest = CHR ''/'' # t) \<or> (\<exists>t. rest = CHR '':'' # CHR '':'' # t)" for rest
    by (cases rest; cases "tl rest") (auto simp: suite_scope_matches_def starts_with_def Let_def)
  moreover have "suite_scope_matches f r \<Longrightarrow> f = [] \<or> (\<exists>rest. r = f @ rest)"
    unfolding suite_scope_matches_def starts_with_def by (metis append_take_drop_id append_Nil2)
  ultimately show ?thesis by (metis append_Nil2 suite_scope_matches_def same_append_eq)
qed

lemma suite_scope_matches_prefix: "suite_scope_matches f r \<Longrightarrow> f = take (length f) r"
  by (auto simp: suite_scope_matches_iff)

definition serves :: "SharedFixtureScope \<Rightarrow> string \<Rightarrow> string \<Rightarrow> SharedFixtureEntry \<Rightarrow> bool" where
  "serves scope suite name e \<longleftrightarrow> fx_scope e = scope \<and> fx_name e = name \<and> suite_scope_matches (fx_suite e) suite"

definition innermost :: "SharedFixtureScope \<Rightarrow> string \<Rightarrow> string \<Rightarrow> SharedFixtureEntry set \<Rightarrow> SharedFixtureEntry option \<Rightarrow> bool" where
  "innermost scope suite name P sel \<longleftrightarrow>
     (case sel of None \<Rightarrow> \<forall>e\<in>P. \<not> serves scope suite name e
      | Some s \<Rightarrow> s \<in> P \<and> serves scope suite name s
          \<and> (\<forall>e\<in>P. serves scope suite name e \<longrightarrow> length (fx_suite e) \<le> length (fx_suite s)))"

lemma innermost_step:
  assumes "innermost scope suite name P sel"
  shows "innermost scope suite name (insert e P)
    (if serves scope suite name e \<and> (case sel of None \<Rightarrow> True | Some s \<Rightarrow> length (fx_suite e) > length (fx_suite s)) then Some e else sel)"
proof (cases sel)
  case None
  then show ?thesis using assms by (auto simp: innermost_def)
next
  case (Some s)
  have "length (fx_suite d) \<le> length (fx_suite e)" if "length (fx_suite s) < length (fx_suite e)" "d \<in> P" "serves scope suite name d" for d
    using assms Some that unfolding innermost_def by fastforce
  then show ?thesis using assms Some unfolding innermost_def by (simp add: not_less)
qed

lemma select_entry_innermost:
  "innermost scope suite name P sel \<Longrightarrow> innermost scope suite name (P \<union> set es) (select_entry scope suite name es sel)"
proof (induction es arbitrary: P sel)
  case (Cons e es)
  from Cons.IH[OF innermost_step[OF Cons.prems, of e]] show ?case by (simp add: serves_def)
qed simp

lemma serves_same_length:
  assumes "serves scope suite name d" and "serves scope suite name e" and "length (fx_suite d) = length (fx_suite e)"
  shows "entry_key d = entry_key e"
proof -
  have "fx_suite d = take (length (fx_suite d)) suite" "fx_suite e = take (length (fx_suite e)) suite"
    using assms(1,2) suite_scope_matches_prefix unfolding serves_def by blast+
  then have "fx_suite d = fx_suite e" using assms(3) by metis
  then show ?thesis using assms(1,2) by (simp add: serves_def entry_key_def)
qed

lemma entries_sorted_key: "entries_sorted es \<Longrightarrow> d \<in> set es \<Longrightarrow> e \<in> set es \<Longrightarrow> entry_key d = entry_key e \<Longrightarrow> d = e"
  unfolding entries_sorted_def by (induction es) auto

text \<open>
  A fixture look-up over a well-formed registry finds the one entry of the requested scope
  and name whose suite is the innermost enclosing suite of the request (the empty suite encloses
  everything, and a suite encloses itself and what follows it after \<^verbatim>\<open>/\<close> or \<^verbatim>\<open>::\<close>), and none
  iff no entry encloses it: the choice does not depend on the order of the entries.
\<close>

theorem lookup_innermost_suite:
  assumes "entries_sorted es"
  shows "select_entry scope suite name es None = Some s \<longleftrightarrow>
     s \<in> set es \<and> fx_scope s = scope \<and> fx_name s = name \<and> suite_scope_matches (fx_suite s) suite
     \<and> (\<forall>e\<in>set es. fx_scope e = scope \<and> fx_name e = name \<and> suite_scope_matches (fx_suite e) suite
          \<longrightarrow> length (fx_suite e) \<le> length (fx_suite s))" (is "?L \<longleftrightarrow> ?R")
proof -
  have "innermost scope suite name {} None" by (simp add: innermost_def)
  from select_entry_innermost[OF this, of es] have i: "innermost scope suite name (set es) (select_entry scope suite name es None)" by simp
  have r: "?R \<longleftrightarrow> innermost scope suite name (set es) (Some s)" by (simp add: innermost_def serves_def)
  have uniq: "t = s" if "innermost scope suite name (set es) (Some t)" and "innermost scope suite name (set es) (Some s)" for t
    using that serves_same_length[of scope suite name t s] entries_sorted_key[OF assms, of t s]
    unfolding innermost_def by (simp add: le_antisym)
  have "innermost scope suite name (set es) (Some s) \<Longrightarrow> \<not> innermost scope suite name (set es) None"
    by (auto simp: innermost_def)
  then show ?thesis unfolding r using i uniq by (cases "select_entry scope suite name es None") auto
qed

theorem lookup_innermost_suite_witness:
  "select_entry ScopeSuite ''a/b'' ''Db''
     [new_entry ScopeSuite [] ''Db'' (Some 1) None None, new_entry ScopeSuite ''a'' ''Db'' (Some 2) None None] None
   = Some (new_entry ScopeSuite ''a'' ''Db'' (Some 2) None None)"
proof -
  have "entries_sorted [new_entry ScopeSuite [] ''Db'' (Some 1) None None, new_entry ScopeSuite ''a'' ''Db'' (Some 2) None None]"
    by (simp add: entries_sorted_def entry_key_def new_entry_def less_prod_def')
  from lookup_innermost_suite[OF this] show ?thesis by (simp add: new_entry_def suite_scope_matches_iff)
qed

subsection \<open>The gate admits one run at a time\<close>

text \<open>Sessions (by number) and threads interleave at the granularity of the runtime entry points.\<close>

inductive fixture_step ::
  "behaviour \<Rightarrow> (nat \<Rightarrow> SharedFixtureRuntimeSession) \<times> fixture_state \<Rightarrow> (nat \<Rightarrow> SharedFixtureRuntimeSession) \<times> fixture_state \<Rightarrow> bool"
  for b :: behaviour where
  step_setup: "setup_shared_fixture_runtime b t (ss s) st = (ok, errs, s', st') \<Longrightarrow> fixture_step b (ss, st) (ss(s := s'), st')"
| step_teardown: "teardown_shared_fixture_runtime b t (ss s) st = (ok, errs, s', st') \<Longrightarrow> fixture_step b (ss, st) (ss(s := s'), st')"
| step_register: "fixture_step b (ss, st) (ss, register_shared_fixture e st)"

inductive fixture_reach :: "behaviour \<Rightarrow> (nat \<Rightarrow> SharedFixtureRuntimeSession) \<times> fixture_state \<Rightarrow> bool" for b :: behaviour where
  reach_init: "\<not> gt_active (fs_gate st) \<Longrightarrow> (\<And>s. \<not> ss_owns_gate (ss s)) \<Longrightarrow> fixture_reach b (ss, st)"
| reach_step: "fixture_reach b x \<Longrightarrow> fixture_step b x y \<Longrightarrow> fixture_reach b y"

definition gate_inv :: "(nat \<Rightarrow> SharedFixtureRuntimeSession) \<times> fixture_state \<Rightarrow> bool" where
  "gate_inv x \<longleftrightarrow> (\<forall>s. ss_owns_gate (fst x s) \<longrightarrow> gt_active (fs_gate (snd x)))
     \<and> (\<forall>s r. ss_owns_gate (fst x s) \<and> ss_owns_gate (fst x r) \<longrightarrow> s = r)"

lemma setup_loop_gate: "fs_gate (snd (setup_loop b ok st)) = fs_gate st"
proof (induction b ok st rule: setup_loop.induct)
  case (1 b ok st)
  have e: "fs_gate (snd (setup_entry b i st)) = fs_gate st" for i
    using create_instance_reg run_fixture_phase_reg
    by (fastforce simp: setup_entry_def Let_def upd_entry_def upd_reg_def split: prod.splits option.splits)
  show ?case using 1 setup_loop.simps[of b ok st] e by (auto split: option.splits)
qed

lemma setup_shared_fixtures_gate: "fs_gate (snd (setup_shared_fixtures b t st)) = fs_gate st"
  by (simp add: setup_shared_fixtures_def setup_loop_gate upd_reg_def)

lemma upd_gate [simp]: "fs_gate (upd_reg f st) = fs_gate st" "fs_gate (upd_entry i g st) = fs_gate st"
  by (simp_all add: upd_reg_def upd_entry_def)

lemma teardown_items_gate: "fs_gate (snd (teardown_items b work errs st)) = fs_gate st"
proof (induction work arbitrary: errs st)
  case (Cons w work)
  obtain i e where w: "w = (i, e)" by fastforce
  obtain errs1 st1 where c: "(case (fx_teardown e, fx_instance e) of
      (Some cb, Some x) \<Rightarrow> (case run_fixture_phase b (EvTeardown cb x) st of (error, st') \<Rightarrow>
          (if error = [] then errs else errs @ [''fixture teardown failed for '' @ fx_name e @ '': '' @ error], st'))
    | _ \<Rightarrow> (errs, st)) = (errs1, st1)" by fastforce
  then have "fs_gate st1 = fs_gate st" by (auto simp: run_fixture_phase_def call_def split: option.splits)
  then show ?case using c unfolding w by (simp add: Let_def Cons.IH)
qed simp

lemma teardown_shared_fixtures_gate: "fs_gate (snd (snd (teardown_shared_fixtures b t st))) = fs_gate st"
  by (simp add: teardown_shared_fixtures_def Let_def case_prod_beta teardown_items_gate)

lemma setup_runtime_session:
  assumes "setup_shared_fixture_runtime b t s st = (ok, errs, s', st')"
  shows "if ss_owns_gate s \<or> gt_active (fs_gate st) then ss_owns_gate s' = ss_owns_gate s \<and> st' = st
         else ss_owns_gate s' \<and> gt_active (fs_gate st')"
  using assms setup_shared_fixtures_gate[of b t "acquired t st"]
  by (auto simp: setup_shared_fixture_runtime_def begin_shared_fixture_run_def acquired_def split: prod.splits bool.splits if_splits)

lemma teardown_runtime_session:
  assumes "teardown_shared_fixture_runtime b t s st = (ok, errs, s', st')"
  shows "if \<not> ss_owns_gate s then s' = s \<and> st' = st
         else ss_owns_gate s' \<and> s' = s \<and> fs_gate st' = fs_gate st \<or> \<not> ss_owns_gate s' \<and> \<not> gt_active (fs_gate st')"
  using assms teardown_shared_fixtures_gate[of b t st]
  by (auto simp: teardown_shared_fixture_runtime_def end_shared_fixture_run_def Let_def split: prod.splits option.splits if_splits)

lemma register_gate [simp]: "fs_gate (register_shared_fixture e st) = fs_gate st"
  by (simp add: register_shared_fixture_def upd_reg_def split: option.splits)

lemma fixture_step_inv: "fixture_step b x y \<Longrightarrow> gate_inv x \<Longrightarrow> gate_inv y"
proof (induction rule: fixture_step.induct)
  case (step_setup t ss s st ok errs s' st')
  from setup_runtime_session[OF this(1)] this(2) show ?case by (auto simp: gate_inv_def split: if_splits)
next
  case (step_teardown t ss s st ok errs s' st')
  from teardown_runtime_session[OF this(1)] this(2) show ?case by (auto simp: gate_inv_def split: if_splits)
next
  case (step_register ss st e)
  then show ?case by (simp add: gate_inv_def)
qed

lemma fixture_reach_inv: "fixture_reach b x \<Longrightarrow> gate_inv x"
  by (induction rule: fixture_reach.induct) (simp add: gate_inv_def, rule fixture_step_inv)

text \<open>
  C7. Mutual exclusion of runs, over every interleaving of set-up, tear-down and registration by
  any number of threads and sessions: while a session owns the gate the gate is active, no other
  session owns it, every other session's set-up is refused with an error and touches neither the
  registry nor the callbacks, every other session's tear-down does nothing, and registration is
  recorded as an error instead of changing the entries.
\<close>

theorem fixture_gate_exclusive:
  assumes "fixture_reach b (ss, st)" and "ss_owns_gate (ss s)" and "r \<noteq> s"
  shows "gt_active (fs_gate st) \<and> \<not> ss_owns_gate (ss r)
    \<and> (\<exists>err s'. setup_shared_fixture_runtime b t (ss r) st = (False, [err], s', st) \<and> ss_gate_rejected s')
    \<and> teardown_shared_fixture_runtime b t (ss r) st = (True, [], ss r, st)
    \<and> entries (register_shared_fixture e st) = entries st \<and> r_registration_error (fs_reg (register_shared_fixture e st))"
proof -
  have "gt_active (fs_gate st)" "\<not> ss_owns_gate (ss r)" using fixture_reach_inv[OF assms(1)] assms(2,3) by (auto simp: gate_inv_def)
  then show ?thesis
    by (simp add: setup_shared_fixture_runtime_def begin_shared_fixture_run_def teardown_shared_fixture_runtime_def
        register_shared_fixture_def upd_reg_def registration_failure_def)
qed

definition demo_sessions :: "nat \<Rightarrow> SharedFixtureRuntimeSession" where
  "demo_sessions = (\<lambda>s. demo_session)(0 := \<lparr>ss_owns_gate = True, ss_gate_rejected = False, ss_owner_thread = Some 7\<rparr>)"

lemma demo_running: "\<exists>st. fixture_reach b (demo_sessions, st)"
proof -
  obtain ok errs s1 st1 where a: "setup_shared_fixture_runtime b 7 demo_session demo_fixtures = (ok, errs, s1, st1)"
    by (metis prod_cases4)
  have "idle demo_fixtures demo_session" by (simp add: idle_def demo_defs)
  then have "s1 = \<lparr>ss_owns_gate = True, ss_gate_rejected = False, ss_owner_thread = Some 7\<rparr>"
    using a by (auto simp: setup_runtime_idle Let_def split: prod.splits)
  moreover have "fixture_reach b (\<lambda>s. demo_session, demo_fixtures)" by (rule reach_init) (simp_all add: demo_defs)
  ultimately show ?thesis
    using reach_step[OF _ step_setup[where s = 0 and ss = "\<lambda>s. demo_session", OF a]] by (auto simp: demo_sessions_def)
qed

theorem fixture_gate_exclusive_witness:
  "\<exists>st. gt_active (fs_gate st)
     \<and> teardown_shared_fixture_runtime demo_behaviour 9 (demo_sessions 1) st = (True, [], demo_sessions 1, st)"
proof -
  obtain st where "fixture_reach demo_behaviour (demo_sessions, st)" using demo_running by blast
  moreover have "ss_owns_gate (demo_sessions 0)" "(1::nat) \<noteq> 0" by (simp_all add: demo_sessions_def)
  ultimately show ?thesis using fixture_gate_exclusive by blast
qed

text \<open>
  A second set-up on a session that already owns the gate is refused, but
  \<^verbatim>\<open>begin_shared_fixture_run\<close> clears the owner thread of the session before it looks at
  \<^verbatim>\<open>owns_gate\<close>; the owner's own release then fails as if another thread had called it, and
  the gate stays closed.
\<close>

theorem reentry_wedges_gate:
  assumes "begin_shared_fixture_run t session st = (None, s1, st1)"
    and "begin_shared_fixture_run t s1 st1 = (err, s2, st2)"
    and "end_shared_fixture_run t s2 st2 = (err', s3, st3)"
  shows "err' = Some ''shared fixture runtime session release attempted from non-owner thread'' \<and> gt_active (fs_gate st3)"
  using assms by (auto simp: begin_shared_fixture_run_def end_shared_fixture_run_def Let_def split: if_splits)

theorem reentry_wedges_gate_witness:
  "\<exists>s1 st1 err s2 st2 err' s3 st3. begin_shared_fixture_run 7 demo_session demo_fixtures = (None, s1, st1)
     \<and> begin_shared_fixture_run 7 s1 st1 = (err, s2, st2) \<and> end_shared_fixture_run 7 s2 st2 = (err', s3, st3) \<and> gt_active (fs_gate st3)"
proof -
  obtain s1 st1 where a: "begin_shared_fixture_run 7 demo_session demo_fixtures = (None, s1, st1)"
    by (simp add: begin_shared_fixture_run_def demo_defs)
  obtain err s2 st2 where b: "begin_shared_fixture_run 7 s1 st1 = (err, s2, st2)" by (metis prod_cases3)
  obtain err' s3 st3 where c: "end_shared_fixture_run 7 s2 st2 = (err', s3, st3)" by (metis prod_cases3)
  show ?thesis using a b c reentry_wedges_gate[OF a b c] by blast
qed

end
