(* ===== verification/Test_Executor.thy ===== *)
theory Test_Executor
  imports Test_Plan Case_Result Fixture_Runtime
begin

section \<open>Running a plan: \<^verbatim>\<open>src/runner_test_executor.cpp\<close>\<close>

text \<open>
  The synchronous executor walks the execution plan: in each suite the cases without a shared
  fixture, then the groups of suite fixtures, then those of global fixtures; a group whose fixture
  cannot be acquired is recorded as blocked case by case, and with \<^verbatim>\<open>--fail-fast\<close> the
  walk stops after the first case that failed or was blocked.  Test bodies do not change the
  fixture registry, so its state \<open>fx\<close> is an argument of the walk.  The asynchronous batch is an
  argument (\<open>async_batch\<close>) of \<open>run_tests_once\<close>.
\<close>

definition should_stop_after_failure :: "bool \<Rightarrow> TestCounters \<Rightarrow> bool" where
  "should_stop_after_failure fail_fast c \<longleftrightarrow> fail_fast \<and> (k_failures c > 0 \<or> k_blocked c > 0)"

type_synonym run_result = "invoke_outcome + bool \<times> world"

text \<open>The two inner loops over case indices; the flag says that the walk was stopped.\<close>

fun run_cases :: "exec_env \<Rightarrow> TestRunContext \<Rightarrow> Case list \<Rightarrow> bool \<Rightarrow> nat option \<Rightarrow> idx list \<Rightarrow> world \<Rightarrow> run_result" where
  "run_cases env state cases fail_fast ctx [] w = Inr (False, w)"
| "run_cases env state cases fail_fast ctx (i # is) w =
     (case execute_and_record env state (cases ! i) ctx w of
        Inl e \<Rightarrow> Inl e
      | Inr w' \<Rightarrow> if should_stop_after_failure fail_fast (rs_counters (w_run w')) then Inr (True, w')
                  else run_cases env state cases fail_fast ctx is w')"

fun skip_cases :: "TestRunContext \<Rightarrow> Case list \<Rightarrow> bool \<Rightarrow> string \<Rightarrow> idx list \<Rightarrow> world \<Rightarrow> run_result" where
  "skip_cases state cases fail_fast msg [] w = Inr (False, w)"
| "skip_cases state cases fail_fast msg (i # is) w =
     (let w' = w\<lparr>w_run := record_synthetic_skip state (cases ! i) msg True (w_run w)\<rparr>
      in if should_stop_after_failure fail_fast (rs_counters (w_run w')) then Inr (True, w')
         else skip_cases state cases fail_fast msg is w')"

text \<open>A failed acquisition and a null fixture are told apart as in the code.\<close>

definition run_group ::
  "exec_env \<Rightarrow> TestRunContext \<Rightarrow> Case list \<Rightarrow> bool \<Rightarrow> fixture_state \<Rightarrow> FixtureGroupPlan \<Rightarrow> world \<Rightarrow> run_result" where
  "run_group env state cases fail_fast fx g w =
     (if g_idxs g = [] then Inr (False, w)
      else case acquire_case_fixture (cases ! hd (g_idxs g)) fx of
        Inl reason \<Rightarrow> skip_cases state cases fail_fast (shared_fixture_unavailable_message (g_fixture g) reason) (g_idxs g) w
      | Inr ctx \<Rightarrow> run_cases env state cases fail_fast ctx (g_idxs g) w)"

fun run_groups ::
  "exec_env \<Rightarrow> TestRunContext \<Rightarrow> Case list \<Rightarrow> bool \<Rightarrow> fixture_state \<Rightarrow> FixtureGroupPlan list \<Rightarrow> world \<Rightarrow> run_result" where
  "run_groups env state cases fail_fast fx [] w = Inr (False, w)"
| "run_groups env state cases fail_fast fx (g # gs) w =
     (case run_group env state cases fail_fast fx g w of
        Inl e \<Rightarrow> Inl e
      | Inr (stopped, w') \<Rightarrow> if stopped then Inr (True, w') else run_groups env state cases fail_fast fx gs w')"

definition then_run :: "run_result \<Rightarrow> (world \<Rightarrow> run_result) \<Rightarrow> run_result" where
  "then_run r f = (case r of Inl e \<Rightarrow> Inl e | Inr (stopped, w) \<Rightarrow> if stopped then Inr (True, w) else f w)"

fun run_tests_sync ::
  "exec_env \<Rightarrow> TestRunContext \<Rightarrow> Case list \<Rightarrow> bool \<Rightarrow> fixture_state \<Rightarrow> SuiteExecutionPlan list \<Rightarrow> world \<Rightarrow> run_result" where
  "run_tests_sync env state cases fail_fast fx [] w = Inr (False, w)"
| "run_tests_sync env state cases fail_fast fx (plan # plans) w =
     then_run (run_cases env state cases fail_fast None (p_free_like plan) w)
       (\<lambda>w. then_run (run_groups env state cases fail_fast fx (p_suite_groups plan) w)
         (\<lambda>w. then_run (run_groups env state cases fail_fast fx (p_global_groups plan) w)
           (run_tests_sync env state cases fail_fast fx plans)))"

definition plans_include_async_cases :: "Case list \<Rightarrow> SuiteExecutionPlan list \<Rightarrow> bool" where
  "plans_include_async_cases cases plans \<longleftrightarrow>
     list_ex (\<lambda>plan. list_ex (\<lambda>i. c_async_fn (cases ! i) \<noteq> None) (p_free_like plan)
       \<or> list_ex (\<lambda>g. list_ex (\<lambda>i. c_async_fn (cases ! i) \<noteq> None) (g_idxs g)) (p_suite_groups plan)
       \<or> list_ex (\<lambda>g. list_ex (\<lambda>i. c_async_fn (cases ! i) \<noteq> None) (g_idxs g)) (p_global_groups plan)) plans"

definition run_tests_once ::
  "(Case list \<Rightarrow> SuiteExecutionPlan list \<Rightarrow> bool \<Rightarrow> world \<Rightarrow> run_result) \<Rightarrow> exec_env \<Rightarrow> TestRunContext \<Rightarrow> Case list \<Rightarrow> bool
     \<Rightarrow> fixture_state \<Rightarrow> SuiteExecutionPlan list \<Rightarrow> world \<Rightarrow> run_result" where
  "run_tests_once async_batch env state cases fail_fast fx plans w =
     (if plans_include_async_cases cases plans then async_batch cases plans fail_fast w
      else run_tests_sync env state cases fail_fast fx plans w)"

subsection \<open>The walk as a sequence of visits\<close>

text \<open>A visit is a case index with the fixture object it gets or the message it is blocked with.\<close>

definition group_visits :: "Case list \<Rightarrow> fixture_state \<Rightarrow> FixtureGroupPlan \<Rightarrow> (idx \<times> (string + nat option)) list" where
  "group_visits cases fx g =
     (case g_idxs g of [] \<Rightarrow> [] | h # _ \<Rightarrow>
        let v = (case acquire_case_fixture (cases ! h) fx of
                   Inl reason \<Rightarrow> Inl (shared_fixture_unavailable_message (g_fixture g) reason) | Inr ctx \<Rightarrow> Inr ctx)
        in map (\<lambda>i. (i, v)) (g_idxs g))"

definition plan_visits :: "Case list \<Rightarrow> fixture_state \<Rightarrow> SuiteExecutionPlan list \<Rightarrow> (idx \<times> (string + nat option)) list" where
  "plan_visits cases fx plans =
     concat (map (\<lambda>p. map (\<lambda>i. (i, Inr None)) (p_free_like p)
                      @ concat (map (group_visits cases fx) (p_suite_groups p))
                      @ concat (map (group_visits cases fx) (p_global_groups p))) plans)"

definition run_visit :: "exec_env \<Rightarrow> TestRunContext \<Rightarrow> Case list \<Rightarrow> idx \<times> (string + nat option) \<Rightarrow> world \<Rightarrow> invoke_outcome + world" where
  "run_visit env state cases v w =
     (case snd v of
        Inl msg \<Rightarrow> Inr (w\<lparr>w_run := record_synthetic_skip state (cases ! fst v) msg True (w_run w)\<rparr>)
      | Inr ctx \<Rightarrow> execute_and_record env state (cases ! fst v) ctx w)"

fun run_visits ::
  "exec_env \<Rightarrow> TestRunContext \<Rightarrow> Case list \<Rightarrow> bool \<Rightarrow> (idx \<times> (string + nat option)) list \<Rightarrow> world \<Rightarrow> run_result" where
  "run_visits env state cases ff [] w = Inr (False, w)"
| "run_visits env state cases ff (v # vs) w =
     (case run_visit env state cases v w of
        Inl e \<Rightarrow> Inl e
      | Inr w' \<Rightarrow> if should_stop_after_failure ff (rs_counters (w_run w')) then Inr (True, w')
                  else run_visits env state cases ff vs w')"

lemma run_visits_append:
  "run_visits env state cases ff (us @ vs) = (\<lambda>w. then_run (run_visits env state cases ff us w) (run_visits env state cases ff vs))"
proof
  show "run_visits env state cases ff (us @ vs) w = then_run (run_visits env state cases ff us w) (run_visits env state cases ff vs)" for w
    by (induction us arbitrary: w) (auto simp: then_run_def split: sum.splits)
qed

lemma run_cases_visits: "run_cases env state cases ff ctx is w = run_visits env state cases ff (map (\<lambda>i. (i, Inr ctx)) is) w"
  by (induction "is" arbitrary: w) (auto simp: run_visit_def split: sum.splits)

lemma skip_cases_visits: "skip_cases state cases ff msg is w = run_visits env state cases ff (map (\<lambda>i. (i, Inl msg)) is) w"
  by (induction "is" arbitrary: w) (auto simp: run_visit_def Let_def split: sum.splits)

lemma run_group_visits: "run_group env state cases ff fx g w = run_visits env state cases ff (group_visits cases fx g) w"
  by (auto simp: run_group_def group_visits_def run_cases_visits skip_cases_visits[where env = env] Let_def split: list.splits sum.splits)

lemma run_groups_visits:
  "run_groups env state cases ff fx gs w = run_visits env state cases ff (concat (map (group_visits cases fx) gs)) w"
proof (induction gs arbitrary: w)
  case (Cons g gs)
  then show ?case by (auto simp: run_visits_append run_group_visits then_run_def split: sum.splits)
qed simp

lemma run_tests_sync_visits:
  "run_tests_sync env state cases ff fx plans w = run_visits env state cases ff (plan_visits cases fx plans) w"
proof (induction plans arbitrary: w)
  case Nil
  then show ?case by (simp add: plan_visits_def)
next
  case (Cons p plans)
  have "run_tests_sync env state cases ff fx plans = run_visits env state cases ff (plan_visits cases fx plans)"
    using Cons.IH by blast
  then show ?case by (simp add: run_cases_visits run_groups_visits run_visits_append plan_visits_def)
qed

lemma plan_visits_order: "map fst (plan_visits cases fx plans) = plan_order plans"
proof -
  have g: "map fst (group_visits cases fx g) = g_idxs g" for g
    by (auto simp: group_visits_def Let_def o_def split: list.splits)
  show ?thesis by (simp add: plan_visits_def plan_order_def map_concat o_def g)
qed

subsection \<open>What a run reports\<close>

definition visit_outcome :: "exec_env \<Rightarrow> Case list \<Rightarrow> idx \<times> (string + nat option) \<Rightarrow> Outcome" where
  "visit_outcome env cases v =
     (case snd v of
        Inl _ \<Rightarrow> OutBlocked
      | Inr ctx \<Rightarrow> if c_should_skip (cases ! fst v) then OutSkip else expected_outcome (e_bodies env (c_fn (cases ! fst v)) ctx))"

fun is_bad :: "Outcome \<Rightarrow> bool" where
  "is_bad OutFail = True"
| "is_bad OutXPass = True"
| "is_bad OutBlocked = True"
| "is_bad _ = False"

definition reported :: "run_state \<Rightarrow> (string \<times> Outcome) list" where
  "reported s = (case items_of s of None \<Rightarrow> [] | Some is \<Rightarrow> map (\<lambda>it. (i_name it, i_outcome it)) (fst is))"

definition infra_of :: "run_state \<Rightarrow> string list option" where
  "infra_of s = map_option snd (items_of s)"

definition recording :: "TestRunContext \<Rightarrow> run_state \<Rightarrow> bool" where
  "recording state s \<longleftrightarrow> record_results state \<and> rs_acc s \<noteq> None"

lemma items_record_case:
  "report_items (record_case_result acc test rr keep) = report_items acc @ (if keep then [make_report_item test rr] else [])"
  "infra_errors (record_case_result acc test rr keep) = infra_errors acc"
  by (simp_all add: record_case_result_def record_failure_summary_def Let_def)

lemma reported_record:
  assumes "items_of s' = items_of s"
  shows "infra_of (record_result state test (rr, s')) = infra_of s"
    and "recording state s \<Longrightarrow> reported (record_result state test (rr, s')) = reported s @ [(c_name test, rr_outcome rr)]
      \<and> recording state (record_result state test (rr, s'))"
  using assms
  by (cases "rs_acc s"; cases "rs_acc s'"; simp add: recording_def reported_def infra_of_def record_result_def items_record_case
      make_report_item_def)+

lemma world_ok_run [simp]: "world_ok (w\<lparr>w_run := s\<rparr>) = world_ok w"
  by (simp add: world_ok_def)

lemma record_result_counters [simp]: "rs_counters (record_result state test r) = rs_counters (snd r)"
  by (simp add: record_result_def)

lemma run_visit_spec:
  assumes "world_ok w"
  shows "\<exists>w'. run_visit env state cases v w = Inr w' \<and> world_ok w' \<and> infra_of (w_run w') = infra_of (w_run w)
    \<and> rs_counters (w_run w') = count_outcome (visit_outcome env cases v) (rs_counters (w_run w))
    \<and> (recording state (w_run w) \<longrightarrow> recording state (w_run w')
         \<and> reported (w_run w') = reported (w_run w) @ [(c_name (cases ! fst v), visit_outcome env cases v)])"
proof (cases "snd v")
  case (Inl msg)
  then show ?thesis using assms
    by (auto simp: run_visit_def record_synthetic_skip_def visit_outcome_def Let_def recording_def reported_def infra_of_def
        items_record_case make_report_item_def option.map_comp o_def)
next
  case (Inr ctx)
  let ?test = "cases ! fst v"
  show ?thesis
  proof (cases "c_should_skip ?test")
    case True
    let ?s = "snd (make_static_skip_result state ?test (w_run w))"
    have i: "items_of ?s = items_of (w_run w)" by (simp add: make_static_skip_result_def)
    show ?thesis
      using assms Inr True reported_record[OF i, of state ?test "fst (make_static_skip_result state ?test (w_run w))"]
      by (simp add: run_visit_def execute_and_record_def execute_one_def make_static_skip_result_def visit_outcome_def)
  next
    case False
    from execute_one_verdict[OF assms(1) False, of env state ctx] obtain rr w1
      where e: "execute_one env state ?test ctx w = Inr (rr, w1)" "rr_outcome rr = expected_outcome (e_bodies env (c_fn ?test) ctx)"
        "world_ok w1" "rs_counters (w_run w1) = count_outcome (rr_outcome rr) (rs_counters (w_run w))"
        "items_of (w_run w1) = items_of (w_run w)" by blast
    from reported_record[OF e(5), of state ?test rr] show ?thesis
      using e(1-4) Inr False by (simp add: run_visit_def execute_and_record_def visit_outcome_def)
  qed
qed

fun upto_first :: "('a \<Rightarrow> bool) \<Rightarrow> 'a list \<Rightarrow> 'a list" where
  "upto_first P [] = []"
| "upto_first P (x # xs) = (if P x then [x] else x # upto_first P xs)"

definition visited :: "exec_env \<Rightarrow> Case list \<Rightarrow> bool \<Rightarrow> (idx \<times> (string + nat option)) list \<Rightarrow> (idx \<times> (string + nat option)) list" where
  "visited env cases ff vs = (if ff then upto_first (\<lambda>v. is_bad (visit_outcome env cases v)) vs else vs)"

lemma count_outcome_stop:
  assumes "ff \<Longrightarrow> k_failures c = 0 \<and> k_blocked c = 0"
  shows "should_stop_after_failure ff (count_outcome r c) \<longleftrightarrow> ff \<and> is_bad r"
    and "ff \<Longrightarrow> \<not> is_bad r \<Longrightarrow> k_failures (count_outcome r c) = 0 \<and> k_blocked (count_outcome r c) = 0"
  using assms by (cases r; auto simp: should_stop_after_failure_def inc_defs)+

lemma run_visits_spec:
  assumes "world_ok w"
    and "ff \<Longrightarrow> k_failures (rs_counters (w_run w)) = 0 \<and> k_blocked (rs_counters (w_run w)) = 0"
  shows "\<exists>w'. run_visits env state cases ff vs w = Inr (ff \<and> list_ex (\<lambda>v. is_bad (visit_outcome env cases v)) vs, w')
    \<and> world_ok w' \<and> infra_of (w_run w') = infra_of (w_run w)
    \<and> rs_counters (w_run w') = foldl (\<lambda>c v. count_outcome (visit_outcome env cases v) c) (rs_counters (w_run w)) (visited env cases ff vs)
    \<and> (recording state (w_run w) \<longrightarrow> recording state (w_run w') \<and> reported (w_run w') =
         reported (w_run w) @ map (\<lambda>v. (c_name (cases ! fst v), visit_outcome env cases v)) (visited env cases ff vs))"
  using assms
proof (induction vs arbitrary: w)
  case Nil
  then show ?case by (simp add: visited_def)
next
  case (Cons v vs)
  obtain w1 where 1: "run_visit env state cases v w = Inr w1" "world_ok w1" "infra_of (w_run w1) = infra_of (w_run w)"
      "rs_counters (w_run w1) = count_outcome (visit_outcome env cases v) (rs_counters (w_run w))"
      "recording state (w_run w) \<longrightarrow> recording state (w_run w1)
         \<and> reported (w_run w1) = reported (w_run w) @ [(c_name (cases ! fst v), visit_outcome env cases v)]"
    using run_visit_spec[OF Cons.prems(1)] by blast
  note stop = count_outcome_stop[of ff "rs_counters (w_run w)" "visit_outcome env cases v", OF Cons.prems(2), folded 1(4)]
  show ?case
  proof (cases "ff \<and> is_bad (visit_outcome env cases v)")
    case True
    then show ?thesis using 1 stop(1) by (simp add: visited_def)
  next
    case False
    then have go: "run_visits env state cases ff (v # vs) w = run_visits env state cases ff vs w1"
      using 1(1) stop(1) by auto
    have vis: "visited env cases ff (v # vs) = v # visited env cases ff vs" using False by (simp add: visited_def)
    have "ff \<Longrightarrow> k_failures (rs_counters (w_run w1)) = 0 \<and> k_blocked (rs_counters (w_run w1)) = 0"
      using stop(2) False by simp
    from Cons.IH[OF 1(2) this] show ?thesis
      unfolding go vis using 1(3,4,5) False by auto
  qed
qed

text \<open>The counters of a list of outcomes.\<close>

definition counters_of :: "Outcome list \<Rightarrow> TestCounters" where
  "counters_of rs =
     \<lparr>k_total = length rs, k_passed = count_list rs OutPass, k_skipped = count_list rs OutSkip + count_list rs OutXFail,
      k_blocked = count_list rs OutBlocked, k_xfail = count_list rs OutXFail, k_xpass = count_list rs OutXPass,
      k_failed = count_list rs OutFail + count_list rs OutXPass, k_failures = count_list rs OutFail + count_list rs OutXPass\<rparr>"

lemma foldl_count_outcome: "foldl (\<lambda>c v. count_outcome (f v) c) zero_counters vs = counters_of (map f vs)"
proof (induction vs rule: rev_induct)
  case Nil
  then show ?case by (simp add: counters_of_def zero_counters_def)
next
  case (snoc v vs)
  then show ?case by (cases "f v") (simp_all add: counters_of_def inc_defs)
qed

subsection \<open>Groups are uniform\<close>

text \<open>
  Only the first case of a group acquires the fixture.  In a plan built from a selection the
  cases of a group agree on suite, fixture and lifetime, so each case gets what it would have
  acquired itself.
\<close>

definition group_uniform :: "Case list \<Rightarrow> FixtureGroupPlan \<Rightarrow> bool" where
  "group_uniform cases g \<longleftrightarrow> (\<exists>s lt. \<forall>i\<in>set (g_idxs g). c_fixture (cases ! i) = g_fixture g
     \<and> c_suite (cases ! i) = s \<and> c_fixture_lifetime (cases ! i) = lt)"

definition plan_uniform :: "Case list \<Rightarrow> SuiteExecutionPlan \<Rightarrow> bool" where
  "plan_uniform cases p \<longleftrightarrow> (\<forall>i\<in>set (p_free_like p). is_free_like cases i)
     \<and> (\<forall>g\<in>set (p_suite_groups p) \<union> set (p_global_groups p). group_uniform cases g)"

lemma plan_spec_uniform: "p \<in> set (plan_spec cases idxs) \<Longrightarrow> plan_uniform cases p"
  by (auto simp: plan_spec_def suite_plan_def plan_uniform_def fixture_groups_def mk_group_def has_lifetime_def group_uniform_def)

lemma shuffle_uniform:
  assumes "permutes_input rng" and "plan_uniform cases p"
  shows "plan_uniform cases (shuffle_plan rng h seed p)"
proof -
  have s: "set (shuffle_with_seed rng xs sd) = set xs" for xs sd
    using assms(1) unfolding permutes_input_def shuffle_with_seed_def by (metis set_mset_mset)
  show ?thesis using assms(2) by (auto simp: plan_uniform_def shuffle_plan_def Let_def s group_uniform_def)
qed

lemma built_plan_uniform:
  assumes "permutes_input rng" and "p \<in> set (build_suite_execution_plan rng h cases idxs shuffle seed)"
  shows "plan_uniform cases p"
  using assms plan_spec_uniform shuffle_uniform
  by (cases shuffle) (auto simp: plan_shuffled plan_unshuffled)

lemma built_plan_order:
  assumes "permutes_input rng"
  shows "mset (plan_order (build_suite_execution_plan rng h cases idxs shuffle seed)) = mset idxs"
  using assms by (cases shuffle) (simp_all add: plan_shuffled plan_unshuffled shuffle_plan_order plan_spec_order)

definition case_visit :: "Case list \<Rightarrow> fixture_state \<Rightarrow> idx \<Rightarrow> idx \<times> (string + nat option)" where
  "case_visit cases fx i =
     (i, case acquire_case_fixture (cases ! i) fx of
           Inl reason \<Rightarrow> Inl (shared_fixture_unavailable_message (c_fixture (cases ! i)) reason) | Inr ctx \<Rightarrow> Inr ctx)"

lemma acquire_cong:
  "c_fixture a = c_fixture b \<Longrightarrow> c_suite a = c_suite b \<Longrightarrow> c_fixture_lifetime a = c_fixture_lifetime b
     \<Longrightarrow> acquire_case_fixture a fx = acquire_case_fixture b fx"
  unfolding acquire_case_fixture_def by (simp only:)

lemma group_visits_uniform:
  assumes "group_uniform cases g"
  shows "group_visits cases fx g = map (case_visit cases fx) (g_idxs g)"
proof (cases "g_idxs g")
  case (Cons h t)
  have "acquire_case_fixture (cases ! i) fx = acquire_case_fixture (cases ! h) fx \<and> c_fixture (cases ! i) = g_fixture g"
    if "i \<in> set (g_idxs g)" for i
  proof -
    obtain s lt where u: "\<And>j. j \<in> set (g_idxs g) \<Longrightarrow> c_fixture (cases ! j) = g_fixture g
        \<and> c_suite (cases ! j) = s \<and> c_fixture_lifetime (cases ! j) = lt"
      using assms unfolding group_uniform_def by blast
    have "h \<in> set (g_idxs g)" by (simp add: Cons)
    note hi = u[OF this] u[OF that]
    have "acquire_case_fixture (cases ! i) fx = acquire_case_fixture (cases ! h) fx" by (rule acquire_cong) (simp_all only: hi)
    then show ?thesis using hi by blast
  qed
  then have "case_visit cases fx i = (i, case acquire_case_fixture (cases ! h) fx of
      Inl reason \<Rightarrow> Inl (shared_fixture_unavailable_message (g_fixture g) reason) | Inr ctx \<Rightarrow> Inr ctx)" if "i \<in> set (g_idxs g)" for i
    unfolding case_visit_def using that by (simp only:)
  then show ?thesis by (simp add: group_visits_def Cons Let_def)
qed (simp add: group_visits_def)

lemma plan_visits_uniform:
  assumes "\<forall>p\<in>set plans. plan_uniform cases p"
  shows "plan_visits cases fx plans = map (case_visit cases fx) (plan_order plans)"
  using assms
proof (induction plans)
  case Nil
  then show ?case by (simp add: plan_visits_def plan_order_def)
next
  case (Cons p plans)
  have free: "map (\<lambda>i. (i, Inr None)) (p_free_like p) = map (case_visit cases fx) (p_free_like p)"
    using Cons.prems by (auto simp: plan_uniform_def is_free_like_def case_visit_def acquire_case_fixture_def)
  have gs: "concat (map (group_visits cases fx) gs) = map (case_visit cases fx) (concat (map g_idxs gs))"
    if "\<forall>g\<in>set gs. group_uniform cases g" for gs
    using that by (induction gs) (simp_all add: group_visits_uniform)
  have "\<forall>g\<in>set (p_suite_groups p). group_uniform cases g" "\<forall>g\<in>set (p_global_groups p). group_uniform cases g"
    using Cons.prems by (auto simp: plan_uniform_def)
  from gs[OF this(1)] gs[OF this(2)] show ?case
    using Cons free plan_order_Cons[of p plans] by (simp add: plan_visits_def) (simp add: plan_order_def)
qed


definition failing_env :: exec_env where
  "failing_env = \<lparr>e_bodies = (\<lambda>_ _. ([], Some (StdExn ''boom''))), e_elapsed = (\<lambda>_. DFinite 0)\<rparr>"


end
