(* ===== verification/Measured.thy ===== *)
theory Measured
  imports Case_Result
begin

section \<open>Benchmarks and jitter cases: \<^verbatim>\<open>src/runner_measured_executor.cpp\<close>\<close>

text \<open>
  The driver that takes a measured case through acquisition, set-up, call and tear-down, and the
  loop over the selected cases.  As in the source, where they are template parameters, the timed
  call and its result type are parameters; so are the invocation of a phase (what
  \<^verbatim>\<open>invoke_case_once\<close> returned and the bench error that the phase left), the acquisition of the
  fixture and the clock.  The state \<open>'st\<close> they act on is arbitrary.  The calibration and epoch
  loops are in \<^verbatim>\<open>Bench_Run\<close>, the statistics in \<^verbatim>\<open>Bench_Stats\<close>.
\<close>

record MeasurementCaseFailure =
  mf_reason :: string
  mf_source_file :: string
  mf_source_line :: nat
  mf_allocation_failure :: bool
  mf_skipped :: bool
  mf_infra_failure :: bool
  mf_time_s :: double
  mf_phase :: string

definition no_failure :: MeasurementCaseFailure where
  "no_failure = \<lparr>mf_reason = [], mf_source_file = [], mf_source_line = 0, mf_allocation_failure = False, mf_skipped = False,
     mf_infra_failure = False, mf_time_s = DFinite 0, mf_phase = []\<rparr>"

record TimedRunStatus =
  ts_ok :: bool
  ts_stopped :: bool
  ts_total :: nat
  ts_passed :: nat
  ts_skipped :: nat
  ts_blocked :: nat
  ts_failed :: nat

definition initial_status :: TimedRunStatus where
  "initial_status = \<lparr>ts_ok = True, ts_stopped = False, ts_total = 0, ts_passed = 0, ts_skipped = 0, ts_blocked = 0, ts_failed = 0\<rparr>"

record ('st, 'r) measure_env =
  m_acquire :: "Case \<Rightarrow> string + nat option"
  m_invoke :: "Case \<Rightarrow> nat option \<Rightarrow> BenchPhase \<Rightarrow> 'st \<Rightarrow> InvokeResult \<times> string \<times> 'st"
  m_call :: "Case \<Rightarrow> nat option \<Rightarrow> MeasurementCaseFailure \<Rightarrow> 'st \<Rightarrow> 'r \<times> MeasurementCaseFailure \<times> string \<times> 'st"
  m_wall_time_s :: "'r \<Rightarrow> double"
  m_zero :: 'r
  m_elapsed :: "'st \<Rightarrow> double"
  m_tick :: double

definition capture_first_failure_location :: "TestContextInfo \<Rightarrow> MeasurementCaseFailure \<Rightarrow> MeasurementCaseFailure" where
  "capture_first_failure_location x failure =
     (if mf_source_file failure \<noteq> [] \<and> mf_source_line failure \<noteq> 0 then failure
      else case find (\<lambda>l. l_file l \<noteq> [] \<and> l_line l \<noteq> 0) (x_failure_locations x) of
        None \<Rightarrow> failure
      | Some l \<Rightarrow> failure\<lparr>mf_source_file := l_file l, mf_source_line := l_line l\<rparr>)"

record MeasurementPhaseResult =
  mp_ok :: bool
  mp_allocation_failure :: bool
  mp_runtime_skipped :: bool
  mp_reason :: string
  mp_skip_reason :: string
  mp_skip_kind :: RuntimeSkipKind

text \<open>What a phase amounts to, from what its invocation returned and the bench error it left.\<close>

definition phase_result :: "InvokeResult \<Rightarrow> string \<Rightarrow> MeasurementPhaseResult" where
  "phase_result ivk bench_error =
     (let x = v_ctxinfo ivk; exc = v_exception ivk; first_failure = first_recorded_failure x;
          requested = x_runtime_skip_requested x;
          error0 = (if exc = ExcNone \<or> exc = ExcSkip then [] else v_message ivk);
          error1 = (if \<not> requested \<and> exc = ExcSkip then ''skip requested without active runtime skip state'' else error0);
          error2 = (if first_failure \<noteq> [] \<and> (exc = ExcAssertion \<or> error1 = []) then first_failure else error1);
          skipped = (requested \<and> error2 = []);
          skip_reason = (if requested then x_runtime_skip_reason x else []);
          skip_kind = (if requested then x_runtime_skip_kind x else SkipUser)
      in if bench_error \<noteq> []
         then \<lparr>mp_ok = False, mp_allocation_failure = True, mp_runtime_skipped = False, mp_reason = bench_error,
               mp_skip_reason = skip_reason, mp_skip_kind = skip_kind\<rparr>
         else \<lparr>mp_ok = \<not> skipped \<and> error2 = [], mp_allocation_failure = False, mp_runtime_skipped = skipped,
               mp_reason = error2, mp_skip_reason = skip_reason, mp_skip_kind = skip_kind\<rparr>)"

definition run_measurement_phase ::
  "('st, 'r) measure_env \<Rightarrow> Case \<Rightarrow> nat option \<Rightarrow> BenchPhase \<Rightarrow> MeasurementCaseFailure \<Rightarrow> 'st
     \<Rightarrow> MeasurementPhaseResult \<times> MeasurementCaseFailure \<times> 'st" where
  "run_measurement_phase env c ctx phase failure st =
     (case m_invoke env c ctx phase st of (ivk, bench_error, st') \<Rightarrow>
        (phase_result ivk bench_error, capture_first_failure_location (v_ctxinfo ivk) failure, st'))"

text \<open>\<^verbatim>\<open>std::max\<close> over an initializer list: the first largest element.\<close>

definition d_max :: "double \<Rightarrow> double \<Rightarrow> double" where
  "d_max a b = (if d_less a b then b else a)"

definition d_le_zero :: "double \<Rightarrow> bool" where
  "d_le_zero d = (case d of DFinite q \<Rightarrow> q \<le> 0 | DNegInf \<Rightarrow> True | _ \<Rightarrow> False)"

definition stamp_failure_time :: "('st, 'r) measure_env \<Rightarrow> 'r \<Rightarrow> 'st \<Rightarrow> MeasurementCaseFailure \<Rightarrow> MeasurementCaseFailure" where
  "stamp_failure_time env result st failure =
     (let t = d_max (d_max (mf_time_s failure) (m_wall_time_s env result)) (m_elapsed env st)
      in failure\<lparr>mf_time_s := (if d_le_zero t then m_tick env else t)\<rparr>)"

definition or_default :: "string \<Rightarrow> string \<Rightarrow> string" where
  "or_default s d = (if s = [] then d else s)"

definition is_infra :: "MeasurementPhaseResult \<Rightarrow> bool" where
  "is_infra p \<longleftrightarrow> mp_skip_kind p = SkipSharedFixtureInfra"

text \<open>The failure after a set-up that did not succeed, given the tear-down that followed it.\<close>

definition setup_failure ::
  "MeasurementPhaseResult \<Rightarrow> MeasurementPhaseResult \<Rightarrow> MeasurementCaseFailure \<Rightarrow> MeasurementCaseFailure" where
  "setup_failure su td failure =
     (if \<not> mp_ok td then
        (if mp_runtime_skipped su \<and> mp_runtime_skipped td
         then let a = or_default (mp_skip_reason su) ''setup requested skip'';
                  b = or_default (mp_skip_reason td) ''teardown requested skip''
              in failure\<lparr>mf_reason := (if a = b then a else a @ ''; teardown: '' @ b), mf_skipped := True,
                         mf_infra_failure := is_infra su \<or> is_infra td, mf_phase := ''setup+teardown''\<rparr>
         else let a = (if mp_runtime_skipped su then or_default (mp_skip_reason su) ''setup requested skip''
                       else or_default (mp_reason su) ''setup failed'');
                  b = (if mp_runtime_skipped td then or_default (mp_skip_reason td) ''teardown requested skip''
                       else or_default (mp_reason td) ''teardown failed'')
              in failure\<lparr>mf_reason := ''setup issue: '' @ a @ ''; teardown issue: '' @ b,
                         mf_allocation_failure := mp_allocation_failure su \<or> mp_allocation_failure td, mf_skipped := False,
                         mf_infra_failure := is_infra su \<or> is_infra td, mf_phase := ''setup+teardown''\<rparr>)
      else if mp_runtime_skipped su
      then failure\<lparr>mf_reason := mp_skip_reason su, mf_skipped := True, mf_infra_failure := is_infra su, mf_phase := ''setup''\<rparr>
      else failure\<lparr>mf_reason := mp_reason su, mf_allocation_failure := mp_allocation_failure su, mf_phase := ''setup''\<rparr>)"

text \<open>The failure after the call, given its error and the tear-down; \<open>None\<close> means success.\<close>

definition call_failure :: "string \<Rightarrow> MeasurementPhaseResult \<Rightarrow> MeasurementCaseFailure \<Rightarrow> MeasurementCaseFailure option" where
  "call_failure call_error td failure =
     (if \<not> mp_ok td then
        (if call_error \<noteq> []
         then let b = (if mp_runtime_skipped td then or_default (mp_skip_reason td) ''teardown requested skip''
                       else or_default (mp_reason td) ''teardown failed'')
              in Some (failure\<lparr>mf_reason := ''call issue: '' @ call_error @ ''; teardown issue: '' @ b,
                               mf_allocation_failure := mp_allocation_failure td, mf_skipped := False,
                               mf_infra_failure := is_infra td, mf_phase := ''call+teardown''\<rparr>)
         else if mp_runtime_skipped td
         then Some (failure\<lparr>mf_reason := or_default (mp_skip_reason td) ''teardown requested skip'', mf_allocation_failure := False,
                            mf_skipped := True, mf_infra_failure := is_infra td, mf_phase := ''teardown''\<rparr>)
         else Some (failure\<lparr>mf_reason := mp_reason td, mf_allocation_failure := mp_allocation_failure td, mf_phase := ''teardown''\<rparr>))
      else if call_error \<noteq> []
      then Some (failure\<lparr>mf_reason := call_error, mf_allocation_failure := False, mf_phase := ''call''\<rparr>)
      else None)"

definition fixture_failure :: "Case \<Rightarrow> string \<Rightarrow> MeasurementCaseFailure \<Rightarrow> MeasurementCaseFailure" where
  "fixture_failure c reason failure =
     (let r = or_default reason ''fixture allocation returned null''
      in failure\<lparr>mf_reason := (if c_fixture c \<noteq> [] then ''shared fixture unavailable for '' @ [CHR 0x27] @ c_fixture c @ [CHR 0x27] @ '': '' @ r
                               else r),
                 mf_skipped := True, mf_infra_failure := True, mf_phase := ''allocation''\<rparr>)"

definition run_measured_case :: "('st, 'r) measure_env \<Rightarrow> Case \<Rightarrow> 'st \<Rightarrow> bool \<times> 'r \<times> MeasurementCaseFailure \<times> 'st" where
  "run_measured_case env c st =
     (case m_acquire env c of
        Inl reason \<Rightarrow> (False, m_zero env, stamp_failure_time env (m_zero env) st (fixture_failure c reason no_failure), st)
      | Inr ctx \<Rightarrow>
          let (su, f1, st1) = run_measurement_phase env c ctx PhaseSetup no_failure st
          in if \<not> mp_ok su
             then let (td, f2, st2) = run_measurement_phase env c ctx PhaseTeardown f1 st1
                  in (False, m_zero env, stamp_failure_time env (m_zero env) st2 (setup_failure su td f2), st2)
             else let (result, f2, call_error, st2) = m_call env c ctx f1 st1;
                      (td, f4, st3) = run_measurement_phase env c ctx PhaseTeardown (f2\<lparr>mf_time_s := m_wall_time_s env result\<rparr>) st2
                  in (case call_failure call_error td f4 of
                        Some f \<Rightarrow> (False, result, stamp_failure_time env result st3 f, st3)
                      | None \<Rightarrow> (True, result, f4, st3)))"

definition format_measured_fixture_failure_message :: "string \<Rightarrow> Case \<Rightarrow> string \<Rightarrow> bool \<Rightarrow> string \<Rightarrow> string" where
  "format_measured_fixture_failure_message kind_label c reason allocation_failure phase =
     kind_label @ '' '' @ (if allocation_failure then ''fixture allocation'' else phase) @ '' failed for '' @ c_name c
       @ (if c_fixture c \<noteq> [] then '' ('' @ c_fixture c @ '')'' else []) @ '': '' @ reason"

definition measured_ms :: "double \<Rightarrow> int" where
  "measured_ms t = (let ms = duration_ms t in if \<not> d_le_zero t \<and> t \<noteq> DNaN \<and> ms = 0 then 1 else ms)"

definition report_measured_case :: "string \<Rightarrow> Case \<Rightarrow> string \<Rightarrow> double \<Rightarrow> bool \<Rightarrow> chunk list" where
  "report_measured_case tag c reason time_s machine_report =
     [(if machine_report then StdErr else StdOut, None, tag @ ms_suffix (c_name c) reason (measured_ms time_s))]"

text \<open>The state of the loop: the world of the cases, what the callbacks act on, and the console.\<close>

record ('st, 'a) measured_state =
  ms_st :: 'st
  ms_acc :: 'a
  ms_console :: "chunk list"

text \<open>One turn of the loop; a blocked or failed case ends it under \<^verbatim>\<open>--fail-fast\<close> with \<^verbatim>\<open>stopped\<close> set.\<close>

definition measured_step ::
  "('st, 'r) measure_env \<Rightarrow> (Case \<Rightarrow> 'r \<Rightarrow> 'a \<Rightarrow> 'a) \<Rightarrow> (Case \<Rightarrow> MeasurementCaseFailure \<Rightarrow> string \<Rightarrow> 'a \<Rightarrow> 'a)
     \<Rightarrow> string \<Rightarrow> bool \<Rightarrow> bool \<Rightarrow> Case \<Rightarrow> TimedRunStatus \<Rightarrow> ('st, 'a) measured_state \<Rightarrow> TimedRunStatus \<times> ('st, 'a) measured_state" where
  "measured_step env on_success on_failure kind_label fail_fast machine_report c sts s =
     (let sts1 = sts\<lparr>ts_total := ts_total sts + 1\<rparr>;
          (ok, result, failure, st) = run_measured_case env c (ms_st s);
          report = (\<lambda>message out. s\<lparr>ms_st := st, ms_acc := on_failure c failure message (ms_acc s), ms_console := ms_console s @ out\<rparr>)
      in if ok
         then (sts1\<lparr>ts_passed := ts_passed sts1 + 1\<rparr>, s\<lparr>ms_st := st, ms_acc := on_success c result (ms_acc s)\<rparr>)
         else if mf_skipped failure \<and> mf_infra_failure failure
         then (sts1\<lparr>ts_ok := False, ts_blocked := ts_blocked sts1 + 1, ts_stopped := fail_fast\<rparr>,
               report [] (report_measured_case ''[ BLOCKED ]'' c (mf_reason failure) (mf_time_s failure) machine_report))
         else if mf_skipped failure
         then (sts1\<lparr>ts_skipped := ts_skipped sts1 + 1\<rparr>,
               report [] (report_measured_case ''[ SKIP ]'' c (mf_reason failure) (mf_time_s failure) machine_report))
         else let message = format_measured_fixture_failure_message kind_label c (mf_reason failure)
                              (mf_allocation_failure failure) (mf_phase failure)
              in (sts1\<lparr>ts_ok := False, ts_failed := ts_failed sts1 + 1, ts_stopped := fail_fast\<rparr>,
                  report message [(StdErr, None, message @ [CHR 0x0A])]))"

fun run_measured_cases ::
  "('st, 'r) measure_env \<Rightarrow> (Case \<Rightarrow> 'r \<Rightarrow> 'a \<Rightarrow> 'a) \<Rightarrow> (Case \<Rightarrow> MeasurementCaseFailure \<Rightarrow> string \<Rightarrow> 'a \<Rightarrow> 'a) \<Rightarrow> Case list
     \<Rightarrow> string \<Rightarrow> bool \<Rightarrow> bool \<Rightarrow> idx list \<Rightarrow> TimedRunStatus \<Rightarrow> ('st, 'a) measured_state \<Rightarrow> TimedRunStatus \<times> ('st, 'a) measured_state" where
  "run_measured_cases env on_success on_failure cases kind_label fail_fast machine_report [] sts s = (sts, s)"
| "run_measured_cases env on_success on_failure cases kind_label fail_fast machine_report (i # is) sts s =
     (case measured_step env on_success on_failure kind_label fail_fast machine_report (cases ! i) sts s of
        (sts', s') \<Rightarrow>
          if ts_stopped sts' then (sts', s')
          else run_measured_cases env on_success on_failure cases kind_label fail_fast machine_report is sts' s')"

definition run_selected ::
  "('st, 'r) measure_env \<Rightarrow> (Case \<Rightarrow> 'r \<Rightarrow> 'a \<Rightarrow> 'a) \<Rightarrow> (Case \<Rightarrow> MeasurementCaseFailure \<Rightarrow> string \<Rightarrow> 'a \<Rightarrow> 'a) \<Rightarrow> Case list
     \<Rightarrow> string \<Rightarrow> bool \<Rightarrow> bool \<Rightarrow> idx list \<Rightarrow> ('st, 'a) measured_state \<Rightarrow> TimedRunStatus \<times> ('st, 'a) measured_state" where
  "run_selected env on_success on_failure cases kind_label fail_fast machine_report idxs s =
     (if idxs = [] then (initial_status, s)
      else run_measured_cases env on_success on_failure cases kind_label fail_fast machine_report idxs initial_status s)"

subsection \<open>Every acquired case is set up and torn down\<close>

text \<open>An environment that also writes down which phases it was asked for.\<close>

datatype phase_event = EvPhase BenchPhase | EvTimedCall

definition traced :: "('st, 'r) measure_env \<Rightarrow> ('st \<times> phase_event list, 'r) measure_env" where
  "traced env =
     \<lparr>m_acquire = m_acquire env,
      m_invoke = (\<lambda>c ctx phase (st, tr). case m_invoke env c ctx phase st of (ivk, be, st') \<Rightarrow> (ivk, be, (st', tr @ [EvPhase phase]))),
      m_call = (\<lambda>c ctx f (st, tr). case m_call env c ctx f st of (r, f', e, st') \<Rightarrow> (r, f', e, (st', tr @ [EvTimedCall]))),
      m_wall_time_s = m_wall_time_s env, m_zero = m_zero env, m_elapsed = m_elapsed env \<circ> fst, m_tick = m_tick env\<rparr>"

definition case_block :: "phase_event list \<Rightarrow> bool" where
  "case_block b \<longleftrightarrow> b \<in> {[], [EvPhase PhaseSetup, EvPhase PhaseTeardown], [EvPhase PhaseSetup, EvTimedCall, EvPhase PhaseTeardown]}"

lemma run_measured_case_block:
  "\<exists>b. snd (snd (snd (snd (run_measured_case (traced env) c (st, tr))))) = tr @ b \<and> case_block b
     \<and> (fst (run_measured_case (traced env) c (st, tr)) \<longrightarrow> EvTimedCall \<in> set b)"
  by (simp add: run_measured_case_def run_measurement_phase_def traced_def case_block_def Let_def split_beta
      split: sum.splits option.splits)

definition tail_trace :: "('st \<times> phase_event list, 'a) measured_state \<Rightarrow> phase_event list" where
  "tail_trace s = snd (ms_st s)"

lemma measured_step_block:
  "\<exists>b. tail_trace (snd (measured_step (traced env) os onf k ff mr c sts s)) = tail_trace s @ b \<and> case_block b"
proof -
  obtain ok r f st tr where c: "run_measured_case (traced env) c (ms_st s) = (ok, r, f, (st, tr))" by (metis prod.exhaust)
  have "snd (ms_st (snd (measured_step (traced env) os onf k ff mr c sts s))) = tr"
    by (simp add: measured_step_def c Let_def)
  then show ?thesis
    using run_measured_case_block[of env c "fst (ms_st s)" "snd (ms_st s)"] c by (auto simp: tail_trace_def)
qed

lemma measured_step_total: "ts_total (fst (measured_step env os onf k ff mr c sts s)) = Suc (ts_total sts)"
  by (simp add: measured_step_def Let_def split_beta)

lemma run_measured_cases_blocks:
  "\<exists>bs. tail_trace (snd (run_measured_cases (traced env) os onf cases k ff mr is sts s)) = tail_trace s @ concat bs \<and> list_all case_block bs
     \<and> length bs + ts_total sts = ts_total (fst (run_measured_cases (traced env) os onf cases k ff mr is sts s))"
proof (induction "is" arbitrary: sts s)
  case Nil
  then show ?case by (intro exI[of _ "[]"]) simp
next
  case (Cons i "is")
  obtain sts' s' where st: "measured_step (traced env) os onf k ff mr (cases ! i) sts s = (sts', s')" by fastforce
  obtain b where b: "tail_trace s' = tail_trace s @ b" "case_block b" "ts_total sts' = Suc (ts_total sts)"
    using measured_step_block[of env os onf k ff mr "cases ! i" sts s] measured_step_total[of "traced env" os onf k ff mr "cases ! i" sts s]
    by (auto simp: st)
  show ?case
  proof (cases "ts_stopped sts'")
    case True
    then show ?thesis using b st by (intro exI[of _ "[b]"]) simp
  next
    case False
    obtain bs where "tail_trace (snd (run_measured_cases (traced env) os onf cases k ff mr is sts' s')) = tail_trace s' @ concat bs"
      "list_all case_block bs"
      "length bs + ts_total sts' = ts_total (fst (run_measured_cases (traced env) os onf cases k ff mr is sts' s'))"
      using Cons.IH by blast
    then show ?thesis using b st False by (intro exI[of _ "b # bs"]) auto
  qed
qed


subsection \<open>The status of the loop\<close>

definition status_ok :: "bool \<Rightarrow> TimedRunStatus \<Rightarrow> bool" where
  "status_ok ff s \<longleftrightarrow> ts_total s = ts_passed s + ts_skipped s + ts_blocked s + ts_failed s
     \<and> ts_ok s = (ts_blocked s = 0 \<and> ts_failed s = 0) \<and> ts_stopped s = (ff \<and> \<not> ts_ok s)"

lemma measured_step_status:
  assumes "status_ok ff sts" and "\<not> ts_stopped sts"
  shows "status_ok ff (fst (measured_step env os onf k ff mr c sts s))"
proof -
  obtain ok r f st where c: "run_measured_case env c (ms_st s) = (ok, r, f, st)" by (metis prod_cases4)
  show ?thesis using assms by (auto simp: measured_step_def c Let_def status_ok_def)
qed

lemma run_measured_cases_status:
  assumes "status_ok ff sts" and "\<not> ts_stopped sts"
  shows "status_ok ff (fst (run_measured_cases env os onf cases k ff mr is sts s))
    \<and> ts_total (fst (run_measured_cases env os onf cases k ff mr is sts s)) \<le> ts_total sts + length is
    \<and> (ts_stopped (fst (run_measured_cases env os onf cases k ff mr is sts s))
        \<or> ts_total (fst (run_measured_cases env os onf cases k ff mr is sts s)) = ts_total sts + length is)"
  using assms
proof (induction "is" arbitrary: sts s)
  case (Cons i "is")
  obtain sts' s' where st: "measured_step env os onf k ff mr (cases ! i) sts s = (sts', s')" by fastforce
  have t: "ts_total sts' = Suc (ts_total sts)" "status_ok ff sts'"
    using measured_step_total[of env os onf k ff mr "cases ! i" sts s] measured_step_status[OF Cons.prems, of env os onf k mr "cases ! i" s]
    by (simp_all add: st)
  show ?case
  proof (cases "ts_stopped sts'")
    case True
    then show ?thesis using t st by simp
  next
    case False
    show ?thesis using Cons.IH[OF t(2) False, of s'] t st False by simp
  qed
qed simp

text \<open>
  The status of a measured run is exact: every counted case is counted once as passed,
  skipped, blocked or failed; the run is ok iff none was blocked or failed; it stopped early iff
  \<^verbatim>\<open>--fail-fast\<close> met such a case, and otherwise all selected cases were run.
\<close>

theorem measured_status_exact:
  "status_ok ff (fst (run_selected env on_success on_failure cases kind ff mr idxs s))
   \<and> ts_total (fst (run_selected env on_success on_failure cases kind ff mr idxs s)) \<le> length idxs
   \<and> (ts_stopped (fst (run_selected env on_success on_failure cases kind ff mr idxs s))
       \<or> ts_total (fst (run_selected env on_success on_failure cases kind ff mr idxs s)) = length idxs)"
proof -
  have i: "status_ok ff initial_status" "\<not> ts_stopped initial_status" "ts_total initial_status = 0"
    by (simp_all add: initial_status_def status_ok_def)
  show ?thesis
    using run_measured_cases_status[OF i(1,2), of env on_success on_failure cases kind mr idxs s] i
    by (cases "idxs = []") (simp_all add: run_selected_def)
qed

subsection \<open>The contract of the callbacks\<close>

text \<open>
  The loop hands every case to one of two callbacks.  When each call of either appends the name of
  the case to a log and keeps the log in working order, the log of a run is the names of the cases
  it ran, in order.
\<close>

lemma run_measured_cases_total_mono: "ts_total sts \<le> ts_total (fst (run_measured_cases env os onf cases k ff mr is sts s))"
proof (induction "is" arbitrary: sts s)
  case (Cons i "is")
  obtain sts1 s1 where st: "measured_step env os onf k ff mr (cases ! i) sts s = (sts1, s1)" by fastforce
  have "ts_total sts1 = Suc (ts_total sts)" using measured_step_total[of env os onf k ff mr "cases ! i" sts s] by (simp add: st)
  then show ?case using st Cons.IH[of sts1 s1] by simp
qed simp

locale measured_log =
  fixes log_of :: "'a \<Rightarrow> string list" and good :: "'a \<Rightarrow> bool"
    and on_success :: "Case \<Rightarrow> 'r \<Rightarrow> 'a \<Rightarrow> 'a" and on_failure :: "Case \<Rightarrow> MeasurementCaseFailure \<Rightarrow> string \<Rightarrow> 'a \<Rightarrow> 'a"
  assumes success_good: "good a \<Longrightarrow> good (on_success c r a)"
    and success_log: "good a \<Longrightarrow> log_of (on_success c r a) = log_of a @ [c_name c]"
    and failure_good: "good a \<Longrightarrow> good (on_failure c f m a)"
    and failure_log: "good a \<Longrightarrow> log_of (on_failure c f m a) = log_of a @ [c_name c]"
begin

lemma step_log:
  assumes "good (ms_acc s)"
  shows "good (ms_acc (snd (measured_step env on_success on_failure k ff mr c sts s)))
    \<and> log_of (ms_acc (snd (measured_step env on_success on_failure k ff mr c sts s))) = log_of (ms_acc s) @ [c_name c]"
proof -
  obtain ok r f w where c: "run_measured_case env c (ms_st s) = (ok, r, f, w)" by (metis prod_cases4)
  show ?thesis using assms by (simp add: measured_step_def c Let_def success_good success_log failure_good failure_log)
qed

lemma loop_log:
  assumes "good (ms_acc s)" and "run_measured_cases env on_success on_failure cases k ff mr is sts s = (sts', s')"
  shows "good (ms_acc s')
    \<and> log_of (ms_acc s') = log_of (ms_acc s) @ map (\<lambda>i. c_name (cases ! i)) (take (ts_total sts' - ts_total sts) is)"
  using assms
proof (induction "is" arbitrary: sts s)
  case (Cons i "is")
  obtain sts1 s1 where st: "measured_step env on_success on_failure k ff mr (cases ! i) sts s = (sts1, s1)" by fastforce
  have t: "ts_total sts1 = Suc (ts_total sts)" using measured_step_total[of env on_success on_failure k ff mr "cases ! i" sts s] by (simp add: st)
  have g: "good (ms_acc s1)" "log_of (ms_acc s1) = log_of (ms_acc s) @ [c_name (cases ! i)]"
    using step_log[OF Cons.prems(1), of env k ff mr "cases ! i" sts] by (simp_all add: st)
  show ?case
  proof (cases "ts_stopped sts1")
    case True
    then show ?thesis using Cons.prems(2) st t g by simp
  next
    case False
    then have r: "run_measured_cases env on_success on_failure cases k ff mr is sts1 s1 = (sts', s')" using Cons.prems(2) st by simp
    have "ts_total sts' - ts_total sts = Suc (ts_total sts' - ts_total sts1)"
      using run_measured_cases_total_mono[of sts1 env on_success on_failure cases k ff mr "is" s1] r t by simp
    then show ?thesis using Cons.IH[OF g(1) r] g(2) by simp
  qed
qed simp

lemma selected_log:
  assumes "good (ms_acc s)" and "run_selected env on_success on_failure cases k ff mr is s = (sts', s')"
  shows "good (ms_acc s') \<and> log_of (ms_acc s') = log_of (ms_acc s) @ map (\<lambda>i. c_name (cases ! i)) (take (ts_total sts') is)"
  using assms loop_log[OF assms(1), of env cases k ff mr "is" initial_status sts' s']
  by (cases "is = []") (auto simp: run_selected_def initial_status_def)

end

end
