(* ===== verification/Inventory.thy ===== *)
theory Inventory
  imports Reporting
begin

section \<open>Listing cases: \<^verbatim>\<open>src/runner_orchestrator.cpp\<close>, lines 58--279\<close>

text \<open>
  The texts that \<^verbatim>\<open>--list\<close> and \<^verbatim>\<open>--list-json\<close> print.  The JSON writer has a UTF-8
  validator of its own, which computes the code point first and rejects overlong forms, surrogates
  and values above 0x10FFFF afterwards, where the one of the reports (\<open>decode_utf8\<close>) looks at the
  lead and second byte.
\<close>

unbundle bit_operations_syntax

subsection \<open>\<^verbatim>\<open>--list\<close>\<close>

fun join_span :: "string list \<Rightarrow> char \<Rightarrow> string" where
  "join_span [] sep = []"
| "join_span [x] sep = x"
| "join_span (x # xs) sep = x @ [sep] @ join_span xs sep"

text \<open>The sections of a line, in order, joined by semicolons.\<close>

definition list_sections :: "Case \<Rightarrow> string list" where
  "list_sections test =
     (if c_tags test = [] then [] else [''tags='' @ join_span (c_tags test) CHR '',''])
     @ (if c_requirements test = [] then [] else [''requires='' @ join_span (c_requirements test) CHR '',''])
     @ (if \<not> c_should_skip test then [] else [if c_skip_reason test = [] then ''skip'' else ''skip='' @ c_skip_reason test])
     @ (if c_owner test = [] then [] else [''owner='' @ c_owner test])"

definition format_list_sections :: "Case \<Rightarrow> string" where
  "format_list_sections test =
     (if c_tags test = [] \<and> c_requirements test = [] \<and> \<not> c_should_skip test \<and> c_owner test = [] then []
      else '' [gentest:'' @ join_span (list_sections test) CHR '';'' @ '']'')"

subsection \<open>JSON strings\<close>

definition hex_digit :: "nat \<Rightarrow> char" where
  "hex_digit n = (if n < 10 then char_of (48 + n) else char_of (87 + n))"

text \<open>\<^verbatim>\<open>{:04x}\<close> of a number below 0x10000.\<close>

definition hex4 :: "nat \<Rightarrow> string" where
  "hex4 n = map hex_digit [n div 4096 mod 16, n div 256 mod 16, n div 16 mod 16, n mod 16]"

definition lead_byte :: "nat \<Rightarrow> nat \<times> nat" where
  "lead_byte ch =
     (if ch < 0x80 then (1, ch)
      else if ch AND 0xE0 = 0xC0 then (2, ch AND 0x1F)
      else if ch AND 0xF0 = 0xE0 then (3, ch AND 0x0F)
      else if ch AND 0xF8 = 0xF0 then (4, ch AND 0x07)
      else (0, 0))"

text \<open>The loop over the continuation bytes: \<open>None\<close> when one of them is not a continuation.\<close>

fun add_continuations :: "nat \<Rightarrow> nat list \<Rightarrow> nat option" where
  "add_continuations cp [] = Some cp"
| "add_continuations cp (b # bs) =
     (if b AND 0xC0 \<noteq> 0x80 then None else add_continuations (push_bit 6 cp OR (b AND 0x3F)) bs)"

text \<open>The length of a valid sequence at the start of the text, \<open>None\<close> when there is none.\<close>

definition json_sequence :: "string \<Rightarrow> nat option" where
  "json_sequence s =
     (let (n, cp0) = lead_byte (byte_at s 0)
      in if n = 0 \<or> length s < n then None
         else case add_continuations cp0 (map (byte_at s) [1..<n]) of
           None \<Rightarrow> None
         | Some cp \<Rightarrow>
             if (n = 2 \<and> cp < 0x80) \<or> (n = 3 \<and> cp < 0x800) \<or> (n = 4 \<and> cp < 0x10000)
                \<or> (cp \<ge> 0xD800 \<and> cp \<le> 0xDFFF) \<or> cp > 0x10FFFF
             then None else Some n)"

text \<open>One turn of the loop: what is written for the text that starts at the index, and how far the index moves.\<close>

definition json_item :: "string \<Rightarrow> string \<times> nat" where
  "json_item s =
     (let ch = hd s; b = byte_at s 0
      in if ch = CHR 0x22 then ([CHR 0x5C, CHR 0x22], 1)
         else if ch = CHR 0x5C then ([CHR 0x5C, CHR 0x5C], 1)
         else if ch = CHR 0x08 then ([CHR 0x5C, CHR ''b''], 1)
         else if ch = CHR 0x0C then ([CHR 0x5C, CHR ''f''], 1)
         else if ch = CHR 0x0A then ([CHR 0x5C, CHR ''n''], 1)
         else if ch = CHR 0x0D then ([CHR 0x5C, CHR ''r''], 1)
         else if ch = CHR 0x09 then ([CHR 0x5C, CHR ''t''], 1)
         else if b < 0x20 then ([CHR 0x5C, CHR ''u''] @ hex4 b, 1)
         else case json_sequence s of
           None \<Rightarrow> ([CHR 0x5C] @ ''uFFFD'', 1)
         | Some n \<Rightarrow> (take n s, n))"

lemma json_sequence_pos: "json_sequence s = Some n \<Longrightarrow> 0 < n \<and> n \<le> length s"
  by (auto simp: json_sequence_def Let_def split: prod.splits if_splits option.splits)

lemma json_item_pos: "0 < snd (json_item s)"
  by (auto simp: json_item_def Let_def dest: json_sequence_pos split: option.splits)

function json_loop :: "string \<Rightarrow> nat \<Rightarrow> string" where
  "json_loop value index =
     (if index < length value
      then fst (json_item (drop index value)) @ json_loop value (index + snd (json_item (drop index value)))
      else [])"
  by pat_completeness auto

termination json_loop
  by (relation "measure (\<lambda>(v, i). length v - i)") (use json_item_pos in \<open>auto intro: diff_less_mono2\<close>)

declare json_loop.simps [simp del]

definition append_json_string :: "string \<Rightarrow> string" where
  "append_json_string value = [CHR 0x22] @ json_loop value 0 @ [CHR 0x22]"

definition append_json_key :: "string \<Rightarrow> string" where
  "append_json_key key = append_json_string key @ '':''"

definition append_json_string_array :: "string list \<Rightarrow> string" where
  "append_json_string_array values = ''['' @ join_span (map append_json_string values) CHR '','' @ '']''"

subsection \<open>\<^verbatim>\<open>--list-json\<close>\<close>

definition inventory_kind :: "Case \<Rightarrow> string" where
  "inventory_kind test = (if c_is_jitter test then ''jitter'' else if c_is_benchmark test then ''bench'' else ''test'')"

fun inventory_fixture_lifetime :: "FixtureLifetime \<Rightarrow> string" where
  "inventory_fixture_lifetime LifetimeNone = ''none''"
| "inventory_fixture_lifetime MemberEphemeral = ''local''"
| "inventory_fixture_lifetime MemberSuite = ''suite''"
| "inventory_fixture_lifetime MemberGlobal = ''global''"

definition json_bool :: "bool \<Rightarrow> string" where
  "json_bool b = (if b then ''true'' else ''false'')"

definition q :: "string \<Rightarrow> string" where
  "q s = [CHR 0x22] @ s @ [CHR 0x22]"

definition format_inventory_case_json :: "Case \<Rightarrow> string" where
  "format_inventory_case_json test =
     ''{'' @ append_json_key ''name'' @ append_json_string (c_name test)
     @ '','' @ append_json_key ''file'' @ append_json_string (c_file test)
     @ '','' @ q ''line'' @ '':'' @ show_nat (c_line test)
     @ '','' @ append_json_key ''kind'' @ append_json_string (inventory_kind test)
     @ '','' @ append_json_key ''tags'' @ append_json_string_array (c_tags test)
     @ '','' @ append_json_key ''requirements'' @ append_json_string_array (c_requirements test)
     @ '','' @ append_json_key ''owner'' @ append_json_string (c_owner test)
     @ '','' @ q ''skipped'' @ '':'' @ json_bool (c_should_skip test)
     @ '','' @ append_json_key ''skipReason'' @ append_json_string (c_skip_reason test)
     @ '','' @ append_json_key ''fixture'' @ append_json_string (c_fixture test)
     @ '','' @ append_json_key ''fixtureLifetime'' @ append_json_string (inventory_fixture_lifetime (c_fixture_lifetime test))
     @ '','' @ append_json_key ''suite'' @ append_json_string (c_suite test)
     @ '','' @ q ''async'' @ '':'' @ json_bool (c_is_async test)
     @ '','' @ q ''baseline'' @ '':'' @ json_bool (c_is_baseline test)
     @ '','' @ q ''itemsPerCall'' @ '':'' @ show_nat (c_items_per_call test) @ ''}''"

subsection \<open>The two UTF-8 validators agree\<close>

lemma and_high:
  "b < 256 \<Longrightarrow> b AND 0xE0 = b div 32 * 32" "b < 256 \<Longrightarrow> b AND 0xF0 = b div 16 * 16" "b < 256 \<Longrightarrow> b AND 0xF8 = b div 8 * 8" for b :: nat
proof -
  have a: "n AND push_bit k m = push_bit k (drop_bit k n AND m)" for n k m :: nat
    by (rule bit_eqI) (auto simp: bit_and_iff bit_push_bit_iff bit_drop_bit_eq)
  have m: "drop_bit k n AND mask j = drop_bit k n mod 2 ^ j" for n k j :: nat
    by (simp add: take_bit_eq_mask[symmetric] take_bit_eq_mod)
  show "b < 256 \<Longrightarrow> b AND 0xE0 = b div 32 * 32" "b < 256 \<Longrightarrow> b AND 0xF0 = b div 16 * 16" "b < 256 \<Longrightarrow> b AND 0xF8 = b div 8 * 8"
    using a[of b 5 7] a[of b 4 15] a[of b 3 31] m[of 5 b 3] m[of 4 b 4] m[of 3 b 5]
    by (simp_all add: mask_eq_exp_minus_1 drop_bit_eq_div push_bit_eq_mult)
qed

lemma lead_byte_arith:
  "b < 256 \<Longrightarrow> lead_byte b =
     (if b < 0x80 then (1, b) else if b < 0xC0 then (0, 0) else if b < 0xE0 then (2, b mod 32)
      else if b < 0xF0 then (3, b mod 16) else if b < 0xF8 then (4, b mod 8) else (0, 0))"
  unfolding lead_byte_def by (auto simp: and_high and_low)

lemma add_continuations_arith:
  assumes "\<forall>b\<in>set bs. b < 256"
  shows "add_continuations cp bs =
    (if \<forall>b\<in>set bs. is_utf8_continuation b then Some (foldl (\<lambda>a b. a * 64 + b mod 64) cp bs) else None)"
  using assms
proof (induction bs arbitrary: cp)
  case (Cons b bs)
  have "push_bit 6 cp OR (b AND 0x3F) = cp * 64 + b mod 64" using or_shift[of "b mod 64" 6 cp] by (simp add: and_low)
  then show ?case using Cons by (simp add: is_utf8_continuation_def)
qed simp

lemma json_sequence_arith:
  assumes "s \<noteq> []"
  shows "json_sequence s =
    (let (n, cp0) = lead_byte (byte_at s 0); bs = map (byte_at s) [1..<n]; cp = foldl (\<lambda>a b. a * 64 + b mod 64) cp0 bs
     in if n \<noteq> 0 \<and> n \<le> length s \<and> list_all is_utf8_continuation bs
           \<and> \<not> ((n = 2 \<and> cp < 0x80) \<or> (n = 3 \<and> cp < 0x800) \<or> (n = 4 \<and> cp < 0x10000)
                \<or> (cp \<ge> 0xD800 \<and> cp \<le> 0xDFFF) \<or> cp > 0x10FFFF)
        then Some n else None)"
proof -
  have "\<forall>b\<in>set (map (byte_at s) [1..<n]). b < 256" for n using byte_at_less by auto
  from add_continuations_arith[OF this] show ?thesis
    by (auto simp: json_sequence_def list_all_iff Let_def split: prod.splits)
qed

lemma upt_conts: "[Suc 0..<2] = [Suc 0]" "[Suc 0..<3] = [Suc 0, 2]" "[Suc 0..<4] = [Suc 0, 2, 3]"
  by (simp_all add: upt_rec)

lemma byte_index: "byte_at s (Suc (Suc 0)) = byte_at s 2" "byte_at s (Suc (Suc (Suc 0))) = byte_at s 3"
  by (simp_all add: numeral_2_eq_2 numeral_3_eq_3)

lemma json_sequence_decode:
  assumes "s \<noteq> []"
  shows "json_sequence s = (if u_valid (decode_utf8 s 0) then Some (u_width (decode_utf8 s 0)) else None)"
proof -
  let ?b = "byte_at s 0"
  have l: "1 \<le> length s" using assms by (cases s) auto
  have b: "?b < 256" by (rule byte_at_less)
  note je = json_sequence_arith[OF assms, unfolded lead_byte_arith[OF b]]
  consider "?b < 0x80" | "0x80 \<le> ?b" "?b < 0xC0" | "0xC0 \<le> ?b" "?b < 0xE0" | "0xE0 \<le> ?b" "?b < 0xF0" | "0xF0 \<le> ?b" "?b < 0xF8" | "0xF8 \<le> ?b"
    by linarith
  then show ?thesis
  proof cases
    case 1
    then show ?thesis using l by (simp add: je decode_utf8_arith)
  next
    case 2
    then show ?thesis by (simp add: je decode_utf8_arith utf8_invalid_def)
  next
    case 3
    obtain a where a: "?b = 192 + a" "a < 32" using 3 by (intro that[of "?b - 192"]) auto
    show ?thesis
    proof (cases "2 \<le> length s \<and> is_utf8_continuation (byte_at s 1)")
      case True
      then obtain d where d: "byte_at s 1 = 128 + d" "d < 64" using cont_digit by blast
      show ?thesis using True a d by (auto simp: je decode_utf8_arith utf8_invalid_def lead_mods upt_conts byte_index Let_def) 
    next
      case False
      then show ?thesis using a by (auto simp: je decode_utf8_arith utf8_invalid_def lead_mods upt_conts byte_index Let_def)
    qed
  next
    case 4
    obtain a where a: "?b = 224 + a" "a < 16" using 4 by (intro that[of "?b - 224"]) auto
    show ?thesis
    proof (cases "3 \<le> length s \<and> is_utf8_continuation (byte_at s 1) \<and> is_utf8_continuation (byte_at s 2)")
      case True
      then obtain c d where d: "byte_at s 1 = 128 + c" "c < 64" "byte_at s 2 = 128 + d" "d < 64" using cont_digit by metis
      show ?thesis using True a d by (auto simp: je decode_utf8_arith utf8_invalid_def lead_mods upt_conts byte_index Let_def) 
    next
      case False
      then show ?thesis using a by (auto simp: je decode_utf8_arith utf8_invalid_def lead_mods upt_conts byte_index Let_def)
    qed
  next
    case 5
    obtain a where a: "?b = 240 + a" "a < 8" using 5 by (intro that[of "?b - 240"]) auto
    show ?thesis
    proof (cases "4 \<le> length s \<and> is_utf8_continuation (byte_at s 1) \<and> is_utf8_continuation (byte_at s 2) \<and> is_utf8_continuation (byte_at s 3)")
      case True
      then obtain c d e where d: "byte_at s 1 = 128 + c" "c < 64" "byte_at s 2 = 128 + d" "d < 64" "byte_at s 3 = 128 + e" "e < 64"
        using cont_digit by metis
      show ?thesis using True a d by (auto simp: je decode_utf8_arith utf8_invalid_def lead_mods upt_conts byte_index Let_def) 
    next
      case False
      then show ?thesis using a by (auto simp: je decode_utf8_arith utf8_invalid_def lead_mods upt_conts byte_index Let_def)
    qed
  next
    case 6
    then show ?thesis by (simp add: je decode_utf8_arith utf8_invalid_def)
  qed
qed

subsection \<open>A reader of JSON strings\<close>

text \<open>The reader of RFC 8259, giving the code points of the string and the text behind it.\<close>

definition hex_value :: "char \<Rightarrow> nat option" where
  "hex_value c =
     (let n = of_char c
      in if 48 \<le> n \<and> n \<le> 57 then Some (n - 48) else if 97 \<le> n \<and> n \<le> 102 then Some (n - 87)
         else if 65 \<le> n \<and> n \<le> 70 then Some (n - 55) else (None :: nat option))"

fun read_hex :: "nat \<Rightarrow> nat \<Rightarrow> string \<Rightarrow> (nat \<times> string) option" where
  "read_hex 0 v t = Some (v, t)"
| "read_hex (Suc k) v [] = None"
| "read_hex (Suc k) v (c # t) = (case hex_value c of None \<Rightarrow> None | Some d \<Rightarrow> read_hex k (v * 16 + d) t)"

lemma read_hex_length: "read_hex k v t = Some (w, t') \<Longrightarrow> length t' \<le> length t"
  by (induction k v t rule: read_hex.induct) (fastforce split: option.splits)+

definition simple_escape :: "char \<Rightarrow> nat option" where
  "simple_escape c =
     map_of [(CHR 0x22, 0x22), (CHR 0x5C, 0x5C), (CHR ''/'', 0x2F), (CHR ''b'', 8), (CHR ''f'', 12), (CHR ''n'', 10),
             (CHR ''r'', 13), (CHR ''t'', 9)] c"

definition cons_point :: "nat \<Rightarrow> (nat list \<times> string) option \<Rightarrow> (nat list \<times> string) option" where
  "cons_point p r = map_option (\<lambda>(ps, t). (p # ps, t)) r"

lemma decode_shrinks: "Suc (length t) - u_width (decode_utf8 (c # t) 0) \<le> length t"
  using decode_utf8_width[of "c # t" 0] by linarith

function read_string_body :: "string \<Rightarrow> (nat list \<times> string) option" where
  "read_string_body [] = None"
| "read_string_body (c # t) =
     (if c = CHR 0x22 then Some ([], t)
      else if c = CHR 0x5C
      then (case t of
              [] \<Rightarrow> None
            | e # u \<Rightarrow>
                if e = CHR ''u''
                then (case read_hex 4 0 u of
                        None \<Rightarrow> None
                      | Some (v, u') \<Rightarrow> if is_scalar v then cons_point v (read_string_body u') else None)
                else (case simple_escape e of None \<Rightarrow> None | Some v \<Rightarrow> cons_point v (read_string_body u)))
      else let r = decode_utf8 (c # t) 0
           in if \<not> u_valid r \<or> u_code_point r < 0x20 then None
              else cons_point (u_code_point r) (read_string_body (drop (u_width r) (c # t))))"
  by pat_completeness auto

termination read_string_body
  by (relation "measure length") (auto dest: read_hex_length simp: less_Suc_eq_le decode_shrinks)

definition read_string :: "string \<Rightarrow> (nat list \<times> string) option" where
  "read_string s = (case s of c # t \<Rightarrow> if c = CHR 0x22 then read_string_body t else None | [] \<Rightarrow> None)"

text \<open>The code points of a byte string, one replacement character for each byte that belongs to none.\<close>

function points :: "string \<Rightarrow> nat list" where
  "points [] = []"
| "points (c # t) =
     (let r = decode_utf8 (c # t) 0
      in (if u_valid r then u_code_point r else 0xFFFD) # points (drop (u_width r) (c # t)))"
  by pat_completeness auto

termination points
  by (relation "measure length") (auto simp: less_Suc_eq_le decode_shrinks)


declare read_string_body.simps [simp del] points.simps(2) [simp del]

lemma points_step:
  "s \<noteq> [] \<Longrightarrow> points s = (let r = decode_utf8 s 0 in (if u_valid r then u_code_point r else 0xFFFD) # points (drop (u_width r) s))"
  by (cases s) (auto simp: points.simps(2))

lemma points_utf8: "list_all is_scalar cps \<Longrightarrow> points (utf8_text cps) = cps"
proof (induction cps)
  case (Cons cp cps)
  then show ?case
    using points_step[of "encode_utf8 cp @ utf8_text cps"] by (simp add: utf8_text_def decode_encode Let_def)
qed (simp add: utf8_text_def)

lemma hex_value_digit: "n < 16 \<Longrightarrow> hex_value (hex_digit n) = Some n"
  by (auto simp: hex_value_def hex_digit_def Let_def)

lemma read_hex_four: "read_hex 4 = read_hex (Suc (Suc (Suc (Suc 0))))"
  by (simp add: eval_nat_numeral)

lemma read_hex4: "n < 65536 \<Longrightarrow> read_hex 4 0 (hex4 n @ t) = Some (n, t)"
proof -
  assume n: "n < 65536"
  have "((n div 4096 mod 16 * 16 + n div 256 mod 16) * 16 + n div 16 mod 16) * 16 + n mod 16 = n"
  proof -
    have "n div 4096 < 16" using n by simp
    moreover have "n div 4096 = n div 16 div 16 div 16" "n div 256 = n div 16 div 16" by (simp_all add: div_mult2_eq[symmetric])
    ultimately show ?thesis by (simp add: div_mult_mod_eq)
  qed
  moreover have "n div 4096 mod 16 = n div 4096" "n div 4096 < 16" using n by simp_all
  ultimately show ?thesis unfolding read_hex_four hex4_def by (simp add: hex_value_digit)
qed

lemma read_replacement: "read_hex 4 0 (''FFFD'' @ t) = Some (0xFFFD, t)"
  unfolding read_hex_four by (simp add: hex_value_def Let_def)


subsection \<open>Reading back what was written\<close>

lemma json_loop_drop: "json_loop v (i + n) = json_loop (drop i v) n"
proof (induction "length v - (i + n)" arbitrary: n rule: less_induct)
  case less
  show ?case
  proof (cases "i + n < length v")
    case True
    let ?it = "json_item (drop (i + n) v)"
    have it: "drop n (drop i v) = drop (i + n) v" by (simp add: add.commute)
    have "json_loop v (i + (n + snd ?it)) = json_loop (drop i v) (n + snd ?it)"
      using less[of "n + snd ?it"] json_item_pos[of "drop (i + n) v"] True by simp
    moreover have "n < length (drop i v)" using True by simp
    ultimately show ?thesis
      using True json_loop.simps[of v "i + n"] json_loop.simps[of "drop i v" n] it by (simp add: add.assoc)
  next
    case False
    then have "\<not> n < length (drop i v)" by simp
    with False show ?thesis using json_loop.simps[of v "i + n"] json_loop.simps[of "drop i v" n] by (simp only: if_False)
  qed
qed

lemma json_loop_step:
  "s \<noteq> [] \<Longrightarrow> json_loop s 0 = fst (json_item s) @ json_loop (drop (snd (json_item s)) s) 0"
  using json_loop.simps[of s 0] json_loop_drop[of s "snd (json_item s)" 0] by simp

lemma json_loop_Nil [simp]: "json_loop [] 0 = []"
  by (simp add: json_loop.simps)

lemma small_decode: "byte_at s 0 < 0x80 \<Longrightarrow> decode_utf8 s 0 = \<lparr>u_code_point = byte_at s 0, u_width = 1, u_valid = True\<rparr>"
  by (simp add: decode_utf8_def)

text \<open>One item is read back as one code point.\<close>

lemma read_item:
  assumes "s \<noteq> []"
  shows "read_string_body (fst (json_item s) @ t) =
      cons_point (if u_valid (decode_utf8 s 0) then u_code_point (decode_utf8 s 0) else 0xFFFD) (read_string_body t)
    \<and> snd (json_item s) = u_width (decode_utf8 s 0)"
proof -
  obtain c r where s: "s = c # r" using assms by (cases s) auto
  have b: "byte_at s 0 = of_char c" by (simp add: s byte_at_def)
  show ?thesis
  proof (cases "c \<in> {CHR 0x22, CHR 0x5C, CHR 0x08, CHR 0x0C, CHR 0x0A, CHR 0x0D, CHR 0x09}")
    case True
    then show ?thesis
      using small_decode[of s] by (auto simp: s b json_item_def read_string_body.simps simple_escape_def byte_at_def)
  next
    case False
    show ?thesis
    proof (cases "byte_at s 0 < 0x20")
      case True
      then show ?thesis
        using False small_decode[of s] read_hex4[of "byte_at s 0" t]
        by (auto simp: s json_item_def read_string_body.simps is_scalar_def Let_def)
    next
      case ge: False
      show ?thesis
      proof (cases "u_valid (decode_utf8 s 0)")
        case True
        have d: "is_scalar (u_code_point (decode_utf8 s 0))" "encode_utf8 (u_code_point (decode_utf8 s 0)) = take (u_width (decode_utf8 s 0)) s"
            "u_width (decode_utf8 s 0) \<le> length s"
          using encode_decode[OF assms True] by (simp_all add: decodes_scalar_def Let_def)
        let ?r = "decode_utf8 s 0"
        have item: "json_item s = (take (u_width ?r) s, u_width ?r)"
          using False ge True json_sequence_decode[OF assms] by (simp add: json_item_def s Let_def)
        have h: "take (u_width ?r) s @ t = c # (take (u_width ?r - 1) r @ t)"
          using decode_utf8_width[of s 0] by (cases "u_width ?r") (simp_all add: s)
        have dt: "decode_utf8 (c # (take (u_width ?r - 1) r @ t)) 0 = \<lparr>u_code_point = u_code_point ?r, u_width = u_width ?r, u_valid = True\<rparr>"
          using decode_encode[OF d(1), of t] d(2,3) h by simp
        have cp: "\<not> u_code_point ?r < 0x20"
        proof
          assume "u_code_point ?r < 0x20"
          then have "encode_utf8 (u_code_point ?r) = [char_of (u_code_point ?r)]" by (simp add: encode_utf8_def)
          then have "c = char_of (u_code_point ?r)" using d(2) h decode_utf8_width[of s 0] by (cases "u_width ?r") (simp_all add: s)
          then show False using ge \<open>u_code_point ?r < 0x20\<close> by (simp add: b)
        qed
        have "drop (u_width ?r) (take (u_width ?r) s @ t) = t" using d(3) by simp
        then show ?thesis
          unfolding item fst_conv snd_conv h using False cp True dt
          by (subst read_string_body.simps) (simp add: Let_def)
      next
        case False2: False
        then show ?thesis
          using False ge json_sequence_decode[OF assms] read_replacement[of t]
          by (auto simp: s json_item_def read_string_body.simps is_scalar_def Let_def decode_utf8_def utf8_invalid_def split: if_splits)
      qed
    qed
  qed
qed

lemma read_written: "read_string_body (json_loop s 0 @ CHR 0x22 # t) = Some (points s, t)"
proof (induction s rule: points.induct)
  case 1
  then show ?case by (simp add: read_string_body.simps)
next
  case (2 c r)
  let ?s = "c # r" and ?d = "decode_utf8 (c # r) 0"
  have "read_string_body (json_loop ?s 0 @ CHR 0x22 # t) =
      cons_point (if u_valid ?d then u_code_point ?d else 0xFFFD) (read_string_body (json_loop (drop (u_width ?d) ?s) 0 @ CHR 0x22 # t))"
    using json_loop_step[of ?s] read_item[of ?s "json_loop (drop (u_width ?d) ?s) 0 @ CHR 0x22 # t"] by simp
  then show ?case using 2 by (simp add: cons_point_def points.simps(2) Let_def)
qed

lemma read_append_json_string: "read_string (append_json_string s @ t) = Some (points s, t)"
  using read_written[of s t] by (simp add: read_string_def append_json_string_def)

subsection \<open>The inventory is read back\<close>

datatype jval = VStr "nat list" | VNum nat | VBool bool | VArr "nat list list"

fun read_items :: "nat \<Rightarrow> string \<Rightarrow> (nat list list \<times> string) option" where
  "read_items 0 s = None"
| "read_items (Suc n) s =
     (case read_string s of
        None \<Rightarrow> None
      | Some (p, []) \<Rightarrow> None
      | Some (p, c # u) \<Rightarrow>
          if c = CHR '']'' then Some ([p], u)
          else if c = CHR '','' then map_option (\<lambda>(ps, v). (p # ps, v)) (read_items n u) else None)"

definition read_array :: "string \<Rightarrow> (nat list list \<times> string) option" where
  "read_array s = (case s of [] \<Rightarrow> None | c # u \<Rightarrow> if c = CHR '']'' then Some ([], u) else read_items (length s) s)"

definition read_value :: "string \<Rightarrow> (jval \<times> string) option" where
  "read_value s =
     (if starts_with s ''['' then map_option (\<lambda>(ps, u). (VArr ps, u)) (read_array (tl s))
      else if starts_with s ''true'' then Some (VBool True, drop 4 s)
      else if starts_with s ''false'' then Some (VBool False, drop 5 s)
      else if s \<noteq> [] \<and> is_digit (hd s) then Some (VNum (dec_value 0 (takeWhile is_digit s)), dropWhile is_digit s)
      else map_option (\<lambda>(p, u). (VStr p, u)) (read_string s))"

fun read_members :: "nat \<Rightarrow> string \<Rightarrow> ((nat list \<times> jval) list \<times> string) option" where
  "read_members 0 s = None"
| "read_members (Suc n) s =
     (case read_string s of
        Some (k, c # t) \<Rightarrow>
          if c \<noteq> CHR '':'' then None
          else (case read_value t of
            Some (v, d # u) \<Rightarrow>
              if d = CHR ''}'' then Some ([(k, v)], u)
              else if d = CHR '','' then map_option (\<lambda>(ms, w). ((k, v) # ms, w)) (read_members n u) else None
          | _ \<Rightarrow> None)
      | _ \<Rightarrow> None)"

definition read_object :: "string \<Rightarrow> ((nat list \<times> jval) list \<times> string) option" where
  "read_object s = (if starts_with s ''{'' then read_members (length s) (tl s) else None)"

text \<open>The texts of values and members, and what they denote.\<close>

datatype jtext = TStr string | TNum nat | TBool bool | TArr "string list"

fun value_text :: "jtext \<Rightarrow> string" where
  "value_text (TStr s) = append_json_string s"
| "value_text (TNum n) = show_nat n"
| "value_text (TBool b) = json_bool b"
| "value_text (TArr ss) = append_json_string_array ss"

fun denotes :: "jtext \<Rightarrow> jval" where
  "denotes (TStr s) = VStr (points s)"
| "denotes (TNum n) = VNum n"
| "denotes (TBool b) = VBool b"
| "denotes (TArr ss) = VArr (map points ss)"

definition member_text :: "string \<times> jtext \<Rightarrow> string" where
  "member_text m = append_json_string (fst m) @ '':'' @ value_text (snd m)"

lemma append_json_string_head: "\<exists>t. append_json_string s = CHR 0x22 # t"
  by (simp add: append_json_string_def)

lemma read_items_written:
  "ss \<noteq> [] \<Longrightarrow> length ss \<le> n \<Longrightarrow> read_items n (join_span (map append_json_string ss) CHR '','' @ CHR '']'' # t) = Some (map points ss, t)"
proof (induction ss arbitrary: n)
  case (Cons s ss)
  obtain m where n: "n = Suc m" using Cons.prems(2) by (cases n) auto
  show ?case
  proof (cases ss)
    case Nil
    then show ?thesis by (simp add: n read_append_json_string)
  next
    case (Cons s' ss')
    then show ?thesis using Cons.IH[of m] Cons.prems n by (simp add: read_append_json_string)
  qed
qed simp

lemma join_span_length: "(\<And>x. x \<in> set xs \<Longrightarrow> x \<noteq> []) \<Longrightarrow> length xs \<le> length (join_span xs c)"
proof (induction xs c rule: join_span.induct)
  case (2 x sep)
  then show ?case by (cases x) auto
next
  case (3 x y xs sep)
  then show ?case by (auto simp: Suc_le_eq intro: le_less_trans)
qed simp

lemma read_array_written: "read_array (join_span (map append_json_string ss) CHR '','' @ CHR '']'' # t) = Some (map points ss, t)"
proof (cases ss)
  case Nil
  then show ?thesis by (simp add: read_array_def)
next
  case (Cons s r)
  obtain u where u: "join_span (map append_json_string ss) CHR '','' = CHR 0x22 # u"
    using append_json_string_head[of s] Cons by (cases r) auto
  have "length (map append_json_string ss) \<le> length (join_span (map append_json_string ss) CHR '','')"
    by (rule join_span_length) (auto simp: append_json_string_def)
  then have "length ss \<le> length (join_span (map append_json_string ss) CHR '','' @ CHR '']'' # t)" by simp
  from read_items_written[OF _ this, of t] Cons have "read_items (length (CHR 0x22 # u @ CHR '']'' # t)) (CHR 0x22 # u @ CHR '']'' # t) = Some (map points ss, t)"
    unfolding u by simp
  then show ?thesis unfolding u read_array_def by (simp del: read_items.simps)
qed

lemma digits_span:
  assumes "\<not> is_digit d"
  shows "takeWhile is_digit (show_nat n @ d # t) = show_nat n" "dropWhile is_digit (show_nat n @ d # t) = d # t"
  using show_nat_digits[of n] assms by (simp_all add: list_all_iff takeWhile_append dropWhile_append)

lemma show_nat_head: "\<exists>d u. show_nat n = d # u \<and> is_digit d"
  using show_nat_digits[of n] show_nat_nonempty[of n] by (cases "show_nat n") auto

lemma read_value_written:
  assumes "d \<in> {CHR ''}'', CHR '',''}"
  shows "read_value (value_text v @ d # t) = Some (denotes v, d # t)"
proof (cases v)
  case (TStr s)
  have "\<not> is_digit CHR 0x22" by (simp add: is_digit_def)
  then show ?thesis using TStr read_append_json_string[of s "d # t"] append_json_string_head[of s]
    by (auto simp: read_value_def starts_with_def)
next
  case (TNum n)
  obtain e u where e: "show_nat n = e # u" "is_digit e" using show_nat_head by blast
  have "e \<noteq> CHR ''['' \<and> e \<noteq> CHR ''t'' \<and> e \<noteq> CHR ''f''" using e(2) by (auto simp: is_digit_def)
  moreover have "\<not> is_digit d" using assms by (auto simp: is_digit_def)
  ultimately show ?thesis
    using TNum e digits_span[of d n t] dec_value_show_nat[of n] by (simp add: read_value_def starts_with_def)
next
  case (TBool b)
  then show ?thesis by (cases b) (simp_all add: read_value_def starts_with_def json_bool_def)
next
  case (TArr ss)
  then show ?thesis
    using read_array_written[of ss "d # t"] by (simp add: read_value_def starts_with_def append_json_string_array_def)
qed

lemma read_members_written:
  "ms \<noteq> [] \<Longrightarrow> length ms \<le> n \<Longrightarrow> read_members n (join_span (map member_text ms) CHR '','' @ CHR ''}'' # t)
     = Some (map (\<lambda>(k, v). (points k, denotes v)) ms, t)"
proof (induction ms arbitrary: n)
  case (Cons m ms)
  obtain l where n: "n = Suc l" using Cons.prems(2) by (cases n) auto
  obtain k v where m: "m = (k, v)" by fastforce
  show ?case
  proof (cases ms)
    case Nil
    then show ?thesis by (simp add: n m member_text_def read_append_json_string read_value_written)
  next
    case (Cons m' ms')
    then show ?thesis
      using Cons.IH[of l] Cons.prems n by (simp add: m member_text_def read_append_json_string read_value_written)
  qed
qed simp

lemma read_object_written:
  assumes "ms \<noteq> []"
  shows "read_object (''{'' @ join_span (map member_text ms) CHR '','' @ ''}'' @ t) = Some (map (\<lambda>(k, v). (points k, denotes v)) ms, t)"
proof -
  have "length (map member_text ms) \<le> length (join_span (map member_text ms) CHR '','')"
    by (rule join_span_length) (auto simp: member_text_def)
  then have "length ms \<le> length (''{'' @ join_span (map member_text ms) CHR '','' @ ''}'' @ t)" by simp
  from read_members_written[OF assms this, of t] show ?thesis by (simp add: read_object_def starts_with_def)
qed


lemma points_ascii: "list_all (\<lambda>c. of_char c < (128::nat)) s \<Longrightarrow> points s = map of_char s"
proof (induction s)
  case (Cons c s)
  then show ?case by (simp add: points.simps(2) decode_utf8_def byte_at_def)
qed simp

lemma json_loop_plain:
  "list_all (\<lambda>c. 32 \<le> (of_char c::nat) \<and> of_char c < (128::nat) \<and> c \<noteq> CHR 0x22 \<and> c \<noteq> CHR 0x5C) s \<Longrightarrow> json_loop s 0 = s"
proof (induction s)
  case (Cons c s)
  have "c \<notin> {CHR 0x08, CHR 0x0C, CHR 0x0A, CHR 0x0D, CHR 0x09}" using Cons.prems by auto
  then have "json_item (c # s) = ([c], 1)"
    using Cons.prems json_sequence_decode[of "c # s"] small_decode[of "c # s"] by (simp add: json_item_def byte_at_def Let_def)
  then show ?case using json_loop_step[of "c # s"] Cons by simp
qed simp

definition inventory_members :: "Case \<Rightarrow> (string \<times> jtext) list" where
  "inventory_members c =
     [(''name'', TStr (c_name c)), (''file'', TStr (c_file c)), (''line'', TNum (c_line c)), (''kind'', TStr (inventory_kind c)),
      (''tags'', TArr (c_tags c)), (''requirements'', TArr (c_requirements c)), (''owner'', TStr (c_owner c)),
      (''skipped'', TBool (c_should_skip c)), (''skipReason'', TStr (c_skip_reason c)), (''fixture'', TStr (c_fixture c)),
      (''fixtureLifetime'', TStr (inventory_fixture_lifetime (c_fixture_lifetime c))), (''suite'', TStr (c_suite c)),
      (''async'', TBool (c_is_async c)), (''baseline'', TBool (c_is_baseline c)), (''itemsPerCall'', TNum (c_items_per_call c))]"

lemma inventory_text: "format_inventory_case_json c = ''{'' @ join_span (map member_text (inventory_members c)) CHR '','' @ ''}''"
proof -
  have "q ''line'' = append_json_string ''line''" "q ''skipped'' = append_json_string ''skipped''" "q ''async'' = append_json_string ''async''"
    "q ''baseline'' = append_json_string ''baseline''" "q ''itemsPerCall'' = append_json_string ''itemsPerCall''"
    by (simp_all add: q_def append_json_string_def json_loop_plain)
  then show ?thesis by (simp add: format_inventory_case_json_def inventory_members_def member_text_def append_json_key_def)
qed

text \<open>
  C28. The inventory printed by \<^verbatim>\<open>--list-json\<close> is JSON that says what the case is, whatever bytes
  its strings hold: a JSON reader gets exactly the fifteen members in order, each string as the
  code points of the original (every byte that is not part of well-formed UTF-8 read as U+FFFD),
  the lists of tags and requirements element by element, and the numbers and flags unchanged.
\<close>

theorem inventory_roundtrip:
  "read_object (format_inventory_case_json c @ t) =
     Some (map (\<lambda>(k, v). (map of_char k, v))
       [(''name'', VStr (points (c_name c))), (''file'', VStr (points (c_file c))), (''line'', VNum (c_line c)),
        (''kind'', VStr (map of_char (inventory_kind c))), (''tags'', VArr (map points (c_tags c))),
        (''requirements'', VArr (map points (c_requirements c))), (''owner'', VStr (points (c_owner c))),
        (''skipped'', VBool (c_should_skip c)), (''skipReason'', VStr (points (c_skip_reason c))),
        (''fixture'', VStr (points (c_fixture c))),
        (''fixtureLifetime'', VStr (map of_char (inventory_fixture_lifetime (c_fixture_lifetime c)))),
        (''suite'', VStr (points (c_suite c))), (''async'', VBool (c_is_async c)), (''baseline'', VBool (c_is_baseline c)),
        (''itemsPerCall'', VNum (c_items_per_call c))], t)"
proof -
  have k: "points (inventory_kind c) = map of_char (inventory_kind c)" by (rule points_ascii) (simp add: inventory_kind_def)
  have l: "points (inventory_fixture_lifetime lt) = map of_char (inventory_fixture_lifetime lt)" for lt
    by (rule points_ascii, cases lt) simp_all
  have "inventory_members c \<noteq> []" by (simp add: inventory_members_def)
  from read_object_written[OF this, of t] show ?thesis
    unfolding inventory_text append_assoc by (simp add: inventory_members_def points_ascii k l)
qed

text \<open>
  The two UTF-8 validators of the runner agree: the one of the JSON writer, which assembles
  the code point and then rejects overlong forms, surrogates and out-of-range values, accepts a
  sequence of \<open>n\<close> bytes at the start of a text iff the one of the XML reports does.
\<close>

theorem json_validator_agrees:
  "json_sequence (c # s) = (if u_valid (decode_utf8 (c # s) 0) then Some (u_width (decode_utf8 (c # s) 0)) else None)"
  by (rule json_sequence_decode) simp

end
