(* ===== verification/Selector.thy ===== *)
theory Selector
  imports Case_Api Cli
begin

section \<open>Case selection: \<^verbatim>\<open>src/runner_selector.cpp\<close>\<close>

text \<open>
  The wildcard matcher, the resolution of \<^verbatim>\<open>--run\<close>, \<^verbatim>\<open>--filter\<close> and
  \<^verbatim>\<open>--kind\<close>, the death-test filter and the split into tests, benchmarks and
  jitter cases.  The matcher's loop keeps the four variables of the source; not returning
  would be \<^term>\<open>None\<close>, and that it always returns is a theorem below.
\<close>

definition case_is_test :: "Case \<Rightarrow> bool" where
  "case_is_test c \<longleftrightarrow> \<not> c_is_benchmark c \<and> \<not> c_is_jitter c"

fun case_matches_kind :: "Case \<Rightarrow> KindFilter \<Rightarrow> bool" where
  "case_matches_kind c KindAll = True"
| "case_matches_kind c KindTest = case_is_test c"
| "case_matches_kind c KindBench = c_is_benchmark c"
| "case_matches_kind c KindJitter = c_is_jitter c"

fun kind_to_string :: "KindFilter \<Rightarrow> string" where
  "kind_to_string KindAll = ''all''"
| "kind_to_string KindTest = ''test''"
| "kind_to_string KindBench = ''bench''"
| "kind_to_string KindJitter = ''jitter''"

subsection \<open>The wildcard matcher\<close>

abbreviation STAR :: char where "STAR \<equiv> CHR ''*''"
abbreviation QMARK :: char where "QMARK \<equiv> CHR ''?''"

fun skip_stars :: "string \<Rightarrow> string" where
  "skip_stars [] = []"
| "skip_stars (c # cs) = (if c = STAR then skip_stars cs else c # cs)"

partial_function (option) wildcard_loop ::
  "string \<Rightarrow> string \<Rightarrow> nat \<Rightarrow> nat \<Rightarrow> nat option \<Rightarrow> nat \<Rightarrow> bool option" where
  "wildcard_loop text pattern ti pidx star mark =
     (if ti < length text then
        if pidx < length pattern \<and> (pattern ! pidx = QMARK \<or> pattern ! pidx = text ! ti) then
          wildcard_loop text pattern (ti + 1) (pidx + 1) star mark
        else if pidx < length pattern \<and> pattern ! pidx = STAR then
          wildcard_loop text pattern ti (pidx + 1) (Some pidx) ti
        else (case star of
                Some st \<Rightarrow> wildcard_loop text pattern (mark + 1) (st + 1) star (mark + 1)
              | None \<Rightarrow> Some False)
      else Some (skip_stars (drop pidx pattern) = []))"

declare wildcard_loop.simps [code]

definition wildcard_match :: "string \<Rightarrow> string \<Rightarrow> bool option" where
  "wildcard_match text pattern = wildcard_loop text pattern 0 0 None 0"

text \<open>
  The reference: \<open>*\<close> stands for any string, \<open>?\<close> for any one character, any
  other character for itself.
\<close>

fun glob :: "string \<Rightarrow> string \<Rightarrow> bool" where
  "glob [] [] = True"
| "glob [] (c # t) = False"
| "glob (x # p) [] = (x = STAR \<and> glob p [])"
| "glob (x # p) (c # t) =
     (if x = STAR then glob p (c # t) \<or> glob (x # p) t
      else (x = QMARK \<or> x = c) \<and> glob p t)"

lemma glob_Nil: "glob p [] \<longleftrightarrow> skip_stars p = []"
  by (induction p) auto

lemma glob_star: "glob (STAR # p) t \<longleftrightarrow> (\<exists>k\<le>length t. glob p (drop k t))"
proof (induction t)
  case Nil
  then show ?case by simp
next
  case (Cons c t)
  have "(\<exists>k\<le>length (c # t). glob p (drop k (c # t)))
      \<longleftrightarrow> glob p (c # t) \<or> (\<exists>k\<le>length t. glob p (drop k t))" (is "?L \<longleftrightarrow> ?R")
  proof
    assume ?L
    then obtain k where "k \<le> Suc (length t)" "glob p (drop k (c # t))" by auto
    then show ?R by (cases k) auto
  next
    assume ?R
    then show ?L by (metis drop0 drop_Suc_Cons le0 length_Cons Suc_le_mono)
  qed
  then show ?case using Cons by simp
qed

lemma glob_segment:
  "STAR \<notin> set seg \<Longrightarrow> glob (seg @ q) u \<Longrightarrow> length seg \<le> length u \<and> glob q (drop (length seg) u)"
proof (induction seg arbitrary: u)
  case (Cons x seg)
  then show ?case by (cases u) auto
qed simp

text \<open>
  The loop invariant: the pattern between the last \<open>*\<close> and the current position has
  matched the text between the mark and the current position.
\<close>

definition segment_matched :: "string \<Rightarrow> string \<Rightarrow> nat \<Rightarrow> nat \<Rightarrow> nat \<Rightarrow> nat \<Rightarrow> bool" where
  "segment_matched t p ti pidx st mark \<longleftrightarrow>
     st < pidx \<and> pidx \<le> length p \<and> p ! st = STAR \<and> mark \<le> ti \<and> ti - mark = pidx - Suc st
     \<and> (\<forall>j < pidx - Suc st. p ! (Suc st + j) = QMARK \<or> p ! (Suc st + j) = t ! (mark + j))"

definition loop_inv :: "string \<Rightarrow> string \<Rightarrow> nat \<Rightarrow> nat \<Rightarrow> nat option \<Rightarrow> nat \<Rightarrow> bool" where
  "loop_inv t p ti pidx star mark \<longleftrightarrow>
     ti \<le> length t \<and> (case star of None \<Rightarrow> True | Some st \<Rightarrow> segment_matched t p ti pidx st mark)"

text \<open>What remains to be decided: a match from here, or one that restarts after the last \<open>*\<close>.\<close>

definition loop_goal :: "string \<Rightarrow> string \<Rightarrow> nat \<Rightarrow> nat \<Rightarrow> nat option \<Rightarrow> nat \<Rightarrow> bool" where
  "loop_goal t p ti pidx star mark \<longleftrightarrow>
     glob (drop pidx p) (drop ti t)
     \<or> (\<exists>st k. star = Some st \<and> mark < k \<and> k \<le> length t \<and> glob (drop (Suc st) p) (drop k t))"

lemma segment_matched_split:
  assumes "segment_matched t p ti pidx st mark"
  shows "drop (Suc st) p = take (pidx - Suc st) (drop (Suc st) p) @ drop pidx p"
    and "length (take (pidx - Suc st) (drop (Suc st) p)) = ti - mark"
  using assms unfolding segment_matched_def
  by (metis append_take_drop_id drop_drop le_add_diff_inverse2 less_eq_Suc_le, auto)

lemma segment_matched_no_star:
  assumes "segment_matched t p ti pidx st mark" and "STAR \<notin> set t" and "ti \<le> length t"
  shows "STAR \<notin> set (take (pidx - Suc st) (drop (Suc st) p))"
proof
  assume "STAR \<in> set (take (pidx - Suc st) (drop (Suc st) p))"
  then obtain j where j: "j < pidx - Suc st" "p ! (Suc st + j) = STAR"
    using assms(1) by (auto simp: in_set_conv_nth segment_matched_def)
  then have "t ! (mark + j) = STAR" and "mark + j < length t"
    using assms(1,3) unfolding segment_matched_def by force+
  then show False using assms(2) nth_mem by metis
qed

lemma restart_reaches:
  assumes "segment_matched t p ti pidx st mark" and "STAR \<notin> set t" and "ti \<le> length t"
    and "mark < k" and "k \<le> length t" and "glob (drop (Suc st) p) (drop k t)"
  shows "\<exists>k'. ti < k' \<and> k' \<le> length t \<and> glob (drop pidx p) (drop k' t)"
proof -
  let ?seg = "take (pidx - Suc st) (drop (Suc st) p)"
  have len: "length ?seg = ti - mark" using segment_matched_split(2)[OF assms(1)] .
  have "glob (?seg @ drop pidx p) (drop k t)"
    using assms(6) segment_matched_split(1)[OF assms(1)] by simp
  then have "length ?seg \<le> length (drop k t)" and "glob (drop pidx p) (drop (length ?seg) (drop k t))"
    using glob_segment[OF segment_matched_no_star[OF assms(1-3)]] by blast+
  moreover have "mark \<le> ti" using assms(1) by (simp add: segment_matched_def)
  ultimately show ?thesis
    using assms(4,5) unfolding len
    by (intro exI[of _ "k + (ti - mark)"]) (auto simp: add.commute)
qed

lemma drop_nth_Cons: "i < length xs \<Longrightarrow> drop i xs = xs ! i # drop (Suc i) xs"
  by (simp add: Cons_nth_drop_Suc)

lemma segment_matched_extend:
  assumes "segment_matched t p ti pidx st mark" and "pidx < length p"
    and "p ! pidx = QMARK \<or> p ! pidx = t ! ti"
  shows "segment_matched t p (Suc ti) (Suc pidx) st mark"
proof -
  have eq: "Suc st + (pidx - Suc st) = pidx" "mark + (pidx - Suc st) = ti"
    using assms(1) by (auto simp: segment_matched_def)
  have "p ! (Suc st + j) = QMARK \<or> p ! (Suc st + j) = t ! (mark + j)" if "j < Suc pidx - Suc st" for j
  proof (cases "j = pidx - Suc st")
    case True
    then show ?thesis using assms(3) eq by simp
  next
    case False
    then have "j < pidx - Suc st" using that by simp
    then show ?thesis using assms(1) by (simp add: segment_matched_def)
  qed
  then show ?thesis using assms(1,2) unfolding segment_matched_def by auto
qed

text \<open>One lemma per branch of the loop body.\<close>

lemma step_match:
  assumes "loop_inv t p ti pidx star mark" and "ti < length t" and "pidx < length p"
    and "p ! pidx = QMARK \<or> p ! pidx = t ! ti"
  shows "loop_inv t p (Suc ti) (Suc pidx) star mark"
    and "loop_goal t p (Suc ti) (Suc pidx) star mark \<Longrightarrow> loop_goal t p ti pidx star mark"
    and "STAR \<notin> set t \<Longrightarrow> loop_goal t p ti pidx star mark \<Longrightarrow> loop_goal t p (Suc ti) (Suc pidx) star mark"
proof -
  show "loop_inv t p (Suc ti) (Suc pidx) star mark"
    using assms by (auto simp: loop_inv_def segment_matched_extend split: option.splits)
  have p: "drop pidx p = p ! pidx # drop (Suc pidx) p" and t: "drop ti t = t ! ti # drop (Suc ti) t"
    using assms(2,3) by (simp_all add: drop_nth_Cons)
  have "glob (drop (Suc pidx) p) (drop (Suc ti) t) \<Longrightarrow> glob (drop pidx p) (drop ti t)"
  proof -
    assume g: "glob (drop (Suc pidx) p) (drop (Suc ti) t)"
    have "glob (STAR # drop (Suc pidx) p) (drop (Suc ti) t)"
      using g by (auto simp: glob_star intro!: exI[of _ 0])
    then show ?thesis unfolding p t using g assms(4) by auto
  qed
  then show "loop_goal t p (Suc ti) (Suc pidx) star mark \<Longrightarrow> loop_goal t p ti pidx star mark"
    by (auto simp: loop_goal_def)
  assume "STAR \<notin> set t"
  then have "p ! pidx \<noteq> STAR" using assms(2,4) nth_mem by fastforce
  then have "glob (drop pidx p) (drop ti t) \<Longrightarrow> glob (drop (Suc pidx) p) (drop (Suc ti) t)"
    unfolding p t by simp
  then show "loop_goal t p ti pidx star mark \<Longrightarrow> loop_goal t p (Suc ti) (Suc pidx) star mark"
    by (auto simp: loop_goal_def)
qed

lemma step_star_goal:
  assumes "ti \<le> length t" and "pidx < length p" and "p ! pidx = STAR"
  shows "loop_goal t p ti (Suc pidx) (Some pidx) ti \<longleftrightarrow> glob (drop pidx p) (drop ti t)"
proof -
  have "glob (drop pidx p) (drop ti t) \<longleftrightarrow> (\<exists>k\<le>length t - ti. glob (drop (Suc pidx) p) (drop (k + ti) t))"
    using assms by (simp add: drop_nth_Cons glob_star)
  also have "\<dots> \<longleftrightarrow> (\<exists>k. ti \<le> k \<and> k \<le> length t \<and> glob (drop (Suc pidx) p) (drop k t))"
    using assms(1) by (metis le_add2 le_add_diff_inverse2 le_diff_conv2)
  also have "\<dots> \<longleftrightarrow> loop_goal t p ti (Suc pidx) (Some pidx) ti"
    unfolding loop_goal_def using assms(1) by (auto simp: le_less)
  finally show ?thesis by simp
qed

lemma step_star:
  assumes "loop_inv t p ti pidx star mark" and "pidx < length p" and "p ! pidx = STAR"
  shows "loop_inv t p ti (Suc pidx) (Some pidx) ti"
    and "loop_goal t p ti (Suc pidx) (Some pidx) ti \<Longrightarrow> loop_goal t p ti pidx star mark"
    and "STAR \<notin> set t \<Longrightarrow> loop_goal t p ti pidx star mark \<Longrightarrow> loop_goal t p ti (Suc pidx) (Some pidx) ti"
proof -
  have ti: "ti \<le> length t" using assms(1) by (simp add: loop_inv_def)
  show "loop_inv t p ti (Suc pidx) (Some pidx) ti"
    using assms ti by (simp add: loop_inv_def segment_matched_def)
  show "loop_goal t p ti (Suc pidx) (Some pidx) ti \<Longrightarrow> loop_goal t p ti pidx star mark"
    using step_star_goal[OF ti assms(2,3)] by (simp add: loop_goal_def)
  assume ns: "STAR \<notin> set t" and g: "loop_goal t p ti pidx star mark"
  have "glob (drop pidx p) (drop ti t)" if restart: "star = Some st" "mark < k" "k \<le> length t" "glob (drop (Suc st) p) (drop k t)" for st k
  proof -
    have "segment_matched t p ti pidx st mark"
      using assms(1) restart(1) by (simp add: loop_inv_def)
    then obtain k' where k': "ti < k'" "k' \<le> length t" "glob (drop pidx p) (drop k' t)"
      using restart_reaches[OF _ ns ti restart(2-4)] by blast
    have pp: "drop pidx p = STAR # drop (Suc pidx) p"
      using assms(2,3) by (simp add: drop_nth_Cons)
    from k'(3) obtain k'' where "k'' \<le> length t - k'" "glob (drop (Suc pidx) p) (drop (k'' + k') t)"
      unfolding pp by (auto simp: glob_star)
    then show ?thesis
      unfolding pp glob_star using k'(1,2) by (intro exI[of _ "k'' + k' - ti"]) auto
  qed
  then show "loop_goal t p ti (Suc pidx) (Some pidx) ti"
    using g step_star_goal[OF ti assms(2,3)] by (auto simp: loop_goal_def)
qed

lemma step_mismatch:
  assumes "ti < length t" and "\<not> (pidx < length p \<and> (p ! pidx = QMARK \<or> p ! pidx = t ! ti))"
    and "\<not> (pidx < length p \<and> p ! pidx = STAR)"
  shows "\<not> glob (drop pidx p) (drop ti t)"
proof (cases "pidx < length p")
  case True
  then show ?thesis using assms by (simp add: drop_nth_Cons)
next
  case False
  then show ?thesis using assms(1) by (simp add: drop_nth_Cons[of ti])
qed

lemma ex_above_Suc: "(\<exists>k>m. P k) \<longleftrightarrow> P (Suc m) \<or> (\<exists>k>Suc m. P k)"
proof
  assume "\<exists>k>m. P k"
  then obtain k where k: "m < k" "P k" by blast
  then show "P (Suc m) \<or> (\<exists>k>Suc m. P k)" by (cases "k = Suc m") (use Suc_lessI in blast)+
qed (auto intro: Suc_lessD)

lemma step_back:
  assumes "loop_inv t p ti pidx (Some st) mark" and "ti < length t"
    and "\<not> glob (drop pidx p) (drop ti t)"
  shows "loop_inv t p (Suc mark) (Suc st) (Some st) (Suc mark)"
    and "loop_goal t p (Suc mark) (Suc st) (Some st) (Suc mark) \<longleftrightarrow> loop_goal t p ti pidx (Some st) mark"
proof -
  have "mark \<le> ti" using assms(1) by (simp add: loop_inv_def segment_matched_def)
  then show "loop_inv t p (Suc mark) (Suc st) (Some st) (Suc mark)"
    using assms(1,2) by (auto simp: loop_inv_def segment_matched_def)
  have "Suc mark \<le> length t" using \<open>mark \<le> ti\<close> assms(2) by simp
  then show "loop_goal t p (Suc mark) (Suc st) (Some st) (Suc mark) \<longleftrightarrow> loop_goal t p ti pidx (Some st) mark"
    using assms(3) ex_above_Suc[of mark "\<lambda>k. k \<le> length t \<and> glob (drop (Suc st) p) (drop k t)"]
    unfolding loop_goal_def by auto
qed

lemma step_end:
  assumes "loop_inv t p ti pidx star mark" and "\<not> ti < length t"
  shows "skip_stars (drop pidx p) = [] \<Longrightarrow> loop_goal t p ti pidx star mark"
    and "STAR \<notin> set t \<Longrightarrow> loop_goal t p ti pidx star mark \<Longrightarrow> skip_stars (drop pidx p) = []"
proof -
  have ti: "ti = length t" using assms by (auto simp: loop_inv_def)
  show "skip_stars (drop pidx p) = [] \<Longrightarrow> loop_goal t p ti pidx star mark"
    by (simp add: loop_goal_def ti glob_Nil)
  assume "STAR \<notin> set t" and "loop_goal t p ti pidx star mark"
  then show "skip_stars (drop pidx p) = []"
    using assms(1) restart_reaches[of t p ti pidx _ mark] ti
    by (fastforce simp: loop_goal_def loop_inv_def glob_Nil)
qed

text \<open>
  The measure of the loop: a new \<open>*\<close> lies further right in the pattern, a restart moves
  the mark right, a matched character moves the text position right.
\<close>

definition loop_measure :: "string \<Rightarrow> string \<Rightarrow> ((nat option \<times> nat \<times> nat) \<times> (nat option \<times> nat \<times> nat)) set" where
  "loop_measure t p =
     measures [\<lambda>(star, mark, ti). case star of None \<Rightarrow> Suc (length p) | Some st \<Rightarrow> length p - st,
               \<lambda>(star, mark, ti). length t - mark, \<lambda>(star, mark, ti). length t - ti]"

lemma wf_loop_measure: "wf (loop_measure t p)"
  by (simp add: loop_measure_def)

lemma wildcard_loop_total:
  "loop_inv t p ti pidx star mark \<Longrightarrow>
     \<exists>b. wildcard_loop t p ti pidx star mark = Some b
       \<and> (b \<longrightarrow> loop_goal t p ti pidx star mark)
       \<and> (STAR \<notin> set t \<longrightarrow> loop_goal t p ti pidx star mark \<longrightarrow> b)"
proof (induction "(star, mark, ti)" arbitrary: star mark ti pidx rule: wf_induct_rule[OF wf_loop_measure[of t p]])
  case (1 star mark ti pidx)
  note inv = \<open>loop_inv t p ti pidx star mark\<close>
  consider (match) "ti < length t" "pidx < length p" "p ! pidx = QMARK \<or> p ! pidx = t ! ti"
    | (star) "ti < length t" "pidx < length p" "p ! pidx = STAR" "\<not> (p ! pidx = QMARK \<or> p ! pidx = t ! ti)"
    | (mismatch) "ti < length t" "\<not> (pidx < length p \<and> (p ! pidx = QMARK \<or> p ! pidx = t ! ti))"
        "\<not> (pidx < length p \<and> p ! pidx = STAR)"
    | (fin) "\<not> ti < length t"
    by blast
  then show ?case
  proof cases
    case match
    have eq: "wildcard_loop t p ti pidx star mark = wildcard_loop t p (Suc ti) (Suc pidx) star mark"
      by (subst wildcard_loop.simps) (simp add: match)
    have "((star, mark, Suc ti), (star, mark, ti)) \<in> loop_measure t p"
      using match(1) by (simp add: loop_measure_def)
    note IH = 1(1)[OF this step_match(1)[OF inv match]]
    show ?thesis unfolding eq using IH step_match(2,3)[OF inv match] by blast
  next
    case star
    have eq: "wildcard_loop t p ti pidx star mark = wildcard_loop t p ti (Suc pidx) (Some pidx) ti"
      by (subst wildcard_loop.simps) (use star in simp)
    have "((Some pidx, ti, ti), (star, mark, ti)) \<in> loop_measure t p"
      using inv star(2) by (auto simp: loop_measure_def loop_inv_def segment_matched_def split: option.splits)
    note IH = 1(1)[OF this step_star(1)[OF inv star(2,3)]]
    show ?thesis unfolding eq using IH step_star(2,3)[OF inv star(2,3)] by blast
  next
    case mismatch
    note ng = step_mismatch[OF mismatch]
    show ?thesis
    proof (cases star)
      case None
      have "wildcard_loop t p ti pidx star mark = Some False"
        by (subst wildcard_loop.simps) (use mismatch None in auto)
      then show ?thesis using ng None by (auto simp: loop_goal_def)
    next
      case (Some st)
      have eq: "wildcard_loop t p ti pidx star mark = wildcard_loop t p (Suc mark) (Suc st) (Some st) (Suc mark)"
        by (subst wildcard_loop.simps) (use mismatch Some in auto)
      have "mark \<le> ti" using inv Some by (simp add: loop_inv_def segment_matched_def)
      then have m: "((Some st, Suc mark, Suc mark), (star, mark, ti)) \<in> loop_measure t p"
        using mismatch(1) Some by (auto simp: loop_measure_def)
      note inv' = inv[unfolded Some]
      note IH = 1(1)[OF m step_back(1)[OF inv' mismatch(1) ng]]
      show ?thesis unfolding eq using IH step_back(2)[OF inv' mismatch(1) ng] Some by simp
    qed
  next
    case fin
    have "wildcard_loop t p ti pidx star mark = Some (skip_stars (drop pidx p) = [])"
      by (subst wildcard_loop.simps) (simp add: fin)
    then show ?thesis using step_end[OF inv fin] by simp
  qed
qed

lemma loop_inv_init: "loop_inv t p 0 0 None 0"
  by (simp add: loop_inv_def)

lemma loop_goal_init: "loop_goal t p 0 0 None 0 \<longleftrightarrow> glob p t"
  by (simp add: loop_goal_def)

lemma wildcard_match_total:
  "\<exists>b. wildcard_match t p = Some b \<and> (b \<longrightarrow> glob p t) \<and> (STAR \<notin> set t \<longrightarrow> glob p t \<longrightarrow> b)"
  using wildcard_loop_total[OF loop_inv_init, of t p] by (simp add: wildcard_match_def loop_goal_init)

subsection \<open>Selection\<close>

datatype SelectionStatus =
    SelOk | CaseNotFound | KindMismatch | Ambiguous | FilterNoBenchMatch | FilterNoJitterMatch
  | ZeroSelected | DeathExcludedExact | DeathExcludedAll

record SelectionResult =
  sel_status :: SelectionStatus
  sel_idxs :: "idx list"
  sel_ambiguous_matches :: "idx list"
  sel_test_idxs :: "idx list"
  sel_bench_idxs :: "idx list"
  sel_jitter_idxs :: "idx list"
  sel_has_selection :: bool
  sel_filtered_death :: nat

definition empty_selection :: SelectionResult where
  "empty_selection =
     \<lparr>sel_status = SelOk, sel_idxs = [], sel_ambiguous_matches = [], sel_test_idxs = [],
      sel_bench_idxs = [], sel_jitter_idxs = [], sel_has_selection = False, sel_filtered_death = 0\<rparr>"

fun split_selected_cases :: "Case list \<Rightarrow> idx list \<Rightarrow> SelectionResult \<Rightarrow> SelectionResult" where
  "split_selected_cases cases [] out = out"
| "split_selected_cases cases (i # idxs) out =
     split_selected_cases cases idxs
       (if c_is_benchmark (cases ! i) then out\<lparr>sel_bench_idxs := sel_bench_idxs out @ [i]\<rparr>
        else if c_is_jitter (cases ! i) then out\<lparr>sel_jitter_idxs := sel_jitter_idxs out @ [i]\<rparr>
        else out\<lparr>sel_test_idxs := sel_test_idxs out @ [i]\<rparr>)"

text \<open>The indices of the cases that satisfy a test, in order: the code's collecting loops.\<close>

definition matching_idxs :: "(Case \<Rightarrow> bool) \<Rightarrow> Case list \<Rightarrow> idx list" where
  "matching_idxs P cases = filter (\<lambda>i. P (cases ! i)) [0..<length cases]"

definition suffix_candidate :: "string \<Rightarrow> Case \<Rightarrow> bool" where
  "suffix_candidate exact c \<longleftrightarrow>
     (if length (c_name c) < length exact then False else ends_with (c_name c) exact)"

text \<open>The resolution of \<^verbatim>\<open>--run\<close>: an early result, or the one index to run.\<close>

definition resolve_candidates ::
  "Case list \<Rightarrow> KindFilter \<Rightarrow> SelectionResult \<Rightarrow> idx list \<Rightarrow> SelectionResult + idx list" where
  "resolve_candidates cases kind result candidates =
     (let kind_matches = filter (\<lambda>i. case_matches_kind (cases ! i) kind) candidates
      in if kind_matches = [] then Inl (result\<lparr>sel_status := KindMismatch\<rparr>)
         else if length kind_matches > 1
              then Inl (result\<lparr>sel_status := Ambiguous, sel_ambiguous_matches := kind_matches\<rparr>)
         else Inr [hd kind_matches])"

definition select_run_exact ::
  "Case list \<Rightarrow> CliOptions \<Rightarrow> SelectionResult \<Rightarrow> string \<Rightarrow> SelectionResult + idx list" where
  "select_run_exact cases opt result exact =
     (let exact_matches = matching_idxs (\<lambda>c. c_name c = exact) cases
      in if exact_matches \<noteq> [] then resolve_candidates cases (o_kind opt) result exact_matches
         else let suffix_matches = matching_idxs (suffix_candidate exact) cases
              in if suffix_matches = [] then Inl (result\<lparr>sel_status := CaseNotFound\<rparr>)
                 else resolve_candidates cases (o_kind opt) result suffix_matches)"

definition select_initial :: "Case list \<Rightarrow> CliOptions \<Rightarrow> SelectionResult \<Rightarrow> SelectionResult + idx list" where
  "select_initial cases opt result =
     (case o_run_exact opt of
        Some exact \<Rightarrow> select_run_exact cases opt result exact
      | None \<Rightarrow>
          (case o_filter_pat opt of
             Some pat \<Rightarrow> Inr (matching_idxs (\<lambda>c. wildcard_match (c_name c) pat = Some True) cases)
           | None \<Rightarrow> Inr [0..<length cases]))"

definition select_finish :: "Case list \<Rightarrow> idx list \<Rightarrow> SelectionResult \<Rightarrow> SelectionResult" where
  "select_finish cases idxs result =
     split_selected_cases cases idxs (result\<lparr>sel_status := SelOk, sel_idxs := idxs\<rparr>)"

definition select_filtered :: "Case list \<Rightarrow> CliOptions \<Rightarrow> SelectionResult \<Rightarrow> idx list \<Rightarrow> SelectionResult" where
  "select_filtered cases opt result idxs0 =
     (let idxs = filter (\<lambda>i. case_matches_kind (cases ! i) (o_kind opt)) idxs0
      in if idxs = [] then
           (if o_filter_pat opt \<noteq> None \<and> o_kind opt = KindBench
              then result\<lparr>sel_status := FilterNoBenchMatch\<rparr>
            else if o_filter_pat opt \<noteq> None \<and> o_kind opt = KindJitter
              then result\<lparr>sel_status := FilterNoJitterMatch\<rparr>
            else result\<lparr>sel_status := ZeroSelected\<rparr>)
         else if \<not> o_include_death opt then
           (let kept = filter (\<lambda>i. \<not> has_tag_ci (cases ! i) ''death'') idxs;
                dropped = length (filter (\<lambda>i. has_tag_ci (cases ! i) ''death'') idxs);
                result' = result\<lparr>sel_filtered_death := sel_filtered_death result + dropped\<rparr>
            in if kept = [] \<and> sel_filtered_death result' > 0
               then result'\<lparr>sel_status := (if o_run_exact opt \<noteq> None then DeathExcludedExact
                                         else DeathExcludedAll)\<rparr>
               else select_finish cases kept result')
         else select_finish cases idxs result)"

definition select_cases :: "Case list \<Rightarrow> CliOptions \<Rightarrow> SelectionResult" where
  "select_cases cases opt =
     (let result = empty_selection\<lparr>sel_has_selection := (o_run_exact opt \<noteq> None \<or> o_filter_pat opt \<noteq> None)\<rparr>
      in case select_initial cases opt result of
           Inl r \<Rightarrow> r
         | Inr idxs \<Rightarrow> select_filtered cases opt result idxs)"

lemma split_selected_fields [frame_simps]:
  "sel_status (split_selected_cases cases idxs out) = sel_status out"
  "sel_idxs (split_selected_cases cases idxs out) = sel_idxs out"
  "sel_has_selection (split_selected_cases cases idxs out) = sel_has_selection out"
  "sel_filtered_death (split_selected_cases cases idxs out) = sel_filtered_death out"
  by (induction cases idxs out rule: split_selected_cases.induct) auto

lemma split_selected_lists:
  "sel_test_idxs (split_selected_cases cases idxs out)
     = sel_test_idxs out @ filter (\<lambda>i. case_is_test (cases ! i)) idxs"
  "sel_bench_idxs (split_selected_cases cases idxs out)
     = sel_bench_idxs out @ filter (\<lambda>i. c_is_benchmark (cases ! i)) idxs"
  "sel_jitter_idxs (split_selected_cases cases idxs out)
     = sel_jitter_idxs out @ filter (\<lambda>i. c_is_jitter (cases ! i) \<and> \<not> c_is_benchmark (cases ! i)) idxs"
  by (induction cases idxs out rule: split_selected_cases.induct) (auto simp: case_is_test_def)

lemma select_finish_fields [frame_simps]:
  "sel_status (select_finish cases idxs r) = SelOk"
  "sel_idxs (select_finish cases idxs r) = idxs"
  "sel_test_idxs (select_finish cases idxs r) = sel_test_idxs r @ filter (\<lambda>i. case_is_test (cases ! i)) idxs"
  "sel_bench_idxs (select_finish cases idxs r) = sel_bench_idxs r @ filter (\<lambda>i. c_is_benchmark (cases ! i)) idxs"
  "sel_jitter_idxs (select_finish cases idxs r)
     = sel_jitter_idxs r @ filter (\<lambda>i. c_is_jitter (cases ! i) \<and> \<not> c_is_benchmark (cases ! i)) idxs"
  by (simp_all add: select_finish_def split_selected_lists split_selected_fields)

text \<open>The indices that survive the kind and death filters.\<close>

definition survives :: "Case list \<Rightarrow> CliOptions \<Rightarrow> idx \<Rightarrow> bool" where
  "survives cases opt i \<longleftrightarrow> case_matches_kind (cases ! i) (o_kind opt)
     \<and> (o_include_death opt \<or> \<not> has_tag_ci (cases ! i) ''death'')"

lemma filter_survives:
  "filter (survives cases opt) xs =
     (if o_include_death opt then filter (\<lambda>i. case_matches_kind (cases ! i) (o_kind opt)) xs
      else filter (\<lambda>i. \<not> has_tag_ci (cases ! i) ''death'')
             (filter (\<lambda>i. case_matches_kind (cases ! i) (o_kind opt)) xs))"
  by (auto simp: survives_def conj_commute intro: filter_cong)

lemma filter_death_pos: "ys \<noteq> [] \<Longrightarrow> filter (\<lambda>i. \<not> P i) ys = [] \<Longrightarrow> 0 < length (filter P ys)"
  by (induction ys) auto

text \<open>The four outcomes of the filtering stage, with the selection it hands on.\<close>

lemma select_filtered_cases:
  obtains (empty) "filter (\<lambda>i. case_matches_kind (cases ! i) (o_kind opt)) idxs0 = []"
      "sel_status (select_filtered cases opt result idxs0) \<in> {FilterNoBenchMatch, FilterNoJitterMatch, ZeroSelected}"
  | (death) "filter (\<lambda>i. case_matches_kind (cases ! i) (o_kind opt)) idxs0 \<noteq> []"
      "\<not> o_include_death opt" "filter (survives cases opt) idxs0 = []"
      "sel_status (select_filtered cases opt result idxs0)
         = (if o_run_exact opt \<noteq> None then DeathExcludedExact else DeathExcludedAll)"
  | (ok) r where "filter (survives cases opt) idxs0 \<noteq> []"
      "select_filtered cases opt result idxs0 = select_finish cases (filter (survives cases opt) idxs0) r"
      "sel_test_idxs r = sel_test_idxs result" "sel_bench_idxs r = sel_bench_idxs result"
      "sel_jitter_idxs r = sel_jitter_idxs result"
proof -
  let ?k = "filter (\<lambda>i. case_matches_kind (cases ! i) (o_kind opt)) idxs0"
  show thesis
  proof (cases "?k = []")
    case True
    then show ?thesis by (intro empty) (simp_all add: select_filtered_def)
  next
    case nonempty: False
    show ?thesis
    proof (cases "o_include_death opt")
      case True
      then show ?thesis using nonempty
        by (intro ok[of result]) (simp_all add: select_filtered_def filter_survives)
    next
      case False
      let ?kept = "filter (\<lambda>i. \<not> has_tag_ci (cases ! i) ''death'') ?k"
      let ?r = "result\<lparr>sel_filtered_death := sel_filtered_death result
                 + length (filter (\<lambda>i. has_tag_ci (cases ! i) ''death'') ?k)\<rparr>"
      have surv: "filter (survives cases opt) idxs0 = ?kept" using False by (simp add: filter_survives)
      have eq: "select_filtered cases opt result idxs0 =
          (if ?kept = [] \<and> sel_filtered_death ?r > 0
           then ?r\<lparr>sel_status := (if o_run_exact opt \<noteq> None then DeathExcludedExact else DeathExcludedAll)\<rparr>
           else select_finish cases ?kept ?r)"
        using nonempty False unfolding select_filtered_def Let_def by (simp only: if_False if_True not_False_eq_True simp_thms)
      show ?thesis
      proof (cases "?kept = []")
        case True
        then have "sel_filtered_death ?r > 0" using filter_death_pos[OF nonempty True] by simp
        with True nonempty False surv eq show ?thesis by (intro death) simp_all
      next
        case kept: False
        with surv eq show ?thesis by (intro ok[of ?r]) simp_all
      qed
    qed
  qed
qed

text \<open>What \<^verbatim>\<open>--filter\<close> (or its absence) lets through before kinds and death tests are dropped.\<close>

definition filter_base :: "Case list \<Rightarrow> CliOptions \<Rightarrow> idx list" where
  "filter_base cases opt =
     (case o_filter_pat opt of
        None \<Rightarrow> [0..<length cases]
      | Some pat \<Rightarrow> matching_idxs (\<lambda>c. wildcard_match (c_name c) pat = Some True) cases)"

definition start_selection :: "CliOptions \<Rightarrow> SelectionResult" where
  "start_selection opt = empty_selection\<lparr>sel_has_selection := (o_run_exact opt \<noteq> None \<or> o_filter_pat opt \<noteq> None)\<rparr>"

lemma start_selection_lists [simp]:
  "sel_test_idxs (start_selection opt) = []" "sel_bench_idxs (start_selection opt) = []"
  "sel_jitter_idxs (start_selection opt) = []"
  by (simp_all add: start_selection_def empty_selection_def)

lemma select_cases_start:
  "select_cases cases opt =
     (case select_initial cases opt (start_selection opt) of
        Inl r \<Rightarrow> r | Inr idxs \<Rightarrow> select_filtered cases opt (start_selection opt) idxs)"
  unfolding select_cases_def start_selection_def Let_def by (rule refl)

lemma select_cases_no_run:
  "o_run_exact opt = None \<Longrightarrow> select_cases cases opt = select_filtered cases opt (start_selection opt) (filter_base cases opt)"
  by (simp add: select_cases_start select_initial_def filter_base_def split: option.splits)

lemma partition_by_kind:
  "mset (filter (\<lambda>i. case_is_test (cases ! i)) xs) + mset (filter (\<lambda>i. c_is_benchmark (cases ! i)) xs)
     + mset (filter (\<lambda>i. c_is_jitter (cases ! i) \<and> \<not> c_is_benchmark (cases ! i)) xs) = mset xs"
  by (rule mset_filter_three) (auto simp: case_is_test_def)

lemma survives_nonempty_kind:
  "filter (\<lambda>i. case_matches_kind (cases ! i) (o_kind opt)) xs = [] \<Longrightarrow> filter (survives cases opt) xs = []"
  by (auto simp: filter_empty_conv survives_def)

text \<open>The candidates of \<^verbatim>\<open>--run\<close>: the cases of that very name if there are any, else those whose name ends with it.\<close>

definition run_candidates :: "Case list \<Rightarrow> string \<Rightarrow> idx list" where
  "run_candidates cases exact =
     (if matching_idxs (\<lambda>c. c_name c = exact) cases \<noteq> [] then matching_idxs (\<lambda>c. c_name c = exact) cases
      else matching_idxs (\<lambda>c. ends_with (c_name c) exact) cases)"

lemma suffix_candidate_iff: "suffix_candidate exact c \<longleftrightarrow> ends_with (c_name c) exact"
  by (auto simp: suffix_candidate_def ends_with_def)

lemma select_run_exact_eq:
  "select_run_exact cases opt result exact =
     (if run_candidates cases exact = [] then Inl (result\<lparr>sel_status := CaseNotFound\<rparr>)
      else resolve_candidates cases (o_kind opt) result (run_candidates cases exact))"
  by (simp add: select_run_exact_def run_candidates_def suffix_candidate_iff[abs_def] Let_def)

lemma select_filtered_single:
  assumes "case_matches_kind (cases ! i) (o_kind opt)" and "o_run_exact opt \<noteq> None"
  shows "let r = select_filtered cases opt result [i] in
     if \<not> o_include_death opt \<and> has_tag_ci (cases ! i) ''death'' then sel_status r = DeathExcludedExact
     else sel_status r = SelOk \<and> sel_idxs r = [i]"
  using assms by (auto simp: select_filtered_def Let_def frame_simps)

lemma singletonE:
  assumes "xs \<noteq> []" and "\<not> length xs > 1"
  obtains x where "xs = [x]"
  using assms by (cases xs) auto

definition sample_case :: "string \<Rightarrow> bool \<Rightarrow> string list \<Rightarrow> Case" where
  "sample_case n bench tags =
     \<lparr>c_name = n, c_fn = 0, c_file = ''cases.hpp'', c_line = 1, c_is_benchmark = bench, c_is_jitter = False,
      c_is_baseline = False, c_tags = tags, c_requirements = [], c_skip_reason = [], c_should_skip = False,
      c_fixture = [], c_fixture_lifetime = LifetimeNone, c_suite = ''unit'', c_async_fn = None,
      c_is_async = False, c_items_per_call = 1, c_owner = []\<rparr>"

definition sample_cases :: "Case list" where
  "sample_cases = [sample_case ''unit/abort'' False [''Death''], sample_case ''unit/add'' False [],
     sample_case ''unit/add_speed'' True [], sample_case ''util/add'' False []]"

subsection \<open>Properties of selection\<close>

text \<open>
  C14. On every name without a literal \<open>*\<close> the matcher behind \<^verbatim>\<open>--filter\<close> decides
  exactly the wildcard language: the single saved restart point of its loop loses no match
  and invents none.
\<close>

theorem wildcard_match_exact:
  assumes "STAR \<notin> set t"
  shows "wildcard_match t p = Some (glob p t)"
  using wildcard_match_total[of t p] assms by auto

theorem wildcard_match_exact_witness:
  "wildcard_match ''unit/math/add'' ''unit/*a?d'' = Some True \<and> glob ''unit/*a?d'' ''unit/math/add''"
proof -
  have "STAR \<notin> set ''unit/math/add''" by simp
  from wildcard_match_exact[OF this] show ?thesis by simp
qed

text \<open>
  The matcher returns on every name and every pattern, and it answers yes only when the
  pattern does match.
\<close>

theorem wildcard_match_returns:
  "wildcard_match t p = Some True \<and> glob p t \<or> wildcard_match t p = Some False"
  using wildcard_match_total[of t p] by (metis (full_types))

text \<open>
  A name that contains a literal \<open>*\<close> (a case instantiated on a pointer type, say)
  escapes that exactness: the matcher consumes the \<open>*\<close> of the pattern as an ordinary
  character when the name has one in the same place, records no restart point, and answers
  no although the pattern matches.
\<close>

theorem wildcard_literal_star_missed:
  "wildcard_match ''push<int*>/empty'' ''push<int*'' = Some False \<and> glob ''push<int*'' ''push<int*>/empty''"
proof
  show "wildcard_match ''push<int*>/empty'' ''push<int*'' = Some False"
    by (simp add: wildcard_match_def wildcard_loop.simps)
  show "glob ''push<int*'' ''push<int*>/empty''" by simp
qed



text \<open>
  \<^verbatim>\<open>--run\<close> never runs more than one case: an exact name beats every suffix match,
  and the outcome is determined by the candidates and how many of them have the requested
  kind: none is not-found, none of the kind is a kind mismatch, several is an ambiguity that
  lists exactly them, one is selected unless it is a death test that was not asked for.
\<close>

theorem select_cases_run:
  assumes "o_run_exact opt = Some exact"
  shows "let r = select_cases cases opt; cand = run_candidates cases exact;
             km = filter (\<lambda>i. case_matches_kind (cases ! i) (o_kind opt)) cand in
     (cand = [] \<longrightarrow> sel_status r = CaseNotFound)
     \<and> (cand \<noteq> [] \<and> km = [] \<longrightarrow> sel_status r = KindMismatch)
     \<and> (length km > 1 \<longrightarrow> sel_status r = Ambiguous \<and> sel_ambiguous_matches r = km)
     \<and> (\<forall>i. km = [i] \<longrightarrow>
          (if \<not> o_include_death opt \<and> has_tag_ci (cases ! i) ''death'' then sel_status r = DeathExcludedExact
           else sel_status r = SelOk \<and> sel_idxs r = [i]))"
proof -
  let ?cand = "run_candidates cases exact"
  let ?km = "filter (\<lambda>i. case_matches_kind (cases ! i) (o_kind opt)) ?cand"
  have eq: "select_cases cases opt = (case select_run_exact cases opt (start_selection opt) exact of
      Inl r \<Rightarrow> r | Inr idxs \<Rightarrow> select_filtered cases opt (start_selection opt) idxs)"
    using assms by (simp add: select_cases_start select_initial_def)
  consider "?km = []" | "length ?km > 1" | i where "?km = [i]"
    using singletonE[of ?km] by (metis (no_types))
  then show ?thesis
  proof cases
    case 1
    then show ?thesis by (simp add: eq select_run_exact_eq resolve_candidates_def Let_def)
  next
    case 2
    then have "?cand \<noteq> []" and "?km \<noteq> []" by auto
    with 2 show ?thesis by (auto simp: eq select_run_exact_eq resolve_candidates_def Let_def)
  next
    case (3 i)
    then have c: "?cand \<noteq> []" and k: "case_matches_kind (cases ! i) (o_kind opt)"
      by (auto simp: filter_eq_Cons_iff)
    have "select_cases cases opt = select_filtered cases opt (start_selection opt) [i]"
      using c 3 by (simp add: eq select_run_exact_eq resolve_candidates_def)
    then show ?thesis
      using 3 c select_filtered_single[OF k, of "start_selection opt"] assms by (simp add: Let_def)
  qed
qed

theorem select_cases_run_witness:
  "sel_status (select_cases sample_cases (default_options\<lparr>o_run_exact := Some ''unit/add''\<rparr>)) = SelOk
   \<and> sel_idxs (select_cases sample_cases (default_options\<lparr>o_run_exact := Some ''unit/add''\<rparr>)) = [1]
   \<and> sel_status (select_cases sample_cases (default_options\<lparr>o_run_exact := Some ''add''\<rparr>)) = Ambiguous
   \<and> sel_ambiguous_matches (select_cases sample_cases (default_options\<lparr>o_run_exact := Some ''add''\<rparr>)) = [1, 3]"
proof -
  let ?opt = "\<lambda>n. default_options\<lparr>o_run_exact := Some n\<rparr>"
  let ?km = "\<lambda>n. filter (\<lambda>i. case_matches_kind (sample_cases ! i) (o_kind (?opt n))) (run_candidates sample_cases n)"
  have opt: "o_run_exact (?opt n) = Some n" for n by simp
  have k1: "?km ''unit/add'' = [1]" and k2: "?km ''add'' = [1, 3]" and d: "\<not> has_tag_ci (sample_cases ! 1) ''death''"
    by code_simp+
  show ?thesis
    using select_cases_run[OF opt[of "''unit/add''"], of sample_cases]
      select_cases_run[OF opt[of "''add''"], of sample_cases] d
    unfolding Let_def k1 k2 by simp
qed

end
