(* ===== verification/Allure.thy ===== *)
theory Allure
  imports Reporting
begin

section \<open>Report files: \<^verbatim>\<open>src/runner_reporting_allure.cpp\<close> and \<^verbatim>\<open>write_reports\<close>\<close>

text \<open>
  The files of an Allure report, the session that stages them, and the writing of both reports.
  Each attempt to create a file is numbered, and what the operating system answers to the
  \<open>n\<close>-th attempt is the argument \<open>e_fs\<close> of the environment, so every pattern of failures
  is covered.  Boost.JSON's serialiser and \<^verbatim>\<open>create_directories\<close> are arguments
  too.  Paths are POSIX.
\<close>

datatype file_outcome = OpenFails | WriteFails | FileOk

record disk =
  d_attempts :: nat
  d_files :: "string \<rightharpoonup> string"

datatype json = JStr string | JNum double | JObj "(string \<times> json) list" | JArr "json list"

record report_env =
  e_fs :: "nat \<Rightarrow> file_outcome"
  e_create_directories :: "string \<Rightarrow> string option"
  e_serialize :: "json \<Rightarrow> string"
  e_show_double :: "double \<Rightarrow> string"
  e_use_boost_json :: bool

record ReportConfig =
  cfg_junit_path :: "string option"
  cfg_allure_dir :: "string option"

text \<open>
  One \<^verbatim>\<open>std::ofstream\<close>: open (truncating), write, flush.  After a failed write the
  contents are unknown.
\<close>

definition try_write :: "report_env \<Rightarrow> string \<Rightarrow> string \<Rightarrow> disk \<Rightarrow> file_outcome \<times> disk" where
  "try_write env path contents d =
     (let r = e_fs env (d_attempts d); d' = d\<lparr>d_attempts := d_attempts d + 1\<rparr>
      in (r, (case r of OpenFails \<Rightarrow> d'
              | WriteFails \<Rightarrow> d'\<lparr>d_files := (d_files d)(path := None)\<rparr>
              | FileOk \<Rightarrow> d'\<lparr>d_files := (d_files d)(path \<mapsto> contents)\<rparr>)))"

text \<open>The failure message of an attempt, and the attempt with its message handed to the caller.\<close>

definition write_message :: "string \<Rightarrow> string \<Rightarrow> file_outcome \<Rightarrow> string option" where
  "write_message label path r =
     (case r of OpenFails \<Rightarrow> Some (''failed to open '' @ label @ '': '' @ path)
      | WriteFails \<Rightarrow> Some (''failed to write '' @ label @ '': '' @ path)
      | FileOk \<Rightarrow> None)"

definition preflight_output_file :: "report_env \<Rightarrow> string \<Rightarrow> string \<Rightarrow> disk \<Rightarrow> string option \<times> disk" where
  "preflight_output_file env path label d =
     (case try_write env path [CHR 0x0A] d of (r, d') \<Rightarrow> (write_message label path r, d'))"

subsection \<open>The files of a report\<close>

record PendingAllureFile =
  pf_path :: string
  pf_label :: string
  pf_contents :: string

definition record_allure_failure :: "RunAccumulator \<Rightarrow> string \<Rightarrow> RunAccumulator" where
  "record_allure_failure acc message = record_runner_level_failure acc ''gentest/reporting/allure'' message"

fun join_lines :: "string list \<Rightarrow> string" where
  "join_lines [] = []"
| "join_lines [l] = l"
| "join_lines (l # ls) = l @ [CHR 0x0A] @ join_lines ls"

definition is_alpha_num :: "char \<Rightarrow> bool" where
  "is_alpha_num ch \<longleftrightarrow> (CHR ''a'' \<le> ch \<and> ch \<le> CHR ''z'') \<or> (CHR ''A'' \<le> ch \<and> ch \<le> CHR ''Z'')
     \<or> (CHR ''0'' \<le> ch \<and> ch \<le> CHR ''9'')"

definition stem_char :: "char \<Rightarrow> char" where
  "stem_char ch =
     (if is_alpha_num ch then ascii_lower ch else if ch = CHR ''-'' \<or> ch = CHR ''_'' then ch else CHR ''-'')"

definition trim_dashes :: "string \<Rightarrow> string" where
  "trim_dashes s = rev (dropWhile (\<lambda>c. c = CHR ''-'') (rev (dropWhile (\<lambda>c. c = CHR ''-'') s)))"

definition sanitize_attachment_stem :: "string \<Rightarrow> string \<Rightarrow> string" where
  "sanitize_attachment_stem name fallback =
     (let stem = trim_dashes (map stem_char name) in if stem = [] then fallback else stem)"

definition sanitize_attachment_extension :: "string \<Rightarrow> string \<Rightarrow> string" where
  "sanitize_attachment_extension extension fallback =
     (let cleaned = filter (\<lambda>ch. is_alpha_num ch \<or> ch = CHR ''.'' \<or> ch = CHR ''-'' \<or> ch = CHR ''_'') extension;
          cleaned' = (if cleaned = [] then fallback else cleaned)
      in if cleaned' = [] \<or> hd cleaned' \<noteq> CHR ''.'' then CHR ''.'' # cleaned' else cleaned')"

definition path_join :: "string \<Rightarrow> string \<Rightarrow> string" where
  "path_join dir name = (if dir = [] \<or> last dir = CHR ''/'' then dir @ name else dir @ ''/'' @ name)"

definition numbered_stem :: "string \<Rightarrow> nat \<Rightarrow> string" where
  "numbered_stem stem n = stem @ ''-'' @ show_nat n"

text \<open>
  The search for an unused stem: it ends because the used stems are finitely many and the
  numbered candidates are pairwise different.
\<close>

lemma show_nat_inj [simp]: "show_nat m = show_nat n \<longleftrightarrow> m = n"
  using dec_value_show_nat by metis

lemma numbered_stem_inj [simp]: "numbered_stem s m = numbered_stem s n \<longleftrightarrow> m = n"
  by (simp add: numbered_stem_def)

definition taken_from :: "string list \<Rightarrow> string \<Rightarrow> nat \<Rightarrow> nat set" where
  "taken_from used stem n = {k. n \<le> k \<and> numbered_stem stem k \<in> set used}"

lemma finite_taken_from: "finite (taken_from used stem n)"
proof -
  have "inj_on (numbered_stem stem) (taken_from used stem n)" by (auto simp: inj_on_def)
  moreover have "numbered_stem stem ` taken_from used stem n \<subseteq> set used" by (auto simp: taken_from_def)
  ultimately show ?thesis using finite_subset finite_imageD by blast
qed

lemma taken_from_Suc:
  "card (taken_from used stem n) = (if numbered_stem stem n \<in> set used then 1 else 0) + card (taken_from used stem (Suc n))"
proof -
  have "taken_from used stem n = (if numbered_stem stem n \<in> set used then {n} else {}) \<union> taken_from used stem (Suc n)"
    by (auto simp: taken_from_def Suc_le_eq le_eq_less_or_eq)
  moreover have "n \<notin> taken_from used stem (Suc n)" by (simp add: taken_from_def)
  ultimately show ?thesis using finite_taken_from[of used stem "Suc n"] by simp
qed

function unique_stem_loop :: "string list \<Rightarrow> string \<Rightarrow> string \<Rightarrow> nat \<Rightarrow> string" where
  "unique_stem_loop used stem unique_stem duplicate_count =
     (if unique_stem \<in> set used
      then unique_stem_loop used stem (numbered_stem stem duplicate_count) (duplicate_count + 1)
      else unique_stem)"
  by pat_completeness auto

termination unique_stem_loop
  by (relation "measure (\<lambda>(used, stem, u, n). (if u \<in> set used then 1 else 0) + card (taken_from used stem n))")
     (auto simp: taken_from_Suc[symmetric, simplified])

declare unique_stem_loop.simps [simp del]

definition label :: "string \<Rightarrow> string \<Rightarrow> json" where
  "label name val = JObj [(''name'', JStr name), (''value'', JStr val)]"

definition strip_reason :: "string \<Rightarrow> string \<Rightarrow> string" where
  "strip_reason prefix r = dropWhile (\<lambda>c. c = CHR '' '') (drop (length prefix) r)"

definition item_labels :: "ReportItem \<Rightarrow> json list" where
  "item_labels it =
     [label ''suite'' (i_suite it)]
     @ (if i_outcome it = OutBlocked then [label ''blocked'' ''true''] else [])
     @ (if i_skipped it \<and> starts_with (i_skip_reason it) ''xfail''
        then let r = i_skip_reason it;
                 r' = (if starts_with r ''xfail:'' then strip_reason ''xfail:'' r else if r = ''xfail'' then [] else r)
             in [label ''xfail'' r']
        else if i_outcome it = OutBlocked
        then let r = i_skip_reason it;
                 r' = (if starts_with r ''blocked:'' then strip_reason ''blocked:'' r else r)
             in if r' = [] then [] else [label ''blocked_reason'' r']
        else [])"

definition item_status :: "ReportItem \<Rightarrow> string" where
  "item_status it = (if i_failures it = [] then (if i_skipped it then ''skipped'' else ''passed'') else ''failed'')"

definition item_status_details :: "ReportItem \<Rightarrow> (string \<times> json) list" where
  "item_status_details it =
     (if i_failures it \<noteq> [] then [(''statusDetails'', JObj [(''message'', JStr (hd (i_failures it)))])]
      else if i_skipped it \<and> i_skip_reason it \<noteq> []
      then [(''statusDetails'', JObj [(''message'', JStr (i_skip_reason it))])]
      else [])"

text \<open>The state of the loops that collect the attachments of one item.\<close>

record attachment_state =
  at_files :: "PendingAllureFile list"
  at_json :: "json list"
  at_used_stems :: "string list"

definition add_attachment_file ::
  "string \<Rightarrow> string \<Rightarrow> string \<Rightarrow> string \<Rightarrow> string \<Rightarrow> string \<Rightarrow> attachment_state \<Rightarrow> attachment_state" where
  "add_attachment_file dir name file mime contents stem st =
     \<lparr>at_files = at_files st @ [\<lparr>pf_path = path_join dir file, pf_label = ''Allure attachment'', pf_contents = contents\<rparr>],
      at_json = at_json st @ [JObj [(''name'', JStr name), (''source'', JStr file), (''type'', JStr mime)]],
      at_used_stems = at_used_stems st @ [stem]\<rparr>"

definition result_name :: "nat \<Rightarrow> string \<Rightarrow> string \<Rightarrow> string" where
  "result_name i stem ext = ''result-'' @ show_nat i @ ''-'' @ stem @ ext"

definition add_attachment :: "string \<Rightarrow> nat \<Rightarrow> ReportAttachment \<Rightarrow> attachment_state \<Rightarrow> attachment_state" where
  "add_attachment dir i a st =
     (let stem = sanitize_attachment_stem (a_name a) ''attachment'';
          ext = sanitize_attachment_extension (a_file_extension a) ''.bin'';
          unique_stem = unique_stem_loop (at_used_stems st) stem stem 1
      in add_attachment_file dir (a_name a) (result_name i unique_stem ext) (a_mime_type a) (a_contents a) unique_stem st)"

definition item_attachments :: "string \<Rightarrow> nat \<Rightarrow> ReportItem \<Rightarrow> attachment_state" where
  "item_attachments dir i it =
     (let s0 = \<lparr>at_files = [], at_json = [], at_used_stems = [''result'']\<rparr>;
          s1 = (if i_logs it = [] then s0
                else add_attachment_file dir ''logs'' (result_name i ''attachment'' ''.txt'') ''text/plain''
                       (join_lines (i_logs it)) ''attachment'' s0);
          s2 = (if i_timeline it = [] then s1
                else add_attachment_file dir ''timeline'' (result_name i ''timeline'' ''.txt'') ''text/plain''
                       (join_lines (i_timeline it)) ''timeline'' s1)
      in fold (add_attachment dir i) (i_attachments it) s2)"

definition item_json :: "ReportItem \<Rightarrow> attachment_state \<Rightarrow> json" where
  "item_json it st =
     JObj ([(''name'', JStr (i_name it)), (''status'', JStr (item_status it)), (''time'', JNum (i_time_s it)),
            (''labels'', JArr (item_labels it))]
           @ item_status_details it
           @ (if at_json st = [] then [] else [(''attachments'', JArr (at_json st))]))"

definition item_files :: "report_env \<Rightarrow> string \<Rightarrow> nat \<Rightarrow> ReportItem \<Rightarrow> PendingAllureFile list" where
  "item_files env dir i it =
     (let st = item_attachments dir i it
      in at_files st @ [\<lparr>pf_path = path_join dir (result_name i ''result'' ''.json''), pf_label = ''Allure result'',
                         pf_contents = e_serialize env (item_json it st)\<rparr>])"

definition infra_file :: "report_env \<Rightarrow> string \<Rightarrow> nat \<Rightarrow> nat \<Rightarrow> string \<Rightarrow> PendingAllureFile" where
  "infra_file env dir i infra_idx message =
     \<lparr>pf_path = path_join dir (result_name i ''result'' ''.json''), pf_label = ''Allure result'',
      pf_contents = e_serialize env (JObj [(''name'', JStr (''gentest/infra_error/'' @ show_nat infra_idx)),
        (''status'', JStr ''failed''), (''time'', JNum (DFinite 0)),
        (''labels'', JArr [label ''suite'' ''gentest/infra'']),
        (''statusDetails'', JObj [(''message'', JStr message)])])\<rparr>"

definition build_pending_allure_files :: "report_env \<Rightarrow> RunAccumulator \<Rightarrow> string \<Rightarrow> PendingAllureFile list" where
  "build_pending_allure_files env acc dir =
     concat (map (\<lambda>(i, it). item_files env dir i it) (enumerate 0 (report_items acc)))
     @ map (\<lambda>(k, message). infra_file env dir (length (report_items acc) + k) k message) (enumerate 0 (infra_errors acc))"

subsection \<open>The session and the writing of the reports\<close>

text \<open>The variables \<open>acc\<close>, \<open>report_ok\<close> and the file system, threaded through the calls.\<close>

record report_state =
  s_acc :: RunAccumulator
  s_disk :: disk
  s_report_ok :: bool

record AllureSession =
  al_enabled :: bool
  al_ready :: bool
  al_dir :: string
  al_pending :: "PendingAllureFile list"
  al_writable :: "PendingAllureFile list"
  al_blocked :: "string list"

definition new_session :: AllureSession where
  "new_session = \<lparr>al_enabled = False, al_ready = False, al_dir = [], al_pending = [], al_writable = [], al_blocked = []\<rparr>"

definition fail_report :: "report_state \<Rightarrow> report_state" where
  "fail_report st = st\<lparr>s_report_ok := False\<rparr>"

definition note_allure :: "string \<Rightarrow> report_state \<Rightarrow> report_state" where
  "note_allure message st = st\<lparr>s_acc := record_allure_failure (s_acc st) message\<rparr>"

definition write_allure_file :: "report_env \<Rightarrow> PendingAllureFile \<Rightarrow> report_state \<Rightarrow> bool \<times> report_state" where
  "write_allure_file env f st =
     (case try_write env (pf_path f) (pf_contents f) (s_disk st) of (r, d) \<Rightarrow>
        (case write_message (pf_label f) (pf_path f) r of
           Some m \<Rightarrow> (False, note_allure m (st\<lparr>s_disk := d\<rparr>))
         | None \<Rightarrow> (True, st\<lparr>s_disk := d\<rparr>)))"

fun select_writable_allure_files ::
  "report_env \<Rightarrow> PendingAllureFile list \<Rightarrow> string list \<Rightarrow> report_state
     \<Rightarrow> PendingAllureFile list \<times> string list \<times> report_state" where
  "select_writable_allure_files env [] blocked st = ([], blocked, st)"
| "select_writable_allure_files env (f # files) blocked st =
     (if pf_path f \<in> set blocked then select_writable_allure_files env files blocked st
      else case preflight_output_file env (pf_path f) (pf_label f) (s_disk st) of
        (Some m, d) \<Rightarrow> select_writable_allure_files env files (blocked @ [pf_path f]) (note_allure m (st\<lparr>s_disk := d\<rparr>))
      | (None, d) \<Rightarrow>
          (case select_writable_allure_files env files blocked (st\<lparr>s_disk := d\<rparr>) of
             (ws, b, st') \<Rightarrow> (f # ws, b, st')))"

fun write_allure_files :: "report_env \<Rightarrow> PendingAllureFile list \<Rightarrow> report_state \<Rightarrow> bool \<times> report_state" where
  "write_allure_files env [] st = (True, st)"
| "write_allure_files env (f # files) st =
     (case write_allure_file env f st of (ok, st') \<Rightarrow>
        case write_allure_files env files st' of (ok', st'') \<Rightarrow> (ok \<and> ok', st''))"

definition stage_files :: "report_env \<Rightarrow> AllureSession \<times> report_state \<Rightarrow> AllureSession \<times> report_state" where
  "stage_files env x =
     (case x of (al, st) \<Rightarrow>
        let pending = build_pending_allure_files env (s_acc st) (al_dir al)
        in case select_writable_allure_files env pending (al_blocked al) st of
          (ws, b, st') \<Rightarrow>
            (al\<lparr>al_pending := pending, al_writable := ws, al_blocked := b\<rparr>, if b \<noteq> [] then fail_report st' else st'))"

definition restage :: "report_env \<Rightarrow> AllureSession \<times> report_state \<Rightarrow> AllureSession \<times> report_state" where
  "restage env x =
     (let before = length (infra_errors (s_acc (snd x))); y = stage_files env x
      in if length (infra_errors (s_acc (snd y))) \<noteq> before then stage_files env y else y)"

definition allure_initialize :: "report_env \<Rightarrow> ReportConfig \<Rightarrow> AllureSession \<times> report_state \<Rightarrow> AllureSession \<times> report_state" where
  "allure_initialize env cfg x =
     (case x of (al, st) \<Rightarrow>
        if \<not> e_use_boost_json env then x
        else if al_enabled al \<and> al_ready al then x
        else (case cfg_allure_dir cfg of
                None \<Rightarrow> (al\<lparr>al_enabled := False, al_ready := False\<rparr>, st)
              | Some dir \<Rightarrow>
                  let al' = al\<lparr>al_enabled := True, al_ready := True, al_dir := dir\<rparr>
                  in (case e_create_directories env dir of
                        Some err \<Rightarrow>
                          (al'\<lparr>al_ready := False\<rparr>,
                           fail_report (note_allure (''failed to prepare Allure report directory: '' @ dir @ '' ('' @ err @ '')'') st))
                      | None \<Rightarrow> restage env (al', st))))"

definition sync_after_infra_change :: "report_env \<Rightarrow> AllureSession \<times> report_state \<Rightarrow> AllureSession \<times> report_state" where
  "sync_after_infra_change env x =
     (if e_use_boost_json env \<and> al_enabled (fst x) \<and> al_ready (fst x) then restage env x else x)"

definition allure_flush :: "report_env \<Rightarrow> AllureSession \<times> report_state \<Rightarrow> report_state" where
  "allure_flush env x =
     (case x of (al, st) \<Rightarrow>
        if \<not> e_use_boost_json env \<or> \<not> al_enabled al \<or> \<not> al_ready al then st
        else let st1 = (if al_blocked al \<noteq> [] then fail_report st else st)
             in case write_allure_files env (al_writable al) st1 of (ok, st2) \<Rightarrow> if ok then st2 else fail_report st2)"

definition note_junit :: "string \<Rightarrow> report_state \<Rightarrow> report_state" where
  "note_junit message st = st\<lparr>s_acc := record_runner_level_failure (s_acc st) ''gentest/reporting/junit'' message\<rparr>"

definition write_junit_report :: "report_env \<Rightarrow> string \<Rightarrow> report_state \<Rightarrow> report_state" where
  "write_junit_report env path st =
     (case try_write env path (junit_document (e_show_double env) (s_acc st)) (s_disk st) of (r, d) \<Rightarrow>
        (case write_message ''JUnit report'' path r of
           Some m \<Rightarrow> fail_report (note_junit m (st\<lparr>s_disk := d\<rparr>))
         | None \<Rightarrow> st\<lparr>s_disk := d\<rparr>))"

text \<open>A JUnit step followed by the Allure resynchronisation when it recorded an error.\<close>

definition with_sync :: "report_env \<Rightarrow> (report_state \<Rightarrow> report_state) \<Rightarrow> AllureSession \<times> report_state \<Rightarrow> AllureSession \<times> report_state" where
  "with_sync env f x =
     (let before = length (infra_errors (s_acc (snd x))); st = f (snd x)
      in if length (infra_errors (s_acc st)) \<noteq> before then sync_after_infra_change env (fst x, st) else (fst x, st))"

definition junit_preflight :: "report_env \<Rightarrow> string \<Rightarrow> report_state \<Rightarrow> report_state" where
  "junit_preflight env path st =
     (case preflight_output_file env path ''JUnit report'' (s_disk st) of
        (Some m, d) \<Rightarrow> fail_report (note_junit m (st\<lparr>s_disk := d\<rparr>))
      | (None, d) \<Rightarrow> st\<lparr>s_disk := d\<rparr>)"

definition write_reports :: "report_env \<Rightarrow> ReportConfig \<Rightarrow> RunAccumulator \<Rightarrow> disk \<Rightarrow> report_state" where
  "write_reports env cfg acc d =
     (let x0 = allure_initialize env cfg (new_session, \<lparr>s_acc = acc, s_disk = d, s_report_ok = True\<rparr>)
      in case cfg_junit_path cfg of
           None \<Rightarrow> allure_flush env x0
         | Some path \<Rightarrow>
             let junit_ready = fst (preflight_output_file env path ''JUnit report'' (s_disk (snd x0))) = None;
                 x1 = with_sync env (junit_preflight env path) x0;
                 x2 = (if junit_ready then with_sync env (write_junit_report env path) x1 else x1)
             in allure_flush env x2)"

subsection \<open>Failures are recorded and reported\<close>

text \<open>
  Two modes of the report writer: nothing has failed, the accumulator is untouched and the
  staged files are those of the accumulator; or something has failed, the result is false and
  the errors recorded since the start are not empty.
\<close>

definition clean_acc :: "RunAccumulator \<Rightarrow> report_state \<Rightarrow> bool" where
  "clean_acc acc st \<longleftrightarrow> s_report_ok st \<and> s_acc st = acc"

definition grown_acc :: "RunAccumulator \<Rightarrow> report_state \<Rightarrow> bool" where
  "grown_acc acc st \<longleftrightarrow> report_items (s_acc st) = report_items acc
     \<and> (\<exists>es. es \<noteq> [] \<and> infra_errors (s_acc st) = infra_errors acc @ es)"

definition failed_acc :: "RunAccumulator \<Rightarrow> report_state \<Rightarrow> bool" where
  "failed_acc acc st \<longleftrightarrow> \<not> s_report_ok st \<and> grown_acc acc st"

definition staged :: "report_env \<Rightarrow> ReportConfig \<Rightarrow> RunAccumulator \<Rightarrow> AllureSession \<Rightarrow> bool" where
  "staged env cfg acc al \<longleftrightarrow> al_blocked al = []
     \<and> (al_enabled al \<longrightarrow> al_writable al = build_pending_allure_files env acc (al_dir al))
     \<and> (\<forall>dir. e_use_boost_json env \<longrightarrow> cfg_allure_dir cfg = Some dir \<longrightarrow> al_enabled al \<and> al_ready al \<and> al_dir al = dir)"

definition report_inv :: "report_env \<Rightarrow> ReportConfig \<Rightarrow> RunAccumulator \<Rightarrow> AllureSession \<times> report_state \<Rightarrow> bool" where
  "report_inv env cfg acc x \<longleftrightarrow> clean_acc acc (snd x) \<and> staged env cfg acc (fst x) \<or> failed_acc acc (snd x)"

lemma infra_errors_note [simp]:
  "infra_errors (s_acc (note_allure m st)) = infra_errors (s_acc st) @ [m]"
  "infra_errors (s_acc (note_junit m st)) = infra_errors (s_acc st) @ [m]"
  "report_items (s_acc (note_allure m st)) = report_items (s_acc st)"
  "report_items (s_acc (note_junit m st)) = report_items (s_acc st)"
  "s_report_ok (note_allure m st) = s_report_ok st"
  "s_report_ok (note_junit m st) = s_report_ok st"
  "s_disk (note_allure m st) = s_disk st"
  "s_disk (note_junit m st) = s_disk st"
  by (simp_all add: note_allure_def note_junit_def record_allure_failure_def record_runner_level_failure_def
      record_failure_summary_def Let_def)

lemma fail_report_simps [simp]:
  "s_acc (fail_report st) = s_acc st" "s_disk (fail_report st) = s_disk st" "\<not> s_report_ok (fail_report st)"
  by (simp_all add: fail_report_def)

lemma grown_acc_start: "infra_errors (s_acc st) = infra_errors acc @ [m] \<Longrightarrow> report_items (s_acc st) = report_items acc \<Longrightarrow> grown_acc acc st"
  by (auto simp: grown_acc_def)

lemma grown_acc_more:
  "grown_acc acc st \<Longrightarrow> infra_errors (s_acc st') = infra_errors (s_acc st) @ es \<Longrightarrow>
     report_items (s_acc st') = report_items (s_acc st) \<Longrightarrow> grown_acc acc st'"
  by (auto simp: grown_acc_def)

lemma select_writable:
  assumes "select_writable_allure_files env files blocked st = (ws, b, st')"
  shows "s_report_ok st' = s_report_ok st \<and> report_items (s_acc st') = report_items (s_acc st)
    \<and> (\<exists>es. infra_errors (s_acc st') = infra_errors (s_acc st) @ es \<and> (b = [] \<longleftrightarrow> blocked = [] \<and> es = []))
    \<and> (b = [] \<longrightarrow> s_acc st' = s_acc st \<and> ws = files)"
  using assms
proof (induction files arbitrary: blocked st ws)
  case (Cons f files)
  obtain m d where p: "preflight_output_file env (pf_path f) (pf_label f) (s_disk st) = (m, d)" by fastforce
  show ?case
  proof (cases "pf_path f \<in> set blocked")
    case True
    then show ?thesis using Cons.IH[of blocked st ws] Cons.prems by fastforce
  next
    case False
    then show ?thesis
    proof (cases m)
      case None
      obtain ws' where "select_writable_allure_files env files blocked (st\<lparr>s_disk := d\<rparr>) = (ws', b, st')" "ws = f # ws'"
        using Cons.prems p None False by (auto split: prod.splits)
      then show ?thesis using Cons.IH[of blocked "st\<lparr>s_disk := d\<rparr>" ws'] by simp
    next
      case (Some e)
      then show ?thesis
        using Cons.IH[of "blocked @ [pf_path f]" "note_allure e (st\<lparr>s_disk := d\<rparr>)" ws] Cons.prems p False by auto
    qed
  qed
qed simp

lemma write_allure_files_acc:
  assumes "write_allure_files env files st = (ok, st')"
  shows "s_report_ok st' = s_report_ok st \<and> report_items (s_acc st') = report_items (s_acc st)
    \<and> (\<exists>es. infra_errors (s_acc st') = infra_errors (s_acc st) @ es \<and> (ok \<longleftrightarrow> es = []))
    \<and> (ok \<longrightarrow> s_acc st' = s_acc st)"
  using assms
proof (induction files arbitrary: st ok)
  case (Cons f files)
  obtain o1 st1 where w: "write_allure_file env f st = (o1, st1)" by fastforce
  obtain o2 where r: "write_allure_files env files st1 = (o2, st')" "ok \<longleftrightarrow> o1 \<and> o2"
    using Cons.prems w by (auto split: prod.splits)
  have "s_report_ok st1 = s_report_ok st \<and> report_items (s_acc st1) = report_items (s_acc st)
    \<and> (\<exists>es. infra_errors (s_acc st1) = infra_errors (s_acc st) @ es \<and> (o1 \<longleftrightarrow> es = [])) \<and> (o1 \<longrightarrow> s_acc st1 = s_acc st)"
    using w by (auto simp: write_allure_file_def split: prod.splits option.splits)
  then show ?case using Cons.IH[OF r(1)] r(2) by force
qed simp

lemma stage_files_session:
  "stage_files env x = (al', st') \<Longrightarrow>
     al_enabled al' = al_enabled (fst x) \<and> al_ready al' = al_ready (fst x) \<and> al_dir al' = al_dir (fst x)"
  by (auto simp: stage_files_def Let_def split: prod.splits)

lemma stage_files_clean:
  assumes "clean_acc acc st" and "al_blocked al = []"
  shows "case stage_files env (al, st) of (al', st') \<Rightarrow>
    clean_acc acc st' \<and> al_blocked al' = [] \<and> al_writable al' = build_pending_allure_files env acc (al_dir al) \<or> failed_acc acc st'"
proof -
  obtain ws b st' where s: "select_writable_allure_files env (build_pending_allure_files env (s_acc st) (al_dir al)) (al_blocked al) st = (ws, b, st')"
    by (metis prod_cases3)
  show ?thesis
    using select_writable[OF s] assms s
    by (auto simp: stage_files_def Let_def clean_acc_def failed_acc_def grown_acc_def)
qed

lemma stage_files_failed:
  assumes "failed_acc acc st"
  shows "failed_acc acc (snd (stage_files env (al, st)))"
proof -
  obtain ws b st' where s: "select_writable_allure_files env (build_pending_allure_files env (s_acc st) (al_dir al)) (al_blocked al) st = (ws, b, st')"
    by (metis prod_cases3)
  show ?thesis
    using select_writable[OF s] assms s
    by (auto simp: stage_files_def Let_def failed_acc_def grown_acc_def)
qed

lemma restage_session:
  "al_enabled (fst (restage env x)) = al_enabled (fst x)" "al_ready (fst (restage env x)) = al_ready (fst x)"
  "al_dir (fst (restage env x)) = al_dir (fst x)"
  using stage_files_session[of env x] stage_files_session[of env "stage_files env x"]
  by (auto simp: restage_def Let_def) (metis prod.collapse)+

lemma restage_failed: "failed_acc acc st \<Longrightarrow> failed_acc acc (snd (restage env (al, st)))"
  using stage_files_failed[of acc st env al]
    stage_files_failed[of acc "snd (stage_files env (al, st))" env "fst (stage_files env (al, st))"]
  by (simp add: restage_def Let_def)

lemma restage_clean:
  assumes "clean_acc acc st" and "al_blocked al = []"
  shows "clean_acc acc (snd (restage env (al, st))) \<and> al_blocked (fst (restage env (al, st))) = []
      \<and> al_writable (fst (restage env (al, st))) = build_pending_allure_files env acc (al_dir al)
    \<or> failed_acc acc (snd (restage env (al, st)))"
proof (cases "failed_acc acc (snd (stage_files env (al, st)))")
  case True
  then have "failed_acc acc (snd (stage_files env (stage_files env (al, st))))"
    using stage_files_failed[of acc "snd (stage_files env (al, st))" env "fst (stage_files env (al, st))"] by simp
  with True show ?thesis by (simp add: restage_def Let_def)
next
  case False
  then show ?thesis
    using stage_files_clean[OF assms, of env] assms(1)
    by (auto simp: restage_def Let_def clean_acc_def split: prod.splits)
qed

lemma initialize_inv:
  "report_inv env cfg acc (allure_initialize env cfg (new_session, \<lparr>s_acc = acc, s_disk = d, s_report_ok = True\<rparr>))"
proof (cases "e_use_boost_json env \<and> cfg_allure_dir cfg \<noteq> None")
  case True
  then obtain dir where dir: "cfg_allure_dir cfg = Some dir" "e_use_boost_json env" by blast
  let ?al = "new_session\<lparr>al_enabled := True, al_ready := True, al_dir := dir\<rparr>"
  let ?st = "\<lparr>s_acc = acc, s_disk = d, s_report_ok = True\<rparr>"
  have "report_inv env cfg acc (restage env (?al, ?st))"
    using restage_clean[of acc ?st ?al env] restage_session[of env "(?al, ?st)"] dir
    by (auto simp: report_inv_def clean_acc_def staged_def new_session_def)
  then show ?thesis
    using dir by (auto simp: allure_initialize_def Let_def new_session_def report_inv_def failed_acc_def grown_acc_def
        split: option.splits)
next
  case False
  then show ?thesis
    by (auto simp: allure_initialize_def new_session_def report_inv_def clean_acc_def staged_def)
qed

lemma sync_inv: "failed_acc acc (snd x) \<Longrightarrow> failed_acc acc (snd (sync_after_infra_change env x))"
  using restage_failed[of acc "snd x" env "fst x"] by (simp add: sync_after_infra_change_def)

text \<open>The contract of a JUnit step: it either changes nothing but the disk or records one error.\<close>

locale report_step =
  fixes step :: "report_state \<Rightarrow> report_state"
  assumes step: "s_acc (step st) = s_acc st \<and> s_report_ok (step st) = s_report_ok st
    \<or> \<not> s_report_ok (step st) \<and> report_items (s_acc (step st)) = report_items (s_acc st)
      \<and> (\<exists>m. infra_errors (s_acc (step st)) = infra_errors (s_acc st) @ [m])"
begin

lemma with_sync_inv:
  assumes "report_inv env cfg acc x"
  shows "report_inv env cfg acc (with_sync env step x)"
proof -
  consider "clean_acc acc (snd x)" "staged env cfg acc (fst x)" | "failed_acc acc (snd x)"
    using assms by (auto simp: report_inv_def)
  then show ?thesis
  proof cases
    case 1
    show ?thesis
      using step[of "snd x"] 1 sync_inv[of acc "(fst x, step (snd x))" env]
      by (auto simp: with_sync_def Let_def report_inv_def clean_acc_def failed_acc_def grown_acc_def)
  next
    case 2
    have "failed_acc acc (step (snd x))"
      using step[of "snd x"] 2 by (auto simp: failed_acc_def grown_acc_def)
    then show ?thesis using sync_inv[of acc "(fst x, step (snd x))" env]
      by (auto simp: with_sync_def Let_def report_inv_def)
  qed
qed

lemma with_sync_clean:
  assumes "clean_acc acc (snd (with_sync env step x))" and "report_inv env cfg acc x"
  shows "with_sync env step x = (fst x, step (snd x)) \<and> clean_acc acc (snd x) \<and> staged env cfg acc (fst x)"
proof -
  have x: "clean_acc acc (snd x) \<and> staged env cfg acc (fst x)"
  proof (rule ccontr)
    assume "\<not> (clean_acc acc (snd x) \<and> staged env cfg acc (fst x))"
    then have "failed_acc acc (step (snd x))"
      using assms(2) step[of "snd x"] by (auto simp: report_inv_def failed_acc_def grown_acc_def)
    then show False
      using assms(1) sync_inv[of acc "(fst x, step (snd x))" env]
      by (auto simp: with_sync_def Let_def clean_acc_def failed_acc_def split: if_splits)
  qed
  moreover have "infra_errors (s_acc (step (snd x))) = infra_errors (s_acc (snd x))"
  proof (rule ccontr)
    assume "infra_errors (s_acc (step (snd x))) \<noteq> infra_errors (s_acc (snd x))"
    then have "failed_acc acc (step (snd x))"
      using x step[of "snd x"] by (auto simp: clean_acc_def failed_acc_def grown_acc_def)
    then show False
      using assms(1) sync_inv[of acc "(fst x, step (snd x))" env]
      by (auto simp: with_sync_def Let_def clean_acc_def failed_acc_def split: if_splits)
  qed
  ultimately show ?thesis by (simp add: with_sync_def)
qed

end

interpretation junit_preflight: report_step "junit_preflight env path" for env path
  by unfold_locales (auto simp: junit_preflight_def split: prod.splits option.splits)

interpretation write_junit: report_step "write_junit_report env path" for env path
  by unfold_locales (auto simp: write_junit_report_def split: prod.splits option.splits)


lemma flush_inv:
  assumes "report_inv env cfg acc x"
  shows "clean_acc acc (allure_flush env x) \<and> clean_acc acc (snd x) \<and> staged env cfg acc (fst x) \<or> failed_acc acc (allure_flush env x)"
proof -
  obtain al st where x: "x = (al, st)" by fastforce
  let ?st1 = "if al_blocked al \<noteq> [] then fail_report st else st"
  obtain ok st2 where w: "write_allure_files env (al_writable al) ?st1 = (ok, st2)" by fastforce
  show ?thesis
    using assms write_allure_files_acc[OF w] w
    by (auto simp: x report_inv_def allure_flush_def Let_def clean_acc_def failed_acc_def grown_acc_def staged_def
        split: if_splits)
qed

text \<open>The state just before the flush.\<close>

definition before_flush :: "report_env \<Rightarrow> ReportConfig \<Rightarrow> RunAccumulator \<Rightarrow> disk \<Rightarrow> AllureSession \<times> report_state" where
  "before_flush env cfg acc d =
     (let x0 = allure_initialize env cfg (new_session, \<lparr>s_acc = acc, s_disk = d, s_report_ok = True\<rparr>)
      in case cfg_junit_path cfg of
           None \<Rightarrow> x0
         | Some path \<Rightarrow>
             let x1 = with_sync env (junit_preflight env path) x0
             in if fst (preflight_output_file env path ''JUnit report'' (s_disk (snd x0))) = None
                then with_sync env (write_junit_report env path) x1 else x1)"

lemma write_reports_flush: "write_reports env cfg acc d = allure_flush env (before_flush env cfg acc d)"
  by (simp add: write_reports_def before_flush_def Let_def split: option.splits)

lemma before_flush_inv: "report_inv env cfg acc (before_flush env cfg acc d)"
  using initialize_inv[of env cfg acc d]
  by (auto simp: before_flush_def Let_def junit_preflight.with_sync_inv write_junit.with_sync_inv split: option.splits)

lemma write_reports_inv:
  "clean_acc acc (write_reports env cfg acc d) \<or> failed_acc acc (write_reports env cfg acc d)"
  using flush_inv[OF before_flush_inv] unfolding write_reports_flush by blast

lemma junit_written:
  assumes "clean_acc acc (snd (before_flush env cfg acc d))" and "cfg_junit_path cfg = Some p"
  shows "d_files (s_disk (snd (before_flush env cfg acc d))) p = Some (junit_document (e_show_double env) acc)"
proof -
  let ?x0 = "allure_initialize env cfg (new_session, \<lparr>s_acc = acc, s_disk = d, s_report_ok = True\<rparr>)"
  let ?x1 = "with_sync env (junit_preflight env p) ?x0"
  let ?ready = "fst (preflight_output_file env p ''JUnit report'' (s_disk (snd ?x0))) = None"
  have i0: "report_inv env cfg acc ?x0" by (rule initialize_inv)
  have i1: "report_inv env cfg acc ?x1" by (rule junit_preflight.with_sync_inv[OF i0])
  have bf: "before_flush env cfg acc d = (if ?ready then with_sync env (write_junit_report env p) ?x1 else ?x1)"
    using assms(2) by (simp add: before_flush_def Let_def)
  have ready: "?ready"
  proof (rule ccontr)
    assume n: "\<not> ?ready"
    have "clean_acc acc (snd ?x1)" using assms(1) unfolding bf if_not_P[OF n] .
    from junit_preflight.with_sync_clean[OF this i0] have "clean_acc acc (junit_preflight env p (snd ?x0))"
      using \<open>clean_acc acc (snd ?x1)\<close> by simp
    then show False using n by (auto simp: junit_preflight_def clean_acc_def split: prod.splits option.splits)
  qed
  have c: "clean_acc acc (snd (with_sync env (write_junit_report env p) ?x1))"
    using assms(1) unfolding bf if_P[OF ready] .
  note w = write_junit.with_sync_clean[OF c i1]
  have "clean_acc acc (write_junit_report env p (snd ?x1))" using c w by simp
  then have "d_files (s_disk (write_junit_report env p (snd ?x1))) p = Some (junit_document (e_show_double env) acc)"
    using w by (auto simp: write_junit_report_def try_write_def write_message_def clean_acc_def Let_def
        split: prod.splits option.splits file_outcome.splits)
  then show ?thesis using w unfolding bf if_P[OF ready] by simp
qed

lemma write_allure_files_disk:
  assumes "write_allure_files env files st = (True, st')"
  shows "(p \<notin> pf_path ` set files \<longrightarrow> d_files (s_disk st') p = d_files (s_disk st) p)
    \<and> (distinct (map pf_path files) \<longrightarrow> (\<forall>f\<in>set files. d_files (s_disk st') (pf_path f) = Some (pf_contents f)))"
  using assms
proof (induction files arbitrary: st p)
  case (Cons f files)
  obtain st1 where w: "write_allure_file env f st = (True, st1)" "write_allure_files env files st1 = (True, st')"
    using Cons.prems by (auto split: prod.splits)
  have "d_files (s_disk st1) = (d_files (s_disk st))(pf_path f \<mapsto> pf_contents f)"
    using w(1) by (auto simp: write_allure_file_def try_write_def write_message_def Let_def
        split: prod.splits option.splits file_outcome.splits)
  then show ?case using Cons.IH[OF w(2)] by auto
qed simp

subsection \<open>The names of the files\<close>

definition name_key :: "string \<Rightarrow> string \<times> string" where
  "name_key n = (let r = drop 7 n in (takeWhile (\<lambda>c. c \<noteq> CHR ''-'') r,
     takeWhile (\<lambda>c. c \<noteq> CHR ''.'') (drop 1 (dropWhile (\<lambda>c. c \<noteq> CHR ''-'') r))))"

lemma name_key_result: "CHR ''.'' \<notin> set stem \<Longrightarrow> name_key (result_name i stem (CHR ''.'' # e)) = (show_nat i, stem)"
proof -
  assume a: "CHR ''.'' \<notin> set stem"
  have d: "CHR ''-'' \<notin> set (show_nat i)" by (rule show_nat_field) (simp add: is_digit_def)
  have "drop 7 (result_name i stem (CHR ''.'' # e)) = show_nat i @ CHR ''-'' # stem @ CHR ''.'' # e"
    by (simp add: result_name_def)
  then show ?thesis
    by (simp add: name_key_def takeWhile_field[OF d] dropWhile_field[OF d] takeWhile_field[OF a])
qed

lemma path_join_inj [simp]: "path_join dir m = path_join dir n \<longleftrightarrow> m = n"
  by (simp add: path_join_def)

definition plain_name :: "string \<Rightarrow> bool" where
  "plain_name s \<longleftrightarrow> CHR ''/'' \<notin> set s"

definition plain_stem :: "string \<Rightarrow> bool" where
  "plain_stem s \<longleftrightarrow> CHR ''.'' \<notin> set s \<and> CHR ''/'' \<notin> set s"

lemma of_char_le: "c \<le> d \<longleftrightarrow> (of_char c :: nat) \<le> of_char d"
  by (simp add: less_eq_char_def)

lemma stem_char_plain: "stem_char c \<noteq> CHR ''.'' \<and> stem_char c \<noteq> CHR ''/''"
proof -
  have "is_alpha_num c \<Longrightarrow> 48 \<le> (of_char (ascii_lower c) :: nat)"
    by (auto simp: is_alpha_num_def ascii_lower_def of_char_le)
  then show ?thesis by (auto simp: stem_char_def)
qed

lemma set_trim_dashes: "set (trim_dashes s) \<subseteq> set s"
  unfolding trim_dashes_def by (metis set_dropWhileD set_rev subsetI)

lemma sanitize_stem_plain: "plain_stem (sanitize_attachment_stem name ''attachment'')"
proof -
  have "c \<in> set (trim_dashes (map stem_char name)) \<Longrightarrow> c \<noteq> CHR ''.'' \<and> c \<noteq> CHR ''/''" for c
    using set_trim_dashes[of "map stem_char name"] stem_char_plain by (metis imageE in_mono set_map)
  then show ?thesis by (auto simp: sanitize_attachment_stem_def plain_stem_def Let_def)
qed

lemma sanitize_extension_dot: "\<exists>e. sanitize_attachment_extension x ''.bin'' = CHR ''.'' # e \<and> plain_name e"
proof -
  let ?c = "filter (\<lambda>ch. is_alpha_num ch \<or> ch = CHR ''.'' \<or> ch = CHR ''-'' \<or> ch = CHR ''_'') x"
  have "\<not> is_alpha_num (CHR ''/'')" by code_simp
  then have "CHR ''/'' \<notin> set ?c" by auto
  then show ?thesis
    by (cases ?c) (auto simp: sanitize_attachment_extension_def Let_def plain_name_def)
qed

lemma numbered_stem_plain: "plain_stem s \<Longrightarrow> plain_stem (numbered_stem s n)"
  using show_nat_field[of "CHR ''.''" n] show_nat_field[of "CHR ''/''" n]
  by (simp add: plain_stem_def numbered_stem_def is_digit_def)

lemma unique_stem_loop_props:
  "plain_stem stem \<Longrightarrow> plain_stem u \<Longrightarrow>
     unique_stem_loop used stem u n \<notin> set used \<and> plain_stem (unique_stem_loop used stem u n)"
proof (induction used stem u n rule: unique_stem_loop.induct)
  case (1 used stem u n)
  then show ?case
    by (cases "u \<in> set used") (simp_all add: unique_stem_loop.simps[of used stem u n] numbered_stem_plain)
qed

definition att_inv :: "string \<Rightarrow> nat \<Rightarrow> attachment_state \<Rightarrow> bool" where
  "att_inv dir i st \<longleftrightarrow> distinct (at_used_stems st) \<and> at_used_stems st \<noteq> [] \<and> hd (at_used_stems st) = ''result''
     \<and> list_all plain_stem (at_used_stems st)
     \<and> (\<exists>names. map pf_path (at_files st) = map (path_join dir) names
          \<and> map name_key names = map (Pair (show_nat i)) (tl (at_used_stems st)) \<and> list_all plain_name names)"

lemma result_name_plain: "plain_stem stem \<Longrightarrow> plain_name e \<Longrightarrow> plain_name (result_name i stem (CHR ''.'' # e))"
  using show_nat_field[of "CHR ''/''" i] by (simp add: plain_stem_def plain_name_def result_name_def is_digit_def)

lemma att_inv_add:
  assumes "att_inv dir i st" and "stem \<notin> set (at_used_stems st)" and "plain_stem stem" and "plain_name e"
  shows "att_inv dir i (add_attachment_file dir name (result_name i stem (CHR ''.'' # e)) mime contents stem st)"
proof -
  obtain names where names: "map pf_path (at_files st) = map (path_join dir) names"
      "map name_key names = map (Pair (show_nat i)) (tl (at_used_stems st))" "list_all plain_name names"
    using assms(1) by (auto simp: att_inv_def)
  show ?thesis
    using assms names name_key_result[of stem i e] result_name_plain[OF assms(3,4), of i]
    unfolding att_inv_def add_attachment_file_def plain_stem_def
    by (auto intro!: exI[of _ "names @ [result_name i stem (CHR ''.'' # e)]"])
qed

lemma att_inv_attachment: "att_inv dir i st \<Longrightarrow> att_inv dir i (add_attachment dir i a st)"
  using unique_stem_loop_props[OF sanitize_stem_plain sanitize_stem_plain, of "at_used_stems st" "a_name a" "a_name a" 1]
    sanitize_extension_dot[of "a_file_extension a"]
  by (auto simp: add_attachment_def Let_def intro!: att_inv_add)

lemma att_inv_item: "att_inv dir i (item_attachments dir i it)"
proof -
  have fold: "att_inv dir i st \<Longrightarrow> att_inv dir i (fold (add_attachment dir i) as st)" for as st
    by (induction as arbitrary: st) (simp_all add: att_inv_attachment)
  have plain: "plain_stem ''result''" "plain_stem ''attachment''" "plain_stem ''timeline''" "plain_name ''txt''"
    by (simp_all add: plain_stem_def plain_name_def)
  let ?s0 = "\<lparr>at_files = [], at_json = [], at_used_stems = [''result'']\<rparr>"
  have s0: "att_inv dir i ?s0" using plain by (simp add: att_inv_def)
  have s1: "att_inv dir i (add_attachment_file dir ''logs'' (result_name i ''attachment'' ''.txt'') m c ''attachment'' ?s0)" for m c
    using s0 plain by (intro att_inv_add) simp_all
  have t: "att_inv dir i st \<Longrightarrow> ''timeline'' \<notin> set (at_used_stems st) \<Longrightarrow>
      att_inv dir i (add_attachment_file dir ''timeline'' (result_name i ''timeline'' ''.txt'') m c ''timeline'' st)" for m c st
    using plain by (intro att_inv_add)
  have u: "''timeline'' \<notin> set (at_used_stems ?s0)"
      "''timeline'' \<notin> set (at_used_stems (add_attachment_file dir ''logs'' (result_name i ''attachment'' ''.txt'') m c ''attachment'' ?s0))"
    for m c
    by (simp_all add: add_attachment_file_def)
  show ?thesis
    unfolding item_attachments_def Let_def
    by (rule fold) (simp add: t s0 s1 u)
qed

lemma item_file_names:
  "\<exists>names. map pf_path (item_files env dir i it) = map (path_join dir) names
     \<and> distinct (map name_key names) \<and> fst ` name_key ` set names = {show_nat i} \<and> list_all plain_name names"
proof -
  let ?st = "item_attachments dir i it"
  obtain stems where stems: "at_used_stems ?st = ''result'' # stems"
    using att_inv_item[of dir i it] by (cases "at_used_stems ?st") (auto simp: att_inv_def)
  obtain names where names: "map pf_path (at_files ?st) = map (path_join dir) names"
      "map name_key names = map (Pair (show_nat i)) stems" "list_all plain_name names" "distinct (''result'' # stems)"
    using att_inv_item[of dir i it] stems by (auto simp: att_inv_def)
  have r: "name_key (result_name i ''result'' ''.json'') = (show_nat i, ''result'')"
    using name_key_result[of "''result''" i "''json''"] by simp
  have p: "plain_name (result_name i ''result'' ''.json'')"
    using result_name_plain[of "''result''" "''json''" i] by (simp add: plain_stem_def plain_name_def)
  have "fst ` set (map name_key names) \<subseteq> {show_nat i}" unfolding names(2) by auto
  then have "fst ` name_key ` set (names @ [result_name i ''result'' ''.json'']) = {show_nat i}" using r by auto
  moreover have "distinct (map name_key (names @ [result_name i ''result'' ''.json'']))"
    using names(4) by (auto simp: r names(2) distinct_map inj_on_def)
  ultimately show ?thesis
    using names p by (intro exI[of _ "names @ [result_name i ''result'' ''.json'']"]) (simp add: item_files_def Let_def)
qed

text \<open>Names whose keys carry the numbers of an interval.\<close>

definition names_between :: "string \<Rightarrow> nat \<Rightarrow> nat \<Rightarrow> string list \<Rightarrow> bool" where
  "names_between dir a b paths \<longleftrightarrow>
     (\<exists>names. paths = map (path_join dir) names \<and> distinct (map name_key names)
        \<and> fst ` name_key ` set names \<subseteq> show_nat ` {a..<b} \<and> list_all plain_name names)"

lemma names_between_append:
  assumes "names_between dir a b ps" and "names_between dir b c qs" and "a \<le> b" "b \<le> c"
  shows "names_between dir a c (ps @ qs)"
proof -
  obtain m n where m: "ps = map (path_join dir) m" "distinct (map name_key m)" "fst ` name_key ` set m \<subseteq> show_nat ` {a..<b}" "list_all plain_name m"
    and n: "qs = map (path_join dir) n" "distinct (map name_key n)" "fst ` name_key ` set n \<subseteq> show_nat ` {b..<c}" "list_all plain_name n"
    using assms unfolding names_between_def by blast
  have "fst ` name_key ` set m \<inter> fst ` name_key ` set n = {}" using m(3) n(3) by fastforce
  then have "distinct (map name_key (m @ n))" using m(2) n(2) by force
  moreover have "fst ` name_key ` set (m @ n) \<subseteq> show_nat ` {a..<c}"
  proof -
    have i: "{a..<b} \<subseteq> {a..<c}" "{b..<c} \<subseteq> {a..<c}" using assms(3,4) by auto
    show ?thesis unfolding set_append image_Un
      by (rule Un_least) (rule order_trans[OF m(3) image_mono[OF i(1)]], rule order_trans[OF n(3) image_mono[OF i(2)]])
  qed
  moreover have "ps @ qs = map (path_join dir) (m @ n)" "list_all plain_name (m @ n)" using m n by simp_all
  ultimately show ?thesis unfolding names_between_def by blast
qed

lemma names_between_items:
  "names_between dir k (k + length its) (map pf_path (concat (map (\<lambda>(i, it). item_files env dir i it) (enumerate k its))))"
proof (induction its arbitrary: k)
  case Nil
  then show ?case by (simp add: names_between_def)
next
  case (Cons it its)
  have "names_between dir k (Suc k) (map pf_path (item_files env dir k it))"
    using item_file_names[of env dir k it] by (auto simp: names_between_def)
  from names_between_append[OF this Cons.IH[of "Suc k"]] show ?case by simp
qed

lemma names_between_infra:
  "names_between dir (n + k) (n + k + length ms)
     (map pf_path (map (\<lambda>(k, message). infra_file env dir (n + k) k message) (enumerate k ms)))"
proof (induction ms arbitrary: k)
  case Nil
  then show ?case by (simp add: names_between_def)
next
  case (Cons m ms)
  have "names_between dir (n + k) (Suc (n + k)) [pf_path (infra_file env dir (n + k) k m)]"
    using name_key_result[of "''result''" "n + k" "''json''"] result_name_plain[of "''result''" "''json''" "n + k"]
    unfolding names_between_def
    by (intro exI[of _ "[result_name (n + k) ''result'' ''.json'']"]) (simp add: infra_file_def plain_stem_def plain_name_def)
  from names_between_append[OF this, of "n + k + length (m # ms)"] Cons.IH[of "Suc k"] show ?case by simp
qed

lemma allure_names:
  "\<exists>names. map pf_path (build_pending_allure_files env acc dir) = map (path_join dir) names
     \<and> distinct (map name_key names) \<and> list_all plain_name names"
proof -
  let ?n = "length (report_items acc)"
  have "names_between dir 0 ?n (map pf_path (concat (map (\<lambda>(i, it). item_files env dir i it) (enumerate 0 (report_items acc)))))"
    using names_between_items[of dir 0 "report_items acc" env] by simp
  moreover have "names_between dir ?n (?n + length (infra_errors acc))
      (map pf_path (map (\<lambda>(k, message). infra_file env dir (?n + k) k message) (enumerate 0 (infra_errors acc))))"
    using names_between_infra[of dir ?n 0 "infra_errors acc" env] by simp
  ultimately have "names_between dir 0 (?n + length (infra_errors acc)) (map pf_path (build_pending_allure_files env acc dir))"
    unfolding build_pending_allure_files_def map_append by (rule names_between_append) simp_all
  then show ?thesis unfolding names_between_def by blast
qed

lemma allure_paths_distinct: "distinct (map pf_path (build_pending_allure_files env acc dir))"
proof -
  obtain names where n: "map pf_path (build_pending_allure_files env acc dir) = map (path_join dir) names"
      "distinct (map name_key names)" using allure_names by blast
  have "distinct (map (path_join dir) names)"
    using n(2) by (simp add: distinct_map inj_on_def)
  then show ?thesis unfolding n(1) .
qed

subsection \<open>Properties of the report files\<close>

text \<open>
  C24. No file of an Allure report overwrites another: the paths of all files staged for a run
  are pairwise different, whatever names and extensions the attachments have, and every one of
  them is a plain file name inside the report directory.
\<close>

theorem allure_files_never_collide:
  "distinct (map pf_path (build_pending_allure_files env acc dir))
   \<and> (\<exists>names. map pf_path (build_pending_allure_files env acc dir) = map (path_join dir) names
        \<and> list_all (\<lambda>n. CHR ''/'' \<notin> set n) names)"
  using allure_paths_distinct allure_names[of env acc dir] unfolding plain_name_def by blast

text \<open>
  C9. For every pattern of file-system failures, \<^verbatim>\<open>write_reports\<close> answers true exactly
  when it recorded no runner-level error; errors recorded earlier and the report items are kept.
\<close>

theorem write_reports_reports_every_failure:
  "(s_report_ok (write_reports env cfg acc d) \<longleftrightarrow> infra_errors (s_acc (write_reports env cfg acc d)) = infra_errors acc)
   \<and> take (length (infra_errors acc)) (infra_errors (s_acc (write_reports env cfg acc d))) = infra_errors acc
   \<and> report_items (s_acc (write_reports env cfg acc d)) = report_items acc"
  using write_reports_inv[of acc env cfg d] by (auto simp: clean_acc_def failed_acc_def grown_acc_def)

text \<open>
  When \<^verbatim>\<open>write_reports\<close> answers true the reports are on disk: the JUnit path holds the
  document of the accumulator, and every Allure file holds its contents.
\<close>

theorem write_reports_complete:
  assumes "s_report_ok (write_reports env cfg acc d)"
    and "cfg_junit_path cfg = Some p" and "cfg_allure_dir cfg = Some dir" and "e_use_boost_json env"
    and "p \<notin> pf_path ` set (build_pending_allure_files env acc dir)"
  shows "d_files (s_disk (write_reports env cfg acc d)) p = Some (junit_document (e_show_double env) acc)
    \<and> (\<forall>f\<in>set (build_pending_allure_files env acc dir).
         d_files (s_disk (write_reports env cfg acc d)) (pf_path f) = Some (pf_contents f))"
proof -
  obtain al st where x: "before_flush env cfg acc d = (al, st)" by fastforce
  have c: "clean_acc acc (allure_flush env (al, st))" "clean_acc acc st" "staged env cfg acc al"
    using flush_inv[OF before_flush_inv[of env cfg acc d]] assms(1)
    by (auto simp: write_reports_flush x failed_acc_def)
  have al: "al_enabled al" "al_ready al" "al_writable al = build_pending_allure_files env acc dir" "al_blocked al = []"
    using c(3) assms(3,4) by (auto simp: staged_def)
  obtain ok st2 where w: "write_allure_files env (build_pending_allure_files env acc dir) st = (ok, st2)" by fastforce
  then have ok: "ok" "write_reports env cfg acc d = st2"
    using c(1) al assms(4) by (auto simp: write_reports_flush x allure_flush_def clean_acc_def Let_def split: if_splits)
  then have "write_allure_files env (build_pending_allure_files env acc dir) st = (True, st2)" using w by simp
  from write_allure_files_disk[OF this, of p] show ?thesis
    using junit_written[of acc env cfg d p] c(2) assms(2,5) allure_paths_distinct[of env acc dir]
    by (simp add: x ok(2))
qed

definition sample_report_env :: report_env where
  "sample_report_env = \<lparr>e_fs = (\<lambda>_. FileOk), e_create_directories = (\<lambda>_. None), e_serialize = (\<lambda>_. ''{}''),
     e_show_double = (\<lambda>_. ''0''), e_use_boost_json = True\<rparr>"

definition sample_acc :: RunAccumulator where
  "sample_acc = \<lparr>report_items = [], failure_items = [], infra_errors = [''boom''], github_annotations = []\<rparr>"

theorem write_reports_complete_witness:
  "d_files (s_disk (write_reports sample_report_env \<lparr>cfg_junit_path = Some ''j.xml'', cfg_allure_dir = Some ''out''\<rparr>
       sample_acc \<lparr>d_attempts = 0, d_files = Map.empty\<rparr>)) ''j.xml'' = Some (junit_document (\<lambda>_. ''0'') sample_acc)
   \<and> d_files (s_disk (write_reports sample_report_env \<lparr>cfg_junit_path = Some ''j.xml'', cfg_allure_dir = Some ''out''\<rparr>
       sample_acc \<lparr>d_attempts = 0, d_files = Map.empty\<rparr>)) ''out/result-0-result.json'' = Some ''{}''"
proof -
  let ?cfg = "\<lparr>cfg_junit_path = Some ''j.xml'', cfg_allure_dir = Some ''out''\<rparr>"
  let ?d = "\<lparr>d_attempts = 0, d_files = Map.empty\<rparr>"
  have ok: "s_report_ok (write_reports sample_report_env ?cfg sample_acc ?d)"
    by (simp add: write_reports_def allure_initialize_def restage_def stage_files_def build_pending_allure_files_def
        preflight_output_file_def try_write_def write_message_def with_sync_def junit_preflight_def write_junit_report_def
        allure_flush_def write_allure_file_def sample_report_env_def sample_acc_def new_session_def Let_def)
  have files: "map (\<lambda>f. (pf_path f, pf_contents f)) (build_pending_allure_files sample_report_env sample_acc ''out'')
      = [(''out/result-0-result.json'', ''{}'')]" by code_simp
  then obtain f where f: "build_pending_allure_files sample_report_env sample_acc ''out'' = [f]"
      "pf_path f = ''out/result-0-result.json''" "pf_contents f = ''{}''" by auto
  have e: "e_use_boost_json sample_report_env" "e_show_double sample_report_env = (\<lambda>_. ''0'')"
    by (simp_all add: sample_report_env_def)
  show ?thesis
    using write_reports_complete[OF ok, of "''j.xml''" "''out''"] f e by simp
qed

end
