(* ===== verification/Orchestrator.thy ===== *)
theory Orchestrator
  imports Test_Executor Measured Inventory Selector Allure
begin

section \<open>The runner: \<^verbatim>\<open>src/runner_orchestrator.cpp\<close>\<close>

text \<open>
  From parsed options to the exit code: listings, selection errors, and an execution with fixture
  set-up, tests, benchmarks, jitter cases, tear-down, reports, annotations and summary.  The state
  of the process is passed explicitly.  Parameters are the user code behind cases and fixtures, the
  asynchronous batch, the measurements, the file system, and the tables of
  \<^verbatim>\<open>runner_measured_report.cpp\<close> (the printed report and the Allure attachments).
\<close>

subsection \<open>Recording measured cases\<close>

record MeasuredReportIssue =
  mi_name :: string
  mi_file :: string
  mi_line :: nat
  mi_message :: string
  mi_infrastructure :: bool

record OrchestratorState =
  os_color_output :: bool
  os_record_results :: bool
  os_acc :: RunAccumulator
  os_measured_report_issues :: "MeasuredReportIssue list"

definition upd_acc :: "(RunAccumulator \<Rightarrow> RunAccumulator) \<Rightarrow> OrchestratorState \<Rightarrow> OrchestratorState" where
  "upd_acc f s = s\<lparr>os_acc := f (os_acc s)\<rparr>"

definition make_measured_failure_result :: "MeasurementCaseFailure \<Rightarrow> string \<Rightarrow> RunResult" where
  "make_measured_failure_result failure failure_message =
     (if mf_skipped failure then
        (if mf_infra_failure failure
         then let issue = or_default (mf_reason failure) ''shared fixture unavailable''
              in empty_result\<lparr>rr_skipped := True, rr_outcome := OutBlocked, rr_time_s := mf_time_s failure,
                              rr_skip_reason := ''blocked: '' @ issue, rr_summary_issues := [''BLOCKED: '' @ issue]\<rparr>
         else empty_result\<lparr>rr_skipped := True, rr_outcome := OutSkip, rr_time_s := mf_time_s failure, rr_skip_reason := mf_reason failure\<rparr>)
      else let issue = or_default failure_message (or_default (mf_reason failure) ''measured case failed'')
           in empty_result\<lparr>rr_outcome := OutFail, rr_time_s := mf_time_s failure, rr_failures := [issue], rr_summary_issues := [issue]\<rparr>)"

definition measured_issue_message :: "MeasurementCaseFailure \<Rightarrow> string \<Rightarrow> string" where
  "measured_issue_message failure failure_message =
     (if mf_skipped failure then
        (if mf_infra_failure failure then ''BLOCKED: '' @ or_default (mf_reason failure) ''shared fixture unavailable''
         else if mf_reason failure = [] then ''SKIP'' else ''SKIP: '' @ mf_reason failure)
      else or_default failure_message (or_default (mf_reason failure) ''measured case failed''))"

definition make_measured_success_result :: "double \<Rightarrow> ReportAttachment list \<Rightarrow> RunResult" where
  "make_measured_success_result wall_time_s attachments =
     empty_result\<lparr>rr_time_s := wall_time_s, rr_outcome := OutPass, rr_attachments := attachments\<rparr>"

definition record_measured_result :: "OrchestratorState \<Rightarrow> Case \<Rightarrow> RunResult \<Rightarrow> OrchestratorState" where
  "record_measured_result s c result =
     (if \<not> os_record_results s \<and> rr_summary_issues result = [] then s
      else upd_acc (\<lambda>acc. record_case_result acc c result (os_record_results s)) s)"

definition same_issue :: "MeasuredReportIssue \<Rightarrow> MeasuredReportIssue \<Rightarrow> bool" where
  "same_issue a b \<longleftrightarrow> mi_name a = mi_name b \<and> mi_file a = mi_file b \<and> mi_line a = mi_line b \<and> mi_message a = mi_message b"

fun append_unique_measured_issue :: "MeasuredReportIssue list \<Rightarrow> MeasuredReportIssue \<Rightarrow> MeasuredReportIssue list" where
  "append_unique_measured_issue [] issue = [issue]"
| "append_unique_measured_issue (x # xs) issue =
     (if same_issue x issue then x\<lparr>mi_infrastructure := mi_infrastructure x \<or> mi_infrastructure issue\<rparr> # xs
      else x # append_unique_measured_issue xs issue)"

definition record_measured_report_issue :: "OrchestratorState \<Rightarrow> Case \<Rightarrow> MeasurementCaseFailure \<Rightarrow> string \<Rightarrow> OrchestratorState" where
  "record_measured_report_issue s c failure failure_message =
     s\<lparr>os_measured_report_issues := append_unique_measured_issue (os_measured_report_issues s)
         \<lparr>mi_name = c_name c, mi_file = c_file c, mi_line = c_line c, mi_message = measured_issue_message failure failure_message,
          mi_infrastructure = mf_infra_failure failure\<rparr>\<rparr>"

definition record_measured_failure :: "OrchestratorState \<Rightarrow> Case \<Rightarrow> MeasurementCaseFailure \<Rightarrow> string \<Rightarrow> OrchestratorState" where
  "record_measured_failure s c failure failure_message =
     (let s1 = record_measured_report_issue s c failure failure_message;
          (file, line) = (if mf_source_file failure \<noteq> [] \<and> mf_source_line failure \<noteq> 0
                          then (mf_source_file failure, mf_source_line failure) else (c_file c, c_line c));
          annotation = or_default (or_default (mf_reason failure) failure_message) ''measured case failed'';
          s2 = (if mf_skipped failure then s1 else upd_acc (\<lambda>acc. add_error_annotation acc file line (c_name c) annotation) s1)
      in record_measured_result s2 c (make_measured_failure_result failure failure_message))"

definition is_machine_measured_report :: "CliOptions \<Rightarrow> bool" where
  "is_machine_measured_report opt \<longleftrightarrow> o_measured_report_format opt = FmtCsv \<or> o_measured_report_format opt = FmtJson"

definition machine_measured_report_format_name :: "CliOptions \<Rightarrow> string" where
  "machine_measured_report_format_name opt = (if o_measured_report_format opt = FmtJson then ''json'' else ''csv'')"

definition collect_measured_report_issues :: "RunAccumulator \<Rightarrow> MeasuredReportIssue list \<Rightarrow> MeasuredReportIssue list" where
  "collect_measured_report_issues acc measured_issues =
     foldl append_unique_measured_issue []
       (concat (map (\<lambda>item. map (\<lambda>issue. \<lparr>mi_name = f_name item, mi_file = f_file item, mi_line = f_line item, mi_message = issue,
                                            mi_infrastructure = issue \<in> set (infra_errors acc)\<rparr>) (f_issues item)) (failure_items acc))
        @ measured_issues)"

definition summary_item :: "FailureSummary \<Rightarrow> string" where
  "summary_item item =
     ''  '' @ f_name item @ (if f_file item \<noteq> [] \<and> f_line item \<noteq> 0 then '' ('' @ f_file item @ '':'' @ show_nat (f_line item) @ '')'' else [])
       @ '':'' @ [CHR 0x0A] @ concat (map (\<lambda>issue. ''    '' @ issue @ [CHR 0x0A]) (first_keys (f_issues item)))"

definition format_run_summary :: "TestCounters \<Rightarrow> TimedRunStatus \<Rightarrow> TimedRunStatus \<Rightarrow> RunAccumulator \<Rightarrow> string" where
  "format_run_summary counters bench jitter acc =
     ''Summary: passed '' @ show_nat (k_passed counters + ts_passed bench + ts_passed jitter)
     @ ''/'' @ show_nat (k_total counters + ts_total bench + ts_total jitter)
     @ ''; failed '' @ show_nat (k_failed counters + ts_failed bench + ts_failed jitter + length (infra_errors acc))
     @ ''; skipped '' @ show_nat (k_skipped counters + ts_skipped bench + ts_skipped jitter)
     @ ''; blocked '' @ show_nat (k_blocked counters + ts_blocked bench + ts_blocked jitter)
     @ ''; xfail '' @ show_nat (k_xfail counters) @ ''; xpass '' @ show_nat (k_xpass counters) @ ''.'' @ [CHR 0x0A]
     @ (if failure_items acc = [] then [] else ''Failed tests:'' @ [CHR 0x0A] @ concat (map summary_item (failure_items acc)))"

subsection \<open>Execution\<close>

record ('st, 'b, 'j) run_env =
  re_exec :: exec_env
  re_async :: "Case list \<Rightarrow> SuiteExecutionPlan list \<Rightarrow> bool \<Rightarrow> world \<Rightarrow> run_result"
  re_bench :: "('st, 'b) measure_env"
  re_jitter :: "('st, 'j) measure_env"
  re_behave :: behaviour
  re_thread :: nat
  re_reports :: report_env
  re_shuffle :: "u64 \<Rightarrow> idx list \<Rightarrow> idx list"
  re_hash :: "string \<Rightarrow> u64"
  re_bench_attachments :: "Case \<Rightarrow> 'b \<Rightarrow> ReportAttachment list"
  re_jitter_attachments :: "Case \<Rightarrow> 'j \<Rightarrow> int \<Rightarrow> ReportAttachment list"
  re_print_measured :: "(Case \<times> 'b) list \<Rightarrow> (Case \<times> 'j) list \<Rightarrow> CliOptions \<Rightarrow> MeasuredReportIssue list \<Rightarrow> bool \<Rightarrow> bool \<Rightarrow> chunk list"
  re_version :: string

text \<open>The process: runtime, shared fixtures, disk, the world of the measurements, console.\<close>

record 'st process =
  pr_rt :: rt
  pr_next_ctx :: nat
  pr_fixtures :: fixture_state
  pr_disk :: disk
  pr_measured :: 'st
  pr_console :: "chunk list"

definition out :: "string \<Rightarrow> chunk" where
  "out s = (StdOut, None, s)"

definition err :: "string \<Rightarrow> chunk" where
  "err s = (StdErr, None, s)"

definition say :: "chunk list \<Rightarrow> 'st process \<Rightarrow> 'st process" where
  "say cs p = p\<lparr>pr_console := pr_console p @ cs\<rparr>"

definition record_runner_failures :: "string \<Rightarrow> string list \<Rightarrow> RunAccumulator \<Rightarrow> RunAccumulator" where
  "record_runner_failures name messages acc = foldl (\<lambda>a m. record_runner_level_failure a name m) acc messages"

definition fresh_session :: SharedFixtureRuntimeSession where
  "fresh_session = \<lparr>ss_owns_gate = False, ss_gate_rejected = False, ss_owner_thread = None\<rparr>"

text \<open>The repetitions of the tests: each may print the seed, and a stopped one is the last.\<close>

fun repeat_tests :: "chunk list \<Rightarrow> (world \<Rightarrow> run_result) \<Rightarrow> nat \<Rightarrow> world \<Rightarrow> run_result" where
  "repeat_tests seed once 0 w = Inr (False, w)"
| "repeat_tests seed once (Suc n) w =
     then_run (once (w\<lparr>w_run := (w_run w)\<lparr>rs_console := rs_console (w_run w) @ seed\<rparr>\<rparr>)) (repeat_tests seed once n)"

definition run_test_phase ::
  "('st, 'b, 'j) run_env \<Rightarrow> Case list \<Rightarrow> CliOptions \<Rightarrow> SelectionResult \<Rightarrow> bool \<Rightarrow> bool \<Rightarrow> fixture_state \<Rightarrow> world \<Rightarrow> run_result" where
  "run_test_phase env cases opt sel record blocked fx w =
     (if blocked \<or> sel_test_idxs sel = [] then Inr (False, w)
      else let state = \<lparr>color_output = o_color_output opt, record_results = record, suppress_case_output = False\<rparr>;
               plans = build_suite_execution_plan (re_shuffle env) (re_hash env) cases (sel_test_idxs sel) (o_shuffle opt) (o_shuffle_seed opt);
               seed = out (''Shuffle seed: '' @ show_nat (unat (o_shuffle_seed opt)) @ [CHR 0x0A]);
               once = run_tests_once (re_async env) (re_exec env) state cases (o_fail_fast opt) fx plans;
               w1 = (if o_shuffle opt \<and> \<not> sel_has_selection sel
                     then w\<lparr>w_run := (w_run w)\<lparr>rs_console := rs_console (w_run w) @ [seed]\<rparr>\<rparr> else w)
           in repeat_tests (if o_shuffle opt \<and> sel_has_selection sel then [seed] else []) once (unat (o_repeat_n opt)) w1)"

record ('b, 'j) measured_acc =
  ma_state :: OrchestratorState
  ma_bench_rows :: "(Case \<times> 'b) list"
  ma_jitter_rows :: "(Case \<times> 'j) list"

definition upd_state :: "(OrchestratorState \<Rightarrow> OrchestratorState) \<Rightarrow> ('b, 'j) measured_acc \<Rightarrow> ('b, 'j) measured_acc" where
  "upd_state f a = a\<lparr>ma_state := f (ma_state a)\<rparr>"

definition on_bench_success :: "('st, 'b, 'j) run_env \<Rightarrow> CliOptions \<Rightarrow> Case \<Rightarrow> 'b \<Rightarrow> ('b, 'j) measured_acc \<Rightarrow> ('b, 'j) measured_acc" where
  "on_bench_success env opt c r a =
     (upd_state (\<lambda>s. record_measured_result s c (make_measured_success_result (m_wall_time_s (re_bench env) r)
        (if o_allure_dir opt \<noteq> None then re_bench_attachments env c r else []))) a)\<lparr>ma_bench_rows := ma_bench_rows a @ [(c, r)]\<rparr>"

definition on_jitter_success :: "('st, 'b, 'j) run_env \<Rightarrow> CliOptions \<Rightarrow> Case \<Rightarrow> 'j \<Rightarrow> ('b, 'j) measured_acc \<Rightarrow> ('b, 'j) measured_acc" where
  "on_jitter_success env opt c r a =
     (upd_state (\<lambda>s. record_measured_result s c (make_measured_success_result (m_wall_time_s (re_jitter env) r)
        (if o_allure_dir opt \<noteq> None then re_jitter_attachments env c r (o_jitter_bins opt) else []))) a)
       \<lparr>ma_jitter_rows := ma_jitter_rows a @ [(c, r)]\<rparr>"

definition on_measured_failure :: "Case \<Rightarrow> MeasurementCaseFailure \<Rightarrow> string \<Rightarrow> ('b, 'j) measured_acc \<Rightarrow> ('b, 'j) measured_acc" where
  "on_measured_failure c failure message = upd_state (\<lambda>s. record_measured_failure s c failure message)"

definition with_fixtures :: "fixture_state \<Rightarrow> ('st, 'r) measure_env \<Rightarrow> ('st, 'r) measure_env" where
  "with_fixtures fx m = m\<lparr>m_acquire := (\<lambda>c. acquire_case_fixture c fx)\<rparr>"

text \<open>What is left of an execution once the tests are done.\<close>

definition should_write_reports :: "CliOptions \<Rightarrow> SelectionResult \<Rightarrow> RunAccumulator \<Rightarrow> bool" where
  "should_write_reports opt sel acc \<longleftrightarrow>
     (if o_junit_path opt \<noteq> None then sel_idxs sel \<noteq> [] \<or> infra_errors acc \<noteq> []
      else o_allure_dir opt \<noteq> None \<and> (report_items acc \<noteq> [] \<or> infra_errors acc \<noteq> []))"

definition measured_report_chunks ::
  "('st, 'b, 'j) run_env \<Rightarrow> CliOptions \<Rightarrow> SelectionResult \<Rightarrow> TimedRunStatus \<Rightarrow> TimedRunStatus \<Rightarrow> ('b, 'j) measured_acc \<Rightarrow> RunAccumulator
     \<Rightarrow> chunk list" where
  "measured_report_chunks env opt sel bench jitter ma acc =
     (let machine = is_machine_measured_report opt; measured = sel_bench_idxs sel \<noteq> [] \<or> sel_jitter_idxs sel \<noteq> [];
          measured_only = sel_test_idxs sel = [] \<and> measured
      in if ts_total bench \<noteq> 0 \<or> ts_total jitter \<noteq> 0 \<or> machine \<and> measured_only \<and> measured
         then re_print_measured env (ma_bench_rows ma) (ma_jitter_rows ma) opt
                (collect_measured_report_issues acc (os_measured_report_issues (ma_state ma)))
                (ts_total bench \<noteq> 0 \<or> machine \<and> measured_only \<and> sel_bench_idxs sel \<noteq> [])
                (ts_total jitter \<noteq> 0 \<or> machine \<and> measured_only \<and> sel_jitter_idxs sel \<noteq> [])
         else [])"

definition summary_chunks ::
  "CliOptions \<Rightarrow> SelectionResult \<Rightarrow> TestCounters \<Rightarrow> TimedRunStatus \<Rightarrow> TimedRunStatus \<Rightarrow> RunAccumulator \<Rightarrow> chunk list" where
  "summary_chunks opt sel counters bench jitter acc =
     (if sel_idxs sel = [] \<and> failure_items acc = [] then []
      else let summary = format_run_summary counters bench jitter acc;
               measured_only = sel_test_idxs sel = [] \<and> (sel_bench_idxs sel \<noteq> [] \<or> sel_jitter_idxs sel \<noteq> [])
           in if is_machine_measured_report opt \<and> measured_only
              then (if failure_items acc \<noteq> [] \<or> infra_errors acc \<noteq> [] then [err summary] else [])
              else [out summary])"

definition run_measured_phase ::
  "('st, 'b, 'j) run_env \<Rightarrow> Case list \<Rightarrow> CliOptions \<Rightarrow> SelectionResult \<Rightarrow> bool \<Rightarrow> bool \<Rightarrow> fixture_state
     \<Rightarrow> ('st, ('b, 'j) measured_acc) measured_state \<Rightarrow> TimedRunStatus \<times> TimedRunStatus \<times> ('st, ('b, 'j) measured_acc) measured_state" where
  "run_measured_phase env cases opt sel blocked tests_stopped fx s =
     (let ff = o_fail_fast opt; machine = is_machine_measured_report opt;
          (bench, s1) = (if \<not> blocked \<and> \<not> (ff \<and> tests_stopped)
                         then run_selected (with_fixtures fx (re_bench env)) (on_bench_success env opt) on_measured_failure cases
                                ''benchmark'' ff machine (sel_bench_idxs sel) s
                         else (initial_status, s));
          (jitter, s2) = (if \<not> blocked \<and> \<not> (ff \<and> (tests_stopped \<or> ts_stopped bench))
                          then run_selected (with_fixtures fx (re_jitter env)) (on_jitter_success env opt) on_measured_failure cases
                                 ''jitter'' ff machine (sel_jitter_idxs sel) s1
                          else (initial_status, s1))
      in (bench, jitter, s2))"

definition measured_start :: "CliOptions \<Rightarrow> world \<Rightarrow> 'st process \<Rightarrow> ('st, ('b, 'j) measured_acc) measured_state" where
  "measured_start opt w p =
     \<lparr>ms_st = pr_measured p,
      ms_acc = \<lparr>ma_state = \<lparr>os_color_output = o_color_output opt, os_record_results = (o_junit_path opt \<noteq> None \<or> o_allure_dir opt \<noteq> None),
                             os_acc = the (rs_acc (w_run w)), os_measured_report_issues = []\<rparr>,
                ma_bench_rows = [], ma_jitter_rows = []\<rparr>,
      ms_console = rs_console (w_run w)\<rparr>"

definition report_config :: "CliOptions \<Rightarrow> ReportConfig" where
  "report_config opt = \<lparr>cfg_junit_path = o_junit_path opt, cfg_allure_dir = o_allure_dir opt\<rparr>"

definition finish_execution ::
  "('st, 'b, 'j) run_env \<Rightarrow> Case list \<Rightarrow> CliOptions \<Rightarrow> SelectionResult \<Rightarrow> bool \<Rightarrow> SharedFixtureRuntimeSession \<Rightarrow> fixture_state
     \<Rightarrow> bool \<Rightarrow> world \<Rightarrow> 'st process \<Rightarrow> nat \<times> 'st process" where
  "finish_execution env cases opt sel setup_ok session fx tests_stopped w p =
     (let counters = rs_counters (w_run w);
          record = (o_junit_path opt \<noteq> None \<or> o_allure_dir opt \<noteq> None);
          (bench, jitter, s) = run_measured_phase env cases opt sel (ss_gate_rejected session) tests_stopped fx (measured_start opt w p);
          (teardown_ok, teardown_errors, session', fx') = teardown_shared_fixture_runtime (re_behave env) (re_thread env) session fx;
          acc1 = os_acc (ma_state (ms_acc s));
          acc2 = (if teardown_ok then acc1
                  else record_runner_failures ''gentest/shared_fixture_teardown''
                         (if teardown_errors = [] then [''shared fixture teardown failed''] else teardown_errors) acc1);
          reports = write_reports (re_reports env) (report_config opt) acc2 (pr_disk p);
          (acc3, disk') = (if record \<and> should_write_reports opt sel acc2 then (s_acc reports, s_disk reports) else (acc2, pr_disk p));
          chunks = (if o_github_annotations opt
                    then [(if is_machine_measured_report opt then StdErr else StdOut, None, emit_github_annotations acc3)] else [])
                   @ measured_report_chunks env opt sel bench jitter (ms_acc s) acc3
                   @ summary_chunks opt sel counters bench jitter acc3;
          ok = (k_failures counters = 0 \<and> k_blocked counters = 0 \<and> ts_ok bench \<and> ts_ok jitter \<and> setup_ok \<and> teardown_ok
                \<and> infra_errors acc3 = [])
      in (if ok then 0 else 1,
          \<lparr>pr_rt = w_rt w, pr_next_ctx = w_next_ctx w, pr_fixtures = fx', pr_disk = disk', pr_measured = ms_st s,
           pr_console = ms_console s @ chunks\<rparr>))"

definition start_world :: "bool \<Rightarrow> string list \<Rightarrow> 'st process \<Rightarrow> world" where
  "start_world setup_ok errors p =
     \<lparr>w_run = \<lparr>rs_counters = zero_counters,
               rs_acc = Some (if setup_ok then empty_accumulator
                              else record_runner_failures ''gentest/shared_fixture_setup'' errors empty_accumulator),
               rs_console = pr_console p\<rparr>,
      w_rt = pr_rt p, w_next_ctx = pr_next_ctx p\<rparr>"

definition run_execution ::
  "('st, 'b, 'j) run_env \<Rightarrow> Case list \<Rightarrow> CliOptions \<Rightarrow> SelectionResult \<Rightarrow> 'st process \<Rightarrow> invoke_outcome + nat \<times> 'st process" where
  "run_execution env cases opt sel p =
     (let record = (o_junit_path opt \<noteq> None \<or> o_allure_dir opt \<noteq> None);
          (setup_ok, errors, session, fx) =
             setup_shared_fixture_runtime (re_behave env) (re_thread env) fresh_session (pr_fixtures p)
      in case run_test_phase env cases opt sel record (ss_gate_rejected session) fx (start_world setup_ok errors p) of
           Inl e \<Rightarrow> Inl e
         | Inr (tests_stopped, w) \<Rightarrow> Inr (finish_execution env cases opt sel setup_ok session fx tests_stopped w p))"

subsection \<open>Modes and selection errors\<close>

definition line :: "string \<Rightarrow> string" where
  "line s = s @ [CHR 0x0A]"

definition list_json_chunks :: "Case list \<Rightarrow> chunk list" where
  "list_json_chunks cases =
     [out (line ''['')]
     @ map (\<lambda>i. out (line (''  '' @ format_inventory_case_json (cases ! i) @ (if i + 1 = length cases then [] else '',''))))
           [0..<length cases]
     @ [out (line '']'')]"

definition help_lines :: "string list" where
  "help_lines =
     [''Usage: [options]'',
      ''  --help                Show this help'',
      ''  --list-tests          List test names (one per line)'',
      ''  --list                List tests with metadata'',
      ''  --list-json           List test inventory as JSON'',
      ''  --list-death          List death test names (one per line)'',
      ''  --list-benches        List benchmark/jitter names (one per line)'',
      ''  --run=<name>          Run a single case by exact name'',
      ''  --filter=<pattern>    Run cases matching wildcard pattern (*, ?)'',
      ''  --kind=<kind>         Restrict to kind: all|test|bench|jitter (default all)'',
      ''  --include-death       Allow running tests tagged '' @ quoted ''death'',
      ''  --no-color            Disable colorized output (also disabled for dumb/captured output)'',
      ''  --github-annotations  Emit GitHub Actions annotations (::error ...) on failures'',
      ''  --junit=<file>        Write JUnit XML report to file'',
      ''  --allure-dir=<dir>    Write Allure result JSON files into directory'',
      ''  --time-unit=<mode>    Time display unit: auto|ns (default auto)'',
      ''  --report-format=<mode> Measured reports: table|markdown|csv|json (default table)'',
      ''  --fail-fast           Stop after the first failing case'',
      ''  --repeat=N            Repeat selected tests N times (default 1)'',
      ''  --async-log-tail=N    Live async log lines per case (default 5, 0 disables)'',
      ''  --shuffle             Shuffle tests (respects fixture/grouping)'',
      ''  --seed N              RNG seed used with --shuffle'',
      [],
      ''Benchmark options:'',
      ''  --bench-table         Print a summary table per suite (runs benches)'',
      ''  --bench-min-epoch-time-s=<sec>  Minimum epoch time'',
      ''  --bench-epochs=<N>    Measurement epochs (default 12)'',
      ''  --bench-warmup=<N>    Warmup epochs (default 1)'',
      ''  --bench-min-total-time-s=<sec>  Min total time per benchmark (may exceed --bench-epochs)'',
      ''  --bench-max-total-time-s=<sec>  Max total time per benchmark'',
      [],
      ''Jitter options:'',
      ''  --jitter-bins=<N>     Histogram bins (default 10)'']"

definition help_chunks :: "string \<Rightarrow> chunk list" where
  "help_chunks version = map (\<lambda>l. out (line l)) ((''gentest v'' @ version) # help_lines)"

definition list_chunks :: "string \<Rightarrow> Mode \<Rightarrow> Case list \<Rightarrow> chunk list" where
  "list_chunks version mode cases =
     (case mode of
        Help \<Rightarrow> help_chunks version
      | ListTests \<Rightarrow> map (\<lambda>c. out (line (c_name c))) cases
      | ListMeta \<Rightarrow> map (\<lambda>c. out (line (c_name c @ format_list_sections c @ '' ('' @ c_file c @ '':'' @ show_nat (c_line c) @ '')''))) cases
      | ListJson \<Rightarrow> list_json_chunks cases
      | ListDeath \<Rightarrow> map (\<lambda>c. out (line (c_name c))) (filter (\<lambda>c. has_tag_ci c ''death'' \<and> \<not> c_should_skip c) cases)
      | ListBenches \<Rightarrow> map (\<lambda>c. out (line (c_name c))) (filter (\<lambda>c. c_is_benchmark c \<or> c_is_jitter c) cases)
      | Execute \<Rightarrow> [])"

definition reject_machine_measured_report_unmeasured_selection :: "CliOptions \<Rightarrow> chunk list" where
  "reject_machine_measured_report_unmeasured_selection opt =
     [err (line (''error: --report-format='' @ machine_measured_report_format_name opt
        @ '' requires a measured-only selection; use --kind=bench, --kind=jitter, or a measured-only filter''))]"

definition print_empty_machine_measured_report :: "('st, 'b, 'j) run_env \<Rightarrow> CliOptions \<Rightarrow> bool \<Rightarrow> bool \<Rightarrow> chunk list" where
  "print_empty_machine_measured_report env opt include_bench include_jitter = re_print_measured env [] [] opt [] include_bench include_jitter"

definition death_note :: "SelectionResult \<Rightarrow> string" where
  "death_note sel = line (''Note: excluded '' @ show_nat (sel_filtered_death sel) @ '' death test(s). Use --include-death to run them.'')"

text \<open>The selection statuses that end the run: exit code and output; \<open>None\<close> means that it goes on.\<close>

definition selection_exit ::
  "('st, 'b, 'j) run_env \<Rightarrow> Case list \<Rightarrow> CliOptions \<Rightarrow> SelectionResult \<Rightarrow> (nat \<times> chunk list) option" where
  "selection_exit env cases opt sel =
     (let run_exact = the (o_run_exact opt); pat = the (o_filter_pat opt); machine = is_machine_measured_report opt
      in case sel_status sel of
           SelOk \<Rightarrow> None
         | CaseNotFound \<Rightarrow> Some (3, [err (line (''Case not found: '' @ run_exact))])
         | KindMismatch \<Rightarrow>
             Some (1, [err (line (''Case '' @ quoted run_exact @ '' does not match --kind='' @ kind_to_string (o_kind opt)))])
         | Ambiguous \<Rightarrow>
             Some (1, [err (line (''Case name is ambiguous: '' @ run_exact)), err (line ''Matches:'')]
                      @ map (\<lambda>i. err (line (''  '' @ c_name (cases ! i)))) (sel_ambiguous_matches sel))
         | FilterNoBenchMatch \<Rightarrow>
             Some (1, [err (line (''benchmark filter matched 0 benchmarks: '' @ pat)), err (line ''hint: use --list-benches to see available names'')])
         | FilterNoJitterMatch \<Rightarrow>
             Some (1, [err (line (''jitter filter matched 0 jitter benchmarks: '' @ pat)), err (line ''hint: use --list-benches to see available names'')])
         | ZeroSelected \<Rightarrow>
             Some (if machine
                   then (case o_kind opt of
                           KindTest \<Rightarrow> (1, reject_machine_measured_report_unmeasured_selection opt)
                         | KindBench \<Rightarrow> (0, print_empty_machine_measured_report env opt True False)
                         | KindJitter \<Rightarrow> (0, print_empty_machine_measured_report env opt False True)
                         | KindAll \<Rightarrow> (0, print_empty_machine_measured_report env opt True True))
                   else (0, [out (line (case o_kind opt of
                           KindTest \<Rightarrow> ''Executed 0 test(s).'' | KindBench \<Rightarrow> ''Executed 0 benchmark(s).''
                         | KindJitter \<Rightarrow> ''Executed 0 jitter benchmark(s).'' | KindAll \<Rightarrow> ''Executed 0 case(s).''))]))
         | DeathExcludedExact \<Rightarrow>
             Some (1, [err (line (''Case '' @ quoted run_exact @ '' is tagged as a death test; rerun with --include-death''))])
         | DeathExcludedAll \<Rightarrow>
             Some (if machine
                   then let all = select_cases cases (opt\<lparr>o_include_death := True\<rparr>);
                            measured_only = sel_status all = SelOk \<and> sel_test_idxs all = [] \<and> (sel_bench_idxs all \<noteq> [] \<or> sel_jitter_idxs all \<noteq> [])
                        in if \<not> measured_only then (1, reject_machine_measured_report_unmeasured_selection opt)
                           else (0, [err (death_note sel)]
                                    @ print_empty_machine_measured_report env opt (sel_bench_idxs all \<noteq> []) (sel_jitter_idxs all \<noteq> []))
                   else (0, [out (line ''Executed 0 case(s). (death tests excluded; use --include-death)'')])))"

definition run_from_options ::
  "('st, 'b, 'j) run_env \<Rightarrow> Case list \<Rightarrow> CliOptions \<Rightarrow> 'st process \<Rightarrow> invoke_outcome + nat \<times> 'st process" where
  "run_from_options env cases opt p =
     (if o_mode opt \<noteq> Execute then Inr (0, say (list_chunks (re_version env) (o_mode opt) cases) p)
      else let sel = select_cases cases opt; machine = is_machine_measured_report opt
           in case selection_exit env cases opt sel of
                Some (code, cs) \<Rightarrow> Inr (code, say cs p)
              | None \<Rightarrow>
                  if machine \<and> sel_test_idxs sel \<noteq> []
                  then Inr (1, say (reject_machine_measured_report_unmeasured_selection opt) p)
                  else run_execution env cases opt sel
                         (if sel_filtered_death sel > 0 then say [if machine then err (death_note sel) else out (death_note sel)] p else p))"

subsection \<open>Repeated tests\<close>

lemma count_fold:
  "k_failures (foldl (\<lambda>c v. count_outcome (f v) c) c vs) = 0 \<and> k_blocked (foldl (\<lambda>c v. count_outcome (f v) c) c vs) = 0
     \<longleftrightarrow> k_failures c = 0 \<and> k_blocked c = 0 \<and> \<not> list_ex (\<lambda>v. is_bad (f v)) vs"
proof (induction vs arbitrary: c)
  case (Cons v vs)
  have "k_failures (count_outcome r c) = 0 \<and> k_blocked (count_outcome r c) = 0 \<longleftrightarrow> k_failures c = 0 \<and> k_blocked c = 0 \<and> \<not> is_bad r" for r
    by (cases r) (auto simp: inc_defs)
  then show ?case using Cons.IH by auto
qed simp

lemma visited_bad: "list_ex (\<lambda>v. is_bad (visit_outcome env cases v)) (visited env cases ff vs) \<longleftrightarrow> list_ex (\<lambda>v. is_bad (visit_outcome env cases v)) vs"
proof -
  have "list_ex P (upto_first P xs) \<longleftrightarrow> list_ex P xs" for P and xs :: "(idx \<times> (string + nat option)) list"
    by (induction xs) auto
  then show ?thesis by (simp add: visited_def)
qed

definition clean :: "world \<Rightarrow> bool" where
  "clean w \<longleftrightarrow> k_failures (rs_counters (w_run w)) = 0 \<and> k_blocked (rs_counters (w_run w)) = 0"

lemma repeat_tests_spec:
  assumes "world_ok w" and "ff \<Longrightarrow> clean w"
  shows "\<exists>stopped w'. repeat_tests seed (\<lambda>w. run_visits env state cases ff vs w) n w = Inr (stopped, w')
    \<and> world_ok w' \<and> infra_of (w_run w') = infra_of (w_run w)
    \<and> (clean w' \<longleftrightarrow> clean w \<and> (n = 0 \<or> \<not> list_ex (\<lambda>v. is_bad (visit_outcome env cases v)) vs))"
  using assms
proof (induction n arbitrary: w)
  case 0
  then show ?case by (intro exI[of _ False] exI[of _ w]) simp
next
  case (Suc n)
  let ?w = "w\<lparr>w_run := (w_run w)\<lparr>rs_console := rs_console (w_run w) @ seed\<rparr>\<rparr>" and ?bad = "list_ex (\<lambda>v. is_bad (visit_outcome env cases v)) vs"
  have w: "world_ok ?w" "clean ?w = clean w" "infra_of (w_run ?w) = infra_of (w_run w)"
    using Suc.prems(1) by (simp_all add: clean_def infra_of_def)
  obtain w1 where 1: "run_visits env state cases ff vs ?w = Inr (ff \<and> ?bad, w1)" "world_ok w1" "infra_of (w_run w1) = infra_of (w_run w)"
      "rs_counters (w_run w1) = foldl (\<lambda>c v. count_outcome (visit_outcome env cases v) c) (rs_counters (w_run ?w)) (visited env cases ff vs)"
    using run_visits_spec[OF w(1), of ff env state cases vs] Suc.prems(2) w(2,3) by (auto simp: clean_def)
  have c1: "clean w1 \<longleftrightarrow> clean w \<and> \<not> ?bad"
    using count_fold[of "visit_outcome env cases" "rs_counters (w_run ?w)" "visited env cases ff vs"] w(2) 1(4)
    by (auto simp: clean_def visited_bad)
  show ?case
  proof (cases "ff \<and> ?bad")
    case True
    then show ?thesis using 1 c1 by (intro exI[of _ True] exI[of _ w1]) (simp add: then_run_def)
  next
    case False
    then have "ff \<Longrightarrow> clean w1" using c1 Suc.prems(2) by blast
    from Suc.IH[OF 1(2) this] show ?thesis using False 1 c1 by (auto simp: then_run_def)
  qed
qed

subsection \<open>Runner-level errors\<close>

lemma record_runner_failures_infra: "infra_errors (record_runner_failures name ms acc) = infra_errors acc @ ms"
  unfolding record_runner_failures_def
  by (induction ms arbitrary: acc) (simp_all add: record_runner_level_failure_def record_failure_summary_def Let_def)

lemma setup_errors_nonempty: "setup_errors reg \<noteq> []"
  by (simp add: setup_errors_def Let_def)

lemma setup_runtime_errors:
  "setup_shared_fixture_runtime b t s st = (ok, errs, s', st') \<Longrightarrow> (errs = []) = ok"
  using setup_errors_nonempty
  by (auto simp: setup_shared_fixture_runtime_def split: prod.splits option.splits bool.splits)

lemma record_measured_infra [simp]:
  "infra_errors (os_acc (record_measured_result s c r)) = infra_errors (os_acc s)"
  "infra_errors (os_acc (record_measured_failure s c f m)) = infra_errors (os_acc s)"
  by (simp_all add: record_measured_result_def record_measured_failure_def record_measured_report_issue_def upd_acc_def
      record_case_result_def record_failure_summary_def add_error_annotation_def Let_def split_beta)

text \<open>What no callback changes, no measured run changes.\<close>

lemma run_measured_cases_keeps:
  assumes "\<And>c r a. g (os c r a) = g a" and "\<And>c f m a. g (onf c f m a) = g a"
  shows "g (ms_acc (snd (run_measured_cases env os onf cases k ff mr is sts s))) = g (ms_acc s)"
proof (induction "is" arbitrary: sts s)
  case (Cons i "is")
  obtain sts' s' where st: "measured_step env os onf k ff mr (cases ! i) sts s = (sts', s')" by fastforce
  obtain ok r f w where c: "run_measured_case env (cases ! i) (ms_st s) = (ok, r, f, w)" by (metis prod_cases4)
  have "g (ms_acc (snd (measured_step env os onf k ff mr (cases ! i) sts s))) = g (ms_acc s)"
    using assms by (simp add: measured_step_def c Let_def)
  then show ?case using Cons.IH[of sts' s'] st by simp
qed simp

lemma run_measured_phase_infra:
  assumes "run_measured_phase env cases opt sel blocked stopped fx s = (bench, jitter, s')"
  shows "infra_errors (os_acc (ma_state (ms_acc s'))) = infra_errors (os_acc (ma_state (ms_acc s)))"
proof -
  let ?g = "\<lambda>a. infra_errors (os_acc (ma_state a))"
  have cb: "?g (on_bench_success env opt c r a) = ?g a" "?g (on_jitter_success env opt c r' a) = ?g a" "?g (on_measured_failure c f m a) = ?g a"
    for c r r' f m and a :: "('b, 'c) measured_acc"
    by (simp_all add: on_bench_success_def on_jitter_success_def on_measured_failure_def upd_state_def)
  have b: "?g (ms_acc (snd (run_selected e (on_bench_success env opt) on_measured_failure cases k ff mr is u))) = ?g (ms_acc u)"
    for e k ff mr "is" and u :: "('a, ('b, 'c) measured_acc) measured_state"
    using run_measured_cases_keeps[of ?g "on_bench_success env opt" on_measured_failure e cases k ff mr "is" initial_status u, OF cb(1,3)] by (simp add: run_selected_def)
  have j: "?g (ms_acc (snd (run_selected e (on_jitter_success env opt) on_measured_failure cases k ff mr is u))) = ?g (ms_acc u)"
    for e k ff mr "is" and u :: "('a, ('b, 'c) measured_acc) measured_state"
    using run_measured_cases_keeps[of ?g "on_jitter_success env opt" on_measured_failure e cases k ff mr "is" initial_status u, OF cb(2,3)] by (simp add: run_selected_def)
  show ?thesis using assms b j unfolding run_measured_phase_def Let_def
    by (auto split: if_splits prod.splits) (metis snd_conv)+
qed


lemma reports_infra:
  "infra_errors (s_acc (write_reports env cfg acc d)) = [] \<longleftrightarrow> infra_errors acc = [] \<and> s_report_ok (write_reports env cfg acc d)"
  using write_reports_inv[of acc env cfg d] by (auto simp: clean_acc_def failed_acc_def grown_acc_def)

subsection \<open>The exit code\<close>

text \<open>A process that can start a run, and a selection without asynchronous cases.\<close>

definition can_run :: "'st process \<Rightarrow> bool" where
  "can_run p \<longleftrightarrow> world_ok (start_world True [] p) \<and> idle (pr_fixtures p) fresh_session"

definition all_sync :: "Case list \<Rightarrow> idx list \<Rightarrow> bool" where
  "all_sync cases is \<longleftrightarrow> list_all (\<lambda>i. c_async_fn (cases ! i) = None) is"

lemma plans_sync:
  assumes "all_sync cases idxs" and "permutes_input rng"
  shows "\<not> plans_include_async_cases cases (build_suite_execution_plan rng h cases idxs shuffle seed)"
proof -
  let ?plans = "build_suite_execution_plan rng h cases idxs shuffle seed"
  have "set (plan_order ?plans) = set idxs" using built_plan_order[OF assms(2)] by (metis set_mset_mset)
  then have "\<forall>i\<in>set (plan_order ?plans). c_async_fn (cases ! i) = None" using assms(1) by (simp add: all_sync_def list_all_iff)
  then show ?thesis by (auto simp: plans_include_async_cases_def plan_order_def list_ex_iff)
qed

lemma run_test_phase_spec:
  assumes "world_ok w" and "clean w" and "permutes_input (re_shuffle env)" and "all_sync cases (sel_test_idxs sel)" and "o_repeat_n opt \<noteq> 0"
  shows "\<exists>stopped w'. run_test_phase env cases opt sel record False fx w = Inr (stopped, w') \<and> world_ok w'
    \<and> infra_of (w_run w') = infra_of (w_run w)
    \<and> (clean w' \<longleftrightarrow> (\<forall>i\<in>set (sel_test_idxs sel). \<not> is_bad (visit_outcome (re_exec env) cases (case_visit cases fx i))))"
proof (cases "sel_test_idxs sel = []")
  case True
  then show ?thesis using assms(1,2) by (simp add: run_test_phase_def) (metis)
next
  case False
  let ?plans = "build_suite_execution_plan (re_shuffle env) (re_hash env) cases (sel_test_idxs sel) (o_shuffle opt) (o_shuffle_seed opt)"
  let ?vs = "map (case_visit cases fx) (plan_order ?plans)"
  let ?state = "\<lparr>color_output = o_color_output opt, record_results = record, suppress_case_output = False\<rparr>"
  have once: "run_tests_once (re_async env) (re_exec env) ?state cases (o_fail_fast opt) fx ?plans
      = (\<lambda>w. run_visits (re_exec env) ?state cases (o_fail_fast opt) ?vs w)"
    using plans_sync[OF assms(4,3)] built_plan_uniform[OF assms(3)]
    by (simp add: run_tests_once_def run_tests_sync_visits plan_visits_uniform fun_eq_iff)
  have n: "unat (o_repeat_n opt) \<noteq> 0" using assms(5) by (simp add: unat_eq_0)
  have bad: "list_ex (\<lambda>v. is_bad (visit_outcome (re_exec env) cases v)) ?vs
      \<longleftrightarrow> (\<exists>i\<in>set (sel_test_idxs sel). is_bad (visit_outcome (re_exec env) cases (case_visit cases fx i)))"
  proof -
    have "set (plan_order ?plans) = set (sel_test_idxs sel)" using built_plan_order[OF assms(3)] by (metis set_mset_mset)
    then show ?thesis by (simp add: list_ex_iff)
  qed
  define w1 where "w1 = (if o_shuffle opt \<and> \<not> sel_has_selection sel
     then w\<lparr>w_run := (w_run w)\<lparr>rs_console := rs_console (w_run w) @ [out (''Shuffle seed: '' @ show_nat (unat (o_shuffle_seed opt)) @ [CHR 0x0A])]\<rparr>\<rparr> else w)"
  have w1: "world_ok w1" "clean w1" "infra_of (w_run w1) = infra_of (w_run w)"
    using assms(1,2) by (simp_all add: w1_def clean_def infra_of_def)
  define seed where "seed = (if o_shuffle opt \<and> sel_has_selection sel then [out (''Shuffle seed: '' @ show_nat (unat (o_shuffle_seed opt)) @ [CHR 0x0A])] else [])"
  have "run_test_phase env cases opt sel record False fx w
      = repeat_tests seed (\<lambda>w. run_visits (re_exec env) ?state cases (o_fail_fast opt) ?vs w) (unat (o_repeat_n opt)) w1"
    using False unfolding run_test_phase_def Let_def once w1_def seed_def by simp
  then show ?thesis
    using repeat_tests_spec[OF w1(1), of "o_fail_fast opt" seed "re_exec env" ?state cases ?vs "unat (o_repeat_n opt)"] w1 n bad by auto
qed

lemma finish_execution_code:
  assumes "teardown_shared_fixture_runtime (re_behave env) (re_thread env) session fx = (teardown_ok, terrs, session', fx')"
    and "run_measured_phase env cases opt sel (ss_gate_rejected session) stopped fx (measured_start opt w p) = (bench, jitter, s)"
    and "infra_of (w_run w) = Some errs" and "acc = os_acc (ma_state (ms_acc s))"
  shows "\<exists>p'. finish_execution env cases opt sel setup_ok session fx stopped w p =
      (if clean w \<and> setup_ok \<and> teardown_ok \<and> ts_ok bench \<and> ts_ok jitter \<and> errs = []
          \<and> ((o_junit_path opt \<noteq> None \<or> o_allure_dir opt \<noteq> None) \<and> should_write_reports opt sel acc
                \<longrightarrow> s_report_ok (write_reports (re_reports env) (report_config opt) acc (pr_disk p)))
       then 0 else 1, p') \<and> pr_fixtures p' = fx'"
proof -
  have "infra_errors acc = errs"
    using run_measured_phase_infra[OF assms(2)] assms(3,4) by (auto simp: measured_start_def infra_of_def)
  moreover have "infra_errors (record_runner_failures n (if terrs = [] then [m] else terrs) acc) \<noteq> []" for n m
    by (simp add: record_runner_failures_infra)
  ultimately show ?thesis
    unfolding finish_execution_def Let_def assms(1,2) prod.case assms(4)[symmetric]
    by (auto simp: clean_def reports_infra split: prod.splits if_splits)
qed


subsection \<open>Measured cases in the reports\<close>

definition report_names :: "('b, 'j) measured_acc \<Rightarrow> string list" where
  "report_names a = map i_name (report_items (os_acc (ma_state a)))"

definition reporting_on :: "('b, 'j) measured_acc \<Rightarrow> bool" where
  "reporting_on a \<longleftrightarrow> os_record_results (ma_state a)"

lemma record_measured_names:
  "os_record_results s \<Longrightarrow> os_record_results (record_measured_result s c r)
     \<and> map i_name (report_items (os_acc (record_measured_result s c r))) = map i_name (report_items (os_acc s)) @ [c_name c]"
  "os_record_results s \<Longrightarrow> os_record_results (record_measured_failure s c f m)
     \<and> map i_name (report_items (os_acc (record_measured_failure s c f m))) = map i_name (report_items (os_acc s)) @ [c_name c]"
  by (simp_all add: record_measured_result_def record_measured_failure_def record_measured_report_issue_def upd_acc_def
      record_case_result_def record_failure_summary_def make_report_item_def add_error_annotation_def Let_def split_beta)

interpretation bench_log: measured_log report_names reporting_on "on_bench_success env opt" on_measured_failure
  for env :: "('st, 'b, 'j) run_env" and opt
  by unfold_locales
     (simp_all add: on_bench_success_def on_measured_failure_def upd_state_def report_names_def reporting_on_def record_measured_names)

interpretation jitter_log: measured_log report_names reporting_on "on_jitter_success env opt" on_measured_failure
  for env :: "('st, 'b, 'j) run_env" and opt
  by unfold_locales
     (simp_all add: on_jitter_success_def on_measured_failure_def upd_state_def report_names_def reporting_on_def record_measured_names)

text \<open>
  When a report was requested, every benchmark and jitter case that was run, whether it passed,
  was skipped, blocked or failed, has exactly one report item, in the order of the selection: first
  the benchmarks that were run, then the jitter cases, after what was reported before.
\<close>

theorem measured_cases_reported_once:
  assumes "run_measured_phase env cases opt sel blocked stopped fx s = (bench, jitter, s')" and "os_record_results (ma_state (ms_acc s))"
  shows "map i_name (report_items (os_acc (ma_state (ms_acc s')))) =
      map i_name (report_items (os_acc (ma_state (ms_acc s))))
      @ map (\<lambda>i. c_name (cases ! i)) (take (ts_total bench) (sel_bench_idxs sel))
      @ map (\<lambda>i. c_name (cases ! i)) (take (ts_total jitter) (sel_jitter_idxs sel))"
proof -
  have z: "ts_total initial_status = 0" by (simp add: initial_status_def)
  obtain s1 where b: "(if \<not> blocked \<and> \<not> (o_fail_fast opt \<and> stopped)
      then run_selected (with_fixtures fx (re_bench env)) (on_bench_success env opt) on_measured_failure cases
             ''benchmark'' (o_fail_fast opt) (is_machine_measured_report opt) (sel_bench_idxs sel) s
      else (initial_status, s)) = (bench, s1)"
    and j: "(if \<not> blocked \<and> \<not> (o_fail_fast opt \<and> (stopped \<or> ts_stopped bench))
      then run_selected (with_fixtures fx (re_jitter env)) (on_jitter_success env opt) on_measured_failure cases
             ''jitter'' (o_fail_fast opt) (is_machine_measured_report opt) (sel_jitter_idxs sel) s1
      else (initial_status, s1)) = (jitter, s')"
    using assms(1) unfolding run_measured_phase_def Let_def by (auto split: prod.splits)
  have g: "reporting_on (ms_acc s)" using assms(2) by (simp add: reporting_on_def)
  have 1: "reporting_on (ms_acc s1) \<and> report_names (ms_acc s1)
      = report_names (ms_acc s) @ map (\<lambda>i. c_name (cases ! i)) (take (ts_total bench) (sel_bench_idxs sel))"
  proof (cases "\<not> blocked \<and> \<not> (o_fail_fast opt \<and> stopped)")
    case True
    show ?thesis by (rule bench_log.selected_log[OF g b[unfolded if_P[OF True]]])
  next
    case False
    then show ?thesis using b[unfolded if_not_P[OF False]] g z by auto
  qed
  have "report_names (ms_acc s') = report_names (ms_acc s1) @ map (\<lambda>i. c_name (cases ! i)) (take (ts_total jitter) (sel_jitter_idxs sel))"
  proof (cases "\<not> blocked \<and> \<not> (o_fail_fast opt \<and> (stopped \<or> ts_stopped bench))")
    case True
    show ?thesis using jitter_log.selected_log[OF conjunct1[OF 1] j[unfolded if_P[OF True]]] by blast
  next
    case False
    then show ?thesis using j[unfolded if_not_P[OF False]] z by auto
  qed
  with 1 show ?thesis by (simp add: report_names_def)
qed

subsection \<open>Exit code 3\<close>

lemma run_execution_code: "run_execution env cases opt sel p = Inr (code, p') \<Longrightarrow> code \<le> 1"
  by (auto simp: run_execution_def finish_execution_def Let_def split: prod.splits sum.splits if_splits)

lemma selection_exit_code: "selection_exit env cases opt sel = Some (code, cs) \<Longrightarrow> code = 3 \<longleftrightarrow> sel_status sel = CaseNotFound"
  by (cases "sel_status sel"; cases "o_kind opt") (auto simp: selection_exit_def Let_def split: if_splits)

text \<open>
  Exit code 3 means exactly one thing: an execution was asked for with a case name that no case
  has.  No listing, no other selection error and no outcome of an execution ends with it, and when
  it is returned nothing was run: fixtures, disk, runtime and measurements are untouched.
\<close>

theorem exit_code_case_not_found:
  "((\<exists>p'. run_from_options env cases opt p = Inr (3, p'))
      \<longleftrightarrow> o_mode opt = Execute \<and> sel_status (select_cases cases opt) = CaseNotFound)
   \<and> \<not> (\<exists>p'. run_from_options env cases opt p = Inr (3, p') \<and> p'\<lparr>pr_console := pr_console p\<rparr> \<noteq> p)"
proof -
  let ?sel = "select_cases cases opt"
  have *: "run_from_options env cases opt p = Inr (3, p')
      \<longleftrightarrow> o_mode opt = Execute \<and> sel_status ?sel = CaseNotFound \<and> p' = say [err (line (''Case not found: '' @ the (o_run_exact opt)))] p" for p'
  proof (cases "selection_exit env cases opt ?sel")
    case None
    then have "sel_status ?sel = SelOk" by (auto simp: selection_exit_def Let_def split: SelectionStatus.splits)
    then show ?thesis using None by (auto simp: run_from_options_def Let_def dest!: run_execution_code)
  next
    case (Some x)
    obtain code cs where x: "x = (code, cs)" by fastforce
    have "sel_status ?sel = CaseNotFound \<Longrightarrow> cs = [err (line (''Case not found: '' @ the (o_run_exact opt)))]"
      using Some x by (simp add: selection_exit_def Let_def)
    then show ?thesis using Some x selection_exit_code[of env cases opt ?sel code cs] by (auto simp: run_from_options_def Let_def)
  qed
  show ?thesis unfolding * by (auto simp: say_def)
qed

subsection \<open>A small process\<close>

definition quiet_invoke :: InvokeResult where
  "quiet_invoke = \<lparr>v_ctxinfo = new_context, v_exception = ExcNone, v_elapsed_s = DFinite 0, v_message = []\<rparr>"

definition demo_measure :: "(unit, unit) measure_env" where
  "demo_measure = \<lparr>m_acquire = (\<lambda>_. Inr None), m_invoke = (\<lambda>_ _ _ st. (quiet_invoke, [], st)), m_call = (\<lambda>_ _ f st. ((), f, [], st)),
     m_wall_time_s = (\<lambda>_. DFinite 1), m_zero = (), m_elapsed = (\<lambda>_. DFinite 1), m_tick = DFinite 1\<rparr>"

definition demo_env :: "(unit, unit, unit) run_env" where
  "demo_env = \<lparr>re_exec = \<lparr>e_bodies = (\<lambda>_ _. ([ULog ''hello''], None)), e_elapsed = (\<lambda>_. DFinite 0)\<rparr>, re_async = (\<lambda>_ _ _ w. Inr (False, w)),
     re_bench = demo_measure, re_jitter = demo_measure, re_behave = demo_behaviour, re_thread = 7, re_reports = sample_report_env,
     re_shuffle = (\<lambda>_. rev), re_hash = (\<lambda>_. 0), re_bench_attachments = (\<lambda>_ _. []), re_jitter_attachments = (\<lambda>_ _ _. []),
     re_print_measured = (\<lambda>_ _ _ _ _ _. []), re_version = ''1''\<rparr>"

definition demo_process :: "unit process" where
  "demo_process = \<lparr>pr_rt = cf_rt initial_cfg, pr_next_ctx = 0, pr_fixtures = empty_fixture_state,
     pr_disk = \<lparr>d_attempts = 0, d_files = Map.empty\<rparr>, pr_measured = (), pr_console = []\<rparr>"

definition demo_selection :: SelectionResult where
  "demo_selection = empty_selection\<lparr>sel_idxs := [0, 2], sel_test_idxs := [0, 2]\<rparr>"

lemma demo_can_run: "can_run demo_process"
  using sample_world_ok(1)
  by (simp add: can_run_def world_ok_def start_world_def demo_process_def sample_world_def idle_def empty_fixture_state_def fresh_session_def)


theorem measured_cases_reported_once_witness:
  "\<exists>bench jitter s'. run_measured_phase demo_env plan_sample (default_options\<lparr>o_junit_path := Some ''r.xml''\<rparr>)
      (demo_selection\<lparr>sel_bench_idxs := [1]\<rparr>) False False empty_fixture_state
      (measured_start (default_options\<lparr>o_junit_path := Some ''r.xml''\<rparr>) sample_world demo_process) = (bench, jitter, s')
    \<and> map i_name (report_items (os_acc (ma_state (ms_acc s')))) = map (\<lambda>i. c_name (plan_sample ! i)) (take (ts_total bench) [1])"
proof -
  let ?opt = "default_options\<lparr>o_junit_path := Some ''r.xml''\<rparr>" and ?sel = "demo_selection\<lparr>sel_bench_idxs := [1]\<rparr>"
  obtain bench jitter s' where m: "run_measured_phase demo_env plan_sample ?opt ?sel False False empty_fixture_state
      (measured_start ?opt sample_world demo_process) = (bench, jitter, s')" by (metis prod_cases3)
  have r: "os_record_results (ma_state (ms_acc (measured_start ?opt sample_world demo_process
      :: (unit, (unit, unit) measured_acc) measured_state)))"
    by (simp add: measured_start_def)
  show ?thesis
    using measured_cases_reported_once[OF m r] m
    by (simp add: measured_start_def sample_world_def empty_accumulator_def demo_selection_def empty_selection_def)
qed

end
