(* ===== verification/Bench_Stats.thy ===== *)
theory Bench_Stats
  imports Cli Complex_Main
begin

section \<open>Statistics of measured cases: \<^verbatim>\<open>src/bench_stats.cpp\<close> and \<^verbatim>\<open>src/runner_measured_format.cpp\<close>\<close>

text \<open>
  Percentiles, mean, standard deviation and histogram of a list of samples, and the display bins
  made from a histogram.  The samples are finite and the arithmetic is that of the real numbers:
  rounding of \<^verbatim>\<open>double\<close> is not modelled.  The printing of numbers by \<^verbatim>\<open>fmt\<close> is a parameter.
\<close>

subsection \<open>Sample statistics\<close>

definition percentile_sorted :: "real list \<Rightarrow> real \<Rightarrow> real" where
  "percentile_sorted v p =
     (if v = [] then 0
      else if length v = 1 then hd v
      else if p \<le> 0 then hd v
      else if p \<ge> 1 then last v
      else let idx = p * real (length v - 1);
               lo = nat \<lfloor>idx\<rfloor>;
               hi = (if lo + 1 < length v then lo + 1 else lo);
               frac = idx - real lo
           in v ! lo + (v ! hi - v ! lo) * frac)"

definition mean_of :: "real list \<Rightarrow> real" where
  "mean_of v = (if v = [] then 0 else foldl (+) 0 v / real (length v))"

definition stddev_of :: "real list \<Rightarrow> real \<Rightarrow> real" where
  "stddev_of v mean = (if length v < 2 then 0 else sqrt (foldl (\<lambda>s x. s + (x - mean) * (x - mean)) 0 v / real (length v)))"

record SampleStats =
  st_count :: nat
  st_min :: real
  st_max :: real
  st_median :: real
  st_mean :: real
  st_stddev :: real
  st_p05 :: real
  st_p95 :: real

definition compute_sample_stats :: "real list \<Rightarrow> SampleStats" where
  "compute_sample_stats samples =
     (if samples = []
      then \<lparr>st_count = 0, st_min = 0, st_max = 0, st_median = 0, st_mean = 0, st_stddev = 0, st_p05 = 0, st_p95 = 0\<rparr>
      else let sorted = sort samples; mean = mean_of sorted
           in \<lparr>st_count = length samples, st_min = hd sorted, st_max = last sorted, st_median = percentile_sorted sorted (1 / 2),
               st_mean = mean, st_stddev = stddev_of sorted mean, st_p05 = percentile_sorted sorted (5 / 100),
               st_p95 = percentile_sorted sorted (95 / 100)\<rparr>)"

text \<open>The interpolation that the percentiles read at rank times the last index.\<close>

definition interpolate :: "real list \<Rightarrow> real \<Rightarrow> real" where
  "interpolate v x =
     (let lo = nat \<lfloor>x\<rfloor>; hi = (if lo + 1 < length v then lo + 1 else lo) in v ! lo + (v ! hi - v ! lo) * (x - real lo))"

lemma interpolate_nat: "interpolate v (real k) = v ! k"
  by (simp add: interpolate_def Let_def)

lemma interpolate_step:
  assumes "sorted v" "real k \<le> x" "x \<le> y" "y \<le> real (k + 1)" "k + 1 < length v"
  shows "interpolate v x \<le> interpolate v y"
proof -
  have eq: "interpolate v z = v ! k + (v ! (k + 1) - v ! k) * (z - real k)" if "real k \<le> z" "z \<le> real (k + 1)" for z
  proof (cases "z = real (k + 1)")
    case True then show ?thesis by (metis (no_types, opaque_lifting) add.commute add_diff_cancel_left' diff_add_cancel interpolate_nat mult.right_neutral of_nat_1 of_nat_add)
  next
    case False
    then have "nat \<lfloor>z\<rfloor> = k" using that by linarith
    then show ?thesis using assms(5) by (simp add: interpolate_def)
  qed
  have "v ! k \<le> v ! (k + 1)" using assms by (simp add: sorted_nth_mono)
  then have "(v ! (k + 1) - v ! k) * (x - real k) \<le> (v ! (k + 1) - v ! k) * (y - real k)"
    using assms by (intro mult_left_mono) auto
  then show ?thesis using eq[of x] eq[of y] assms by simp
qed

lemma interpolate_mono:
  assumes s: "sorted v" and x: "0 \<le> x" "x \<le> y" "y \<le> real (length v - 1)" and n: "v \<noteq> []"
  shows "interpolate v x \<le> interpolate v y"
proof (cases "x = y")
  case False
  have grid: "interpolate v (real i) \<le> interpolate v (real j)" if "i \<le> j" "j < length v" for i j
    using s that by (simp add: interpolate_nat sorted_nth_mono)
  define i j where "i = nat \<lfloor>x\<rfloor>" and "j = nat \<lfloor>y\<rfloor>"
  have i: "real i \<le> x" "x < real (i + 1)" and j: "real j \<le> y" "y < real (j + 1)" using x by (auto simp: i_def j_def) linarith+
  have jn: "j < length v" and i1: "i + 1 < length v" using i j x n False by linarith+
  show ?thesis
  proof (cases "i = j")
    case True then show ?thesis using interpolate_step[OF s, of i x y] i j x i1 by simp
  next
    case False
    then have ij: "i + 1 \<le> j" using i j x by linarith
    have "interpolate v x \<le> interpolate v (real (i + 1))" using interpolate_step[OF s, of i x "real (i + 1)"] i i1 by simp
    also have "\<dots> \<le> interpolate v (real j)" using grid ij jn by blast
    also have "\<dots> \<le> interpolate v y"
    proof (cases "j + 1 < length v")
      case True then show ?thesis using interpolate_step[OF s, of j "real j" y] j by simp
    next
      case False
      then have "y = real j" using j x jn by linarith
      then show ?thesis by simp
    qed
    finally show ?thesis .
  qed
qed simp

lemma percentile_interpolate:
  assumes "0 \<le> p" "p \<le> 1" "v \<noteq> []"
  shows "percentile_sorted v p = interpolate v (p * real (length v - 1))"
proof -
  have "interpolate v 0 = hd v" "interpolate v (real (length v - 1)) = last v"
    using interpolate_nat[of v 0] interpolate_nat[of v "length v - 1"] assms by (simp_all add: hd_conv_nth last_conv_nth)
  then show ?thesis using assms
    by (cases "p = 0"; cases "p = 1"; cases "length v = 1") (simp_all add: percentile_sorted_def interpolate_def[of v "p * _"] Let_def)
qed

text \<open>Percentiles of sorted samples grow with the rank, from the first to the last sample.\<close>

lemma percentile_mono:
  assumes "sorted v" "0 \<le> p" "p \<le> q" "q \<le> 1"
  shows "percentile_sorted v p \<le> percentile_sorted v q"
proof (cases "v = []")
  case True then show ?thesis by (simp add: percentile_sorted_def)
next
  case False
  have "p * real (length v - 1) \<le> q * real (length v - 1)" "q * real (length v - 1) \<le> real (length v - 1)"
    using assms by (simp_all add: mult_right_mono mult_left_le_one_le)
  then show ?thesis using assms False interpolate_mono[of v "p * real (length v - 1)" "q * real (length v - 1)"]
    by (simp add: percentile_interpolate)
qed

lemma percentile_ends: "v \<noteq> [] \<Longrightarrow> percentile_sorted v 0 = hd v" "v \<noteq> [] \<Longrightarrow> percentile_sorted v 1 = last v"
  by (cases v; simp add: percentile_sorted_def)+

lemma percentile_chain:
  assumes "v \<noteq> []" "sorted v"
  shows "hd v \<le> percentile_sorted v (5 / 100)" "percentile_sorted v (5 / 100) \<le> percentile_sorted v (1 / 2)"
    "percentile_sorted v (1 / 2) \<le> percentile_sorted v (95 / 100)" "percentile_sorted v (95 / 100) \<le> last v"
  using assms percentile_mono[of v 0 "5 / 100"] percentile_mono[of v "5 / 100" "1 / 2"] percentile_mono[of v "1 / 2" "95 / 100"]
    percentile_mono[of v "95 / 100" 1] by (simp_all add: percentile_ends)

lemma foldl_sum: "foldl (\<lambda>s x. s + f x) (a::real) v = a + (\<Sum>x\<leftarrow>v. f x)"
  by (induction v arbitrary: a) simp_all

lemma mean_bounds:
  assumes "v \<noteq> []" "\<And>x. x \<in> set v \<Longrightarrow> a \<le> x \<and> x \<le> b"
  shows "a \<le> mean_of v \<and> mean_of v \<le> b"
proof -
  have "real (length v) * a \<le> sum_list v \<and> sum_list v \<le> real (length v) * b" using assms(2)
    by (induction v) (auto simp: algebra_simps add_mono)
  then show ?thesis using assms(1) by (simp add: mean_of_def foldl_sum[where f = "\<lambda>x. x", simplified] field_simps)
qed

lemma stddev_nonneg: "0 \<le> stddev_of v m"
proof -
  have "0 \<le> (\<Sum>x\<leftarrow>v. (x - m) * (x - m))" by (rule sum_list_nonneg) auto
  then show ?thesis by (simp add: stddev_of_def foldl_sum)
qed

lemma hd_last_sort:
  fixes xs :: "real list"
  assumes "xs \<noteq> []"
  shows "hd (sort xs) = Min (set xs)" "last (sort xs) = Max (set xs)"
proof -
  have n: "sort xs \<noteq> []" using assms by (metis length_0_conv length_sort)
  have b: "hd (sort xs) \<le> x" "x \<le> last (sort xs)" if "x \<in> set xs" for x
  proof -
    have "x \<in> set (sort xs)" using that by simp
    then obtain i where "i < length (sort xs)" "sort xs ! i = x" unfolding in_set_conv_nth by blast
    then show "hd (sort xs) \<le> x" "x \<le> last (sort xs)"
      using n sorted_nth_mono[OF sorted_sort[of xs], of 0 i] sorted_nth_mono[OF sorted_sort[of xs], of i "length (sort xs) - 1"]
      by (simp_all add: hd_conv_nth last_conv_nth)
  qed
  have e: "hd (sort xs) \<in> set xs" "last (sort xs) \<in> set xs" using n by (metis hd_in_set last_in_set set_sort)+
  show "hd (sort xs) = Min (set xs)" using Min_eqI[of "set xs" "hd (sort xs)"] b(1) e(1) by simp
  show "last (sort xs) = Max (set xs)" using Max_eqI[of "set xs" "last (sort xs)"] b(2) e(2) by simp
qed

text \<open>
  The statistics of a non-empty sample list are consistent: the minimum and maximum are those
  of the samples, the fifth percentile, the median and the ninety-fifth percentile lie between
  them in that order, so does the mean, and the standard deviation is not negative.
\<close>

theorem sample_stats_ordered:
  assumes "samples \<noteq> []"
  shows "let s = compute_sample_stats samples in
     st_count s = length samples \<and> st_min s = Min (set samples) \<and> st_max s = Max (set samples)
     \<and> st_min s \<le> st_p05 s \<and> st_p05 s \<le> st_median s \<and> st_median s \<le> st_p95 s \<and> st_p95 s \<le> st_max s
     \<and> st_min s \<le> st_mean s \<and> st_mean s \<le> st_max s \<and> 0 \<le> st_stddev s"
proof -
  let ?v = "sort samples"
  have n: "?v \<noteq> []" using assms by (metis length_0_conv length_sort)
  have mean: "hd ?v \<le> mean_of ?v \<and> mean_of ?v \<le> last ?v"
    using mean_bounds[OF n, of "hd ?v" "last ?v"] hd_last_sort[OF assms] by simp
  show ?thesis
    using assms percentile_chain[OF n] mean stddev_nonneg[of ?v] by (simp add: compute_sample_stats_def Let_def hd_last_sort[OF assms])
qed

theorem sample_stats_ordered_witness: "st_median (compute_sample_stats [3, 1, 2]) \<le> st_max (compute_sample_stats [3, 1, 2]) \<and> st_min (compute_sample_stats [3, 1, 2]) = 1"
  using sample_stats_ordered[of "[3, 1, 2]"] by (simp add: Let_def)

subsection \<open>Histograms\<close>

record HistogramBin =
  hb_lo :: real
  hb_hi :: real
  hb_count :: nat
  hb_percent :: real
  hb_cumulative_percent :: real
  hb_inclusive_hi :: bool

definition min_element :: "real list \<Rightarrow> real" where
  "min_element xs = foldl (\<lambda>m x. if x < m then x else m) (hd xs) (tl xs)"

definition max_element :: "real list \<Rightarrow> real" where
  "max_element xs = foldl (\<lambda>m x. if m < x then x else m) (hd xs) (tl xs)"

text \<open>\<^verbatim>\<open>static_cast<int>\<close> truncates towards zero; the index is clamped to the bins.\<close>

definition truncate :: "real \<Rightarrow> int" where
  "truncate x = (if x < 0 then - \<lfloor>- x\<rfloor> else \<lfloor>x\<rfloor>)"

definition bin_index :: "real \<Rightarrow> real \<Rightarrow> nat \<Rightarrow> real \<Rightarrow> nat" where
  "bin_index min_v width hist_bins v =
     (if hist_bins > 1
      then let idx = truncate ((v - min_v) / width);
               idx = (if idx < 0 then 0 else idx);
               idx = (if idx \<ge> int hist_bins then int hist_bins - 1 else idx)
           in nat idx
      else 0)"

definition count_sample :: "real \<Rightarrow> real \<Rightarrow> nat \<Rightarrow> nat list \<Rightarrow> real \<Rightarrow> nat list" where
  "count_sample min_v width hist_bins counts v = (let i = bin_index min_v width hist_bins v in counts[i := counts ! i + 1])"

definition bin_counts :: "real \<Rightarrow> real \<Rightarrow> nat \<Rightarrow> real list \<Rightarrow> nat list" where
  "bin_counts min_v width hist_bins samples =
     foldl (count_sample min_v width hist_bins) (replicate hist_bins 0) samples"

definition bin_lo :: "real \<Rightarrow> real \<Rightarrow> nat \<Rightarrow> nat \<Rightarrow> real" where
  "bin_lo min_v width hist_bins i = (if hist_bins = 1 then min_v else min_v + width * real i)"

definition bin_hi :: "real \<Rightarrow> real \<Rightarrow> real \<Rightarrow> nat \<Rightarrow> nat \<Rightarrow> real" where
  "bin_hi min_v max_v width hist_bins i =
     (if hist_bins = 1 then max_v else if i = hist_bins - 1 then max_v else min_v + width * real (i + 1))"

fun histogram_loop :: "real \<Rightarrow> real \<Rightarrow> real \<Rightarrow> nat \<Rightarrow> real \<Rightarrow> nat \<Rightarrow> nat \<Rightarrow> nat list \<Rightarrow> HistogramBin list" where
  "histogram_loop min_v max_v width hist_bins tot i cumulative [] = []"
| "histogram_loop min_v max_v width hist_bins tot i cumulative (c # cs) =
     \<lparr>hb_lo = bin_lo min_v width hist_bins i, hb_hi = bin_hi min_v max_v width hist_bins i, hb_count = c,
      hb_percent = (if tot > 0 then real c / tot * 100 else 0),
      hb_cumulative_percent = (if tot > 0 then real (cumulative + c) / tot * 100 else 0),
      hb_inclusive_hi = (i = hist_bins - 1)\<rparr>
     # histogram_loop min_v max_v width hist_bins tot (i + 1) (cumulative + c) cs"

definition compute_histogram :: "real list \<Rightarrow> int \<Rightarrow> HistogramBin list" where
  "compute_histogram samples bins =
     (if samples = [] then []
      else let safe_bins = (if bins > 0 then bins else 1);
               min_v = min_element samples; max_v = max_element samples;
               hist_bins = nat (if min_v = max_v then 1 else safe_bins);
               width = (if hist_bins = 1 then 0 else (max_v - min_v) / real hist_bins)
           in histogram_loop min_v max_v width hist_bins (real (length samples)) 0 0 (bin_counts min_v width hist_bins samples))"

lemma min_element_Min:
  assumes "xs \<noteq> []"
  shows "min_element xs = Min (set xs)"
proof -
  have "foldl (\<lambda>m x. if x < m then x else m) a ys \<in> insert a (set ys)
      \<and> (\<forall>y \<in> insert a (set ys). foldl (\<lambda>m x. if x < m then x else m) a ys \<le> y)" for a :: real and ys
  proof (induction ys arbitrary: a)
    case (Cons y ys)
    show ?case using Cons.IH[of "if y < a then y else a"] by (force split: if_splits)
  qed simp
  from this[of "hd xs" "tl xs"] have "min_element xs \<in> set xs" "\<forall>y \<in> set xs. min_element xs \<le> y"
    using assms by (cases xs; simp add: min_element_def)+
  then show ?thesis using Min_eqI[of "set xs" "min_element xs"] by simp
qed

lemma max_element_Max:
  assumes "xs \<noteq> []"
  shows "max_element xs = Max (set xs)"
proof -
  have "foldl (\<lambda>m x. if m < x then x else m) a ys \<in> insert a (set ys)
      \<and> (\<forall>y \<in> insert a (set ys). y \<le> foldl (\<lambda>m x. if m < x then x else m) a ys)" for a :: real and ys
  proof (induction ys arbitrary: a)
    case (Cons y ys)
    show ?case using Cons.IH[of "if a < y then y else a"] by (force split: if_splits)
  qed simp
  from this[of "hd xs" "tl xs"] have "max_element xs \<in> set xs" "\<forall>y \<in> set xs. y \<le> max_element xs"
    using assms by (cases xs; simp add: max_element_def)+
  then show ?thesis using Max_eqI[of "set xs" "max_element xs"] by simp
qed

lemma bin_index_less: "0 < n \<Longrightarrow> bin_index m w n v < n"
  by (auto simp: bin_index_def Let_def nat_less_iff)

lemma bin_counts_nth:
  assumes "0 < n"
  shows "length (bin_counts m w n vs) = n" "i < n \<Longrightarrow> bin_counts m w n vs ! i = length (filter (\<lambda>v. bin_index m w n v = i) vs)"
proof -
  have len: "length (foldl (count_sample m w n) cs vs) = length cs" for cs :: "nat list"
    by (induction vs arbitrary: cs) (simp_all add: count_sample_def Let_def)
  have "foldl (count_sample m w n) cs vs ! i
      = cs ! i + length (filter (\<lambda>v. bin_index m w n v = i) vs)" if "i < length cs" for cs :: "nat list"
    using that by (induction vs arbitrary: cs) (auto simp: count_sample_def Let_def nth_list_update)
  then show "length (bin_counts m w n vs) = n" "i < n \<Longrightarrow> bin_counts m w n vs ! i = length (filter (\<lambda>v. bin_index m w n v = i) vs)"
    by (simp_all add: bin_counts_def len)
qed

lemma bin_counts_sum:
  assumes "0 < n"
  shows "sum_list (bin_counts m w n vs) = length vs"
proof -
  have "sum_list (foldl (count_sample m w n) cs vs) = sum_list cs + length vs"
    if "length cs = n" for cs :: "nat list"
    using that
  proof (induction vs arbitrary: cs)
    case (Cons v vs)
    have "bin_index m w n v < length cs" using Cons.prems assms bin_index_less by simp
    then show ?case using Cons by (simp add: count_sample_def Let_def sum_list_update)
  qed simp
  from this[of "replicate n 0"] show ?thesis by (simp add: bin_counts_def sum_list_replicate)
qed

lemma histogram_loop_nth:
  "length (histogram_loop m M w n tot i cum cs) = length cs"
  "j < length cs \<Longrightarrow> histogram_loop m M w n tot i cum cs ! j =
     \<lparr>hb_lo = bin_lo m w n (i + j), hb_hi = bin_hi m M w n (i + j), hb_count = cs ! j,
      hb_percent = (if tot > 0 then real (cs ! j) / tot * 100 else 0),
      hb_cumulative_percent = (if tot > 0 then real (cum + sum_list (take (j + 1) cs)) / tot * 100 else 0),
      hb_inclusive_hi = (i + j = n - 1)\<rparr>"
proof (induction cs arbitrary: i cum j)
  case (Cons c cs)
  { case 1 then show ?case using Cons by simp }
  { case 2 then show ?case using Cons.IH(2)[of "j - 1" "i + 1" "cum + c"] by (cases j) (simp_all add: add.assoc) }
qed simp_all

text \<open>Membership of a bin as the report prints it: half open, the last bin closed.\<close>

definition in_bin :: "HistogramBin \<Rightarrow> real \<Rightarrow> bool" where
  "in_bin b v \<longleftrightarrow> hb_lo b \<le> v \<and> (v < hb_hi b \<or> hb_inclusive_hi b \<and> v = hb_hi b)"

lemma bin_index_exact:
  assumes n: "1 < n" and w: "0 < w" "M = m + w * real n" and v: "m \<le> v" "v \<le> M" and i: "i < n"
  shows "bin_index m w n v = i \<longleftrightarrow>
     m + w * real i \<le> v \<and> (v < (if i = n - 1 then M else m + w * real (i + 1)) \<or> i = n - 1 \<and> v = M)"
proof -
  define x where "x = (v - m) / w"
  have vx: "v = m + w * x" using w by (simp add: x_def)
  have le: "m + w * a \<le> v \<longleftrightarrow> a \<le> x" and less: "v < m + w * a \<longleftrightarrow> x < a" and eq: "v = m + w * a \<longleftrightarrow> x = a"
    and ge: "v \<le> m + w * a \<longleftrightarrow> x \<le> a" for a
    using w by (simp_all add: vx)
  have x: "0 \<le> x" "x \<le> real n" using v w le[of 0] ge[of "real n"] by auto
  have idx: "bin_index m w n v = (if \<lfloor>x\<rfloor> \<ge> int n then n - 1 else nat \<lfloor>x\<rfloor>)"
  proof -
    have "truncate ((v - m) / w) = \<lfloor>x\<rfloor>" "0 \<le> \<lfloor>x\<rfloor>" using x by (simp_all add: truncate_def x_def)
    then show ?thesis using n by (simp add: bin_index_def nat_diff_distrib)
  qed
  show ?thesis
  proof (cases "x = real n")
    case True
    then show ?thesis using idx i n by (auto simp: w(2) le less eq)
  next
    case False
    then have xn: "x < real n" using x by simp
    then have "\<not> \<lfloor>x\<rfloor> \<ge> int n" by linarith
    then have "bin_index m w n v = i \<longleftrightarrow> nat \<lfloor>x\<rfloor> = i" using idx by simp
    then have "bin_index m w n v = i \<longleftrightarrow> real i \<le> x \<and> x < real (i + 1)" using x by (simp add: floor_eq_iff nat_eq_iff add.commute)
    moreover have "real (i + 1) = real n" if "i = n - 1" using that n by simp
    ultimately show ?thesis using xn False by (auto simp: w(2) le less eq)
  qed
qed

lemma histogram_shape:
  assumes s: "samples \<noteq> []"
  obtains m M w n where "0 < n" "m = Min (set samples)" "M = Max (set samples)"
    "n = (if m = M then 1 else nat (max 1 bins))" "w = (if n = 1 then 0 else (M - m) / real n)"
    "compute_histogram samples bins = histogram_loop m M w n (real (length samples)) 0 0 (bin_counts m w n samples)"
  using assms
  by (simp add: compute_histogram_def Let_def min_element_Min max_element_Max max_def)



subsection \<open>Display of times\<close>

definition ns_from_s :: "real \<Rightarrow> real" where
  "ns_from_s s = s * 1000000000"

datatype TimeDisplayUnit = UnitNs | UnitUs | UnitMs | UnitS

record TimeDisplaySpec =
  td_unit :: TimeDisplayUnit
  td_ns_per_unit :: real
  td_suffix :: string

definition spec_ns :: TimeDisplaySpec where "spec_ns = \<lparr>td_unit = UnitNs, td_ns_per_unit = 1, td_suffix = ''ns''\<rparr>"

definition spec_us :: TimeDisplaySpec where "spec_us = \<lparr>td_unit = UnitUs, td_ns_per_unit = 1000, td_suffix = ''us''\<rparr>"

definition spec_ms :: TimeDisplaySpec where "spec_ms = \<lparr>td_unit = UnitMs, td_ns_per_unit = 1000000, td_suffix = ''ms''\<rparr>"

definition spec_s :: TimeDisplaySpec where "spec_s = \<lparr>td_unit = UnitS, td_ns_per_unit = 1000000000, td_suffix = ''s''\<rparr>"

lemmas spec_defs = spec_ns_def spec_us_def spec_ms_def spec_s_def

definition pick_time_display_spec_from_ns :: "real \<Rightarrow> TimeUnitMode \<Rightarrow> TimeDisplaySpec" where
  "pick_time_display_spec_from_ns abs_ns_max mode =
     (if mode = TimeNs then spec_ns
      else if abs_ns_max \<ge> 1000000000 then spec_s
      else if abs_ns_max \<ge> 1000000 then spec_ms
      else if abs_ns_max \<ge> 1000 then spec_us
      else spec_ns)"

definition pick_time_display_spec_from_s :: "real \<Rightarrow> TimeUnitMode \<Rightarrow> TimeDisplaySpec" where
  "pick_time_display_spec_from_s abs_s_max mode = pick_time_display_spec_from_ns (ns_from_s abs_s_max) mode"

definition pick_finer_time_display_spec :: "TimeDisplaySpec \<Rightarrow> TimeDisplaySpec option" where
  "pick_finer_time_display_spec current =
     (case td_unit current of UnitS \<Rightarrow> Some spec_ms | UnitMs \<Rightarrow> Some spec_us | UnitUs \<Rightarrow> Some spec_ns | UnitNs \<Rightarrow> None)"

text \<open>\<^verbatim>\<open>std::round\<close> rounds halves away from zero; \<open>fixed d x\<close> stands for \<^verbatim>\<open>fmt::format\<close> of \<open>x\<close> with \<open>d\<close> decimals.\<close>

definition round_away :: "real \<Rightarrow> real" where
  "round_away x = (if x < 0 then - of_int \<lfloor>- x + 1 / 2\<rfloor> else of_int \<lfloor>x + 1 / 2\<rfloor>)"

definition format_scaled_time_ns :: "(nat \<Rightarrow> real \<Rightarrow> string) \<Rightarrow> real \<Rightarrow> TimeDisplaySpec \<Rightarrow> string" where
  "format_scaled_time_ns fixed value_ns spec =
     (let scaled = value_ns / td_ns_per_unit spec
      in if td_unit spec = UnitNs \<and> \<bar>round_away scaled - scaled\<bar> < 1 / 1000000000 then fixed 0 scaled else fixed 3 scaled)"

definition format_scaled_time_s :: "(nat \<Rightarrow> real \<Rightarrow> string) \<Rightarrow> real \<Rightarrow> TimeDisplaySpec \<Rightarrow> string" where
  "format_scaled_time_s fixed value_s spec = format_scaled_time_ns fixed (ns_from_s value_s) spec"

record DisplayHistogramBin =
  db_lo_text :: string
  db_hi_text :: string
  db_inclusive_hi :: bool
  db_count :: nat

definition make_display_histogram_bins :: "(nat \<Rightarrow> real \<Rightarrow> string) \<Rightarrow> HistogramBin list \<Rightarrow> TimeDisplaySpec \<Rightarrow> DisplayHistogramBin list" where
  "make_display_histogram_bins fixed bins spec =
     map (\<lambda>b. \<lparr>db_lo_text = format_scaled_time_ns fixed (hb_lo b) spec, db_hi_text = format_scaled_time_ns fixed (hb_hi b) spec,
               db_inclusive_hi = hb_inclusive_hi b, db_count = hb_count b\<rparr>) bins"

definition same_range :: "DisplayHistogramBin \<Rightarrow> DisplayHistogramBin \<Rightarrow> bool" where
  "same_range a b \<longleftrightarrow> db_lo_text a = db_lo_text b \<and> db_hi_text a = db_hi_text b"

fun has_duplicate_display_ranges :: "DisplayHistogramBin list \<Rightarrow> bool" where
  "has_duplicate_display_ranges (a # b # bs) = (same_range a b \<or> has_duplicate_display_ranges (b # bs))"
| "has_duplicate_display_ranges _ = False"

fun merge_loop :: "DisplayHistogramBin \<Rightarrow> DisplayHistogramBin list \<Rightarrow> DisplayHistogramBin list" where
  "merge_loop final [] = [final]"
| "merge_loop final (b # bs) =
     (if same_range final b
      then merge_loop (final\<lparr>db_count := db_count final + db_count b, db_inclusive_hi := db_inclusive_hi final \<or> db_inclusive_hi b\<rparr>) bs
      else final # merge_loop b bs)"

definition merge_duplicate_display_ranges :: "DisplayHistogramBin list \<Rightarrow> DisplayHistogramBin list" where
  "merge_duplicate_display_ranges bins = (case bins of [] \<Rightarrow> [] | b # bs \<Rightarrow> merge_loop b bs)"

text \<open>The automatic unit shows a value of at least one unit and below a thousand of it.\<close>

lemma pick_unit_readable:
  assumes "m \<noteq> TimeNs" "1 \<le> x"
  shows "1 \<le> x / td_ns_per_unit (pick_time_display_spec_from_ns x m)"
    "td_unit (pick_time_display_spec_from_ns x m) \<noteq> UnitS \<Longrightarrow> x / td_ns_per_unit (pick_time_display_spec_from_ns x m) < 1000"
  using assms by (auto simp: pick_time_display_spec_from_ns_def spec_defs)

definition bin_range :: "DisplayHistogramBin \<Rightarrow> string \<times> string" where
  "bin_range b = (db_lo_text b, db_hi_text b)"

lemma merge_loop_ranges: "map bin_range (merge_loop a bs) = remdups_adj (bin_range a # map bin_range bs)"
proof (induction bs arbitrary: a)
  case (Cons b bs)
  then show ?case by (auto simp: same_range_def bin_range_def)
qed simp

lemma merge_loop_count: "sum_list (map db_count (merge_loop a bs)) = db_count a + sum_list (map db_count bs)"
  by (induction bs arbitrary: a) auto

lemma has_duplicate_ranges: "has_duplicate_display_ranges bs \<longleftrightarrow> remdups_adj (map bin_range bs) \<noteq> map bin_range bs"
proof (induction bs rule: has_duplicate_display_ranges.induct)
  case (1 a b bs)
  have "remdups_adj (bin_range b # map bin_range bs) \<noteq> bin_range a # bin_range b # map bin_range bs"
    using remdups_adj_length[of "bin_range b # map bin_range bs"] by (metis impossible_Cons length_Cons)
  moreover have "same_range a b \<longleftrightarrow> bin_range a = bin_range b" by (simp add: same_range_def bin_range_def)
  ultimately show ?case using 1 by auto
qed simp_all

text \<open>Merging keeps the order of the ranges, drops repeated ones and loses no sample.\<close>

lemma merge_display_ranges:
  "map bin_range (merge_duplicate_display_ranges bs) = remdups_adj (map bin_range bs)"
  "sum_list (map db_count (merge_duplicate_display_ranges bs)) = sum_list (map db_count bs)"
  "\<not> has_duplicate_display_ranges (merge_duplicate_display_ranges bs)"
proof -
  show r: "map bin_range (merge_duplicate_display_ranges bs) = remdups_adj (map bin_range bs)"
    by (cases bs) (simp_all add: merge_duplicate_display_ranges_def merge_loop_ranges)
  show "sum_list (map db_count (merge_duplicate_display_ranges bs)) = sum_list (map db_count bs)"
    by (cases bs) (simp_all add: merge_duplicate_display_ranges_def merge_loop_count)
  show "\<not> has_duplicate_display_ranges (merge_duplicate_display_ranges bs)"
    by (simp add: has_duplicate_ranges r distinct_adj_altdef[symmetric])
qed

end
