(* ===== verification/Bench_Run.thy ===== *)
theory Bench_Run
  imports Measured Bench_Stats
begin

section \<open>The timed call of benchmarks and jitter cases: \<^verbatim>\<open>src/runner_measured_executor.cpp\<close>\<close>

text \<open>
  Calibration, warm-up, the measured epochs and the results of \<^verbatim>\<open>run_bench\<close> and \<^verbatim>\<open>run_jitter\<close>:
  the value of the call parameter of \<^verbatim>\<open>Measured\<close>.  The world \<open>'st\<close> holds what user code can touch;
  the case body, the steady clock and the test context around a call phase are parameters.  Times
  are real numbers of seconds.  An epoch loop that never reaches its limits does not return.
\<close>

subsection \<open>Call phases\<close>

record 'st call_env =
  ce_open :: "Case \<Rightarrow> 'st \<Rightarrow> 'st"
  ce_fn :: "Case \<Rightarrow> nat option \<Rightarrow> 'st \<Rightarrow> exn option \<times> 'st"
  ce_context :: "'st \<Rightarrow> TestContextInfo"
  ce_close :: "'st \<Rightarrow> TestContextInfo \<times> 'st"
  ce_now :: "'st \<Rightarrow> real \<times> 'st"

record 'st call_state =
  cs_st :: 'st
  cs_bench_error :: string
  cs_failure :: MeasurementCaseFailure

definition record_bench_error :: "string \<Rightarrow> 'st call_state \<Rightarrow> 'st call_state" where
  "record_bench_error msg s = (if cs_bench_error s = [] then s\<lparr>cs_bench_error := msg\<rparr> else s)"

definition record_runtime_skip_or_default :: "TestContextInfo \<Rightarrow> string \<Rightarrow> 'st call_state \<Rightarrow> 'st call_state" where
  "record_runtime_skip_or_default x default_reason s =
     (let reason = (if x_runtime_skip_requested x then x_runtime_skip_reason x else [])
      in record_bench_error (if reason \<noteq> [] then reason else default_reason) s)"

text \<open>What the handler of an exception does: the assertion text to fall back on, and the recorded error.\<close>

definition handle_exception :: "exn \<Rightarrow> TestContextInfo \<Rightarrow> string \<Rightarrow> 'st call_state \<Rightarrow> string \<times> 'st call_state" where
  "handle_exception e x default_reason s =
     (case e of
        SkipException \<Rightarrow> ([], record_runtime_skip_or_default x default_reason s)
      | AssertionExn m \<Rightarrow> (m, s)
      | FailureExn m \<Rightarrow> ([], record_bench_error m s)
      | StdExn m \<Rightarrow> ([], record_bench_error (''std::exception: '' @ m) s)
      | UnknownExn \<Rightarrow> ([], record_bench_error ''unknown exception'' s))"

definition finalize_call_phase_failure ::
  "TestContextInfo \<Rightarrow> string \<Rightarrow> string \<Rightarrow> bool \<Rightarrow> 'st call_state \<Rightarrow> bool \<times> 'st call_state" where
  "finalize_call_phase_failure x default_reason assertion_fallback had s =
     (let s = s\<lparr>cs_failure := capture_first_failure_location x (cs_failure s)\<rparr>;
          reason = x_runtime_skip_reason x; first_failure = first_recorded_failure x
      in if x_runtime_skip_requested x
         then (True, record_bench_error (if reason \<noteq> [] then reason else default_reason) s)
         else if first_failure \<noteq> [] then (True, record_bench_error first_failure s)
         else if assertion_fallback \<noteq> [] then (True, record_bench_error assertion_fallback s)
         else (had, s))"

text \<open>
  A call phase: the body works on local variables \<open>'loc\<close> of its caller and returns the exception
  that ended it, if any; \<open>interrupted\<close> runs in the handlers before anything is recorded.
\<close>

definition run_call_phase_with_context ::
  "'st call_env \<Rightarrow> Case \<Rightarrow> string \<Rightarrow> ('loc \<Rightarrow> 'st \<Rightarrow> exn option \<times> 'loc \<times> 'st) \<Rightarrow> ('loc \<Rightarrow> 'st \<Rightarrow> 'loc \<times> 'st) \<Rightarrow> 'loc \<Rightarrow> 'st call_state
     \<Rightarrow> real \<times> bool \<times> 'loc \<times> 'st call_state" where
  "run_call_phase_with_context env c default_reason body interrupted loc s =
     (let (start, st1) = ce_now env (ce_open env c (cs_st s));
          (e, loc1, st2) = body loc st1;
          (finish, st3) = ce_now env st2;
          (loc2, st4) = (if e = None then (loc1, st3) else interrupted loc1 st3);
          s1 = s\<lparr>cs_st := st4\<rparr>;
          (fallback, s2) = (case e of None \<Rightarrow> ([], s1) | Some x \<Rightarrow> handle_exception x (ce_context env st4) default_reason s1);
          (x, st5) = ce_close env (cs_st s2);
          (had, s3) = finalize_call_phase_failure x default_reason fallback (e \<noteq> None) (s2\<lparr>cs_st := st5\<rparr>)
      in (finish - start, had, loc2, s3))"

subsection \<open>Epochs\<close>

text \<open>The body of a benchmark epoch: up to \<open>n\<close> calls, counting the completed ones.\<close>

fun call_loop :: "'st call_env \<Rightarrow> Case \<Rightarrow> nat option \<Rightarrow> nat \<Rightarrow> u64 \<Rightarrow> 'st \<Rightarrow> exn option \<times> u64 \<times> 'st" where
  "call_loop env c ctx 0 iterations st = (None, iterations, st)"
| "call_loop env c ctx (Suc n) iterations st =
     (case ce_fn env c ctx st of
        (Some e, st') \<Rightarrow> (Some e, iterations, st')
      | (None, st') \<Rightarrow> call_loop env c ctx n (iterations + 1) st')"

definition run_epoch_calls :: "'st call_env \<Rightarrow> Case \<Rightarrow> nat option \<Rightarrow> u64 \<Rightarrow> 'st call_state \<Rightarrow> real \<times> bool \<times> u64 \<times> 'st call_state" where
  "run_epoch_calls env c ctx iters =
     run_call_phase_with_context env c ''skip requested during benchmark call phase''
       (\<lambda>iterations. call_loop env c ctx (unat iters) iterations) (\<lambda>iterations st. (iterations, st)) 0"

record CalibratedEpoch =
  ca_iterations :: u64
  ca_completed :: u64
  ca_elapsed_s :: real
  ca_had_assert :: bool

text \<open>Comparisons of a measured time with a bound of the command line.\<close>

fun reaches :: "real \<Rightarrow> double \<Rightarrow> bool" where
  "reaches s (DFinite q) = (s \<ge> of_rat q)"
| "reaches s DNegInf = True"
| "reaches s _ = False"

fun exceeds :: "real \<Rightarrow> double \<Rightarrow> bool" where
  "exceeds s (DFinite q) = (s > of_rat q)"
| "exceeds s DNegInf = True"
| "exceeds s _ = False"

lemma double_eventually_zero: "\<exists>n. 2 ^ n * (w::u64) = 0"
proof -
  have "(2::u64) ^ 64 = 0" by simp
  then show ?thesis by (metis mult_zero_left)
qed

function calibrate_loop :: "'st call_env \<Rightarrow> Case \<Rightarrow> nat option \<Rightarrow> BenchConfig \<Rightarrow> u64 \<Rightarrow> 'st call_state \<Rightarrow> CalibratedEpoch \<times> 'st call_state" where
  "calibrate_loop env c ctx cfg iterations s =
     (let (elapsed, had, completed, s') = run_epoch_calls env c ctx iterations s;
          result = (\<lambda>n. (\<lparr>ca_iterations = n, ca_completed = completed, ca_elapsed_s = elapsed, ca_had_assert = had\<rparr>, s'))
      in if had \<or> reaches elapsed (min_epoch_time_s cfg) then result iterations
         else if iterations * 2 = 0 \<or> iterations * 2 > 2 ^ 30 then result (iterations * 2)
         else calibrate_loop env c ctx cfg (iterations * 2) s')"
  by pat_completeness auto

termination
proof (relation "measure (\<lambda>(env, c, ctx, cfg, iterations, s). LEAST n. 2 ^ n * iterations = 0)", goal_cases)
  case (2 env c ctx cfg iterations s)
  then have nz: "iterations * 2 \<noteq> 0" by auto
  obtain n :: nat where "2 ^ n * iterations = 0" using double_eventually_zero by blast
  moreover have "2 ^ 0 * iterations \<noteq> 0" using nz by auto
  ultimately have "(LEAST n. 2 ^ n * iterations = 0) = Suc (LEAST n. 2 ^ Suc n * iterations = 0)" by (rule Least_Suc)
  then show ?case by (simp add: mult.assoc mult.commute mult.left_commute)
qed simp

declare calibrate_loop.simps [simp del]

definition calibrate_epoch_iterations :: "'st call_env \<Rightarrow> Case \<Rightarrow> nat option \<Rightarrow> BenchConfig \<Rightarrow> 'st call_state \<Rightarrow> CalibratedEpoch \<times> 'st call_state" where
  "calibrate_epoch_iterations env c ctx cfg = calibrate_loop env c ctx cfg 1"

fun run_warmup_epochs :: "'st call_env \<Rightarrow> Case \<Rightarrow> nat option \<Rightarrow> u64 \<Rightarrow> nat \<Rightarrow> u64 \<Rightarrow> real \<Rightarrow> 'st call_state \<Rightarrow> real \<times> bool \<times> u64 \<times> 'st call_state" where
  "run_warmup_epochs env c ctx iters 0 completed time s = (time, False, completed, s)"
| "run_warmup_epochs env c ctx iters (Suc n) completed time s =
     (case run_epoch_calls env c ctx iters s of (elapsed, had, completed', s') \<Rightarrow>
        if had then (time + elapsed, True, completed', s')
        else run_warmup_epochs env c ctx iters n completed' (time + elapsed) s')"

text \<open>
  The loop over measured epochs, common to both kinds.  \<open>ep\<close> runs an epoch and returns its time,
  whether it was interrupted and how many calls it completed; the log holds the completed epochs.
\<close>

record epoch_acc =
  ea_log :: "(real \<times> u64) list"
  ea_epochs :: u64
  ea_total_time_s :: real
  ea_total_iters :: u64

definition epoch_start :: epoch_acc where
  "epoch_start = \<lparr>ea_log = [], ea_epochs = 0, ea_total_time_s = 0, ea_total_iters = 0\<rparr>"

definition epoch_add :: "real \<Rightarrow> u64 \<Rightarrow> epoch_acc \<Rightarrow> epoch_acc" where
  "epoch_add s completed a = a\<lparr>ea_total_time_s := ea_total_time_s a + s, ea_total_iters := ea_total_iters a + completed\<rparr>"

definition epochs_done :: "BenchConfig \<Rightarrow> epoch_acc \<Rightarrow> bool" where
  "epochs_done cfg a \<longleftrightarrow> ea_epochs a \<ge> measure_epochs cfg \<and> reaches (ea_total_time_s a) (min_total_time_s cfg)"

definition out_of_time :: "BenchConfig \<Rightarrow> real \<Rightarrow> epoch_acc \<Rightarrow> bool" where
  "out_of_time cfg elapsed a \<longleftrightarrow>
     d_less (DFinite 0) (max_total_time_s cfg) \<and> exceeds elapsed (max_total_time_s cfg) \<and> reaches (ea_total_time_s a) (min_total_time_s cfg)"

definition epoch_step ::
  "('s \<Rightarrow> real \<times> 's) \<Rightarrow> ('s \<Rightarrow> real \<times> bool \<times> u64 \<times> 's) \<Rightarrow> BenchConfig \<Rightarrow> real \<Rightarrow> epoch_acc \<Rightarrow> 's \<Rightarrow> bool \<times> epoch_acc \<times> 's" where
  "epoch_step now ep cfg start_all a s =
     (let (t, had, completed, s1) = ep s
      in if had then (True, epoch_add t completed a, s1)
         else let a1 = (epoch_add t completed a)\<lparr>ea_log := ea_log a @ [(t, completed)], ea_epochs := ea_epochs a + 1\<rparr>;
                  (current, s2) = now s1
              in (out_of_time cfg (current - start_all) a1, a1, s2))"

partial_function (option) epoch_loop ::
  "('s \<Rightarrow> real \<times> 's) \<Rightarrow> ('s \<Rightarrow> real \<times> bool \<times> u64 \<times> 's) \<Rightarrow> BenchConfig \<Rightarrow> real \<Rightarrow> epoch_acc \<Rightarrow> 's \<Rightarrow> (epoch_acc \<times> 's) option" where
  "epoch_loop now ep cfg start_all a s =
     (if epochs_done cfg a then Some (a, s)
      else case epoch_step now ep cfg start_all a s of
             (stop, a', s') \<Rightarrow> if stop then Some (a', s') else epoch_loop now ep cfg start_all a' s')"

definition state_now :: "'st call_env \<Rightarrow> 'st call_state \<Rightarrow> real \<times> 'st call_state" where
  "state_now env s = (case ce_now env (cs_st s) of (t, st) \<Rightarrow> (t, s\<lparr>cs_st := st\<rparr>))"

subsection \<open>Benchmarks\<close>

record BenchResult =
  br_epochs :: nat
  br_iters_per_epoch :: u64
  br_total_iters :: u64
  br_best_ns :: real
  br_worst_ns :: real
  br_median_ns :: real
  br_mean_ns :: real
  br_p05_ns :: real
  br_p95_ns :: real
  br_total_time_s :: real
  br_warmup_time_s :: real
  br_wall_time_s :: real
  br_calibration_time_s :: real
  br_calibration_iters :: u64

definition zero_bench_result :: BenchResult where
  "zero_bench_result = \<lparr>br_epochs = 0, br_iters_per_epoch = 0, br_total_iters = 0, br_best_ns = 0, br_worst_ns = 0, br_median_ns = 0,
     br_mean_ns = 0, br_p05_ns = 0, br_p95_ns = 0, br_total_time_s = 0, br_warmup_time_s = 0, br_wall_time_s = 0,
     br_calibration_time_s = 0, br_calibration_iters = 0\<rparr>"

definition epoch_ns :: "real \<times> u64 \<Rightarrow> real" where
  "epoch_ns e = ns_from_s (fst e) / real (unat (if snd e \<noteq> 0 then snd e else 1))"

definition bench_statistics :: "u64 \<Rightarrow> real list \<Rightarrow> BenchResult \<Rightarrow> BenchResult" where
  "bench_statistics iters ns br =
     (if ns = [] then br
      else let sorted = sort ns
           in br\<lparr>br_epochs := length sorted, br_iters_per_epoch := iters, br_best_ns := hd sorted, br_worst_ns := last sorted,
                 br_median_ns := percentile_sorted sorted (1 / 2), br_mean_ns := mean_of ns,
                 br_p05_ns := percentile_sorted sorted (5 / 100), br_p95_ns := percentile_sorted sorted (95 / 100)\<rparr>)"

text \<open>The measured part, skipped when calibration or warm-up was interrupted.\<close>

definition bench_epochs ::
  "'st call_env \<Rightarrow> Case \<Rightarrow> nat option \<Rightarrow> BenchConfig \<Rightarrow> u64 \<Rightarrow> bool \<Rightarrow> 'st call_state \<Rightarrow> (epoch_acc \<times> 'st call_state) option" where
  "bench_epochs env c ctx cfg iters had s =
     (if had then Some (epoch_start, s)
      else let (start_all, s1) = state_now env s
           in epoch_loop (state_now env) (run_epoch_calls env c ctx iters) cfg start_all epoch_start s1)"

definition run_bench ::
  "'st call_env \<Rightarrow> Case \<Rightarrow> nat option \<Rightarrow> BenchConfig \<Rightarrow> 'st call_state \<Rightarrow> (BenchResult \<times> 'st call_state) option" where
  "run_bench env c ctx cfg s =
     (let (calibration, s1) = calibrate_epoch_iterations env c ctx cfg s;
          iters = ca_iterations calibration;
          (warmup, had, completed, s2) =
            (if ca_had_assert calibration then (0, True, ca_completed calibration, s1)
             else run_warmup_epochs env c ctx iters (unat (warmup_epochs cfg)) (ca_completed calibration) 0 s1)
      in case bench_epochs env c ctx cfg iters had s2 of
           None \<Rightarrow> None
         | Some (a, s3) \<Rightarrow>
             let br = zero_bench_result\<lparr>br_calibration_time_s := ca_elapsed_s calibration, br_calibration_iters := iters,
                        br_warmup_time_s := warmup, br_total_time_s := ea_total_time_s a, br_total_iters := ea_total_iters a\<rparr>;
                 br = bench_statistics iters (map epoch_ns (ea_log a)) br
             in Some (br\<lparr>br_wall_time_s := br_warmup_time_s br + br_total_time_s br + br_calibration_time_s br\<rparr>, s3))"

subsection \<open>Jitter cases\<close>

fun jitter_loop :: "'st call_env \<Rightarrow> Case \<Rightarrow> nat option \<Rightarrow> nat \<Rightarrow> u64 \<times> real list \<Rightarrow> 'st \<Rightarrow> exn option \<times> (u64 \<times> real list) \<times> 'st" where
  "jitter_loop env c ctx 0 loc st = (None, loc, st)"
| "jitter_loop env c ctx (Suc n) loc st =
     (let (start, st1) = ce_now env st
      in case ce_fn env c ctx st1 of
           (Some e, st2) \<Rightarrow> (Some e, loc, st2)
         | (None, st2) \<Rightarrow>
             let (finish, st3) = ce_now env st2
             in jitter_loop env c ctx n (fst loc + 1, snd loc @ [ns_from_s (finish - start)]) st3)"

definition run_jitter_epoch_calls ::
  "'st call_env \<Rightarrow> Case \<Rightarrow> nat option \<Rightarrow> u64 \<Rightarrow> real list \<Rightarrow> 'st call_state \<Rightarrow> real \<times> bool \<times> (u64 \<times> real list) \<times> 'st call_state" where
  "run_jitter_epoch_calls env c ctx iters samples =
     run_call_phase_with_context env c ''skip requested during jitter call phase''
       (jitter_loop env c ctx (unat iters)) (\<lambda>loc st. (loc, st)) (0, samples)"

record batch_locals =
  bl_iterations :: u64
  bl_samples :: "real list"
  bl_local_done :: u64
  bl_batch_start :: real
  bl_in_batch :: bool

fun batch_calls :: "'st call_env \<Rightarrow> Case \<Rightarrow> nat option \<Rightarrow> nat \<Rightarrow> u64 \<Rightarrow> 'st \<Rightarrow> exn option \<times> u64 \<times> 'st" where
  "batch_calls env c ctx 0 local_done st = (None, local_done, st)"
| "batch_calls env c ctx (Suc n) local_done st =
     (case ce_fn env c ctx st of
        (Some e, st') \<Rightarrow> (Some e, local_done, st')
      | (None, st') \<Rightarrow> batch_calls env c ctx n (local_done + 1) st')"

definition close_batch :: "real \<Rightarrow> batch_locals \<Rightarrow> batch_locals" where
  "close_batch finish l =
     (if bl_local_done l \<noteq> 0
      then l\<lparr>bl_samples := bl_samples l @ [ns_from_s (finish - bl_batch_start l) / real (unat (bl_local_done l))],
             bl_iterations := bl_iterations l + bl_local_done l\<rparr>
      else l)"

fun batch_loop :: "'st call_env \<Rightarrow> Case \<Rightarrow> nat option \<Rightarrow> u64 \<Rightarrow> nat \<Rightarrow> batch_locals \<Rightarrow> 'st \<Rightarrow> exn option \<times> batch_locals \<times> 'st" where
  "batch_loop env c ctx batch_iters 0 l st = (None, l, st)"
| "batch_loop env c ctx batch_iters (Suc n) l st =
     (let (start, st1) = ce_now env st;
          (e, local_done, st2) = batch_calls env c ctx (unat batch_iters) 0 st1;
          l1 = l\<lparr>bl_batch_start := start, bl_local_done := local_done, bl_in_batch := True\<rparr>
      in if e \<noteq> None then (e, l1, st2)
         else let (finish, st3) = ce_now env st2
              in batch_loop env c ctx batch_iters n ((close_batch finish l1)\<lparr>bl_in_batch := False\<rparr>) st3)"

definition batch_interrupted :: "'st call_env \<Rightarrow> batch_locals \<Rightarrow> 'st \<Rightarrow> batch_locals \<times> 'st" where
  "batch_interrupted env l st =
     (if bl_in_batch l \<and> bl_local_done l \<noteq> 0 then let (finish, st1) = ce_now env st in (close_batch finish l, st1) else (l, st))"

definition run_jitter_batch_epoch_calls ::
  "'st call_env \<Rightarrow> Case \<Rightarrow> nat option \<Rightarrow> u64 \<Rightarrow> u64 \<Rightarrow> real list \<Rightarrow> 'st call_state \<Rightarrow> real \<times> bool \<times> (u64 \<times> real list) \<times> 'st call_state" where
  "run_jitter_batch_epoch_calls env c ctx batch_iters batch_samples samples s =
     (let (start, st1) = ce_now env (cs_st s);
          l = \<lparr>bl_iterations = 0, bl_samples = samples, bl_local_done = 0, bl_batch_start = start, bl_in_batch = False\<rparr>;
          (elapsed, had, l', s') = run_call_phase_with_context env c ''skip requested during jitter call phase''
             (batch_loop env c ctx batch_iters (unat batch_samples)) (batch_interrupted env) l (s\<lparr>cs_st := st1\<rparr>)
      in (elapsed, had, (bl_iterations l', bl_samples l'), s'))"

text \<open>The cost of reading the clock, per call and per batch.\<close>

record OverheadEstimate =
  oe_mean_ns :: real
  oe_stddev_ns :: real
  oe_samples :: nat

fun read_clock :: "'st call_env \<Rightarrow> nat \<Rightarrow> 'st \<Rightarrow> 'st" where
  "read_clock env 0 st = st"
| "read_clock env (Suc n) st = read_clock env n (snd (ce_now env st))"

fun overhead_samples :: "'st call_env \<Rightarrow> nat \<Rightarrow> nat \<Rightarrow> nat \<Rightarrow> real list \<Rightarrow> 'st \<Rightarrow> real list \<times> 'st" where
  "overhead_samples env reads divisor 0 samples st = (samples, st)"
| "overhead_samples env reads divisor (Suc n) samples st =
     (let (start, st1) = ce_now env st; (finish, st2) = ce_now env (read_clock env reads st1)
      in overhead_samples env reads divisor n (samples @ [ns_from_s (finish - start) / real divisor]) st2)"

definition overhead_estimate :: "real list \<Rightarrow> OverheadEstimate" where
  "overhead_estimate samples =
     (let m = mean_of samples in \<lparr>oe_mean_ns = m, oe_stddev_ns = stddev_of samples m, oe_samples = length samples\<rparr>)"

definition estimate_timer_overhead_per_iter :: "'st call_env \<Rightarrow> nat \<Rightarrow> 'st \<Rightarrow> OverheadEstimate \<times> 'st" where
  "estimate_timer_overhead_per_iter env sample_count st =
     (if sample_count = 0 then (\<lparr>oe_mean_ns = 0, oe_stddev_ns = 0, oe_samples = 0\<rparr>, st)
      else let (samples, st1) = overhead_samples env (2 * 128) 128 sample_count [] st in (overhead_estimate samples, st1))"

definition estimate_timer_overhead_batch :: "'st call_env \<Rightarrow> nat \<Rightarrow> u64 \<Rightarrow> 'st \<Rightarrow> OverheadEstimate \<times> 'st" where
  "estimate_timer_overhead_batch env sample_count batch_iters st =
     (if sample_count = 0 \<or> batch_iters = 0 then (\<lparr>oe_mean_ns = 0, oe_stddev_ns = 0, oe_samples = 0\<rparr>, st)
      else let (samples, st1) = overhead_samples env 0 (unat batch_iters) sample_count [] st in (overhead_estimate samples, st1))"

record JitterResult =
  jr_epochs :: u64
  jr_iters_per_epoch :: u64
  jr_total_iters :: u64
  jr_batch_mode :: bool
  jr_min_ns :: real
  jr_max_ns :: real
  jr_median_ns :: real
  jr_mean_ns :: real
  jr_stddev_ns :: real
  jr_p05_ns :: real
  jr_p95_ns :: real
  jr_overhead_mean_ns :: real
  jr_overhead_sd_ns :: real
  jr_overhead_ratio_pct :: real
  jr_total_time_s :: real
  jr_warmup_time_s :: real
  jr_wall_time_s :: real
  jr_calibration_time_s :: real
  jr_calibration_iters :: u64
  jr_histogram_bins :: int
  jr_histogram :: "HistogramBin list"
  jr_samples_ns :: "real list"

text \<open>The choice between single calls and batches: batches when a call is shorter than ten clock readings.\<close>

definition use_batch :: "CalibratedEpoch \<Rightarrow> OverheadEstimate \<Rightarrow> bool" where
  "use_batch calibration per_iter =
     (let iters = (if ca_completed calibration \<noteq> 0 then ca_completed calibration else ca_iterations calibration);
          real_ns = (if iters > 0 then ns_from_s (ca_elapsed_s calibration) / real (unat iters) else 0)
      in real_ns > 0 \<and> oe_mean_ns per_iter > 0 \<and> real_ns < oe_mean_ns per_iter * 10)"

definition batch_samples_of :: "u64 \<Rightarrow> u64" where
  "batch_samples_of iters = (let n = min 64 iters in if n = 0 then 1 else n)"

definition batch_iters_of :: "u64 \<Rightarrow> u64" where
  "batch_iters_of iters = max 1 (iters div batch_samples_of iters)"

definition jitter_epoch ::
  "'st call_env \<Rightarrow> Case \<Rightarrow> nat option \<Rightarrow> bool \<Rightarrow> u64 \<Rightarrow> real list \<times> 'st call_state \<Rightarrow> real \<times> bool \<times> u64 \<times> (real list \<times> 'st call_state)" where
  "jitter_epoch env c ctx batch iters = (\<lambda>(samples, s).
     case (if batch then run_jitter_batch_epoch_calls env c ctx (batch_iters_of iters) (batch_samples_of iters) samples s
           else run_jitter_epoch_calls env c ctx iters samples s) of
       (t, had, (completed, samples'), s') \<Rightarrow> (t, had, completed, (samples', s')))"

definition jitter_now :: "'st call_env \<Rightarrow> real list \<times> 'st call_state \<Rightarrow> real \<times> (real list \<times> 'st call_state)" where
  "jitter_now env = (\<lambda>(samples, s). case state_now env s of (t, s') \<Rightarrow> (t, (samples, s')))"

definition jitter_epochs ::
  "'st call_env \<Rightarrow> Case \<Rightarrow> nat option \<Rightarrow> BenchConfig \<Rightarrow> bool \<Rightarrow> u64 \<Rightarrow> bool \<Rightarrow> 'st call_state \<Rightarrow> (epoch_acc \<times> (real list \<times> 'st call_state)) option" where
  "jitter_epochs env c ctx cfg batch iters had s =
     (if had then Some (epoch_start, ([], s))
      else let (start_all, s1) = state_now env s
           in epoch_loop (jitter_now env) (jitter_epoch env c ctx batch iters) cfg start_all epoch_start ([], s1))"

definition jitter_result ::
  "CalibratedEpoch \<Rightarrow> bool \<Rightarrow> OverheadEstimate \<Rightarrow> real \<Rightarrow> epoch_acc \<Rightarrow> real list \<Rightarrow> JitterResult" where
  "jitter_result calibration batch overhead warmup a samples =
     (let iters = ca_iterations calibration; stats = compute_sample_stats samples;
          ratio = (if st_median stats > 0 then oe_mean_ns overhead / st_median stats * 100 else 0)
      in \<lparr>jr_epochs = ea_epochs a, jr_iters_per_epoch = (if batch then batch_iters_of iters * batch_samples_of iters else iters),
          jr_total_iters = ea_total_iters a, jr_batch_mode = batch, jr_min_ns = st_min stats, jr_max_ns = st_max stats,
          jr_median_ns = st_median stats, jr_mean_ns = st_mean stats, jr_stddev_ns = st_stddev stats, jr_p05_ns = st_p05 stats,
          jr_p95_ns = st_p95 stats, jr_overhead_mean_ns = oe_mean_ns overhead, jr_overhead_sd_ns = oe_stddev_ns overhead,
          jr_overhead_ratio_pct = ratio, jr_total_time_s = ea_total_time_s a, jr_warmup_time_s = warmup,
          jr_wall_time_s = warmup + ea_total_time_s a + ca_elapsed_s calibration, jr_calibration_time_s = ca_elapsed_s calibration,
          jr_calibration_iters = iters, jr_histogram_bins = 0, jr_histogram = [], jr_samples_ns = samples\<rparr>)"

definition run_jitter ::
  "'st call_env \<Rightarrow> Case \<Rightarrow> nat option \<Rightarrow> BenchConfig \<Rightarrow> 'st call_state \<Rightarrow> (JitterResult \<times> 'st call_state) option" where
  "run_jitter env c ctx cfg s =
     (let (calibration, s1) = calibrate_epoch_iterations env c ctx cfg s;
          iters = ca_iterations calibration;
          (per_iter, st2) = estimate_timer_overhead_per_iter env 256 (cs_st s1);
          batch = use_batch calibration per_iter;
          (overhead, st3) = (if batch then estimate_timer_overhead_batch env 256 (batch_iters_of iters) st2 else (per_iter, st2));
          s3 = s1\<lparr>cs_st := st3\<rparr>;
          (warmup, had, completed, s4) =
            (if ca_had_assert calibration then (0, True, ca_completed calibration, s3)
             else run_warmup_epochs env c ctx iters (unat (warmup_epochs cfg)) (ca_completed calibration) 0 s3)
      in case jitter_epochs env c ctx cfg batch iters had s4 of
           None \<Rightarrow> None
         | Some (a, (samples, s5)) \<Rightarrow> Some (jitter_result calibration batch overhead warmup a samples, s5))"

text \<open>The histogram is added by the caller of \<^verbatim>\<open>run_jitter\<close> when the case succeeded.\<close>

definition with_histogram :: "int \<Rightarrow> JitterResult \<Rightarrow> JitterResult" where
  "with_histogram bins jr = jr\<lparr>jr_histogram_bins := bins, jr_histogram := compute_histogram (jr_samples_ns jr) bins\<rparr>"

subsection \<open>Calibration\<close>

lemma unat_pow2_u64:
  assumes "k < 64"
  shows "unat ((2::u64) ^ k) = 2 ^ k"
proof -
  have "(2::u64) ^ k = word_of_nat (2 ^ k)" by simp
  moreover have "(2::nat) ^ k < 2 ^ 64" using assms by (intro power_strict_increasing) simp_all
  moreover have "unat (word_of_nat n :: u64) = n" if "n < 2 ^ 64" for n using that by (simp add: unsigned_of_nat take_bit_nat_eq_self)
  ultimately show ?thesis by (simp only:)
qed

lemma pow2_u64:
  assumes "k \<le> l" "l < 64"
  shows "(2::u64) ^ k \<noteq> 0" "(2::u64) ^ k \<le> 2 ^ l"
  using assms unat_pow2_u64[of k] unat_pow2_u64[of l] by (auto simp: word_le_nat_alt unat_eq_0[symmetric])

lemma calibrate_loop_power:
  assumes "k \<le> 30" "calibrate_loop env c ctx cfg (2 ^ k) s = (r, s')"
  shows "\<exists>j \<le> 31. ca_iterations r = 2 ^ j"
  using assms
proof (induction "31 - k" arbitrary: k s)
  case (Suc n)
  obtain elapsed had completed s1 where e: "run_epoch_calls env c ctx (2 ^ k) s = (elapsed, had, completed, s1)" by (metis prod_cases4)
  have dbl: "(2::u64) ^ k * 2 = 2 ^ (k + 1)" by (simp add: mult.commute)
  have nz: "(2::u64) ^ (k + 1) \<noteq> 0" using Suc.prems(1) by (intro pow2_u64(1)[of _ 31]) simp_all
  note eq = calibrate_loop.simps[of env c ctx cfg "2 ^ k" s, unfolded e Let_def split dbl]
  consider "had \<or> reaches elapsed (min_epoch_time_s cfg)" | "\<not> (had \<or> reaches elapsed (min_epoch_time_s cfg))" "k = 30"
    | "\<not> (had \<or> reaches elapsed (min_epoch_time_s cfg))" "k < 30" using Suc.prems(1) by linarith
  then show ?case
  proof cases
    case 1 then show ?thesis using Suc.prems eq by (intro exI[of _ k]) auto
  next
    case 2
    then show ?thesis using Suc.prems eq by (intro exI[of _ 31]) auto
  next
    case 3
    have "(2::u64) ^ (k + 1) \<le> 2 ^ 30" using 3 by (intro pow2_u64(2)) simp_all
    then have "calibrate_loop env c ctx cfg (2 ^ (k + 1)) s1 = (r, s')" using 3 nz eq Suc.prems(2) by (auto simp: not_less)
    then show ?thesis using Suc.hyps(1)[of "k + 1" s1] Suc.hyps(2) 3 by simp
  qed
qed simp

lemma calibrated_iterations:
  assumes "calibrate_epoch_iterations env c ctx cfg s = (r, s')"
  shows "ca_iterations r \<noteq> 0" "ca_iterations r \<le> 2 ^ 31"
proof -
  obtain j where "j \<le> 31" "ca_iterations r = 2 ^ j"
    using calibrate_loop_power[of 0 env c ctx cfg s r s'] assms by (auto simp: calibrate_epoch_iterations_def)
  then show "ca_iterations r \<noteq> 0" "ca_iterations r \<le> 2 ^ 31" using pow2_u64[of j 31] by simp_all
qed

subsection \<open>Clocks\<close>

text \<open>
  What \<^verbatim>\<open>std::chrono::steady_clock\<close> promises: there is a time that no operation turns back and that
  a reading lies on.  \<open>advances\<close> says that a call of the case body takes at least \<open>\<delta>\<close>.
\<close>

definition steady :: "'st call_env \<Rightarrow> ('st \<Rightarrow> real) \<Rightarrow> bool" where
  "steady env clk \<longleftrightarrow>
     (\<forall>st. clk st \<le> fst (ce_now env st) \<and> fst (ce_now env st) \<le> clk (snd (ce_now env st)) \<and> clk st \<le> clk (snd (ce_close env st))
           \<and> (\<forall>c. clk st \<le> clk (ce_open env c st)) \<and> (\<forall>c ctx. clk st \<le> clk (snd (ce_fn env c ctx st))))"

definition advances :: "'st call_env \<Rightarrow> ('st \<Rightarrow> real) \<Rightarrow> real \<Rightarrow> bool" where
  "advances env clk \<delta> \<longleftrightarrow> (\<forall>c ctx st. clk st + \<delta> \<le> clk (snd (ce_fn env c ctx st)))"

lemma call_loop_clock:
  assumes st: "steady env clk" and r: "call_loop env c ctx n i st = (e, i', st')"
  shows "clk st \<le> clk st'" 
  using r
proof (induction n arbitrary: i st)
  case (Suc n)
  obtain e1 st1 where f: "ce_fn env c ctx st = (e1, st1)" by force
  have "clk st \<le> clk st1" using st f by (metis snd_conv steady_def)
  moreover have "clk st1 \<le> clk st'" using Suc.IH[of "i + 1" st1] Suc.prems f by (cases e1) auto
  ultimately show ?case by simp
qed simp

lemma call_loop_progress:
  assumes st: "steady env clk" and d: "advances env clk \<delta>" and n: "n \<noteq> 0" and r: "call_loop env c ctx n i st = (e, i', st')"
  shows "clk st + \<delta> \<le> clk st'"
proof -
  obtain m where m: "n = Suc m" using n not0_implies_Suc by blast
  obtain e1 st1 where f: "ce_fn env c ctx st = (e1, st1)" by force
  have "clk st + \<delta> \<le> clk st1" using d f by (metis advances_def snd_conv)
  moreover have "clk st1 \<le> clk st'" using r m f call_loop_clock[OF st, of c ctx m "i + 1" st1 e i' st'] by (cases e1) auto
  ultimately show ?thesis by simp
qed

lemma epoch_time:
  assumes st: "steady env clk" and r: "run_epoch_calls env c ctx iters s = (t, had, completed, s')"
  shows "0 \<le> t" "advances env clk \<delta> \<Longrightarrow> iters \<noteq> 0 \<Longrightarrow> \<delta> \<le> t"
proof -
  obtain start st1 e i st2 finish st3 where
    p: "ce_now env (ce_open env c (cs_st s)) = (start, st1)" "call_loop env c ctx (unat iters) 0 st1 = (e, i, st2)"
       "ce_now env st2 = (finish, st3)" by (metis prod_cases3 surj_pair)
  have t: "t = finish - start" using r p
    by (auto simp: run_epoch_calls_def run_call_phase_with_context_def Let_def split: prod.splits)
  have a: "start \<le> clk st1" "clk st2 \<le> finish" using st p(1,3) by (metis fst_conv snd_conv steady_def)+
  show "0 \<le> t" using call_loop_clock[OF st p(2)] a t by simp
  show "\<delta> \<le> t" if "advances env clk \<delta>" "iters \<noteq> 0"
    using call_loop_progress[OF st that(1) _ p(2)] that(2) a t by (simp add: unat_eq_0)
qed

subsection \<open>The epoch loop returns\<close>

lemma epoch_step_acc:
  assumes "epoch_step now ep cfg start a s = (stop, a', s')"
  shows "ea_total_time_s a' = ea_total_time_s a + fst (ep s)" "\<not> stop \<Longrightarrow> ea_epochs a' = ea_epochs a + 1"
  using assms by (auto simp: epoch_step_def epoch_add_def Let_def split: prod.splits if_splits)

lemma epoch_loop_unfold:
  assumes "\<not> epochs_done cfg a" "epoch_step now ep cfg start a s = (stop, a', s')"
  shows "epoch_loop now ep cfg start a s = (if stop then Some (a', s') else epoch_loop now ep cfg start a' s')"
  using assms epoch_loop.simps[of now ep cfg start a s] by simp

text \<open>Once the minimum time is reached only the number of epochs is left to count up.\<close>

lemma epoch_loop_counts:
  assumes ep: "\<And>s. 0 \<le> fst (ep s)" and q: "min_total_time_s cfg = DFinite q" "of_rat q \<le> ea_total_time_s a"
  shows "\<exists>r. epoch_loop now ep cfg start a s = Some r"
  using q(2)
proof (induction "unat (measure_epochs cfg) - unat (ea_epochs a)" arbitrary: a s rule: less_induct)
  case less
  obtain stop a' s' where st: "epoch_step now ep cfg start a s = (stop, a', s')" by (metis prod_cases3)
  show ?case
  proof (cases "epochs_done cfg a \<or> stop")
    case True
    then show ?thesis using epoch_loop.simps[of now ep cfg start a s] st by auto
  next
    case False
    then have lt: "ea_epochs a < measure_epochs cfg" using less.prems q(1) by (auto simp: epochs_done_def)
    have e: "ea_epochs a' = ea_epochs a + 1" and t: "of_rat q \<le> ea_total_time_s a'"
      using epoch_step_acc[OF st] False less.prems ep[of s] by (auto intro: order_trans)
    have "ea_epochs a + 1 \<noteq> 0" using lt by (metis eq_neg_iff_add_eq_0 not_less word_n1_ge)
    then have "unat (ea_epochs a') = unat (ea_epochs a) + 1" using e by (metis Suc_eq_plus1 add.commute unatSuc)
    then show ?thesis
      using less.hyps[OF _ t, of s'] lt False epoch_loop_unfold[OF _ st] by (auto simp: word_less_nat_alt)
  qed
qed

lemma epoch_loop_returns:
  assumes ep: "\<And>s. 0 \<le> fst (ep s)" and q: "min_total_time_s cfg = DFinite q" and a: "0 \<le> ea_total_time_s a"
    and progress: "q \<le> 0 \<or> 0 < \<delta> \<and> (\<forall>s. \<delta> \<le> fst (ep s))"
  shows "\<exists>r. epoch_loop now ep cfg start a s = Some r"
proof (cases "q \<le> 0")
  case True
  then have "of_rat q \<le> (0::real)" by (simp add: of_rat_less_eq[of q 0, simplified])
  then have "of_rat q \<le> ea_total_time_s a" using a by (rule order_trans)
  then show ?thesis by (rule epoch_loop_counts[of ep cfg q a, OF ep q])
next
  case False
  then have d: "0 < \<delta>" "\<And>s. \<delta> \<le> fst (ep s)" using progress by auto
  obtain n :: nat where "(of_rat q - ea_total_time_s a) / \<delta> \<le> real n" using real_nat_ceiling_ge by blast
  then have "of_rat q - ea_total_time_s a \<le> real n * \<delta>" using d(1) by (simp add: field_simps)
  then show ?thesis
  proof (induction n arbitrary: a s)
    case 0
    then show ?case using epoch_loop_counts[of ep cfg q a, OF ep q] by simp
  next
    case (Suc n)
    obtain stop a' s' where st: "epoch_step now ep cfg start a s = (stop, a', s')" by (metis prod_cases3)
    have "of_rat q - ea_total_time_s a' \<le> real n * \<delta>" using Suc.prems epoch_step_acc(1)[OF st] d(2)[of s] by (simp add: algebra_simps)
    then show ?case using Suc.IH[of a' s'] epoch_loop.simps[of now ep cfg start a s] st by auto
  qed
qed

text \<open>
  C31. A benchmark always comes to an end on a steady clock.  Whatever the case body and the context
  do, run_bench returns if the minimum total time is zero, as it is by default, or if every call of
  the body takes some minimal time; it then ran a calibrated number of calls per epoch that is a
  positive power of two up to two to the thirty-first.
\<close>

theorem run_bench_returns:
  assumes st: "steady env clk" and q: "min_total_time_s cfg = DFinite q" and p: "q \<le> 0 \<or> 0 < \<delta> \<and> advances env clk \<delta>"
  shows "\<exists>br s'. run_bench env c ctx cfg s = Some (br, s') \<and> br_calibration_iters br \<noteq> 0 \<and> br_calibration_iters br \<le> 2 ^ 31"
proof -
  obtain cal s1 where cal: "calibrate_epoch_iterations env c ctx cfg s = (cal, s1)" by force
  note it = calibrated_iterations[OF cal]
  obtain w had done' s2 where wu: "(if ca_had_assert cal then (0, True, ca_completed cal, s1)
      else run_warmup_epochs env c ctx (ca_iterations cal) (unat (warmup_epochs cfg)) (ca_completed cal) 0 s1) = (w, had, done', s2)"
    by (metis prod_cases4)
  let ?ep = "run_epoch_calls env c ctx (ca_iterations cal)"
  have time: "0 \<le> fst (?ep s)" "advances env clk \<delta> \<Longrightarrow> \<delta> \<le> fst (?ep s)" for s
    using epoch_time[OF st, of c ctx "ca_iterations cal" s] it(1) by (metis prod.collapse)+
  have "\<exists>r. bench_epochs env c ctx cfg (ca_iterations cal) had s2 = Some r"
    using epoch_loop_returns[of ?ep cfg q epoch_start \<delta>, OF time(1) q] p time(2)
    by (auto simp: bench_epochs_def epoch_start_def split: prod.splits)
  then obtain a s3 where "bench_epochs env c ctx cfg (ca_iterations cal) had s2 = Some (a, s3)" by auto
  then show ?thesis using it
    by (auto simp: run_bench_def cal wu Let_def bench_statistics_def zero_bench_result_def)
qed

subsection \<open>Results of a benchmark\<close>

lemma call_loop_complete: "call_loop env c ctx n i st = (None, i', st') \<Longrightarrow> i' = i + of_nat n"
  by (induction n arbitrary: i st) (fastforce split: prod.splits option.splits)+

lemma call_phase_end:
  assumes "run_call_phase_with_context env c r body intr loc s = (t, had, loc', s')"
    "ce_now env (ce_open env c (cs_st s)) = (start, st1)" "body loc st1 = (e, loc1, st2)"
  shows "e \<noteq> None \<Longrightarrow> had" "e = None \<Longrightarrow> loc' = loc1"
  using assms by (auto simp: run_call_phase_with_context_def finalize_call_phase_failure_def Let_def split: prod.splits option.splits if_splits)

lemma epoch_completes:
  assumes "run_epoch_calls env c ctx iters s = (t, False, completed, s')"
  shows "completed = iters"
proof -
  obtain start st1 where n: "ce_now env (ce_open env c (cs_st s)) = (start, st1)" by force
  obtain e i st2 where l: "call_loop env c ctx (unat iters) 0 st1 = (e, i, st2)" by (metis prod_cases3)
  note end' = call_phase_end[OF assms[unfolded run_epoch_calls_def] n l]
  then have "e = None" by blast
  then show ?thesis using end'(2) call_loop_complete[of env c ctx "unat iters" 0 st1 i st2] l by simp
qed

lemma epoch_loop_invariant:
  fixes now :: "'s \<Rightarrow> real \<times> 's"
  assumes step: "\<And>a s stop a' s'. I a \<Longrightarrow> epoch_step now ep cfg start a s = (stop, a', s') \<Longrightarrow> I a'"
    and r: "epoch_loop now ep cfg start a s = Some r" and i: "I a"
  shows "I (fst r)"
proof -
  let ?P = "\<lambda>now' ep' cfg' start' a s r. now' = now \<and> ep' = ep \<and> cfg' = cfg \<and> start' = start \<longrightarrow> I a \<longrightarrow> I (fst r)"
  have "?P now ep cfg start a s r"
  proof (rule epoch_loop.raw_induct[of ?P, OF _ r])
    fix f :: "('s \<Rightarrow> real \<times> 's) \<Rightarrow> ('s \<Rightarrow> real \<times> bool \<times> u64 \<times> 's) \<Rightarrow> BenchConfig \<Rightarrow> real \<Rightarrow> epoch_acc \<Rightarrow> 's \<Rightarrow> (epoch_acc \<times> 's) option"
      and now' ep' cfg' start' a s y
    assume ih: "\<And>now' ep' cfg' start' a s y. f now' ep' cfg' start' a s = Some y \<Longrightarrow> ?P now' ep' cfg' start' a s y"
      and eq: "(if epochs_done cfg' a then Some (a, s)
                else case epoch_step now' ep' cfg' start' a s of
                       (stop, a', s') \<Rightarrow> if stop then Some (a', s') else f now' ep' cfg' start' a' s') = Some y"
    obtain stop a' s' where st: "epoch_step now' ep' cfg' start' a s = (stop, a', s')" by (metis prod_cases3)
    show "?P now' ep' cfg' start' a s y"
      using eq st step[of a s stop a' s'] ih[of now' ep' cfg' start' a' s' y] by (auto split: if_splits)
  qed
  then show ?thesis using i by simp
qed

text \<open>Every logged epoch completed all its calls; an interrupted last one adds at most as many.\<close>

definition log_ok :: "u64 \<Rightarrow> epoch_acc \<Rightarrow> bool" where
  "log_ok iters a \<longleftrightarrow> (\<forall>(t, n) \<in> set (ea_log a). n = iters) \<and> ea_epochs a = of_nat (length (ea_log a))"

lemma epoch_loop_log:
  assumes ep: "\<And>s t n s'. ep s = (t, False, n, s') \<Longrightarrow> n = iters"
    and r: "epoch_loop now ep cfg start a s = Some r" and ok: "log_ok iters a"
  shows "log_ok iters (fst r)"
proof (rule epoch_loop_invariant[of "log_ok iters", OF _ r ok])
  show "log_ok iters a'" if "log_ok iters a" "epoch_step now ep cfg start a s = (stop, a', s')" for a s stop a' s'
    using that ep by (fastforce simp: epoch_step_def epoch_add_def log_ok_def Let_def split: prod.splits if_splits)
qed

lemma bench_statistics_ordered:
  assumes "ns \<noteq> []"
  shows "br_best_ns (bench_statistics iters ns br) = Min (set ns)" "br_worst_ns (bench_statistics iters ns br) = Max (set ns)"
    "let b = bench_statistics iters ns br in br_best_ns b \<le> br_p05_ns b \<and> br_p05_ns b \<le> br_median_ns b \<and> br_median_ns b \<le> br_p95_ns b
       \<and> br_p95_ns b \<le> br_worst_ns b \<and> br_best_ns b \<le> br_mean_ns b \<and> br_mean_ns b \<le> br_worst_ns b"
proof -
  let ?v = "sort ns"
  have n: "?v \<noteq> []" using assms by (metis length_0_conv length_sort)
  have mean: "Min (set ns) \<le> mean_of ns \<and> mean_of ns \<le> Max (set ns)" using assms by (intro mean_bounds) auto
  show "br_best_ns (bench_statistics iters ns br) = Min (set ns)" "br_worst_ns (bench_statistics iters ns br) = Max (set ns)"
    using assms by (simp_all add: bench_statistics_def Let_def hd_last_sort)
  show "let b = bench_statistics iters ns br in br_best_ns b \<le> br_p05_ns b \<and> br_p05_ns b \<le> br_median_ns b \<and> br_median_ns b \<le> br_p95_ns b
       \<and> br_p95_ns b \<le> br_worst_ns b \<and> br_best_ns b \<le> br_mean_ns b \<and> br_mean_ns b \<le> br_worst_ns b"
    using assms percentile_chain[OF n] mean by (simp add: bench_statistics_def Let_def hd_last_sort[OF assms])
qed

text \<open>
  The result of a benchmark is what its epochs measured.  If run_bench returns with a positive
  number of epochs, then for that many times, each taken over exactly the calibrated number of
  calls, the best and worst figures are the least and greatest time per call, the percentiles, the
  median and the mean lie between them in order, and the wall time is calibration, warm-up and
  measured time together.
\<close>

theorem bench_result_consistent:
  assumes r: "run_bench env c ctx cfg s = Some (br, s')" and pos: "br_epochs br \<noteq> 0"
  shows "br_iters_per_epoch br = br_calibration_iters br
    \<and> br_wall_time_s br = br_warmup_time_s br + br_total_time_s br + br_calibration_time_s br
    \<and> (\<exists>ts. length ts = br_epochs br
           \<and> br_best_ns br = Min ((\<lambda>t. ns_from_s t / real (unat (br_calibration_iters br))) ` set ts)
           \<and> br_worst_ns br = Max ((\<lambda>t. ns_from_s t / real (unat (br_calibration_iters br))) ` set ts))
    \<and> br_best_ns br \<le> br_p05_ns br \<and> br_p05_ns br \<le> br_median_ns br \<and> br_median_ns br \<le> br_p95_ns br \<and> br_p95_ns br \<le> br_worst_ns br
    \<and> br_best_ns br \<le> br_mean_ns br \<and> br_mean_ns br \<le> br_worst_ns br"
proof -
  obtain cal s1 where cal: "calibrate_epoch_iterations env c ctx cfg s = (cal, s1)" by force
  let ?n = "ca_iterations cal"
  obtain w had done' s2 where wu: "(if ca_had_assert cal then (0, True, ca_completed cal, s1)
      else run_warmup_epochs env c ctx ?n (unat (warmup_epochs cfg)) (ca_completed cal) 0 s1) = (w, had, done', s2)"
    by (metis prod_cases4)
  obtain a s3 where ep: "bench_epochs env c ctx cfg ?n had s2 = Some (a, s3)" using r by (auto simp: run_bench_def cal wu Let_def split: option.splits)
  have "log_ok ?n (fst (a, s3))"
  proof (cases had)
    case True then show ?thesis using ep by (auto simp: bench_epochs_def log_ok_def epoch_start_def)
  next
    case False
    obtain t0 s4 where "state_now env s2 = (t0, s4)" by force
    then show ?thesis using ep False epoch_completes
      by (intro epoch_loop_log[of "run_epoch_calls env c ctx ?n" ?n "state_now env" cfg t0 epoch_start s4])
         (auto simp: bench_epochs_def log_ok_def epoch_start_def)
  qed
  then have log: "snd e = ?n" if "e \<in> set (ea_log a)" for e using that by (auto simp: log_ok_def)
  let ?ns = "map epoch_ns (ea_log a)"
  define br0 where "br0 = zero_bench_result\<lparr>br_calibration_time_s := ca_elapsed_s cal, br_calibration_iters := ?n,
     br_warmup_time_s := w, br_total_time_s := ea_total_time_s a, br_total_iters := ea_total_iters a\<rparr>"
  have br: "br = (bench_statistics ?n ?ns br0)\<lparr>br_wall_time_s := w + ea_total_time_s a + ca_elapsed_s cal\<rparr>"
    using r ep by (auto simp: run_bench_def cal wu br0_def bench_statistics_def Let_def)
  have ne: "?ns \<noteq> []" using pos br by (auto simp: bench_statistics_def br0_def zero_bench_result_def)
  have fields: "br_epochs br = length (ea_log a)" "br_iters_per_epoch br = ?n" "br_calibration_iters br = ?n"
    "br_wall_time_s br = br_warmup_time_s br + br_total_time_s br + br_calibration_time_s br"
    using ne by (simp_all add: br bench_statistics_def Let_def br0_def)
  have "epoch_ns e = ns_from_s (fst e) / real (unat ?n)" if "e \<in> set (ea_log a)" for e
    using log[OF that] calibrated_iterations(1)[OF cal] by (simp add: epoch_ns_def)
  then have set: "set ?ns = (\<lambda>t. ns_from_s t / real (unat ?n)) ` set (map fst (ea_log a))" by (force simp: image_image)
  show ?thesis using fields bench_statistics_ordered[OF ne, of ?n br0] set br
    by (auto simp: Let_def intro!: exI[of _ "map fst (ea_log a)"])
qed

subsection \<open>A failure without a message\<close>

text \<open>An exception with an empty text leaves no bench error, and the case counts as passed.\<close>

definition throws_silently :: "'st call_env \<Rightarrow> Case \<Rightarrow> nat option \<Rightarrow> bool" where
  "throws_silently env c ctx \<longleftrightarrow>
     (\<forall>st. fst (ce_fn env c ctx st) = Some (FailureExn [])
           \<and> \<not> x_runtime_skip_requested (fst (ce_close env st)) \<and> first_recorded_failure (fst (ce_close env st)) = [])"

lemma silent_epoch:
  assumes "throws_silently env c ctx" "cs_bench_error s = []"
  shows "\<exists>t s'. run_epoch_calls env c ctx 1 s = (t, True, 0, s') \<and> cs_bench_error s' = []"
proof -
  obtain start st1 st2 finish st3 where p: "ce_now env (ce_open env c (cs_st s)) = (start, st1)"
    "ce_fn env c ctx st1 = (Some (FailureExn []), st2)" "ce_now env st2 = (finish, st3)"
    using assms(1) by (metis prod.collapse throws_silently_def)
  obtain x st4 where x: "ce_close env st3 = (x, st4)" by force
  then have "\<not> x_runtime_skip_requested x" "first_recorded_failure x = []" using assms(1) by (metis fst_conv throws_silently_def)+
  moreover have "call_loop env c ctx (unat (1::u64)) 0 st1 = (Some (FailureExn []), 0, st2)" using p by simp
  ultimately show ?thesis using assms(2) p x
    by (simp add: run_epoch_calls_def run_call_phase_with_context_def handle_exception_def record_bench_error_def
        finalize_call_phase_failure_def)
qed

text \<open>
  A benchmark whose body throws gentest::failure with an empty message is reported as passed.
  The call phase notices the exception and stops, but the empty text is indistinguishable from
  having recorded no error: run_bench returns no epochs and no bench error, and with a tear-down
  that succeeds the measured case has no failure.
\<close>

theorem empty_failure_passes:
  assumes "throws_silently env c ctx" and "cs_bench_error s = []"
  shows "\<exists>br s'. run_bench env c ctx cfg s = Some (br, s') \<and> br_epochs br = 0 \<and> br_total_iters br = 0
            \<and> (\<forall>td f. call_failure (cs_bench_error s') td f = None \<longleftrightarrow> mp_ok td)"
proof -
  obtain t s1 where e: "run_epoch_calls env c ctx 1 s = (t, True, 0, s1)" "cs_bench_error s1 = []" using silent_epoch[OF assms] by blast
  have "calibrate_epoch_iterations env c ctx cfg s = (\<lparr>ca_iterations = 1, ca_completed = 0, ca_elapsed_s = t, ca_had_assert = True\<rparr>, s1)"
    by (simp add: calibrate_epoch_iterations_def calibrate_loop.simps[of env c ctx cfg 1 s] e)
  then show ?thesis using e(2)
    by (simp add: run_bench_def bench_epochs_def epoch_start_def bench_statistics_def zero_bench_result_def call_failure_def Let_def)
qed

subsection \<open>Examples\<close>

definition tick_env :: "exn option \<Rightarrow> nat call_env" where
  "tick_env e = \<lparr>ce_open = (\<lambda>_ st. st), ce_fn = (\<lambda>_ _ st. (e, st + 1)), ce_context = (\<lambda>_. new_context),
     ce_close = (\<lambda>st. (new_context, st)), ce_now = (\<lambda>st. (real st, st))\<rparr>"

definition fresh_call :: "nat call_state" where
  "fresh_call = \<lparr>cs_st = 0, cs_bench_error = [], cs_failure = no_failure\<rparr>"

lemma tick_steady: "steady (tick_env e) real" "advances (tick_env e) real 1"
  by (simp_all add: steady_def advances_def tick_env_def)

theorem run_bench_returns_witness: "\<exists>br s'. run_bench (tick_env None) sample_test None default_bench_config fresh_call = Some (br, s')"
  using run_bench_returns[OF tick_steady(1)[of None], of default_bench_config 0 1] by (fastforce simp: default_bench_config_def)

theorem empty_failure_passes_witness:
  "\<exists>br s'. run_bench (tick_env (Some (FailureExn []))) sample_test None default_bench_config fresh_call = Some (br, s') \<and> br_epochs br = 0"
proof -
  have "throws_silently (tick_env (Some (FailureExn []))) sample_test None"
    by (simp add: throws_silently_def tick_env_def first_recorded_failure_def new_context_def)
  then show ?thesis using empty_failure_passes[of "tick_env (Some (FailureExn []))" sample_test None fresh_call]
    by (fastforce simp: fresh_call_def)
qed

text \<open>One epoch of one call is enough for a short configuration.\<close>

definition short_config :: BenchConfig where
  "short_config = \<lparr>min_epoch_time_s = DFinite 1, min_total_time_s = DFinite 0, max_total_time_s = DFinite 0, warmup_epochs = 0, measure_epochs = 1\<rparr>"

lemma tick_epoch: "run_epoch_calls (tick_env None) sample_test None 1 s = (1, False, 1, s\<lparr>cs_st := cs_st s + 1\<rparr>)"
  by (cases s) (simp add: run_epoch_calls_def run_call_phase_with_context_def finalize_call_phase_failure_def tick_env_def
      first_recorded_failure_def new_context_def capture_first_failure_location_def Let_def)

lemma tick_run:
  "run_bench (tick_env None) sample_test None short_config fresh_call =
     Some (zero_bench_result\<lparr>br_epochs := 1, br_iters_per_epoch := 1, br_total_iters := 1, br_best_ns := 1000000000, br_worst_ns := 1000000000,
        br_median_ns := 1000000000, br_mean_ns := 1000000000, br_p05_ns := 1000000000, br_p95_ns := 1000000000, br_total_time_s := 1,
        br_wall_time_s := 2, br_calibration_time_s := 1, br_calibration_iters := 1\<rparr>, fresh_call\<lparr>cs_st := 2\<rparr>)"
proof -
  have cal: "calibrate_epoch_iterations (tick_env None) sample_test None short_config fresh_call =
      (\<lparr>ca_iterations = 1, ca_completed = 1, ca_elapsed_s = 1, ca_had_assert = False\<rparr>, fresh_call\<lparr>cs_st := 1\<rparr>)"
    by (simp add: calibrate_epoch_iterations_def calibrate_loop.simps[of _ _ _ _ 1] tick_epoch short_config_def fresh_call_def)
  have now: "state_now (tick_env None) s = (real (cs_st s), s)" for s by (simp add: state_now_def tick_env_def)
  have loop: "epoch_loop (state_now (tick_env None)) (run_epoch_calls (tick_env None) sample_test None 1) short_config 1 epoch_start (fresh_call\<lparr>cs_st := 1\<rparr>)
      = Some (\<lparr>ea_log = [(1, 1)], ea_epochs = 1, ea_total_time_s = 1, ea_total_iters = 1\<rparr>, fresh_call\<lparr>cs_st := 2\<rparr>)"
    by (subst epoch_loop.simps, simp add: epochs_done_def epoch_start_def short_config_def epoch_step_def tick_epoch now epoch_add_def
        out_of_time_def) (subst epoch_loop.simps, simp add: epochs_done_def short_config_def fresh_call_def)
  have warm: "warmup_epochs short_config = 0" by (simp add: short_config_def)
  show ?thesis
    by (simp add: run_bench_def cal bench_epochs_def now loop[simplified] bench_statistics_def Let_def epoch_ns_def ns_from_s_def percentile_sorted_def
        mean_of_def zero_bench_result_def warm)
qed

theorem bench_result_consistent_witness:
  "\<exists>br s'. run_bench (tick_env None) sample_test None short_config fresh_call = Some (br, s') \<and> br_best_ns br \<le> br_median_ns br"
  using bench_result_consistent[OF tick_run] tick_run by (simp add: zero_bench_result_def)

end
