(* ===== verification/Timer_Queue.thy ===== *)
theory Timer_Queue
  imports Prelude "HOL-Library.Multiset"
begin

section \<open>The timer queue of the asynchronous scheduler: \<^verbatim>\<open>src/async_timer_queue.h\<close>\<close>

text \<open>
  Timers with a deadline and a waiter token, ordered by deadline and arrival.  A token that has been
  posted or cancelled stays in the queue until it is purged; whether a token is active is an
  argument of the operations.  Token pointers are optional identifiers, time points are integers.
\<close>

type_synonym token_ptr = "nat option"

subsection \<open>Timers\<close>

record timer =
  tm_deadline :: int
  tm_sequence :: nat
  tm_token :: nat

definition timer_key :: "timer \<Rightarrow> int \<times> nat" where
  "timer_key t = (tm_deadline t, tm_sequence t)"

text \<open>The priority queue of \<^verbatim>\<open>EarlierDeadlineFirst\<close>, as the list in which its elements come out.\<close>

definition timer_before :: "timer \<Rightarrow> timer \<Rightarrow> bool" where
  "timer_before a b \<longleftrightarrow>
     (if tm_deadline a \<noteq> tm_deadline b then tm_deadline a < tm_deadline b else tm_sequence a < tm_sequence b)"

fun queue_insert :: "timer \<Rightarrow> timer list \<Rightarrow> timer list" where
  "queue_insert t [] = [t]"
| "queue_insert t (u # us) = (if timer_before u t then u # queue_insert t us else t # u # us)"

record timer_queue =
  tq_timers :: "timer list"
  tq_next_sequence :: nat

definition timer_push :: "int \<Rightarrow> token_ptr \<Rightarrow> timer_queue \<Rightarrow> timer_queue" where
  "timer_push deadline tok q =
     (case tok of
        None \<Rightarrow> q
      | Some t \<Rightarrow> q\<lparr>tq_timers := queue_insert \<lparr>tm_deadline = deadline, tm_sequence = tq_next_sequence q, tm_token = t\<rparr> (tq_timers q),
                     tq_next_sequence := tq_next_sequence q + 1\<rparr>)"

fun pop_due_loop :: "(nat \<Rightarrow> bool) \<Rightarrow> int \<Rightarrow> timer list \<Rightarrow> nat list \<times> timer list" where
  "pop_due_loop active now [] = ([], [])"
| "pop_due_loop active now (t # ts) =
     (if \<not> active (tm_token t) then pop_due_loop active now ts
      else if tm_deadline t > now then ([], t # ts)
      else case pop_due_loop active now ts of (due, rest) \<Rightarrow> (tm_token t # due, rest))"

definition pop_due :: "(nat \<Rightarrow> bool) \<Rightarrow> int \<Rightarrow> timer_queue \<Rightarrow> nat list \<times> timer_queue" where
  "pop_due active now q = (case pop_due_loop active now (tq_timers q) of (due, rest) \<Rightarrow> (due, q\<lparr>tq_timers := rest\<rparr>))"

definition purge_stale :: "(nat \<Rightarrow> bool) \<Rightarrow> timer_queue \<Rightarrow> timer_queue" where
  "purge_stale active q = q\<lparr>tq_timers := dropWhile (\<lambda>t. \<not> active (tm_token t)) (tq_timers q)\<rparr>"

definition next_deadline :: "(nat \<Rightarrow> bool) \<Rightarrow> timer_queue \<Rightarrow> int option \<times> timer_queue" where
  "next_deadline active q =
     (let q' = purge_stale active q in (case tq_timers q' of [] \<Rightarrow> None | t # _ \<Rightarrow> Some (tm_deadline t), q'))"

definition has_pending :: "(nat \<Rightarrow> bool) \<Rightarrow> timer_queue \<Rightarrow> bool \<times> timer_queue" where
  "has_pending active q = (case next_deadline active q of (d, q') \<Rightarrow> (d \<noteq> None, q'))"

definition timer_clear :: "timer_queue \<Rightarrow> timer_queue" where
  "timer_clear q = q\<lparr>tq_timers := []\<rparr>"

text \<open>Sorted by deadline, then by arrival; sequence numbers are those handed out so far.\<close>

definition timers_ok :: "timer_queue \<Rightarrow> bool" where
  "timers_ok q \<longleftrightarrow> sorted_wrt timer_before (tq_timers q) \<and> (\<forall>t \<in> set (tq_timers q). tm_sequence t < tq_next_sequence q)"

lemma timer_before_trans: "timer_before a b \<Longrightarrow> timer_before b c \<Longrightarrow> timer_before a c"
  by (auto simp: timer_before_def split: if_splits)

lemma set_queue_insert: "set (queue_insert t ts) = insert t (set ts)"
  by (induction ts) auto

lemma mset_queue_insert: "mset (queue_insert t ts) = add_mset t (mset ts)"
  by (induction ts) auto

lemma queue_insert_sorted:
  assumes "sorted_wrt timer_before ts" "\<forall>u \<in> set ts. tm_sequence u \<noteq> tm_sequence t"
  shows "sorted_wrt timer_before (queue_insert t ts)"
  using assms
proof (induction ts)
  case (Cons u us)
  have "timer_before u t \<or> timer_before t u" using Cons.prems(2) by (auto simp: timer_before_def)
  then show ?case using Cons timer_before_trans by (auto simp: set_queue_insert)
qed simp

lemma timers_ok_push: "timers_ok q \<Longrightarrow> timers_ok (timer_push d tok q)"
  by (fastforce simp: timers_ok_def timer_push_def set_queue_insert split: option.splits intro!: queue_insert_sorted)

lemma pop_due_loop_spec:
  assumes "sorted_wrt timer_before ts"
  shows "pop_due_loop active now ts =
    (map tm_token (filter (\<lambda>t. active (tm_token t) \<and> tm_deadline t \<le> now) ts),
     dropWhile (\<lambda>t. \<not> active (tm_token t) \<or> tm_deadline t \<le> now) ts)"
  using assms
proof (induction ts)
  case (Cons t ts)
  have "now < tm_deadline u" if "now < tm_deadline t" "u \<in> set ts" for u
    using Cons.prems that by (auto simp: timer_before_def split: if_splits)
  then have "filter (\<lambda>u. active (tm_token u) \<and> tm_deadline u \<le> now) ts = []" if "now < tm_deadline t"
    using that by (force simp: filter_empty_conv)
  then show ?case using Cons by auto
qed simp

subsection \<open>A timer service in arrival order\<close>

text \<open>
  The specification keeps the pending timers in the order of their arrival and hands out the due
  ones sorted by deadline.  Tokens can be cancelled at any time and never become active again.
\<close>

datatype timer_op = TPush int nat | TCancel nat | TPop int | TNext | TPending

datatype timer_out = Due "nat list" | Deadline "int option" | Pending bool | Nothing

definition live :: "nat set \<Rightarrow> nat \<Rightarrow> bool" where
  "live dead t \<longleftrightarrow> t \<notin> dead"

fun timer_step :: "timer_op \<Rightarrow> timer_queue \<times> nat set \<Rightarrow> timer_out \<times> timer_queue \<times> nat set" where
  "timer_step (TPush d t) (q, dead) = (Nothing, timer_push d (Some t) q, dead)"
| "timer_step (TCancel t) (q, dead) = (Nothing, q, insert t dead)"
| "timer_step (TPop now) (q, dead) = (case pop_due (live dead) now q of (due, q') \<Rightarrow> (Due due, q', dead))"
| "timer_step TNext (q, dead) = (case next_deadline (live dead) q of (d, q') \<Rightarrow> (Deadline d, q', dead))"
| "timer_step TPending (q, dead) = (case has_pending (live dead) q of (b, q') \<Rightarrow> (Pending b, q', dead))"

definition spec_due :: "nat set \<Rightarrow> int \<Rightarrow> int \<times> nat \<Rightarrow> bool" where
  "spec_due dead now e \<longleftrightarrow> snd e \<notin> dead \<and> fst e \<le> now"

definition spec_next :: "nat set \<Rightarrow> (int \<times> nat) list \<Rightarrow> int option" where
  "spec_next dead es = (let ds = map fst (filter (\<lambda>e. snd e \<notin> dead) es) in if ds = [] then None else Some (Min (set ds)))"

fun spec_step :: "timer_op \<Rightarrow> (int \<times> nat) list \<times> nat set \<Rightarrow> timer_out \<times> (int \<times> nat) list \<times> nat set" where
  "spec_step (TPush d t) (es, dead) = (Nothing, es @ [(d, t)], dead)"
| "spec_step (TCancel t) (es, dead) = (Nothing, es, insert t dead)"
| "spec_step (TPop now) (es, dead) =
     (Due (map snd (sort_key fst (filter (spec_due dead now) es))), filter (\<lambda>e. \<not> spec_due dead now e) es, dead)"
| "spec_step TNext (es, dead) = (Deadline (spec_next dead es), es, dead)"
| "spec_step TPending (es, dead) = (Pending (spec_next dead es \<noteq> None), es, dead)"

fun run_ops :: "('op \<Rightarrow> 's \<Rightarrow> 'out \<times> 's) \<Rightarrow> 'op list \<Rightarrow> 's \<Rightarrow> 'out list" where
  "run_ops step [] s = []"
| "run_ops step (x # xs) s = (case step x s of (y, s') \<Rightarrow> y # run_ops step xs s')"

definition empty_timers :: timer_queue where
  "empty_timers = \<lparr>tq_timers = [], tq_next_sequence = 0\<rparr>"

definition entry :: "timer \<Rightarrow> int \<times> nat" where
  "entry t = (tm_deadline t, tm_token t)"

text \<open>The simulation: among the tokens still alive, each deadline has its timers in the order of arrival.\<close>

definition simulates :: "nat set \<Rightarrow> timer_queue \<Rightarrow> (int \<times> nat) list \<Rightarrow> bool" where
  "simulates dead q es \<longleftrightarrow> timers_ok q \<and>
     (\<forall>d dead'. dead \<subseteq> dead' \<longrightarrow> map entry (filter (\<lambda>t. tm_deadline t = d \<and> tm_token t \<notin> dead') (tq_timers q))
                       = filter (\<lambda>e. fst e = d \<and> snd e \<notin> dead') es)"

lemma queue_insert_filter:
  assumes "\<forall>u \<in> set ts. tm_sequence u < tm_sequence t" "sorted_wrt timer_before ts"
  shows "filter (\<lambda>u. tm_deadline u = d \<and> P u) (queue_insert t ts) =
    filter (\<lambda>u. tm_deadline u = d \<and> P u) ts @ (if tm_deadline t = d \<and> P t then [t] else [])"
  using assms
proof (induction ts)
  case (Cons u us)
  have later: "filter (\<lambda>v. tm_deadline v = d \<and> P v) (u # us) = []" if "\<not> timer_before u t" "tm_deadline t = d"
  proof -
    have "d < tm_deadline u" using that Cons.prems(1) by (auto simp: timer_before_def split: if_splits)
    moreover have "tm_deadline u \<le> tm_deadline v" if "v \<in> set us" for v
      using Cons.prems(2) that by (auto simp: timer_before_def split: if_splits)
    ultimately show ?thesis by (force simp: filter_empty_conv)
  qed
  show ?case using Cons later by auto
qed simp

lemma simulates_push:
  assumes "simulates dead q es"
  shows "simulates dead (timer_push d (Some t) q) (es @ [(d, t)])"
  using assms timers_ok_push[of q d "Some t"]
  by (auto simp: simulates_def timers_ok_def timer_push_def queue_insert_filter entry_def)

lemma filter_key_mset:
  assumes "\<And>k. filter (\<lambda>x. f x = k) xs = filter (\<lambda>x. f x = k) ys"
  shows "mset xs = mset ys"
proof (rule multiset_eqI)
  fix a
  have "count (mset zs) a = count (mset (filter (\<lambda>x. f x = f a) zs)) a" for zs by (induction zs) auto
  then show "count (mset xs) a = count (mset ys) a" using assms[of "f a"] by metis
qed

lemma sorted_deadlines: "sorted_wrt timer_before ts \<Longrightarrow> sorted (map (\<lambda>t. fst (entry t)) ts)"
  by (induction ts) (auto simp: entry_def timer_before_def split: if_splits)

lemma simulates_sorted:
  assumes s: "simulates dead q es" and P: "\<And>e. P e \<Longrightarrow> snd e \<notin> dead"
  shows "map entry (filter (\<lambda>t. P (entry t)) (tq_timers q)) = sort_key fst (filter P es)"
proof -
  let ?ys = "map entry (filter (\<lambda>t. P (entry t)) (tq_timers q))"
  have key: "filter (\<lambda>e. fst e = k) ?ys = filter (\<lambda>e. fst e = k) (filter P es)" for k
  proof -
    have "filter (\<lambda>e. fst e = k) ?ys = filter P (map entry (filter (\<lambda>t. tm_deadline t = k \<and> tm_token t \<notin> dead) (tq_timers q)))"
      using P by (auto simp: filter_map entry_def comp_def conj_commute intro!: arg_cong[where f = "map entry"] filter_cong)
    also have "\<dots> = filter P (filter (\<lambda>e. fst e = k \<and> snd e \<notin> dead) es)" using s by (simp add: simulates_def)
    also have "\<dots> = filter (\<lambda>e. fst e = k) (filter P es)" using P by (auto intro!: filter_cong)
    finally show ?thesis .
  qed
  have "sorted (map fst ?ys)"
    using s sorted_deadlines[OF sorted_wrt_filter[of timer_before "tq_timers q" "\<lambda>t. P (entry t)"]]
    by (simp add: simulates_def timers_ok_def comp_def)
  then have "sort_key fst (filter P es) = ?ys"
  proof (rule properties_for_sort_key[rotated 2])
    show "mset ?ys = mset (filter P es)" by (rule filter_key_mset[OF key])
    show "filter (\<lambda>x. fst k = fst x) ?ys = filter (\<lambda>x. fst k = fst x) (filter P es)" for k using key[of "fst k"] by (simp add: eq_commute)
  qed
  then show ?thesis by simp
qed

lemma sorted_wrt_dropWhile: "sorted_wrt r xs \<Longrightarrow> sorted_wrt r (dropWhile P xs)"
  by (induction xs) auto

lemma remaining_timers:
  assumes "sorted_wrt timer_before ts" "dead \<subseteq> dead'"
  shows "filter (\<lambda>t. tm_deadline t = d \<and> tm_token t \<notin> dead') (dropWhile (\<lambda>t. tm_token t \<in> dead \<or> tm_deadline t \<le> now) ts) =
      (if d \<le> now then [] else filter (\<lambda>t. tm_deadline t = d \<and> tm_token t \<notin> dead') ts)"
  using assms
proof (induction ts)
  case (Cons t ts)
  have "now < tm_deadline u" if "now < tm_deadline t" "u \<in> set ts" for u
    using Cons.prems(1) that by (auto simp: timer_before_def split: if_splits)
  then have "filter (\<lambda>u. tm_deadline u = d \<and> tm_token u \<notin> dead') (t # ts) = []" if "now < tm_deadline t" "d \<le> now"
    using that by (force simp: filter_empty_conv)
  then show ?case using Cons by auto
qed simp

lemma simulates_pop:
  assumes s: "simulates dead q es" and p: "pop_due (live dead) now q = (due, q')"
  shows "due = map snd (sort_key fst (filter (spec_due dead now) es))" "simulates dead q' (filter (\<lambda>e. \<not> spec_due dead now e) es)"
proof -
  let ?ts = "tq_timers q" and ?P = "\<lambda>t. tm_token t \<in> dead \<or> tm_deadline t \<le> now"
  have ok: "sorted_wrt timer_before ?ts" using s by (simp add: simulates_def timers_ok_def)
  have eq: "due = map tm_token (filter (\<lambda>t. tm_token t \<notin> dead \<and> tm_deadline t \<le> now) ?ts)" "q' = q\<lparr>tq_timers := dropWhile ?P ?ts\<rparr>"
    using p by (auto simp: pop_due_def pop_due_loop_spec[OF ok] live_def)
  have "due = map snd (map entry (filter (\<lambda>t. spec_due dead now (entry t)) ?ts))" by (simp add: eq entry_def spec_due_def)
  also have "\<dots> = map snd (sort_key fst (filter (spec_due dead now) es))"
    by (subst simulates_sorted[OF s]) (auto simp: spec_due_def)
  finally show "due = map snd (sort_key fst (filter (spec_due dead now) es))" .
  have "map entry (filter (\<lambda>t. tm_deadline t = d \<and> tm_token t \<notin> dead') (dropWhile ?P ?ts)) =
      filter (\<lambda>e. fst e = d \<and> snd e \<notin> dead') (filter (\<lambda>e. \<not> spec_due dead now e) es)" if "dead \<subseteq> dead'" for d dead'
  proof -
    have "filter (\<lambda>e. fst e = d \<and> snd e \<notin> dead') (filter (\<lambda>e. \<not> spec_due dead now e) es) =
        (if d \<le> now then [] else filter (\<lambda>e. fst e = d \<and> snd e \<notin> dead') es)"
      using that by (auto simp: spec_due_def filter_empty_conv intro!: filter_cong)
    then show ?thesis using remaining_timers[OF ok that, of d now] s that by (simp add: simulates_def)
  qed
  then show "simulates dead q' (filter (\<lambda>e. \<not> spec_due dead now e) es)"
    using s sorted_wrt_dropWhile[OF ok, of ?P] by (auto simp: simulates_def timers_ok_def eq dest: set_dropWhileD)
qed

lemma simulates_purge:
  assumes "simulates dead q es"
  shows "simulates dead (purge_stale (live dead) q) es"
proof -
  have "filter (\<lambda>t. tm_deadline t = d \<and> tm_token t \<notin> dead') (dropWhile (\<lambda>t. tm_token t \<in> dead) ts) =
      filter (\<lambda>t. tm_deadline t = d \<and> tm_token t \<notin> dead') ts" if "dead \<subseteq> dead'" for d dead' and ts :: "timer list"
    using that by (induction ts) auto
  then show ?thesis using assms sorted_wrt_dropWhile[of timer_before "tq_timers q"]
    by (auto simp: simulates_def timers_ok_def purge_stale_def live_def dest: set_dropWhileD)
qed

lemma hd_filter_dropWhile:
  "dropWhile (\<lambda>t. \<not> P t) xs = [] \<longleftrightarrow> filter P xs = []" "filter P xs \<noteq> [] \<Longrightarrow> hd (dropWhile (\<lambda>t. \<not> P t) xs) = hd (filter P xs)"
  by (induction xs) auto

lemma simulates_next:
  assumes s: "simulates dead q es" and n: "next_deadline (live dead) q = (d, q')"
  shows "d = spec_next dead es" "simulates dead q' es"
proof -
  show "simulates dead q' es" using n simulates_purge[OF s] by (auto simp: next_deadline_def Let_def)
  let ?alive = "filter (\<lambda>e. snd e \<notin> dead) es" and ?ts = "filter (\<lambda>t. tm_token t \<notin> dead) (tq_timers q)"
  have e: "map entry ?ts = sort_key fst ?alive" using simulates_sorted[OF s, of "\<lambda>e. snd e \<notin> dead"] by (simp add: entry_def)
  have d: "d = (if ?ts = [] then None else Some (tm_deadline (hd ?ts)))"
    using n hd_filter_dropWhile[of "\<lambda>t. tm_token t \<notin> dead" "tq_timers q"]
    by (auto simp: next_deadline_def purge_stale_def live_def Let_def simp del: dropWhile_eq_Nil_conv split: list.splits)
  show "d = spec_next dead es"
  proof (cases "?ts = []")
    case True
    then have "length (sort_key fst ?alive) = 0" by (simp flip: e)
    then have "?alive = []" by simp
    then show ?thesis using True d by (simp add: spec_next_def)
  next
    case False
    have "length (sort_key fst ?alive) \<noteq> 0" using False by (simp flip: e)
    then have ne: "?alive \<noteq> []" by simp
    have sorted: "sorted (map fst (sort_key fst ?alive))" by simp
    have hd: "fst (hd (sort_key fst ?alive)) = tm_deadline (hd ?ts)" using False by (simp flip: e add: hd_map entry_def)
    have sk: "sort_key fst ?alive \<noteq> []" using False by (simp flip: e)
    have "Min (fst ` set ?alive) = fst (hd (sort_key fst ?alive))"
    proof (rule Min_eqI)
      show "fst (hd (sort_key fst ?alive)) \<le> y" if "y \<in> fst ` set ?alive" for y
      proof -
        have "y \<in> set (map fst (sort_key fst ?alive))" using that by simp
        moreover have "map fst (sort_key fst ?alive) = fst (hd (sort_key fst ?alive)) # tl (map fst (sort_key fst ?alive))"
          using sk by (cases "sort_key fst ?alive") auto
        ultimately have "y = fst (hd (sort_key fst ?alive)) \<or> y \<in> set (tl (map fst (sort_key fst ?alive)))" by (metis set_ConsD)
        moreover have "\<forall>z \<in> set (tl (map fst (sort_key fst ?alive))). fst (hd (sort_key fst ?alive)) \<le> z"
          using sorted sk by (cases "sort_key fst ?alive") auto
        ultimately show ?thesis by auto
      qed
      show "fst (hd (sort_key fst ?alive)) \<in> fst ` set ?alive" using sk by (metis hd_in_set image_eqI set_sort)
    qed simp
    then show ?thesis using d hd ne False by (simp add: spec_next_def)
  qed
qed

lemma simulates_step:
  assumes "simulates dead q es" "timer_step x (q, dead) = (y, q', dead')" "spec_step x (es, dead) = (z, es', dead'')"
  shows "y = z" "dead' = dead''" "simulates dead' q' es'"
proof -
  have cancel: "simulates (insert t dead) q es" for t using assms(1) by (auto simp: simulates_def)
  have "y = z \<and> dead' = dead'' \<and> simulates dead' q' es'"
    using assms simulates_push[OF assms(1)] simulates_pop[OF assms(1)] simulates_next[OF assms(1)] cancel
    by (cases x) (auto simp: has_pending_def split: prod.splits)
  then show "y = z" "dead' = dead''" "simulates dead' q' es'" by auto
qed

text \<open>
  C29. The timer queue implements a timer service in arrival order.  For every sequence of schedule,
  cancel, pop and query operations, the lazily purged priority queue answers exactly like the
  specification: pop_due hands out the tokens that are due and still active, each once, ordered by
  deadline and among equal deadlines by arrival, and next_deadline is the least deadline of an
  active token.
\<close>

theorem timer_queue_refines:
  "run_ops timer_step ops (empty_timers, {}) = run_ops spec_step ops ([], {})"
proof -
  have "run_ops timer_step ops (q, dead) = run_ops spec_step ops (es, dead)" if "simulates dead q es" for q es dead
    using that
  proof (induction ops arbitrary: q es dead)
    case (Cons x ops)
    obtain y q' dead' z es' dead'' where st: "timer_step x (q, dead) = (y, q', dead')" "spec_step x (es, dead) = (z, es', dead'')"
      by (metis prod_cases3)
    show ?case using simulates_step[OF Cons.prems st] Cons.IH[of dead' q' es'] by (simp add: st)
  qed simp
  then show ?thesis by (simp add: simulates_def timers_ok_def empty_timers_def)
qed

end
