(* ===== verification/Async_Scheduler.thy ===== *)
theory Async_Scheduler
  imports Timer_Queue "HOL-Library.Finite_Map"
begin

section \<open>The core of the asynchronous scheduler: \<^verbatim>\<open>src/async_scheduler_core.h\<close>\<close>

text \<open>
  The scheduler owns no coroutine: it refers to frames and waiter tokens, which live in a heap and
  are shared with the coroutines.  An address is a natural number, 0 is the null pointer; frame and
  token pointers are optional identifiers.  Every operation runs under the mutex of the core and is
  one step of the model.  The order in which an \<^verbatim>\<open>unordered_map\<close> is traversed is an argument.
\<close>

type_synonym address = nat
type_synonym frame_ptr = "nat option"

record frame =
  fr_address :: address
  fr_canceled :: bool
  fr_finished :: bool

definition frame_done :: "frame \<Rightarrow> bool" where
  "frame_done f \<longleftrightarrow> fr_address f = 0 \<or> fr_finished f"

text \<open>
  A token refers weakly to its frame; \<open>tk_control\<close> tells whether it still refers to the scheduler,
  \<open>tk_before\<close> what its \<^verbatim>\<open>before_post\<close> callback answers (\<open>True\<close> when there is none).
\<close>

record token =
  tk_active :: bool
  tk_frame :: "nat option"
  tk_control :: bool
  tk_before :: bool

datatype SuspendKind = Suspended | Yielded

record SuspendedState =
  su_kind :: SuspendKind
  su_reason :: string
  su_file :: string
  su_line :: nat
  su_sequence :: nat

record ChildReference =
  cr_child :: address
  cr_parent_link_index :: nat

record ParentReference =
  pr_parent :: address
  pr_child_index :: nat

record BlockedHandle =
  bh_owner :: nat
  bh_kind :: SuspendKind
  bh_sequence :: nat
  bh_reason :: string
  bh_file :: string
  bh_line :: nat

record sched =
  sc_ready :: "nat list"
  sc_frames :: "address \<rightharpoonup> nat"
  sc_owners :: "address \<rightharpoonup> nat"
  sc_children :: "(address, ChildReference list) fmap"
  sc_parents :: "address \<rightharpoonup> ParentReference list"
  sc_blocked :: "address \<rightharpoonup> BlockedHandle"
  sc_waiters :: "address \<rightharpoonup> nat list"
  sc_timers :: timer_queue
  sc_suspend_sequence :: nat
  sc_wakes :: nat
  hp_frames :: "nat \<Rightarrow> frame"
  hp_frame_alive :: "nat \<Rightarrow> bool"
  hp_tokens :: "nat \<Rightarrow> token"
  hp_token_alive :: "nat \<Rightarrow> bool"

definition kInvalidOwner :: nat where
  "kInvalidOwner = 2 ^ 64 - 1"

definition owner_for_locked :: "address \<Rightarrow> sched \<Rightarrow> nat" where
  "owner_for_locked a s = (case sc_owners s a of None \<Rightarrow> kInvalidOwner | Some owner \<Rightarrow> owner)"

definition address_of :: "sched \<Rightarrow> nat \<Rightarrow> address" where
  "address_of s f = fr_address (hp_frames s f)"

definition owner_for :: "frame_ptr \<Rightarrow> sched \<Rightarrow> nat" where
  "owner_for fp s = (case fp of None \<Rightarrow> kInvalidOwner | Some f \<Rightarrow> owner_for_locked (address_of s f) s)"

definition register_frame :: "nat \<Rightarrow> frame_ptr \<Rightarrow> sched \<Rightarrow> sched" where
  "register_frame owner fp s =
     (case fp of
        None \<Rightarrow> s
      | Some f \<Rightarrow> if address_of s f = 0 then s
                  else s\<lparr>sc_frames := (sc_frames s)(address_of s f \<mapsto> f), sc_owners := (sc_owners s)(address_of s f \<mapsto> owner)\<rparr>)"

subsection \<open>Waiters, ready frames and suspended frames\<close>

definition upd_token :: "nat \<Rightarrow> (token \<Rightarrow> token) \<Rightarrow> sched \<Rightarrow> sched" where
  "upd_token t f s = s\<lparr>hp_tokens := (hp_tokens s)(t := f (hp_tokens s t))\<rparr>"

definition token_cancel :: "nat \<Rightarrow> sched \<Rightarrow> sched" where
  "token_cancel t s =
     (if \<not> tk_active (hp_tokens s t) then s
      else upd_token t (\<lambda>k. k\<lparr>tk_active := False, tk_frame := None, tk_control := False, tk_before := True\<rparr>) s)"

text \<open>\<^verbatim>\<open>make_waiter\<close> allocates the token \<open>t\<close>.\<close>

definition make_waiter :: "address \<Rightarrow> nat \<Rightarrow> sched \<Rightarrow> sched" where
  "make_waiter handle t s =
     (let fp = sc_frames s handle;
          s1 = s\<lparr>hp_tokens := (hp_tokens s)(t := \<lparr>tk_active = True, tk_frame = fp, tk_control = True, tk_before = True\<rparr>)\<rparr>
      in case fp of
           None \<Rightarrow> token_cancel t s1
         | Some f \<Rightarrow>
             if fr_canceled (hp_frames s f) then token_cancel t s1
             else let a = address_of s f
                  in if owner_for_locked a s = kInvalidOwner then token_cancel t s1
                     else s1\<lparr>sc_waiters := (sc_waiters s)(a \<mapsto> (case sc_waiters s a of None \<Rightarrow> [] | Some ts \<Rightarrow> ts) @ [t])\<rparr>)"

definition notify_wake :: "sched \<Rightarrow> sched" where
  "notify_wake s = s\<lparr>sc_wakes := sc_wakes s + 1\<rparr>"

definition post_frame :: "frame_ptr \<Rightarrow> sched \<Rightarrow> sched" where
  "post_frame fp s =
     (case fp of
        None \<Rightarrow> s
      | Some f \<Rightarrow>
          let a = address_of s f; s1 = s\<lparr>sc_blocked := (sc_blocked s)(a := None)\<rparr>
          in if owner_for_locked a s = kInvalidOwner then s1
             else if fr_canceled (hp_frames s f) \<or> frame_done (hp_frames s f) then s1
             else notify_wake (s1\<lparr>sc_ready := sc_ready s1 @ [f]\<rparr>))"

definition post :: "address \<Rightarrow> sched \<Rightarrow> sched" where
  "post handle s = post_frame (sc_frames s handle) s"

definition token_post :: "nat \<Rightarrow> sched \<Rightarrow> sched" where
  "token_post t s =
     (let k = hp_tokens s t
      in if \<not> tk_active k then s
         else let s1 = upd_token t (\<lambda>k. k\<lparr>tk_active := False, tk_frame := None, tk_control := False, tk_before := True\<rparr>) s
              in case tk_frame k of
                   Some f \<Rightarrow> if tk_before k \<and> tk_control k \<and> hp_frame_alive s f \<and> \<not> fr_canceled (hp_frames s f)
                             then post_frame (Some f) s1 else s1
                 | None \<Rightarrow> s1)"

definition block :: "address \<Rightarrow> SuspendKind \<Rightarrow> string \<Rightarrow> string \<Rightarrow> nat \<Rightarrow> sched \<Rightarrow> sched" where
  "block handle kind reason file src_line s =
     (if handle = 0 \<or> owner_for_locked handle s = kInvalidOwner then s
      else s\<lparr>sc_suspend_sequence := sc_suspend_sequence s + 1,
             sc_blocked := (sc_blocked s)(handle \<mapsto>
               \<lparr>bh_owner = owner_for_locked handle s, bh_kind = kind, bh_sequence = sc_suspend_sequence s + 1,
                bh_reason = (if reason = [] then ''async test cannot resume'' else reason), bh_file = file, bh_line = src_line\<rparr>)\<rparr>)"

definition yield_frame :: "address \<Rightarrow> string \<Rightarrow> nat \<Rightarrow> sched \<Rightarrow> sched" where
  "yield_frame handle file src_line s =
     (if handle = 0 then s
      else case sc_frames s handle of
             None \<Rightarrow> s
           | Some f \<Rightarrow>
               if owner_for_locked handle s = kInvalidOwner \<or> fr_canceled (hp_frames s f) \<or> frame_done (hp_frames s f) then s
               else notify_wake (s\<lparr>sc_suspend_sequence := sc_suspend_sequence s + 1,
                      sc_blocked := (sc_blocked s)(handle \<mapsto>
                        \<lparr>bh_owner = owner_for_locked handle s, bh_kind = Yielded, bh_sequence = sc_suspend_sequence s + 1,
                         bh_reason = ''yielded cooperatively'', bh_file = file, bh_line = src_line\<rparr>),
                      sc_ready := sc_ready s @ [f]\<rparr>))"

definition children_of :: "sched \<Rightarrow> address \<Rightarrow> ChildReference list" where
  "children_of s a = (case fmlookup (sc_children s) a of None \<Rightarrow> [] | Some cs \<Rightarrow> cs)"

definition parents_of :: "sched \<Rightarrow> address \<Rightarrow> ParentReference list" where
  "parents_of s a = (case sc_parents s a of None \<Rightarrow> [] | Some ps \<Rightarrow> ps)"

definition attach_child_frame :: "frame_ptr \<Rightarrow> address \<Rightarrow> sched \<Rightarrow> sched" where
  "attach_child_frame fp parent s =
     (case fp of
        None \<Rightarrow> s
      | Some f \<Rightarrow>
          let a = address_of s f; parent_owner = owner_for_locked parent s; children = children_of s parent; parents = parents_of s a
          in if a = 0 \<or> parent = 0 \<or> parent_owner = kInvalidOwner then s
             else s\<lparr>sc_frames := (sc_frames s)(a \<mapsto> f), sc_owners := (sc_owners s)(a \<mapsto> parent_owner),
                    sc_children := fmupd parent (children @ [\<lparr>cr_child = a, cr_parent_link_index = length parents\<rparr>]) (sc_children s),
                    sc_parents := (sc_parents s)(a \<mapsto> parents @ [\<lparr>pr_parent = parent, pr_child_index = length children\<rparr>])\<rparr>)"

definition attach_child :: "address \<Rightarrow> address \<Rightarrow> sched \<Rightarrow> sched" where
  "attach_child child parent s = (if child = 0 then s else attach_child_frame (sc_frames s child) parent s)"

definition schedule_timer :: "int \<Rightarrow> token_ptr \<Rightarrow> sched \<Rightarrow> sched" where
  "schedule_timer deadline tok s =
     (if tok = None then s else notify_wake (s\<lparr>sc_timers := timer_push deadline tok (sc_timers s)\<rparr>))"

definition token_active :: "sched \<Rightarrow> nat \<Rightarrow> bool" where
  "token_active s t = tk_active (hp_tokens s t)"

definition post_due_timers :: "int \<Rightarrow> sched \<Rightarrow> sched" where
  "post_due_timers now s =
     (case pop_due (token_active s) now (sc_timers s) of (due, q) \<Rightarrow> foldl (\<lambda>s t. token_post t s) (s\<lparr>sc_timers := q\<rparr>) due)"

definition next_timer_deadline :: "sched \<Rightarrow> int option \<times> sched" where
  "next_timer_deadline s = (case next_deadline (token_active s) (sc_timers s) of (d, q) \<Rightarrow> (d, s\<lparr>sc_timers := q\<rparr>))"

definition has_pending_timers :: "sched \<Rightarrow> bool \<times> sched" where
  "has_pending_timers s = (case has_pending (token_active s) (sc_timers s) of (b, q) \<Rightarrow> (b, s\<lparr>sc_timers := q\<rparr>))"

definition ready_size :: "sched \<Rightarrow> nat" where
  "ready_size s = length (sc_ready s)"

definition has_ready :: "sched \<Rightarrow> bool" where
  "has_ready s \<longleftrightarrow> sc_ready s \<noteq> []"

fun pop_ready_loop :: "sched \<Rightarrow> nat list \<Rightarrow> frame_ptr \<times> nat list" where
  "pop_ready_loop s [] = (None, [])"
| "pop_ready_loop s (f # fs) = (if \<not> fr_canceled (hp_frames s f) then (Some f, fs) else pop_ready_loop s fs)"

definition pop_ready :: "sched \<Rightarrow> frame_ptr \<times> sched" where
  "pop_ready s = (case pop_ready_loop s (sc_ready s) of (fp, fs) \<Rightarrow> (fp, s\<lparr>sc_ready := fs\<rparr>))"

definition clear_suspend_state :: "frame_ptr \<Rightarrow> sched \<Rightarrow> sched" where
  "clear_suspend_state fp s =
     (case fp of None \<Rightarrow> s | Some f \<Rightarrow> s\<lparr>sc_blocked := (sc_blocked s)(address_of s f := None)\<rparr>)"

definition suspended_step :: "nat \<Rightarrow> SuspendedState \<Rightarrow> BlockedHandle \<Rightarrow> SuspendedState" where
  "suspended_step owner result b =
     (if bh_owner b = owner \<and> bh_reason b \<noteq> [] \<and> bh_sequence b \<ge> su_sequence result
      then \<lparr>su_kind = bh_kind b, su_reason = bh_reason b, su_file = bh_file b, su_line = bh_line b, su_sequence = bh_sequence b\<rparr>
      else result)"

definition suspended_state_for :: "address list \<Rightarrow> nat \<Rightarrow> sched \<Rightarrow> SuspendedState" where
  "suspended_state_for order owner s =
     foldl (suspended_step owner) \<lparr>su_kind = Suspended, su_reason = ''waiting to resume'', su_file = [], su_line = 0, su_sequence = 0\<rparr>
       (map (\<lambda>a. the (sc_blocked s a)) (filter (\<lambda>a. sc_blocked s a \<noteq> None) order))"

definition first_blocked_reason :: "address list \<Rightarrow> sched \<Rightarrow> string" where
  "first_blocked_reason order s =
     (case filter (\<lambda>a. sc_blocked s a \<noteq> None) order of [] \<Rightarrow> [] | a # _ \<Rightarrow> bh_reason (the (sc_blocked s a)))"

subsection \<open>Cancellation\<close>

definition upd_frame :: "nat \<Rightarrow> (frame \<Rightarrow> frame) \<Rightarrow> sched \<Rightarrow> sched" where
  "upd_frame f g s = s\<lparr>hp_frames := (hp_frames s)(f := g (hp_frames s f))\<rparr>"

definition mark_canceled :: "address \<Rightarrow> sched \<Rightarrow> sched" where
  "mark_canceled a s = (case sc_frames s a of None \<Rightarrow> s | Some f \<Rightarrow> upd_frame f (\<lambda>x. x\<lparr>fr_canceled := True\<rparr>) s)"

definition take_children :: "address \<Rightarrow> sched \<Rightarrow> sched" where
  "take_children a s = s\<lparr>sc_children := fmdrop a (sc_children s)\<rparr>"

definition relink_moved :: "ChildReference \<Rightarrow> nat \<Rightarrow> (address \<rightharpoonup> ParentReference list) \<Rightarrow> (address \<rightharpoonup> ParentReference list)" where
  "relink_moved moved i parents =
     (case parents (cr_child moved) of
        Some ps \<Rightarrow>
          let l = cr_parent_link_index moved
          in if l < length ps then parents(cr_child moved \<mapsto> ps[l := (ps ! l)\<lparr>pr_child_index := i\<rparr>]) else parents
      | None \<Rightarrow> parents)"

definition remove_child_reference :: "address \<Rightarrow> sched \<Rightarrow> ParentReference \<Rightarrow> sched" where
  "remove_child_reference a s p =
     (case fmlookup (sc_children s) (pr_parent p) of
        None \<Rightarrow> s
      | Some cs \<Rightarrow>
          let i = pr_child_index p; last_index = length cs - 1
          in if i \<ge> length cs \<or> cr_child (cs ! i) \<noteq> a then s
             else let cs1 = (if i \<noteq> last_index then cs[i := cs ! last_index] else cs);
                      parents = (if i \<noteq> last_index then relink_moved (cs ! last_index) i (sc_parents s) else sc_parents s);
                      cs2 = butlast cs1
                  in s\<lparr>sc_parents := parents,
                       sc_children := (if cs2 = [] then fmdrop (pr_parent p) (sc_children s) else fmupd (pr_parent p) cs2 (sc_children s))\<rparr>)"

definition remove_child_references_locked :: "address \<Rightarrow> sched \<Rightarrow> sched" where
  "remove_child_references_locked a s =
     foldl (remove_child_reference a) (s\<lparr>sc_parents := (sc_parents s)(a := None)\<rparr>) (parents_of s a)"

definition erase_address :: "address \<Rightarrow> sched \<Rightarrow> sched" where
  "erase_address a s =
     s\<lparr>sc_waiters := (sc_waiters s)(a := None), sc_blocked := (sc_blocked s)(a := None), sc_owners := (sc_owners s)(a := None),
       sc_frames := (sc_frames s)(a := None), sc_ready := filter (\<lambda>f. address_of s f \<noteq> a) (sc_ready s)\<rparr>"

definition waiters_at :: "sched \<Rightarrow> address \<Rightarrow> nat list" where
  "waiters_at s a = (case sc_waiters s a of None \<Rightarrow> [] | Some ts \<Rightarrow> filter (hp_token_alive s) ts)"

text \<open>
  \<^verbatim>\<open>cancel_address_locked\<close> over a list of addresses: each one takes its children out, cancels
  them, removes the references of its parents to it and is erased; its tokens are collected.
\<close>

lemma dom_remove_child: "fmdom (sc_children (remove_child_reference a s p)) |\<subseteq>| fmdom (sc_children s)"
  by (auto simp: remove_child_reference_def Let_def fmlookup_dom_iff split: option.splits)

lemma dom_remove_children: "fmdom (sc_children (remove_child_references_locked a s)) |\<subseteq>| fmdom (sc_children s)"
proof -
  have "fmdom (sc_children (foldl (remove_child_reference a) s ps)) |\<subseteq>| fmdom (sc_children s)" for s ps
    by (induction ps arbitrary: s) (auto dest: fsubsetD[OF dom_remove_child])
  from this[of "s\<lparr>sc_parents := (sc_parents s)(a := None)\<rparr>" "parents_of s a"] show ?thesis
    by (simp add: remove_child_references_locked_def)
qed

function cancel_list :: "address list \<Rightarrow> nat list \<times> sched \<Rightarrow> nat list \<times> sched" where
  "cancel_list [] st = st"
| "cancel_list (a # as) st =
     (let s = mark_canceled a (snd st);
          st1 = cancel_list (map cr_child (children_of s a)) (fst st, take_children a s);
          s2 = remove_child_references_locked a (snd st1)
      in cancel_list as (fst st1 @ waiters_at s2 a, erase_address a s2))"
  by pat_completeness auto

lemma sc_children_mark: "sc_children (mark_canceled a s) = sc_children s"
  by (simp add: mark_canceled_def upd_frame_def split: option.splits)

lemma cancel_list_dom:
  "cancel_list_dom (as, st) \<Longrightarrow> fmdom (sc_children (snd (cancel_list as st))) |\<subseteq>| fmdom (sc_children (snd st))"
proof (induction as st rule: cancel_list.pinduct)
  case (2 a as st)
  let ?s = "mark_canceled a (snd st)"
  let ?st1 = "cancel_list (map cr_child (children_of ?s a)) (fst st, take_children a ?s)"
  let ?s2 = "remove_child_references_locked a (snd ?st1)"
  have "fmdom (sc_children (snd ?st1)) |\<subseteq>| fmdom (sc_children (snd st))"
    using "2.IH"(1)[OF refl] by (auto simp: take_children_def sc_children_mark)
  moreover have "fmdom (sc_children ?s2) |\<subseteq>| fmdom (sc_children (snd ?st1))" by (rule dom_remove_children)
  ultimately show ?case using "2.IH"(2)[OF refl refl refl]
    by (simp add: cancel_list.psimps(2)[OF "2.hyps"] Let_def erase_address_def)
qed (simp add: cancel_list.psimps)

termination cancel_list
proof (relation "measures [\<lambda>(as, st). fcard (fmdom (sc_children (snd st))), \<lambda>(as, st). length as]", goal_cases)
  case (2 a as st s)
  then show ?case
  proof (cases "a |\<in>| fmdom (sc_children s)")
    case True
    then have "fcard (fmdom (sc_children (snd st))) \<noteq> 0" using 2 by (auto simp: sc_children_mark)
    then have "fcard (fmdom (sc_children (snd st))) - Suc 0 < fcard (fmdom (sc_children (snd st)))" by linarith
    then show ?thesis using True 2 by (simp add: take_children_def sc_children_mark)
  next
    case False
    then show ?thesis using 2 by (simp add: take_children_def children_of_def sc_children_mark fmdom_notD)
  qed
next
  case (3 a as st s st1 s2)
  have "fmdom (sc_children (snd st1)) |\<subseteq>| fmdom (sc_children (take_children a s))"
    using cancel_list_dom[OF 3(4)] 3(2) by simp
  moreover have "fmdom (sc_children (take_children a s)) |\<subseteq>| fmdom (sc_children (snd st))"
    using 3(1) by (auto simp: take_children_def sc_children_mark)
  moreover have "fmdom (sc_children s2) |\<subseteq>| fmdom (sc_children (snd st1))" using 3(3) dom_remove_children by simp
  ultimately have "fcard (fmdom (sc_children s2)) \<le> fcard (fmdom (sc_children (snd st)))" by (meson fcard_mono order_trans)
  then show ?case by (auto simp: erase_address_def)
qed simp

definition cancel_tokens :: "nat list \<Rightarrow> sched \<Rightarrow> sched" where
  "cancel_tokens ts s = foldl (\<lambda>s t. token_cancel t s) s ts"

definition cancel_addresses :: "address list \<Rightarrow> sched \<Rightarrow> sched" where
  "cancel_addresses as s = (case cancel_list as ([], s) of (ts, s') \<Rightarrow> cancel_tokens ts s')"

definition cancel_matching :: "address list \<Rightarrow> (nat \<Rightarrow> bool) \<Rightarrow> sched \<Rightarrow> sched" where
  "cancel_matching order pred s =
     cancel_addresses (filter (\<lambda>a. case sc_owners s a of None \<Rightarrow> False | Some owner \<Rightarrow> pred owner) order) s"

definition cancel_owner :: "address list \<Rightarrow> nat \<Rightarrow> sched \<Rightarrow> sched" where
  "cancel_owner order owner s = cancel_matching order (\<lambda>x. x = owner) s"

definition cancel_all :: "address list \<Rightarrow> sched \<Rightarrow> sched" where
  "cancel_all order s = cancel_matching order (\<lambda>_. True) s"

definition cancel_waiters :: "address \<Rightarrow> sched \<Rightarrow> sched" where
  "cancel_waiters handle s = (if handle = 0 then s else cancel_addresses [handle] s)"

subsection \<open>Cancellation removes exactly the descendants\<close>

definition edges :: "sched \<Rightarrow> (address \<times> address) set" where
  "edges s = {(p, c). c \<in> cr_child ` set (children_of s p)}"

lemma swap_remove:
  assumes "i < length cs"
  shows "mset (butlast (if i \<noteq> length cs - 1 then cs[i := cs ! (length cs - 1)] else cs)) = mset cs - {#cs ! i#}"
proof (cases cs rule: rev_cases)
  case (snoc ys z)
  then show ?thesis using assms
    by (cases "i < length ys") (auto simp: list_update_append nth_append mset_update)
qed (use assms in simp)

lemma remove_child_reference_edges:
  "edges (remove_child_reference a s p) \<subseteq> edges s"
  "(x, y) \<in> edges s \<Longrightarrow> y \<noteq> a \<Longrightarrow> (x, y) \<in> edges (remove_child_reference a s p)"
proof -
  have "remove_child_reference a s p = s \<or> (\<exists>cs. fmlookup (sc_children s) (pr_parent p) = Some cs \<and> pr_child_index p < length cs
      \<and> cr_child (cs ! pr_child_index p) = a)"
  proof (cases "fmlookup (sc_children s) (pr_parent p)")
    case (Some cs)
    then show ?thesis
      by (cases "pr_child_index p \<ge> length cs \<or> cr_child (cs ! pr_child_index p) \<noteq> a") (simp_all add: remove_child_reference_def not_le)
  qed (simp add: remove_child_reference_def)
  then consider "remove_child_reference a s p = s"
    | cs where "fmlookup (sc_children s) (pr_parent p) = Some cs" "pr_child_index p < length cs" "cr_child (cs ! pr_child_index p) = a"
    by blast
  then have "edges (remove_child_reference a s p) \<subseteq> edges s
      \<and> (\<forall>x y. (x, y) \<in> edges s \<longrightarrow> y \<noteq> a \<longrightarrow> (x, y) \<in> edges (remove_child_reference a s p))"
  proof cases
    case 2
    let ?i = "pr_child_index p"
    define rest where "rest = butlast (if ?i \<noteq> length cs - 1 then cs[?i := cs ! (length cs - 1)] else cs)"
    have m: "mset rest = mset cs - {#cs ! ?i#}" unfolding rest_def by (rule swap_remove[OF 2(2)])
    have ch: "children_of (remove_child_reference a s p) q = (if q = pr_parent p then rest else children_of s q)" for q
      using 2 by (simp add: remove_child_reference_def children_of_def rest_def Let_def not_le)
    have "set rest \<subseteq> set cs" using m by (metis diff_subset_eq_self mset_subset_eqD set_mset_mset subsetI)
    moreover have "r \<in> set rest" if "r \<in> set cs" "cr_child r \<noteq> a" for r
    proof -
      have "r \<in># mset cs - {#cs ! ?i#}" using that 2(3) by (cases "r = cs ! ?i") (auto simp: in_diff_count count_eq_zero_iff[symmetric])
      then show ?thesis by (metis m set_mset_mset)
    qed
    moreover have "children_of s (pr_parent p) = cs" using 2(1) by (simp add: children_of_def)
    ultimately show ?thesis unfolding edges_def ch by (auto split: if_split_asm)
  qed simp
  then show "edges (remove_child_reference a s p) \<subseteq> edges s"
    "(x, y) \<in> edges s \<Longrightarrow> y \<noteq> a \<Longrightarrow> (x, y) \<in> edges (remove_child_reference a s p)" by blast+
qed

text \<open>Everything but the links between frames.\<close>

definition same_but_links :: "sched \<Rightarrow> sched \<Rightarrow> bool" where
  "same_but_links s s' \<longleftrightarrow> s'\<lparr>sc_children := sc_children s, sc_parents := sc_parents s\<rparr> = s"

lemma same_but_links_refl: "same_but_links s s"
  by (simp add: same_but_links_def)

lemma same_but_links_trans: "same_but_links s t \<Longrightarrow> same_but_links t u \<Longrightarrow> same_but_links s u"
  by (cases s; cases t; cases u) (simp add: same_but_links_def)

lemma remove_child_reference_links: "same_but_links s (remove_child_reference a s p)"
  by (simp add: same_but_links_def remove_child_reference_def Let_def split: option.splits)

lemma remove_child_references:
  "edges (remove_child_references_locked a s) \<subseteq> edges s"
  "(x, y) \<in> edges s \<Longrightarrow> y \<noteq> a \<Longrightarrow> (x, y) \<in> edges (remove_child_references_locked a s)"
  "same_but_links s (remove_child_references_locked a s)"
proof -
  let ?s = "s\<lparr>sc_parents := (sc_parents s)(a := None)\<rparr>"
  have "edges (foldl (remove_child_reference a) t ps) \<subseteq> edges t
      \<and> (\<forall>x y. (x, y) \<in> edges t \<longrightarrow> y \<noteq> a \<longrightarrow> (x, y) \<in> edges (foldl (remove_child_reference a) t ps))
      \<and> same_but_links t (foldl (remove_child_reference a) t ps)" for t ps
  proof (induction ps arbitrary: t)
    case Nil
    show ?case by (simp add: same_but_links_refl)
  next
    case (Cons p ps)
    show ?case using Cons.IH[of "remove_child_reference a t p"] remove_child_reference_edges(1)[of a t p] remove_child_reference_edges(2)[where s = t]
        remove_child_reference_links same_but_links_trans by (auto; blast)
  qed
  from this[of ?s "parents_of s a"] have r: "edges (remove_child_references_locked a s) \<subseteq> edges ?s"
    "\<forall>x y. (x, y) \<in> edges ?s \<longrightarrow> y \<noteq> a \<longrightarrow> (x, y) \<in> edges (remove_child_references_locked a s)"
    "same_but_links ?s (remove_child_references_locked a s)" by (auto simp: remove_child_references_locked_def)
  have e: "edges ?s = edges s" by (simp add: edges_def children_of_def)
  have "same_but_links s ?s" by (simp add: same_but_links_def)
  then show "edges (remove_child_references_locked a s) \<subseteq> edges s"
    "(x, y) \<in> edges s \<Longrightarrow> y \<noteq> a \<Longrightarrow> (x, y) \<in> edges (remove_child_references_locked a s)"
    "same_but_links s (remove_child_references_locked a s)"
    using r e same_but_links_trans by auto
qed

text \<open>The state after the addresses in \<open>R\<close> are cancelled: they are unknown to the scheduler, the rest is as it was.\<close>

definition cut :: "address set \<Rightarrow> sched \<Rightarrow> sched \<Rightarrow> bool" where
  "cut R s s' \<longleftrightarrow>
     sc_owners s' = sc_owners s |` (- R) \<and> sc_frames s' = sc_frames s |` (- R) \<and> sc_blocked s' = sc_blocked s |` (- R)
   \<and> sc_waiters s' = sc_waiters s |` (- R) \<and> sc_ready s' = filter (\<lambda>f. address_of s f \<notin> R) (sc_ready s)
   \<and> hp_frames s' = (\<lambda>f. (hp_frames s f)\<lparr>fr_canceled := fr_canceled (hp_frames s f) \<or> (\<exists>a \<in> R. sc_frames s a = Some f)\<rparr>)
   \<and> hp_tokens s' = hp_tokens s \<and> hp_token_alive s' = hp_token_alive s \<and> hp_frame_alive s' = hp_frame_alive s
   \<and> sc_timers s' = sc_timers s \<and> sc_suspend_sequence s' = sc_suspend_sequence s \<and> sc_wakes s' = sc_wakes s"

text \<open>The links that are left: none leaves \<open>R\<close>, and those outside \<open>R\<close> are kept.\<close>

definition cut_edges :: "address set \<Rightarrow> sched \<Rightarrow> sched \<Rightarrow> bool" where
  "cut_edges R s s' \<longleftrightarrow> edges s' \<subseteq> edges s \<and> (\<forall>(x, y) \<in> edges s. x \<notin> R \<longrightarrow> y \<notin> R \<longrightarrow> (x, y) \<in> edges s') \<and> (\<forall>(x, y) \<in> edges s'. x \<notin> R)"

lemma address_of_cut: "cut R s s' \<Longrightarrow> address_of s' f = address_of s f"
  by (simp add: cut_def address_of_def)

lemma cut_empty: "cut {} s s" "cut_edges {} s s"
  by (simp_all add: cut_def cut_edges_def restrict_map_def fun_eq_iff)

lemma cutD:
  assumes "cut R s s'"
  shows "sc_owners s' = sc_owners s |` (- R)" "sc_frames s' = sc_frames s |` (- R)" "sc_blocked s' = sc_blocked s |` (- R)"
    "sc_waiters s' = sc_waiters s |` (- R)" "sc_ready s' = filter (\<lambda>f. address_of s f \<notin> R) (sc_ready s)"
    "hp_frames s' f = (hp_frames s f)\<lparr>fr_canceled := fr_canceled (hp_frames s f) \<or> (\<exists>a \<in> R. sc_frames s a = Some f)\<rparr>"
    "hp_tokens s' = hp_tokens s" "hp_token_alive s' = hp_token_alive s" "hp_frame_alive s' = hp_frame_alive s"
    "sc_timers s' = sc_timers s" "sc_suspend_sequence s' = sc_suspend_sequence s" "sc_wakes s' = sc_wakes s"
  using assms by (simp_all add: cut_def)

lemma cut_trans:
  assumes "cut R s t" "cut Q t u"
  shows "cut (R \<union> Q) s u"
proof -
  note c = cutD[OF assms(1)] and d = cutD[OF assms(2)]
  have "hp_frames u f = (hp_frames s f)\<lparr>fr_canceled := fr_canceled (hp_frames s f) \<or> (\<exists>a \<in> R \<union> Q. sc_frames s a = Some f)\<rparr>" for f
  proof -
    have "(\<exists>a \<in> R. sc_frames s a = Some f) \<or> (\<exists>a \<in> Q. sc_frames t a = Some f) \<longleftrightarrow> (\<exists>a \<in> R \<union> Q. sc_frames s a = Some f)"
      unfolding c(2) by (auto simp: restrict_map_def)
    then show ?thesis unfolding d(6)[of f] c(6)[of f] by (simp add: disj_assoc)
  qed
  moreover have "sc_ready u = filter (\<lambda>f. address_of s f \<notin> R \<union> Q) (sc_ready s)"
    unfolding d(5) c(5) address_of_cut[OF assms(1)] by (simp only: filter_filter Un_iff de_Morgan_disj)
  ultimately show ?thesis unfolding cut_def by (simp add: c(1-4) d(1-4) c(7-12) d(7-12) Compl_Un fun_eq_iff)
qed

lemma cut_edges_trans:
  assumes "cut_edges R s t" "cut_edges Q t u"
  shows "cut_edges (R \<union> Q) s u"
  using assms unfolding cut_edges_def by blast

lemma taken_fields:
  defines "m \<equiv> \<lambda>a s. take_children a (mark_canceled a s)"
  shows "sc_owners (m a s) = sc_owners s" "sc_frames (m a s) = sc_frames s" "sc_blocked (m a s) = sc_blocked s" "sc_waiters (m a s) = sc_waiters s"
    "sc_ready (m a s) = sc_ready s" "hp_tokens (m a s) = hp_tokens s" "hp_token_alive (m a s) = hp_token_alive s" "hp_frame_alive (m a s) = hp_frame_alive s"
    "sc_timers (m a s) = sc_timers s" "sc_suspend_sequence (m a s) = sc_suspend_sequence s" "sc_wakes (m a s) = sc_wakes s"
    "hp_frames (m a s) = (\<lambda>f. (hp_frames s f)\<lparr>fr_canceled := fr_canceled (hp_frames s f) \<or> sc_frames s a = Some f\<rparr>)"
    "edges (m a s) = {(x, y) \<in> edges s. x \<noteq> a}"
proof -
  have "children_of (m a s) x = (if x = a then [] else children_of s x)" for x
    by (simp add: m_def take_children_def children_of_def sc_children_mark)
  then show "edges (m a s) = {(x, y) \<in> edges s. x \<noteq> a}" by (auto simp: edges_def split: if_splits)
qed (auto simp: m_def take_children_def mark_canceled_def upd_frame_def fun_eq_iff split: option.splits)

lemma removed_fields:
  defines "r \<equiv> remove_child_references_locked"
  shows "sc_owners (r a t) = sc_owners t" "sc_frames (r a t) = sc_frames t" "sc_blocked (r a t) = sc_blocked t" "sc_waiters (r a t) = sc_waiters t"
    "sc_ready (r a t) = sc_ready t" "hp_frames (r a t) = hp_frames t" "hp_tokens (r a t) = hp_tokens t" "hp_token_alive (r a t) = hp_token_alive t"
    "hp_frame_alive (r a t) = hp_frame_alive t" "sc_timers (r a t) = sc_timers t" "sc_suspend_sequence (r a t) = sc_suspend_sequence t"
    "sc_wakes (r a t) = sc_wakes t"
proof -
  have links: "(r a t)\<lparr>sc_children := sc_children t, sc_parents := sc_parents t\<rparr> = t"
    using remove_child_references(3)[of t a] by (simp add: same_but_links_def r_def)
  show "sc_owners (r a t) = sc_owners t" "sc_frames (r a t) = sc_frames t" "sc_blocked (r a t) = sc_blocked t" "sc_waiters (r a t) = sc_waiters t"
    "sc_ready (r a t) = sc_ready t" "hp_frames (r a t) = hp_frames t" "hp_tokens (r a t) = hp_tokens t" "hp_token_alive (r a t) = hp_token_alive t"
    "hp_frame_alive (r a t) = hp_frame_alive t" "sc_timers (r a t) = sc_timers t" "sc_suspend_sequence (r a t) = sc_suspend_sequence t"
    "sc_wakes (r a t) = sc_wakes t"
    by (subst (2) links[symmetric], simp)+
qed

text \<open>One address: marked, its children taken out, \<open>R\<close> cancelled below it, its references removed, erased.\<close>

lemma cut_one:
  assumes rec: "cut R (take_children a (mark_canceled a s)) t" and edg: "cut_edges R (take_children a (mark_canceled a s)) t"
  defines "u \<equiv> erase_address a (remove_child_references_locked a t)"
  shows "cut (insert a R) s u" "cut_edges (insert a R) s u"
proof -
  let ?m = "take_children a (mark_canceled a s)" and ?r = "remove_child_references_locked a t"
  note m = taken_fields[where a = a and s = s] and r = removed_fields[where a = a and t = t]
  have restr: "(q |` (- R))(a := None) = q |` (- insert a R)" for q :: "address \<rightharpoonup> 'x" by (auto simp: restrict_map_def fun_eq_iff)
  have addr: "address_of ?m f = address_of s f" "address_of t f = address_of s f" "address_of ?r f = address_of s f" for f
    using rec m(12) r(6) by (simp_all add: address_of_def cut_def)
  show "cut (insert a R) s u"
    unfolding cut_def restr[symmetric] using rec by (simp add: cut_def u_def erase_address_def m r addr disj_assoc conj_commute)
  have eu: "edges u = edges ?r" by (simp add: u_def erase_address_def edges_def children_of_def)
  have mt: "edges t \<subseteq> edges ?m" "\<And>x y. (x, y) \<in> edges ?m \<Longrightarrow> x \<notin> R \<Longrightarrow> y \<notin> R \<Longrightarrow> (x, y) \<in> edges t" "\<And>x y. (x, y) \<in> edges t \<Longrightarrow> x \<notin> R"
    using edg by (auto simp: cut_edges_def)
  have "edges u \<subseteq> edges s" unfolding eu using remove_child_references(1)[of a t] mt(1) m(13) by auto
  moreover have "(x, y) \<in> edges u" if "(x, y) \<in> edges s" "x \<notin> insert a R" "y \<notin> insert a R" for x y
    unfolding eu using that m(13) by (intro remove_child_references(2) mt(2)) auto
  moreover have "x \<notin> insert a R" if "(x, y) \<in> edges u" for x y
  proof -
    have "(x, y) \<in> edges t" using that remove_child_references(1)[of a t] eu by auto
    then show ?thesis using mt(1,3) m(13) by auto
  qed
  ultimately show "cut_edges (insert a R) s u" unfolding cut_edges_def by blast
qed

lemma reach_step:
  assumes one: "E1 = {(x, y) \<in> E. x \<noteq> a}" and kids: "K = E `` {a}" and R: "R = insert a (E1\<^sup>* `` K)"
    and cut: "E' \<subseteq> E" "\<And>x y. (x, y) \<in> E \<Longrightarrow> x \<notin> R \<Longrightarrow> y \<notin> R \<Longrightarrow> (x, y) \<in> E'"
  shows "R \<union> E'\<^sup>* `` A = E\<^sup>* `` insert a A"
proof
  have "E1 \<subseteq> E" using one by auto
  then have "E1\<^sup>* `` K \<subseteq> E\<^sup>* `` {a}" using kids by (auto dest!: rtrancl_mono[THEN subsetD] intro: converse_rtrancl_into_rtrancl)
  moreover have "E'\<^sup>* `` A \<subseteq> E\<^sup>* `` A" using rtrancl_mono[OF cut(1)] by auto
  ultimately show "R \<union> E'\<^sup>* `` A \<subseteq> E\<^sup>* `` insert a A" using R by auto
  have closed: "y \<in> R \<union> E'\<^sup>* `` A" if "x \<in> R \<union> E'\<^sup>* `` A" "(x, y) \<in> E" for x y
  proof (cases "x \<in> R")
    case True
    then have "x = a \<or> (x \<noteq> a \<and> x \<in> E1\<^sup>* `` K)" using R by auto
    then show ?thesis using that(2) R kids one by (auto intro: rtrancl_into_rtrancl)
  next
    case False
    then show ?thesis using that cut(2)[of x y] by (auto intro: rtrancl_into_rtrancl)
  qed
  show "E\<^sup>* `` insert a A \<subseteq> R \<union> E'\<^sup>* `` A"
  proof
    fix z assume "z \<in> E\<^sup>* `` insert a A"
    then obtain x where "x \<in> insert a A" "(x, z) \<in> E\<^sup>*" by auto
    from this(2) this(1) show "z \<in> R \<union> E'\<^sup>* `` A"
    proof (induction rule: rtrancl_induct)
      case base then show ?case using R by auto
    next
      case (step y z) then show ?case using closed by blast
    qed
  qed
qed

lemma waiters_at_cut:
  "sc_waiters t = sc_waiters s |` (- R) \<Longrightarrow> hp_token_alive t = hp_token_alive s \<Longrightarrow> waiters_at t b = (if b \<in> R then [] else waiters_at s b)"
  by (cases "sc_waiters s b") (simp_all add: waiters_at_def restrict_map_def)

lemma cancel_list_exact:
  "cut ((edges (snd st))\<^sup>* `` set as) (snd st) (snd (cancel_list as st))
   \<and> cut_edges ((edges (snd st))\<^sup>* `` set as) (snd st) (snd (cancel_list as st))
   \<and> set (fst (cancel_list as st)) = set (fst st) \<union> (\<Union>a \<in> (edges (snd st))\<^sup>* `` set as. set (waiters_at (snd st) a))"
proof (induction as st rule: cancel_list.induct)
  case (1 st)
  then show ?case by (simp add: cut_empty)
next
  case (2 a as st)
  define s where "s = snd st"
  define m where "m = mark_canceled a s"
  define t where "t = take_children a m"
  define st1 where "st1 = cancel_list (map cr_child (children_of m a)) (fst st, t)"
  define r where "r = remove_child_references_locked a (snd st1)"
  define u where "u = erase_address a r"
  define toks where "toks = fst st1 @ waiters_at r a"
  define K where "K = cr_child ` set (children_of m a)"
  define R where "R = insert a ((edges t)\<^sup>* `` K)"
  have eq: "cancel_list (a # as) st = cancel_list as (toks, u)"
    by (simp add: s_def m_def t_def st1_def r_def u_def toks_def Let_def)
  have ih1: "cut ((edges t)\<^sup>* `` K) t (snd st1)" "cut_edges ((edges t)\<^sup>* `` K) t (snd st1)"
    "set (fst st1) = set (fst st) \<union> (\<Union>b \<in> (edges t)\<^sup>* `` K. set (waiters_at t b))"
    using "2.IH"(1)[OF refl] unfolding s_def[symmetric] m_def[symmetric] t_def[symmetric] st1_def[symmetric] K_def by simp_all
  have one: "cut R s u" "cut_edges R s u"
    using cut_one[of "(edges t)\<^sup>* `` K" a s "snd st1"] ih1(1,2) by (simp_all add: R_def u_def r_def t_def m_def)
  have ch: "children_of m a = children_of s a" "edges t = {(x, y) \<in> edges s. x \<noteq> a}" "waiters_at t b = waiters_at s b" for b
    using waiters_at_cut[of t s "{}" b]
    by (simp_all add: t_def m_def children_of_def sc_children_mark taken_fields(4,7,13) restrict_map_def)
  let ?Q = "(edges u)\<^sup>* `` set as" and ?V = "(edges s)\<^sup>* `` set (a # as)"
  have ih2: "cut ?Q u (snd (cancel_list as (toks, u)))" "cut_edges ?Q u (snd (cancel_list as (toks, u)))"
    "set (fst (cancel_list as (toks, u))) = set toks \<union> (\<Union>b \<in> ?Q. set (waiters_at u b))"
    using "2.IH"(2)[OF refl refl refl] unfolding s_def[symmetric] m_def[symmetric] t_def[symmetric] st1_def[symmetric] r_def[symmetric]
      u_def[symmetric] toks_def[symmetric] by simp_all
  have V: "R \<union> ?Q = ?V"
    unfolding list.set
  proof (rule reach_step)
    show "edges t = {(x, y) \<in> edges s. x \<noteq> a}" by (rule ch(2))
    show "K = edges s `` {a}" by (auto simp: K_def ch(1) edges_def)
    show "R = insert a ((edges t)\<^sup>* `` K)" by (rule R_def)
    show "edges u \<subseteq> edges s" "\<And>x y. (x, y) \<in> edges s \<Longrightarrow> x \<notin> R \<Longrightarrow> y \<notin> R \<Longrightarrow> (x, y) \<in> edges u"
      using one(2) by (auto simp: cut_edges_def)
  qed
  have wu: "waiters_at u b = (if b \<in> R then [] else waiters_at s b)" for b
    using cutD(4,8)[OF one(1)] by (rule waiters_at_cut)
  have wr: "waiters_at r a = (if a \<in> (edges t)\<^sup>* `` K then [] else waiters_at s a)"
    using waiters_at_cut[of r t "(edges t)\<^sup>* `` K" a] cutD(4,8)[OF ih1(1)] by (simp add: r_def removed_fields(4,8) ch(3))
  have toks: "set toks = set (fst st) \<union> (\<Union>b \<in> R. set (waiters_at s b))" by (auto simp: toks_def ih1(3) ch(3) R_def wr)
  have "(\<Union>b \<in> R. W b) \<union> (\<Union>b \<in> ?Q. if b \<in> R then {} else W b) = (\<Union>b \<in> R \<union> ?Q. W b)" for W :: "address \<Rightarrow> nat set"
    by (auto split: if_splits)
  from this[of "\<lambda>b. set (waiters_at s b)"] have "set (fst (cancel_list as (toks, u))) = set (fst st) \<union> (\<Union>b \<in> ?V. set (waiters_at s b))"
    unfolding V[symmetric] ih2(3) wu toks by (simp add: if_distrib[of set] Un_assoc)
  then show ?case unfolding eq s_def[symmetric] using cut_trans[OF one(1) ih2(1)] cut_edges_trans[OF one(2) ih2(2)] V by simp
qed

lemma token_cancel_fields:
  "sc_owners (token_cancel t s) = sc_owners s" "sc_frames (token_cancel t s) = sc_frames s" "sc_blocked (token_cancel t s) = sc_blocked s"
  "sc_waiters (token_cancel t s) = sc_waiters s" "sc_ready (token_cancel t s) = sc_ready s" "hp_frames (token_cancel t s) = hp_frames s"
  "token_active (token_cancel t s) u \<longleftrightarrow> token_active s u \<and> u \<noteq> t"
  by (auto simp: token_cancel_def upd_token_def token_active_def)

lemma cancel_tokens_fields:
  "sc_owners (cancel_tokens ts s) = sc_owners s" "sc_frames (cancel_tokens ts s) = sc_frames s" "sc_blocked (cancel_tokens ts s) = sc_blocked s"
  "sc_waiters (cancel_tokens ts s) = sc_waiters s" "sc_ready (cancel_tokens ts s) = sc_ready s" "hp_frames (cancel_tokens ts s) = hp_frames s"
  "token_active (cancel_tokens ts s) u \<longleftrightarrow> token_active s u \<and> u \<notin> set ts"
proof -
  have "sc_owners (foldl (\<lambda>s t. token_cancel t s) s ts) = sc_owners s \<and> sc_frames (foldl (\<lambda>s t. token_cancel t s) s ts) = sc_frames s
    \<and> sc_blocked (foldl (\<lambda>s t. token_cancel t s) s ts) = sc_blocked s \<and> sc_waiters (foldl (\<lambda>s t. token_cancel t s) s ts) = sc_waiters s
    \<and> sc_ready (foldl (\<lambda>s t. token_cancel t s) s ts) = sc_ready s \<and> hp_frames (foldl (\<lambda>s t. token_cancel t s) s ts) = hp_frames s
    \<and> (token_active (foldl (\<lambda>s t. token_cancel t s) s ts) u \<longleftrightarrow> token_active s u \<and> u \<notin> set ts)"
    by (induction ts arbitrary: s) (auto simp: token_cancel_fields)
  then show "sc_owners (cancel_tokens ts s) = sc_owners s" "sc_frames (cancel_tokens ts s) = sc_frames s" "sc_blocked (cancel_tokens ts s) = sc_blocked s"
    "sc_waiters (cancel_tokens ts s) = sc_waiters s" "sc_ready (cancel_tokens ts s) = sc_ready s" "hp_frames (cancel_tokens ts s) = hp_frames s"
    "token_active (cancel_tokens ts s) u \<longleftrightarrow> token_active s u \<and> u \<notin> set ts"
    by (auto simp: cancel_tokens_def)
qed

lemma pop_ready_loop_spec:
  "pop_ready_loop s fs = (case dropWhile (\<lambda>f. fr_canceled (hp_frames s f)) fs of [] \<Rightarrow> (None, []) | f # fs' \<Rightarrow> (Some f, fs'))"
  by (induction fs) auto

text \<open>
  C30. Cancelling an owner removes exactly its frames and their descendants.  Whatever the order in
  which the owner map is traversed, the addresses that cancel_owner forgets are those reachable,
  along the child links, from a frame of the owner: they have no owner, frame, suspension or
  waiters any more and are gone from the ready queue, whose other entries keep their order; the
  frames registered at them are marked as cancelled and no others, and of the waiter tokens exactly
  those registered at them become inactive.
\<close>

theorem cancel_owner_exact:
  assumes order: "{a. sc_owners s a = Some owner} \<subseteq> set order"
  shows "let V = (edges s)\<^sup>* `` {a. sc_owners s a = Some owner}; s' = cancel_owner order owner s in
     sc_owners s' = sc_owners s |` (- V) \<and> sc_frames s' = sc_frames s |` (- V) \<and> sc_blocked s' = sc_blocked s |` (- V)
   \<and> sc_waiters s' = sc_waiters s |` (- V) \<and> sc_ready s' = filter (\<lambda>f. address_of s f \<notin> V) (sc_ready s)
   \<and> (\<forall>f. fr_canceled (hp_frames s' f) \<longleftrightarrow> fr_canceled (hp_frames s f) \<or> (\<exists>a \<in> V. sc_frames s a = Some f))
   \<and> (\<forall>t. token_active s' t \<longleftrightarrow> token_active s t \<and> (\<forall>a \<in> V. t \<notin> set (waiters_at s a)))"
proof -
  define as where "as = filter (\<lambda>a. case sc_owners s a of None \<Rightarrow> False | Some x \<Rightarrow> x = owner) order"
  define V where "V = (edges s)\<^sup>* `` {a. sc_owners s a = Some owner}"
  have "set as = {a. sc_owners s a = Some owner}" using order by (auto simp: as_def split: option.splits)
  then have V: "(edges s)\<^sup>* `` set as = V" by (simp add: V_def)
  obtain ts u where u: "cancel_list as ([], s) = (ts, u)" by force
  have c: "cut V s u" and ts: "set ts = (\<Union>a \<in> V. set (waiters_at s a))"
    using cancel_list_exact[of "([], s)" as] u V by simp_all
  have s': "cancel_owner order owner s = cancel_tokens ts u"
    by (simp add: cancel_owner_def cancel_matching_def cancel_addresses_def u flip: as_def)
  have "token_active u t = token_active s t" for t using cutD(7)[OF c] by (simp add: token_active_def)
  then show ?thesis unfolding Let_def V_def[symmetric] s' using cutD[OF c] by (simp add: cancel_tokens_fields ts)
qed

text \<open>A parent frame of owner 1 with a child, and a frame of owner 2.\<close>

definition empty_sched :: sched where
  "empty_sched = \<lparr>sc_ready = [], sc_frames = Map.empty, sc_owners = Map.empty, sc_children = fmempty, sc_parents = Map.empty,
     sc_blocked = Map.empty, sc_waiters = Map.empty, sc_timers = empty_timers, sc_suspend_sequence = 0, sc_wakes = 0,
     hp_frames = (\<lambda>f. \<lparr>fr_address = f + 10, fr_canceled = False, fr_finished = False\<rparr>), hp_frame_alive = (\<lambda>_. True),
     hp_tokens = (\<lambda>_. \<lparr>tk_active = False, tk_frame = None, tk_control = False, tk_before = True\<rparr>), hp_token_alive = (\<lambda>_. True)\<rparr>"

definition family :: sched where
  "family = post_frame (Some 1) (attach_child_frame (Some 1) 10 (register_frame 2 (Some 2) (register_frame 1 (Some 0) empty_sched)))"

theorem cancel_owner_exact_witness: "sc_owners (cancel_owner [10, 11, 12] 1 family) 11 = None"
proof -
  have o: "sc_owners family = [10 \<mapsto> 1, 12 \<mapsto> 2, 11 \<mapsto> 1]"
    by (simp add: family_def post_frame_def attach_child_frame_def register_frame_def empty_sched_def address_of_def owner_for_locked_def
        kInvalidOwner_def Let_def notify_wake_def frame_done_def fun_eq_iff)
  then have "11 \<in> (edges family)\<^sup>* `` {a. sc_owners family a = Some 1}" by auto
  moreover have "{a. sc_owners family a = Some 1} \<subseteq> set [10, 11, 12]" using o by (auto split: if_splits)
  ultimately show ?thesis using cancel_owner_exact[of family 1 "[10, 11, 12]"] by (simp add: Let_def restrict_map_def)
qed

end
