(* ===== verification/Attr_Parse.thy ===== *)
theory Attr_Parse
  imports Prelude
begin

section \<open>The attribute list parser of the code generator: \<^verbatim>\<open>tools/src/parse_core.cpp\<close>\<close>

text \<open>
  Parsing of the text between \<^verbatim>\<open>[[using gentest:\<close> and \<^verbatim>\<open>]]\<close> into attribute names with
  argument strings.  A position in a text is a pair: the characters before the index in reverse
  order, and the characters from the index on.  Character classes are those of the C locale.
\<close>

subsection \<open>Characters\<close>

definition isspace :: "char \<Rightarrow> bool" where
  "isspace c \<longleftrightarrow> c = CHR '' '' \<or> 9 \<le> (of_char c :: nat) \<and> (of_char c :: nat) \<le> 13"

definition isdigit :: "char \<Rightarrow> bool" where
  "isdigit c \<longleftrightarrow> 48 \<le> (of_char c :: nat) \<and> (of_char c :: nat) \<le> 57"

definition isalpha :: "char \<Rightarrow> bool" where
  "isalpha c \<longleftrightarrow> 65 \<le> (of_char c :: nat) \<and> (of_char c :: nat) \<le> 90 \<or> 97 \<le> (of_char c :: nat) \<and> (of_char c :: nat) \<le> 122"

definition isalnum :: "char \<Rightarrow> bool" where
  "isalnum c \<longleftrightarrow> isalpha c \<or> isdigit c"

definition is_identifier_char :: "char \<Rightarrow> bool" where
  "is_identifier_char c \<longleftrightarrow> isalnum c \<or> c = CHR ''_'' \<or> c = CHR ''-''"

definition is_word_char :: "char \<Rightarrow> bool" where
  "is_word_char c \<longleftrightarrow> isalnum c \<or> c = CHR ''_''"

definition name_start :: "char \<Rightarrow> bool" where
  "name_start c \<longleftrightarrow> isalpha c \<or> c = CHR ''_''"

definition is_likely_template_left :: "char \<Rightarrow> bool" where
  "is_likely_template_left c \<longleftrightarrow> isalpha c \<or> c \<in> set ''_:>)]''"

definition is_likely_template_right :: "char \<Rightarrow> bool" where
  "is_likely_template_right c \<longleftrightarrow> isalnum c \<or> c \<in> set ''_:(+-'' \<or> c = CHR 0x27"

abbreviation NUL :: char where "NUL \<equiv> CHR 0x00"
abbreviation DQ :: char where "DQ \<equiv> CHR 0x22"
abbreviation SQ :: char where "SQ \<equiv> CHR 0x27"
abbreviation BS :: char where "BS \<equiv> CHR 0x5C"
abbreviation LF :: char where "LF \<equiv> CHR 0x0A"
abbreviation CR :: char where "CR \<equiv> CHR 0x0D"
abbreviation TAB :: char where "TAB \<equiv> CHR 0x09"

subsection \<open>Trimming and unquoting\<close>

definition trim_copy :: "string \<Rightarrow> string" where
  "trim_copy text = rev (dropWhile isspace (rev (dropWhile isspace text)))"

definition unescape :: "char \<Rightarrow> char" where
  "unescape c = (if c = CHR ''n'' then LF else if c = CHR ''r'' then CR else if c = CHR ''t'' then TAB else c)"

fun unquote_loop :: "bool \<Rightarrow> string \<Rightarrow> string" where
  "unquote_loop escape [] = (if escape then [BS] else [])"
| "unquote_loop escape (c # cs) =
     (if escape then unescape c # unquote_loop False cs
      else if c = BS then unquote_loop True cs
      else c # unquote_loop False cs)"

definition unquote :: "string \<Rightarrow> string" where
  "unquote value =
     (let trimmed = trim_copy value
      in if length trimmed \<ge> 2 \<and> hd trimmed = DQ \<and> last trimmed = DQ then unquote_loop False (butlast (tl trimmed)) else trimmed)"

subsection \<open>Looking around a position\<close>

text \<open>Both searches skip spaces and answer NUL at the end of the text.\<close>

definition first_non_space :: "string \<Rightarrow> char" where
  "first_non_space text = (case dropWhile isspace text of [] \<Rightarrow> NUL | c # _ \<Rightarrow> c)"

definition previous_non_space :: "string \<Rightarrow> char" where
  "previous_non_space text = first_non_space (rev text)"

definition next_non_space :: "string \<Rightarrow> char" where
  "next_non_space rest = first_non_space rest"

fun is_char_literal_prefix :: "string \<Rightarrow> bool" where
  "is_char_literal_prefix (a # bef) =
     (if a \<in> set ''LuU'' then bef = [] \<or> \<not> is_word_char (hd bef)
      else a = CHR ''8'' \<and> bef \<noteq> [] \<and> hd bef = CHR ''u'' \<and> (tl bef = [] \<or> \<not> is_word_char (hd (tl bef))))"
| "is_char_literal_prefix [] = False"

definition should_enter_char_literal :: "string \<Rightarrow> string \<Rightarrow> bool" where
  "should_enter_char_literal bef rest =
     (case rest of
        [] \<Rightarrow> False
      | c # cs \<Rightarrow>
          c = SQ
          \<and> (is_char_literal_prefix bef
             \<or> (let prev = (case bef of [] \<Rightarrow> NUL | p # _ \<Rightarrow> p); nxt = (case cs of [] \<Rightarrow> NUL | n # _ \<Rightarrow> n)
                in nxt \<noteq> NUL \<and> \<not> (isalnum prev \<and> isalnum nxt))))"

text \<open>The identifier that follows, if one does.\<close>

definition next_identifier_token :: "string \<Rightarrow> string" where
  "next_identifier_token rest =
     (case dropWhile isspace rest of
        [] \<Rightarrow> []
      | c # cs \<Rightarrow> if \<not> name_start c then [] else c # takeWhile is_word_char cs)"

text \<open>\<open>prefix_length\<close> and \<open>delimiter\<close> of a raw string literal that starts here.\<close>

record RawStringStart =
  rs_prefix_length :: nat
  rs_delimiter :: string

definition raw_prefix :: "string \<Rightarrow> nat option" where
  "raw_prefix rest =
     (if starts_with rest [CHR ''R'', DQ] then Some 2
      else if starts_with rest [CHR ''u'', CHR ''R'', DQ] \<or> starts_with rest [CHR ''U'', CHR ''R'', DQ] \<or> starts_with rest [CHR ''L'', CHR ''R'', DQ] then Some 3
      else if starts_with rest [CHR ''u'', CHR ''8'', CHR ''R'', DQ] then Some 4
      else None)"

fun raw_delimiter :: "string \<Rightarrow> string option" where
  "raw_delimiter [] = None"
| "raw_delimiter (c # cs) =
     (if c = CHR ''('' then Some []
      else if c = BS \<or> c = CHR '')'' \<or> isspace c then None
      else map_option ((#) c) (raw_delimiter cs))"

definition detect_raw_string_start :: "string \<Rightarrow> RawStringStart option" where
  "detect_raw_string_start rest =
     (case raw_prefix rest of
        None \<Rightarrow> None
      | Some n \<Rightarrow> map_option (\<lambda>d. \<lparr>rs_prefix_length = n + length d + 1, rs_delimiter = d\<rparr>) (raw_delimiter (drop n rest)))"

definition raw_string_closes_here :: "string \<Rightarrow> string \<Rightarrow> bool" where
  "raw_string_closes_here rest delimiter \<longleftrightarrow> starts_with rest (CHR '')'' # delimiter @ [DQ])"

subsection \<open>Angle brackets\<close>

definition angle_closes :: "string \<Rightarrow> bool" where
  "angle_closes rest =
     (let follower = next_non_space rest
      in if follower = NUL \<or> follower \<in> set ''_,)]}{(:;*&'' then True
         else let token = next_identifier_token rest
              in if token = ''const'' \<or> token = ''volatile'' then True
                 else if token = [] then False
                 else next_non_space (drop (length token) (dropWhile isspace rest)) = CHR ''{'')"

text \<open>Characters inside string and character literals: \<open>q\<close> is the closing quote.\<close>

datatype lit = Outside | In_Lit char bool

fun lit_step :: "char \<Rightarrow> bool \<Rightarrow> char \<Rightarrow> lit" where
  "lit_step q escape c = (if escape then In_Lit q False else if c = BS then In_Lit q True else if c = q then Outside else In_Lit q False)"

fun angle_loop :: "nat \<Rightarrow> nat \<Rightarrow> lit \<Rightarrow> string \<Rightarrow> string \<Rightarrow> bool" where
  "angle_loop depth nested l bef [] = False"
| "angle_loop depth nested (In_Lit q escape) bef (c # cs) = angle_loop depth nested (lit_step q escape c) (c # bef) cs"
| "angle_loop depth nested Outside bef (c # cs) =
     (if c = DQ then angle_loop depth nested (In_Lit DQ False) (c # bef) cs
      else if c = SQ \<and> should_enter_char_literal bef (c # cs) then angle_loop depth nested (In_Lit SQ False) (c # bef) cs
      else if c \<in> set ''([{'' then angle_loop (depth + 1) nested Outside (c # bef) cs
      else if c \<in> set '')]}'' then angle_loop (depth - 1) nested Outside (c # bef) cs
      else if depth > 0 then angle_loop depth nested Outside (c # bef) cs
      else if c = CHR ''<'' then angle_loop depth (nested + 1) Outside (c # bef) cs
      else if c = CHR ''>''
      then if nested = 0 then angle_closes cs else angle_loop depth (nested - 1) Outside (c # bef) cs
      else angle_loop depth nested Outside (c # bef) cs)"

definition has_matching_angle_close :: "string \<Rightarrow> string \<Rightarrow> bool" where
  "has_matching_angle_close bef rest =
     (case rest of [] \<Rightarrow> False | c # cs \<Rightarrow> angle_loop 0 0 Outside (c # bef) cs)"

subsection \<open>Splitting the arguments\<close>

definition should_open_angle :: "string \<Rightarrow> string \<Rightarrow> string \<Rightarrow> bool" where
  "should_open_angle current bef rest =
     (let prev = previous_non_space current; nxt = next_non_space (tl rest)
      in prev \<noteq> NUL \<and> is_likely_template_left prev
         \<and> nxt \<noteq> NUL \<and> nxt \<noteq> CHR ''<'' \<and> nxt \<noteq> CHR ''='' \<and> is_likely_template_right nxt
         \<and> has_matching_angle_close bef rest)"

definition push_token :: "string \<Rightarrow> string list \<Rightarrow> string list" where
  "push_token current parts = (let token = trim_copy current in if token = [] then parts else parts @ [unquote token])"

record 'p split_state =
  sp_parts :: 'p
  sp_current :: string
  sp_depth :: nat
  sp_angle :: nat
  sp_lit :: lit

definition push_char :: "char \<Rightarrow> 'p split_state \<Rightarrow> 'p split_state" where
  "push_char c s = s\<lparr>sp_current := sp_current s @ [c]\<rparr>"

text \<open>
  The loop over the characters; \<open>push\<close> is what happens to a finished item.  The same loop is
  written out again in \<^verbatim>\<open>validate.cpp\<close> for tuples and in \<^verbatim>\<open>discovery_utils.hpp\<close> for rows.
\<close>

definition split_step :: "(string \<Rightarrow> 'p \<Rightarrow> 'p) \<Rightarrow> string \<Rightarrow> char \<Rightarrow> string \<Rightarrow> 'p split_state \<Rightarrow> 'p split_state" where
  "split_step push bef c cs s =
     (case sp_lit s of
        In_Lit q escape \<Rightarrow> (push_char c s)\<lparr>sp_lit := lit_step q escape c\<rparr>
      | Outside \<Rightarrow>
          if c = DQ then (push_char c s)\<lparr>sp_lit := In_Lit DQ False\<rparr>
          else if c = SQ then (push_char c s)\<lparr>sp_lit := (if should_enter_char_literal bef (c # cs) then In_Lit SQ False else Outside)\<rparr>
          else if c \<in> set ''([{'' then (push_char c s)\<lparr>sp_depth := sp_depth s + 1\<rparr>
          else if c \<in> set '')]}'' then (push_char c s)\<lparr>sp_depth := sp_depth s - 1\<rparr>
          else if c = CHR ''<''
          then (push_char c s)\<lparr>sp_angle := (if should_open_angle (sp_current s) bef (c # cs) then sp_angle s + 1 else sp_angle s)\<rparr>
          else if c = CHR ''>'' then (push_char c s)\<lparr>sp_angle := sp_angle s - 1\<rparr>
          else if c = CHR '','' \<and> sp_depth s = 0 \<and> sp_angle s = 0
          then s\<lparr>sp_parts := push (sp_current s) (sp_parts s), sp_current := []\<rparr>
          else push_char c s)"

fun split_loop :: "(string \<Rightarrow> 'p \<Rightarrow> 'p) \<Rightarrow> string \<Rightarrow> string \<Rightarrow> 'p split_state \<Rightarrow> 'p split_state" where
  "split_loop push bef [] s = s"
| "split_loop push bef (c # cs) s = split_loop push (c # bef) cs (split_step push bef c cs s)"

definition split_start :: "'p \<Rightarrow> 'p split_state" where
  "split_start parts = \<lparr>sp_parts = parts, sp_current = [], sp_depth = 0, sp_angle = 0, sp_lit = Outside\<rparr>"

definition split_list :: "(string \<Rightarrow> string list \<Rightarrow> string list) \<Rightarrow> string \<Rightarrow> string list" where
  "split_list push text = (let s = split_loop push [] text (split_start []) in push (sp_current s) (sp_parts s))"

definition split_arguments :: "string \<Rightarrow> string list" where
  "split_arguments arguments = split_list push_token arguments"

subsection \<open>The attribute list\<close>

record ParsedAttribute =
  pa_name :: string
  pa_arguments :: "string list"

text \<open>
  The scan for the closing parenthesis: the arguments between the parentheses and what follows, or
  nothing when the list ends first.
\<close>

function args_scan :: "nat \<Rightarrow> lit \<Rightarrow> string option \<Rightarrow> string \<Rightarrow> string \<Rightarrow> string \<Rightarrow> (string \<times> string \<times> string) option" where
  "args_scan depth l raw inside bef [] = None"
| "args_scan depth l (Some delimiter) inside bef (c # cs) =
     (if raw_string_closes_here (c # cs) delimiter
      then let n = length delimiter + 2; w = take n (c # cs)
           in args_scan depth l None (inside @ w) (rev w @ bef) (drop n (c # cs))
      else args_scan depth l (Some delimiter) (inside @ [c]) (c # bef) cs)"
| "args_scan depth (In_Lit q escape) None inside bef (c # cs) =
     args_scan depth (lit_step q escape c) None (inside @ [c]) (c # bef) cs"
| "args_scan depth Outside None inside bef (c # cs) =
     (case detect_raw_string_start (c # cs) of
        Some r \<Rightarrow> let n = rs_prefix_length r; w = take n (c # cs)
                  in args_scan depth Outside (Some (rs_delimiter r)) (inside @ w) (rev w @ bef) (drop n (c # cs))
      | None \<Rightarrow>
          if c = DQ then args_scan depth (In_Lit DQ False) None (inside @ [c]) (c # bef) cs
          else if c = SQ \<and> should_enter_char_literal bef (c # cs)
          then args_scan depth (In_Lit SQ False) None (inside @ [c]) (c # bef) cs
          else if c = CHR ''('' then args_scan (depth + 1) Outside None (inside @ [c]) (c # bef) cs
          else if c = CHR '')''
          then if depth = 1 then Some (inside, c # bef, cs)
               else args_scan (depth - 1) Outside None (inside @ [c]) (c # bef) cs
          else args_scan depth Outside None (inside @ [c]) (c # bef) cs)"
  by pat_completeness auto

lemma detect_raw_pos: "detect_raw_string_start rest = Some r \<Longrightarrow> rs_prefix_length r > 0"
  by (auto simp: detect_raw_string_start_def split: option.splits)

termination args_scan
  by (relation "measure (\<lambda>(_, _, _, _, _, rest). length rest)") (auto simp: Let_def dest: detect_raw_pos)

definition skip_whitespace :: "string \<Rightarrow> string \<Rightarrow> string \<times> string" where
  "skip_whitespace bef rest = (rev (takeWhile isspace rest) @ bef, dropWhile isspace rest)"

text \<open>An identifier whose first character has been checked.\<close>

definition scan_identifier :: "string \<Rightarrow> string \<Rightarrow> string \<times> string \<times> string" where
  "scan_identifier bef rest =
     (let w = hd rest # takeWhile is_identifier_char (tl rest)
      in (w, rev w @ bef, dropWhile is_identifier_char (tl rest)))"

text \<open>The scopes after a name: \<^verbatim>\<open>gentest::\<close> is dropped, other scopes are kept.\<close>

definition scope_follows :: "string \<Rightarrow> string \<Rightarrow> (string \<times> string) option" where
  "scope_follows bef rest =
     (case skip_whitespace bef rest of
        (b1, a # b # r1) \<Rightarrow>
          if a = CHR '':'' \<and> b = CHR '':''
          then (case skip_whitespace (b # a # b1) r1 of
                  (b2, c # r2) \<Rightarrow> if name_start c then Some (b2, c # r2) else None
                | (b2, []) \<Rightarrow> None)
          else None
      | _ \<Rightarrow> None)"

lemma skip_whitespace_shorter: "skip_whitespace bef rest = (b, r) \<Longrightarrow> length r \<le> length rest"
  by (auto simp: skip_whitespace_def length_dropWhile_le)

lemma scope_follows_shorter:
  assumes "scope_follows bef rest = Some (b, r)"
  shows "r \<noteq> [] \<and> length r + 2 \<le> length rest \<and> name_start (hd r)"
  using assms by (auto simp: scope_follows_def split: list.splits if_splits prod.splits dest!: skip_whitespace_shorter)

function scope_loop :: "string \<Rightarrow> string \<Rightarrow> string \<Rightarrow> string \<times> string \<times> string" where
  "scope_loop name bef rest =
     (case scope_follows bef rest of
        None \<Rightarrow> (name, bef, rest)
      | Some (b, r) \<Rightarrow>
          (case scan_identifier b r of (scoped, b', r') \<Rightarrow>
             scope_loop (if name = ''gentest'' then scoped else name @ ''::'' @ scoped) b' r'))"
  by pat_completeness auto

lemma scan_identifier_shorter: "scan_identifier bef rest = (w, b, r) \<Longrightarrow> rest \<noteq> [] \<Longrightarrow> length r < length rest"
  by (cases rest) (auto simp: scan_identifier_def Let_def length_dropWhile_le less_Suc_eq_le)

termination scope_loop
  by (relation "measure (\<lambda>(_, _, rest). length rest)")
     (auto dest!: scope_follows_shorter dest: scan_identifier_shorter[OF sym])

declare scope_loop.simps [simp del]

definition attribute_args :: "string \<Rightarrow> string \<Rightarrow> string list \<times> string \<times> string" where
  "attribute_args bef rest =
     (case rest of
        c # cs \<Rightarrow>
          if c = CHR ''(''
          then case args_scan 1 Outside None [] (c # bef) cs of
                 Some (inside, b, r) \<Rightarrow> (split_arguments inside, b, r)
               | None \<Rightarrow> ([], rev rest @ bef, [])
          else ([], bef, rest)
      | [] \<Rightarrow> ([], bef, rest))"

definition end_attribute :: "string \<Rightarrow> string \<Rightarrow> string \<times> string" where
  "end_attribute bef rest =
     (case skip_whitespace bef rest of
        (b, c # r) \<Rightarrow> if c = CHR '','' then (c # b, r) else (b, c # r)
      | (b, []) \<Rightarrow> (b, []))"

definition parse_attribute :: "string \<Rightarrow> string \<Rightarrow> ParsedAttribute \<times> string \<times> string" where
  "parse_attribute bef rest =
     (case scan_identifier bef rest of (name0, b0, r0) \<Rightarrow>
      case scope_loop name0 b0 r0 of (name, b1, r1) \<Rightarrow>
      case skip_whitespace b1 r1 of (b2, r2) \<Rightarrow>
      case attribute_args b2 r2 of (args, b3, r3) \<Rightarrow>
        (\<lparr>pa_name = name, pa_arguments = args\<rparr>, end_attribute b3 r3))"

lemma args_scan_shorter: "args_scan d l raw inside bef rest = Some (i, b, r) \<Longrightarrow> length r < length rest"
proof (induction d l raw inside bef rest rule: args_scan.induct)
  case (2 depth l delimiter inside bef c cs)
  show ?case
  proof (cases "raw_string_closes_here (c # cs) delimiter")
    case True
    show ?thesis using "2.IH"(1)[OF True refl refl] "2.prems" True by (simp add: Let_def)
  next
    case False
    show ?thesis using "2.IH"(2)[OF False] "2.prems" False by simp
  qed
next
  case (4 depth inside bef c cs)
  show ?case
  proof (cases "detect_raw_string_start (c # cs)")
    case (Some x)
    then have "length r < length (drop (rs_prefix_length x) (c # cs))" using 4 by (simp add: Let_def)
    then show ?thesis by simp
  next
    case None
    then show ?thesis using "4.IH"(1-5)[OF None] "4.prems" by (simp split: if_splits)
  qed
qed auto

lemma scope_loop_shorter: "scope_loop name bef rest = (n, b, r) \<Longrightarrow> length r \<le> length rest"
proof (induction name bef rest rule: scope_loop.induct)
  case (1 name bef rest)
  show ?case
  proof (cases "scope_follows bef rest")
    case None
    then show ?thesis using "1.prems" by (simp add: scope_loop.simps)
  next
    case (Some p)
    obtain b1 r1 scoped b2 r2 where p: "p = (b1, r1)" "scan_identifier b1 r1 = (scoped, b2, r2)" by (metis prod_cases3 surj_pair)
    have "length r \<le> length r2" using "1.IH"[OF Some p(1)[symmetric] p(2)[symmetric] refl] "1.prems" Some p by (simp add: scope_loop.simps[of name])
    then show ?thesis using scope_follows_shorter[of bef rest b1 r1] scan_identifier_shorter[OF p(2)] Some p by auto
  qed
qed

lemma attribute_args_shorter: "attribute_args bef rest = (a, b, r) \<Longrightarrow> length r \<le> length rest"
  by (auto simp: attribute_args_def split: list.splits if_splits option.splits prod.splits dest!: args_scan_shorter)

lemma end_attribute_shorter: "end_attribute bef rest = (b, r) \<Longrightarrow> length r \<le> length rest"
  by (auto simp: end_attribute_def split: list.splits if_splits prod.splits dest!: skip_whitespace_shorter)

lemma parse_attribute_shorter:
  assumes "parse_attribute bef rest = (a, b, r)" "rest \<noteq> []"
  shows "length r < length rest"
proof -
  obtain w b0 r0 n b1 r1 args b3 r3
    where "scan_identifier bef rest = (w, b0, r0)" "scope_loop w b0 r0 = (n, b1, r1)"
      "attribute_args (rev (takeWhile isspace r1) @ b1) (dropWhile isspace r1) = (args, b3, r3)" "end_attribute b3 r3 = (b, r)"
    using assms(1) by (auto simp: parse_attribute_def skip_whitespace_def split: prod.splits)
  then have "length r \<le> length r3" "length r3 \<le> length (dropWhile isspace r1)" "length r1 \<le> length r0" "length r0 < length rest"
    using end_attribute_shorter attribute_args_shorter scope_loop_shorter scan_identifier_shorter assms(2) by metis+
  then show ?thesis using length_dropWhile_le[of isspace r1] by linarith
qed

function attribute_loop :: "string \<Rightarrow> string \<Rightarrow> ParsedAttribute list" where
  "attribute_loop bef rest =
     (case skip_whitespace bef rest of
        (b, []) \<Rightarrow> []
      | (b, c # cs) \<Rightarrow>
          if c = CHR '','' \<or> \<not> name_start c then attribute_loop (c # b) cs
          else case parse_attribute b (c # cs) of (a, b', r') \<Rightarrow> a # attribute_loop b' r')"
  by pat_completeness auto

termination attribute_loop
proof (relation "measure (\<lambda>(_, rest). length rest)", goal_cases)
  case (2 bef rest p q b c)
  then show ?case by (auto dest!: skip_whitespace_shorter[OF sym])
next
  case (3 bef rest p q b c x y z w)
  then show ?case by (auto dest!: skip_whitespace_shorter[OF sym] parse_attribute_shorter[OF sym])
qed simp

declare attribute_loop.simps [simp del]

definition parse_attribute_list :: "string \<Rightarrow> ParsedAttribute list" where
  "parse_attribute_list text = attribute_loop [] text"

subsection \<open>Printing an attribute list\<close>

text \<open>
  How attributes are written: an argument is a quoted string, escaped like the generator escapes
  strings (\<^verbatim>\<open>render::escape_string\<close> in \<^verbatim>\<open>tools/src/render.cpp\<close>), or a plain token; a name
  may carry the scope \<^verbatim>\<open>gentest::\<close>, and attributes and arguments are separated by a comma and a
  space.
\<close>

datatype arg_form = Quoted string | Plain string

record written =
  wr_scoped :: bool
  wr_name :: string
  wr_args :: "arg_form list"

definition plain_char :: "char \<Rightarrow> bool" where
  "plain_char c \<longleftrightarrow> is_word_char c \<or> c \<in> set ''.+-:''"

definition escape_char :: "char \<Rightarrow> string" where
  "escape_char c =
     (if c = BS then [BS, BS] else if c = DQ then [BS, DQ] else if c = LF then [BS, CHR ''n'']
      else if c = CR then [BS, CHR ''r''] else if c = TAB then [BS, CHR ''t''] else [c])"

definition escape_string :: "string \<Rightarrow> string" where
  "escape_string value = concat (map escape_char value)"

definition quote :: "string \<Rightarrow> string" where
  "quote s = DQ # escape_string s @ [DQ]"

lemmas quote_defs = quote_def escape_string_def

fun arg_text :: "arg_form \<Rightarrow> string" where
  "arg_text (Quoted s) = quote s"
| "arg_text (Plain s) = s"

fun arg_value :: "arg_form \<Rightarrow> string" where
  "arg_value (Quoted s) = s"
| "arg_value (Plain s) = s"

fun arg_ok :: "arg_form \<Rightarrow> bool" where
  "arg_ok (Quoted s) = True"
| "arg_ok (Plain s) = (s \<noteq> [] \<and> list_all plain_char s)"

fun join_comma :: "string list \<Rightarrow> string" where
  "join_comma [] = []"
| "join_comma [w] = w"
| "join_comma (w # v # ws) = w @ '', '' @ join_comma (v # ws)"

definition name_ok :: "string \<Rightarrow> bool" where
  "name_ok n \<longleftrightarrow> n \<noteq> [] \<and> name_start (hd n) \<and> list_all is_identifier_char (tl n)"

definition written_text :: "written \<Rightarrow> string" where
  "written_text a = (if wr_scoped a then ''gentest::'' else []) @ wr_name a
     @ (if wr_args a = [] then [] else ''('' @ join_comma (map arg_text (wr_args a)) @ '')'')"

definition attribute_text :: "written list \<Rightarrow> string" where
  "attribute_text ats = join_comma (map written_text ats)"

definition written_attribute :: "written \<Rightarrow> ParsedAttribute" where
  "written_attribute a = \<lparr>pa_name = wr_name a, pa_arguments = map arg_value (wr_args a)\<rparr>"

definition written_ok :: "written \<Rightarrow> bool" where
  "written_ok a \<longleftrightarrow> name_ok (wr_name a) \<and> list_all arg_ok (wr_args a)"

lemmas char_class_defs = isspace_def isdigit_def isalpha_def isalnum_def is_identifier_char_def is_word_char_def name_start_def plain_char_def

lemma plain_charD:
  assumes "plain_char c"
  shows "\<not> isspace c" "c \<noteq> DQ" "c \<noteq> SQ" "c \<notin> set ''([{''" "c \<notin> set '')]}''" "c \<noteq> CHR ''<''" "c \<noteq> CHR ''>''" "c \<noteq> CHR '',''"
    "c \<noteq> CHR ''(''" "c \<noteq> CHR '')''" "c \<noteq> CHR '' ''"
  using assms by (auto simp: char_class_defs)

lemma identifier_charD:
  assumes "is_identifier_char c"
  shows "\<not> isspace c" "c \<noteq> CHR '':''" "c \<noteq> CHR '',''" "c \<noteq> CHR ''(''"
  using assms by (auto simp: char_class_defs)

lemma name_startD: "name_start c \<Longrightarrow> is_identifier_char c"
  by (auto simp: char_class_defs)

subsection \<open>Quoted strings\<close>

lemma unescape_char:
  "unquote_loop False (escape_char c @ cs) = c # unquote_loop False cs"
  by (auto simp: escape_char_def unescape_def)

lemma unquote_escaped: "unquote_loop False (concat (map escape_char s)) = s"
  by (induction s) (simp_all add: unescape_char)

lemma trim_id: "w \<noteq> [] \<Longrightarrow> \<not> isspace (hd w) \<Longrightarrow> \<not> isspace (last w) \<Longrightarrow> trim_copy w = w"
  using dropWhile_eq_self_iff[of isspace w] dropWhile_eq_self_iff[of isspace "rev w"] by (simp add: trim_copy_def hd_rev)

lemma trim_space: "trim_copy (CHR '' '' # w) = trim_copy w"
  by (simp add: trim_copy_def isspace_def)

lemma unquote_quote: "trim_copy (quote s) = quote s" "unquote (quote s) = s"
proof -
  show t: "trim_copy (quote s) = quote s" by (rule trim_id) (auto simp: quote_defs isspace_def)
  show "unquote (quote s) = s" unfolding unquote_def t by (simp add: quote_defs Let_def unquote_escaped butlast_append)
qed

lemma unquote_plain:
  assumes "s \<noteq> []" "list_all plain_char s"
  shows "trim_copy s = s" "unquote s = s"
proof -
  have hl: "plain_char (hd s)" "plain_char (last s)" using assms by (auto simp: list_all_iff)
  show t: "trim_copy s = s" using trim_id assms(1) hl plain_charD(1) by blast
  show "unquote s = s" unfolding unquote_def t using plain_charD(2)[OF hl(1)] by simp
qed

lemma arg_text_value:
  assumes "arg_ok a"
  shows "arg_text a \<noteq> []" "trim_copy (arg_text a) = arg_text a" "unquote (arg_text a) = arg_value a"
  using assms unquote_quote unquote_plain by (cases a; auto simp: quote_defs)+

lemma push_arg: "arg_ok a \<Longrightarrow> push_token (arg_text a) ps = ps @ [arg_value a] \<and> push_token (CHR '' '' # arg_text a) ps = ps @ [arg_value a]"
  by (simp add: push_token_def trim_space arg_text_value)

subsection \<open>Splitting\<close>

lemma split_escaped:
  "sp_lit s = In_Lit DQ False \<Longrightarrow> split_loop pu bef (concat (map escape_char w) @ DQ # r) s
     = split_loop pu (DQ # rev (concat (map escape_char w)) @ bef) r (s\<lparr>sp_current := sp_current s @ concat (map escape_char w) @ [DQ], sp_lit := Outside\<rparr>)"
proof (induction w arbitrary: bef s)
  case Nil
  then show ?case by (simp add: split_step_def push_char_def)
next
  case (Cons c w)
  have "split_loop pu bef (escape_char c @ t) s = split_loop pu (rev (escape_char c) @ bef) t (s\<lparr>sp_current := sp_current s @ escape_char c\<rparr>)" for t
    using Cons.prems by (cases s) (simp add: escape_char_def split_step_def push_char_def)
  then show ?case using Cons by simp
qed

lemma split_plain:
  "sp_lit s = Outside \<Longrightarrow> list_all plain_char w \<Longrightarrow> split_loop pu bef (w @ r) s = split_loop pu (rev w @ bef) r (s\<lparr>sp_current := sp_current s @ w\<rparr>)"
proof (induction w arbitrary: bef s)
  case (Cons c w)
  have "plain_char c" using Cons.prems by simp
  then have "split_step pu bef c (w @ r) s = push_char c s" using plain_charD[of c] Cons.prems(1) by (simp add: split_step_def)
  then show ?case using Cons.IH[of "push_char c s" "c # bef"] Cons.prems by (simp add: push_char_def)
qed simp

lemma split_arg:
  assumes "sp_lit s = Outside" "arg_ok a"
  shows "split_loop pu bef (arg_text a @ r) s = split_loop pu (rev (arg_text a) @ bef) r (s\<lparr>sp_current := sp_current s @ arg_text a\<rparr>)"
proof (cases a)
  case (Quoted w)
  have "split_loop pu bef (arg_text a @ r) s
      = split_loop pu (DQ # bef) (concat (map escape_char w) @ DQ # r) (s\<lparr>sp_current := sp_current s @ [DQ], sp_lit := In_Lit DQ False\<rparr>)"
    using assms(1) by (simp add: Quoted quote_defs split_step_def push_char_def)
  also have "\<dots> = split_loop pu (rev (arg_text a) @ bef) r (s\<lparr>sp_current := sp_current s @ arg_text a\<rparr>)"
    using assms(1) by (cases s) (simp add: split_escaped Quoted quote_defs)
  finally show ?thesis .
qed (use assms in \<open>simp add: split_plain\<close>)

lemma split_args:
  assumes "list_all arg_ok as" "as \<noteq> []" "sp_lit s = Outside" "sp_depth s = 0" "sp_angle s = 0" "sp_current s = [] \<or> sp_current s = '' ''"
  shows "let t = split_loop push_token bef (join_comma (map arg_text as)) s
         in push_token (sp_current t) (sp_parts t) = sp_parts s @ map arg_value as"
  using assms
proof (induction as arbitrary: bef s)
  case (Cons a as)
  show ?case
  proof (cases as)
    case Nil
    then show ?thesis using Cons.prems split_arg[of s a _ bef "[]"] by (auto simp: push_arg)
  next
    case (Cons b bs)
    let ?s = "s\<lparr>sp_parts := sp_parts s @ [arg_value a], sp_current := '' ''\<rparr>"
    have "split_loop push_token bef (join_comma (map arg_text (a # as))) s
        = split_loop push_token ('' ,'' @ rev (arg_text a) @ bef) (join_comma (map arg_text as)) ?s"
      using Cons.prems Cons push_arg[of a "sp_parts s"] by (auto simp: split_arg split_step_def push_char_def)
    then show ?thesis using Cons.IH[of ?s "'' ,'' @ rev (arg_text a) @ bef"] Cons.prems Cons by simp
  qed
qed simp

lemma split_arguments_join: "list_all arg_ok as \<Longrightarrow> as \<noteq> [] \<Longrightarrow> split_arguments (join_comma (map arg_text as)) = map arg_value as"
  using split_args[of as "split_start []" "[]"] by (simp add: split_arguments_def split_list_def split_start_def Let_def)

subsection \<open>Finding the closing parenthesis\<close>

lemma scan_escaped:
  "args_scan d (In_Lit DQ False) None ins bef (concat (map escape_char w) @ DQ # r)
     = args_scan d Outside None (ins @ concat (map escape_char w) @ [DQ]) (DQ # rev (concat (map escape_char w)) @ bef) r"
proof (induction w arbitrary: ins bef)
  case (Cons c w)
  have "args_scan d (In_Lit DQ False) None ins bef (escape_char c @ t)
      = args_scan d (In_Lit DQ False) None (ins @ escape_char c) (rev (escape_char c) @ bef) t" for t
    by (simp add: escape_char_def)
  then show ?case using Cons[of "ins @ escape_char c" "rev (escape_char c) @ bef"] by simp
qed simp

lemma no_raw_start:
  assumes "list_all plain_char w" "w \<noteq> []" "c \<noteq> DQ" "\<not> plain_char c"
  shows "detect_raw_string_start (w @ c # r) = None"
proof -
  have "plain_char CHR ''R''" "plain_char CHR ''8''" by (simp_all add: char_class_defs)
  then have nr: "c \<noteq> CHR ''R''" "c \<noteq> CHR ''8''" using assms(4) by blast+
  have "raw_prefix (w @ c # r) = None"
  proof (cases w rule: remdups_adj.cases)
    case (2 x)
    then show ?thesis using assms nr by (simp add: raw_prefix_def starts_with_def)
  next
    case (3 x y zs)
    then have "plain_char y" "list_all plain_char zs" using assms by auto
    then show ?thesis using 3 assms plain_charD(2) nr
      by (cases zs rule: remdups_adj.cases) (auto simp: raw_prefix_def starts_with_def)
  qed (use assms in simp)
  then show ?thesis by (simp add: detect_raw_string_start_def)
qed

lemma scan_plain:
  assumes "list_all plain_char w" "c \<noteq> DQ" "\<not> plain_char c"
  shows "args_scan d Outside None ins bef (w @ c # r) = args_scan d Outside None (ins @ w) (rev w @ bef) (c # r)"
  using assms
proof (induction w arbitrary: ins bef)
  case (Cons x w)
  have "plain_char x" using Cons.prems by simp
  then have "args_scan d Outside None ins bef (x # w @ c # r) = args_scan d Outside None (ins @ [x]) (x # bef) (w @ c # r)"
    using plain_charD[of x] no_raw_start[of "x # w" c r] Cons.prems by simp
  then show ?case using Cons by (simp del: args_scan.simps)
qed simp

lemma no_raw_prefix: "c \<notin> set ''RuUL'' \<Longrightarrow> detect_raw_string_start (c # cs) = None"
  by (simp add: detect_raw_string_start_def raw_prefix_def starts_with_def)

lemma scan_arg:
  assumes "arg_ok a" "c \<noteq> DQ" "\<not> plain_char c"
  shows "args_scan d Outside None ins bef (arg_text a @ c # r) = args_scan d Outside None (ins @ arg_text a) (rev (arg_text a) @ bef) (c # r)"
proof (cases a)
  case (Quoted w)
  have "args_scan d Outside None ins bef (DQ # t) = args_scan d (In_Lit DQ False) None (ins @ [DQ]) (DQ # bef) t" for t
    by (simp add: no_raw_prefix)
  then show ?thesis by (simp add: Quoted quote_defs scan_escaped)
qed (use assms scan_plain in simp)

lemma separators: "CHR '','' \<noteq> DQ \<and> \<not> plain_char CHR '',''" "CHR '')'' \<noteq> DQ \<and> \<not> plain_char CHR '')''"
  by (simp_all add: char_class_defs)

lemma scan_args:
  assumes "list_all arg_ok as" "as \<noteq> []"
  shows "args_scan 1 Outside None ins bef (join_comma (map arg_text as) @ CHR '')'' # r)
    = Some (ins @ join_comma (map arg_text as), CHR '')'' # rev (join_comma (map arg_text as)) @ bef, r)"
  using assms
proof (induction as arbitrary: ins bef)
  case (Cons a as)
  show ?case
  proof (cases as)
    case Nil
    then show ?thesis using Cons.prems separators by (simp add: scan_arg no_raw_prefix)
  next
    case (Cons b bs)
    have "args_scan 1 Outside None ins bef (CHR '','' # CHR '' '' # t) = args_scan 1 Outside None (ins @ '', '') ('' ,'' @ bef) t" for ins bef t
      by (simp add: no_raw_prefix)
    then show ?thesis using Cons.IH Cons.prems separators Cons by (simp add: scan_arg)
  qed
qed simp

subsection \<open>Names and scopes\<close>

text \<open>What may follow an attribute name: the end of the list, a comma or an opening parenthesis.\<close>

definition name_ends :: "string \<Rightarrow> bool" where
  "name_ends r \<longleftrightarrow> r = [] \<or> hd r = CHR '','' \<or> hd r = CHR ''(''"

lemma name_endsD:
  assumes "name_ends r"
  shows "r = [] \<or> \<not> is_identifier_char (hd r)" "skip_whitespace b r = (b, r)" "scope_follows b r = None"
proof -
  consider "r = []" | cs where "r = CHR '','' # cs" | cs where "r = CHR ''('' # cs"
    using assms by (cases r) (auto simp: name_ends_def)
  then have "(r = [] \<or> \<not> is_identifier_char (hd r)) \<and> skip_whitespace b r = (b, r) \<and> scope_follows b r = None"
    by cases (simp_all add: char_class_defs skip_whitespace_def scope_follows_def split: list.splits)
  then show "r = [] \<or> \<not> is_identifier_char (hd r)" "skip_whitespace b r = (b, r)" "scope_follows b r = None" by auto
qed

lemma scan_name:
  assumes "name_ok n" "r = [] \<or> \<not> is_identifier_char (hd r)"
  shows "scan_identifier bef (n @ r) = (n, rev n @ bef, r)"
proof -
  obtain c cs where n: "n = c # cs" "list_all is_identifier_char cs" using assms by (cases n) (auto simp: name_ok_def)
  have "takeWhile is_identifier_char (cs @ r) = cs" "dropWhile is_identifier_char (cs @ r) = r"
    using n(2) assms(2) by (auto simp: list_all_iff takeWhile_append dropWhile_append dest: hd_in_set split: if_splits)
       (cases r; simp)+
  then show ?thesis by (simp add: scan_identifier_def n)
qed

lemma scope_loop_end: "name_ends r \<Longrightarrow> scope_loop n b r = (n, b, r)"
  by (simp add: scope_loop.simps name_endsD)

lemma scope_loop_gentest:
  assumes "name_ok n" "name_ends r"
  shows "scope_loop ''gentest'' b (''::'' @ n @ r) = (n, rev (''::'' @ n) @ b, r)"
proof -
  obtain c cs where n: "n = c # cs" "name_start c" using assms(1) by (cases n) (auto simp: name_ok_def)
  have "\<not> isspace c" using n(2) identifier_charD name_startD by blast
  then have "scope_follows b (''::'' @ n @ r) = Some (''::'' @ b, n @ r)"
    using n by (simp add: scope_follows_def skip_whitespace_def isspace_def[of "CHR '':''"])
  then show ?thesis using scan_name[OF assms(1) name_endsD(1)[OF assms(2)]] scope_loop_end[OF assms(2)]
    by (subst scope_loop.simps) simp
qed

subsection \<open>The round trip\<close>

lemma attribute_args_print:
  assumes "list_all arg_ok as" "r = [] \<or> hd r = CHR '',''"
  shows "attribute_args b ((if as = [] then [] else ''('' @ join_comma (map arg_text as) @ '')'') @ r)
    = (map arg_value as, rev (if as = [] then [] else ''('' @ join_comma (map arg_text as) @ '')'') @ b, r)"
proof (cases "as = []")
  case True
  then show ?thesis using assms(2) by (cases r) (auto simp: attribute_args_def)
next
  case False
  then show ?thesis using scan_args[OF assms(1) False] split_arguments_join[OF assms(1)]
    by (simp add: attribute_args_def del: args_scan.simps)
qed

lemma parse_attribute_print:
  assumes ok: "written_ok a" and r: "r = [] \<or> (\<exists>r'. r = CHR '','' # r')"
  shows "\<exists>b'. parse_attribute b (written_text a @ r) = (written_attribute a, b', drop 1 r)"
proof -
  let ?n = "wr_name a" and ?t = "(if wr_args a = [] then [] else ''('' @ join_comma (map arg_text (wr_args a)) @ '')'')"
  have n: "name_ok ?n" and as: "list_all arg_ok (wr_args a)" using ok by (auto simp: written_ok_def)
  have ends: "name_ends (?t @ r)" using r by (auto simp: name_ends_def)
  have id: "?t @ r = [] \<or> \<not> is_identifier_char (hd (?t @ r))" by (rule name_endsD(1)[OF ends])
  obtain w b1 r1 b2 where scope: "scan_identifier b (written_text a @ r) = (w, b1, r1)" "scope_loop w b1 r1 = (?n, b2, ?t @ r)"
  proof (cases "wr_scoped a")
    case True
    have g: "name_ok ''gentest''" by (simp add: name_ok_def char_class_defs)
    show ?thesis using that[of "''gentest''"] scan_name[OF g, of "''::'' @ ?n @ ?t @ r" b] scope_loop_gentest[OF n ends] True
      by (simp add: written_text_def char_class_defs)
  next
    case False
    then show ?thesis using that scan_name[OF n id] scope_loop_end[OF ends] by (simp add: written_text_def)
  qed
  have args: "attribute_args b2 (?t @ r) = (map arg_value (wr_args a), rev ?t @ b2, r)"
    using attribute_args_print[OF as] r by auto
  have "snd (end_attribute (rev ?t @ b2) r) = drop 1 r"
    using r by (auto simp: end_attribute_def skip_whitespace_def isspace_def)
  then obtain b' where "end_attribute (rev ?t @ b2) r = (b', drop 1 r)" by (metis prod.collapse)
  then show ?thesis using scope args name_endsD(2)[OF ends] by (simp add: parse_attribute_def written_attribute_def)
qed

lemma written_text_start: "written_ok a \<Longrightarrow> \<exists>c cs. written_text a = c # cs \<and> name_start c"
  by (cases "wr_name a") (auto simp: written_ok_def name_ok_def written_text_def char_class_defs(7) isalpha_def)

lemma attribute_loop_step:
  assumes "written_ok a" "r = [] \<or> (\<exists>r'. r = CHR '','' # r')" "s = [] \<or> s = '' ''"
  shows "\<exists>b'. attribute_loop b (s @ written_text a @ r) = written_attribute a # attribute_loop b' (drop 1 r)"
proof -
  obtain c cs where c: "written_text a = c # cs" "name_start c" using written_text_start assms(1) by blast
  have sp: "\<not> isspace c" "c \<noteq> CHR '',''" using identifier_charD name_startD c(2) by blast+
  have "skip_whitespace b (s @ c # cs @ r) = (rev s @ b, c # cs @ r)"
    using assms(3) sp(1) by (auto simp: skip_whitespace_def isspace_def[of "CHR '' ''"])
  moreover obtain b' where "parse_attribute (rev s @ b) (c # cs @ r) = (written_attribute a, b', drop 1 r)"
    using parse_attribute_print[OF assms(1,2), of "rev s @ b"] c by auto
  ultimately show ?thesis using c sp by (subst attribute_loop.simps) auto
qed

lemma attribute_loop_print:
  "list_all written_ok ats \<Longrightarrow> s = [] \<or> s = '' '' \<Longrightarrow> attribute_loop b (s @ attribute_text ats) = map written_attribute ats"
proof (induction ats arbitrary: s b)
  case Nil
  then show ?case by (auto simp: attribute_text_def attribute_loop.simps skip_whitespace_def isspace_def)
next
  case (Cons a ats)
  let ?r = "if ats = [] then [] else '', '' @ attribute_text ats"
  have "attribute_text (a # ats) = written_text a @ ?r" by (cases ats) (simp_all add: attribute_text_def)
  moreover have "\<exists>b'. attribute_loop b (s @ written_text a @ ?r) = written_attribute a # attribute_loop b' (drop 1 ?r)"
    using attribute_loop_step[of a ?r s b] Cons.prems by auto
  moreover have "attribute_loop b' (drop 1 ?r) = map written_attribute ats" for b'
    using Cons.IH[of "'' ''" b'] Cons.prems by (cases ats) (auto simp: attribute_loop.simps skip_whitespace_def)
  ultimately show ?case by auto
qed

text \<open>
  C37. The attribute parser reads back what is written: for every list of attributes with valid
  names, with or without the scope gentest::, whose arguments are quoted strings with arbitrary
  bytes or plain tokens, parsing the printed list gives the names and argument values in order.
\<close>

theorem attribute_list_roundtrip:
  assumes "list_all written_ok ats"
  shows "parse_attribute_list (attribute_text ats) = map written_attribute ats"
  using attribute_loop_print[of ats "[]" "[]"] assms by (simp add: parse_attribute_list_def)

theorem attribute_list_roundtrip_witness:
  "parse_attribute_list (attribute_text
      [\<lparr>wr_scoped = True, wr_name = ''test'', wr_args = [Quoted ''a, b)'']\<rparr>, \<lparr>wr_scoped = False, wr_name = ''items_per_call'', wr_args = [Plain ''1024'']\<rparr>])
    = [\<lparr>pa_name = ''test'', pa_arguments = [''a, b)'']\<rparr>, \<lparr>pa_name = ''items_per_call'', pa_arguments = [''1024'']\<rparr>]"
  by (subst attribute_list_roundtrip) (simp_all add: written_ok_def name_ok_def char_class_defs written_attribute_def)

text \<open>
  A raw string argument that contains a quotation mark is not one argument: the scan for the
  closing parenthesis knows raw strings, the splitting of the arguments does not, so the comma in
  the literal separates two arguments.
\<close>

theorem raw_string_argument_is_split:
  "parse_attribute_list (''test(R'' @ [DQ] @ ''x('' @ [DQ] @ ''a,b'' @ [DQ] @ '')x'' @ [DQ] @ '')'')
    = [\<lparr>pa_name = ''test'', pa_arguments = [''R'' @ [DQ] @ ''x('' @ [DQ] @ ''a'', ''b'' @ [DQ] @ '')x'' @ [DQ]]\<rparr>]"
  by code_simp

subsection \<open>Names\<close>

fun join_scopes :: "string list \<Rightarrow> string" where
  "join_scopes [] = []"
| "join_scopes [p] = p"
| "join_scopes (p # q # ps) = p @ ''::'' @ join_scopes (q # ps)"

definition qualified_name :: "string \<Rightarrow> bool" where
  "qualified_name n \<longleftrightarrow> (\<exists>ps. ps \<noteq> [] \<and> list_all name_ok ps \<and> n = join_scopes ps \<and> (length ps > 1 \<longrightarrow> hd ps \<noteq> ''gentest''))"

lemma join_scopes_snoc: "ps \<noteq> [] \<Longrightarrow> join_scopes (ps @ [p]) = join_scopes ps @ ''::'' @ p"
  by (induction ps rule: join_scopes.induct) simp_all

lemma qualified_nameI: "name_ok n \<Longrightarrow> qualified_name n"
  unfolding qualified_name_def by (rule exI[of _ "[n]"]) simp

lemma qualified_name_scope:
  assumes "qualified_name n" "n \<noteq> ''gentest''" "name_ok p"
  shows "qualified_name (n @ ''::'' @ p)"
proof -
  obtain ps where ps: "ps \<noteq> []" "list_all name_ok ps" "n = join_scopes ps" "length ps > 1 \<longrightarrow> hd ps \<noteq> ''gentest''"
    using assms(1) by (auto simp: qualified_name_def)
  have "hd ps \<noteq> ''gentest''" using ps assms(2) by (cases ps rule: join_scopes.cases) auto
  then have "hd (ps @ [p]) \<noteq> ''gentest''" using ps(1) by simp
  then show ?thesis unfolding qualified_name_def using ps assms(3)
    by (intro exI[of _ "ps @ [p]"]) (simp add: join_scopes_snoc)
qed

lemma scan_identifier_name: "rest \<noteq> [] \<Longrightarrow> name_start (hd rest) \<Longrightarrow> scan_identifier b rest = (w, b', r) \<Longrightarrow> name_ok w"
  by (auto simp: scan_identifier_def name_ok_def list_all_iff Let_def dest: set_takeWhileD)

lemma scope_loop_name: "qualified_name name \<Longrightarrow> scope_loop name b rest = (n, b', r) \<Longrightarrow> qualified_name n"
proof (induction name b rest rule: scope_loop.induct)
  case (1 name bef rest)
  show ?case
  proof (cases "scope_follows bef rest")
    case None
    then show ?thesis using "1.prems" by (simp add: scope_loop.simps)
  next
    case (Some p)
    obtain b1 r1 scoped b2 r2 where p: "p = (b1, r1)" "scan_identifier b1 r1 = (scoped, b2, r2)" by (metis prod_cases3 surj_pair)
    have "name_ok scoped" using scan_identifier_name p(2) scope_follows_shorter Some p(1) by blast
    then have "qualified_name (if name = ''gentest'' then scoped else name @ ''::'' @ scoped)"
      using qualified_name_scope qualified_nameI "1.prems"(1) by simp
    then show ?thesis using "1.IH"[OF Some p(1)[symmetric] p(2)[symmetric] refl] "1.prems"(2) Some p
      by (simp add: scope_loop.simps[of name])
  qed
qed

lemma parse_attribute_name:
  "rest \<noteq> [] \<Longrightarrow> name_start (hd rest) \<Longrightarrow> parse_attribute b rest = (a, b', r) \<Longrightarrow> qualified_name (pa_name a)"
  using scope_loop_name qualified_nameI scan_identifier_name
  by (auto simp: parse_attribute_def split: prod.splits) blast

lemma attribute_loop_names: "list_all (\<lambda>a. qualified_name (pa_name a)) (attribute_loop bef rest)"
proof (induction bef rest rule: attribute_loop.induct)
  case (1 bef rest)
  obtain b s where s: "skip_whitespace bef rest = (b, s)" by force
  show ?case
  proof (cases s)
    case (Cons c cs)
    obtain a b' r' where p: "parse_attribute b (c # cs) = (a, b', r')" by (metis prod_cases3)
    show ?thesis using 1[OF s[symmetric] Cons] s Cons p parse_attribute_name[OF _ _ p]
      by (subst attribute_loop.simps) auto
  qed (use s in \<open>simp add: attribute_loop.simps\<close>)
qed

text \<open>
  Whatever the text, every attribute that the parser returns is named by identifiers joined
  with ::, and the scope gentest never remains in front of a name.
\<close>

theorem attribute_names_well_formed: "list_all (\<lambda>a. qualified_name (pa_name a)) (parse_attribute_list text)"
  by (simp add: parse_attribute_list_def attribute_loop_names)

end
