(* ===== verification/Attr_Validate.thy ===== *)
theory Attr_Validate
  imports Attr_Parse Cli Case_Api
begin

section \<open>Validation of attributes: \<^verbatim>\<open>tools/src/validate.cpp\<close>\<close>

text \<open>
  The attributes of a function, a fixture type or a namespace are checked one after the other; the
  state holds the summary, what has been seen and the messages reported so far.  The helpers that
  \<^verbatim>\<open>validate.cpp\<close> repeats from \<^verbatim>\<open>parse_core.cpp\<close> are those of theory \<open>Attr_Parse\<close>, and the loop of
  \<^verbatim>\<open>parse_positive_u64\<close> is that of the command line parser.
\<close>

subsection \<open>Rules and helpers\<close>

definition is_allowed_value_attribute :: "string \<Rightarrow> bool" where
  "is_allowed_value_attribute name \<longleftrightarrow> name \<in> set [''owner'']"

definition is_allowed_flag_attribute :: "string \<Rightarrow> bool" where
  "is_allowed_flag_attribute name \<longleftrightarrow> name \<in> set [''fast'', ''slow'', ''linux'', ''windows'', ''death'']"

definition is_allowed_fixture_attribute :: "string \<Rightarrow> bool" where
  "is_allowed_fixture_attribute name \<longleftrightarrow> name \<in> set [''fixture'']"

definition add_unique :: "string list \<Rightarrow> string \<Rightarrow> string list" where
  "add_unique values value = (if value \<in> set values then values else values @ [value])"

definition parse_positive_u64 :: "string \<Rightarrow> u64 option" where
  "parse_positive_u64 text =
     (if text = [] \<or> length text > 1 \<and> hd text = CHR ''0'' then None
      else case parse_u64_loop 0 text of U64Ok v \<Rightarrow> if v = 0 then None else Some v | _ \<Rightarrow> None)"

definition lowered :: "ParsedAttribute \<Rightarrow> string" where
  "lowered a = map ascii_lower (pa_name a)"

text \<open>\<^verbatim>\<open>find(':')\<close> and \<^verbatim>\<open>rfind(':')\<close>: the text before the first colon, between the two, after the last.\<close>

definition split_range :: "string \<Rightarrow> (string \<times> string \<times> string) option" where
  "split_range expr =
     (let start = takeWhile (\<lambda>c. c \<noteq> CHR '':'') expr; rest = drop (length start + 1) expr
      in if CHR '':'' \<notin> set expr \<or> CHR '':'' \<notin> set rest then None
         else let end_part = rev (takeWhile (\<lambda>c. c \<noteq> CHR '':'') (rev rest))
              in Some (start, take (length rest - length end_part - 1) rest, end_part))"

definition blank :: "char \<Rightarrow> bool" where
  "blank c \<longleftrightarrow> c = CHR '' '' \<or> c = TAB \<or> c = LF \<or> c = CR"

definition push_tuple_item :: "string \<Rightarrow> string list \<Rightarrow> string list" where
  "push_tuple_item cur out =
     (let item = rev (dropWhile blank (rev (dropWhile blank cur))) in if item = [] then out else out @ [item])"

definition parse_tuple :: "string \<Rightarrow> string list" where
  "parse_tuple text =
     (let s = (if text \<noteq> [] \<and> hd text = CHR ''('' \<and> last text = CHR '')'' then butlast (tl text) else text)
      in split_list push_tuple_item s)"

definition joined_arguments :: "string list \<Rightarrow> string" where
  "joined_arguments args = join_comma (map (\<lambda>x. DQ # x @ [DQ]) args)"

subsection \<open>Summaries\<close>

record TemplateBindingSet =
  tb_param_name :: string
  tb_candidates :: "string list"

record ParamSet =
  ps_param_name :: string
  ps_values :: "string list"

record RangeSpec =
  rg_name :: string
  rg_start :: string
  rg_step :: string
  rg_end :: string

record LinspaceSpec =
  li_name :: string
  li_start :: string
  li_end :: string
  li_count :: string

record GeomSpec =
  ge_name :: string
  ge_start :: string
  ge_factor :: string
  ge_count :: string

record LogspaceSpec =
  lo_name :: string
  lo_start_exp :: string
  lo_end_exp :: string
  lo_count :: string
  lo_base :: string

record ParamPack =
  pk_names :: "string list"
  pk_rows :: "string list list"

record AttributeSummary =
  as_is_case :: bool
  as_case_name :: "string option"
  as_tags :: "string list"
  as_requirements :: "string list"
  as_should_skip :: bool
  as_skip_reason :: string
  as_had_error :: bool
  as_is_benchmark :: bool
  as_is_jitter :: bool
  as_is_baseline :: bool
  as_items_per_call :: u64
  as_template_sets :: "TemplateBindingSet list"
  as_parameter_sets :: "ParamSet list"
  as_ranges :: "RangeSpec list"
  as_linspaces :: "LinspaceSpec list"
  as_geoms :: "GeomSpec list"
  as_logspaces :: "LogspaceSpec list"
  as_param_packs :: "ParamPack list"
  as_owner :: "string option"

record validation = AttributeSummary +
  va_saw_case :: bool
  va_saw_test :: bool
  va_saw_bench :: bool
  va_saw_jitter :: bool
  va_saw_items :: bool
  va_seen_flags :: "string set"
  va_seen_owner :: "string option"
  va_reports :: "string list"

definition init_validation :: validation where
  "init_validation = \<lparr>as_is_case = False, as_case_name = None, as_tags = [], as_requirements = [], as_should_skip = False,
     as_skip_reason = [], as_had_error = False, as_is_benchmark = False, as_is_jitter = False, as_is_baseline = False,
     as_items_per_call = 1, as_template_sets = [], as_parameter_sets = [], as_ranges = [], as_linspaces = [], as_geoms = [],
     as_logspaces = [], as_param_packs = [], as_owner = None, va_saw_case = False, va_saw_test = False, va_saw_bench = False,
     va_saw_jitter = False, va_saw_items = False, va_seen_flags = {}, va_seen_owner = None, va_reports = []\<rparr>"

definition reject :: "string \<Rightarrow> validation \<Rightarrow> validation" where
  "reject msg s = s\<lparr>as_had_error := True, va_reports := va_reports s @ [msg]\<rparr>"

subsection \<open>Attributes of functions\<close>

definition on_test :: "string list \<Rightarrow> validation \<Rightarrow> validation" where
  "on_test args s =
     (if va_saw_test s then reject (''duplicate gentest attribute 'test'' @ [SQ]) s
      else let s1 = s\<lparr>va_saw_case := True, va_saw_test := True\<rparr>
           in if args = [] then s1
              else if length args \<noteq> 1 \<or> trim_copy (hd args) = []
              then reject '''test' takes zero arguments (default name) or exactly one non-empty string argument'' s1
              else s1\<lparr>as_case_name := Some (trim_copy (hd args))\<rparr>)"

definition on_bench :: "string list \<Rightarrow> validation \<Rightarrow> validation" where
  "on_bench args s =
     (if va_saw_bench s then reject (''duplicate gentest attribute 'bench'' @ [SQ]) s
      else let s1 = s\<lparr>va_saw_case := True, va_saw_bench := True\<rparr>
           in if length args \<noteq> 1 \<or> hd args = [] then reject '''bench' requires exactly one non-empty string argument'' s1
              else s1\<lparr>as_case_name := Some (hd args), as_is_benchmark := True\<rparr>)"

definition on_baseline :: "string list \<Rightarrow> validation \<Rightarrow> validation" where
  "on_baseline args s = (if args \<noteq> [] then reject '''baseline' does not take arguments'' s else s\<lparr>as_is_baseline := True\<rparr>)"

definition on_jitter :: "string list \<Rightarrow> validation \<Rightarrow> validation" where
  "on_jitter args s =
     (if va_saw_jitter s then reject (''duplicate gentest attribute 'jitter'' @ [SQ]) s
      else let s1 = s\<lparr>va_saw_case := True, va_saw_jitter := True\<rparr>
           in if length args \<noteq> 1 \<or> hd args = [] then reject '''jitter' requires exactly one non-empty string argument'' s1
              else s1\<lparr>as_case_name := Some (hd args), as_is_jitter := True\<rparr>)"

definition on_items :: "string \<Rightarrow> string list \<Rightarrow> validation \<Rightarrow> validation" where
  "on_items n args s =
     (if va_saw_items s then reject ''duplicate measured item-count attribute'' s
      else let s1 = s\<lparr>va_saw_items := True\<rparr>; msg = [SQ] @ n @ [SQ] @ '' requires exactly one positive integer argument''
           in if length args \<noteq> 1 then reject msg s1
              else case parse_positive_u64 (trim_copy (hd args)) of
                     None \<Rightarrow> reject msg s1
                   | Some v \<Rightarrow> s1\<lparr>as_items_per_call := v\<rparr>)"

definition on_req :: "string list \<Rightarrow> validation \<Rightarrow> validation" where
  "on_req args s =
     (if args = [] then reject '''req' requires at least one string argument'' s
      else s\<lparr>as_requirements := foldl add_unique (as_requirements s) args, va_saw_case := True\<rparr>)"

definition on_skip :: "string list \<Rightarrow> validation \<Rightarrow> validation" where
  "on_skip args s =
     (let s1 = s\<lparr>as_should_skip := True, va_saw_case := True\<rparr>
      in if args = [] then s1 else s1\<lparr>as_skip_reason := join_comma args\<rparr>)"

definition on_template :: "string list \<Rightarrow> validation \<Rightarrow> validation" where
  "on_template args s =
     (if length args < 2 then reject '''template' requires a parameter name and at least one binding'' s
      else let s1 = s\<lparr>va_saw_case := True\<rparr>; param = trim_copy (hd args); bindings = tl args
           in if param = [] then reject '''template' parameter name must be non-empty'' s1
              else if \<exists>p \<in> set (as_template_sets s1). tb_param_name p = param
              then reject ''duplicate 'template' attribute for the same parameter'' s1
              else if bindings = [] then reject '''template' requires at least one binding'' s1
              else s1\<lparr>as_template_sets := as_template_sets s1 @ [\<lparr>tb_param_name = param, tb_candidates = bindings\<rparr>]\<rparr>)"

definition on_parameters :: "string list \<Rightarrow> validation \<Rightarrow> validation" where
  "on_parameters args s =
     (if length args < 2 then reject '''parameters' requires a parameter name and at least one value'' s
      else s\<lparr>as_parameter_sets := as_parameter_sets s @ [\<lparr>ps_param_name = hd args, ps_values = tl args\<rparr>], va_saw_case := True\<rparr>)"

definition on_range :: "string list \<Rightarrow> validation \<Rightarrow> validation" where
  "on_range args s =
     (if length args < 2
      then reject ('''parameters_range' requires (name, start, step, end) or (name, '' @ [DQ] @ ''start:step:end'' @ [DQ] @ '')'') s
      else let s1 = s\<lparr>va_saw_case := True\<rparr>
           in if length args = 2
              then case split_range (args ! 1) of
                     None \<Rightarrow> reject '''parameters_range' second argument must be of the form start:step:end'' s1
                   | Some (a, b, c) \<Rightarrow> s1\<lparr>as_ranges := as_ranges s1 @ [\<lparr>rg_name = hd args, rg_start = a, rg_step = b, rg_end = c\<rparr>]\<rparr>
              else if length args = 4
              then s1\<lparr>as_ranges := as_ranges s1 @ [\<lparr>rg_name = hd args, rg_start = args ! 1, rg_step = args ! 2, rg_end = args ! 3\<rparr>]\<rparr>
              else reject '''parameters_range' requires exactly 2 or 4 arguments'' s1)"

definition on_linspace :: "string list \<Rightarrow> validation \<Rightarrow> validation" where
  "on_linspace args s =
     (if length args \<noteq> 4 then reject '''parameters_linspace' requires (name, start, end, count)'' s
      else s\<lparr>as_linspaces := as_linspaces s @ [\<lparr>li_name = args ! 0, li_start = args ! 1, li_end = args ! 2, li_count = args ! 3\<rparr>],
             va_saw_case := True\<rparr>)"

definition on_geom :: "string list \<Rightarrow> validation \<Rightarrow> validation" where
  "on_geom args s =
     (if length args \<noteq> 4 then reject '''geom' requires (name, start, factor, count)'' s
      else s\<lparr>as_geoms := as_geoms s @ [\<lparr>ge_name = args ! 0, ge_start = args ! 1, ge_factor = args ! 2, ge_count = args ! 3\<rparr>],
             va_saw_case := True\<rparr>)"

definition on_logspace :: "string list \<Rightarrow> validation \<Rightarrow> validation" where
  "on_logspace args s =
     (if length args \<noteq> 4 \<and> length args \<noteq> 5 then reject '''logspace' requires (name, startExp, endExp, count[, base])'' s
      else s\<lparr>as_logspaces := as_logspaces s @ [\<lparr>lo_name = args ! 0, lo_start_exp = args ! 1, lo_end_exp = args ! 2, lo_count = args ! 3,
               lo_base = (if length args = 5 then args ! 4 else [])\<rparr>],
             va_saw_case := True\<rparr>)"

text \<open>The value tuples of a pack: those of the right arity are kept, the others are reported.\<close>

definition on_pack_row :: "nat \<Rightarrow> string list list \<times> validation \<Rightarrow> string \<Rightarrow> string list list \<times> validation" where
  "on_pack_row arity rs arg =
     (case rs of (rows, s) \<Rightarrow>
        let row = parse_tuple arg
        in if length row \<noteq> arity then (rows, reject '''parameters_pack' value tuple arity mismatch'' s) else (rows @ [row], s))"

definition on_pack :: "string list \<Rightarrow> validation \<Rightarrow> validation" where
  "on_pack args s =
     (if length args < 2 then reject '''parameters_pack' requires a parameter name tuple and at least one value tuple'' s
      else let s1 = s\<lparr>va_saw_case := True\<rparr>; names = parse_tuple (hd args)
           in if names = [] then reject '''parameters_pack' first tuple must list at least one parameter name'' s1
              else case foldl (on_pack_row (length names)) ([], s1) (tl args) of (rows, s2) \<Rightarrow>
                     if rows = [] then reject '''parameters_pack' requires at least one value tuple'' s2
                     else s2\<lparr>as_param_packs := as_param_packs s2 @ [\<lparr>pk_names = names, pk_rows = rows\<rparr>]\<rparr>)"

definition on_flag :: "ParsedAttribute \<Rightarrow> validation \<Rightarrow> validation" where
  "on_flag a s =
     (let n = lowered a
      in if \<not> is_allowed_flag_attribute n then reject (''unknown gentest attribute '' @ [SQ] @ pa_name a @ [SQ]) s
         else let s1 = s\<lparr>va_saw_case := True\<rparr>
              in if n \<in> va_seen_flags s1 then reject (''duplicate gentest flag attribute '' @ [SQ] @ pa_name a @ [SQ]) s1
                 else if n = ''linux'' \<and> ''windows'' \<in> va_seen_flags s1 \<or> n = ''windows'' \<and> ''linux'' \<in> va_seen_flags s1
                 then reject (''conflicting gentest flags 'linux' and 'windows'' @ [SQ]) s1
                 else s1\<lparr>as_tags := add_unique (as_tags s1) (pa_name a), va_seen_flags := insert n (va_seen_flags s1)\<rparr>)"

definition on_value :: "ParsedAttribute \<Rightarrow> validation \<Rightarrow> validation" where
  "on_value a s =
     (let n = lowered a; args = pa_arguments a
      in if \<not> is_allowed_value_attribute n
         then reject (''unknown gentest attribute '' @ [SQ] @ pa_name a @ [SQ] @ '' with argument'' @ (if length args = 1 then [] else ''s'')
                      @ '' ('' @ joined_arguments args @ '')'') s
         else if n = ''owner''
         then if length args \<noteq> 1 then reject ([SQ] @ n @ [SQ] @ '' requires exactly one string argument'') s
              else if va_seen_owner s \<noteq> None then reject (''duplicate '' @ [SQ] @ n @ [SQ] @ '' attribute'') s
              else s\<lparr>as_tags := add_unique (as_tags s) (pa_name a @ ''='' @ hd args), as_owner := Some (hd args),
                     va_saw_case := True, va_seen_owner := Some (hd args)\<rparr>
         else s)"

definition validate_attribute :: "validation \<Rightarrow> ParsedAttribute \<Rightarrow> validation" where
  "validate_attribute s a =
     (let n = lowered a; args = pa_arguments a
      in if n = ''test'' then on_test args s
         else if n = ''bench'' \<or> n = ''benchmark'' then on_bench args s
         else if n = ''baseline'' then on_baseline args s
         else if n = ''jitter'' then on_jitter args s
         else if n = ''items_per_call'' \<or> n = ''ops_per_call'' then on_items n args s
         else if n = ''req'' \<or> n = ''requires'' then on_req args s
         else if n = ''skip'' then on_skip args s
         else if n = ''template'' then on_template args s
         else if n = ''parameters'' then on_parameters args s
         else if n = ''range'' then on_range args s
         else if n = ''linspace'' then on_linspace args s
         else if n = ''geom'' \<or> n = ''geomspace'' \<or> n = ''geospace'' then on_geom args s
         else if n = ''logspace'' then on_logspace args s
         else if n = ''parameters_pack'' then on_pack args s
         else if n = ''fixtures'' then reject '''fixtures(...)' was removed; infer fixtures from function parameters instead'' s
         else if args = [] then on_flag a s
         else on_value a s)"

definition finish_validation :: "validation \<Rightarrow> validation" where
  "finish_validation s =
     (let measured = as_is_benchmark s \<or> as_is_jitter s;
          s1 = (if as_is_baseline s \<and> \<not> measured then reject '''baseline' requires 'bench' or 'jitter' on the same declaration'' s else s);
          s2 = (if va_saw_items s1 \<and> \<not> measured
                then reject '''items_per_call'/'ops_per_call' requires 'bench' or 'jitter' on the same declaration'' s1 else s1)
      in s2\<lparr>as_is_case := va_saw_case s2\<rparr>)"

definition validate_attributes :: "ParsedAttribute list \<Rightarrow> validation" where
  "validate_attributes parsed = finish_validation (foldl validate_attribute init_validation parsed)"

subsection \<open>Which declarations are accepted\<close>

text \<open>What an attribute must satisfy on its own, and the key that may appear only once.\<close>

definition pack_ok :: "string list \<Rightarrow> bool" where
  "pack_ok args \<longleftrightarrow> length args \<ge> 2 \<and> parse_tuple (hd args) \<noteq> []
     \<and> list_all (\<lambda>row. length (parse_tuple row) = length (parse_tuple (hd args))) (tl args)"

definition attribute_ok :: "ParsedAttribute \<Rightarrow> bool" where
  "attribute_ok a =
     (let n = lowered a; args = pa_arguments a
      in if n = ''test'' then args = [] \<or> length args = 1 \<and> trim_copy (hd args) \<noteq> []
         else if n \<in> {''bench'', ''benchmark'', ''jitter''} then length args = 1 \<and> hd args \<noteq> []
         else if n = ''baseline'' then args = []
         else if n \<in> {''items_per_call'', ''ops_per_call''} then length args = 1 \<and> parse_positive_u64 (trim_copy (hd args)) \<noteq> None
         else if n \<in> {''req'', ''requires''} then args \<noteq> []
         else if n = ''skip'' then True
         else if n = ''template'' then length args \<ge> 2 \<and> trim_copy (hd args) \<noteq> []
         else if n = ''parameters'' then length args \<ge> 2
         else if n = ''range'' then length args = 4 \<or> length args = 2 \<and> split_range (args ! 1) \<noteq> None
         else if n \<in> {''linspace'', ''geom'', ''geomspace'', ''geospace''} then length args = 4
         else if n = ''logspace'' then length args = 4 \<or> length args = 5
         else if n = ''parameters_pack'' then pack_ok args
         else if args = [] then is_allowed_flag_attribute n
         else n = ''owner'' \<and> length args = 1)"

datatype attribute_key = Key string | Flag_Key string | Template_Key string

definition attribute_keys :: "ParsedAttribute \<Rightarrow> attribute_key list" where
  "attribute_keys a =
     (let n = lowered a
      in if n = ''benchmark'' then [Key ''bench''] else if n = ''ops_per_call'' then [Key ''items_per_call'']
         else if n = ''template'' then [Template_Key (trim_copy (hd (pa_arguments a)))]
         else if is_allowed_flag_attribute n then [Flag_Key n]
         else if n \<in> {''test'', ''bench'', ''jitter'', ''items_per_call'', ''owner''} then [Key n]
         else [])"

definition declares :: "string list \<Rightarrow> ParsedAttribute list \<Rightarrow> bool" where
  "declares names parsed \<longleftrightarrow> (\<exists>a \<in> set parsed. lowered a \<in> set names)"

definition declaration_ok :: "ParsedAttribute list \<Rightarrow> bool" where
  "declaration_ok parsed \<longleftrightarrow>
     list_all attribute_ok parsed \<and> distinct (concat (map attribute_keys parsed))
     \<and> \<not> (declares [''linux''] parsed \<and> declares [''windows''] parsed)
     \<and> (declares [''baseline'', ''items_per_call'', ''ops_per_call''] parsed \<longrightarrow> declares [''bench'', ''benchmark'', ''jitter''] parsed)"

definition seen :: "validation \<Rightarrow> attribute_key set" where
  "seen s = {k. k = Key ''test'' \<and> va_saw_test s \<or> k = Key ''bench'' \<and> va_saw_bench s \<or> k = Key ''jitter'' \<and> va_saw_jitter s
     \<or> k = Key ''items_per_call'' \<and> va_saw_items s \<or> k = Key ''owner'' \<and> va_seen_owner s \<noteq> None}
   \<union> Flag_Key ` va_seen_flags s \<union> (Template_Key \<circ> tb_param_name) ` set (as_template_sets s)"

definition clash :: "ParsedAttribute \<Rightarrow> validation \<Rightarrow> bool" where
  "clash a s \<longleftrightarrow> set (attribute_keys a) \<inter> seen s \<noteq> {}
     \<or> lowered a = ''linux'' \<and> ''windows'' \<in> va_seen_flags s \<or> lowered a = ''windows'' \<and> ''linux'' \<in> va_seen_flags s"

lemma reject_fields [simp]:
  "as_had_error (reject m s)" "va_reports (reject m s) = va_reports s @ [m]"
  by (simp_all add: reject_def)

lemma on_pack_row_cases:
  "length (parse_tuple a) = n \<Longrightarrow> on_pack_row n (rows, s) a = (rows @ [parse_tuple a], s)"
  "length (parse_tuple a) \<noteq> n \<Longrightarrow> \<exists>m. on_pack_row n (rows, s) a = (rows, reject m s)"
  by (auto simp: on_pack_row_def Let_def)

lemma pack_rows_bad:
  "foldl (on_pack_row n) (rows, s) args = (rows', s') \<Longrightarrow> as_had_error s \<and> va_reports s \<noteq> [] \<or> \<not> list_all (\<lambda>r. length (parse_tuple r) = n) args \<Longrightarrow>
     as_had_error s' \<and> va_reports s' \<noteq> []"
proof (induction args arbitrary: rows s)
  case (Cons a args)
  show ?case
  proof (cases "length (parse_tuple a) = n")
    case True
    then show ?thesis using Cons on_pack_row_cases(1)[OF True] by simp
  next
    case False
    then obtain m where "on_pack_row n (rows, s) a = (rows, reject m s)" using on_pack_row_cases(2) by blast
    then show ?thesis using Cons by simp
  qed
qed auto

lemma pack_rows_ok:
  "list_all (\<lambda>r. length (parse_tuple r) = n) args \<Longrightarrow> foldl (on_pack_row n) (rows, s) args = (rows @ map parse_tuple args, s)"
  by (induction args arbitrary: rows) (simp_all add: on_pack_row_cases(1))

lemma on_pack_ok:
  assumes "pack_ok args"
  shows "on_pack args s = s\<lparr>va_saw_case := True,
     as_param_packs := as_param_packs s @ [\<lparr>pk_names = parse_tuple (hd args), pk_rows = map parse_tuple (tl args)\<rparr>]\<rparr>"
proof -
  have "tl args \<noteq> []" using assms by (cases args) (auto simp: pack_ok_def)
  then show ?thesis using assms by (simp add: on_pack_def pack_ok_def pack_rows_ok)
qed

lemma on_pack_bad:
  assumes "\<not> pack_ok args"
  shows "as_had_error (on_pack args s) \<and> va_reports (on_pack args s) \<noteq> []"
proof (cases "length args < 2 \<or> parse_tuple (hd args) = []")
  case True
  then show ?thesis by (auto simp: on_pack_def)
next
  case False
  obtain rows s2 where f: "foldl (on_pack_row (length (parse_tuple (hd args)))) ([], s\<lparr>va_saw_case := True\<rparr>) (tl args) = (rows, s2)" by force
  then have "as_had_error s2 \<and> va_reports s2 \<noteq> []" using pack_rows_bad[OF f] assms False by (auto simp: pack_ok_def)
  then show ?thesis using f False by (simp add: on_pack_def)
qed

text \<open>One attribute: an error exactly when the attribute is not acceptable or clashes.\<close>

lemmas handler_defs = on_test_def on_bench_def on_baseline_def on_jitter_def on_items_def on_req_def on_skip_def on_template_def
  on_parameters_def on_range_def on_linspace_def on_geom_def on_logspace_def on_flag_def on_value_def

lemma attribute_cases:
  obtains "lowered a = ''test''" | "lowered a = ''bench''" | "lowered a = ''benchmark''" | "lowered a = ''baseline''" | "lowered a = ''jitter''"
    | "lowered a = ''items_per_call''" | "lowered a = ''ops_per_call''" | "lowered a = ''req''" | "lowered a = ''requires''"
    | "lowered a = ''skip''" | (template) "lowered a = ''template''" | "lowered a = ''parameters''" | "lowered a = ''range''"
    | "lowered a = ''linspace''" | "lowered a = ''geom''" | "lowered a = ''geomspace''" | "lowered a = ''geospace''"
    | "lowered a = ''logspace''" | (pack) "lowered a = ''parameters_pack''" | (fixtures) "lowered a = ''fixtures''"
    | (other) "lowered a \<notin> {''test'', ''bench'', ''benchmark'', ''baseline'', ''jitter'', ''items_per_call'', ''ops_per_call'', ''req'', ''requires'',
        ''skip'', ''template'', ''parameters'', ''range'', ''linspace'', ''geom'', ''geomspace'', ''geospace'', ''logspace'', ''parameters_pack'', ''fixtures''}"
  by blast

text \<open>The step of an attribute that is none of the named ones.\<close>

lemma other_attribute:
  assumes "lowered a \<notin> {''test'', ''bench'', ''benchmark'', ''baseline'', ''jitter'', ''items_per_call'', ''ops_per_call'', ''req'', ''requires'',
        ''skip'', ''template'', ''parameters'', ''range'', ''linspace'', ''geom'', ''geomspace'', ''geospace'', ''logspace'', ''parameters_pack'', ''fixtures''}"
  shows "validate_attribute s a = (if pa_arguments a = [] then on_flag a s else on_value a s)"
    "attribute_ok a \<longleftrightarrow> (if pa_arguments a = [] then is_allowed_flag_attribute (lowered a) else lowered a = ''owner'' \<and> length (pa_arguments a) = 1)"
    "attribute_keys a = (if is_allowed_flag_attribute (lowered a) then [Flag_Key (lowered a)] else if lowered a = ''owner'' then [Key ''owner''] else [])"
  using assms by (simp_all add: validate_attribute_def attribute_ok_def attribute_keys_def)

lemma owner_no_flag [simp]: "\<not> is_allowed_flag_attribute ''owner''"
  by (simp add: is_allowed_flag_attribute_def)

lemma on_other_bad:
  assumes "\<not> (if pa_arguments a = [] then is_allowed_flag_attribute (lowered a) else lowered a = ''owner'' \<and> length (pa_arguments a) = 1)
     \<or> (if pa_arguments a = [] then lowered a \<in> va_seen_flags s \<or> lowered a = ''linux'' \<and> ''windows'' \<in> va_seen_flags s
          \<or> lowered a = ''windows'' \<and> ''linux'' \<in> va_seen_flags s
        else va_seen_owner s \<noteq> None)"
  shows "as_had_error (if pa_arguments a = [] then on_flag a s else on_value a s)
       \<and> va_reports (if pa_arguments a = [] then on_flag a s else on_value a s) \<noteq> []"
  using assms by (auto simp: on_flag_def on_value_def Let_def is_allowed_value_attribute_def)

lemma validate_attribute_bad:
  assumes "\<not> attribute_ok a \<or> clash a s"
  shows "as_had_error (validate_attribute s a) \<and> va_reports (validate_attribute s a) \<noteq> []"
proof (cases a rule: attribute_cases)
  case other
  have "\<not> attribute_ok a \<or> (if pa_arguments a = [] then lowered a \<in> va_seen_flags s \<or> lowered a = ''linux'' \<and> ''windows'' \<in> va_seen_flags s
          \<or> lowered a = ''windows'' \<and> ''linux'' \<in> va_seen_flags s
        else va_seen_owner s \<noteq> None)"
    using assms other_attribute(2,3)[OF other] by (auto simp: clash_def seen_def split: if_splits)
  then show ?thesis using on_other_bad[of a s] unfolding other_attribute[OF other] by blast
qed (use assms on_pack_bad in \<open>auto simp: validate_attribute_def attribute_ok_def clash_def attribute_keys_def seen_def Let_def
    handler_defs is_allowed_flag_attribute_def split: option.splits\<close>)

text \<open>The state after an acceptable attribute that does not clash.\<close>

lemma validate_attribute_good:
  assumes "attribute_ok a" "\<not> clash a s"
  defines "s' \<equiv> validate_attribute s a"
  shows "as_had_error s' = as_had_error s \<and> va_reports s' = va_reports s \<and> seen s' = seen s \<union> set (attribute_keys a)
    \<and> va_saw_case s' = (va_saw_case s \<or> lowered a \<notin> {''baseline'', ''items_per_call'', ''ops_per_call''})
    \<and> (as_is_baseline s' \<longleftrightarrow> as_is_baseline s \<or> lowered a = ''baseline'')
    \<and> (va_saw_items s' \<longleftrightarrow> va_saw_items s \<or> lowered a \<in> {''items_per_call'', ''ops_per_call''})
    \<and> (as_is_benchmark s' \<longleftrightarrow> as_is_benchmark s \<or> lowered a \<in> {''bench'', ''benchmark''})
    \<and> (as_is_jitter s' \<longleftrightarrow> as_is_jitter s \<or> lowered a = ''jitter'')
    \<and> va_seen_flags s' = va_seen_flags s \<union> {n. n = lowered a \<and> is_allowed_flag_attribute n}"
proof (cases a rule: attribute_cases)
  case other
  then show ?thesis using assms(1,2) unfolding s'_def other_attribute[OF other] clash_def
    by (auto simp: on_flag_def on_value_def Let_def seen_def is_allowed_value_attribute_def split: if_splits)
next
  case template
  have "tl (pa_arguments a) \<noteq> []" using assms(1) template by (cases "pa_arguments a") (auto simp: attribute_ok_def)
  moreover have "\<not> (\<exists>p \<in> set (as_template_sets s). tb_param_name p = trim_copy (hd (pa_arguments a)))"
    using assms(2) template by (force simp: clash_def attribute_keys_def seen_def)
  moreover have "length (pa_arguments a) \<ge> 2" "trim_copy (hd (pa_arguments a)) \<noteq> []"
    using assms(1) template by (simp_all add: attribute_ok_def Let_def)
  ultimately have "s' = s\<lparr>va_saw_case := True,
      as_template_sets := as_template_sets s @ [\<lparr>tb_param_name = trim_copy (hd (pa_arguments a)), tb_candidates = tl (pa_arguments a)\<rparr>]\<rparr>"
    using template by (simp add: s'_def validate_attribute_def on_template_def Let_def)
  moreover have "attribute_keys a = [Template_Key (trim_copy (hd (pa_arguments a)))]" "\<not> is_allowed_flag_attribute (lowered a)"
    using template by (simp_all add: attribute_keys_def is_allowed_flag_attribute_def)
  ultimately show ?thesis using template by (simp add: seen_def) blast
next
  case pack
  then show ?thesis using assms(1)
    by (auto simp: s'_def validate_attribute_def attribute_ok_def attribute_keys_def seen_def on_pack_ok is_allowed_flag_attribute_def)
next
  case fixtures
  then show ?thesis using assms(1) by (auto simp: attribute_ok_def is_allowed_flag_attribute_def split: if_splits)
qed (use assms(1,2) in \<open>auto simp: s'_def validate_attribute_def attribute_ok_def clash_def attribute_keys_def seen_def Let_def
    handler_defs is_allowed_flag_attribute_def split: option.splits prod.splits\<close>)

definition erroneous :: "validation \<Rightarrow> bool" where
  "erroneous s \<longleftrightarrow> as_had_error s \<and> va_reports s \<noteq> []"

definition clean :: "validation \<Rightarrow> bool" where
  "clean s \<longleftrightarrow> \<not> as_had_error s \<and> va_reports s = []"

lemma erroneous_step: "erroneous s \<or> \<not> attribute_ok a \<or> clash a s \<Longrightarrow> erroneous (validate_attribute s a)"
  using validate_attribute_bad[of a s] validate_attribute_good[of a s] unfolding erroneous_def
  by (cases "attribute_ok a \<and> \<not> clash a s") auto

lemma declares_snoc: "declares ns (parsed @ [a]) \<longleftrightarrow> declares ns parsed \<or> lowered a \<in> set ns"
  by (auto simp: declares_def)

definition no_clash :: "ParsedAttribute list \<Rightarrow> bool" where
  "no_clash parsed \<longleftrightarrow> list_all attribute_ok parsed \<and> distinct (concat (map attribute_keys parsed))
     \<and> \<not> (declares [''linux''] parsed \<and> declares [''windows''] parsed)"

text \<open>What the state records of the attributes processed so far.\<close>

definition records :: "ParsedAttribute list \<Rightarrow> validation \<Rightarrow> bool" where
  "records parsed s \<longleftrightarrow> clean s \<and> seen s = set (concat (map attribute_keys parsed))
     \<and> va_seen_flags s = {n. is_allowed_flag_attribute n \<and> declares [n] parsed}
     \<and> (va_saw_case s \<longleftrightarrow> (\<exists>a \<in> set parsed. lowered a \<notin> {''baseline'', ''items_per_call'', ''ops_per_call''}))
     \<and> (as_is_baseline s \<longleftrightarrow> declares [''baseline''] parsed)
     \<and> (va_saw_items s \<longleftrightarrow> declares [''items_per_call'', ''ops_per_call''] parsed)
     \<and> (as_is_benchmark s \<longleftrightarrow> declares [''bench'', ''benchmark''] parsed)
     \<and> (as_is_jitter s \<longleftrightarrow> declares [''jitter''] parsed)"

lemma records_clash:
  assumes "records parsed s" "no_clash parsed"
  shows "no_clash (parsed @ [a]) \<longleftrightarrow> attribute_ok a \<and> \<not> clash a s"
proof -
  have k: "distinct (attribute_keys a)" by (simp add: attribute_keys_def Let_def)
  have f: "''linux'' \<in> va_seen_flags s \<longleftrightarrow> declares [''linux''] parsed" "''windows'' \<in> va_seen_flags s \<longleftrightarrow> declares [''windows''] parsed"
    using assms(1) by (simp_all add: records_def is_allowed_flag_attribute_def)
  have "distinct (concat (map attribute_keys (parsed @ [a]))) \<longleftrightarrow> set (attribute_keys a) \<inter> seen s = {}"
    using k assms by (simp add: records_def no_clash_def Int_commute del: set_concat)
  then show ?thesis using assms(2) unfolding no_clash_def clash_def f declares_snoc list_all_append by fastforce
qed

lemma records_step:
  assumes "records parsed s" "attribute_ok a" "\<not> clash a s"
  shows "records (parsed @ [a]) (validate_attribute s a)"
  using assms(1) validate_attribute_good[OF assms(2,3)] unfolding records_def clean_def by (auto simp: declares_snoc)

lemma validate_fold:
  "if no_clash parsed then records parsed (foldl validate_attribute init_validation parsed)
   else erroneous (foldl validate_attribute init_validation parsed)"
proof (induction parsed rule: rev_induct)
  case Nil
  then show ?case by (simp add: no_clash_def records_def clean_def init_validation_def seen_def declares_def)
next
  case (snoc a parsed)
  let ?s = "foldl validate_attribute init_validation parsed"
  show ?case
  proof (cases "no_clash parsed")
    case True
    then have r: "records parsed ?s" using snoc by simp
    show ?thesis using records_clash[OF r True] records_step[OF r] erroneous_step[of ?s a] by auto
  next
    case False
    then have "\<not> no_clash (parsed @ [a])" by (auto simp: no_clash_def declares_snoc)
    then show ?thesis using False snoc erroneous_step by simp
  qed
qed

lemma declaration_ok_iff:
  "declaration_ok parsed \<longleftrightarrow> no_clash parsed
     \<and> (declares [''baseline''] parsed \<or> declares [''items_per_call'', ''ops_per_call''] parsed
        \<longrightarrow> declares [''bench'', ''benchmark''] parsed \<or> declares [''jitter''] parsed)"
  by (auto simp: declaration_ok_def no_clash_def declares_def)

lemma finish_erroneous: "erroneous s \<Longrightarrow> erroneous (finish_validation s)"
  by (auto simp: erroneous_def finish_validation_def Let_def)

lemma finish_records:
  assumes "records parsed s" "no_clash parsed"
  shows "if declaration_ok parsed then clean (finish_validation s) \<and> (as_is_case (finish_validation s) \<longleftrightarrow> parsed \<noteq> [])
         else erroneous (finish_validation s)"
proof (cases "declaration_ok parsed")
  case True
  have m: "as_is_baseline s \<or> va_saw_items s \<longrightarrow> as_is_benchmark s \<or> as_is_jitter s"
    using assms True by (auto simp: declaration_ok_iff records_def)
  have "va_saw_case s \<longleftrightarrow> parsed \<noteq> []"
  proof
    assume "parsed \<noteq> []"
    then obtain a where "a \<in> set parsed" by (cases parsed) auto
    moreover have "\<exists>b \<in> set parsed. lowered b \<in> {''bench'', ''benchmark'', ''jitter''}" if "lowered a \<in> {''baseline'', ''items_per_call'', ''ops_per_call''}"
      using True that \<open>a \<in> set parsed\<close> unfolding declaration_ok_iff declares_def by auto
    ultimately show "va_saw_case s" using assms(1) unfolding records_def by fastforce
  qed (use assms in \<open>auto simp: records_def\<close>)
  then show ?thesis using True m assms(1) by (auto simp: finish_validation_def records_def clean_def)
next
  case False
  then have "(as_is_baseline s \<or> va_saw_items s) \<and> \<not> as_is_benchmark s \<and> \<not> as_is_jitter s"
    using assms by (auto simp: declaration_ok_iff records_def)
  then show ?thesis using False by (auto simp: finish_validation_def erroneous_def reject_def)
qed

text \<open>
  C34. Validation accepts exactly the well-formed declarations, in whatever order the attributes
  are written: an error is recorded exactly when some attribute is malformed on its own, a key is
  declared twice, linux and windows are both given, or a baseline or item count stands without
  bench or jitter.  An error is never silent: a message is reported exactly when one is recorded;
  and an accepted declaration is a case exactly when it has an attribute.
\<close>

theorem validate_attributes_exact:
  "let s = validate_attributes parsed
   in (as_had_error s \<longleftrightarrow> \<not> declaration_ok parsed) \<and> (va_reports s \<noteq> [] \<longleftrightarrow> as_had_error s)
      \<and> (as_had_error s \<or> (as_is_case s \<longleftrightarrow> parsed \<noteq> []))"
proof (cases "no_clash parsed")
  case True
  then have r: "records parsed (foldl validate_attribute init_validation parsed)" using validate_fold[of parsed] by simp
  show ?thesis using finish_records[OF r True]
    by (cases "declaration_ok parsed") (simp_all add: validate_attributes_def clean_def erroneous_def Let_def)
next
  case False
  then have "erroneous (validate_attributes parsed)" "\<not> declaration_ok parsed"
    using validate_fold[of parsed] finish_erroneous by (simp_all add: validate_attributes_def declaration_ok_iff)
  then show ?thesis by (simp add: erroneous_def Let_def)
qed

subsection \<open>Summaries are well-formed\<close>

definition template_wf :: "TemplateBindingSet \<Rightarrow> bool" where
  "template_wf t \<longleftrightarrow> tb_param_name t \<noteq> [] \<and> tb_candidates t \<noteq> []"

definition pack_wf :: "ParamPack \<Rightarrow> bool" where
  "pack_wf p \<longleftrightarrow> pk_names p \<noteq> [] \<and> pk_rows p \<noteq> [] \<and> list_all (\<lambda>row. length row = length (pk_names p)) (pk_rows p)"

definition summary_wf :: "validation \<Rightarrow> bool" where
  "summary_wf s \<longleftrightarrow>
     as_case_name s \<noteq> Some [] \<and> as_items_per_call s \<noteq> 0 \<and> distinct (as_tags s) \<and> distinct (as_requirements s)
     \<and> distinct (map tb_param_name (as_template_sets s)) \<and> list_all template_wf (as_template_sets s)
     \<and> list_all (\<lambda>p. ps_values p \<noteq> []) (as_parameter_sets s) \<and> list_all pack_wf (as_param_packs s)"

lemma summary_wf_reject [simp]: "summary_wf (reject m s) = summary_wf s"
  by (simp add: summary_wf_def reject_def)

lemma distinct_add_unique: "distinct xs \<Longrightarrow> distinct (add_unique xs x)"
  by (simp add: add_unique_def)

lemma distinct_add_all: "distinct xs \<Longrightarrow> distinct (foldl add_unique xs ys)"
  by (induction ys arbitrary: xs) (simp_all add: distinct_add_unique)

lemma parse_positive_pos: "parse_positive_u64 t = Some v \<Longrightarrow> v \<noteq> 0"
  by (auto simp: parse_positive_u64_def split: if_splits ParseU64DecimalResult.splits)

lemma pack_rows_wf:
  "foldl (on_pack_row n) (rows, s) args = (rows', s') \<Longrightarrow> list_all (\<lambda>r. length r = n) rows \<Longrightarrow> summary_wf s
     \<Longrightarrow> list_all (\<lambda>r. length r = n) rows' \<and> summary_wf s'"
proof (induction args arbitrary: rows s)
  case (Cons a args)
  show ?case
  proof (cases "length (parse_tuple a) = n")
    case True
    then show ?thesis using Cons on_pack_row_cases(1)[OF True] by simp
  next
    case False
    then obtain m where "on_pack_row n (rows, s) a = (rows, reject m s)" using on_pack_row_cases(2) by blast
    then show ?thesis using Cons by simp
  qed
qed auto

lemma summary_wf_saw_case [simp]: "summary_wf (s\<lparr>va_saw_case := x\<rparr>) = summary_wf s"
  by (simp add: summary_wf_def)

lemma on_pack_wf: "summary_wf s \<Longrightarrow> summary_wf (on_pack args s)"
proof -
  assume s: "summary_wf s"
  obtain rows s2 where f: "foldl (on_pack_row (length (parse_tuple (hd args)))) ([], s\<lparr>va_saw_case := True\<rparr>) (tl args) = (rows, s2)" by force
  have "list_all (\<lambda>r. length r = length (parse_tuple (hd args))) rows \<and> summary_wf s2" using pack_rows_wf[OF f] s by simp
  then have "summary_wf (s2\<lparr>as_param_packs := as_param_packs s2 @ [\<lparr>pk_names = parse_tuple (hd args), pk_rows = rows\<rparr>]\<rparr>)"
    if "parse_tuple (hd args) \<noteq> []" "rows \<noteq> []" using that by (simp add: summary_wf_def pack_wf_def)
  then show ?thesis using s f \<open>_ \<and> summary_wf s2\<close> by (simp add: on_pack_def Let_def)
qed

lemma handlers_wf:
  assumes "summary_wf s"
  shows "summary_wf (on_test args s)" "summary_wf (on_bench args s)" "summary_wf (on_baseline args s)" "summary_wf (on_jitter args s)"
    "summary_wf (on_items n args s)" "summary_wf (on_req args s)" "summary_wf (on_skip args s)" "summary_wf (on_template args s)"
    "summary_wf (on_parameters args s)" "summary_wf (on_range args s)" "summary_wf (on_linspace args s)" "summary_wf (on_geom args s)"
    "summary_wf (on_logspace args s)" "summary_wf (on_flag a s)" "summary_wf (on_value a s)"
proof -
  show "summary_wf (on_items n args s)"
    using assms parse_positive_pos by (auto simp: on_items_def Let_def summary_wf_def reject_def split: option.splits)
  show "summary_wf (on_template args s)"
    using assms by (auto simp: on_template_def Let_def summary_wf_def reject_def template_wf_def)
  show "summary_wf (on_parameters args s)"
    using assms by (cases args) (auto simp: on_parameters_def summary_wf_def reject_def)
qed (use assms in \<open>auto simp: on_test_def on_bench_def on_baseline_def on_jitter_def on_req_def on_skip_def on_range_def on_linspace_def
    on_geom_def on_logspace_def on_flag_def on_value_def Let_def summary_wf_def reject_def distinct_add_unique distinct_add_all split: option.splits\<close>)

lemma validate_attribute_wf: "summary_wf s \<Longrightarrow> summary_wf (validate_attribute s a)"
  by (simp add: validate_attribute_def Let_def handlers_wf on_pack_wf)

text \<open>
  C38. Whatever attributes a function carries, erroneous ones included, the summary handed to the
  generator is well-formed: names are non-empty and unique, the item count is positive, every
  template parameter and parameter list has a value, and the rows of a parameter pack have the
  arity of its names.
\<close>

theorem validated_summary_well_formed: "summary_wf (validate_attributes parsed)"
proof -
  have "summary_wf s \<Longrightarrow> summary_wf (foldl validate_attribute s parsed)" for s
    by (induction parsed arbitrary: s) (simp_all add: validate_attribute_wf)
  moreover have "summary_wf init_validation" by (simp add: summary_wf_def init_validation_def)
  moreover have "summary_wf s \<Longrightarrow> summary_wf (finish_validation s)" for s
    by (simp add: finish_validation_def Let_def summary_wf_def reject_def)
  ultimately show ?thesis by (simp add: validate_attributes_def)
qed

subsection \<open>Item counts\<close>

lemma show_digit: "is_digit c \<Longrightarrow> show_nat (digit_value c) = [c]"
  by (subst show_nat.simps) (auto simp: is_digit_def digit_value_def less_eq_char_def)

lemma digit_less: "is_digit c \<Longrightarrow> digit_value c < 10"
  by (auto simp: is_digit_def digit_value_def less_eq_char_def)

lemma digit_zero: "is_digit c \<Longrightarrow> digit_value c = 0 \<Longrightarrow> c = CHR ''0''"
proof -
  assume "is_digit c" "digit_value c = 0"
  then have "(of_char c :: nat) = of_char CHR ''0''" by (auto simp: is_digit_def digit_value_def less_eq_char_def)
  then show "c = CHR ''0''" using of_char_eq_iff by blast
qed

lemma numeral_pos: "list_all is_digit s \<Longrightarrow> s \<noteq> [] \<Longrightarrow> hd s \<noteq> CHR ''0'' \<Longrightarrow> dec_value 0 s > 0"
  using dec_value_ge[of "digit_value (hd s)" "tl s"] digit_zero[of "hd s"] by (cases s) force+

lemma canonical_numeral:
  "list_all is_digit s \<Longrightarrow> s \<noteq> [] \<Longrightarrow> hd s \<noteq> CHR ''0'' \<or> length s = 1 \<Longrightarrow> show_nat (dec_value 0 s) = s"
proof (induction s rule: rev_induct)
  case (snoc c s)
  have c: "is_digit c" using snoc.prems by simp
  show ?case
  proof (cases "s = []")
    case True
    then show ?thesis using c by (simp add: show_digit)
  next
    case False
    then have s: "hd s \<noteq> CHR ''0''" "list_all is_digit s" using snoc.prems by auto
    let ?n = "10 * dec_value 0 s + digit_value c"
    have "?n \<ge> 10" "?n div 10 = dec_value 0 s" "?n mod 10 = digit_value c"
      using numeral_pos[OF s(2) False s(1)] digit_less[OF c] by auto
    then have "show_nat ?n = show_nat (dec_value 0 s) @ show_nat (digit_value c)"
      using digit_less[OF c] by (subst show_nat.simps) (simp add: show_nat.simps[of "digit_value c"])
    then show ?thesis using snoc.IH s False by (simp add: dec_value_append show_digit[OF c])
  qed
qed simp

lemma show_nat_first_digit: "n > 0 \<Longrightarrow> hd (show_nat n) \<noteq> CHR ''0''"
proof
  assume n: "n > 0" and z: "hd (show_nat n) = CHR ''0''"
  have "list_all is_digit (show_nat n)" by (rule show_nat_digits)
  show False using n z
  proof (induction n rule: show_nat.induct)
    case (1 n)
    show ?case
    proof (cases "n < 10")
      case True
      then have "char_of (48 + n) = CHR ''0''" using "1.prems" by (simp add: show_nat.simps[of n])
      then have "(of_char (char_of (48 + n) :: char) :: nat) = of_char CHR ''0''" by simp
      then show ?thesis using "1.prems" True by (simp add: of_char_of)
    next
      case False
      then have "n div 10 > 0" by simp
      then show ?thesis using 1 False by (simp add: show_nat.simps[of n])
    qed
  qed
qed

text \<open>
  An item count is accepted exactly when it is the decimal numeral of a positive 64-bit number,
  without sign, prefix, separator or leading zero, and has that value.
\<close>

theorem parse_positive_u64_exact: "parse_positive_u64 text = Some v \<longleftrightarrow> v \<noteq> 0 \<and> text = show_nat (unat v)"
proof -
  have "parse_positive_u64 text = Some v \<longleftrightarrow>
      text \<noteq> [] \<and> (length text = 1 \<or> hd text \<noteq> CHR ''0'') \<and> parse_u64_loop 0 text = U64Ok v \<and> v \<noteq> 0"
    by (cases "text") (auto simp: parse_positive_u64_def split: ParseU64DecimalResult.splits)
  also have "\<dots> \<longleftrightarrow> v \<noteq> 0 \<and> text = show_nat (unat v)"
  proof
    assume a: "text \<noteq> [] \<and> (length text = 1 \<or> hd text \<noteq> CHR ''0'') \<and> parse_u64_loop 0 text = U64Ok v \<and> v \<noteq> 0"
    then have "list_all is_digit text" "unat v = dec_value 0 text" by (auto simp: parse_u64_loop_ok_iff)
    then show "v \<noteq> 0 \<and> text = show_nat (unat v)" using a canonical_numeral by metis
  next
    assume a: "v \<noteq> 0 \<and> text = show_nat (unat v)"
    then have "unat v > 0" "unat v < 2 ^ 64" using unsigned_less[of v] by (auto simp: unat_gt_0)
    then show "text \<noteq> [] \<and> (length text = 1 \<or> hd text \<noteq> CHR ''0'') \<and> parse_u64_loop 0 text = U64Ok v \<and> v \<noteq> 0"
      using a show_nat_first_digit by (simp add: parse_u64_loop_ok_iff dec_value_show_nat show_nat_digits)
  qed
  finally show ?thesis .
qed

subsection \<open>Attributes of fixture types and namespaces\<close>

datatype MemberFixtureLifetime = LT_None | MemberEphemeral | MemberSuite | MemberGlobal

record fixture_validation =
  fa_had_error :: bool
  fa_lifetime :: MemberFixtureLifetime
  fa_saw_fixture :: bool
  fa_reports :: "string list"

definition fa_reject :: "string \<Rightarrow> fixture_validation \<Rightarrow> fixture_validation" where
  "fa_reject msg s = s\<lparr>fa_had_error := True, fa_reports := fa_reports s @ [msg]\<rparr>"

definition unknown_attribute :: "string \<Rightarrow> ParsedAttribute \<Rightarrow> string" where
  "unknown_attribute what a =
     (let args = pa_arguments a
      in ''unknown gentest '' @ what @ '' attribute '' @ [SQ] @ pa_name a @ [SQ]
         @ (if args \<noteq> [] then '' with argument'' @ (if length args = 1 then [] else ''s'') @ '' ('' @ joined_arguments args @ '')'' else []))"

definition validate_fixture_attribute :: "fixture_validation \<Rightarrow> ParsedAttribute \<Rightarrow> fixture_validation" where
  "validate_fixture_attribute s a =
     (if is_allowed_fixture_attribute (lowered a)
      then if fa_saw_fixture s then fa_reject ''duplicate gentest attribute 'fixture' on fixture type'' s
           else let s1 = s\<lparr>fa_saw_fixture := True\<rparr>
                in if length (pa_arguments a) \<noteq> 1 then fa_reject ('''fixture' requires exactly one argument: 'suite' or 'global'' @ [SQ]) s1
                   else let arg = hd (pa_arguments a); normalized = map ascii_lower arg
                        in if normalized = ''suite'' then s1\<lparr>fa_lifetime := MemberSuite\<rparr>
                           else if normalized = ''global'' then s1\<lparr>fa_lifetime := MemberGlobal\<rparr>
                           else fa_reject (''unknown fixture scope '' @ [SQ] @ arg @ [SQ] @ ''; expected 'suite' or 'global'' @ [SQ]) s1
      else fa_reject (unknown_attribute ''class'' a) s)"

definition validate_fixture_attributes :: "ParsedAttribute list \<Rightarrow> fixture_validation" where
  "validate_fixture_attributes parsed =
     foldl validate_fixture_attribute \<lparr>fa_had_error = False, fa_lifetime = MemberEphemeral, fa_saw_fixture = False, fa_reports = []\<rparr> parsed"

record suite_validation =
  sa_had_error :: bool
  sa_suite_name :: "string option"
  sa_saw_suite :: bool
  sa_reports :: "string list"

definition sa_reject :: "string \<Rightarrow> suite_validation \<Rightarrow> suite_validation" where
  "sa_reject msg s = s\<lparr>sa_had_error := True, sa_reports := sa_reports s @ [msg]\<rparr>"

definition validate_namespace_attribute :: "suite_validation \<Rightarrow> ParsedAttribute \<Rightarrow> suite_validation" where
  "validate_namespace_attribute s a =
     (if lowered a = ''suite''
      then if sa_saw_suite s then sa_reject (''duplicate gentest namespace attribute 'suite'' @ [SQ]) s
           else if length (pa_arguments a) \<noteq> 1 then sa_reject '''suite' requires exactly one string argument'' s
           else if hd (pa_arguments a) = [] then sa_reject '''suite' argument must not be empty'' s
           else s\<lparr>sa_suite_name := Some (hd (pa_arguments a)), sa_saw_suite := True\<rparr>
      else sa_reject (unknown_attribute ''namespace'' a) s)"

definition validate_namespace_attributes :: "ParsedAttribute list \<Rightarrow> suite_validation" where
  "validate_namespace_attributes parsed =
     foldl validate_namespace_attribute \<lparr>sa_had_error = False, sa_suite_name = None, sa_saw_suite = False, sa_reports = []\<rparr> parsed"

lemma fixture_error_sticky:
  "fa_had_error s \<and> fa_reports s \<noteq> [] \<Longrightarrow> fa_had_error (foldl validate_fixture_attribute s parsed) \<and> fa_reports (foldl validate_fixture_attribute s parsed) \<noteq> []"
  by (induction parsed arbitrary: s) (auto simp: validate_fixture_attribute_def fa_reject_def Let_def)

lemma suite_error_sticky:
  "sa_had_error s \<and> sa_reports s \<noteq> [] \<Longrightarrow> sa_had_error (foldl validate_namespace_attribute s parsed) \<and> sa_reports (foldl validate_namespace_attribute s parsed) \<noteq> []"
  by (induction parsed arbitrary: s) (auto simp: validate_namespace_attribute_def sa_reject_def Let_def)

definition fixture_scope :: "ParsedAttribute \<Rightarrow> MemberFixtureLifetime option" where
  "fixture_scope a =
     (if lowered a = ''fixture'' \<and> length (pa_arguments a) = 1
      then if map ascii_lower (hd (pa_arguments a)) = ''suite'' then Some MemberSuite
           else if map ascii_lower (hd (pa_arguments a)) = ''global'' then Some MemberGlobal else None
      else None)"

text \<open>
  A fixture type is accepted with no attribute, as an ephemeral fixture, or with exactly one
  attribute fixture(suite) or fixture(global), with that lifetime; everything else is an error with
  a message.  A namespace is accepted with no attribute or with one non-empty suite name.
\<close>

theorem fixture_and_suite_attributes_exact:
  "let f = validate_fixture_attributes parsed; n = validate_namespace_attributes parsed
   in (fa_had_error f \<longleftrightarrow> \<not> (parsed = [] \<or> (\<exists>a. parsed = [a] \<and> fixture_scope a \<noteq> None)))
    \<and> (fa_had_error f \<longleftrightarrow> fa_reports f \<noteq> [])
    \<and> (fa_had_error f \<or> fa_lifetime f = (if parsed = [] then MemberEphemeral else the (fixture_scope (hd parsed))))
    \<and> (sa_had_error n \<longleftrightarrow> \<not> (parsed = [] \<or> (\<exists>a x. parsed = [a] \<and> lowered a = ''suite'' \<and> pa_arguments a = [x] \<and> x \<noteq> [])))
    \<and> (sa_had_error n \<longleftrightarrow> sa_reports n \<noteq> [])
    \<and> (sa_had_error n \<or> sa_suite_name n = (if parsed = [] then None else Some (hd (pa_arguments (hd parsed)))))"
proof (cases parsed rule: remdups_adj.cases)
  case 1
  then show ?thesis by (simp add: validate_fixture_attributes_def validate_namespace_attributes_def)
next
  case (2 a)
  then show ?thesis
    by (cases "pa_arguments a" rule: remdups_adj.cases)
       (auto simp: validate_fixture_attributes_def validate_namespace_attributes_def validate_fixture_attribute_def validate_namespace_attribute_def
          fa_reject_def sa_reject_def Let_def is_allowed_fixture_attribute_def fixture_scope_def)
next
  case (3 a b rest)
  let ?f0 = "\<lparr>fa_had_error = False, fa_lifetime = MemberEphemeral, fa_saw_fixture = False, fa_reports = []\<rparr>"
  let ?s0 = "\<lparr>sa_had_error = False, sa_suite_name = None, sa_saw_suite = False, sa_reports = []\<rparr>"
  have "fa_had_error (validate_fixture_attribute (validate_fixture_attribute ?f0 a) b) \<and> fa_reports (validate_fixture_attribute (validate_fixture_attribute ?f0 a) b) \<noteq> []"
    by (auto simp: validate_fixture_attribute_def fa_reject_def Let_def)
  moreover have "sa_had_error (validate_namespace_attribute (validate_namespace_attribute ?s0 a) b) \<and> sa_reports (validate_namespace_attribute (validate_namespace_attribute ?s0 a) b) \<noteq> []"
    by (auto simp: validate_namespace_attribute_def sa_reject_def)
  ultimately show ?thesis using 3 fixture_error_sticky[of "validate_fixture_attribute (validate_fixture_attribute ?f0 a) b" rest]
      suite_error_sticky[of "validate_namespace_attribute (validate_namespace_attribute ?s0 a) b" rest]
    by (simp add: validate_fixture_attributes_def validate_namespace_attributes_def)
qed

end
