(* ===== verification/Template_Args.thy ===== *)
theory Template_Args
  imports Attr_Validate
begin

section \<open>Template arguments: \<^verbatim>\<open>tools/src/discovery_utils.hpp\<close>, \<^verbatim>\<open>tools/src/axis_expander.hpp\<close>\<close>

text \<open>
  The template attributes of a case are checked against the declared template parameters, which
  Clang provides, and expanded into the combinations of template arguments.
\<close>

subsection \<open>Products\<close>

definition product_step :: "('r \<Rightarrow> 'c \<Rightarrow> 'r) \<Rightarrow> 'r list \<Rightarrow> 'c list \<Rightarrow> 'r list" where
  "product_step join out axis = concat (map (\<lambda>acc. map (\<lambda>v. join acc v) axis) out)"

definition cartesian :: "'a list list \<Rightarrow> 'a list list" where
  "cartesian axes =
     (if axes = [] then [[]]
      else let out = foldl (product_step (\<lambda>acc v. acc @ [v])) [[]] axes in if out = [] then [[]] else out)"

definition flatten_row_cartesian :: "string list list list \<Rightarrow> string list list" where
  "flatten_row_cartesian axes =
     (if axes = [] then [[]]
      else let out = foldl (product_step (\<lambda>acc row. acc @ row)) [[]] axes in if out = [] then [[]] else out)"

subsection \<open>Rows\<close>

definition push_item :: "string \<Rightarrow> string list \<times> bool \<Rightarrow> string list \<times> bool" where
  "push_item current res =
     (case res of (parts, had_empty) \<Rightarrow>
        let tok = trim_copy current in if tok = [] then (parts, True) else (parts @ [tok], had_empty))"

definition split_top_level_items_result :: "string \<Rightarrow> string list \<times> bool" where
  "split_top_level_items_result text =
     (let s = split_loop push_item [] text (split_start ([], False)); tok = trim_copy (sp_current s)
      in case sp_parts s of (parts, had_empty) \<Rightarrow>
           if tok = [] then (parts, had_empty \<or> text \<noteq> [] \<and> last text = CHR '','') else (parts @ [tok], had_empty))"

definition split_top_level_items :: "string \<Rightarrow> string list" where
  "split_top_level_items text = fst (split_top_level_items_result text)"

definition is_parenthesized_row :: "string \<Rightarrow> bool" where
  "is_parenthesized_row text =
     (let trimmed = trim_copy text in length trimmed \<ge> 2 \<and> hd trimmed = CHR ''('' \<and> last trimmed = CHR '')'')"

definition parse_parenthesized_row :: "string \<Rightarrow> string list \<times> bool" where
  "parse_parenthesized_row text =
     (let trimmed = trim_copy text
      in if length trimmed < 2 \<or> hd trimmed \<noteq> CHR ''('' \<or> last trimmed \<noteq> CHR '')'' then ([trimmed], False)
         else split_top_level_items_result (butlast (tl trimmed)))"

definition build_binding_rows :: "TemplateBindingSet \<Rightarrow> bool \<Rightarrow> string list list" where
  "build_binding_rows bs pack =
     map (\<lambda>candidate. if pack then fst (parse_parenthesized_row candidate) else [trim_copy candidate]) (tb_candidates bs)"

definition build_binding_rows_attr_order :: "TemplateBindingSet \<Rightarrow> string list list" where
  "build_binding_rows_attr_order bs =
     map (\<lambda>candidate. if is_parenthesized_row candidate then fst (parse_parenthesized_row candidate) else [trim_copy candidate]) (tb_candidates bs)"

subsection \<open>Checking against the declaration\<close>

datatype TemplateParamKind = TP_Type | TP_Value | TP_Template

record TemplateParamInfo =
  ti_kind :: TemplateParamKind
  ti_name :: string
  ti_is_pack :: bool
  ti_usage_spelling :: string

text \<open>The first shape error among the candidates, as the message reported.\<close>

definition template_of :: "string \<Rightarrow> string" where
  "template_of name = '' in 'template('' @ name @ '', ...)'' @ [SQ]"

definition binding_error :: "TemplateParamInfo \<Rightarrow> string \<Rightarrow> string option" where
  "binding_error p candidate =
     (let parenthesized = is_parenthesized_row candidate; quoted = [SQ] @ ti_name p @ [SQ]
      in if ti_is_pack p \<and> \<not> parenthesized
         then Some (''template parameter pack '' @ quoted @ '' requires parenthesized rows'' @ template_of (ti_name p))
         else if \<not> ti_is_pack p \<and> parenthesized
         then if ti_kind p = TP_Value then None
              else Some (''non-pack template parameter '' @ quoted @ '' does not accept parenthesized rows'' @ template_of (ti_name p))
         else if ti_is_pack p \<and> snd (parse_parenthesized_row candidate)
         then Some (''template parameter pack '' @ quoted @ '' does not accept empty row entries'' @ template_of (ti_name p))
         else None)"

fun first_error :: "('a \<Rightarrow> 'e option) \<Rightarrow> 'a list \<Rightarrow> 'e option" where
  "first_error f [] = None"
| "first_error f (x # xs) = (case f x of Some e \<Rightarrow> Some e | None \<Rightarrow> first_error f xs)"

definition validate_template_binding_shape :: "TemplateBindingSet \<Rightarrow> TemplateParamInfo \<Rightarrow> string option" where
  "validate_template_binding_shape bs p = first_error (binding_error p) (tb_candidates bs)"

text \<open>\<^verbatim>\<open>emplace\<close> keeps the first set of a name; the map is traversed in the order of the names.\<close>

definition set_map :: "TemplateBindingSet list \<Rightarrow> string \<rightharpoonup> TemplateBindingSet" where
  "set_map sets = foldl (\<lambda>m s. if m (tb_param_name s) = None then m(tb_param_name s \<mapsto> s) else m) Map.empty sets"

definition parameter_error :: "(string \<rightharpoonup> TemplateBindingSet) \<Rightarrow> TemplateParamInfo \<Rightarrow> string option" where
  "parameter_error m p =
     (case m (ti_name p) of
        None \<Rightarrow> Some (''missing 'template('' @ ti_name p @ '', ...)' attribute for template parameter '' @ [SQ] @ ti_name p @ [SQ])
      | Some bs \<Rightarrow> validate_template_binding_shape bs p)"

definition unknown_error :: "TemplateParamInfo list \<Rightarrow> string \<Rightarrow> string option" where
  "unknown_error decl_order name =
     (if name \<in> set (map ti_name decl_order) then None
      else Some (''unknown template parameter '' @ [SQ] @ name @ [SQ] @ '' in attributes''))"

definition validate_template_attributes :: "TemplateBindingSet list \<Rightarrow> TemplateParamInfo list \<Rightarrow> string option" where
  "validate_template_attributes sets decl_order =
     (case first_error (parameter_error (set_map sets)) decl_order of
        Some e \<Rightarrow> Some e
      | None \<Rightarrow> first_error (unknown_error decl_order) (sort (remdups (map tb_param_name sets))))"

definition build_template_arg_combos :: "TemplateBindingSet list \<Rightarrow> TemplateParamInfo list \<Rightarrow> string list list" where
  "build_template_arg_combos sets decl_order =
     flatten_row_cartesian (map (\<lambda>p. build_binding_rows (the (set_map sets (ti_name p))) (ti_is_pack p)) decl_order)"

definition build_template_arg_combos_attr_order :: "TemplateBindingSet list \<Rightarrow> string list list" where
  "build_template_arg_combos_attr_order sets = flatten_row_cartesian (map build_binding_rows_attr_order sets)"

subsection \<open>Products are the products of lists\<close>

lemma concat_map_concat: "concat (map f (concat xss)) = concat (map (\<lambda>xs. concat (map f xs)) xss)"
  by (induction xss) simp_all

lemma product_lists_snoc: "product_lists (xss @ [ys]) = concat (map (\<lambda>acc. map (\<lambda>v. acc @ [v]) ys) (product_lists xss))"
proof (induction xss)
  case Nil
  then show ?case by (induction ys) simp_all
next
  case (Cons xs xss)
  then show ?case by (simp add: concat_map_concat comp_def) (simp add: map_concat comp_def)
qed

lemma foldl_product:
  assumes "\<And>acc v. g (acc @ [v]) = join (g acc) v"
  shows "foldl (product_step join) [g []] axes = map g (product_lists axes)"
  by (induction axes rule: rev_induct) (simp_all add: product_lists_snoc product_step_def map_concat assms comp_def)

lemma product_lists_empty: "product_lists axes = [] \<longleftrightarrow> [] \<in> set axes"
  by (induction axes) auto

text \<open>Both products enumerate every choice of one element per axis, the first axis varying slowest.\<close>

lemma cartesian_product: "cartesian axes = (if [] \<in> set axes then [[]] else product_lists axes)"
  using foldl_product[of id "\<lambda>acc v. acc @ [v]" axes] product_lists_empty[of axes] by (auto simp: cartesian_def Let_def)

lemma flatten_row_product: "flatten_row_cartesian axes = (if [] \<in> set axes then [[]] else map concat (product_lists axes))"
  using foldl_product[of concat "\<lambda>acc row. acc @ row" axes] product_lists_empty[of axes] by (auto simp: flatten_row_cartesian_def Let_def)

subsection \<open>Accepted template attributes\<close>

lemma first_error_None: "first_error f xs = None \<longleftrightarrow> (\<forall>x \<in> set xs. f x = None)"
  by (induction xs) (auto split: option.splits)

lemma set_map_lookup: "set_map sets n = find (\<lambda>s. tb_param_name s = n) sets"
proof -
  have "foldl (\<lambda>m s. if m (tb_param_name s) = None then m(tb_param_name s \<mapsto> s) else m) m sets n
      = (case m n of Some x \<Rightarrow> Some x | None \<Rightarrow> find (\<lambda>s. tb_param_name s = n) sets)" for m
    by (induction sets arbitrary: m) (auto split: option.splits)
  from this[of Map.empty] show ?thesis by (simp add: set_map_def)
qed

text \<open>The rows a template parameter may be bound to.\<close>

definition binding_rows :: "TemplateBindingSet list \<Rightarrow> TemplateParamInfo \<Rightarrow> string list list" where
  "binding_rows sets p = build_binding_rows (the (find (\<lambda>s. tb_param_name s = ti_name p) sets)) (ti_is_pack p)"

lemma combos_product:
  assumes "validate_template_attributes sets decl_order = None" "list_all template_wf sets"
  shows "build_template_arg_combos sets decl_order = map concat (product_lists (map (binding_rows sets) decl_order))"
    "set (map tb_param_name sets) = set (map ti_name decl_order)"
proof -
  have pe: "parameter_error (set_map sets) p = None" if "p \<in> set decl_order" for p
    using assms(1) that by (auto simp: validate_template_attributes_def first_error_None split: option.splits)
  have ue: "unknown_error decl_order n = None" if "n \<in> set (map tb_param_name sets)" for n
    using assms(1) that by (auto simp: validate_template_attributes_def first_error_None split: option.splits)
  have found: "\<exists>s \<in> set sets. find (\<lambda>s. tb_param_name s = ti_name p) sets = Some s \<and> tb_param_name s = ti_name p" if "p \<in> set decl_order" for p
    using pe[OF that] by (auto simp: parameter_error_def set_map_lookup find_Some_iff split: option.splits dest!: find_Some_iff[THEN iffD1])
  have "[] \<notin> set (map (binding_rows sets) decl_order)"
    using found assms(2) by (fastforce simp: binding_rows_def build_binding_rows_def template_wf_def list_all_iff)
  then show "build_template_arg_combos sets decl_order = map concat (product_lists (map (binding_rows sets) decl_order))"
    by (simp add: build_template_arg_combos_def flatten_row_product set_map_lookup binding_rows_def[abs_def])
  show "set (map tb_param_name sets) = set (map ti_name decl_order)"
  proof
    show "set (map tb_param_name sets) \<subseteq> set (map ti_name decl_order)" using ue by (force simp: unknown_error_def split: if_splits)
    show "set (map ti_name decl_order) \<subseteq> set (map tb_param_name sets)" using found by force
  qed
qed

end
