(* ===== verification/Type_Kind.thy ===== *)
theory Type_Kind
  imports Attr_Parse Case_Api
begin

section \<open>Parameter literals: \<^verbatim>\<open>tools/src/type_kind.cpp\<close>\<close>

text \<open>
  The value of a test parameter is written in an attribute as a token; for string and character
  parameters the generator turns the token into a literal of the declared type.
\<close>

subsection \<open>Normalised type names\<close>

fun find_text :: "string \<Rightarrow> string \<Rightarrow> nat option" where
  "find_text needle [] = (if needle = [] then Some 0 else None)"
| "find_text needle (c # cs) = (if starts_with (c # cs) needle then Some 0 else map_option Suc (find_text needle cs))"

definition contains_text :: "string \<Rightarrow> string \<Rightarrow> bool" where
  "contains_text text needle \<longleftrightarrow> find_text needle text \<noteq> None"

lemma find_text_bound: "find_text needle text = Some i \<Longrightarrow> i + length needle \<le> length text"
  by (induction "text" arbitrary: i) (auto simp: starts_with_length split: if_splits dest: starts_with_length)

lemma find_text_Some: "find_text needle text = Some i \<Longrightarrow> take (length needle) (drop i text) = needle"
  by (induction "text" arbitrary: i) (auto simp: starts_with_def split: if_splits)

function erase_all :: "string \<Rightarrow> string \<Rightarrow> string" where
  "erase_all needle s =
     (case find_text needle s of
        None \<Rightarrow> s
      | Some i \<Rightarrow> if needle = [] then s else erase_all needle (take i s @ drop (i + length needle) s))"
  by pat_completeness auto

termination erase_all
  by (relation "measure (\<lambda>(_, s). length s)") (auto simp: min_def simp flip: length_greater_0_conv dest!: find_text_bound)

declare erase_all.simps [simp del]

datatype PointerPolicy = Strip | Keep

definition normalize_impl :: "string \<Rightarrow> PointerPolicy \<Rightarrow> string" where
  "normalize_impl sv policy =
     (let s1 = foldl (\<lambda>s q. erase_all q s) sv [''const '', '' const'', ''volatile '', '' volatile'', ''&'', ''&&''];
          s2 = (if policy = Strip then erase_all ''*'' s1 else s1)
      in map ascii_lower (filter (\<lambda>c. \<not> isspace c) s2))"

definition normalize :: "string \<Rightarrow> string" where
  "normalize sv = normalize_impl sv Strip"

definition normalize_keep_ptr :: "string \<Rightarrow> string" where
  "normalize_keep_ptr sv = normalize_impl sv Keep"

subsection \<open>Literals\<close>

datatype TypeKind = TK_String | TK_Char | TK_Integer | TK_Floating | TK_Enum | TK_Raw | TK_Other

definition is_string_literal :: "string \<Rightarrow> bool" where
  "is_string_literal tok =
     (let t = trim_copy tok
      in length t \<ge> 2 \<and> hd t = DQ \<and> last t = DQ
       \<or> length t \<ge> 3 \<and> t ! 0 \<in> set ''LuU'' \<and> t ! 1 = DQ \<and> last t = DQ
       \<or> length t \<ge> 4 \<and> t ! 0 = CHR ''u'' \<and> t ! 1 = CHR ''8'' \<and> t ! 2 = DQ \<and> last t = DQ)"

definition is_char_literal :: "string \<Rightarrow> bool" where
  "is_char_literal tok =
     (let t = trim_copy tok
      in length t \<ge> 3 \<and> hd t = SQ \<and> last t = SQ
       \<or> length t \<ge> 4 \<and> t ! 0 \<in> set ''LuU'' \<and> t ! 1 = SQ \<and> last t = SQ
       \<or> length t \<ge> 5 \<and> t ! 0 = CHR ''u'' \<and> t ! 1 = CHR ''8'' \<and> t ! 2 = SQ \<and> last t = SQ)"

definition char_literal_prefix :: "string \<Rightarrow> string" where
  "char_literal_prefix type_name =
     (let n = normalize type_name
      in if n = ''wchar_t'' then ''L'' else if n = ''char8_t'' then ''u8'' else if n = ''char16_t'' then ''u''
         else if n = ''char32_t'' then ''U'' else [])"

definition classify_type :: "string \<Rightarrow> TypeKind" where
  "classify_type type_name =
     (let t = normalize type_name; p = normalize_keep_ptr type_name
      in if t = ''raw'' then TK_Raw
         else if contains_text t ''string_view'' \<or> contains_text t ''string'' \<or> contains_text p ''char*'' \<or> contains_text p ''wchar_t*''
                 \<or> contains_text p ''char8_t*'' \<or> contains_text p ''char16_t*'' \<or> contains_text p ''char32_t*'' then TK_String
         else if t \<in> set [''char'', ''wchar_t'', ''char8_t'', ''char16_t'', ''char32_t''] then TK_Char
         else TK_Other)"

definition string_literal_prefix :: "string \<Rightarrow> string" where
  "string_literal_prefix type_name =
     (let n = normalize type_name; np = normalize_keep_ptr type_name
      in if contains_text n ''wstring'' \<or> contains_text n ''wstring_view'' \<or> contains_text np ''wchar_t*'' then ''L''
         else if contains_text n ''u8string'' \<or> contains_text n ''u8string_view'' \<or> contains_text np ''char8_t*'' then ''u8''
         else if contains_text n ''u16string'' \<or> contains_text n ''u16string_view'' \<or> contains_text np ''char16_t*'' then ''u''
         else if contains_text n ''u32string'' \<or> contains_text n ''u32string_view'' \<or> contains_text np ''char32_t*'' then ''U''
         else [])"

definition quote_for_type :: "TypeKind \<Rightarrow> string \<Rightarrow> string \<Rightarrow> string" where
  "quote_for_type kind tok type_name =
     (case kind of
        TK_String \<Rightarrow> if is_string_literal tok then tok else string_literal_prefix type_name @ [DQ] @ escape_string tok @ [DQ]
      | TK_Char \<Rightarrow>
          if is_char_literal tok then tok
          else if length tok = 1
          then char_literal_prefix type_name @ [SQ] @ (if hd tok = SQ then [BS, SQ] else escape_string tok) @ [SQ]
          else tok
      | _ \<Rightarrow> tok)"

subsection \<open>What the literals denote\<close>

text \<open>A reader of C++ literals: an encoding prefix, the opening quote, escaped characters, the closing quote.\<close>

definition literal_prefixes :: "string list" where
  "literal_prefixes = [[], ''L'', ''u8'', ''u'', ''U'']"

fun literal_body :: "char \<Rightarrow> bool \<Rightarrow> string \<Rightarrow> string option" where
  "literal_body q escape [] = None"
| "literal_body q escape (c # cs) =
     (if escape then map_option ((#) (unescape c)) (literal_body q False cs)
      else if c = BS then literal_body q True cs
      else if c = q then if cs = [] then Some [] else None
      else map_option ((#) c) (literal_body q False cs))"

text \<open>\<open>denotes q w s\<close>: \<open>w\<close> is one literal with quotes \<open>q\<close> for the characters \<open>s\<close>.\<close>

definition denotes :: "char \<Rightarrow> string \<Rightarrow> string \<Rightarrow> bool" where
  "denotes q w s \<longleftrightarrow> (\<exists>p \<in> set literal_prefixes. \<exists>b. w = p @ q # b \<and> literal_body q False b = Some s)"

lemma literal_body_char:
  "q \<in> {DQ, SQ} \<Longrightarrow> q = DQ \<or> c \<noteq> SQ \<Longrightarrow> literal_body q False (escape_char c @ cs) = map_option ((#) c) (literal_body q False cs)"
  by (auto simp: escape_char_def unescape_def)

lemma literal_body_string: "literal_body DQ False (escape_string s @ [DQ]) = Some s"
  by (induction s) (simp_all add: escape_string_def literal_body_char del: literal_body.simps, simp)

lemma literal_prefixes: "string_literal_prefix ty \<in> set literal_prefixes" "char_literal_prefix ty \<in> set literal_prefixes"
  by (simp_all add: string_literal_prefix_def char_literal_prefix_def literal_prefixes_def Let_def)


text \<open>Erasing leaves no occurrence behind, also none that the erasure itself created.\<close>

lemma erase_all_none: "needle \<noteq> [] \<Longrightarrow> \<not> contains_text (erase_all needle s) needle"
proof (induction needle s rule: erase_all.induct)
  case (1 needle s)
  then show ?case by (subst erase_all.simps) (auto simp: contains_text_def split: option.splits)
qed

end
