(* ===== verification/Case_Expand.thy ===== *)
theory Case_Expand
  imports Template_Args Type_Kind
begin

section \<open>Expansion of a declaration into cases: \<^verbatim>\<open>tools/src/discovery.cpp\<close>\<close>

text \<open>
  The parameters of a test function are value axes, defaulted parameters or fixtures.  The value
  axes come from the validated attributes; the generator walks over all combinations of template
  arguments, rows of parameter packs and scalar values and adds one case for each.  What Clang
  knows of the declaration is an argument, as are \<^verbatim>\<open>stod\<close>, \<^verbatim>\<open>pow\<close> and the printing of doubles;
  doubles are real numbers, so that no value is ever infinite.
\<close>

subsection \<open>Function parameters\<close>

datatype FixtureScope = FS_Local | FS_Suite | FS_Global

record FunctionParamInfo =
  fp_name :: string
  fp_type_spelling :: string
  fp_has_default_arg :: bool
  fp_fixture_type :: string
  fp_emit_type :: string
  fp_entity_key :: string
  fp_required_scope :: "FixtureScope option"
  fp_importer_error :: "string option"

definition param_types :: "FunctionParamInfo list \<Rightarrow> string \<rightharpoonup> string" where
  "param_types params = map_of (map (\<lambda>p. (fp_name p, fp_type_spelling p)) (filter (\<lambda>p. fp_name p \<noteq> []) params))"

definition quoted :: "string \<Rightarrow> string" where
  "quoted s = [SQ] @ s @ [SQ]"

text \<open>Every axis names a parameter, and no parameter has two axes.\<close>

fun validate_axis_names :: "(string \<rightharpoonup> string) \<Rightarrow> (string \<times> string \<times> string) list \<Rightarrow> string set \<Rightarrow> string + string set" where
  "validate_axis_names types [] names = Inr names"
| "validate_axis_names types ((name, origin, duplicate) # axes) names =
     (if types name = None then Inl (''unknown parameter name '' @ quoted name @ '' in '' @ origin @ ''(...)'')
      else if name \<in> names then Inl duplicate
      else validate_axis_names types axes (insert name names))"

definition axis_names :: "'a AttributeSummary_scheme \<Rightarrow> (string \<times> string \<times> string) list" where
  "axis_names summary =
     (let scalar = (\<lambda>origin name. (name, origin, ''duplicate parameter axis for '' @ quoted name))
      in map (\<lambda>p. scalar ''parameters'' (ps_param_name p)) (as_parameter_sets summary)
       @ map (\<lambda>r. scalar ''parameters_range'' (rg_name r)) (as_ranges summary)
       @ map (\<lambda>l. scalar ''parameters_linspace'' (li_name l)) (as_linspaces summary)
       @ map (\<lambda>g. scalar ''parameters_geom'' (ge_name g)) (as_geoms summary)
       @ map (\<lambda>l. scalar ''logspace'' (lo_name l)) (as_logspaces summary)
       @ map (\<lambda>n. (n, ''parameters_pack'', ''parameter '' @ quoted n @ '' supplied by multiple parameter sets/packs''))
           (concat (map pk_names (as_param_packs summary))))"

datatype param_role = Value_Axis | Defaulted | Fixture_Param nat

fun infer_roles :: "string set \<Rightarrow> nat \<Rightarrow> FunctionParamInfo list \<Rightarrow> string + (FunctionParamInfo \<times> param_role) list" where
  "infer_roles names n [] = Inr []"
| "infer_roles names n (p # ps) =
     (if fp_name p \<noteq> [] \<and> fp_name p \<in> names
      then map_sum (\<lambda>e. e) ((#) (p, Value_Axis)) (infer_roles names n ps)
      else if fp_has_default_arg p then map_sum (\<lambda>e. e) ((#) (p, Defaulted)) (infer_roles names n ps)
      else if fp_fixture_type p = []
      then Inl (''unable to infer fixture type for parameter '' @ quoted (if fp_name p = [] then ''<unnamed>'' else fp_name p))
      else case fp_importer_error p of
             Some e \<Rightarrow> Inl e
           | None \<Rightarrow> map_sum (\<lambda>e. e) ((#) (p, Fixture_Param n)) (infer_roles names (n + 1) ps))"

subsection \<open>Numbers in attributes\<close>

record num_env =
  ne_stod :: "string \<Rightarrow> real option"
  ne_fmt_double :: "real \<Rightarrow> string"
  ne_pow :: "real \<Rightarrow> real \<Rightarrow> real"

definition in_llong :: "int \<Rightarrow> bool" where
  "in_llong v \<longleftrightarrow> - (2 ^ 63) \<le> v \<and> v < 2 ^ 63"

definition stoll :: "string \<Rightarrow> int option" where
  "stoll s =
     (let t = dropWhile isspace s; neg = (t \<noteq> [] \<and> hd t = CHR ''-'');
          ds = takeWhile isdigit (if t \<noteq> [] \<and> (hd t = CHR ''-'' \<or> hd t = CHR ''+'') then tl t else t);
          v = (if neg then - int (dec_value 0 ds) else int (dec_value 0 ds))
      in if ds = [] \<or> \<not> in_llong v then None else Some v)"

definition llround :: "real \<Rightarrow> int" where
  "llround d = (if d \<ge> 0 then \<lfloor>d + 1 / 2\<rfloor> else - \<lfloor>- d + 1 / 2\<rfloor>)"

definition to_int :: "num_env \<Rightarrow> string \<Rightarrow> int" where
  "to_int env s = (case stoll s of Some v \<Rightarrow> v | None \<Rightarrow> (case ne_stod env s of Some d \<Rightarrow> llround d | None \<Rightarrow> 0))"

definition to_double :: "num_env \<Rightarrow> string \<Rightarrow> real" where
  "to_double env s = (case ne_stod env s of Some d \<Rightarrow> d | None \<Rightarrow> (case stoll s of Some v \<Rightarrow> of_int v | None \<Rightarrow> 0))"

definition fmt_int :: "int \<Rightarrow> string" where
  "fmt_int v = (if v < 0 then CHR ''-'' # show_nat (nat (- v)) else show_nat (nat v))"

definition normalize_type :: "string \<Rightarrow> string" where
  "normalize_type s = map ascii_lower (filter (\<lambda>c. \<not> isspace c) s)"

definition is_integer_type :: "string \<Rightarrow> bool" where
  "is_integer_type t \<longleftrightarrow>
     contains_text t ''bool'' \<or> contains_text t ''char'' \<and> \<not> contains_text t ''char_t'' \<or> contains_text t ''short'' \<or> contains_text t ''int''
     \<or> contains_text t ''longlong'' \<or> t = ''longlong'' \<or> t = ''unsignedlonglong'' \<or> contains_text t ''long'' \<and> \<not> contains_text t ''longlong''
     \<or> contains_text t ''size_t'' \<or> contains_text t ''ptrdiff_t''"

definition is_float_type :: "string \<Rightarrow> bool" where
  "is_float_type t \<longleftrightarrow> contains_text t ''float'' \<or> contains_text t ''double''"

subsection \<open>Axes\<close>

text \<open>An axis fails with a message, or by signed overflow, which is undefined behaviour.\<close>

datatype axis_error = Reported string | Signed_Overflow

type_synonym axis = "(string \<times> string) list"

function int_range :: "int \<Rightarrow> int \<Rightarrow> int \<Rightarrow> int list option" where
  "int_range v st b =
     (if st > 0 \<and> v \<le> b \<or> st < 0 \<and> v \<ge> b
      then if in_llong (v + st) then map_option ((#) v) (int_range (v + st) st b) else None
      else Some [])"
  by pat_completeness auto

termination int_range
  by (relation "measure (\<lambda>(v, st, b). if st > 0 then nat (b - v + 1) else nat (v - b + 1))") auto

declare int_range.simps [simp del]

function float_range :: "real \<Rightarrow> real \<Rightarrow> real \<Rightarrow> real \<Rightarrow> nat \<Rightarrow> real list" where
  "float_range a st b eps i =
     (let v = a + st * of_nat i
      in if st = 0 \<or> (if st > 0 then v > b + eps else v < b - eps) then [] else v # float_range a st b eps (i + 1))"
  by pat_completeness auto

lemma float_range_measure:
  fixes a st b eps :: real
  assumes "st \<noteq> 0" "if st > 0 then a + st * of_nat i \<le> b + eps else a + st * of_nat i \<ge> b - eps"
  shows "int i \<le> \<lceil>(if st > 0 then b + eps - a else a - b + eps) / \<bar>st\<bar>\<rceil>"
proof -
  have "real i \<le> (if st > 0 then b + eps - a else a - b + eps) / \<bar>st\<bar>"
    using assms by (auto simp: field_simps split: if_splits)
  then show ?thesis by (simp add: le_ceiling_iff)
qed

termination float_range
proof (relation "measure (\<lambda>(a, st, b, eps, i). nat (\<lceil>(if st > 0 then b + eps - a else a - b + eps) / \<bar>st\<bar>\<rceil> + 1 - int i))", goal_cases)
  case (2 a st b eps i v)
  then have "int i \<le> \<lceil>(if st > 0 then b + eps - a else a - b + eps) / \<bar>st\<bar>\<rceil>"
    by (intro float_range_measure) (auto split: if_splits)
  then show ?case by auto
qed simp

declare float_range.simps [simp del]

definition step_or_one :: "'a :: zero_neq_one \<Rightarrow> 'a" where
  "step_or_one st = (if st = 0 then 1 else st)"

definition range_axis :: "num_env \<Rightarrow> string \<Rightarrow> RangeSpec \<Rightarrow> axis_error + axis" where
  "range_axis env ty rs =
     (let inconsistent = Inl (Reported (''parameters_range for '' @ quoted (rg_name rs) @ '' has inconsistent bounds''))
      in if is_integer_type ty
         then let a = to_int env (rg_start rs); st = step_or_one (to_int env (rg_step rs)); b = to_int env (rg_end rs)
              in if st > 0 \<and> a > b \<or> st < 0 \<and> a < b then inconsistent
                 else case int_range a st b of
                        None \<Rightarrow> Inl Signed_Overflow
                      | Some vs \<Rightarrow> Inr (map (\<lambda>v. (rg_name rs, fmt_int v)) vs)
         else if is_float_type ty
         then let a = to_double env (rg_start rs); st = step_or_one (to_double env (rg_step rs)); b = to_double env (rg_end rs)
              in if st > 0 \<and> a > b \<or> st < 0 \<and> a < b then inconsistent
                 else Inr (map (\<lambda>v. (rg_name rs, ne_fmt_double env v)) (float_range a st b (\<bar>st\<bar> / 10 ^ 12) 0))
         else Inl (Reported (''parameters_range not supported for parameter type '' @ quoted ty)))"

definition point_count :: "num_env \<Rightarrow> string \<Rightarrow> nat" where
  "point_count env s = nat (max 1 (to_int env s))"

definition linspace_axis :: "num_env \<Rightarrow> string \<Rightarrow> LinspaceSpec \<Rightarrow> axis_error + axis" where
  "linspace_axis env ty ls =
     (let n = point_count env (li_count ls)
      in if is_integer_type ty
         then let a = to_int env (li_start ls); b = to_int env (li_end ls)
              in if n = 1 then Inr [(li_name ls, fmt_int a)]
                 else if \<not> in_llong (b - a) then Inl Signed_Overflow
                 else let step = real_of_int (b - a) / real (n - 1)
                      in Inr (map (\<lambda>i. (li_name ls, fmt_int (llround (real_of_int a + step * real i)))) [0..<n])
         else if is_float_type ty
         then let a = to_double env (li_start ls); b = to_double env (li_end ls)
              in if n = 1 then Inr [(li_name ls, ne_fmt_double env a)]
                 else let step = (b - a) / real (n - 1)
                      in Inr (map (\<lambda>i. (li_name ls, ne_fmt_double env (a + step * real i))) [0..<n])
         else Inl (Reported (''parameters_linspace not supported for parameter type '' @ quoted ty)))"

fun geom_loop :: "nat \<Rightarrow> real \<Rightarrow> real \<Rightarrow> real list" where
  "geom_loop 0 v f = []"
| "geom_loop (Suc n) v f = v # geom_loop n (v * f) f"

definition geom_axis :: "num_env \<Rightarrow> string \<Rightarrow> GeomSpec \<Rightarrow> axis_error + axis" where
  "geom_axis env ty gs =
     (let n = point_count env (ge_count gs); f = to_double env (ge_factor gs)
      in if is_integer_type ty
         then Inr (map (\<lambda>v. (ge_name gs, fmt_int (llround v))) (geom_loop n (real_of_int (to_int env (ge_start gs))) f))
         else if is_float_type ty
         then Inr (map (\<lambda>v. (ge_name gs, ne_fmt_double env v)) (geom_loop n (to_double env (ge_start gs)) f))
         else Inl (Reported (''parameters_geom not supported for parameter type '' @ quoted ty)))"

definition logspace_axis :: "num_env \<Rightarrow> string \<Rightarrow> LogspaceSpec \<Rightarrow> axis_error + axis" where
  "logspace_axis env ty ls =
     (let n = point_count env (lo_count ls); base = (if lo_base ls = [] then 10 else to_double env (lo_base ls));
          aexp = to_double env (lo_start_exp ls); bexp = to_double env (lo_end_exp ls);
          exps = (if n = 1 then [aexp] else map (\<lambda>i. aexp + (bexp - aexp) / real (n - 1) * real i) [0..<n])
      in if is_integer_type ty then Inr (map (\<lambda>e. (lo_name ls, fmt_int (llround (ne_pow env base e)))) exps)
         else if is_float_type ty then Inr (map (\<lambda>e. (lo_name ls, ne_fmt_double env (ne_pow env base e))) exps)
         else Inl (Reported (''logspace not supported for parameter type '' @ quoted ty)))"

fun sequence_axes :: "(axis_error + axis) list \<Rightarrow> axis_error + axis list" where
  "sequence_axes [] = Inr []"
| "sequence_axes (x # xs) =
     (case x of Inl e \<Rightarrow> Inl e | Inr ax \<Rightarrow> (case sequence_axes xs of Inl e \<Rightarrow> Inl e | Inr axs \<Rightarrow> Inr (ax # axs)))"

definition scalar_axes :: "num_env \<Rightarrow> (string \<rightharpoonup> string) \<Rightarrow> 'a AttributeSummary_scheme \<Rightarrow> axis_error + axis list" where
  "scalar_axes env types summary =
     (let ty = (\<lambda>name. normalize_type (the (types name)))
      in sequence_axes
           (map (\<lambda>p. Inr (map (\<lambda>v. (ps_param_name p, v)) (ps_values p))) (as_parameter_sets summary)
            @ map (\<lambda>r. range_axis env (ty (rg_name r)) r) (as_ranges summary)
            @ map (\<lambda>l. linspace_axis env (ty (li_name l)) l) (as_linspaces summary)
            @ map (\<lambda>g. geom_axis env (ty (ge_name g)) g) (as_geoms summary)
            @ map (\<lambda>l. logspace_axis env (ty (lo_name l)) l) (as_logspaces summary)))"

subsection \<open>Emitting cases\<close>

datatype FreeCallArg = Fixture_Arg nat | Value_Arg string

record decl_info =
  de_qualified :: string
  de_is_template :: bool
  de_final_base :: string
  de_filename :: string
  de_line :: nat
  de_roles :: "(FunctionParamInfo \<times> param_role) list"
  de_importer_check :: "string \<Rightarrow> string option"

record TestCaseInfo =
  ci_qualified_name :: string
  ci_display_name :: string
  ci_base_name :: string
  ci_filename :: string
  ci_line :: nat
  ci_template_args :: "string list"
  ci_call_arguments :: string
  ci_free_call_args :: "FreeCallArg list"

record collector =
  co_current :: "string \<rightharpoonup> string"
  co_cases :: "TestCaseInfo list"
  co_seen :: "string set"
  co_reports :: "string list"

definition join_with :: "string \<Rightarrow> string list \<Rightarrow> string" where
  "join_with sep parts = concat (map (\<lambda>i. (if i = 0 then [] else sep) @ parts ! i) [0..<length parts])"

definition make_qualified :: "decl_info \<Rightarrow> string list \<Rightarrow> string" where
  "make_qualified d tpl = (if de_is_template d then de_qualified d @ ''<'' @ join_with '', '' tpl @ ''>'' else de_qualified d)"

definition make_display :: "decl_info \<Rightarrow> string list \<Rightarrow> string \<Rightarrow> string" where
  "make_display d tpl call_args =
     de_final_base d @ (if de_is_template d then ''<'' @ join_with '','' tpl @ ''>'' else [])
     @ (if call_args = [] then [] else ''('' @ call_args @ '')'')"

definition make_case :: "decl_info \<Rightarrow> string list \<Rightarrow> string \<Rightarrow> FreeCallArg list \<Rightarrow> TestCaseInfo" where
  "make_case d tpl call_args free_args =
     \<lparr>ci_qualified_name = make_qualified d tpl, ci_display_name = make_display d tpl call_args, ci_base_name = de_final_base d,
      ci_filename = de_filename d, ci_line = de_line d, ci_template_args = tpl, ci_call_arguments = call_args, ci_free_call_args = free_args\<rparr>"

definition case_key :: "TestCaseInfo \<Rightarrow> string" where
  "case_key info = ci_qualified_name info @ ''#'' @ ci_display_name info @ ''@'' @ ci_filename info @ '':'' @ show_nat (ci_line info)"

definition add_case :: "decl_info \<Rightarrow> string list \<Rightarrow> string \<Rightarrow> FreeCallArg list \<Rightarrow> collector \<Rightarrow> collector" where
  "add_case d tpl call_args free_args s =
     (let info = make_case d tpl call_args free_args; key = case_key info
      in if key \<in> co_seen s then s else s\<lparr>co_cases := co_cases s @ [info], co_seen := insert key (co_seen s)\<rparr>)"

definition co_report :: "string \<Rightarrow> collector \<Rightarrow> collector" where
  "co_report msg s = s\<lparr>co_reports := co_reports s @ [msg]\<rparr>"

text \<open>The call arguments of a case, or the message of the first parameter without a value.\<close>

fun call_args :: "(string \<Rightarrow> string option) \<Rightarrow> (string \<rightharpoonup> string) \<Rightarrow> (FunctionParamInfo \<times> param_role) list \<Rightarrow> string + FreeCallArg list" where
  "call_args check current [] = Inr []"
| "call_args check current ((p, Fixture_Param n) # ps) = map_sum (\<lambda>e. e) ((#) (Fixture_Arg n)) (call_args check current ps)"
| "call_args check current ((p, Defaulted) # ps) = call_args check current ps"
| "call_args check current ((p, Value_Axis) # ps) =
     (if fp_name p = [] then Inl ''missing value for unnamed function parameter in parameters(...) or parameters_pack(...)''
      else case current (fp_name p) of
             None \<Rightarrow> Inl (''missing value for function parameter '' @ quoted (fp_name p) @ '' in parameters(...) or parameters_pack(...)'')
           | Some v \<Rightarrow>
               let expr = quote_for_type (classify_type (fp_type_spelling p)) v (fp_type_spelling p)
               in case check expr of
                    Some e \<Rightarrow> Inl e
                  | None \<Rightarrow> map_sum (\<lambda>e. e) ((#) (Value_Arg expr)) (call_args check current ps))"

definition value_exprs :: "FreeCallArg list \<Rightarrow> string list" where
  "value_exprs args = concat (map (\<lambda>a. case a of Value_Arg e \<Rightarrow> [e] | Fixture_Arg _ \<Rightarrow> []) args)"

definition emit_case :: "decl_info \<Rightarrow> string list \<Rightarrow> collector \<Rightarrow> collector" where
  "emit_case d tpl s =
     (case call_args (de_importer_check d) (co_current s) (de_roles d) of
        Inl e \<Rightarrow> co_report e s
      | Inr args \<Rightarrow> add_case d tpl (join_with '', '' (value_exprs args)) args s)"

subsection \<open>Walking over the combinations\<close>

definition set_value :: "string \<times> string \<Rightarrow> collector \<Rightarrow> string option \<times> collector" where
  "set_value nv s = (co_current s (fst nv), s\<lparr>co_current := (co_current s)(fst nv \<mapsto> snd nv)\<rparr>)"

definition restore_value :: "string \<Rightarrow> string option \<Rightarrow> collector \<Rightarrow> collector" where
  "restore_value name prev s = s\<lparr>co_current := (co_current s)(name := prev)\<rparr>"

primrec visit_scalars :: "axis list \<Rightarrow> (collector \<Rightarrow> collector) \<Rightarrow> collector \<Rightarrow> collector" where
  "visit_scalars [] emit s = emit s"
| "visit_scalars (ax # axes) emit s =
     foldl (\<lambda>s nv. case set_value nv s of (prev, s1) \<Rightarrow> restore_value (fst nv) prev (visit_scalars axes emit s1)) s ax"

fun set_values :: "(string \<times> string) list \<Rightarrow> collector \<Rightarrow> (string \<times> string option) list \<times> collector" where
  "set_values [] s = ([], s)"
| "set_values (nv # nvs) s = (case set_value nv s of (prev, s1) \<Rightarrow> case set_values nvs s1 of (prevs, s2) \<Rightarrow> ((fst nv, prev) # prevs, s2))"

definition restore_values :: "(string \<times> string option) list \<Rightarrow> collector \<Rightarrow> collector" where
  "restore_values prevs s = foldl (\<lambda>s p. restore_value (fst p) (snd p) s) s (rev prevs)"

definition row_values :: "ParamPack \<Rightarrow> string list \<Rightarrow> (string \<times> string) list" where
  "row_values pp row = map (\<lambda>i. (pk_names pp ! i, row ! i)) [0..<length (pk_names pp)]"

primrec visit_packs :: "ParamPack list \<Rightarrow> (collector \<Rightarrow> collector) \<Rightarrow> collector \<Rightarrow> collector" where
  "visit_packs [] emit s = emit s"
| "visit_packs (pp # pps) emit s =
     foldl (\<lambda>s row. case set_values (row_values pp row) s of (prevs, s1) \<Rightarrow> restore_values prevs (visit_packs pps emit s1)) s (pk_rows pp)"

definition expand_cases :: "decl_info \<Rightarrow> string list list \<Rightarrow> ParamPack list \<Rightarrow> axis list \<Rightarrow> collector \<Rightarrow> collector" where
  "expand_cases d combos packs axes s =
     foldl (\<lambda>s tpl.
       let scalars = (if axes = [] then emit_case d tpl else visit_scalars axes (emit_case d tpl))
       in if packs = [] then scalars s else visit_packs packs scalars s) s combos"

subsection \<open>The walk enumerates the product\<close>

text \<open>Run \<open>f\<close> with some values bound and drop the bindings again.\<close>

definition with_values :: "(string \<times> string) list \<Rightarrow> (collector \<Rightarrow> collector) \<Rightarrow> collector \<Rightarrow> collector" where
  "with_values nvs f s = (f (s\<lparr>co_current := foldl (\<lambda>m nv. m(fst nv \<mapsto> snd nv)) (co_current s) nvs\<rparr>))\<lparr>co_current := co_current s\<rparr>"

definition keeps_current :: "(collector \<Rightarrow> collector) \<Rightarrow> bool" where
  "keeps_current f \<longleftrightarrow> (\<forall>s. co_current (f s) = co_current s)"

lemma update_same_current: "co_current s = m \<Longrightarrow> s\<lparr>co_current := m\<rparr> = s"
  by (cases s) auto

lemma keeps_with_values: "keeps_current (with_values nvs f)"
  by (simp add: keeps_current_def with_values_def)

lemma keeps_foldl: "(\<And>x. keeps_current (g x)) \<Longrightarrow> keeps_current (\<lambda>s. foldl (\<lambda>s x. g x s) s xs)"
  unfolding keeps_current_def by (induction xs) auto

lemma keeps_emit: "keeps_current (emit_case d tpl)"
  by (auto simp: keeps_current_def emit_case_def add_case_def co_report_def Let_def split: sum.splits)

lemma with_values_nil: "keeps_current f \<Longrightarrow> with_values [] f = f"
proof
  fix s assume "keeps_current f"
  then have "co_current (f s) = co_current s" by (simp add: keeps_current_def)
  then have "(f s)\<lparr>co_current := co_current s\<rparr> = f s" by (rule update_same_current)
  then show "with_values [] f s = f s" by (simp add: with_values_def)
qed

lemma with_values_append: "with_values xs (with_values ys f) = with_values (xs @ ys) f"
  by (rule ext) (simp add: with_values_def)

lemma with_values_seq:
  assumes "keeps_current f"
  shows "with_values nvs (\<lambda>s. g (f s)) s = with_values nvs g (with_values nvs f s)"
proof -
  let ?m = "foldl (\<lambda>m nv. m(fst nv \<mapsto> snd nv)) (co_current s) nvs"
  let ?t = "f (s\<lparr>co_current := ?m\<rparr>)"
  have "co_current ?t = ?m" using assms by (simp add: keeps_current_def)
  then have "?t\<lparr>co_current := ?m\<rparr> = ?t" by (rule update_same_current)
  then show ?thesis by (simp add: with_values_def)
qed

lemma with_values_foldl:
  assumes "\<And>x. keeps_current (g x)"
  shows "with_values nvs (\<lambda>s. foldl (\<lambda>s x. g x s) s xs) s = foldl (\<lambda>s x. with_values nvs (g x) s) s xs"
proof (induction xs rule: rev_induct)
  case Nil
  then show ?case by (simp add: with_values_def)
next
  case (snoc x xs)
  then show ?case using with_values_seq[of "\<lambda>s. foldl (\<lambda>s x. g x s) s xs" nvs "g x" s] keeps_foldl[of g xs] assms by simp
qed

lemma set_restore:
  assumes "keeps_current f"
  shows "(case set_value nv s of (prev, s1) \<Rightarrow> restore_value (fst nv) prev (f s1)) = with_values [nv] f s"
  using assms by (simp add: set_value_def restore_value_def with_values_def keeps_current_def)

lemma set_restore_many:
  assumes "keeps_current f"
  shows "(case set_values nvs s of (prevs, s1) \<Rightarrow> restore_values prevs (f s1)) = with_values nvs f s"
  using assms
proof (induction nvs arbitrary: s)
  case Nil
  then show ?case using with_values_nil[of f] by (simp add: restore_values_def)
next
  case (Cons nv nvs)
  obtain prev s1 prevs s2 where e: "set_value nv s = (prev, s1)" "set_values nvs s1 = (prevs, s2)" by (metis surj_pair)
  have "restore_values prevs (f s2) = with_values nvs f s1" using Cons.IH[OF Cons.prems, of s1] e by simp
  then have "(case set_values (nv # nvs) s of (prevs, s1) \<Rightarrow> restore_values prevs (f s1)) = restore_value (fst nv) prev (with_values nvs f s1)"
    using e by (simp add: restore_values_def)
  also have "\<dots> = with_values [nv] (with_values nvs f) s" using set_restore[of "with_values nvs f" nv s] keeps_with_values e by simp
  finally show ?case by (simp add: with_values_append)
qed

text \<open>A walk over axes whose elements are lists of bindings, for packs and for scalar values.\<close>

lemma walk_product:
  assumes "keeps_current emit" "\<And>s. walk [] s = emit s"
    "\<And>ax axes s. keeps_current (walk axes) \<Longrightarrow> walk (ax # axes) s = foldl (\<lambda>s x. with_values (bind ax x) (walk axes) s) s (choices ax)"
  shows "walk axes = (\<lambda>s. foldl (\<lambda>s c. with_values (concat c) emit s) s (product_lists (map (\<lambda>ax. map (bind ax) (choices ax)) axes)))"
proof (induction axes)
  case Nil
  then show ?case using assms(1,2) by (simp add: with_values_nil fun_eq_iff)
next
  case (Cons ax axes)
  let ?P = "product_lists (map (\<lambda>ax. map (bind ax) (choices ax)) axes)"
  have k: "keeps_current (walk axes)" unfolding Cons.IH by (rule keeps_foldl) (rule keeps_with_values)
  have "walk (ax # axes) s = foldl (\<lambda>s x. foldl (\<lambda>s c. with_values (bind ax x @ concat c) emit s) s ?P) s (choices ax)" for s
    unfolding assms(3)[OF k] Cons.IH by (simp add: with_values_foldl keeps_with_values with_values_append)
  moreover have "foldl (\<lambda>s x. foldl (\<lambda>s c. with_values (bind ax x @ concat c) emit s) s ?P) s xs
      = foldl (\<lambda>s c. with_values (concat c) emit s) s (concat (map (\<lambda>x. map (Cons (bind ax x)) ?P) xs))" for s xs
    by (induction xs arbitrary: s) (simp_all add: foldl_map)
  ultimately show ?case by (simp add: fun_eq_iff comp_def)
qed

lemma visit_scalars_product:
  assumes "keeps_current emit"
  shows "visit_scalars axes emit s = foldl (\<lambda>s c. with_values c emit s) s (product_lists axes)"
proof -
  have "visit_scalars axes emit s
      = foldl (\<lambda>s c. with_values (concat c) emit s) s (product_lists (map (map (\<lambda>nv. [nv])) axes))"
    using walk_product[of emit "\<lambda>axes. visit_scalars axes emit" "\<lambda>ax nv. [nv]" "\<lambda>ax. ax" axes] assms set_restore
    by (simp add: fun_eq_iff)
  moreover have "product_lists (map (map (\<lambda>nv. [nv])) axes) = map (map (\<lambda>nv. [nv])) (product_lists axes)"
    by (induction axes) (simp_all add: map_concat comp_def)
  ultimately show ?thesis by (simp add: foldl_map)
qed

lemma visit_packs_product:
  assumes "keeps_current emit"
  shows "visit_packs packs emit s
    = foldl (\<lambda>s c. with_values (concat c) emit s) s (product_lists (map (\<lambda>pp. map (row_values pp) (pk_rows pp)) packs))"
  using walk_product[of emit "\<lambda>packs. visit_packs packs emit" row_values pk_rows packs] assms set_restore_many
  by (simp add: fun_eq_iff)

text \<open>The combinations in the order of the walk: templates, then pack rows, then scalar values.\<close>

definition case_plan :: "string list list \<Rightarrow> ParamPack list \<Rightarrow> axis list \<Rightarrow> (string list \<times> (string \<times> string) list) list" where
  "case_plan combos packs axes =
     concat (map (\<lambda>tpl. concat (map (\<lambda>r. map (\<lambda>v. (tpl, concat r @ v)) (product_lists axes))
       (product_lists (map (\<lambda>pp. map (row_values pp) (pk_rows pp)) packs)))) combos)"

lemma foldl_concat_map: "foldl f s (concat (map g xs)) = foldl (\<lambda>s x. foldl f s (g x)) s xs"
  by (induction xs arbitrary: s) simp_all

lemma expand_cases_product:
  "expand_cases d combos packs axes s = foldl (\<lambda>s c. with_values (snd c) (emit_case d (fst c)) s) s (case_plan combos packs axes)"
proof -
  have one: "(let scalars = (if axes = [] then emit_case d tpl else visit_scalars axes (emit_case d tpl))
       in if packs = [] then scalars s else visit_packs packs scalars s)
     = foldl (\<lambda>s c. with_values (snd c) (emit_case d (fst c)) s) s
         (concat (map (\<lambda>r. map (\<lambda>v. (tpl, concat r @ v)) (product_lists axes)) (product_lists (map (\<lambda>pp. map (row_values pp) (pk_rows pp)) packs))))"
    for tpl s
  proof -
    let ?e = "emit_case d tpl" and ?P = "product_lists (map (\<lambda>pp. map (row_values pp) (pk_rows pp)) packs)"
    let ?sc = "\<lambda>s. foldl (\<lambda>s c. with_values c ?e s) s (product_lists axes)"
    have sc: "(if axes = [] then ?e else visit_scalars axes ?e) = ?sc"
      using visit_scalars_product[OF keeps_emit, of axes d tpl] with_values_nil[OF keeps_emit, of d tpl] by (auto simp: fun_eq_iff)
    have k: "keeps_current ?sc" by (rule keeps_foldl) (rule keeps_with_values)
    have "(if packs = [] then ?sc s else visit_packs packs ?sc s) = foldl (\<lambda>s c. with_values (concat c) ?sc s) s ?P"
      using visit_packs_product[OF k] with_values_nil[OF k] by simp
    also have "\<dots> = foldl (\<lambda>s r. foldl (\<lambda>s v. with_values (concat r @ v) ?e s) s (product_lists axes)) s ?P"
      by (simp add: with_values_foldl keeps_with_values with_values_append)
    finally show ?thesis unfolding Let_def sc by (simp add: foldl_concat_map foldl_map)
  qed
  show ?thesis unfolding expand_cases_def one case_plan_def foldl_concat_map ..
qed

subsection \<open>Every axis binds its parameter\<close>

lemma validate_axis_namesD:
  "validate_axis_names types axs old = Inr names \<Longrightarrow>
     names = old \<union> fst ` set axs \<and> distinct (map fst axs) \<and> old \<inter> fst ` set axs = {} \<and> (\<forall>n \<in> fst ` set axs. types n \<noteq> None)"
  by (induction types axs old rule: validate_axis_names.induct) (auto split: if_splits)

lemma sequence_axesD: "sequence_axes xs = Inr axes \<Longrightarrow> list_all2 (\<lambda>x ax. x = Inr ax) xs axes"
  by (induction xs arbitrary: axes) (auto split: sum.splits)

definition axis_for :: "string \<Rightarrow> axis \<Rightarrow> bool" where
  "axis_for name ax \<longleftrightarrow> ax \<noteq> [] \<and> fst ` set ax = {name}"

lemma axis_for_map: "axis_for name (map (\<lambda>v. (name, f v)) vs) \<longleftrightarrow> vs \<noteq> []" and axis_for_single: "axis_for name [(name, v)]"
  by (cases vs) (auto simp: axis_for_def)

lemma int_range_nonempty: "int_range a st b = Some vs \<Longrightarrow> st > 0 \<and> a \<le> b \<or> st < 0 \<and> a \<ge> b \<Longrightarrow> vs \<noteq> []"
  by (subst (asm) int_range.simps) (auto split: if_splits)

lemma float_range_nonempty: "eps \<ge> 0 \<Longrightarrow> st > 0 \<and> a \<le> b \<or> st < 0 \<and> a \<ge> b \<Longrightarrow> float_range a st b eps 0 \<noteq> []"
  by (subst float_range.simps) auto

lemma step_or_one_nonzero: "step_or_one st \<noteq> 0"
  by (simp add: step_or_one_def)

lemma range_axis_for:
  assumes "range_axis env ty rs = Inr ax"
  shows "axis_for (rg_name rs) ax"
proof (cases "is_integer_type ty")
  case True
  define a st b where "a = to_int env (rg_start rs)" and "st = step_or_one (to_int env (rg_step rs))" and "b = to_int env (rg_end rs)"
  have "\<not> (st > 0 \<and> a > b \<or> st < 0 \<and> a < b)" and "\<exists>vs. int_range a st b = Some vs \<and> ax = map (\<lambda>v. (rg_name rs, fmt_int v)) vs"
    using assms True unfolding range_axis_def Let_def by (auto simp flip: a_def b_def st_def split: if_splits option.splits)
  moreover have "st > 0 \<or> st < 0" using step_or_one_nonzero[of "to_int env (rg_step rs)"] unfolding st_def by linarith
  ultimately show ?thesis using int_range_nonempty[of a st b] by (force simp: axis_for_map)
next
  case False
  define a st b where "a = to_double env (rg_start rs)" and "st = step_or_one (to_double env (rg_step rs))" and "b = to_double env (rg_end rs)"
  have "\<not> (st > 0 \<and> a > b \<or> st < 0 \<and> a < b)" and "ax = map (\<lambda>v. (rg_name rs, ne_fmt_double env v)) (float_range a st b (\<bar>st\<bar> / 10 ^ 12) 0)"
    using assms False unfolding range_axis_def Let_def by (auto simp flip: a_def b_def st_def split: if_splits)
  moreover have "st > 0 \<or> st < 0" using step_or_one_nonzero[of "to_double env (rg_step rs)"] unfolding st_def by linarith
  ultimately show ?thesis using float_range_nonempty[of "\<bar>st\<bar> / 10 ^ 12" st a b] by (force simp: axis_for_map)
qed

lemma point_count_pos: "point_count env s > 0"
  by (simp add: point_count_def)

lemma linspace_axis_for: "linspace_axis env ty ls = Inr ax \<Longrightarrow> axis_for (li_name ls) ax"
  using point_count_pos[of env "li_count ls"] unfolding linspace_axis_def Let_def
  by (auto simp: axis_for_map axis_for_single split: if_splits)

lemma geom_axis_for: "geom_axis env ty gs = Inr ax \<Longrightarrow> axis_for (ge_name gs) ax"
proof -
  have "geom_loop (point_count env (ge_count gs)) v f \<noteq> []" for v f
    using point_count_pos[of env "ge_count gs"] by (cases "point_count env (ge_count gs)") auto
  then show "geom_axis env ty gs = Inr ax \<Longrightarrow> axis_for (ge_name gs) ax"
    unfolding geom_axis_def Let_def by (auto simp: axis_for_map split: if_splits)
qed

lemma logspace_axis_for: "logspace_axis env ty ls = Inr ax \<Longrightarrow> axis_for (lo_name ls) ax"
  using point_count_pos[of env "lo_count ls"] unfolding logspace_axis_def Let_def
  by (auto simp: axis_for_map axis_for_single comp_def split: if_splits)

definition scalar_names :: "'a AttributeSummary_scheme \<Rightarrow> string list" where
  "scalar_names summary = map ps_param_name (as_parameter_sets summary) @ map rg_name (as_ranges summary) @ map li_name (as_linspaces summary)
     @ map ge_name (as_geoms summary) @ map lo_name (as_logspaces summary)"

lemma fst_axis_names: "map fst (axis_names summary) = scalar_names summary @ concat (map pk_names (as_param_packs summary))"
  by (simp add: axis_names_def scalar_names_def comp_def Let_def)

lemma axes_append:
  assumes "list_all2 (\<lambda>x ax. x = Inr ax) (map f xs @ fs) axes" "\<And>x ax. x \<in> set xs \<Longrightarrow> f x = Inr ax \<Longrightarrow> axis_for (name x) ax"
    "\<And>axes. list_all2 (\<lambda>x ax. x = Inr ax) fs axes \<Longrightarrow> list_all2 axis_for ns axes"
  shows "list_all2 axis_for (map name xs @ ns) axes"
  using assms(1,2) by (induction xs arbitrary: axes) (auto simp: list_all2_Cons1 assms(3))

lemma scalar_axes_for:
  assumes "scalar_axes env types summary = Inr axes" "list_all (\<lambda>p. ps_values p \<noteq> []) (as_parameter_sets summary)"
  shows "list_all2 axis_for (scalar_names summary) axes"
proof -
  let ?ty = "\<lambda>name. normalize_type (the (types name))"
  let ?R = "\<lambda>x ax. x = (Inr ax :: axis_error + axis)"
  have l: "list_all2 ?R (map (\<lambda>l. logspace_axis env (?ty (lo_name l)) l) (as_logspaces summary)) axs \<Longrightarrow>
      list_all2 axis_for (map lo_name (as_logspaces summary)) axs" for axs
    using axes_append[of "\<lambda>l. logspace_axis env (?ty (lo_name l)) l" "as_logspaces summary" "[]" axs lo_name "[]"] logspace_axis_for by simp
  note g = axes_append[OF _ geom_axis_for l]
  note li = axes_append[OF _ linspace_axis_for g]
  note r = axes_append[OF _ range_axis_for li]
  show ?thesis unfolding scalar_names_def
    by (rule axes_append[OF sequence_axesD[OF assms(1)[unfolded scalar_axes_def Let_def]] _ r])
       (use assms(2) in \<open>auto simp: list_all_iff axis_for_map[where f = "\<lambda>v. v"]\<close>)
qed

lemma product_binds: "list_all2 axis_for names axes \<Longrightarrow> c \<in> set (product_lists axes) \<Longrightarrow> map fst c = names"
proof (induction names axes arbitrary: c rule: list_all2_induct)
  case (Cons n names ax axes)
  then obtain nv c' where "c = nv # c'" "nv \<in> set ax" "c' \<in> set (product_lists axes)" by auto
  then show ?case using Cons by (auto simp: axis_for_def)
qed simp

lemma row_values_names: "map fst (row_values pp row) = pk_names pp"
  by (simp add: row_values_def map_nth comp_def)

lemma rows_bind: "r \<in> set (product_lists (map (\<lambda>pp. map (row_values pp) (pk_rows pp)) packs)) \<Longrightarrow> map fst (concat r) = concat (map pk_names packs)"
  unfolding product_lists_set by (induction packs arbitrary: r) (auto simp: list_all2_Cons2 row_values_names)

lemma case_plan_binds:
  assumes "list_all2 axis_for names axes" "(tpl, nvs) \<in> set (case_plan combos packs axes)"
  shows "map fst nvs = concat (map pk_names packs) @ names" "tpl \<in> set combos"
  using assms rows_bind product_binds by (auto simp: case_plan_def)

lemma case_plan_nonempty:
  assumes "list_all2 axis_for names axes" "list_all pack_wf packs" "combos \<noteq> []"
  shows "case_plan combos packs axes \<noteq> []"
proof -
  have "[] \<notin> set axes" using assms(1) by (auto simp: list_all2_conv_all_nth axis_for_def in_set_conv_nth)
  then have a: "product_lists axes \<noteq> []" by (simp add: product_lists_empty)
  have "[] \<notin> set (map (\<lambda>pp. map (row_values pp) (pk_rows pp)) packs)" using assms(2) by (auto simp: pack_wf_def list_all_iff)
  then have "product_lists (map (\<lambda>pp. map (row_values pp) (pk_rows pp)) packs) \<noteq> []" by (simp only: product_lists_empty) simp
  then show ?thesis using a assms(3) unfolding case_plan_def by (cases combos; cases "product_lists axes"; cases "product_lists (map (\<lambda>pp. map (row_values pp) (pk_rows pp)) packs)") auto
qed

subsection \<open>The cases of a declaration\<close>

definition planned_args :: "(string \<rightharpoonup> string) \<Rightarrow> (FunctionParamInfo \<times> param_role) list \<Rightarrow> FreeCallArg list" where
  "planned_args current roles =
     concat (map (\<lambda>(p, role). case role of
         Fixture_Param n \<Rightarrow> [Fixture_Arg n]
       | Defaulted \<Rightarrow> []
       | Value_Axis \<Rightarrow> [Value_Arg (quote_for_type (classify_type (fp_type_spelling p)) (the (current (fp_name p))) (fp_type_spelling p))]) roles)"

definition planned_case :: "decl_info \<Rightarrow> string list \<times> (string \<times> string) list \<Rightarrow> TestCaseInfo" where
  "planned_case d c =
     (let args = planned_args (map_of (snd c)) (de_roles d) in make_case d (fst c) (join_with '', '' (value_exprs args)) args)"

text \<open>The first element of every key.\<close>

fun first_by :: "('a \<Rightarrow> 'k) \<Rightarrow> 'k set \<Rightarrow> 'a list \<Rightarrow> 'a list" where
  "first_by key old [] = []"
| "first_by key old (x # xs) = (if key x \<in> old then first_by key old xs else x # first_by key (insert (key x) old) xs)"

definition empty_collector :: collector where
  "empty_collector = \<lparr>co_current = Map.empty, co_cases = [], co_seen = {}, co_reports = []\<rparr>"

lemma first_by_keys:
  "distinct (map key (first_by key old xs)) \<and> key ` set (first_by key old xs) = key ` set xs - old \<and> set (first_by key old xs) \<subseteq> set xs"
  by (induction key old xs rule: first_by.induct) auto

lemma call_args_planned:
  assumes "\<And>p. (p, Value_Axis) \<in> set roles \<Longrightarrow> fp_name p \<noteq> [] \<and> current (fp_name p) \<noteq> None"
  shows "call_args (\<lambda>_. None) current roles = Inr (planned_args current roles)"
  using assms
proof (induction roles)
  case (Cons r roles)
  then have IH: "call_args (\<lambda>_. None) current roles = Inr (planned_args current roles)" by auto
  obtain p role where r: "r = (p, role)" by force
  show ?case
  proof (cases role)
    case Value_Axis
    then obtain v where "current (fp_name p) = Some v" "fp_name p \<noteq> []" using Cons.prems[of p] r by auto
    then show ?thesis using IH r Value_Axis by (simp add: planned_args_def)
  qed (use IH r in \<open>simp_all add: planned_args_def\<close>)
qed (simp add: planned_args_def)

lemma foldl_updates: "foldl (\<lambda>m nv. m(fst nv \<mapsto> snd nv)) m nvs = m ++ map_of (rev nvs)"
  by (induction nvs arbitrary: m) (auto simp: fun_eq_iff map_add_def split: option.splits)

lemma map_of_rev: "distinct (map fst nvs) \<Longrightarrow> map_of (rev nvs) = map_of nvs"
  by (induction nvs) (auto simp: fun_eq_iff map_add_def map_of_eq_None_iff[symmetric] split: option.splits)

lemma infer_roles_value:
  "infer_roles names n ps = Inr roles \<Longrightarrow> (p, Value_Axis) \<in> set roles \<Longrightarrow> fp_name p \<noteq> [] \<and> fp_name p \<in> names"
  by (induction names n ps arbitrary: roles rule: infer_roles.induct)
     (auto split: if_splits option.splits sum.splits simp: map_sum_def)

lemma emit_planned:
  assumes "distinct (map fst nvs)" "set (map fst nvs) = names" "infer_roles names 0 params = Inr (de_roles d)"
    "de_importer_check d = (\<lambda>_. None)" "co_current s = Map.empty"
  shows "with_values nvs (emit_case d tpl) s =
    (if case_key (planned_case d (tpl, nvs)) \<in> co_seen s then s
     else s\<lparr>co_cases := co_cases s @ [planned_case d (tpl, nvs)], co_seen := insert (case_key (planned_case d (tpl, nvs))) (co_seen s)\<rparr>)"
proof -
  have m: "foldl (\<lambda>m nv. m(fst nv \<mapsto> snd nv)) (co_current s) nvs = map_of nvs"
    using assms(1,5) by (simp add: foldl_updates map_of_rev)
  have "fp_name p \<noteq> [] \<and> map_of nvs (fp_name p) \<noteq> None" if "(p, Value_Axis) \<in> set (de_roles d)" for p
    using infer_roles_value[OF assms(3) that] assms(2) by (auto simp: map_of_eq_None_iff)
  then have "call_args (de_importer_check d) (map_of nvs) (de_roles d) = Inr (planned_args (map_of nvs) (de_roles d))"
    using call_args_planned assms(4) by simp
  then show ?thesis using assms(5) unfolding with_values_def m
    by (cases s) (simp add: emit_case_def add_case_def planned_case_def Let_def)
qed

lemma foldl_planned:
  assumes "\<And>c. c \<in> set plan \<Longrightarrow> distinct (map fst (snd c)) \<and> set (map fst (snd c)) = names"
    "infer_roles names 0 params = Inr (de_roles d)" "de_importer_check d = (\<lambda>_. None)" "co_current s = Map.empty"
  shows "foldl (\<lambda>s c. with_values (snd c) (emit_case d (fst c)) s) s plan =
     s\<lparr>co_cases := co_cases s @ first_by case_key (co_seen s) (map (planned_case d) plan),
       co_seen := co_seen s \<union> case_key ` planned_case d ` set plan\<rparr>"
  using assms(1,4)
proof (induction plan arbitrary: s)
  case (Cons c plan)
  let ?k = "case_key (planned_case d c)"
  have step: "with_values (snd c) (emit_case d (fst c)) s =
      (if ?k \<in> co_seen s then s else s\<lparr>co_cases := co_cases s @ [planned_case d c], co_seen := insert ?k (co_seen s)\<rparr>)"
    using emit_planned[OF _ _ assms(2,3) Cons.prems(2), of "snd c" "fst c"] Cons.prems(1)[of c] by simp
  show ?case
  proof (cases "?k \<in> co_seen s")
    case True
    then show ?thesis using Cons step by (simp add: insert_absorb)
  next
    case False
    then show ?thesis using Cons step by simp
  qed
qed (cases s, simp)


text \<open>A function of an integer and a string with two values each, written as attributes.\<close>

definition sample_params :: "FunctionParamInfo list" where
  "sample_params = map (\<lambda>(n, t). \<lparr>fp_name = n, fp_type_spelling = t, fp_has_default_arg = False, fp_fixture_type = [], fp_emit_type = [],
     fp_entity_key = [], fp_required_scope = None, fp_importer_error = None\<rparr>) [(''n'', ''int''), (''s'', ''std::string'')]"

definition sample_summary :: validation where
  "sample_summary = init_validation\<lparr>as_parameter_sets := [\<lparr>ps_param_name = ''n'', ps_values = [''1'', ''2'']\<rparr>, \<lparr>ps_param_name = ''s'', ps_values = [''a'', ''b'']\<rparr>]\<rparr>"

definition sample_decl :: decl_info where
  "sample_decl = \<lparr>de_qualified = ''t'', de_is_template = False, de_final_base = ''s/t'', de_filename = ''t.cpp'', de_line = 7,
     de_roles = map (\<lambda>p. (p, Value_Axis)) sample_params, de_importer_check = (\<lambda>_. None)\<rparr>"

definition sample_env :: num_env where
  "sample_env = \<lparr>ne_stod = (\<lambda>_. None), ne_fmt_double = (\<lambda>_. []), ne_pow = (\<lambda>b _. b)\<rparr>"

definition sample_axes :: "axis list" where
  "sample_axes = [[(''n'', ''1''), (''n'', ''2'')], [(''s'', ''a''), (''s'', ''b'')]]"

lemma sample_facts:
  "validate_axis_names (param_types sample_params) (axis_names sample_summary) {} = Inr {''n'', ''s''}"
  "infer_roles {''n'', ''s''} 0 sample_params = Inr (de_roles sample_decl)"
  "scalar_axes sample_env (param_types sample_params) sample_summary = Inr sample_axes"
  "summary_wf sample_summary" "de_importer_check sample_decl = (\<lambda>_. None)" "as_param_packs sample_summary = []"
  by (auto simp: sample_params_def sample_summary_def sample_decl_def sample_axes_def axis_names_def init_validation_def param_types_def Let_def
      scalar_axes_def summary_wf_def)


subsection \<open>Integer ranges\<close>

lemma int_range_values:
  assumes "int_range a st b = Some vs" "st > 0 \<and> a \<le> b \<or> st < 0 \<and> a \<ge> b"
  shows "vs = map (\<lambda>i. a + int i * st) [0..<nat ((b - a) div st) + 1]"
  using assms
proof (induction a st b arbitrary: vs rule: int_range.induct)
  case (1 a st b)
  obtain ws where ws: "int_range (a + st) st b = Some ws" "vs = a # ws" "in_llong (a + st)"
    using "1.prems" by (subst (asm) int_range.simps) (auto split: if_splits)
  let ?k = "nat ((b - a) div st)"
  have st: "st \<noteq> 0" using "1.prems"(2) by auto
  show ?case
  proof (cases "st > 0 \<and> a + st \<le> b \<or> st < 0 \<and> a + st \<ge> b")
    case True
    have "(b - a + st * (- 1)) div st = - 1 + (b - a) div st" using st by (rule div_mult_self2)
    then have d: "(b - (a + st)) div st = (b - a) div st - 1" by (simp add: algebra_simps)
    have "(b - (a + st)) div st \<ge> 0" using True by (auto simp: pos_imp_zdiv_nonneg_iff neg_imp_zdiv_nonneg_iff)
    then have "(b - a) div st \<ge> 1" using d by simp
    then have k: "?k = Suc (nat ((b - (a + st)) div st))" using d by linarith
    have "ws = map (\<lambda>i. a + st + int i * st) [0..<?k]"
      using "1.IH"[OF _ ws(3) ws(1) True] "1.prems"(2) k by simp
    moreover have "map (\<lambda>i. a + int i * st) [0..<?k + 1] = a # map (\<lambda>i. a + st + int i * st) [0..<?k]"
      by (simp add: upt_conv_Cons map_Suc_upt[symmetric] algebra_simps del: upt_Suc)
    ultimately show ?thesis using ws(2) by simp
  next
    case False
    then have "ws = []" using ws(1) by (subst (asm) int_range.simps) auto
    moreover have "(b - a) div st = 0" using False "1.prems"(2)
      by (auto intro: div_pos_pos_trivial div_neg_neg_trivial)
    ultimately show ?thesis using ws(2) by simp
  qed
qed

text \<open>
  A range over an integer parameter whose end is the largest 64-bit value runs into signed
  overflow after its last value: the loop adds the step before it compares with the end.
\<close>

theorem range_overflows_at_limit:
  "range_axis env ''int'' \<lparr>rg_name = ''i'', rg_start = ''9223372036854775806'', rg_step = ''1'', rg_end = ''9223372036854775807''\<rparr>
    = Inl Signed_Overflow"
proof -
  have i: "is_integer_type ''int''" by (simp add: is_integer_type_def contains_text_def starts_with_def)
  have "stoll ''9223372036854775806'' = Some 9223372036854775806" "stoll ''9223372036854775807'' = Some 9223372036854775807" "stoll ''1'' = Some 1"
    by (simp_all add: stoll_def isspace_def isdigit_def digit_value_def in_llong_def)
  then have n: "to_int env ''9223372036854775806'' = 9223372036854775806" "to_int env ''9223372036854775807'' = 9223372036854775807" "to_int env ''1'' = 1"
    by (simp_all add: to_int_def)
  have "int_range 9223372036854775806 1 9223372036854775807 = None"
    by (simp add: int_range.simps in_llong_def)
  then show ?thesis using i n by (simp add: range_axis_def step_or_one_def)
qed

end
