(* ===== verification/Fixture_Resolve.thy ===== *)
theory Fixture_Resolve
  imports Case_Expand
begin

section \<open>Resolution of fixture parameters: \<^verbatim>\<open>tools/src/discovery.cpp\<close>\<close>

text \<open>
  The fixture parameters of a test name types; resolution finds the declared shared fixture that a
  type denotes, by its entity, by its qualified name or by lookup in the enclosing namespaces, or
  decides that the fixture is local to the test.  Pointers to declarations are positions in the
  list of fixtures.
\<close>

subsection \<open>Declarations and tests\<close>

record FixtureDeclInfo =
  fd_qualified_name :: string
  fd_registration_type_name :: string
  fd_base_name :: string
  fd_namespace_parts :: "string list"
  fd_suite_name :: string
  fd_scope :: FixtureScope
  fd_tu_filename :: string
  fd_filename :: string
  fd_line :: nat
  fd_entity_key :: string
  fd_importer_reachable :: bool
  fd_declaration_site_key :: string
  fd_semantic_fingerprint :: string
  fd_scan_context :: string
  fd_scan_slot :: nat
  fd_registration_header :: string

record FreeFixtureUse =
  fu_type_name :: string
  fu_registry_name :: string
  fu_scope :: FixtureScope
  fu_suite_name :: string

record test_info =
  te_display_name :: string
  te_tu_filename :: string
  te_filename :: string
  te_line :: nat
  te_namespace_parts :: "string list"
  te_returns_async :: bool
  te_fixture_types :: "string list"
  te_emit_types :: "string list"
  te_required_scopes :: "FixtureScope option list"
  te_entity_keys :: "string list"
  te_free_fixtures :: "FreeFixtureUse list"
  te_registration_headers :: "string list"
  te_qualified_name :: string
  te_base_name :: string
  te_declaration_site_key :: string
  te_entity_key :: string
  te_semantic_fingerprint :: string
  te_scan_context :: string
  te_scan_slot :: nat
  te_call_arguments :: string

record ParsedFixtureType =
  pf_base :: string
  pf_suffix :: string
  pf_full :: string
  pf_qualified :: bool

fun angle_split :: "nat \<Rightarrow> nat \<Rightarrow> string \<Rightarrow> nat option" where
  "angle_split i depth [] = None"
| "angle_split i depth (c # cs) =
     (if c = CHR ''<'' then if depth = 0 then Some i else angle_split (i + 1) (depth + 1) cs
      else if c = CHR ''>'' then angle_split (i + 1) (depth - 1) cs
      else angle_split (i + 1) depth cs)"

definition parse_fixture_type :: "string \<Rightarrow> ParsedFixtureType" where
  "parse_fixture_type text =
     (let full = trim_copy text; split = angle_split 0 0 full;
          base = (case split of None \<Rightarrow> trim_copy full | Some i \<Rightarrow> trim_copy (take i full));
          suffix = (case split of None \<Rightarrow> [] | Some i \<Rightarrow> drop i full)
      in \<lparr>pf_base = base, pf_suffix = suffix, pf_full = full, pf_qualified = contains_text base ''::''\<rparr>)"

definition strip_leading_colons :: "string \<Rightarrow> string" where
  "strip_leading_colons text = (if starts_with text ''::'' then drop 2 text else text)"

fun is_prefix :: "string list \<Rightarrow> string list \<Rightarrow> bool" where
  "is_prefix [] value = True"
| "is_prefix (p # ps) [] = False"
| "is_prefix (p # ps) (v # vs) = (p = v \<and> is_prefix ps vs)"

definition join_namespace :: "string list \<Rightarrow> string" where
  "join_namespace parts = join_with ''::'' parts"

subsection \<open>Lookup tables\<close>

record FixtureLookup =
  fl_by_base :: "string \<rightharpoonup> nat list"
  fl_by_qualified :: "string \<rightharpoonup> nat"

definition add_to_lookup :: "FixtureDeclInfo list \<Rightarrow> (string \<rightharpoonup> FixtureLookup) \<Rightarrow> nat \<Rightarrow> (string \<rightharpoonup> FixtureLookup)" where
  "add_to_lookup fixtures lookups i =
     (let f = fixtures ! i;
          l = (case lookups (fd_tu_filename f) of None \<Rightarrow> \<lparr>fl_by_base = Map.empty, fl_by_qualified = Map.empty\<rparr> | Some l \<Rightarrow> l);
          old = (case fl_by_base l (fd_base_name f) of None \<Rightarrow> [] | Some is \<Rightarrow> is);
          l1 = l\<lparr>fl_by_base := (fl_by_base l)(fd_base_name f \<mapsto> old @ [i])\<rparr>;
          l2 = (if fd_qualified_name f = [] then l1 else l1\<lparr>fl_by_qualified := (fl_by_qualified l1)(fd_qualified_name f \<mapsto> i)\<rparr>)
      in lookups(fd_tu_filename f \<mapsto> l2))"

definition build_fixture_lookups :: "FixtureDeclInfo list \<Rightarrow> string \<rightharpoonup> FixtureLookup" where
  "build_fixture_lookups fixtures = foldl (add_to_lookup fixtures) Map.empty [0..<length fixtures]"

definition fixtures_by_entity :: "FixtureDeclInfo list \<Rightarrow> string \<rightharpoonup> nat" where
  "fixtures_by_entity fixtures =
     foldl (\<lambda>m i. let k = fd_entity_key (fixtures ! i) in if k = [] \<or> m k \<noteq> None then m else m(k \<mapsto> i)) Map.empty [0..<length fixtures]"

definition is_visible_fixture_for_test :: "FixtureDeclInfo \<Rightarrow> test_info \<Rightarrow> bool" where
  "is_visible_fixture_for_test f t = is_prefix (fd_namespace_parts f) (te_namespace_parts t)"

fun best_loop :: "FixtureDeclInfo list \<Rightarrow> test_info \<Rightarrow> nat option \<Rightarrow> nat list \<Rightarrow> nat option" where
  "best_loop fixtures t best [] = best"
| "best_loop fixtures t best (i # is) =
     (if \<not> is_visible_fixture_for_test (fixtures ! i) t then best_loop fixtures t best is
      else case best of
             None \<Rightarrow> best_loop fixtures t (Some i) is
           | Some j \<Rightarrow>
               if length (fd_namespace_parts (fixtures ! i)) > length (fd_namespace_parts (fixtures ! j))
               then best_loop fixtures t (Some i) is else best_loop fixtures t best is)"

definition find_best_visible_fixture :: "FixtureDeclInfo list \<Rightarrow> FixtureLookup \<Rightarrow> string \<Rightarrow> test_info \<Rightarrow> nat option" where
  "find_best_visible_fixture fixtures l base t =
     (case fl_by_base l base of None \<Rightarrow> None | Some is \<Rightarrow> best_loop fixtures t None is)"

definition builtin_types :: "string list" where
  "builtin_types = [''bool'', ''char'', ''char8_t'', ''char16_t'', ''char32_t'', ''wchar_t'', ''signed char'', ''short'', ''short int'', ''int'',
     ''long'', ''long int'', ''long long'', ''long long int'', ''unsigned char'', ''unsigned short'', ''unsigned short int'', ''unsigned'',
     ''unsigned int'', ''unsigned long'', ''unsigned long int'', ''unsigned long long'', ''unsigned long long int'', ''float'', ''double'',
     ''long double'']"

definition derive_local_fixture_type_name :: "ParsedFixtureType \<Rightarrow> test_info \<Rightarrow> string" where
  "derive_local_fixture_type_name parsed t =
     (if pf_qualified parsed \<or> pf_base parsed \<in> set builtin_types then pf_full parsed
      else let ns_prefix = join_namespace (te_namespace_parts t)
           in if ns_prefix = [] then pf_base parsed @ pf_suffix parsed else ns_prefix @ ''::'' @ pf_base parsed @ pf_suffix parsed)"

subsection \<open>Resolving one parameter\<close>

definition nth_or :: "'a \<Rightarrow> 'a list \<Rightarrow> nat \<Rightarrow> 'a" where
  "nth_or x xs i = (if i < length xs then xs ! i else x)"

fun scope_name :: "FixtureScope \<Rightarrow> string" where
  "scope_name FS_Local = ''local''"
| "scope_name FS_Suite = ''suite''"
| "scope_name FS_Global = ''global''"

text \<open>The decision for one parameter: a message, a local fixture, or a declared one with the type visible at the test.\<close>

datatype resolution = Rejected string | Local_Use string | Declared_Use nat string string

definition emit_local :: "ParsedFixtureType \<Rightarrow> FixtureScope option \<Rightarrow> string \<Rightarrow> resolution" where
  "emit_local parsed required name =
     (case required of
        Some sc \<Rightarrow> Rejected (''fixture '' @ quoted (pf_full parsed) @ '' is declared as '' @ quoted (scope_name sc)
          @ '' but resolved as local; ensure the fixture declaration is visible and in an ancestor namespace'')
      | None \<Rightarrow> Local_Use name)"

definition emit_declared :: "FixtureDeclInfo list \<Rightarrow> ParsedFixtureType \<Rightarrow> FixtureScope option \<Rightarrow> string \<Rightarrow> string \<Rightarrow> nat \<Rightarrow> resolution" where
  "emit_declared fixtures parsed required raw_type emit_type i =
     (let f = fixtures ! i
      in if required \<noteq> None \<and> fd_scope f \<noteq> the required
         then Rejected (''fixture '' @ quoted (pf_full parsed) @ '' declared as '' @ quoted (scope_name (the required)) @ '' but resolved as ''
                @ quoted (scope_name (fd_scope f)) @ '' via '' @ quoted (fd_qualified_name f))
         else Declared_Use i (pf_suffix parsed) (if emit_type = raw_type then [] else pf_full (parse_fixture_type emit_type)))"

definition not_in_ancestor :: "string \<Rightarrow> resolution" where
  "not_in_ancestor name = Rejected (''fixture '' @ quoted name @ '' is not in an ancestor namespace of this test'')"

definition resolve_fixture ::
  "FixtureDeclInfo list \<Rightarrow> (string \<rightharpoonup> nat) \<Rightarrow> FixtureLookup option \<Rightarrow> test_info \<Rightarrow> nat \<Rightarrow> resolution" where
  "resolve_fixture fixtures by_entity lookup t idx =
     (let raw_type = te_fixture_types t ! idx; emit_type = nth_or raw_type (te_emit_types t) idx;
          required = nth_or None (te_required_scopes t) idx; entity = nth_or [] (te_entity_keys t) idx;
          parsed = parse_fixture_type raw_type; base_no_colons = strip_leading_colons (pf_base parsed);
          declared = emit_declared fixtures parsed required raw_type emit_type;
          fallback = emit_local parsed required (derive_local_fixture_type_name (parse_fixture_type emit_type) t)
      in if pf_base parsed = [] then Rejected ''empty inferred fixture type from function signature''
         else case (if entity = [] then None else by_entity entity) of
                Some i \<Rightarrow> if \<not> is_visible_fixture_for_test (fixtures ! i) t then not_in_ancestor (pf_full parsed) else declared i
              | None \<Rightarrow>
                  (case lookup of
                     None \<Rightarrow> fallback
                   | Some l \<Rightarrow>
                       if pf_qualified parsed
                       then (case fl_by_qualified l base_no_colons of
                               Some i \<Rightarrow> if \<not> is_visible_fixture_for_test (fixtures ! i) t then not_in_ancestor base_no_colons else declared i
                             | None \<Rightarrow> emit_local parsed required (pf_full (parse_fixture_type emit_type)))
                       else (case find_best_visible_fixture fixtures l (pf_base parsed) t of
                               Some i \<Rightarrow> declared i
                             | None \<Rightarrow> if fl_by_base l (pf_base parsed) \<noteq> None then not_in_ancestor (pf_base parsed) else fallback)))"

subsection \<open>Resolving all cases\<close>

record resolver =
  re_fixtures :: "FixtureDeclInfo list"
  re_log :: "string list"

definition log_test :: "test_info \<Rightarrow> string \<Rightarrow> string" where
  "log_test t msg = ''gentest_codegen: '' @ te_filename t @ '':'' @ show_nat (te_line t) @ '': '' @ msg @ '' (test '' @ te_display_name t @ '')'' @ [LF]"

definition note_registration_type :: "string \<Rightarrow> FixtureDeclInfo \<Rightarrow> FixtureDeclInfo" where
  "note_registration_type visible f =
     (if \<not> fd_importer_reachable f \<and> visible \<noteq> [] \<and> (fd_registration_type_name f = [] \<or> visible < fd_registration_type_name f)
      then f\<lparr>fd_registration_type_name := visible\<rparr> else f)"

definition declared_use :: "FixtureDeclInfo \<Rightarrow> string \<Rightarrow> string \<Rightarrow> FreeFixtureUse" where
  "declared_use f suffix visible =
     \<lparr>fu_type_name = (if visible = [] then fd_qualified_name f @ suffix else visible), fu_registry_name = fd_qualified_name f @ suffix,
      fu_scope = fd_scope f, fu_suite_name = fd_suite_name f\<rparr>"

definition apply_resolution :: "test_info \<times> resolver \<Rightarrow> resolution \<Rightarrow> test_info \<times> resolver" where
  "apply_resolution ts r =
     (case ts of (t, s) \<Rightarrow>
        case r of
          Rejected msg \<Rightarrow> (t, s\<lparr>re_log := re_log s @ [log_test t msg]\<rparr>)
        | Local_Use name \<Rightarrow>
            (t\<lparr>te_free_fixtures := te_free_fixtures t @ [\<lparr>fu_type_name = name, fu_registry_name = [], fu_scope = FS_Local, fu_suite_name = []\<rparr>]\<rparr>, s)
        | Declared_Use i suffix visible \<Rightarrow>
            let f = re_fixtures s ! i
            in (t\<lparr>te_free_fixtures := te_free_fixtures t @ [declared_use f suffix visible],
                  te_registration_headers := (if fd_filename f = [] \<or> fd_filename f \<in> set (te_registration_headers t)
                                              then te_registration_headers t else te_registration_headers t @ [fd_filename f])\<rparr>,
                s\<lparr>re_fixtures := (re_fixtures s)[i := note_registration_type visible f]\<rparr>))"

definition resolve_index ::
  "(string \<rightharpoonup> nat) \<Rightarrow> FixtureLookup option \<Rightarrow> test_info \<times> resolver \<Rightarrow> nat \<Rightarrow> test_info \<times> resolver" where
  "resolve_index by_entity lookup ts idx =
     apply_resolution ts (resolve_fixture (re_fixtures (snd ts)) by_entity lookup (fst ts) idx)"

definition shared_uses :: "test_info \<Rightarrow> nat" where
  "shared_uses t = length (filter (\<lambda>u. fu_scope u \<noteq> FS_Local) (te_free_fixtures t))"

definition resolve_test ::
  "(string \<rightharpoonup> nat) \<Rightarrow> (string \<rightharpoonup> FixtureLookup) \<Rightarrow> test_info \<Rightarrow> resolver \<Rightarrow> test_info \<times> resolver" where
  "resolve_test by_entity lookups t s =
     (let t0 = t\<lparr>te_registration_headers := []\<rparr>
      in if te_fixture_types t0 = [] then (t0, s)
         else let ts = foldl (resolve_index by_entity (lookups (te_tu_filename t0))) (t0\<lparr>te_free_fixtures := []\<rparr>, s) [0..<length (te_fixture_types t0)]
              in if te_returns_async (fst ts) \<and> shared_uses (fst ts) > 1
                 then (fst ts, (snd ts)\<lparr>re_log := re_log (snd ts) @ [log_test (fst ts) (''async tests may depend on at most one suite/global fixture parameter; ''
                        @ ''multiple shared fixture parameters would make execution order parameter-dependent'')]\<rparr>)
                 else ts)"

fun resolve_tests ::
  "(string \<rightharpoonup> nat) \<Rightarrow> (string \<rightharpoonup> FixtureLookup) \<Rightarrow> test_info list \<Rightarrow> resolver \<Rightarrow> test_info list \<times> resolver" where
  "resolve_tests by_entity lookups [] s = ([], s)"
| "resolve_tests by_entity lookups (t # ts) s =
     (case resolve_test by_entity lookups t s of (t', s1) \<Rightarrow> case resolve_tests by_entity lookups ts s1 of (ts', s2) \<Rightarrow> (t' # ts', s2))"

definition unreachable_message :: "FixtureDeclInfo \<Rightarrow> string" where
  "unreachable_message f = ''gentest_codegen: '' @ fd_filename f @ '':'' @ show_nat (fd_line f) @ '': shared fixture '' @ quoted (fd_qualified_name f)
     @ '' is not reachable after importing its named module; export the fixture definition or use an exported alias from a registered case'' @ [LF]"

text \<open>The result is accepted when nothing was logged.\<close>

definition resolve_free_fixtures :: "test_info list \<Rightarrow> FixtureDeclInfo list \<Rightarrow> test_info list \<times> resolver" where
  "resolve_free_fixtures cases fixtures =
     (case resolve_tests (fixtures_by_entity fixtures) (build_fixture_lookups fixtures) cases \<lparr>re_fixtures = fixtures, re_log = []\<rparr> of
        (ts, s) \<Rightarrow> (ts, s\<lparr>re_log := re_log s @ map unreachable_message
                       (filter (\<lambda>f. \<not> fd_importer_reachable f \<and> fd_registration_type_name f = []) (re_fixtures s))\<rparr>))"

subsection \<open>The tables answer like a search\<close>

lemma is_prefix_iff: "is_prefix ps vs \<longleftrightarrow> (\<exists>ws. vs = ps @ ws)"
  by (induction ps vs rule: is_prefix.induct) auto

lemma entity_table: "fixtures_by_entity fixtures k = (if k = [] then None else find (\<lambda>i. fd_entity_key (fixtures ! i) = k) [0..<length fixtures])"
proof -
  let ?add = "\<lambda>m i. let e = fd_entity_key (fixtures ! i) in if e = [] \<or> m e \<noteq> None then m else m(e \<mapsto> i)"
  have "foldl ?add m xs k = (if k = [] then m k else case m k of Some i \<Rightarrow> Some i | None \<Rightarrow> find (\<lambda>i. fd_entity_key (fixtures ! i) = k) xs)" for m xs
    by (induction xs arbitrary: m) (auto simp: Let_def split: option.splits)
  from this[of Map.empty] show ?thesis by (simp add: fixtures_by_entity_def)
qed

text \<open>What the table of one translation unit holds after adding the fixtures \<open>xs\<close>.\<close>

definition table_for :: "FixtureDeclInfo list \<Rightarrow> string \<Rightarrow> nat list \<Rightarrow> FixtureLookup option \<Rightarrow> bool" where
  "table_for fixtures tu xs l \<longleftrightarrow>
     (let here = filter (\<lambda>i. fd_tu_filename (fixtures ! i) = tu) xs
      in (l = None \<longleftrightarrow> here = [])
       \<and> (\<forall>t. l = Some t \<longrightarrow>
            (\<forall>b. fl_by_base t b = (case filter (\<lambda>i. fd_base_name (fixtures ! i) = b) here of [] \<Rightarrow> None | is \<Rightarrow> Some is))
          \<and> (\<forall>q. q \<noteq> [] \<longrightarrow> fl_by_qualified t q = find (\<lambda>i. fd_qualified_name (fixtures ! i) = q) (rev here))
          \<and> fl_by_qualified t [] = None))"

lemma table_step:
  assumes "table_for fixtures tu xs (lookups tu)"
  shows "table_for fixtures tu (xs @ [i]) (add_to_lookup fixtures lookups i tu)"
proof (cases "fd_tu_filename (fixtures ! i) = tu")
  case False
  then show ?thesis using assms by (auto simp: table_for_def add_to_lookup_def Let_def)
next
  case True
  let ?here = "filter (\<lambda>i. fd_tu_filename (fixtures ! i) = tu) xs"
  define l where "l = (case lookups tu of None \<Rightarrow> \<lparr>fl_by_base = Map.empty, fl_by_qualified = Map.empty\<rparr> | Some l \<Rightarrow> l)"
  have b: "fl_by_base l b = (case filter (\<lambda>i. fd_base_name (fixtures ! i) = b) ?here of [] \<Rightarrow> None | is \<Rightarrow> Some is)" for b
    using assms by (cases "lookups tu") (auto simp: table_for_def l_def Let_def)
  have q: "q \<noteq> [] \<Longrightarrow> fl_by_qualified l q = find (\<lambda>i. fd_qualified_name (fixtures ! i) = q) (rev ?here)" "fl_by_qualified l [] = None" for q
    using assms by (cases "lookups tu"; auto simp: table_for_def l_def Let_def)+
  define old where "old = (case fl_by_base l (fd_base_name (fixtures ! i)) of None \<Rightarrow> [] | Some is \<Rightarrow> is)"
  have old: "old = filter (\<lambda>j. fd_base_name (fixtures ! j) = fd_base_name (fixtures ! i)) ?here"
    by (simp add: old_def b split: list.splits)
  have "add_to_lookup fixtures lookups i tu = Some (let l1 = l\<lparr>fl_by_base := (fl_by_base l)(fd_base_name (fixtures ! i) \<mapsto> old @ [i])\<rparr>
      in if fd_qualified_name (fixtures ! i) = [] then l1 else l1\<lparr>fl_by_qualified := (fl_by_qualified l1)(fd_qualified_name (fixtures ! i) \<mapsto> i)\<rparr>)"
    using True by (simp add: add_to_lookup_def Let_def l_def old_def)
  then show ?thesis using True by (auto simp: table_for_def Let_def b q old split: list.splits)
qed

lemma lookup_tables: "table_for fixtures tu [0..<length fixtures] (build_fixture_lookups fixtures tu)"
proof -
  have "table_for fixtures tu xs (foldl (add_to_lookup fixtures) Map.empty xs tu)" for xs
    by (induction xs rule: rev_induct) (simp_all add: table_step, simp add: table_for_def)
  then show ?thesis by (simp add: build_fixture_lookups_def)
qed

subsection \<open>The innermost visible fixture\<close>

lemma best_loop_spec:
  assumes "\<forall>j. best = Some j \<longrightarrow> is_visible_fixture_for_test (fixtures ! j) t"
  shows "case best_loop fixtures t best is of
      None \<Rightarrow> best = None \<and> (\<forall>i \<in> set is. \<not> is_visible_fixture_for_test (fixtures ! i) t)
    | Some i \<Rightarrow> (i \<in> set is \<or> best = Some i) \<and> is_visible_fixture_for_test (fixtures ! i) t
        \<and> (\<forall>j \<in> set is \<union> set_option best. is_visible_fixture_for_test (fixtures ! j) t \<longrightarrow>
             length (fd_namespace_parts (fixtures ! j)) \<le> length (fd_namespace_parts (fixtures ! i)))"
  using assms
proof (induction "is" arbitrary: best)
  case Nil
  then show ?case by (cases best) auto
next
  case (Cons i "is")
  show ?case
  proof (cases "is_visible_fixture_for_test (fixtures ! i) t")
    case False
    then show ?thesis using Cons.IH[OF Cons.prems] by (auto split: option.splits)
  next
    case True
    show ?thesis
    proof (cases best)
      case None
      then show ?thesis using Cons.IH[of "Some i"] True by (auto split: option.splits)
    next
      case (Some j)
      then show ?thesis using Cons.IH[of "Some i"] Cons.IH[of best] Cons.prems True
        by (cases "length (fd_namespace_parts (fixtures ! i)) > length (fd_namespace_parts (fixtures ! j))") (force split: option.splits)+
    qed
  qed
qed

subsection \<open>What a parameter denotes\<close>

definition fixture_type_of :: "test_info \<Rightarrow> nat \<Rightarrow> ParsedFixtureType" where
  "fixture_type_of t idx = parse_fixture_type (te_fixture_types t ! idx)"

definition named_by_entity :: "test_info \<Rightarrow> nat \<Rightarrow> FixtureDeclInfo \<Rightarrow> bool" where
  "named_by_entity t idx f \<longleftrightarrow> nth_or [] (te_entity_keys t) idx \<noteq> [] \<and> fd_entity_key f = nth_or [] (te_entity_keys t) idx"

definition named_by_type :: "test_info \<Rightarrow> nat \<Rightarrow> FixtureDeclInfo \<Rightarrow> bool" where
  "named_by_type t idx f \<longleftrightarrow>
     fd_tu_filename f = te_tu_filename t
     \<and> (if pf_qualified (fixture_type_of t idx)
        then fd_qualified_name f \<noteq> [] \<and> fd_qualified_name f = strip_leading_colons (pf_base (fixture_type_of t idx))
        else fd_base_name f = pf_base (fixture_type_of t idx))"

text \<open>
  A use is right when it is a visible declaration that the parameter names, of the scope the type
  requires, and innermost when the type is not qualified; or a local fixture that no declaration
  is named by.
\<close>

definition declared_use_ok :: "FixtureDeclInfo list \<Rightarrow> test_info \<Rightarrow> nat \<Rightarrow> FixtureDeclInfo \<Rightarrow> bool" where
  "declared_use_ok fixtures t idx f \<longleftrightarrow>
     f \<in> set fixtures \<and> is_visible_fixture_for_test f t
     \<and> (nth_or None (te_required_scopes t) idx = None \<or> nth_or None (te_required_scopes t) idx = Some (fd_scope f))
     \<and> (named_by_entity t idx f
        \<or> named_by_type t idx f
          \<and> (pf_qualified (fixture_type_of t idx)
             \<or> (\<forall>g \<in> set fixtures. named_by_type t idx g \<and> is_visible_fixture_for_test g t \<longrightarrow>
                  length (fd_namespace_parts g) \<le> length (fd_namespace_parts f))))"

definition local_use_ok :: "FixtureDeclInfo list \<Rightarrow> test_info \<Rightarrow> nat \<Rightarrow> bool" where
  "local_use_ok fixtures t idx \<longleftrightarrow>
     nth_or None (te_required_scopes t) idx = None \<and> (\<forall>f \<in> set fixtures. \<not> named_by_entity t idx f \<and> \<not> named_by_type t idx f)"

definition use_ok :: "FixtureDeclInfo list \<Rightarrow> test_info \<Rightarrow> nat \<Rightarrow> FreeFixtureUse \<Rightarrow> bool" where
  "use_ok fixtures t idx u \<longleftrightarrow>
     (\<exists>f. declared_use_ok fixtures t idx f \<and> fu_scope u = fd_scope f \<and> fu_suite_name u = fd_suite_name f
          \<and> fu_registry_name u = fd_qualified_name f @ pf_suffix (fixture_type_of t idx))
     \<or> local_use_ok fixtures t idx \<and> fu_scope u = FS_Local \<and> fu_registry_name u = []"

lemma find_upt: "find P [0..<n] = Some i \<Longrightarrow> i < n \<and> P i" "find P [0..<n] = None \<longleftrightarrow> (\<forall>i < n. \<not> P i)"
  by (auto simp: find_Some_iff find_None_iff)

lemma find_rev_filter:
  "find P (rev (filter Q xs)) = Some i \<Longrightarrow> i \<in> set xs \<and> P i \<and> Q i" "find P (rev (filter Q xs)) = None \<longleftrightarrow> (\<forall>i \<in> set xs. Q i \<longrightarrow> \<not> P i)"
  by (auto simp: find_Some_iff find_None_iff) (metis nth_mem set_filter set_rev mem_Collect_eq length_rev)+

abbreviation tables_resolve :: "FixtureDeclInfo list \<Rightarrow> FixtureDeclInfo list \<Rightarrow> test_info \<Rightarrow> nat \<Rightarrow> resolution" where
  "tables_resolve fs gs t idx \<equiv> resolve_fixture gs (fixtures_by_entity fs) (build_fixture_lookups fs (te_tu_filename t)) t idx"

lemma emit_declared_Declared:
  "emit_declared fs parsed required raw em i = Declared_Use j suf vis \<longleftrightarrow>
     j = i \<and> suf = pf_suffix parsed \<and> (required = None \<or> required = Some (fd_scope (fs ! i))) \<and> vis = (if em = raw then [] else pf_full (parse_fixture_type em))"
  "emit_declared fs parsed required raw em i \<noteq> Local_Use name"
  by (cases required; auto simp: emit_declared_def Let_def)+

lemma emit_local_cases:
  "emit_local parsed required name = Local_Use n \<longleftrightarrow> n = name \<and> required = None" "emit_local parsed required name \<noteq> Declared_Use j suf vis"
  "not_in_ancestor m \<noteq> Local_Use n" "not_in_ancestor m \<noteq> Declared_Use j suf vis"
  by (auto simp: emit_local_def not_in_ancestor_def split: option.splits)

text \<open>The four ways a parameter is resolved.\<close>

lemma resolve_cases:
  fixes fs t idx
  defines "p \<equiv> fixture_type_of t idx" and "e \<equiv> nth_or [] (te_entity_keys t) idx"
  assumes r: "tables_resolve fs fs t idx = r" "r = Declared_Use i suf vis \<or> r = Local_Use name"
  shows "(\<exists>j. fixtures_by_entity fs e = Some j \<and> r = Declared_Use i suf vis \<and> i = j \<and> is_visible_fixture_for_test (fs ! i) t)
    \<or> fixtures_by_entity fs e = None \<and> build_fixture_lookups fs (te_tu_filename t) = None \<and> r = Local_Use name
    \<or> (\<exists>l. fixtures_by_entity fs e = None \<and> build_fixture_lookups fs (te_tu_filename t) = Some l \<and> pf_qualified p
         \<and> (if r = Local_Use name then fl_by_qualified l (strip_leading_colons (pf_base p)) = None
            else fl_by_qualified l (strip_leading_colons (pf_base p)) = Some i \<and> is_visible_fixture_for_test (fs ! i) t))
    \<or> (\<exists>l. fixtures_by_entity fs e = None \<and> build_fixture_lookups fs (te_tu_filename t) = Some l \<and> \<not> pf_qualified p
         \<and> (if r = Local_Use name then fl_by_base l (pf_base p) = None else find_best_visible_fixture fs l (pf_base p) t = Some i))"
proof -
  have e: "(if e = [] then None else fixtures_by_entity fs e) = fixtures_by_entity fs e" by (simp add: entity_table)
  show ?thesis
  proof (cases "fixtures_by_entity fs e")
    case (Some j)
    then show ?thesis using r unfolding resolve_fixture_def Let_def e_def[symmetric] e
      by (auto simp: emit_declared_Declared emit_local_cases split: if_splits)
  next
    case None
    then show ?thesis using r unfolding resolve_fixture_def Let_def e_def[symmetric] e p_def fixture_type_of_def
      by (auto simp: emit_declared_Declared emit_local_cases split: if_splits option.splits)
  qed
qed

lemma resolve_required:
  assumes "tables_resolve fs fs t idx = Declared_Use i suf vis"
  shows "suf = pf_suffix (fixture_type_of t idx)"
    "nth_or None (te_required_scopes t) idx = None \<or> nth_or None (te_required_scopes t) idx = Some (fd_scope (fs ! i))"
  using assms unfolding resolve_fixture_def Let_def fixture_type_of_def
  by (auto simp: emit_declared_Declared emit_local_cases split: if_splits option.splits)

lemma resolve_required_local:
  assumes "tables_resolve fs fs t idx = Local_Use name"
  shows "nth_or None (te_required_scopes t) idx = None"
  using assms unfolding resolve_fixture_def Let_def
  by (auto simp: emit_declared_Declared emit_local_cases split: if_splits option.splits)

lemma entity_none: "fixtures_by_entity fs (nth_or [] (te_entity_keys t) idx) = None \<Longrightarrow> f \<in> set fs \<Longrightarrow> \<not> named_by_entity t idx f"
  by (auto simp: entity_table named_by_entity_def find_upt(2) in_set_conv_nth split: if_splits)

lemma entity_some:
  "fixtures_by_entity fs (nth_or [] (te_entity_keys t) idx) = Some i \<Longrightarrow> i < length fs \<and> named_by_entity t idx (fs ! i)"
  by (auto simp: entity_table named_by_entity_def dest: find_upt(1) split: if_splits)

lemma table_none: "build_fixture_lookups fs tu = None \<Longrightarrow> f \<in> set fs \<Longrightarrow> fd_tu_filename f \<noteq> tu"
  using lookup_tables[of fs tu] by (auto simp: table_for_def in_set_conv_nth filter_empty_conv)

lemma table_qualified:
  assumes "build_fixture_lookups fs tu = Some l"
  shows "fl_by_qualified l q = Some i \<Longrightarrow> i < length fs \<and> fd_tu_filename (fs ! i) = tu \<and> fd_qualified_name (fs ! i) = q \<and> q \<noteq> []"
    "fl_by_qualified l q = None \<Longrightarrow> f \<in> set fs \<Longrightarrow> fd_tu_filename f = tu \<Longrightarrow> fd_qualified_name f = q \<Longrightarrow> q = []"
proof -
  let ?here = "filter (\<lambda>i. fd_tu_filename (fs ! i) = tu) [0..<length fs]"
  have t: "q \<noteq> [] \<Longrightarrow> fl_by_qualified l q = find (\<lambda>i. fd_qualified_name (fs ! i) = q) (rev ?here)" "fl_by_qualified l [] = None"
    using lookup_tables[of fs tu] assms by (auto simp: table_for_def Let_def)
  show "fl_by_qualified l q = Some i \<Longrightarrow> i < length fs \<and> fd_tu_filename (fs ! i) = tu \<and> fd_qualified_name (fs ! i) = q \<and> q \<noteq> []"
    using t find_rev_filter(1)[of "\<lambda>i. fd_qualified_name (fs ! i) = q" "\<lambda>i. fd_tu_filename (fs ! i) = tu" "[0..<length fs]" i] by (cases "q = []") auto
  show "fl_by_qualified l q = None \<Longrightarrow> f \<in> set fs \<Longrightarrow> fd_tu_filename f = tu \<Longrightarrow> fd_qualified_name f = q \<Longrightarrow> q = []"
    using t(1) find_rev_filter(2)[of "\<lambda>i. fd_qualified_name (fs ! i) = q" "\<lambda>i. fd_tu_filename (fs ! i) = tu" "[0..<length fs]"]
    by (auto simp: in_set_conv_nth)
qed

lemma table_base:
  assumes "build_fixture_lookups fs tu = Some l"
  shows "fl_by_base l b = (case filter (\<lambda>i. fd_tu_filename (fs ! i) = tu \<and> fd_base_name (fs ! i) = b) [0..<length fs] of [] \<Rightarrow> None | is \<Rightarrow> Some is)"
proof -
  have f: "filter (\<lambda>i. fd_base_name (fs ! i) = b) (filter (\<lambda>i. fd_tu_filename (fs ! i) = tu) [0..<length fs])
      = filter (\<lambda>i. fd_tu_filename (fs ! i) = tu \<and> fd_base_name (fs ! i) = b) [0..<length fs]"
    by (auto intro: filter_cong)
  have "fl_by_base l b = (case filter (\<lambda>i. fd_base_name (fs ! i) = b) (filter (\<lambda>i. fd_tu_filename (fs ! i) = tu) [0..<length fs]) of
      [] \<Rightarrow> None | is \<Rightarrow> Some is)"
    using lookup_tables[of fs tu] assms unfolding table_for_def Let_def by blast
  then show ?thesis unfolding f .
qed

lemma best_visible:
  assumes "build_fixture_lookups fs tu = Some l" "find_best_visible_fixture fs l b t = Some i"
  shows "i < length fs \<and> fd_tu_filename (fs ! i) = tu \<and> fd_base_name (fs ! i) = b \<and> is_visible_fixture_for_test (fs ! i) t
    \<and> (\<forall>g \<in> set fs. fd_tu_filename g = tu \<and> fd_base_name g = b \<and> is_visible_fixture_for_test g t \<longrightarrow>
          length (fd_namespace_parts g) \<le> length (fd_namespace_parts (fs ! i)))"
proof -
  let ?is = "filter (\<lambda>i. fd_tu_filename (fs ! i) = tu \<and> fd_base_name (fs ! i) = b) [0..<length fs]"
  have "fl_by_base l b = Some ?is" and "best_loop fs t None ?is = Some i"
    using assms(2) table_base[OF assms(1), of b] by (auto simp: find_best_visible_fixture_def split: option.splits list.splits)
  then show ?thesis using best_loop_spec[of None fs t ?is] by (auto simp: in_set_conv_nth)
qed

lemma resolve_declared_ok:
  assumes "tables_resolve fs fs t idx = Declared_Use i suf vis"
  shows "i < length fs \<and> declared_use_ok fs t idx (fs ! i)"
proof -
  note req = resolve_required(2)[OF assms]
  let ?e = "nth_or [] (te_entity_keys t) idx" and ?p = "fixture_type_of t idx" and ?tu = "te_tu_filename t"
  consider (entity) "fixtures_by_entity fs ?e = Some i" "is_visible_fixture_for_test (fs ! i) t"
    | (qual) l where "build_fixture_lookups fs ?tu = Some l" "pf_qualified ?p" "fl_by_qualified l (strip_leading_colons (pf_base ?p)) = Some i"
        "is_visible_fixture_for_test (fs ! i) t"
    | (base) l where "build_fixture_lookups fs ?tu = Some l" "\<not> pf_qualified ?p" "find_best_visible_fixture fs l (pf_base ?p) t = Some i"
    using resolve_cases[OF assms disjI1[OF refl], of "[]"] by auto
  then show ?thesis
  proof cases
    case entity
    then show ?thesis using entity_some req by (auto simp: declared_use_ok_def)
  next
    case qual
    then show ?thesis using table_qualified(1)[OF qual(1,3)] req by (auto simp: declared_use_ok_def named_by_type_def)
  next
    case base
    then show ?thesis using best_visible[OF base(1,3)] req by (auto simp: declared_use_ok_def named_by_type_def)
  qed
qed

lemma resolve_local_ok:
  assumes "tables_resolve fs fs t idx = Local_Use name"
  shows "local_use_ok fs t idx"
proof -
  note req = resolve_required_local[OF assms]
  let ?e = "nth_or [] (te_entity_keys t) idx" and ?p = "fixture_type_of t idx" and ?tu = "te_tu_filename t"
  have e: "fixtures_by_entity fs ?e = None" using resolve_cases[OF assms disjI2[OF refl], of 0 "[]" "[]"] by auto
  consider (none) "build_fixture_lookups fs ?tu = None"
    | (qual) l where "build_fixture_lookups fs ?tu = Some l" "pf_qualified ?p" "fl_by_qualified l (strip_leading_colons (pf_base ?p)) = None"
    | (base) l where "build_fixture_lookups fs ?tu = Some l" "\<not> pf_qualified ?p" "fl_by_base l (pf_base ?p) = None"
    using resolve_cases[OF assms disjI2[OF refl], of 0 "[]" "[]"] by auto
  then have "\<not> named_by_type t idx f" if "f \<in> set fs" for f
  proof cases
    case none
    then show ?thesis using table_none that by (auto simp: named_by_type_def)
  next
    case qual
    then show ?thesis using table_qualified(2)[OF qual(1,3) that] by (auto simp: named_by_type_def)
  next
    case base
    then have "filter (\<lambda>i. fd_tu_filename (fs ! i) = ?tu \<and> fd_base_name (fs ! i) = pf_base ?p) [0..<length fs] = []"
      using table_base[OF base(1), of "pf_base ?p"] by (auto split: list.splits)
    then show ?thesis using base(2) that by (auto simp: named_by_type_def filter_empty_conv in_set_conv_nth)
  qed
  then show ?thesis using req e entity_none by (auto simp: local_use_ok_def)
qed

subsection \<open>Resolution does not depend on the registration names it notes\<close>

definition same_decl :: "FixtureDeclInfo \<Rightarrow> FixtureDeclInfo \<Rightarrow> bool" where
  "same_decl f g \<longleftrightarrow> g = f\<lparr>fd_registration_type_name := fd_registration_type_name g\<rparr>"

lemma same_declD:
  assumes "same_decl f g"
  shows "fd_namespace_parts g = fd_namespace_parts f" "fd_scope g = fd_scope f" "fd_qualified_name g = fd_qualified_name f"
    "fd_suite_name g = fd_suite_name f" "fd_filename g = fd_filename f" "is_visible_fixture_for_test g t = is_visible_fixture_for_test f t"
proof -
  obtain x where g: "g = f\<lparr>fd_registration_type_name := x\<rparr>" using assms by (auto simp: same_decl_def)
  show "fd_namespace_parts g = fd_namespace_parts f" "fd_scope g = fd_scope f" "fd_qualified_name g = fd_qualified_name f"
    "fd_suite_name g = fd_suite_name f" "fd_filename g = fd_filename f" "is_visible_fixture_for_test g t = is_visible_fixture_for_test f t"
    by (simp_all add: g is_visible_fixture_for_test_def)
qed

lemma same_decl_note: "same_decl f g \<Longrightarrow> same_decl f (note_registration_type v g)"
  by (cases f; cases g) (auto simp: same_decl_def note_registration_type_def)

lemma best_loop_same:
  assumes "list_all2 same_decl fs gs" "\<forall>i \<in> set is \<union> set_option best. i < length fs"
  shows "best_loop gs t best is = best_loop fs t best is"
  using assms(2)
proof (induction "is" arbitrary: best)
  case (Cons i "is")
  have d: "same_decl (fs ! j) (gs ! j)" if "j < length fs" for j using assms(1) that by (auto simp: list_all2_conv_all_nth)
  show ?case
  proof (cases best)
    case None
    then show ?thesis using Cons same_declD[OF d[of i]] by simp
  next
    case (Some j)
    then show ?thesis using Cons.IH[of "Some i"] Cons.IH[of best] Cons.prems same_declD[OF d[of i]] same_declD[OF d[of j]] by simp
  qed
qed simp

lemma tables_resolve_same:
  assumes "list_all2 same_decl fs gs"
  shows "tables_resolve fs gs t idx = tables_resolve fs fs t idx"
proof -
  let ?e = "nth_or [] (te_entity_keys t) idx" and ?tu = "te_tu_filename t"
  have d: "same_decl (fs ! j) (gs ! j)" if "j < length fs" for j using assms that by (auto simp: list_all2_conv_all_nth)
  have em: "emit_declared gs p r a b j = emit_declared fs p r a b j" if "j < length fs" for p r a b j
    using same_declD[OF d[OF that]] by (simp add: emit_declared_def Let_def)
  have vis: "is_visible_fixture_for_test (gs ! j) t = is_visible_fixture_for_test (fs ! j) t" if "j < length fs" for j
    using same_declD[OF d[OF that]] by simp
  have best: "find_best_visible_fixture gs l b t = find_best_visible_fixture fs l b t" if "build_fixture_lookups fs ?tu = Some l" for l b
  proof (cases "fl_by_base l b")
    case (Some "is")
    then have "is = filter (\<lambda>i. fd_tu_filename (fs ! i) = ?tu \<and> fd_base_name (fs ! i) = b) [0..<length fs]"
      using table_base[OF that, of b] by (auto split: list.splits)
    then have "\<forall>i \<in> set is \<union> set_option None. i < length fs" by auto
    then show ?thesis using Some best_loop_same[OF assms, of "is" None t] by (simp add: find_best_visible_fixture_def)
  qed (simp add: find_best_visible_fixture_def)
  show ?thesis unfolding resolve_fixture_def Let_def
    using em vis best entity_some[of fs t idx] table_qualified(1)[of fs ?tu] best_visible[of fs ?tu]
    by (auto split: option.splits)
qed

subsection \<open>All parameters of all tests\<close>

definition same_test :: "test_info \<Rightarrow> test_info \<Rightarrow> bool" where
  "same_test t u \<longleftrightarrow> u = t\<lparr>te_free_fixtures := te_free_fixtures u, te_registration_headers := te_registration_headers u\<rparr>"

lemma same_testD:
  assumes "same_test t u"
  shows "te_display_name u = te_display_name t" "te_tu_filename u = te_tu_filename t" "te_namespace_parts u = te_namespace_parts t"
    "te_returns_async u = te_returns_async t" "te_fixture_types u = te_fixture_types t" "te_emit_types u = te_emit_types t"
    "te_required_scopes u = te_required_scopes t" "te_entity_keys u = te_entity_keys t"
proof -
  obtain x y where u: "u = t\<lparr>te_free_fixtures := x, te_registration_headers := y\<rparr>" using assms by (auto simp: same_test_def)
  show "te_display_name u = te_display_name t" "te_tu_filename u = te_tu_filename t" "te_namespace_parts u = te_namespace_parts t"
    "te_returns_async u = te_returns_async t" "te_fixture_types u = te_fixture_types t" "te_emit_types u = te_emit_types t"
    "te_required_scopes u = te_required_scopes t" "te_entity_keys u = te_entity_keys t"
    by (simp_all add: u)
qed

lemma same_test_refl: "same_test t t" and same_test_upd: "same_test t u \<Longrightarrow> same_test t (u\<lparr>te_free_fixtures := x, te_registration_headers := y\<rparr>)"
  "same_test t u \<Longrightarrow> same_test t (u\<lparr>te_free_fixtures := x\<rparr>)"
  by (cases t; cases u; simp add: same_test_def)+

lemma best_loop_test: "te_namespace_parts u = te_namespace_parts t \<Longrightarrow> best_loop fs u best is = best_loop fs t best is"
  by (induction "is" arbitrary: best) (auto simp: is_visible_fixture_for_test_def split: option.splits)

lemma resolve_fixture_test:
  assumes "same_test t u"
  shows "resolve_fixture fs be l u idx = resolve_fixture fs be l t idx"
  unfolding resolve_fixture_def Let_def derive_local_fixture_type_name_def find_best_visible_fixture_def is_visible_fixture_for_test_def
    same_testD[OF assms] best_loop_test[OF same_testD(3)[OF assms]] ..

text \<open>What holds after the first \<open>k\<close> parameters; \<open>s\<close> is the state before the first.\<close>

definition resolved_upto :: "FixtureDeclInfo list \<Rightarrow> test_info \<Rightarrow> resolver \<Rightarrow> nat \<Rightarrow> test_info \<times> resolver \<Rightarrow> bool" where
  "resolved_upto fs t s k ts \<longleftrightarrow>
     same_test t (fst ts) \<and> list_all2 same_decl fs (re_fixtures (snd ts)) \<and> (\<exists>ws. re_log (snd ts) = re_log s @ ws)
     \<and> (re_log (snd ts) = re_log s \<longrightarrow>
          length (te_free_fixtures (fst ts)) = k \<and> (\<forall>i < k. use_ok fs t i (te_free_fixtures (fst ts) ! i)))"

lemma resolved_step:
  assumes "resolved_upto fs t s k ts"
  shows "resolved_upto fs t s (Suc k) (resolve_index (fixtures_by_entity fs) (build_fixture_lookups fs (te_tu_filename t)) ts k)"
proof -
  obtain u v where ts: "ts = (u, v)" by force
  have u: "same_test t u" and v: "list_all2 same_decl fs (re_fixtures v)" and l: "\<exists>ws. re_log v = re_log s @ ws"
    and ok: "re_log v = re_log s \<Longrightarrow> length (te_free_fixtures u) = k \<and> (\<forall>i < k. use_ok fs t i (te_free_fixtures u ! i))"
    using assms by (auto simp: resolved_upto_def ts)
  let ?r = "tables_resolve fs fs t k"
  have r: "resolve_index (fixtures_by_entity fs) (build_fixture_lookups fs (te_tu_filename t)) ts k = apply_resolution (u, v) ?r"
    using tables_resolve_same[OF v, of t k] by (simp add: resolve_index_def ts resolve_fixture_test[OF u])
  show ?thesis
  proof (cases ?r)
    case (Rejected msg)
    then show ?thesis using u v l unfolding r by (auto simp: resolved_upto_def apply_resolution_def)
  next
    case (Local_Use name)
    then show ?thesis using u v l ok resolve_local_ok[OF Local_Use] unfolding r
      by (auto simp: resolved_upto_def apply_resolution_def same_test_upd use_ok_def nth_append less_Suc_eq)
  next
    case (Declared_Use i suf vis)
    note d = resolve_declared_ok[OF Declared_Use] and suf = resolve_required(1)[OF Declared_Use]
    have same: "same_decl (fs ! i) (re_fixtures v ! i)" using v d by (auto simp: list_all2_conv_all_nth)
    let ?f = "re_fixtures v ! i"
    have use: "use_ok fs t k (declared_use ?f suf vis)"
      unfolding use_ok_def using d same_declD[OF same] suf by (intro disjI1 exI[of _ "fs ! i"]) (auto simp: declared_use_def)
    have "list_all2 same_decl fs ((re_fixtures v)[i := note_registration_type vis ?f])"
      using list_all2_update_cong[OF v same_decl_note[OF same], of i vis] by simp
    then show ?thesis using u l ok use unfolding r Declared_Use
      by (auto simp: resolved_upto_def apply_resolution_def Let_def same_test_upd nth_append less_Suc_eq)
  qed
qed

lemma resolved_fold:
  assumes "same_test t u" "te_free_fixtures u = []" "list_all2 same_decl fs (re_fixtures s)"
  shows "resolved_upto fs t s k (foldl (resolve_index (fixtures_by_entity fs) (build_fixture_lookups fs (te_tu_filename t))) (u, s) [0..<k])"
proof (induction k)
  case 0
  then show ?case using assms by (simp add: resolved_upto_def)
qed (simp add: resolved_step)

definition test_resolved :: "FixtureDeclInfo list \<Rightarrow> test_info \<Rightarrow> test_info \<Rightarrow> bool" where
  "test_resolved fixtures t t' \<longleftrightarrow>
     same_test t t' \<and> (te_fixture_types t = []
       \<or> length (te_free_fixtures t') = length (te_fixture_types t)
         \<and> (\<forall>i < length (te_fixture_types t). use_ok fixtures t i (te_free_fixtures t' ! i))
         \<and> (te_returns_async t \<longrightarrow> shared_uses t' \<le> 1))"

lemma resolve_test_ok:
  assumes "list_all2 same_decl fs (re_fixtures s)" "resolve_test (fixtures_by_entity fs) (build_fixture_lookups fs) t s = (t', s')"
  shows "list_all2 same_decl fs (re_fixtures s') \<and> (\<exists>ws. re_log s' = re_log s @ ws) \<and> (re_log s' = re_log s \<longrightarrow> test_resolved fs t t')"
proof (cases "te_fixture_types t = []")
  case True
  then show ?thesis using assms by (auto simp: resolve_test_def test_resolved_def same_test_def)
next
  case False
  let ?u = "t\<lparr>te_registration_headers := [], te_free_fixtures := []\<rparr>"
  let ?ts = "foldl (resolve_index (fixtures_by_entity fs) (build_fixture_lookups fs (te_tu_filename t))) (?u, s) [0..<length (te_fixture_types t)]"
  have r: "resolved_upto fs t s (length (te_fixture_types t)) ?ts"
    by (rule resolved_fold) (use assms(1) in \<open>auto simp: same_test_def\<close>)
  have e: "(t', s') = (if te_returns_async (fst ?ts) \<and> shared_uses (fst ?ts) > 1
      then (fst ?ts, (snd ?ts)\<lparr>re_log := re_log (snd ?ts) @ [log_test (fst ?ts) (''async tests may depend on at most one suite/global fixture parameter; ''
                        @ ''multiple shared fixture parameters would make execution order parameter-dependent'')]\<rparr>) else ?ts)"
    using assms(2) False by (simp add: resolve_test_def Let_def)
  have async: "te_returns_async (fst ?ts) = te_returns_async t" using r same_testD(4) by (simp add: resolved_upto_def)
  show ?thesis
  proof (cases "te_returns_async t \<and> shared_uses (fst ?ts) > 1")
    case True
    then show ?thesis using e r async by (auto simp: resolved_upto_def)
  next
    case False
    then have "(t', s') = ?ts" using e async by auto
    then have ts: "fst ?ts = t'" "snd ?ts = s'" by (metis fst_conv snd_conv)+
    show ?thesis using r False unfolding resolved_upto_def test_resolved_def ts by auto
  qed
qed

lemma resolve_tests_ok:
  "list_all2 same_decl fs (re_fixtures s) \<Longrightarrow> resolve_tests (fixtures_by_entity fs) (build_fixture_lookups fs) ts s = (ts', s') \<Longrightarrow>
     list_all2 same_decl fs (re_fixtures s') \<and> (\<exists>ws. re_log s' = re_log s @ ws) \<and> (re_log s' = re_log s \<longrightarrow> list_all2 (test_resolved fs) ts ts')"
proof (induction ts arbitrary: s ts' s')
  case (Cons t ts)
  obtain t1 s1 ts2 where r: "resolve_test (fixtures_by_entity fs) (build_fixture_lookups fs) t s = (t1, s1)"
    "resolve_tests (fixtures_by_entity fs) (build_fixture_lookups fs) ts s1 = (ts2, s')" "ts' = t1 # ts2"
    using Cons.prems(2) by (auto split: prod.splits)
  show ?case using resolve_test_ok[OF Cons.prems(1) r(1)] Cons.IH[OF _ r(2)] r(3) by auto
qed simp

text \<open>
  C35. When fixture resolution reports nothing, every fixture parameter of every test is resolved,
  in order, so that the positions that calls refer to exist: each is bound to a visible declared
  fixture that the parameter names, the innermost one for an unqualified type, with the scope that
  the type demands, or is a local fixture that no declaration is named by; and an asynchronous test
  uses at most one shared fixture.
\<close>

theorem fixture_resolution_sound:
  assumes "re_log (snd (resolve_free_fixtures cases fixtures)) = []"
  shows "list_all2 (test_resolved fixtures) cases (fst (resolve_free_fixtures cases fixtures))"
proof -
  let ?s = "\<lparr>re_fixtures = fixtures, re_log = []\<rparr>"
  obtain ts s where r: "resolve_tests (fixtures_by_entity fixtures) (build_fixture_lookups fixtures) cases ?s = (ts, s)" by force
  have "re_log s = []" "fst (resolve_free_fixtures cases fixtures) = ts" using assms r by (simp_all add: resolve_free_fixtures_def)
  moreover have "list_all2 same_decl fixtures (re_fixtures ?s)" by (simp add: list_all2_same same_decl_def)
  ultimately show ?thesis using resolve_tests_ok[OF _ r] by simp
qed

definition sample_fixture :: FixtureDeclInfo where
  "sample_fixture = \<lparr>fd_qualified_name = ''a::Fx'', fd_registration_type_name = [], fd_base_name = ''Fx'', fd_namespace_parts = [''a''],
     fd_suite_name = ''a'', fd_scope = FS_Suite, fd_tu_filename = ''t.cpp'', fd_filename = ''fx.hpp'', fd_line = 3, fd_entity_key = [],
     fd_importer_reachable = True, fd_declaration_site_key = [], fd_semantic_fingerprint = [], fd_scan_context = [],
     fd_scan_slot = 0, fd_registration_header = []\<rparr>"

definition sample_test :: test_info where
  "sample_test = \<lparr>te_display_name = ''a/b/t'', te_tu_filename = ''t.cpp'', te_filename = ''t.cpp'', te_line = 9, te_namespace_parts = [''a'', ''b''],
     te_returns_async = True, te_fixture_types = [''Fx'', ''Other''], te_emit_types = [], te_required_scopes = [Some FS_Suite], te_entity_keys = [],
     te_free_fixtures = [], te_registration_headers = [], te_qualified_name = ''t'', te_base_name = ''t'', te_declaration_site_key = [], te_entity_key = [],
     te_semantic_fingerprint = [], te_scan_context = [], te_scan_slot = 0, te_call_arguments = []\<rparr>"

theorem fixture_resolution_sound_witness:
  "list_all2 (test_resolved [sample_fixture]) [sample_test] (fst (resolve_free_fixtures [sample_test] [sample_fixture]))
   \<and> map (map fu_registry_name \<circ> te_free_fixtures) (fst (resolve_free_fixtures [sample_test] [sample_fixture])) = [[''a::Fx'', []]]"
proof
  show "list_all2 (test_resolved [sample_fixture]) [sample_test] (fst (resolve_free_fixtures [sample_test] [sample_fixture]))"
    by (rule fixture_resolution_sound) code_simp
  show "map (map fu_registry_name \<circ> te_free_fixtures) (fst (resolve_free_fixtures [sample_test] [sample_fixture])) = [[''a::Fx'', []]]"
    by code_simp
qed

end
