(* ===== verification/Mock.thy ===== *)
theory Mock
  imports Case_Result
begin

section \<open>Mock objects: \<^verbatim>\<open>include/gentest/mock.h\<close>\<close>

text \<open>
  The run-time side of a generated mock: expectations per method, their configuration through
  handles, the dispatch of calls, verification, and the argument matchers.  The arguments of a
  call are a list of values (the tuple of the C++ signature), the printing of a value is the
  argument \<open>sh\<close>, actions and predicates are functions.  The section of a dispatch under the
  mutex of the instance is one step, so a list of calls is the order in which threads enter it.
  Failures are the messages handed to \<^verbatim>\<open>record_failure\<close>; counters are natural numbers.
\<close>

unbundle bit_operations_syntax

subsection \<open>Method identities\<close>

record MethodIdentity =
  mi_bytes :: "8 word list"

definition named :: "string \<Rightarrow> MethodIdentity" where
  "named name = \<lparr>mi_bytes = map (\<lambda>c. word_of_nat (of_char c)) name\<rparr>"

definition MethodIdentityHash :: "MethodIdentity \<Rightarrow> 64 word" where
  "MethodIdentityHash ident =
     foldl (\<lambda>v b. (v XOR ucast b) * 1099511628211) 1469598103934665603 (mi_bytes ident)"

subsection \<open>Argument predicates\<close>

record 'v ArgPredicate =
  ap_test :: "'v \<Rightarrow> bool"
  ap_describe :: "('v \<Rightarrow> string) option"

definition to_arg_predicate :: "('v \<Rightarrow> bool) \<Rightarrow> 'v ArgPredicate" where
  "to_arg_predicate p = \<lparr>ap_test = p, ap_describe = Some (\<lambda>_. ''predicate mismatch'')\<rparr>"

fun tuple_args_match :: "'v list \<Rightarrow> 'v list \<Rightarrow> bool" where
  "tuple_args_match (e # es) (a # as) \<longleftrightarrow> e = a \<and> tuple_args_match es as"
| "tuple_args_match _ _ \<longleftrightarrow> True"

definition mismatch :: "nat \<Rightarrow> string \<Rightarrow> string \<Rightarrow> string" where
  "mismatch i method_name msg = ''argument['' @ show_nat i @ ''] mismatch for '' @ method_name @ '': '' @ msg"

fun report_first_tuple_arg_mismatch :: "('v \<Rightarrow> string) \<Rightarrow> nat \<Rightarrow> 'v list \<Rightarrow> string \<Rightarrow> 'v list \<Rightarrow> string list" where
  "report_first_tuple_arg_mismatch sh i (e # es) method_name (a # as) =
     (if e \<noteq> a then [mismatch i method_name (''expected '' @ sh e @ '', got '' @ sh a)]
      else report_first_tuple_arg_mismatch sh (i + 1) es method_name as)"
| "report_first_tuple_arg_mismatch sh i _ method_name _ = []"

fun tuple_args_match_predicates :: "nat \<Rightarrow> 'v ArgPredicate list \<Rightarrow> string \<Rightarrow> 'v list \<Rightarrow> bool \<times> string list" where
  "tuple_args_match_predicates i (p # ps) method_name (a # as) =
     (if \<not> ap_test p a
      then (False, [mismatch i method_name (case ap_describe p of Some d \<Rightarrow> d a | None \<Rightarrow> ''predicate mismatch'')])
      else tuple_args_match_predicates (i + 1) ps method_name as)"
| "tuple_args_match_predicates i _ method_name _ = (True, [])"

definition check_args_equal :: "('v \<Rightarrow> string) \<Rightarrow> 'v list option \<Rightarrow> string \<Rightarrow> 'v list \<Rightarrow> bool \<times> string list" where
  "check_args_equal sh expected method_name actual =
     (case expected of
        None \<Rightarrow> (True, [])
      | Some e \<Rightarrow>
          let matched = tuple_args_match e actual
          in (matched, if matched then [] else report_first_tuple_arg_mismatch sh 0 e method_name actual))"

definition check_args_by_predicates :: "'v ArgPredicate list option \<Rightarrow> string \<Rightarrow> 'v list \<Rightarrow> bool \<times> string list" where
  "check_args_by_predicates preds method_name actual =
     (case preds of None \<Rightarrow> (True, []) | Some ps \<Rightarrow> tuple_args_match_predicates 0 ps method_name actual)"

subsection \<open>Expectations\<close>

record ('v, 'r) Expectation =
  ex_already_verified :: bool
  ex_expected_calls :: nat
  ex_observed_calls :: nat
  ex_allow_excess :: bool
  ex_expected_args :: "'v list option"
  ex_arg_predicates :: "'v ArgPredicate list option"
  ex_call_predicate :: "('v list \<Rightarrow> bool) option"
  ex_action :: "('v list \<Rightarrow> 'r) option"

definition new_expectation :: "('v, 'r) Expectation" where
  "new_expectation = \<lparr>ex_already_verified = False, ex_expected_calls = 1, ex_observed_calls = 0, ex_allow_excess = False,
     ex_expected_args = None, ex_arg_predicates = None, ex_call_predicate = None, ex_action = None\<rparr>"

definition verify_calls_or_fail :: "nat \<Rightarrow> nat \<Rightarrow> string \<Rightarrow> bool \<Rightarrow> bool \<times> string list" where
  "verify_calls_or_fail expected observed method_name already_verified =
     (if already_verified then (True, [])
      else (True, if observed < expected
                  then [''expected '' @ show_nat expected @ '' call(s) to '' @ method_name @ '' but observed '' @ show_nat observed]
                  else []))"

definition verify :: "string \<Rightarrow> ('v, 'r) Expectation \<Rightarrow> ('v, 'r) Expectation \<times> string list" where
  "verify method_name x =
     (case verify_calls_or_fail (ex_expected_calls x) (ex_observed_calls x) method_name (ex_already_verified x) of
        (v, msgs) \<Rightarrow> (x\<lparr>ex_already_verified := v\<rparr>, msgs))"

definition check_args :: "('v \<Rightarrow> string) \<Rightarrow> string \<Rightarrow> ('v, 'r) Expectation \<Rightarrow> 'v list \<Rightarrow> bool \<times> string list" where
  "check_args sh method_name x actual =
     (case ex_call_predicate x of
        Some p \<Rightarrow> if p actual then (True, []) else (False, [''call predicate mismatch for '' @ method_name])
      | None \<Rightarrow>
          if ex_arg_predicates x \<noteq> None then check_args_by_predicates (ex_arg_predicates x) method_name actual
          else check_args_equal sh (ex_expected_args x) method_name actual)"

text \<open>A default value for the return type, or none for a reference: then the process terminates.\<close>

datatype 'r call_result = Result 'r | Terminated

definition default_result :: "'r option \<Rightarrow> 'r call_result" where
  "default_result d = (case d of Some r \<Rightarrow> Result r | None \<Rightarrow> Terminated)"

definition invoke :: "('v \<Rightarrow> string) \<Rightarrow> 'r option \<Rightarrow> string \<Rightarrow> ('v, 'r) Expectation \<Rightarrow> 'v list \<Rightarrow> string list \<times> 'r call_result" where
  "invoke sh d method_name x args =
     (snd (check_args sh method_name x args),
      case ex_action x of Some f \<Rightarrow> Result (f args) | None \<Rightarrow> default_result d)"

subsection \<open>Instances\<close>

record ('v, 'r) MethodEntry =
  me_method_name :: string
  me_expectations :: "('v, 'r) Expectation list"
  me_next_expectation :: nat

record ('v, 'r) InstanceState =
  in_methods :: "MethodIdentity \<rightharpoonup> ('v, 'r) MethodEntry"
  in_runtime_started :: bool
  in_nice_mode :: bool
  in_frozen :: bool

type_synonym handle = "(MethodIdentity \<times> nat) option"

definition new_instance :: "('v, 'r) InstanceState" where
  "new_instance = \<lparr>in_methods = Map.empty, in_runtime_started = False, in_nice_mode = False, in_frozen = False\<rparr>"

definition set_nice :: "bool \<Rightarrow> ('v, 'r) InstanceState \<Rightarrow> ('v, 'r) InstanceState" where
  "set_nice v s = (if in_frozen s then s else s\<lparr>in_nice_mode := v\<rparr>)"

definition new_method_entry :: "('v, 'r) MethodEntry" where
  "new_method_entry = \<lparr>me_method_name = [], me_expectations = [], me_next_expectation = 0\<rparr>"

definition push_expectation :: "MethodIdentity \<Rightarrow> string \<Rightarrow> ('v, 'r) InstanceState \<Rightarrow> handle \<times> ('v, 'r) InstanceState" where
  "push_expectation ident method_name s =
     (if in_frozen s then (None, s)
      else let entry = (case in_methods s ident of Some e \<Rightarrow> e | None \<Rightarrow> new_method_entry);
               entry' = entry\<lparr>me_method_name := if me_method_name entry = [] then method_name else me_method_name entry,
                              me_expectations := me_expectations entry @ [new_expectation]\<rparr>
           in (Some (ident, length (me_expectations entry)), s\<lparr>in_methods := (in_methods s)(ident \<mapsto> entry')\<rparr>))"

definition upd_expectation ::
  "MethodIdentity \<times> nat \<Rightarrow> (('v, 'r) Expectation \<Rightarrow> ('v, 'r) Expectation) \<Rightarrow> ('v, 'r) InstanceState \<Rightarrow> ('v, 'r) InstanceState" where
  "upd_expectation h f s =
     (case in_methods s (fst h) of
        None \<Rightarrow> s
      | Some e \<Rightarrow> s\<lparr>in_methods := (in_methods s)(fst h \<mapsto> e\<lparr>me_expectations := (me_expectations e)[snd h := f (me_expectations e ! snd h)]\<rparr>)\<rparr>)"

definition allow_mutation :: "('v, 'r) InstanceState \<Rightarrow> bool" where
  "allow_mutation s \<longleftrightarrow> \<not> in_runtime_started s"

definition mutate ::
  "MethodIdentity \<times> nat \<Rightarrow> (('v, 'r) Expectation \<Rightarrow> ('v, 'r) Expectation) \<Rightarrow> ('v, 'r) InstanceState \<Rightarrow> ('v, 'r) InstanceState" where
  "mutate h f s = (if \<not> allow_mutation s then s else upd_expectation h f s)"

definition set_expected_calls :: "nat \<Rightarrow> MethodIdentity \<times> nat \<Rightarrow> ('v, 'r) InstanceState \<Rightarrow> ('v, 'r) InstanceState" where
  "set_expected_calls n h = mutate h (\<lambda>x. x\<lparr>ex_expected_calls := n\<rparr>)"

definition set_expected :: "'v list \<Rightarrow> MethodIdentity \<times> nat \<Rightarrow> ('v, 'r) InstanceState \<Rightarrow> ('v, 'r) InstanceState" where
  "set_expected vs h = mutate h (\<lambda>x. x\<lparr>ex_expected_args := Some vs\<rparr>)"

definition set_predicates :: "'v ArgPredicate list \<Rightarrow> MethodIdentity \<times> nat \<Rightarrow> ('v, 'r) InstanceState \<Rightarrow> ('v, 'r) InstanceState" where
  "set_predicates ps h = mutate h (\<lambda>x. x\<lparr>ex_arg_predicates := Some ps\<rparr>)"

definition set_call_predicate :: "('v list \<Rightarrow> bool) \<Rightarrow> MethodIdentity \<times> nat \<Rightarrow> ('v, 'r) InstanceState \<Rightarrow> ('v, 'r) InstanceState" where
  "set_call_predicate p h = mutate h (\<lambda>x. x\<lparr>ex_call_predicate := Some p\<rparr>)"

definition set_allow_excess :: "bool \<Rightarrow> MethodIdentity \<times> nat \<Rightarrow> ('v, 'r) InstanceState \<Rightarrow> ('v, 'r) InstanceState" where
  "set_allow_excess b h = mutate h (\<lambda>x. x\<lparr>ex_allow_excess := b\<rparr>)"

definition set_action :: "('v list \<Rightarrow> 'r) \<Rightarrow> MethodIdentity \<times> nat \<Rightarrow> ('v, 'r) InstanceState \<Rightarrow> ('v, 'r) InstanceState" where
  "set_action f h = mutate h (\<lambda>x. x\<lparr>ex_action := Some f\<rparr>)"

subsection \<open>Handles\<close>

datatype ('v, 'r) handle_op =
  Times nat | Invokes "'v list \<Rightarrow> 'r" | With "'v list" | Where_Args "'v ArgPredicate list" | Where_Call "'v list \<Rightarrow> bool"
| Returning 'r | Allow_More bool

fun apply_handle_op :: "('v, 'r) handle_op \<Rightarrow> MethodIdentity \<times> nat \<Rightarrow> ('v, 'r) InstanceState \<Rightarrow> ('v, 'r) InstanceState" where
  "apply_handle_op (Times n) h s = set_expected_calls n h s"
| "apply_handle_op (Invokes f) h s = set_action f h s"
| "apply_handle_op (With vs) h s = set_expected vs h s"
| "apply_handle_op (Where_Args ps) h s = set_predicates ps h s"
| "apply_handle_op (Where_Call p) h s = set_call_predicate p h s"
| "apply_handle_op (Returning r) h s = set_action (\<lambda>_. r) h s"
| "apply_handle_op (Allow_More b) h s = set_allow_excess b h s"

definition require_configurable :: "nat \<Rightarrow> rt \<Rightarrow> string option" where
  "require_configurable t st = require_not_adopted_context t ''mock expectation configured'' st"

definition configure ::
  "nat \<Rightarrow> rt \<Rightarrow> handle \<Rightarrow> ('v, 'r) handle_op \<Rightarrow> ('v, 'r) InstanceState \<Rightarrow> string + ('v, 'r) InstanceState" where
  "configure t st h p s =
     (case require_configurable t st of
        Some m \<Rightarrow> Inl m
      | None \<Rightarrow> Inr (case h of None \<Rightarrow> s | Some x \<Rightarrow> apply_handle_op p x s))"

definition expect :: "nat \<Rightarrow> rt \<Rightarrow> MethodIdentity \<Rightarrow> string \<Rightarrow> ('v, 'r) InstanceState \<Rightarrow> string + handle \<times> ('v, 'r) InstanceState" where
  "expect t st ident method_name s =
     (case require_not_adopted_context t ''mock expectation configured'' st of
        Some m \<Rightarrow> Inl m
      | None \<Rightarrow> Inr (push_expectation ident method_name s))"

definition make_nice :: "nat \<Rightarrow> rt \<Rightarrow> bool \<Rightarrow> ('v, 'r) InstanceState \<Rightarrow> string + ('v, 'r) InstanceState" where
  "make_nice t st v s =
     (case require_not_adopted_context t ''mock mode configured'' st of Some m \<Rightarrow> Inl m | None \<Rightarrow> Inr (set_nice v s))"

definition make_strict :: "nat \<Rightarrow> rt \<Rightarrow> ('v, 'r) InstanceState \<Rightarrow> string + ('v, 'r) InstanceState" where
  "make_strict t st s = make_nice t st False s"

subsection \<open>Dispatch and verification\<close>

definition freeze :: "('v, 'r) InstanceState \<Rightarrow> ('v, 'r) InstanceState" where
  "freeze s = s\<lparr>in_runtime_started := True, in_frozen := True\<rparr>"

definition try_take_expectation ::
  "MethodIdentity \<Rightarrow> ('v, 'r) InstanceState \<Rightarrow> (('v, 'r) Expectation \<times> bool \<times> ('v, 'r) InstanceState) option" where
  "try_take_expectation candidate s =
     (case in_methods s candidate of
        None \<Rightarrow> None
      | Some e \<Rightarrow>
          let i = me_next_expectation e; x = me_expectations e ! i
          in if i \<ge> length (me_expectations e) then None
             else let unexpected = (\<not> ex_allow_excess x \<and> ex_observed_calls x \<ge> ex_expected_calls x);
                      x' = x\<lparr>ex_observed_calls := ex_observed_calls x + 1\<rparr>;
                      i' = (if \<not> ex_allow_excess x' \<and> ex_observed_calls x' \<ge> ex_expected_calls x' then i + 1 else i)
                  in Some (x', unexpected,
                       s\<lparr>in_methods := (in_methods s)(candidate \<mapsto> e\<lparr>me_expectations := (me_expectations e)[i := x'], me_next_expectation := i'\<rparr>)\<rparr>))"

definition unexpected_call :: "string \<Rightarrow> string" where
  "unexpected_call method_name = ''unexpected call to '' @ method_name"

definition dispatch_with_fallback ::
  "('v \<Rightarrow> string) \<Rightarrow> 'r option \<Rightarrow> MethodIdentity \<Rightarrow> MethodIdentity \<Rightarrow> string \<Rightarrow> 'v list \<Rightarrow> ('v, 'r) InstanceState
     \<Rightarrow> string list \<times> 'r call_result \<times> ('v, 'r) InstanceState" where
  "dispatch_with_fallback sh d ident fallback method_name args s =
     (let s0 = freeze s;
          matched = (case try_take_expectation ident s0 of
                       Some m \<Rightarrow> Some m
                     | None \<Rightarrow> if fallback \<noteq> ident then try_take_expectation fallback s0 else None)
      in case matched of
           None \<Rightarrow> (if in_nice_mode s0 then [] else [unexpected_call method_name], default_result d, s0)
         | Some (x, unexpected, s1) \<Rightarrow>
             (case invoke sh d method_name x args of
                (msgs, r) \<Rightarrow> ((if unexpected then [unexpected_call method_name] else []) @ msgs, r, s1)))"

definition dispatch ::
  "('v \<Rightarrow> string) \<Rightarrow> 'r option \<Rightarrow> MethodIdentity \<Rightarrow> string \<Rightarrow> 'v list \<Rightarrow> ('v, 'r) InstanceState
     \<Rightarrow> string list \<times> 'r call_result \<times> ('v, 'r) InstanceState" where
  "dispatch sh d ident method_name args s = dispatch_with_fallback sh d ident ident method_name args s"

definition verify_entry :: "('v, 'r) MethodEntry \<Rightarrow> ('v, 'r) MethodEntry \<times> string list" where
  "verify_entry e =
     (let vs = map (verify (me_method_name e)) (me_expectations e)
      in (e\<lparr>me_expectations := map fst vs\<rparr>, concat (map snd vs)))"

text \<open>The order in which the hash map is traversed is the argument \<open>idents\<close>.\<close>

fun verify_methods :: "MethodIdentity list \<Rightarrow> ('v, 'r) InstanceState \<Rightarrow> ('v, 'r) InstanceState \<times> string list" where
  "verify_methods [] s = (s, [])"
| "verify_methods (i # idents) s =
     (case in_methods s i of
        None \<Rightarrow> verify_methods idents s
      | Some e \<Rightarrow>
          (case verify_entry e of
             (e', msgs) \<Rightarrow>
               (case verify_methods idents (s\<lparr>in_methods := (in_methods s)(i \<mapsto> e')\<rparr>) of (s', rest) \<Rightarrow> (s', msgs @ rest))))"

definition verify_all :: "MethodIdentity list \<Rightarrow> ('v, 'r) InstanceState \<Rightarrow> ('v, 'r) InstanceState \<times> string list" where
  "verify_all idents s = verify_methods idents (freeze s)"

subsection \<open>Which expectation serves which call\<close>

text \<open>
  The reference semantics of a method with a list of expectations: an expectation that allows
  more calls serves every call that reaches it, any other one serves as many calls as it expects
  (and one call, reported as unexpected, when it expects none); then the next one is in charge.
\<close>

definition slots :: "('v, 'r) Expectation \<Rightarrow> nat" where
  "slots x = max 1 (ex_expected_calls x)"

fun serving :: "('v, 'r) Expectation list \<Rightarrow> nat \<Rightarrow> nat option" where
  "serving [] n = None"
| "serving (x # xs) n =
     (if ex_allow_excess x \<or> n < slots x then Some 0 else map_option Suc (serving xs (n - slots x)))"

fun filled :: "('v, 'r) Expectation list \<Rightarrow> nat \<Rightarrow> ('v, 'r) Expectation list" where
  "filled [] n = []"
| "filled (x # xs) n =
     (if ex_allow_excess x \<or> n < slots x then x\<lparr>ex_observed_calls := n\<rparr> # xs
      else x\<lparr>ex_observed_calls := slots x\<rparr> # filled xs (n - slots x))"

fun position :: "('v, 'r) Expectation list \<Rightarrow> nat \<Rightarrow> nat" where
  "position [] n = 0"
| "position (x # xs) n = (if ex_allow_excess x \<or> n < slots x then 0 else Suc (position xs (n - slots x)))"

definition fresh_expectation :: "('v, 'r) Expectation \<Rightarrow> bool" where
  "fresh_expectation x \<longleftrightarrow> ex_observed_calls x = 0 \<and> \<not> ex_already_verified x"

lemma length_filled [simp]: "length (filled es n) = length es"
  by (induction es n rule: filled.induct) auto

lemma position_serving: "position es n = (case serving es n of Some i \<Rightarrow> i | None \<Rightarrow> length es)"
  by (induction es n rule: position.induct) (auto split: option.splits)

lemma serving_lt: "serving es n = Some i \<Longrightarrow> i < length es"
  by (induction es n arbitrary: i rule: serving.induct) (auto split: if_splits)

lemma filled_exhausted: "serving es n = None \<Longrightarrow> filled es (Suc n) = filled es n \<and> serving es (Suc n) = None"
  by (induction es n rule: serving.induct) (auto simp: Suc_diff_le split: if_splits)

lemma filled_0: "list_all fresh_expectation es \<Longrightarrow> filled es 0 = es \<and> position es 0 = 0"
  by (cases es) (auto simp: slots_def fresh_expectation_def)

lemma slots_pos [simp]: "0 < slots x"
  by (simp add: slots_def)

lemma filled_serving:
  assumes "serving es n = Some i" "list_all fresh_expectation es"
  shows "let x = filled es n ! i; x' = x\<lparr>ex_observed_calls := ex_observed_calls x + 1\<rparr>
    in (\<exists>k. x = (es ! i)\<lparr>ex_observed_calls := k\<rparr>)
      \<and> (ex_observed_calls x \<ge> ex_expected_calls x \<and> \<not> ex_allow_excess x \<longleftrightarrow> ex_expected_calls x = 0 \<and> \<not> ex_allow_excess x)
      \<and> (filled es n)[i := x'] = filled es (Suc n)
      \<and> position es (Suc n) = (if \<not> ex_allow_excess x' \<and> ex_observed_calls x' \<ge> ex_expected_calls x' then i + 1 else i)"
  using assms
proof (induction es n arbitrary: i rule: serving.induct)
  case (2 x xs n)
  show ?case
  proof (cases "ex_allow_excess x \<or> n < slots x")
    case True
    then have [simp]: "i = 0" using 2 by simp
    show ?thesis
    proof (cases "ex_allow_excess x \<or> Suc n < slots x")
      case True
      then show ?thesis using \<open>ex_allow_excess x \<or> n < slots x\<close> by (auto simp: Let_def slots_def max_def split: if_splits)
    next
      case False
      then have "Suc n = slots x" using True by simp
      then have "filled (x # xs) (Suc n) = x\<lparr>ex_observed_calls := Suc n\<rparr> # xs" "position (x # xs) (Suc n) = 1"
        using False 2(3) filled_0[of xs] by auto
      then show ?thesis using \<open>Suc n = slots x\<close> False True by (auto simp: Let_def slots_def max_def split: if_splits)
    qed
  next
    case False
    then obtain j where j: "i = Suc j" "serving xs (n - slots x) = Some j" using 2(2) by auto
    have "Suc n - slots x = Suc (n - slots x)" using False by auto
    then show ?thesis using 2(1)[OF False j(2)] 2(3) False j(1) by (simp add: Let_def)
  qed
qed simp

subsection \<open>The reference mock\<close>

record ('v, 'r) mock_call =
  mc_ident :: MethodIdentity
  mc_fallback :: MethodIdentity
  mc_name :: string
  mc_default :: "'r option"
  mc_args :: "'v list"

fun run_calls ::
  "('v \<Rightarrow> string) \<Rightarrow> ('v, 'r) mock_call list \<Rightarrow> ('v, 'r) InstanceState \<Rightarrow> (string list \<times> 'r call_result) list \<times> ('v, 'r) InstanceState" where
  "run_calls sh [] s = ([], s)"
| "run_calls sh (c # cs) s =
     (case dispatch_with_fallback sh (mc_default c) (mc_ident c) (mc_fallback c) (mc_name c) (mc_args c) s of
        (msgs, r, s1) \<Rightarrow> (case run_calls sh cs s1 of (rest, s2) \<Rightarrow> ((msgs, r) # rest, s2)))"

definition expectations_of :: "('v, 'r) InstanceState \<Rightarrow> MethodIdentity \<Rightarrow> ('v, 'r) Expectation list" where
  "expectations_of s i = (case in_methods s i of None \<Rightarrow> [] | Some e \<Rightarrow> me_expectations e)"

text \<open>The reference only counts, for every method, the calls that have been made to it.\<close>

definition spec_served ::
  "('v \<Rightarrow> string) \<Rightarrow> ('v, 'r) mock_call \<Rightarrow> ('v, 'r) Expectation \<Rightarrow> string list \<times> 'r call_result" where
  "spec_served sh c x =
     ((if ex_expected_calls x = 0 \<and> \<not> ex_allow_excess x then [unexpected_call (mc_name c)] else [])
        @ snd (check_args sh (mc_name c) x (mc_args c)),
      case ex_action x of Some f \<Rightarrow> Result (f (mc_args c)) | None \<Rightarrow> default_result (mc_default c))"

definition spec_call ::
  "('v \<Rightarrow> string) \<Rightarrow> bool \<Rightarrow> (MethodIdentity \<Rightarrow> ('v, 'r) Expectation list) \<Rightarrow> (MethodIdentity \<Rightarrow> nat) \<Rightarrow> ('v, 'r) mock_call
     \<Rightarrow> (string list \<times> 'r call_result) \<times> (MethodIdentity \<Rightarrow> nat)" where
  "spec_call sh nice es n c =
     (let i = mc_ident c; j = mc_fallback c
      in case serving (es i) (n i) of
           Some k \<Rightarrow> (spec_served sh c (es i ! k), n(i := Suc (n i)))
         | None \<Rightarrow>
             (case serving (es j) (n j) of
                Some k \<Rightarrow> (spec_served sh c (es j ! k), n(j := Suc (n j)))
              | None \<Rightarrow> ((if nice then [] else [unexpected_call (mc_name c)], default_result (mc_default c)), n(i := Suc (n i)))))"

fun spec_calls ::
  "('v \<Rightarrow> string) \<Rightarrow> bool \<Rightarrow> (MethodIdentity \<Rightarrow> ('v, 'r) Expectation list) \<Rightarrow> (MethodIdentity \<Rightarrow> nat) \<Rightarrow> ('v, 'r) mock_call list
     \<Rightarrow> (string list \<times> 'r call_result) list \<times> (MethodIdentity \<Rightarrow> nat)" where
  "spec_calls sh nice es n [] = ([], n)"
| "spec_calls sh nice es n (c # cs) =
     (case spec_call sh nice es n c of (r, n1) \<Rightarrow> (case spec_calls sh nice es n1 cs of (rest, n2) \<Rightarrow> (r # rest, n2)))"

definition entry_at :: "('v, 'r) MethodEntry \<Rightarrow> nat \<Rightarrow> ('v, 'r) MethodEntry" where
  "entry_at e n = e\<lparr>me_expectations := filled (me_expectations e) n, me_next_expectation := position (me_expectations e) n\<rparr>"

definition state_at :: "('v, 'r) InstanceState \<Rightarrow> (MethodIdentity \<Rightarrow> nat) \<Rightarrow> ('v, 'r) InstanceState" where
  "state_at s n = (freeze s)\<lparr>in_methods := \<lambda>i. map_option (\<lambda>e. entry_at e (n i)) (in_methods s i)\<rparr>"

definition fresh_instance :: "('v, 'r) InstanceState \<Rightarrow> bool" where
  "fresh_instance s \<longleftrightarrow>
     (\<forall>i e. in_methods s i = Some e \<longrightarrow> me_next_expectation e = 0 \<and> list_all fresh_expectation (me_expectations e))"

lemma check_args_observed [simp]: "check_args sh name (x\<lparr>ex_observed_calls := k\<rparr>) args = check_args sh name x args"
  by (auto simp: check_args_def split: option.split)

lemma freeze_state_at [simp]: "freeze (state_at s n) = state_at s n"
  by (simp add: state_at_def freeze_def)

lemma nice_state_at [simp]: "in_nice_mode (state_at s n) = in_nice_mode s"
  by (simp add: state_at_def freeze_def)

lemma state_at_update:
  assumes "in_methods s i = Some e" "entry_at e (Suc (n i)) = e'"
  shows "(state_at s n)\<lparr>in_methods := (in_methods (state_at s n))(i \<mapsto> e')\<rparr> = state_at s (n(i := Suc (n i)))"
  using assms by (auto simp: state_at_def freeze_def fun_eq_iff)

lemma state_at_exhausted:
  assumes "serving (expectations_of s i) (n i) = None"
  shows "state_at s (n(i := Suc (n i))) = state_at s n"
proof (cases "in_methods s i")
  case (Some e)
  then have "serving (me_expectations e) (n i) = None" using assms by (simp add: expectations_of_def)
  then have "entry_at e (Suc (n i)) = entry_at e (n i)"
    using filled_exhausted[of "me_expectations e" "n i"] by (simp add: entry_at_def position_serving)
  then show ?thesis using Some by (auto simp: state_at_def freeze_def fun_eq_iff)
qed (auto simp: state_at_def freeze_def fun_eq_iff)

lemma take_None:
  assumes "serving (expectations_of s i) (n i) = None"
  shows "try_take_expectation i (state_at s n) = None"
  using assms by (auto simp: try_take_expectation_def state_at_def freeze_def expectations_of_def entry_at_def position_serving
      split: option.splits)

lemma take_Some:
  assumes "serving (expectations_of s i) (n i) = Some k" "fresh_instance s"
  shows "\<exists>m. try_take_expectation i (state_at s n) =
    (let x = expectations_of s i ! k
     in Some (x\<lparr>ex_observed_calls := m\<rparr>, ex_expected_calls x = 0 \<and> \<not> ex_allow_excess x, state_at s (n(i := Suc (n i)))))"
proof -
  obtain e where e: "in_methods s i = Some e" "expectations_of s i = me_expectations e"
    using assms by (auto simp: expectations_of_def split: option.splits)
  have fr: "list_all fresh_expectation (me_expectations e)" using assms(2) e by (simp add: fresh_instance_def)
  have sv: "serving (me_expectations e) (n i) = Some k" using assms e by simp
  have pos: "position (me_expectations e) (n i) = k" using sv by (simp add: position_serving)
  have lt: "k < length (me_expectations e)" using sv by (rule serving_lt)
  note fs = filled_serving[OF sv fr, unfolded Let_def]
  let ?x = "filled (me_expectations e) (n i) ! k"
  let ?x' = "?x\<lparr>ex_observed_calls := ex_observed_calls ?x + 1\<rparr>"
  obtain l where l: "?x = (me_expectations e ! k)\<lparr>ex_observed_calls := l\<rparr>" using fs by blast
  have at: "in_methods (state_at s n) i = Some (entry_at e (n i))" using e by (simp add: state_at_def)
  have "try_take_expectation i (state_at s n) =
      Some (?x', ex_expected_calls ?x = 0 \<and> \<not> ex_allow_excess ?x,
        (state_at s n)\<lparr>in_methods := (in_methods (state_at s n))(i \<mapsto> entry_at e (Suc (n i)))\<rparr>)"
    using fs lt pos by (simp add: try_take_expectation_def at Let_def) (cases e; auto simp: entry_at_def)
  also have "\<dots> = Some (?x', ex_expected_calls ?x = 0 \<and> \<not> ex_allow_excess ?x, state_at s (n(i := Suc (n i))))"
    by (simp add: state_at_update[OF e(1)])
  finally show ?thesis by (simp add: l e(2) Let_def) blast
qed

lemma invoke_observed [simp]: "invoke sh d name (x\<lparr>ex_observed_calls := k\<rparr>) args = invoke sh d name x args"
  by (simp add: invoke_def)

lemma dispatch_state_at:
  assumes "fresh_instance s"
  shows "dispatch_with_fallback sh (mc_default c) (mc_ident c) (mc_fallback c) (mc_name c) (mc_args c) (state_at s n) =
    (case spec_call sh (in_nice_mode s) (expectations_of s) n c of ((msgs, r), n') \<Rightarrow> (msgs, r, state_at s n'))"
proof -
  let ?i = "mc_ident c" and ?j = "mc_fallback c"
  consider (ident) k where "serving (expectations_of s ?i) (n ?i) = Some k"
    | (fallback) k where "serving (expectations_of s ?i) (n ?i) = None" "serving (expectations_of s ?j) (n ?j) = Some k"
    | (nobody) "serving (expectations_of s ?i) (n ?i) = None" "serving (expectations_of s ?j) (n ?j) = None"
    by (cases "serving (expectations_of s ?i) (n ?i)"; cases "serving (expectations_of s ?j) (n ?j)") auto
  then show ?thesis
  proof cases
    case ident
    from take_Some[of s ?i n, OF ident assms] obtain m where
      "try_take_expectation ?i (state_at s n) = Some ((expectations_of s ?i ! k)\<lparr>ex_observed_calls := m\<rparr>,
         ex_expected_calls (expectations_of s ?i ! k) = 0 \<and> \<not> ex_allow_excess (expectations_of s ?i ! k), state_at s (n(?i := Suc (n ?i))))"
      by (auto simp: Let_def)
    then show ?thesis using ident
      by (simp add: dispatch_with_fallback_def Let_def spec_call_def spec_served_def) (simp add: invoke_def)
  next
    case fallback
    from take_Some[of s ?j n, OF fallback(2) assms] obtain m where
      "try_take_expectation ?j (state_at s n) = Some ((expectations_of s ?j ! k)\<lparr>ex_observed_calls := m\<rparr>,
         ex_expected_calls (expectations_of s ?j ! k) = 0 \<and> \<not> ex_allow_excess (expectations_of s ?j ! k), state_at s (n(?j := Suc (n ?j))))"
      by (auto simp: Let_def)
    moreover have "?j \<noteq> ?i" using fallback by auto
    ultimately show ?thesis using fallback take_None[of s ?i n, OF fallback(1)]
      by (simp add: dispatch_with_fallback_def Let_def spec_call_def spec_served_def) (simp add: invoke_def)
  next
    case nobody
    then show ?thesis using take_None[of s ?i n, OF nobody(1)] take_None[of s ?j n, OF nobody(2)] state_at_exhausted[of s ?i n, OF nobody(1)]
      by (simp add: dispatch_with_fallback_def Let_def spec_call_def)
  qed
qed

lemma run_calls_state_at:
  assumes "fresh_instance s"
  shows "run_calls sh cs (state_at s n) =
    (case spec_calls sh (in_nice_mode s) (expectations_of s) n cs of (rs, n') \<Rightarrow> (rs, state_at s n'))"
  by (induction cs arbitrary: n) (simp_all add: dispatch_state_at[OF assms] split: prod.split)

lemma state_at_0: "fresh_instance s \<Longrightarrow> state_at s (\<lambda>_. 0) = freeze s"
proof -
  assume "fresh_instance s"
  then have "map_option (\<lambda>e. entry_at e 0) (in_methods s i) = in_methods s i" for i
    by (cases "in_methods s i") (auto simp: fresh_instance_def entry_at_def filled_0)
  then show ?thesis by (simp add: state_at_def freeze_def)
qed

lemma dispatch_freeze:
  "dispatch_with_fallback sh d i j name args (freeze s) = dispatch_with_fallback sh d i j name args s"
  by (simp add: dispatch_with_fallback_def freeze_def)

lemma run_calls_freeze: "fst (run_calls sh cs (freeze s)) = fst (run_calls sh cs s)
  \<and> freeze (snd (run_calls sh cs (freeze s))) = freeze (snd (run_calls sh cs s))"
  by (cases cs) (simp_all add: dispatch_freeze, simp add: freeze_def)

lemma run_calls_spec:
  assumes "fresh_instance s"
  shows "fst (run_calls sh cs s) = fst (spec_calls sh (in_nice_mode s) (expectations_of s) (\<lambda>_. 0) cs)
    \<and> freeze (snd (run_calls sh cs s)) = state_at s (snd (spec_calls sh (in_nice_mode s) (expectations_of s) (\<lambda>_. 0) cs))"
  using run_calls_freeze[of sh cs s] run_calls_state_at[OF assms, of sh cs "\<lambda>_. 0"]
  by (simp add: state_at_0[OF assms] split: prod.splits)

subsection \<open>Configuration\<close>

datatype ('v, 'r) mock_setup = Setup_Expect MethodIdentity string | Setup_Handle handle "('v, 'r) handle_op" | Setup_Nice bool

fun setup_step :: "('v, 'r) InstanceState \<Rightarrow> ('v, 'r) mock_setup \<Rightarrow> ('v, 'r) InstanceState" where
  "setup_step s (Setup_Expect i name) = snd (push_expectation i name s)"
| "setup_step s (Setup_Handle h p) = (case h of None \<Rightarrow> s | Some x \<Rightarrow> apply_handle_op p x s)"
| "setup_step s (Setup_Nice b) = set_nice b s"

definition setup_mock :: "('v, 'r) mock_setup list \<Rightarrow> ('v, 'r) InstanceState" where
  "setup_mock ops = foldl setup_step new_instance ops"

lemmas handle_setters = set_expected_calls_def set_expected_def set_predicates_def set_call_predicate_def set_allow_excess_def
  set_action_def

lemma fresh_mutate:
  assumes "fresh_instance s" "\<And>x. fresh_expectation x \<Longrightarrow> fresh_expectation (f x)"
  shows "fresh_instance (mutate h f s)"
proof -
  have "list_all fresh_expectation es \<Longrightarrow> list_all fresh_expectation (es[k := f (es ! k)])" for es :: "('a, 'b) Expectation list" and k
    using assms(2) by (cases "k < length es") (auto simp: list_all_length nth_list_update)
  then show ?thesis using assms(1)
    by (auto simp: mutate_def upd_expectation_def fresh_instance_def split: option.splits)
qed

lemma fresh_setup_step: "fresh_instance s \<Longrightarrow> fresh_instance (setup_step s p)"
proof (cases p)
  case (Setup_Handle h q)
  assume "fresh_instance s"
  then have "fresh_instance (apply_handle_op q x s)" for x
    by (cases q) (auto simp: handle_setters fresh_expectation_def intro!: fresh_mutate)
  then show ?thesis using Setup_Handle \<open>fresh_instance s\<close> by (cases h) auto
qed (auto simp: push_expectation_def set_nice_def fresh_instance_def new_expectation_def new_method_entry_def fresh_expectation_def Let_def
      split: option.splits)

lemma fresh_setup: "fresh_instance (setup_mock ops)"
proof -
  have "fresh_instance s \<Longrightarrow> fresh_instance (foldl setup_step s ops)" for s :: "('a, 'b) InstanceState"
    by (induction ops arbitrary: s) (simp_all add: fresh_setup_step)
  moreover have "fresh_instance (new_instance :: ('a, 'b) InstanceState)" by (simp add: fresh_instance_def new_instance_def)
  ultimately show ?thesis by (simp add: setup_mock_def)
qed

text \<open>
  C5. Dispatch implements its specification: however a mock is configured and whatever calls reach
  it, in whatever order threads enter it, every call records the failures and returns the result
  that the reference prescribes, which merely counts the calls to each method and gives the call
  to the expectation in charge, the method of the call first and its fallback second.
\<close>

theorem mock_dispatch_refines:
  "fst (run_calls sh cs (setup_mock ops)) =
     fst (spec_calls sh (in_nice_mode (setup_mock ops)) (expectations_of (setup_mock ops)) (\<lambda>_. 0) cs)"
  using run_calls_spec[OF fresh_setup] by blast

subsection \<open>The verdict of a mock\<close>

text \<open>
  What a test says with a list of expectations: exactly the expected number of calls for each in
  turn; an expectation that allows more takes the rest, so what follows it must not expect calls;
  calls beyond the last expectation are tolerated by a nice mock only.
\<close>

fun accepts :: "bool \<Rightarrow> ('v, 'r) Expectation list \<Rightarrow> nat \<Rightarrow> bool" where
  "accepts nice [] n \<longleftrightarrow> nice \<or> n = 0"
| "accepts nice (x # xs) n \<longleftrightarrow>
     (if ex_allow_excess x then ex_expected_calls x \<le> n \<and> list_all (\<lambda>y. ex_expected_calls y = 0) xs
      else if ex_expected_calls x = 0 then n = 0 \<and> accepts nice xs 0
      else ex_expected_calls x \<le> n \<and> accepts nice xs (n - ex_expected_calls x))"

definition calls_to :: "MethodIdentity \<Rightarrow> ('v, 'r) mock_call list \<Rightarrow> nat" where
  "calls_to i cs = length (filter (\<lambda>c. mc_ident c = i) cs)"

fun args_accepted ::
  "('v \<Rightarrow> string) \<Rightarrow> (MethodIdentity \<Rightarrow> ('v, 'r) Expectation list) \<Rightarrow> (MethodIdentity \<Rightarrow> nat) \<Rightarrow> ('v, 'r) mock_call list \<Rightarrow> bool" where
  "args_accepted sh es n [] \<longleftrightarrow> True"
| "args_accepted sh es n (c # cs) \<longleftrightarrow>
     (case serving (es (mc_ident c)) (n (mc_ident c)) of
        None \<Rightarrow> True
      | Some k \<Rightarrow> fst (check_args sh (mc_name c) (es (mc_ident c) ! k) (mc_args c)))
     \<and> args_accepted sh es (n(mc_ident c := Suc (n (mc_ident c)))) cs"

definition quiet_at :: "bool \<Rightarrow> ('v, 'r) Expectation list \<Rightarrow> nat \<Rightarrow> bool" where
  "quiet_at nice es k \<longleftrightarrow>
     (case serving es k of None \<Rightarrow> nice | Some i \<Rightarrow> ex_expected_calls (es ! i) \<noteq> 0 \<or> ex_allow_excess (es ! i))"

definition satisfied :: "('v, 'r) Expectation list \<Rightarrow> bool" where
  "satisfied es \<longleftrightarrow> list_all (\<lambda>x. ex_expected_calls x \<le> ex_observed_calls x) es"

lemma accepts_quiet:
  "list_all fresh_expectation es \<Longrightarrow> accepts nice es n \<longleftrightarrow> (\<forall>k<n. quiet_at nice es k) \<and> satisfied (filled es n)"
proof (induction es arbitrary: n)
  case Nil
  then show ?case by (auto simp: quiet_at_def satisfied_def)
next
  case (Cons x xs)
  have fx: "ex_observed_calls x = 0" using Cons.prems by (simp add: fresh_expectation_def)
  have fxs: "list_all fresh_expectation xs" using Cons.prems by simp
  have z: "list_all (\<lambda>y. ex_expected_calls y \<le> ex_observed_calls y) xs \<longleftrightarrow> list_all (\<lambda>y. ex_expected_calls y = 0) xs"
    using fxs by (auto simp: list_all_iff fresh_expectation_def)
  consider (excess) "ex_allow_excess x" | (never) "\<not> ex_allow_excess x" "ex_expected_calls x = 0"
    | (times) "\<not> ex_allow_excess x" "ex_expected_calls x > 0" by auto
  then show ?case
  proof cases
    case excess
    then show ?thesis using z by (auto simp: quiet_at_def satisfied_def)
  next
    case never
    then have q: "\<not> quiet_at nice (x # xs) 0" by (simp add: quiet_at_def slots_def)
    have "accepts nice xs 0 \<longleftrightarrow> satisfied xs" using Cons.IH[OF fxs, of 0] filled_0[OF fxs] by simp
    then show ?thesis using never q fx z by (cases n) (auto simp: satisfied_def slots_def)
  next
    case times
    let ?c = "ex_expected_calls x"
    have s: "slots x = ?c" using times by (simp add: slots_def)
    have q: "quiet_at nice (x # xs) k \<longleftrightarrow> k < ?c \<or> quiet_at nice xs (k - ?c)" for k
      using times s by (auto simp: quiet_at_def split: option.splits)
    show ?thesis
    proof (cases "?c \<le> n")
      case True
      have "(\<forall>k<n. quiet_at nice (x # xs) k) \<longleftrightarrow> (\<forall>k<n - ?c. quiet_at nice xs k)"
      proof
        assume a: "\<forall>k<n. quiet_at nice (x # xs) k"
        show "\<forall>k<n - ?c. quiet_at nice xs k"
        proof (intro allI impI)
          fix k assume "k < n - ?c"
          then show "quiet_at nice xs k" using a q[of "k + ?c"] by auto
        qed
      next
        assume "\<forall>k<n - ?c. quiet_at nice xs k"
        then show "\<forall>k<n. quiet_at nice (x # xs) k" using q by (metis diff_less_mono not_less)
      qed
      then show ?thesis using True times Cons.IH[OF fxs] s by (auto simp: satisfied_def)
    next
      case False
      then show ?thesis using times s by (auto simp: satisfied_def)
    qed
  qed
qed

lemma tuple_match_report: "report_first_tuple_arg_mismatch sh i es name as = [] \<longleftrightarrow> tuple_args_match es as"
  by (induction sh i es name as rule: report_first_tuple_arg_mismatch.induct) auto

lemma tuple_predicates_report: "snd (tuple_args_match_predicates i ps name as) = [] \<longleftrightarrow> fst (tuple_args_match_predicates i ps name as)"
  by (induction i ps name as rule: tuple_args_match_predicates.induct) auto

lemma check_args_report: "snd (check_args sh name x as) = [] \<longleftrightarrow> fst (check_args sh name x as)"
  by (auto simp: check_args_def check_args_equal_def check_args_by_predicates_def tuple_match_report tuple_predicates_report Let_def
      split: option.splits)

lemma spec_call_plain:
  assumes "mc_fallback c = mc_ident c"
  shows "fst (fst (spec_call sh nice es n c)) = [] \<longleftrightarrow> quiet_at nice (es (mc_ident c)) (n (mc_ident c))
      \<and> (case serving (es (mc_ident c)) (n (mc_ident c)) of None \<Rightarrow> True
         | Some k \<Rightarrow> fst (check_args sh (mc_name c) (es (mc_ident c) ! k) (mc_args c)))"
    and "snd (spec_call sh nice es n c) = n(mc_ident c := Suc (n (mc_ident c)))"
  using assms by (auto simp: spec_call_def spec_served_def quiet_at_def check_args_report Let_def split: option.splits)

lemma spec_calls_plain:
  assumes "list_all (\<lambda>c. mc_fallback c = mc_ident c) cs"
  shows "(concat (map fst (fst (spec_calls sh nice es n cs))) = [] \<longleftrightarrow>
      (\<forall>i k. n i \<le> k \<longrightarrow> k < n i + calls_to i cs \<longrightarrow> quiet_at nice (es i) k) \<and> args_accepted sh es n cs)
    \<and> snd (spec_calls sh nice es n cs) = (\<lambda>i. n i + calls_to i cs)"
  using assms
proof (induction cs arbitrary: n)
  case (Cons c cs)
  let ?i = "mc_ident c"
  let ?n = "n(?i := Suc (n ?i))"
  have pl: "mc_fallback c = ?i" "list_all (\<lambda>c. mc_fallback c = mc_ident c) cs" using Cons.prems by simp_all
  obtain r n1 where sc: "spec_call sh nice es n c = (r, n1)" by fastforce
  then have n1: "n1 = ?n" using spec_call_plain(2)[OF pl(1), of sh nice es n] by simp
  obtain rest n2 where rest: "spec_calls sh nice es ?n cs = (rest, n2)" by fastforce
  have ih: "concat (map fst rest) = [] \<longleftrightarrow>
      (\<forall>i k. ?n i \<le> k \<longrightarrow> k < ?n i + calls_to i cs \<longrightarrow> quiet_at nice (es i) k) \<and> args_accepted sh es ?n cs"
    "n2 = (\<lambda>i. ?n i + calls_to i cs)"
    using Cons.IH[OF pl(2), of ?n, unfolded rest fst_conv snd_conv] by blast+
  have ct: "calls_to i (c # cs) = (if i = ?i then Suc (calls_to i cs) else calls_to i cs)" for i
    by (auto simp: calls_to_def)
  have "(\<forall>i k. n i \<le> k \<longrightarrow> k < n i + calls_to i (c # cs) \<longrightarrow> quiet_at nice (es i) k) \<longleftrightarrow>
      quiet_at nice (es ?i) (n ?i) \<and> (\<forall>i k. ?n i \<le> k \<longrightarrow> k < ?n i + calls_to i cs \<longrightarrow> quiet_at nice (es i) k)"
    (is "?l \<longleftrightarrow> ?a \<and> ?b")
  proof
    assume l: ?l
    have ?a using l[rule_format, of ?i "n ?i"] by (simp add: ct)
    moreover have ?b
    proof (intro allI impI)
      fix i k assume "?n i \<le> k" "k < ?n i + calls_to i cs"
      then show "quiet_at nice (es i) k" using l[rule_format, of i k] by (auto simp: ct split: if_splits)
    qed
    ultimately show "?a \<and> ?b" ..
  next
    assume ab: "?a \<and> ?b"
    show ?l
    proof (intro allI impI)
      fix i k assume h: "n i \<le> k" "k < n i + calls_to i (c # cs)"
      show "quiet_at nice (es i) k"
      proof (cases "i = ?i \<and> k = n i")
        case False
        then have "?n i \<le> k" "k < ?n i + calls_to i cs" using h by (auto simp: ct split: if_splits)
        then show ?thesis using ab by blast
      qed (use ab in blast)
    qed
  qed
  moreover have "concat (map fst (fst (spec_calls sh nice es n (c # cs)))) = [] \<longleftrightarrow> fst r = [] \<and> concat (map fst rest) = []"
    using sc n1 rest by simp
  moreover have "snd (spec_calls sh nice es n (c # cs)) = (\<lambda>i. n i + calls_to i (c # cs))"
    using sc n1 rest ih(2) by (auto simp: ct)
  ultimately show ?case using spec_call_plain(1)[OF pl(1), of sh nice es n] sc ih(1) by auto
qed (simp add: calls_to_def)

definition mock_session :: "('v \<Rightarrow> string) \<Rightarrow> MethodIdentity list \<Rightarrow> ('v, 'r) mock_call list \<Rightarrow> ('v, 'r) InstanceState \<Rightarrow> string list" where
  "mock_session sh idents cs s =
     (case run_calls sh cs s of (rs, s1) \<Rightarrow> concat (map fst rs) @ snd (verify_all idents s1))"

definition mock_accepts ::
  "('v \<Rightarrow> string) \<Rightarrow> ('v, 'r) InstanceState \<Rightarrow> ('v, 'r) mock_call list \<Rightarrow> bool" where
  "mock_accepts sh s cs \<longleftrightarrow>
     (\<forall>i. accepts (in_nice_mode s) (expectations_of s i) (calls_to i cs)) \<and> args_accepted sh (expectations_of s) (\<lambda>_. 0) cs"

lemma snd_verify: "\<not> ex_already_verified x \<Longrightarrow> snd (verify name x) = [] \<longleftrightarrow> ex_expected_calls x \<le> ex_observed_calls x"
  by (auto simp: verify_def verify_calls_or_fail_def)

lemma verify_entry_quiet:
  "list_all (\<lambda>x. \<not> ex_already_verified x) (me_expectations e) \<Longrightarrow> snd (verify_entry e) = [] \<longleftrightarrow> satisfied (me_expectations e)"
  by (auto simp: verify_entry_def Let_def satisfied_def list_all_iff snd_verify)

lemma verify_methods_quiet:
  assumes "distinct idents"
    "\<And>i e. i \<in> set idents \<Longrightarrow> in_methods s i = Some e \<Longrightarrow> list_all (\<lambda>x. \<not> ex_already_verified x) (me_expectations e)"
  shows "snd (verify_methods idents s) = [] \<longleftrightarrow> (\<forall>i \<in> set idents. satisfied (expectations_of s i))"
  using assms
proof (induction idents arbitrary: s)
  case (Cons i idents)
  show ?case
  proof (cases "in_methods s i")
    case None
    then show ?thesis using Cons by (auto simp: expectations_of_def satisfied_def)
  next
    case (Some e)
    obtain e' msgs where v: "verify_entry e = (e', msgs)" by force
    let ?s = "s\<lparr>in_methods := (in_methods s)(i \<mapsto> e')\<rparr>"
    have "snd (verify_methods idents ?s) = [] \<longleftrightarrow> (\<forall>j \<in> set idents. satisfied (expectations_of ?s j))"
      using Cons.prems by (intro Cons.IH) (auto split: if_splits)
    moreover have "expectations_of ?s j = expectations_of s j" if "j \<in> set idents" for j
      using that Cons.prems(1) by (auto simp: expectations_of_def)
    moreover have "msgs = [] \<longleftrightarrow> satisfied (expectations_of s i)"
      using verify_entry_quiet[of e] Cons.prems(2)[of i e] Some v by (simp add: expectations_of_def)
    ultimately show ?thesis using Some v by (auto split: prod.split)
  qed
qed simp

lemma satisfied_filled_verified:
  "list_all fresh_expectation es \<Longrightarrow> list_all (\<lambda>x. \<not> ex_already_verified x) (filled es n)"
  by (induction es n rule: filled.induct) (auto simp: fresh_expectation_def list_all_iff)

lemma satisfied_state_at: "expectations_of (state_at s n) i = filled (expectations_of s i) (n i)"
  by (auto simp: expectations_of_def state_at_def entry_at_def split: option.splits)

lemma mock_session_quiet:
  assumes fr: "fresh_instance s" and plain: "list_all (\<lambda>c. mc_fallback c = mc_ident c) cs"
    and ids: "distinct idents" "set idents = dom (in_methods s)"
  shows "mock_session sh idents cs s = [] \<longleftrightarrow> mock_accepts sh s cs"
proof -
  let ?nice = "in_nice_mode s" and ?es = "expectations_of s"
  let ?n = "\<lambda>i. calls_to i cs"
  have fes: "list_all fresh_expectation (?es i)" for i
    using fr by (auto simp: fresh_instance_def expectations_of_def split: option.splits)
  have msgs: "concat (map fst (fst (run_calls sh cs s))) = [] \<longleftrightarrow>
      (\<forall>i k. k < calls_to i cs \<longrightarrow> quiet_at ?nice (?es i) k) \<and> args_accepted sh ?es (\<lambda>_. 0) cs"
    using run_calls_spec[OF fr] spec_calls_plain[OF plain, of sh ?nice ?es "\<lambda>_. 0"] by simp
  have fin: "freeze (snd (run_calls sh cs s)) = state_at s ?n"
    using run_calls_spec[OF fr] spec_calls_plain[OF plain, of sh ?nice ?es "\<lambda>_. 0"] by simp
  have "snd (verify_all idents (snd (run_calls sh cs s))) = [] \<longleftrightarrow> (\<forall>i \<in> set idents. satisfied (filled (?es i) (?n i)))"
    unfolding verify_all_def fin
  proof (subst verify_methods_quiet[OF ids(1)])
    fix i e assume "in_methods (state_at s ?n) i = Some e"
    then have "me_expectations e = filled (?es i) (?n i)" using satisfied_state_at[of s ?n i] by (simp add: expectations_of_def)
    then show "list_all (\<lambda>x. \<not> ex_already_verified x) (me_expectations e)" using satisfied_filled_verified[OF fes] by simp
  qed (simp add: satisfied_state_at)
  also have "\<dots> \<longleftrightarrow> (\<forall>i. satisfied (filled (?es i) (?n i)))"
    using ids(2) by (auto simp: expectations_of_def satisfied_def split: option.splits)
  finally have ver: "snd (verify_all idents (snd (run_calls sh cs s))) = [] \<longleftrightarrow> (\<forall>i. satisfied (filled (?es i) (?n i)))" .
  show ?thesis using msgs ver accepts_quiet[OF fes, of ?nice]
    by (auto simp: mock_session_def mock_accepts_def split: prod.splits)
qed

text \<open>The body of a test that only talks to a mock: every failure of the mock is recorded.\<close>

definition mock_body :: "string list \<Rightarrow> user_body" where
  "mock_body msgs = (map UFailure msgs, None)"

lemma mock_body_outcome: "expected_outcome (mock_body msgs) = (if msgs = [] then OutPass else OutFail)"
proof -
  have 1: "find is_skip (map UFailure msgs) = None" by (induction msgs) auto
  have 2: "takeWhile (\<lambda>p. \<not> is_skip p) (map UFailure msgs) = map UFailure msgs" by (induction msgs) auto
  have 3: "concat (map op_failures (map UFailure msgs)) = msgs" by (induction msgs) auto
  have 4: "\<not> list_ex is_xfail (map UFailure msgs)" by (induction msgs) auto
  show ?thesis unfolding mock_body_def expected_outcome_def fst_conv snd_conv Let_def 1 2 3 option.case using 4
    by (simp add: raises_def)
qed


subsection \<open>Configuration ends with the first call\<close>

datatype ('v, 'r) mock_op = Setup "('v, 'r) mock_setup" | Call "('v, 'r) mock_call" | Verify "MethodIdentity list"

fun mock_step :: "('v \<Rightarrow> string) \<Rightarrow> ('v, 'r) InstanceState \<Rightarrow> ('v, 'r) mock_op \<Rightarrow> ('v, 'r) InstanceState" where
  "mock_step sh s (Setup p) = setup_step s p"
| "mock_step sh s (Call c) =
     snd (snd (dispatch_with_fallback sh (mc_default c) (mc_ident c) (mc_fallback c) (mc_name c) (mc_args c) s))"
| "mock_step sh s (Verify idents) = fst (verify_all idents s)"

text \<open>What a test configures: everything but the progress of the expectations.\<close>

definition settings :: "('v, 'r) Expectation \<Rightarrow> ('v, 'r) Expectation" where
  "settings x = x\<lparr>ex_observed_calls := 0, ex_already_verified := False\<rparr>"

definition configuration :: "('v, 'r) InstanceState \<Rightarrow> bool \<times> (MethodIdentity \<Rightarrow> (string \<times> ('v, 'r) Expectation list) option)" where
  "configuration s =
     (in_nice_mode s, \<lambda>i. map_option (\<lambda>e. (me_method_name e, map settings (me_expectations e))) (in_methods s i))"

definition started :: "('v, 'r) InstanceState \<Rightarrow> bool" where
  "started s \<longleftrightarrow> in_frozen s \<and> in_runtime_started s"

lemma configuration_freeze [simp]: "configuration (freeze s) = configuration s" "started (freeze s)"
  by (simp_all add: configuration_def freeze_def started_def)

lemma map_settings_update: "map settings (xs[i := (xs ! i)\<lparr>ex_observed_calls := k\<rparr>]) = map settings xs"
proof (cases "i < length xs")
  case True
  then show ?thesis by (simp add: map_update list_update_same_conv settings_def)
qed (simp add: list_update_beyond)

lemma take_configuration:
  assumes "try_take_expectation i s = Some (x, u, s')"
  shows "configuration s' = configuration s" and "started s' = started s"
  using assms map_settings_update
  by (auto simp: try_take_expectation_def configuration_def started_def fun_eq_iff Let_def split: option.splits if_splits)

lemma dispatch_configuration:
  "configuration (snd (snd (dispatch_with_fallback sh d i j name args s))) = configuration s
   \<and> started (snd (snd (dispatch_with_fallback sh d i j name args s)))"
  by (auto simp: dispatch_with_fallback_def Let_def take_configuration split: option.splits prod.splits if_splits)

lemma verify_settings: "settings (fst (verify name x)) = settings x"
  by (simp add: verify_def verify_calls_or_fail_def settings_def)

lemma verify_methods_configuration:
  "configuration (fst (verify_methods idents s)) = configuration s \<and> started (fst (verify_methods idents s)) = started s"
proof (induction idents arbitrary: s)
  case (Cons i idents)
  show ?case
  proof (cases "in_methods s i")
    case (Some e)
    let ?s = "s\<lparr>in_methods := (in_methods s)(i \<mapsto> fst (verify_entry e))\<rparr>"
    have "configuration ?s = configuration s"
      using Some by (auto simp: configuration_def fun_eq_iff verify_entry_def Let_def verify_settings)
    moreover have "fst (verify_methods (i # idents) s) = fst (verify_methods idents ?s)"
      using Some by (simp split: prod.split)
    ultimately show ?thesis using Cons.IH[of ?s] by (simp add: started_def)
  qed (simp add: Cons.IH)
qed simp

lemma setup_step_started: "started s \<Longrightarrow> setup_step s p = s"
proof (cases p)
  case (Setup_Handle h q)
  assume "started s"
  then have "apply_handle_op q x s = s" for x
    by (cases q) (simp_all add: handle_setters mutate_def allow_mutation_def started_def)
  then show ?thesis using Setup_Handle by (simp split: option.splits)
qed (simp_all add: started_def push_expectation_def set_nice_def)

lemma mock_step_started:
  assumes "started s"
  shows "configuration (mock_step sh s p) = configuration s \<and> started (mock_step sh s p)"
  using assms verify_methods_configuration[of _ "freeze s"]
  by (cases p) (simp_all add: setup_step_started verify_all_def dispatch_configuration)

text \<open>
  Configuration ends with the first call or verification: whatever is done to a mock later, by
  whatever thread and in whatever order, its mode, its expectations and their counts, arguments,
  predicates and actions are the ones that were configured before.
\<close>

theorem mock_configuration_frozen:
  "configuration (foldl (mock_step sh) s (Call c # later)) = configuration s
   \<and> configuration (foldl (mock_step sh) s (Verify idents # later)) = configuration s"
proof -
  have later: "started s \<Longrightarrow> configuration (foldl (mock_step sh) s later) = configuration s" for s
    by (induction later arbitrary: s) (simp_all add: mock_step_started)
  show ?thesis
    using later verify_methods_configuration[of idents "freeze s"] by (simp add: verify_all_def dispatch_configuration)
qed

definition sample_setup :: "(nat, nat) mock_setup list" where
  "sample_setup = [Setup_Expect (named ''f'') ''f'', Setup_Handle (Some (named ''f'', 0)) (Times 2), Setup_Handle (Some (named ''f'', 0)) (With [7])]"

definition sample_calls :: "(nat, nat) mock_call list" where
  "sample_calls = replicate 2 \<lparr>mc_ident = named ''f'', mc_fallback = named ''f'', mc_name = ''f'', mc_default = Some 0, mc_args = [7]\<rparr>"

lemma sample_expectation: "in_methods (setup_mock sample_setup) =
    [named ''f'' \<mapsto> \<lparr>me_method_name = ''f'', me_expectations = [new_expectation\<lparr>ex_expected_calls := 2, ex_expected_args := Some [7]\<rparr>],
      me_next_expectation = 0\<rparr>]"
  by (simp add: setup_mock_def sample_setup_def push_expectation_def new_instance_def new_method_entry_def handle_setters mutate_def allow_mutation_def
      upd_expectation_def)

lemma sample_accepted: "mock_accepts show_nat (setup_mock sample_setup) sample_calls"
proof -
  have "accepts nice (expectations_of (setup_mock sample_setup) i) (calls_to i sample_calls)" for i nice
    by (cases "i = named ''f''")
       (auto simp: expectations_of_def sample_expectation calls_to_def sample_calls_def new_expectation_def numeral_2_eq_2)
  then show ?thesis
    by (simp add: mock_accepts_def sample_calls_def expectations_of_def sample_expectation new_expectation_def check_args_def
        check_args_equal_def slots_def numeral_2_eq_2)
qed

definition sample_mock_env :: exec_env where
  "sample_mock_env = \<lparr>e_bodies = (\<lambda>_ _. mock_body (mock_session show_nat [named ''f''] sample_calls (setup_mock sample_setup))),
     e_elapsed = (\<lambda>_. DFinite 0)\<rparr>"


subsection \<open>Matchers\<close>

definition Any :: "'v ArgPredicate" where
  "Any = \<lparr>ap_test = (\<lambda>_. True), ap_describe = None\<rparr>"

definition Eq :: "('v \<Rightarrow> string) \<Rightarrow> 'v \<Rightarrow> 'v ArgPredicate" where
  "Eq sh v = \<lparr>ap_test = (\<lambda>a. a = v), ap_describe = Some (\<lambda>a. ''expected == '' @ sh v @ '', got '' @ sh a)\<rparr>"

definition InRange :: "('v :: order \<Rightarrow> string) \<Rightarrow> 'v \<Rightarrow> 'v \<Rightarrow> 'v ArgPredicate" where
  "InRange sh lo hi = \<lparr>ap_test = (\<lambda>a. a \<ge> lo \<and> a \<le> hi),
     ap_describe = Some (\<lambda>a. ''expected in ['' @ sh lo @ '', '' @ sh hi @ ''], got '' @ sh a)\<rparr>"

definition Not_M :: "'v ArgPredicate \<Rightarrow> 'v ArgPredicate" where
  "Not_M p = \<lparr>ap_test = (\<lambda>a. \<not> ap_test p a),
     ap_describe = Some (\<lambda>a. ''not('' @ (case ap_describe p of Some d \<Rightarrow> d a | None \<Rightarrow> ''predicate matched'') @ '')'')\<rparr>"

definition Ge :: "('v :: order \<Rightarrow> string) \<Rightarrow> 'v \<Rightarrow> 'v ArgPredicate" where
  "Ge sh b = \<lparr>ap_test = (\<lambda>a. a \<ge> b), ap_describe = Some (\<lambda>a. ''expected >= '' @ sh b @ '', got '' @ sh a)\<rparr>"

definition Le :: "('v :: order \<Rightarrow> string) \<Rightarrow> 'v \<Rightarrow> 'v ArgPredicate" where
  "Le sh b = \<lparr>ap_test = (\<lambda>a. a \<le> b), ap_describe = Some (\<lambda>a. ''expected <= '' @ sh b @ '', got '' @ sh a)\<rparr>"

definition Gt :: "('v :: order \<Rightarrow> string) \<Rightarrow> 'v \<Rightarrow> 'v ArgPredicate" where
  "Gt sh b = \<lparr>ap_test = (\<lambda>a. a > b), ap_describe = Some (\<lambda>a. ''expected > '' @ sh b @ '', got '' @ sh a)\<rparr>"

definition Lt :: "('v :: order \<Rightarrow> string) \<Rightarrow> 'v \<Rightarrow> 'v ArgPredicate" where
  "Lt sh b = \<lparr>ap_test = (\<lambda>a. a < b), ap_describe = Some (\<lambda>a. ''expected < '' @ sh b @ '', got '' @ sh a)\<rparr>"

text \<open>The sign between value and tolerance is the two bytes of its UTF-8 encoding.\<close>

definition Near :: "(real \<Rightarrow> string) \<Rightarrow> real \<Rightarrow> real \<Rightarrow> real ArgPredicate" where
  "Near sh v e = \<lparr>ap_test = (\<lambda>a. \<bar>a - v\<bar> \<le> e),
     ap_describe = Some (\<lambda>a. ''expected near '' @ sh v @ '' '' @ [CHR 0xC2, CHR 0xB1] @ '' '' @ sh e @ '', got '' @ sh a)\<rparr>"

text \<open>Text arguments: \<open>None\<close> is a null pointer.\<close>

definition text_matcher :: "string \<Rightarrow> string \<Rightarrow> (string \<Rightarrow> bool) \<Rightarrow> string option ArgPredicate" where
  "text_matcher what needle test =
     \<lparr>ap_test = (\<lambda>a. case a of None \<Rightarrow> False | Some s \<Rightarrow> test s),
      ap_describe = Some (\<lambda>a. ''expected '' @ what @ '' '' @ [CHR 0x27] @ needle @ [CHR 0x27] @ '', got ''
        @ (case a of None \<Rightarrow> ''<null>'' | Some s \<Rightarrow> [CHR 0x27] @ s @ [CHR 0x27]))\<rparr>"

definition StrContains :: "string \<Rightarrow> string option ArgPredicate" where
  "StrContains needle = text_matcher ''substring'' needle (\<lambda>s. find_substring needle s \<noteq> None)"

definition StartsWith :: "string \<Rightarrow> string option ArgPredicate" where
  "StartsWith px = text_matcher ''prefix'' px (\<lambda>s. starts_with s px)"

definition EndsWith :: "string \<Rightarrow> string option ArgPredicate" where
  "EndsWith sx = text_matcher ''suffix'' sx (\<lambda>s. length s \<ge> length sx \<and> drop (length s - length sx) s = sx)"

fun join_descriptions :: "'v \<Rightarrow> 'v ArgPredicate list \<Rightarrow> string" where
  "join_descriptions a [] = []"
| "join_descriptions a (p # ps) =
     (case ap_describe p of Some d \<Rightarrow> d a | None \<Rightarrow> ''predicate'') @ (if ps = [] then [] else ''; '' @ join_descriptions a ps)"

definition AnyOf :: "'v ArgPredicate list \<Rightarrow> 'v ArgPredicate" where
  "AnyOf ps = \<lparr>ap_test = (\<lambda>a. foldl (\<lambda>ok p. ok \<or> ap_test p a) False ps),
     ap_describe = Some (\<lambda>a. ''expected any of: '' @ join_descriptions a ps)\<rparr>"

definition AllOf :: "'v ArgPredicate list \<Rightarrow> 'v ArgPredicate" where
  "AllOf ps = \<lparr>ap_test = (\<lambda>a. foldl (\<lambda>ok p. ok \<and> ap_test p a) True ps),
     ap_describe = Some (\<lambda>a. ''expected all of: '' @ join_descriptions a ps)\<rparr>"

lemma AnyOf_test: "ap_test (AnyOf ps) a \<longleftrightarrow> list_ex (\<lambda>p. ap_test p a) ps"
proof -
  have "foldl (\<lambda>ok p. ok \<or> ap_test p a) b ps \<longleftrightarrow> b \<or> list_ex (\<lambda>p. ap_test p a) ps" for b
    by (induction ps arbitrary: b) auto
  then show ?thesis by (simp add: AnyOf_def)
qed

lemma AllOf_test: "ap_test (AllOf ps) a \<longleftrightarrow> list_all (\<lambda>p. ap_test p a) ps"
proof -
  have "foldl (\<lambda>ok p. ok \<and> ap_test p a) b ps \<longleftrightarrow> b \<and> list_all (\<lambda>p. ap_test p a) ps" for b
    by (induction ps arbitrary: b) auto
  then show ?thesis by (simp add: AllOf_def)
qed

lemma find_substring_iff: "find_substring needle s \<noteq> None \<longleftrightarrow> (\<exists>a b. s = a @ needle @ b)"
proof (induction s)
  case (Cons c s)
  show ?case
  proof (cases "starts_with (c # s) needle")
    case True
    then show ?thesis by (auto simp: starts_with_iff intro: exI[of _ "[]"])
  next
    case False
    then have "(\<exists>a b. c # s = a @ needle @ b) \<longleftrightarrow> (\<exists>a b. s = a @ needle @ b)"
      by (auto simp: starts_with_iff append_eq_Cons_conv Cons_eq_append_conv)
    then show ?thesis using False Cons by simp
  qed
qed auto

text \<open>The matchers mean what their names say; negation and the two lists obey the laws of logic.\<close>

lemma matchers_exact:
  fixes a lo hi :: "'v :: linorder"
  shows "ap_test (InRange sh lo hi) a \<longleftrightarrow> ap_test (AllOf [Ge sh lo, Le sh hi]) a"
    and "ap_test (Not_M (AnyOf ps)) b \<longleftrightarrow> ap_test (AllOf (map Not_M ps)) b"
    and "ap_test (Not_M (Ge sh lo)) a \<longleftrightarrow> ap_test (Lt sh lo) a"
    and "ap_test (StrContains n) t \<longleftrightarrow> (\<exists>x y. t = Some (x @ n @ y))"
    and "ap_test (StartsWith n) t \<longleftrightarrow> (\<exists>y. t = Some (n @ y))"
    and "ap_test (EndsWith n) t \<longleftrightarrow> (\<exists>x. t = Some (x @ n))"
proof -
  show "ap_test (InRange sh lo hi) a \<longleftrightarrow> ap_test (AllOf [Ge sh lo, Le sh hi]) a"
    by (simp add: AllOf_test InRange_def Ge_def Le_def)
  show "ap_test (Not_M (AnyOf ps)) b \<longleftrightarrow> ap_test (AllOf (map Not_M ps)) b"
    by (simp add: AllOf_test AnyOf_test Not_M_def list_all_iff list_ex_iff)
  show "ap_test (Not_M (Ge sh lo)) a \<longleftrightarrow> ap_test (Lt sh lo) a" by (auto simp: Not_M_def Ge_def Lt_def)
  show "ap_test (StrContains n) t \<longleftrightarrow> (\<exists>x y. t = Some (x @ n @ y))"
    using find_substring_iff by (auto simp: StrContains_def text_matcher_def split: option.splits)
  show "ap_test (StartsWith n) t \<longleftrightarrow> (\<exists>y. t = Some (n @ y))"
    by (auto simp: StartsWith_def text_matcher_def starts_with_iff split: option.splits)
  show "ap_test (EndsWith n) t \<longleftrightarrow> (\<exists>x. t = Some (x @ n))"
    by (auto simp: EndsWith_def text_matcher_def split: option.splits) (metis append_take_drop_id)
qed

end
