(* ===== verification/Mock_Manifest.thy ===== *)
theory Mock_Manifest
  imports Template_Args "HOL-Library.List_Lexorder" "HOL-Library.Char_ord" "HOL-Library.Product_Lexorder"
begin

section \<open>The mock manifest: \<^verbatim>\<open>tools/src/mock_manifest.cpp\<close>\<close>

text \<open>
  Mock discovery writes a manifest that the generator of mocks reads in a later build step.  The
  JSON library is LLVM's: its values are the datatype \<open>json\<close> (a number carries what
  \<^verbatim>\<open>getInteger\<close> makes of it), its printer and parser are arguments.  A field with a default
  that is absent keeps the default; the error of a parser is the message that it leaves, and the
  first one ends the reading.  \<^verbatim>\<open>std::size_t\<close> is \<open>64 word\<close>, converted to and from
  \<^verbatim>\<open>std::int64_t\<close> as the code does.
\<close>

subsection \<open>Data\<close>

datatype PassStyle = PS_Value | PS_LValueRef | PS_RValueRef | PS_ForwardingRef
datatype MockMethodCvQualifier = CV_None | CV_Const | CV_Volatile | CV_ConstVolatile
datatype MockMethodRefQualifier = RQ_None | RQ_LValue | RQ_RValue
datatype DefinitionKind = DK_HeaderLike | DK_NamedModule

record MockParamInfo =
  mp_type :: string
  mp_name :: string
  mp_default_arg :: string
  mp_pass_style :: PassStyle

record MockMethodQualifiers =
  mq_cv :: MockMethodCvQualifier
  mq_ref :: MockMethodRefQualifier
  mq_is_noexcept :: bool

record MockCtorInfo =
  ct_parameters :: "MockParamInfo list"
  ct_template_prefix :: string
  ct_template_params :: "TemplateParamInfo list"
  ct_is_explicit :: bool
  ct_is_noexcept :: bool

record MockMethodInfo =
  mm_qualified_name :: string
  mm_method_name :: string
  mm_return_type :: string
  mm_parameters :: "MockParamInfo list"
  mm_template_prefix :: string
  mm_template_params :: "TemplateParamInfo list"
  mm_is_static :: bool
  mm_is_virtual :: bool
  mm_is_pure_virtual :: bool
  mm_is_final :: bool
  mm_is_variadic :: bool
  mm_is_overloaded_operator :: bool
  mm_is_conversion_operator :: bool
  mm_qualifiers :: MockMethodQualifiers

record MockNamespaceScopeInfo =
  nsi_name :: string
  nsi_is_inline :: bool
  nsi_is_exported :: bool
  nsi_lexical_close_group :: "64 word"
  nsi_reopen_prefix :: string

record MockClassInfo =
  mk_qualified_name :: string
  mk_display_name :: string
  mk_definition_file :: string
  mk_definition_kind :: DefinitionKind
  mk_use_files :: "string list"
  mk_definition_module_name :: string
  mk_enclosing_record_scope :: string
  mk_is_template_specialization :: bool
  mk_attachment_insertion_offset :: "64 word option"
  mk_attachment_namespace_chain :: "MockNamespaceScopeInfo list"
  mk_derive_for_virtual :: bool
  mk_has_accessible_default_ctor :: bool
  mk_has_virtual_destructor :: bool
  mk_unhidden_method_names :: "string list"
  mk_constructors :: "MockCtorInfo list"
  mk_methods :: "MockMethodInfo list"

datatype json = JNull | JBool bool | JNumber "int option" | JString string | JArray "json list" | JObject "(string \<times> json) list"

type_synonym jobject = "(string \<times> json) list"

subsection \<open>Enumerations\<close>

fun template_param_kind_to_string :: "TemplateParamKind \<Rightarrow> string" where
  "template_param_kind_to_string TP_Type = ''type''"
| "template_param_kind_to_string TP_Value = ''value''"
| "template_param_kind_to_string TP_Template = ''template''"

fun pass_style_to_string :: "PassStyle \<Rightarrow> string" where
  "pass_style_to_string PS_Value = ''value''"
| "pass_style_to_string PS_LValueRef = ''lvalue_ref''"
| "pass_style_to_string PS_RValueRef = ''rvalue_ref''"
| "pass_style_to_string PS_ForwardingRef = ''forwarding_ref''"

fun cv_to_string :: "MockMethodCvQualifier \<Rightarrow> string" where
  "cv_to_string CV_None = ''none''"
| "cv_to_string CV_Const = ''const''"
| "cv_to_string CV_Volatile = ''volatile''"
| "cv_to_string CV_ConstVolatile = ''const_volatile''"

fun ref_to_string :: "MockMethodRefQualifier \<Rightarrow> string" where
  "ref_to_string RQ_None = ''none''"
| "ref_to_string RQ_LValue = ''lvalue''"
| "ref_to_string RQ_RValue = ''rvalue''"

fun definition_kind_to_string :: "DefinitionKind \<Rightarrow> string" where
  "definition_kind_to_string DK_HeaderLike = ''header_like''"
| "definition_kind_to_string DK_NamedModule = ''named_module''"

definition parse_template_param_kind :: "string \<Rightarrow> TemplateParamKind option" where
  "parse_template_param_kind v =
     (if v = ''type'' then Some TP_Type else if v = ''value'' then Some TP_Value
      else if v = ''template'' then Some TP_Template else None)"

definition parse_pass_style :: "string \<Rightarrow> PassStyle option" where
  "parse_pass_style v =
     (if v = ''value'' then Some PS_Value else if v = ''lvalue_ref'' then Some PS_LValueRef
      else if v = ''rvalue_ref'' then Some PS_RValueRef else if v = ''forwarding_ref'' then Some PS_ForwardingRef else None)"

definition parse_cv_qualifier :: "string \<Rightarrow> MockMethodCvQualifier option" where
  "parse_cv_qualifier v =
     (if v = ''none'' then Some CV_None else if v = ''const'' then Some CV_Const
      else if v = ''volatile'' then Some CV_Volatile else if v = ''const_volatile'' then Some CV_ConstVolatile else None)"

definition parse_ref_qualifier :: "string \<Rightarrow> MockMethodRefQualifier option" where
  "parse_ref_qualifier v =
     (if v = ''none'' then Some RQ_None else if v = ''lvalue'' then Some RQ_LValue else if v = ''rvalue'' then Some RQ_RValue else None)"

definition parse_definition_kind :: "string \<Rightarrow> DefinitionKind option" where
  "parse_definition_kind v =
     (if v = ''header_like'' then Some DK_HeaderLike else if v = ''named_module'' then Some DK_NamedModule else None)"

subsection \<open>Writing\<close>

definition string_array :: "string list \<Rightarrow> json" where
  "string_array vs = JArray (map JString vs)"

definition template_param_object :: "TemplateParamInfo \<Rightarrow> json" where
  "template_param_object p = JObject
     [(''kind'', JString (template_param_kind_to_string (ti_kind p))), (''name'', JString (ti_name p)),
      (''is_pack'', JBool (ti_is_pack p)), (''usage_spelling'', JString (ti_usage_spelling p))]"

definition template_param_array :: "TemplateParamInfo list \<Rightarrow> json" where
  "template_param_array ps = JArray (map template_param_object ps)"

definition param_object :: "MockParamInfo \<Rightarrow> json" where
  "param_object p = JObject
     [(''type'', JString (mp_type p)), (''name'', JString (mp_name p)), (''default_arg'', JString (mp_default_arg p)),
      (''pass_style'', JString (pass_style_to_string (mp_pass_style p)))]"

definition param_array :: "MockParamInfo list \<Rightarrow> json" where
  "param_array ps = JArray (map param_object ps)"

definition ctor_object :: "MockCtorInfo \<Rightarrow> json" where
  "ctor_object c = JObject
     [(''parameters'', param_array (ct_parameters c)), (''template_prefix'', JString (ct_template_prefix c)),
      (''template_params'', template_param_array (ct_template_params c)), (''is_explicit'', JBool (ct_is_explicit c)),
      (''is_noexcept'', JBool (ct_is_noexcept c))]"

definition ctor_array :: "MockCtorInfo list \<Rightarrow> json" where
  "ctor_array cs = JArray (map ctor_object cs)"

definition qualifiers_object :: "MockMethodQualifiers \<Rightarrow> json" where
  "qualifiers_object q = JObject
     [(''cv'', JString (cv_to_string (mq_cv q))), (''ref'', JString (ref_to_string (mq_ref q))), (''is_noexcept'', JBool (mq_is_noexcept q))]"

definition method_object :: "MockMethodInfo \<Rightarrow> json" where
  "method_object m = JObject
     [(''qualified_name'', JString (mm_qualified_name m)), (''method_name'', JString (mm_method_name m)),
      (''return_type'', JString (mm_return_type m)), (''parameters'', param_array (mm_parameters m)),
      (''template_prefix'', JString (mm_template_prefix m)), (''template_params'', template_param_array (mm_template_params m)),
      (''is_static'', JBool (mm_is_static m)), (''is_virtual'', JBool (mm_is_virtual m)),
      (''is_pure_virtual'', JBool (mm_is_pure_virtual m)), (''is_final'', JBool (mm_is_final m)),
      (''is_variadic'', JBool (mm_is_variadic m)), (''is_overloaded_operator'', JBool (mm_is_overloaded_operator m)),
      (''is_conversion_operator'', JBool (mm_is_conversion_operator m)), (''qualifiers'', qualifiers_object (mm_qualifiers m))]"

definition method_array :: "MockMethodInfo list \<Rightarrow> json" where
  "method_array ms = JArray (map method_object ms)"

definition to_int64 :: "64 word \<Rightarrow> json" where
  "to_int64 w = JNumber (Some (sint w))"

definition namespace_scope_object :: "MockNamespaceScopeInfo \<Rightarrow> json" where
  "namespace_scope_object s = JObject
     [(''name'', JString (nsi_name s)), (''is_inline'', JBool (nsi_is_inline s)), (''is_exported'', JBool (nsi_is_exported s)),
      (''lexical_close_group'', to_int64 (nsi_lexical_close_group s)), (''reopen_prefix'', JString (nsi_reopen_prefix s))]"

definition namespace_scope_array :: "MockNamespaceScopeInfo list \<Rightarrow> json" where
  "namespace_scope_array ss = JArray (map namespace_scope_object ss)"

definition mock_object :: "MockClassInfo \<Rightarrow> json" where
  "mock_object m = JObject
     ([(''qualified_name'', JString (mk_qualified_name m)), (''display_name'', JString (mk_display_name m)),
       (''definition_file'', JString (mk_definition_file m)),
       (''definition_kind'', JString (definition_kind_to_string (mk_definition_kind m))),
       (''use_files'', string_array (mk_use_files m)), (''definition_module_name'', JString (mk_definition_module_name m)),
       (''enclosing_record_scope'', JString (mk_enclosing_record_scope m)),
       (''is_template_specialization'', JBool (mk_is_template_specialization m)),
       (''attachment_namespace_chain'', namespace_scope_array (mk_attachment_namespace_chain m)),
       (''derive_for_virtual'', JBool (mk_derive_for_virtual m)),
       (''has_accessible_default_ctor'', JBool (mk_has_accessible_default_ctor m)),
       (''has_virtual_destructor'', JBool (mk_has_virtual_destructor m)),
       (''unhidden_method_names'', string_array (mk_unhidden_method_names m)),
       (''constructors'', ctor_array (mk_constructors m)), (''methods'', method_array (mk_methods m))]
      @ (case mk_attachment_insertion_offset m of None \<Rightarrow> [] | Some w \<Rightarrow> [(''attachment_insertion_offset'', to_int64 w)]))"

definition kSchema :: string where
  "kSchema = ''gentest.mock_manifest.v1''"

definition manifest_root :: "MockClassInfo list \<Rightarrow> string list \<Rightarrow> json" where
  "manifest_root mocks modules = JObject
     [(''schema'', JString kSchema), (''mock_output_domain_modules'', JArray (map JString modules)),
      (''mocks'', JArray (map mock_object mocks))]"

text \<open>Mocks that agree in the four keys keep their order here; the sorting function need not do so.\<close>

definition mock_key :: "MockClassInfo \<Rightarrow> string \<times> string \<times> string \<times> nat" where
  "mock_key m = (mk_qualified_name m, mk_definition_file m, mk_definition_module_name m,
     case mk_definition_kind m of DK_HeaderLike \<Rightarrow> 0 | DK_NamedModule \<Rightarrow> 1)"

definition sort_mocks :: "MockClassInfo list \<Rightarrow> MockClassInfo list" where
  "sort_mocks mocks = sort_key mock_key mocks"

definition serialize :: "(json \<Rightarrow> string) \<Rightarrow> MockClassInfo list \<Rightarrow> string list \<Rightarrow> string" where
  "serialize pr mocks modules = pr (manifest_root (sort_mocks mocks) modules) @ [CHR 0x0A]"

text \<open>The file system as \<^verbatim>\<open>write\<close> meets it: the error of creating the directory, the old content, and
  whether the file can be opened and written.\<close>

record manifest_file =
  mf_parent :: "string option"
  mf_mkdir_error :: "string option"
  mf_existing :: "string option"
  mf_opens :: bool
  mf_writes :: bool

definition ensure_parent_dir :: "manifest_file \<Rightarrow> string option" where
  "ensure_parent_dir f =
     (case mf_parent f of
        None \<Rightarrow> None
      | Some p \<Rightarrow> map_option (\<lambda>e. ''failed to create directory '' @ [CHR 0x27] @ p @ [CHR 0x27] @ '': '' @ e) (mf_mkdir_error f))"

text \<open>The result: an error or none, and the content of the file when it is replaced.\<close>

definition write_manifest ::
  "(json \<Rightarrow> string) \<Rightarrow> string \<Rightarrow> manifest_file \<Rightarrow> MockClassInfo list \<Rightarrow> string list \<Rightarrow> string option \<times> string option" where
  "write_manifest pr path f mocks modules =
     (case ensure_parent_dir f of
        Some e \<Rightarrow> (Some e, None)
      | None \<Rightarrow>
          let content = serialize pr mocks modules
          in if mf_existing f = Some content then (None, None)
             else if \<not> mf_opens f then (Some (''failed to open mock manifest '' @ [CHR 0x27] @ path @ [CHR 0x27]), None)
             else if \<not> mf_writes f then (Some (''failed to write mock manifest '' @ [CHR 0x27] @ path @ [CHR 0x27]), None)
             else (None, Some content))"

subsection \<open>Reading\<close>

definition bindE :: "string + 'a \<Rightarrow> ('a \<Rightarrow> string + 'b) \<Rightarrow> string + 'b" where
  "bindE m f = (case m of Inl e \<Rightarrow> Inl e | Inr x \<Rightarrow> f x)"

lemma bindE_simps [simp]: "bindE (Inl e) f = Inl e" "bindE (Inr x) f = f x"
  by (simp_all add: bindE_def)

definition field :: "string \<Rightarrow> string" where
  "field key = [CHR 0x27] @ key @ [CHR 0x27]"

definition require_string :: "jobject \<Rightarrow> string \<Rightarrow> string + string" where
  "require_string obj key =
     (case map_of obj key of Some (JString s) \<Rightarrow> Inr s | _ \<Rightarrow> Inl (''missing or invalid string field '' @ field key))"

definition optional_string :: "jobject \<Rightarrow> string \<Rightarrow> string + string" where
  "optional_string obj key =
     (case map_of obj key of None \<Rightarrow> Inr [] | Some (JString s) \<Rightarrow> Inr s | Some _ \<Rightarrow> Inl (''invalid string field '' @ field key))"

definition optional_bool :: "jobject \<Rightarrow> string \<Rightarrow> string + bool" where
  "optional_bool obj key =
     (case map_of obj key of None \<Rightarrow> Inr False | Some (JBool b) \<Rightarrow> Inr b | Some _ \<Rightarrow> Inl (''invalid boolean field '' @ field key))"

definition get_array :: "jobject \<Rightarrow> string \<Rightarrow> json list option" where
  "get_array obj key = (case map_of obj key of Some (JArray vs) \<Rightarrow> Some vs | _ \<Rightarrow> None)"

text \<open>The strings read so far, and the error that stopped the reading.\<close>

fun string_entries :: "string \<Rightarrow> json list \<Rightarrow> string list \<times> string option" where
  "string_entries key [] = ([], None)"
| "string_entries key (JString s # vs) = (case string_entries key vs of (out, e) \<Rightarrow> (s # out, e))"
| "string_entries key (v # vs) = ([], Some (''invalid string entry in '' @ field key))"

definition string_vector :: "jobject \<Rightarrow> string \<Rightarrow> string list \<times> string option" where
  "string_vector obj key = (case get_array obj key of None \<Rightarrow> ([], None) | Some vs \<Rightarrow> string_entries key vs)"

definition strings_or_error :: "string list \<times> string option \<Rightarrow> string + string list" where
  "strings_or_error r = (case snd r of None \<Rightarrow> Inr (fst r) | Some e \<Rightarrow> Inl e)"

fun object_entries :: "string \<Rightarrow> (jobject \<Rightarrow> string + 'a) \<Rightarrow> json list \<Rightarrow> string + 'a list" where
  "object_entries key f [] = Inr []"
| "object_entries key f (JObject obj # vs) = bindE (f obj) (\<lambda>x. bindE (object_entries key f vs) (\<lambda>xs. Inr (x # xs)))"
| "object_entries key f (v # vs) = Inl (''invalid object entry in '' @ field key)"

definition parse_objects :: "string \<Rightarrow> (jobject \<Rightarrow> string + 'a) \<Rightarrow> jobject \<Rightarrow> string + 'a list" where
  "parse_objects key f obj = (case get_array obj key of None \<Rightarrow> Inr [] | Some vs \<Rightarrow> object_entries key f vs)"

definition parse_enum :: "(string \<Rightarrow> 'e option) \<Rightarrow> string \<Rightarrow> string \<Rightarrow> string + 'e" where
  "parse_enum parse value error = (case parse value of Some e \<Rightarrow> Inr e | None \<Rightarrow> Inl error)"

definition parse_template_param :: "jobject \<Rightarrow> string + TemplateParamInfo" where
  "parse_template_param obj =
     bindE (require_string obj ''kind'') (\<lambda>kind.
     bindE (parse_enum parse_template_param_kind kind (''invalid template parameter kind '' @ field kind)) (\<lambda>k.
     bindE (optional_string obj ''name'') (\<lambda>name.
     bindE (optional_bool obj ''is_pack'') (\<lambda>pack.
     bindE (optional_string obj ''usage_spelling'') (\<lambda>usage.
       Inr \<lparr>ti_kind = k, ti_name = name, ti_is_pack = pack, ti_usage_spelling = usage\<rparr>)))))"

definition parse_template_params :: "jobject \<Rightarrow> string \<Rightarrow> string + TemplateParamInfo list" where
  "parse_template_params obj key = parse_objects key parse_template_param obj"

definition parse_param :: "jobject \<Rightarrow> string + MockParamInfo" where
  "parse_param obj =
     bindE (require_string obj ''type'') (\<lambda>ty.
     bindE (optional_string obj ''name'') (\<lambda>name.
     bindE (optional_string obj ''default_arg'') (\<lambda>dflt.
     bindE (require_string obj ''pass_style'') (\<lambda>style.
     bindE (parse_enum parse_pass_style style (''invalid mock parameter pass_style '' @ field style)) (\<lambda>s.
       Inr \<lparr>mp_type = ty, mp_name = name, mp_default_arg = dflt, mp_pass_style = s\<rparr>)))))"

definition parse_params :: "jobject \<Rightarrow> string \<Rightarrow> string + MockParamInfo list" where
  "parse_params obj key = parse_objects key parse_param obj"

definition parse_ctor :: "jobject \<Rightarrow> string + MockCtorInfo" where
  "parse_ctor obj =
     bindE (parse_params obj ''parameters'') (\<lambda>ps.
     bindE (optional_string obj ''template_prefix'') (\<lambda>prefix.
     bindE (parse_template_params obj ''template_params'') (\<lambda>tps.
     bindE (optional_bool obj ''is_explicit'') (\<lambda>ex.
     bindE (optional_bool obj ''is_noexcept'') (\<lambda>ne.
       Inr \<lparr>ct_parameters = ps, ct_template_prefix = prefix, ct_template_params = tps, ct_is_explicit = ex, ct_is_noexcept = ne\<rparr>)))))"

definition parse_ctors :: "jobject \<Rightarrow> string + MockCtorInfo list" where
  "parse_ctors obj = parse_objects ''constructors'' parse_ctor obj"

definition parse_qualifiers :: "jobject \<Rightarrow> string + MockMethodQualifiers" where
  "parse_qualifiers obj =
     bindE (require_string obj ''cv'') (\<lambda>cv.
     bindE (parse_enum parse_cv_qualifier cv ''invalid mock method qualifiers'') (\<lambda>c.
     bindE (require_string obj ''ref'') (\<lambda>rf.
     bindE (parse_enum parse_ref_qualifier rf ''invalid mock method qualifiers'') (\<lambda>r.
     bindE (optional_bool obj ''is_noexcept'') (\<lambda>ne.
       Inr \<lparr>mq_cv = c, mq_ref = r, mq_is_noexcept = ne\<rparr>)))))"

definition get_object :: "jobject \<Rightarrow> string \<Rightarrow> jobject option" where
  "get_object obj key = (case map_of obj key of Some (JObject x) \<Rightarrow> Some x | _ \<Rightarrow> None)"

definition parse_method :: "jobject \<Rightarrow> string + MockMethodInfo" where
  "parse_method obj =
     bindE (require_string obj ''qualified_name'') (\<lambda>qname.
     bindE (require_string obj ''method_name'') (\<lambda>mname.
     bindE (require_string obj ''return_type'') (\<lambda>ret.
     bindE (parse_params obj ''parameters'') (\<lambda>ps.
     bindE (optional_string obj ''template_prefix'') (\<lambda>prefix.
     bindE (parse_template_params obj ''template_params'') (\<lambda>tps.
     bindE (optional_bool obj ''is_static'') (\<lambda>static.
     bindE (optional_bool obj ''is_virtual'') (\<lambda>virtual.
     bindE (optional_bool obj ''is_pure_virtual'') (\<lambda>pure.
     bindE (optional_bool obj ''is_final'') (\<lambda>final.
     bindE (optional_bool obj ''is_variadic'') (\<lambda>variadic.
     bindE (optional_bool obj ''is_overloaded_operator'') (\<lambda>oper.
     bindE (optional_bool obj ''is_conversion_operator'') (\<lambda>conv.
     (case get_object obj ''qualifiers'' of
        None \<Rightarrow> Inl (''missing object field '' @ field ''qualifiers'')
      | Some q \<Rightarrow> bindE (parse_qualifiers q) (\<lambda>qs.
          Inr \<lparr>mm_qualified_name = qname, mm_method_name = mname, mm_return_type = ret, mm_parameters = ps,
               mm_template_prefix = prefix, mm_template_params = tps, mm_is_static = static, mm_is_virtual = virtual,
               mm_is_pure_virtual = pure, mm_is_final = final, mm_is_variadic = variadic, mm_is_overloaded_operator = oper,
               mm_is_conversion_operator = conv, mm_qualifiers = qs\<rparr>)))))))))))))))"

definition parse_methods :: "jobject \<Rightarrow> string + MockMethodInfo list" where
  "parse_methods obj = parse_objects ''methods'' parse_method obj"

definition get_integer :: "jobject \<Rightarrow> string \<Rightarrow> int option" where
  "get_integer obj key = (case map_of obj key of Some (JNumber v) \<Rightarrow> v | _ \<Rightarrow> None)"

definition parse_namespace_scope :: "jobject \<Rightarrow> string + MockNamespaceScopeInfo" where
  "parse_namespace_scope obj =
     bindE (case get_integer obj ''lexical_close_group'' of
              Some g \<Rightarrow> if g \<ge> 0 then Inr (word_of_int g) else Inl (''invalid integer field '' @ field ''lexical_close_group'')
            | None \<Rightarrow> if map_of obj ''lexical_close_group'' \<noteq> None
                      then Inl (''invalid integer field '' @ field ''lexical_close_group'') else Inr 0) (\<lambda>g.
     bindE (optional_string obj ''name'') (\<lambda>name.
     bindE (optional_bool obj ''is_inline'') (\<lambda>inl.
     bindE (optional_bool obj ''is_exported'') (\<lambda>exported.
     bindE (optional_string obj ''reopen_prefix'') (\<lambda>prefix.
       Inr \<lparr>nsi_name = name, nsi_is_inline = inl, nsi_is_exported = exported, nsi_lexical_close_group = g,
            nsi_reopen_prefix = prefix\<rparr>)))))"

definition parse_namespace_scopes :: "jobject \<Rightarrow> string + MockNamespaceScopeInfo list" where
  "parse_namespace_scopes obj = parse_objects ''attachment_namespace_chain'' parse_namespace_scope obj"

definition parse_mock :: "jobject \<Rightarrow> string + MockClassInfo" where
  "parse_mock obj =
     bindE (require_string obj ''qualified_name'') (\<lambda>qname.
     bindE (optional_string obj ''display_name'') (\<lambda>display.
     bindE (require_string obj ''definition_file'') (\<lambda>file.
     bindE (require_string obj ''definition_kind'') (\<lambda>kind.
     bindE (parse_enum parse_definition_kind kind (''invalid mock definition_kind '' @ field kind)) (\<lambda>k.
     bindE (strings_or_error (string_vector obj ''use_files'')) (\<lambda>uses.
     bindE (optional_string obj ''definition_module_name'') (\<lambda>modname.
     bindE (optional_string obj ''enclosing_record_scope'') (\<lambda>scope.
     bindE (optional_bool obj ''is_template_specialization'') (\<lambda>spec.
     bindE (parse_namespace_scopes obj) (\<lambda>chain.
     bindE (optional_bool obj ''derive_for_virtual'') (\<lambda>derive.
     bindE (optional_bool obj ''has_accessible_default_ctor'') (\<lambda>dctor.
     bindE (optional_bool obj ''has_virtual_destructor'') (\<lambda>vdtor.
     bindE (strings_or_error (string_vector obj ''unhidden_method_names'')) (\<lambda>unhidden.
     bindE (parse_ctors obj) (\<lambda>ctors.
     bindE (parse_methods obj) (\<lambda>methods.
     bindE (case get_integer obj ''attachment_insertion_offset'' of
              None \<Rightarrow> Inr None
            | Some off \<Rightarrow> if off < 0 then Inl (''invalid integer field '' @ field ''attachment_insertion_offset'')
                          else Inr (Some (word_of_int off))) (\<lambda>off.
       Inr \<lparr>mk_qualified_name = qname, mk_display_name = (if display = [] then qname else display), mk_definition_file = file,
            mk_definition_kind = k, mk_use_files = uses, mk_definition_module_name = modname, mk_enclosing_record_scope = scope,
            mk_is_template_specialization = spec, mk_attachment_insertion_offset = off, mk_attachment_namespace_chain = chain,
            mk_derive_for_virtual = derive, mk_has_accessible_default_ctor = dctor, mk_has_virtual_destructor = vdtor,
            mk_unhidden_method_names = unhidden, mk_constructors = ctors, mk_methods = methods\<rparr>)))))))))))))))))"

record ReadResult =
  rd_mocks :: "MockClassInfo list"
  rd_modules :: "string list"
  rd_error :: string

definition read_error :: "string \<Rightarrow> ReadResult" where
  "read_error e = \<lparr>rd_mocks = [], rd_modules = [], rd_error = e\<rparr>"

definition read_root :: "jobject \<Rightarrow> ReadResult" where
  "read_root doc =
     (let expected = '' (expected '' @ field kSchema @ '')''
      in case map_of doc ''schema'' of
           Some (JString s) \<Rightarrow>
             if s \<noteq> kSchema then read_error (''unsupported mock manifest schema '' @ field s @ expected)
             else if get_array doc ''mock_output_domain_modules'' = None
             then read_error (''mock manifest is missing '' @ field ''mock_output_domain_modules'')
             else (case string_vector doc ''mock_output_domain_modules'' of
                    (modules, Some e) \<Rightarrow> \<lparr>rd_mocks = [], rd_modules = modules, rd_error = e\<rparr>
                  | (modules, None) \<Rightarrow>
                      (case get_array doc ''mocks'' of
                         None \<Rightarrow> \<lparr>rd_mocks = [], rd_modules = modules, rd_error = ''mock manifest is missing '' @ field ''mocks''\<rparr>
                       | Some vs \<Rightarrow>
                           (case object_entries ''mocks'' parse_mock vs of
                              Inl e \<Rightarrow> \<lparr>rd_mocks = [], rd_modules = modules, rd_error = e\<rparr>
                            | Inr mocks \<Rightarrow> \<lparr>rd_mocks = mocks, rd_modules = modules, rd_error = []\<rparr>)))
         | _ \<Rightarrow> read_error (''mock manifest is missing or invalid '' @ field ''schema'' @ expected))"

text \<open>The content of the file, or why it cannot be read, and the JSON parser are arguments.\<close>

definition read_manifest :: "(string \<Rightarrow> string + json) \<Rightarrow> string \<Rightarrow> string + string \<Rightarrow> ReadResult" where
  "read_manifest ps path file =
     (case file of
        Inl e \<Rightarrow> read_error (''failed to read mock manifest '' @ field path @ '': '' @ e)
      | Inr content \<Rightarrow>
          (case ps content of
             Inl e \<Rightarrow> read_error (''failed to parse mock manifest '' @ field path @ '': '' @ e)
           | Inr (JObject doc) \<Rightarrow> read_root doc
           | Inr _ \<Rightarrow> read_error ''mock manifest root must be an object''))"

subsection \<open>Round trip\<close>

fun object_of :: "json \<Rightarrow> jobject" where
  "object_of (JObject obj) = obj"
| "object_of _ = []"

lemma parse_enums [simp]:
  "parse_enum parse_template_param_kind (template_param_kind_to_string k) e = Inr k"
  "parse_enum parse_pass_style (pass_style_to_string s) e = Inr s"
  "parse_enum parse_cv_qualifier (cv_to_string c) e = Inr c"
  "parse_enum parse_ref_qualifier (ref_to_string r) e = Inr r"
  "parse_enum parse_definition_kind (definition_kind_to_string d) e = Inr d"
  subgoal by (cases k) (simp_all add: parse_enum_def parse_template_param_kind_def)
  subgoal by (cases s) (simp_all add: parse_enum_def parse_pass_style_def)
  subgoal by (cases c) (simp_all add: parse_enum_def parse_cv_qualifier_def)
  subgoal by (cases r) (simp_all add: parse_enum_def parse_ref_qualifier_def)
  subgoal by (cases d) (simp_all add: parse_enum_def parse_definition_kind_def)
  done

lemma string_entries_map [simp]: "string_entries key (map JString vs) = (vs, None)"
  by (induction vs) simp_all

lemma object_entries_map:
  assumes "\<And>x. x \<in> set xs \<Longrightarrow> to x = JObject (object_of (to x)) \<and> f (object_of (to x)) = Inr (g x)"
  shows "object_entries key f (map to xs) = Inr (map g xs)"
  using assms
proof (induction xs)
  case (Cons x xs)
  obtain obj where o: "to x = JObject obj" using Cons.prems[of x] by (cases "to x") auto
  then have "f obj = Inr (g x)" using Cons.prems[of x] by simp
  then show ?case using o Cons.IH Cons.prems by simp
qed simp

lemma lookup_fields:
  "map_of obj key = Some (JString s) \<Longrightarrow> require_string obj key = Inr s"
  "map_of obj key = Some (JString s) \<Longrightarrow> optional_string obj key = Inr s"
  "map_of obj key = Some (JBool b) \<Longrightarrow> optional_bool obj key = Inr b"
  "map_of obj key = Some (string_array vs) \<Longrightarrow> strings_or_error (string_vector obj key) = Inr vs"
  "map_of obj key = Some (JArray js) \<Longrightarrow> parse_objects key f obj = object_entries key f js"
  by (simp_all add: require_string_def optional_string_def optional_bool_def string_vector_def get_array_def string_array_def
      strings_or_error_def parse_objects_def)

lemma template_param_roundtrip: "parse_template_param (object_of (template_param_object p)) = Inr p"
  by (simp add: template_param_object_def parse_template_param_def lookup_fields)

lemma param_roundtrip: "parse_param (object_of (param_object p)) = Inr p"
  by (simp add: param_object_def parse_param_def lookup_fields)

lemma template_params_roundtrip:
  "map_of obj key = Some (template_param_array ps) \<Longrightarrow> parse_template_params obj key = Inr ps"
  using object_entries_map[of ps template_param_object parse_template_param "\<lambda>x. x" key] template_param_roundtrip
  by (simp add: parse_template_params_def template_param_array_def lookup_fields) (simp add: template_param_object_def)

lemma params_roundtrip: "map_of obj key = Some (param_array ps) \<Longrightarrow> parse_params obj key = Inr ps"
  using object_entries_map[of ps param_object parse_param "\<lambda>x. x" key] param_roundtrip
  by (simp add: parse_params_def param_array_def lookup_fields) (simp add: param_object_def)

lemma ctor_roundtrip: "parse_ctor (object_of (ctor_object c)) = Inr c"
  by (simp add: ctor_object_def parse_ctor_def lookup_fields params_roundtrip template_params_roundtrip)

lemma ctors_roundtrip: "map_of obj ''constructors'' = Some (ctor_array cs) \<Longrightarrow> parse_ctors obj = Inr cs"
  using object_entries_map[of cs ctor_object parse_ctor "\<lambda>x. x"] ctor_roundtrip
  by (simp add: parse_ctors_def ctor_array_def lookup_fields) (simp add: ctor_object_def)

lemma qualifiers_roundtrip: "parse_qualifiers (object_of (qualifiers_object q)) = Inr q"
  by (simp add: qualifiers_object_def parse_qualifiers_def lookup_fields)

lemma method_roundtrip: "parse_method (object_of (method_object m)) = Inr m"
  using qualifiers_roundtrip[of "mm_qualifiers m"]
  by (simp add: method_object_def parse_method_def lookup_fields params_roundtrip template_params_roundtrip get_object_def
      qualifiers_object_def)

lemma methods_roundtrip: "map_of obj ''methods'' = Some (method_array ms) \<Longrightarrow> parse_methods obj = Inr ms"
  using object_entries_map[of ms method_object parse_method "\<lambda>x. x"] method_roundtrip
  by (simp add: parse_methods_def method_array_def lookup_fields) (simp add: method_object_def)

lemma word_sint_roundtrip: "(word_of_int (sint w) :: 64 word) = w"
  by simp

lemma scope_roundtrip:
  "sint (nsi_lexical_close_group s) \<ge> 0 \<Longrightarrow> parse_namespace_scope (object_of (namespace_scope_object s)) = Inr s"
  by (simp add: namespace_scope_object_def parse_namespace_scope_def lookup_fields get_integer_def to_int64_def)

definition offsets_ok :: "MockClassInfo \<Rightarrow> bool" where
  "offsets_ok m \<longleftrightarrow> list_all (\<lambda>s. sint (nsi_lexical_close_group s) \<ge> 0) (mk_attachment_namespace_chain m)
     \<and> (case mk_attachment_insertion_offset m of None \<Rightarrow> True | Some w \<Rightarrow> sint w \<ge> 0)"

lemma scopes_roundtrip:
  assumes "map_of obj ''attachment_namespace_chain'' = Some (namespace_scope_array ss)"
    "list_all (\<lambda>s. sint (nsi_lexical_close_group s) \<ge> 0) ss"
  shows "parse_namespace_scopes obj = Inr ss"
proof -
  have "object_entries key parse_namespace_scope (map namespace_scope_object ss) = Inr (map (\<lambda>x. x) ss)" for key
    using assms(2) scope_roundtrip by (intro object_entries_map) (auto simp: list_all_iff namespace_scope_object_def)
  then show ?thesis using assms(1) by (simp add: parse_namespace_scopes_def namespace_scope_array_def lookup_fields)
qed

text \<open>What the reader makes of a mock: an empty display name becomes the qualified name.\<close>

definition displayed :: "MockClassInfo \<Rightarrow> MockClassInfo" where
  "displayed m = (if mk_display_name m = [] then m\<lparr>mk_display_name := mk_qualified_name m\<rparr> else m)"

lemma mock_roundtrip:
  assumes "offsets_ok m"
  shows "parse_mock (object_of (mock_object m)) = Inr (displayed m)"
proof -
  let ?obj = "object_of (mock_object m)"
  have chain: "parse_namespace_scopes ?obj = Inr (mk_attachment_namespace_chain m)"
    using assms by (intro scopes_roundtrip) (simp_all add: mock_object_def offsets_ok_def)
  have lists: "parse_ctors ?obj = Inr (mk_constructors m)" "parse_methods ?obj = Inr (mk_methods m)"
    by (simp_all add: mock_object_def ctors_roundtrip methods_roundtrip)
  have off: "get_integer ?obj ''attachment_insertion_offset'' = map_option sint (mk_attachment_insertion_offset m)"
    by (simp add: mock_object_def get_integer_def to_int64_def split: option.split)
  have offset: "(case map_option sint (mk_attachment_insertion_offset m) of
       None \<Rightarrow> Inr None
     | Some off \<Rightarrow> if off < 0 then Inl (''invalid integer field '' @ field ''attachment_insertion_offset'')
                   else Inr (Some (word_of_int off))) = Inr (mk_attachment_insertion_offset m)"
    using assms by (auto simp: offsets_ok_def split: option.splits)
  show ?thesis unfolding parse_mock_def chain lists off offset
    by (simp add: mock_object_def lookup_fields displayed_def)
qed

lemma mocks_roundtrip:
  "list_all offsets_ok ms \<Longrightarrow> object_entries key parse_mock (map mock_object ms) = Inr (map displayed ms)"
  using mock_roundtrip by (intro object_entries_map) (auto simp: list_all_iff mock_object_def)

lemma read_root_manifest:
  "list_all offsets_ok ms \<Longrightarrow>
   read_root (object_of (manifest_root ms modules)) = \<lparr>rd_mocks = map displayed ms, rd_modules = modules, rd_error = []\<rparr>"
  by (simp add: read_root_def manifest_root_def get_array_def string_vector_def mocks_roundtrip)

text \<open>
  C18. The manifest carries mocks from one build step to the next without loss: when the JSON library
  reads back what it prints and offsets fit a signed 64-bit number, a manifest that was written
  reads without error as the same modules and the same mocks, ordered by name, file, module and
  kind; the only change is that an empty display name becomes the qualified name.
\<close>

theorem manifest_roundtrip:
  assumes "ps (serialize pr mocks modules) = Inr (manifest_root (sort_mocks mocks) modules)" "list_all offsets_ok mocks"
  shows "let r = read_manifest ps path (Inr (serialize pr mocks modules))
    in rd_error r = [] \<and> rd_modules r = modules \<and> rd_mocks r = map displayed (sort_mocks mocks)
       \<and> mset (rd_mocks r) = image_mset displayed (mset mocks) \<and> sorted (map mock_key (rd_mocks r))"
proof -
  obtain obj where o: "manifest_root (sort_mocks mocks) modules = JObject obj" by (simp add: manifest_root_def)
  have "list_all offsets_ok (sort_mocks mocks)" using assms(2) by (simp add: list_all_iff sort_mocks_def)
  then have "read_manifest ps path (Inr (serialize pr mocks modules)) =
      \<lparr>rd_mocks = map displayed (sort_mocks mocks), rd_modules = modules, rd_error = []\<rparr>"
    using read_root_manifest[of "sort_mocks mocks" modules] assms(1) o by (simp add: read_manifest_def)
  moreover have "mock_key \<circ> displayed = mock_key" by (auto simp: displayed_def mock_key_def)
  ultimately show ?thesis by (simp add: sort_mocks_def)
qed

definition sample_mock :: MockClassInfo where
  "sample_mock = \<lparr>mk_qualified_name = ''ns::Clock'', mk_display_name = [], mk_definition_file = ''clock.hpp'',
     mk_definition_kind = DK_HeaderLike, mk_use_files = [''a.cpp''], mk_definition_module_name = [], mk_enclosing_record_scope = [],
     mk_is_template_specialization = False, mk_attachment_insertion_offset = Some 12, mk_attachment_namespace_chain = [],
     mk_derive_for_virtual = True, mk_has_accessible_default_ctor = True, mk_has_virtual_destructor = True,
     mk_unhidden_method_names = [], mk_constructors = [],
     mk_methods = [\<lparr>mm_qualified_name = ''ns::Clock::now'', mm_method_name = ''now'', mm_return_type = ''long'',
       mm_parameters = [\<lparr>mp_type = ''int'', mp_name = ''zone'', mp_default_arg = [], mp_pass_style = PS_Value\<rparr>],
       mm_template_prefix = [], mm_template_params = [], mm_is_static = False, mm_is_virtual = True, mm_is_pure_virtual = True,
       mm_is_final = False, mm_is_variadic = False, mm_is_overloaded_operator = False, mm_is_conversion_operator = False,
       mm_qualifiers = \<lparr>mq_cv = CV_Const, mq_ref = RQ_None, mq_is_noexcept = True\<rparr>\<rparr>]\<rparr>"

theorem manifest_roundtrip_witness:
  "rd_mocks (read_manifest (\<lambda>_. Inr (manifest_root (sort_mocks [sample_mock]) [''m''])) ''p'' (Inr (serialize (\<lambda>_. ''{}'') [sample_mock] [''m''])))
     = [sample_mock\<lparr>mk_display_name := ''ns::Clock''\<rparr>]"
  using manifest_roundtrip[of "\<lambda>_. Inr (manifest_root (sort_mocks [sample_mock]) [''m''])" "\<lambda>_. ''{}''" "[sample_mock]" "[''m'']" "''p''"]
  by (simp add: Let_def offsets_ok_def sample_mock_def sort_mocks_def displayed_def)

text \<open>
  The manifest does not depend on the order in which mocks are discovered when no two agree in
  the keys of the sorting.
\<close>

lemma manifest_deterministic:
  assumes "mset mocks = mset mocks'" "distinct (map mock_key mocks)"
  shows "serialize pr mocks modules = serialize pr mocks' modules"
proof -
  have "distinct (map mock_key (sort_mocks mocks))"
    using assms(2) by (metis mset_eq_imp_distinct_iff mset_map mset_sort sort_mocks_def)
  moreover have "inj_on mock_key (set mocks)" using assms(2) by (simp add: distinct_map)
  ultimately have "sort_mocks mocks = sort_mocks mocks'" using assms(1)
    unfolding sort_mocks_def by (metis (no_types, lifting) mset_eq_setD properties_for_sort_key mset_sort sorted_sort_key set_sort
        inj_on_def sort_key_inj_key_eq)
  then show ?thesis by (simp add: serialize_def)
qed

text \<open>A reader never returns mocks together with an error.\<close>

lemma read_error_without_mocks: "rd_error (read_manifest ps path file) = [] \<or> rd_mocks (read_manifest ps path file) = []"
  by (auto simp: read_manifest_def read_root_def read_error_def Let_def split: sum.splits json.splits option.splits prod.splits)

text \<open>What a successful write leaves in the file is what the reader expects.\<close>

lemma write_leaves_manifest:
  assumes "write_manifest pr path f mocks modules = (None, out)"
  shows "(case out of Some c \<Rightarrow> Some c | None \<Rightarrow> mf_existing f) = Some (serialize pr mocks modules)"
  using assms by (auto simp: write_manifest_def Let_def split: option.splits if_splits)

end
