(* ===== verification/Log_Sink.thy ===== *)
theory Log_Sink
  imports Prelude
begin

section \<open>Log sinks: \<^verbatim>\<open>log_sink.cpp\<close>\<close>

text \<open>
  The registry of log sinks, the handles that remove them, and the default writer of standard
  output.  A sink is the default one, a stream or a sink of the user; handles are numbered
  variables that hold an identifier, 0 when they are empty.  Moving a handle onto one that still
  holds an identifier aborts.  Registration is not concurrent with logging, as the header demands.
\<close>

datatype LogSink = StdoutLogSink | OstreamLogSink nat | UserLogSink nat

record SinkEntry =
  se_id :: nat
  se_sink :: LogSink

record SinkRegistry =
  sr_next_id :: nat
  sr_sinks :: "SinkEntry list"

definition new_registry :: SinkRegistry where
  "new_registry = \<lparr>sr_next_id = 2, sr_sinks = [\<lparr>se_id = 1, se_sink = StdoutLogSink\<rparr>]\<rparr>"

text \<open>The writer that replaces standard output: its state and its function, both by name.\<close>

record DefaultStdoutWriterState =
  dw_state :: "nat option"
  dw_writer :: "nat option"

datatype destination = To_Cout | To_Writer "nat option" nat | To_Stream nat | To_User nat

definition write_default_stdout_log :: "DefaultStdoutWriterState \<Rightarrow> string \<Rightarrow> destination \<times> string" where
  "write_default_stdout_log w message =
     (case dw_writer w of Some f \<Rightarrow> (To_Writer (dw_state w) f, message) | None \<Rightarrow> (To_Cout, message))"

text \<open>\<open>suppressed\<close>: the current test keeps its log lines from standard output.\<close>

fun sink_write :: "DefaultStdoutWriterState \<Rightarrow> bool \<Rightarrow> LogSink \<Rightarrow> string \<Rightarrow> (destination \<times> string) list" where
  "sink_write w suppressed StdoutLogSink message = (if suppressed then [] else [write_default_stdout_log w message])"
| "sink_write w suppressed (OstreamLogSink out) message = [(To_Stream out, message)]"
| "sink_write w suppressed (UserLogSink u) message = [(To_User u, message)]"

definition dispatch_log_to_sinks :: "DefaultStdoutWriterState \<Rightarrow> bool \<Rightarrow> SinkRegistry \<Rightarrow> string \<Rightarrow> (destination \<times> string) list" where
  "dispatch_log_to_sinks w suppressed reg message = concat (map (\<lambda>e. sink_write w suppressed (se_sink e) message) (sr_sinks reg))"

definition sink_active :: "nat \<Rightarrow> SinkRegistry \<Rightarrow> bool" where
  "sink_active i reg \<longleftrightarrow> i \<noteq> 0 \<and> list_ex (\<lambda>e. se_id e = i) (sr_sinks reg)"

definition remove_sink :: "nat \<Rightarrow> SinkRegistry \<Rightarrow> bool \<times> SinkRegistry" where
  "remove_sink i reg =
     (if i = 0 then (False, reg)
      else let sinks = filter (\<lambda>e. se_id e \<noteq> i) (sr_sinks reg)
           in (length sinks \<noteq> length (sr_sinks reg), reg\<lparr>sr_sinks := sinks\<rparr>))"

definition install_default_stdout_log_writer :: "nat option \<Rightarrow> nat option \<Rightarrow> DefaultStdoutWriterState \<Rightarrow> DefaultStdoutWriterState" where
  "install_default_stdout_log_writer state writer w = \<lparr>dw_state = state, dw_writer = writer\<rparr>"

definition remove_default_stdout_log_writer :: "nat option \<Rightarrow> nat option \<Rightarrow> DefaultStdoutWriterState \<Rightarrow> DefaultStdoutWriterState" where
  "remove_default_stdout_log_writer state writer w =
     (if dw_state w = state \<and> dw_writer w = writer then \<lparr>dw_state = None, dw_writer = None\<rparr> else w)"

definition writer_scope_enter :: "nat option \<Rightarrow> nat option \<Rightarrow> DefaultStdoutWriterState \<Rightarrow> DefaultStdoutWriterState" where
  "writer_scope_enter state writer w =
     (if state \<noteq> None \<and> writer \<noteq> None then install_default_stdout_log_writer state writer w else w)"

definition writer_scope_exit :: "nat option \<Rightarrow> nat option \<Rightarrow> DefaultStdoutWriterState \<Rightarrow> DefaultStdoutWriterState" where
  "writer_scope_exit state writer w =
     (if state \<noteq> None \<and> writer \<noteq> None then remove_default_stdout_log_writer state writer w else w)"

definition add_log_sink :: "LogSink option \<Rightarrow> SinkRegistry \<Rightarrow> nat \<times> SinkRegistry" where
  "add_log_sink sink reg =
     (case sink of
        None \<Rightarrow> (0, reg)
      | Some s \<Rightarrow> (sr_next_id reg, \<lparr>sr_next_id = sr_next_id reg + 1,
                     sr_sinks = sr_sinks reg @ [\<lparr>se_id = sr_next_id reg, se_sink = s\<rparr>]\<rparr>))"

definition remove_all_log_sinks :: "SinkRegistry \<Rightarrow> SinkRegistry" where
  "remove_all_log_sinks reg = reg\<lparr>sr_sinks := []\<rparr>"

definition restore_default_log_sink :: "SinkRegistry \<Rightarrow> SinkRegistry" where
  "restore_default_log_sink reg =
     \<lparr>sr_next_id = sr_next_id reg + 1, sr_sinks = [\<lparr>se_id = sr_next_id reg, se_sink = StdoutLogSink\<rparr>]\<rparr>"

subsection \<open>Programs with handles\<close>

record sinks_state =
  ss_registry :: SinkRegistry
  ss_handles :: "nat \<Rightarrow> nat"
  ss_writer :: DefaultStdoutWriterState

datatype sink_op = Add nat "LogSink option" | Remove nat | Move nat nat | Active nat | Remove_All | Restore_Default
| Install "nat option" "nat option" | Uninstall "nat option" "nat option" | Log bool string

datatype observation = Quiet | Answer bool | Lines "(destination \<times> string) list"

text \<open>\<open>None\<close> is the abort of an assignment onto an active handle.\<close>

definition move_assign :: "nat \<Rightarrow> nat \<Rightarrow> (nat \<Rightarrow> nat) \<Rightarrow> (nat \<Rightarrow> nat) option" where
  "move_assign h other hs =
     (if h = other then Some hs else if hs h \<noteq> 0 then None else Some (hs(h := hs other, other := 0)))"

definition remove_log_sink :: "nat \<Rightarrow> sinks_state \<Rightarrow> bool \<times> sinks_state" where
  "remove_log_sink h s =
     (case remove_sink (ss_handles s h) (ss_registry s) of
        (r, reg) \<Rightarrow> (r, s\<lparr>ss_registry := reg, ss_handles := (ss_handles s)(h := 0)\<rparr>))"

fun sink_step :: "sinks_state \<Rightarrow> sink_op \<Rightarrow> (observation \<times> sinks_state) option" where
  "sink_step s (Add h sink) =
     (case add_log_sink sink (ss_registry s) of
        (i, reg) \<Rightarrow> if ss_handles s h \<noteq> 0 then None
                   else Some (Quiet, s\<lparr>ss_registry := reg, ss_handles := (ss_handles s)(h := i)\<rparr>))"
| "sink_step s (Remove h) = (case remove_log_sink h s of (r, s') \<Rightarrow> Some (Answer r, s'))"
| "sink_step s (Move h other) = map_option (\<lambda>hs. (Quiet, s\<lparr>ss_handles := hs\<rparr>)) (move_assign h other (ss_handles s))"
| "sink_step s (Active h) = Some (Answer (sink_active (ss_handles s h) (ss_registry s)), s)"
| "sink_step s Remove_All = Some (Quiet, s\<lparr>ss_registry := remove_all_log_sinks (ss_registry s)\<rparr>)"
| "sink_step s Restore_Default = Some (Quiet, s\<lparr>ss_registry := restore_default_log_sink (ss_registry s)\<rparr>)"
| "sink_step s (Install state writer) = Some (Quiet, s\<lparr>ss_writer := install_default_stdout_log_writer state writer (ss_writer s)\<rparr>)"
| "sink_step s (Uninstall state writer) = Some (Quiet, s\<lparr>ss_writer := remove_default_stdout_log_writer state writer (ss_writer s)\<rparr>)"
| "sink_step s (Log suppressed m) = Some (Lines (dispatch_log_to_sinks (ss_writer s) suppressed (ss_registry s) m), s)"

fun sink_run :: "sinks_state \<Rightarrow> sink_op list \<Rightarrow> observation list option" where
  "sink_run s [] = Some []"
| "sink_run s (p # ps) = (case sink_step s p of None \<Rightarrow> None | Some (ob, s') \<Rightarrow> map_option ((#) ob) (sink_run s' ps))"

definition initial_sinks :: sinks_state where
  "initial_sinks = \<lparr>ss_registry = new_registry, ss_handles = (\<lambda>_. 0), ss_writer = \<lparr>dw_state = None, dw_writer = None\<rparr>\<rparr>"

subsection \<open>The promise\<close>

text \<open>
  The reference keeps the sinks in the order of their registration, each with the handle that owns
  it, and the set of handles that hold something.  There are no identifiers.
\<close>

record spec_sinks =
  sp_sinks :: "(nat option \<times> LogSink) list"
  sp_held :: "nat set"
  sp_writer :: DefaultStdoutWriterState

definition owned :: "nat \<Rightarrow> spec_sinks \<Rightarrow> bool" where
  "owned h a \<longleftrightarrow> list_ex (\<lambda>x. fst x = Some h) (sp_sinks a)"

definition hand_over :: "nat \<Rightarrow> nat \<Rightarrow> nat option \<times> LogSink \<Rightarrow> nat option \<times> LogSink" where
  "hand_over h other x = (if fst x = Some other then Some h else fst x, snd x)"

fun spec_step :: "spec_sinks \<Rightarrow> sink_op \<Rightarrow> (observation \<times> spec_sinks) option" where
  "spec_step a (Add h sink) =
     (if h \<in> sp_held a then None
      else case sink of
             None \<Rightarrow> Some (Quiet, a)
           | Some s \<Rightarrow> Some (Quiet, a\<lparr>sp_sinks := sp_sinks a @ [(Some h, s)], sp_held := insert h (sp_held a)\<rparr>))"
| "spec_step a (Remove h) =
     Some (Answer (owned h a), a\<lparr>sp_sinks := filter (\<lambda>x. fst x \<noteq> Some h) (sp_sinks a), sp_held := sp_held a - {h}\<rparr>)"
| "spec_step a (Move h other) =
     (if h = other then Some (Quiet, a)
      else if h \<in> sp_held a then None
      else Some (Quiet, a\<lparr>sp_sinks := map (hand_over h other) (sp_sinks a),
             sp_held := (if other \<in> sp_held a then insert h (sp_held a) else sp_held a) - {other}\<rparr>))"
| "spec_step a (Active h) = Some (Answer (owned h a), a)"
| "spec_step a Remove_All = Some (Quiet, a\<lparr>sp_sinks := []\<rparr>)"
| "spec_step a Restore_Default = Some (Quiet, a\<lparr>sp_sinks := [(None, StdoutLogSink)]\<rparr>)"
| "spec_step a (Install state writer) = Some (Quiet, a\<lparr>sp_writer := \<lparr>dw_state = state, dw_writer = writer\<rparr>\<rparr>)"
| "spec_step a (Uninstall state writer) =
     Some (Quiet, if sp_writer a = \<lparr>dw_state = state, dw_writer = writer\<rparr> then a\<lparr>sp_writer := \<lparr>dw_state = None, dw_writer = None\<rparr>\<rparr> else a)"
| "spec_step a (Log suppressed m) =
     Some (Lines (concat (map (\<lambda>x. sink_write (sp_writer a) suppressed (snd x) m) (sp_sinks a))), a)"

fun spec_run :: "spec_sinks \<Rightarrow> sink_op list \<Rightarrow> observation list option" where
  "spec_run a [] = Some []"
| "spec_run a (p # ps) = (case spec_step a p of None \<Rightarrow> None | Some (ob, a') \<Rightarrow> map_option ((#) ob) (spec_run a' ps))"

definition initial_spec :: spec_sinks where
  "initial_spec = \<lparr>sp_sinks = [(None, StdoutLogSink)], sp_held = {}, sp_writer = \<lparr>dw_state = None, dw_writer = None\<rparr>\<rparr>"

text \<open>An entry of the registry and its image: the same sink, owned by the handle that holds its identifier.\<close>

definition entry_rel :: "(nat \<Rightarrow> nat) \<Rightarrow> SinkEntry \<Rightarrow> nat option \<times> LogSink \<Rightarrow> bool" where
  "entry_rel hs e x \<longleftrightarrow> se_sink e = snd x \<and> (\<forall>h. fst x = Some h \<longleftrightarrow> hs h = se_id e)"

definition sinks_rel :: "sinks_state \<Rightarrow> spec_sinks \<Rightarrow> bool" where
  "sinks_rel s a \<longleftrightarrow>
     list_all2 (entry_rel (ss_handles s)) (sr_sinks (ss_registry s)) (sp_sinks a)
     \<and> sp_held a = {h. ss_handles s h \<noteq> 0} \<and> sp_writer a = ss_writer s
     \<and> distinct (map se_id (sr_sinks (ss_registry s)))
     \<and> (\<forall>e \<in> set (sr_sinks (ss_registry s)). 0 < se_id e \<and> se_id e < sr_next_id (ss_registry s))
     \<and> (\<forall>h. ss_handles s h < sr_next_id (ss_registry s))
     \<and> inj_on (ss_handles s) {h. ss_handles s h \<noteq> 0}"

lemma list_all2_filter:
  "list_all2 P xs ys \<Longrightarrow> (\<And>x y. P x y \<Longrightarrow> f x \<longleftrightarrow> g y) \<Longrightarrow> list_all2 P (filter f xs) (filter g ys)"
  by (induction rule: list_all2_induct) auto

lemma list_all2_ex_iff:
  "list_all2 P xs ys \<Longrightarrow> (\<And>x y. P x y \<Longrightarrow> f x \<longleftrightarrow> g y) \<Longrightarrow> list_ex f xs \<longleftrightarrow> list_ex g ys"
  by (induction rule: list_all2_induct) auto

lemma length_filter_all: "length (filter P xs) = length xs \<longleftrightarrow> list_all P xs"
proof (induction xs)
  case (Cons x xs)
  have "length (filter P xs) \<noteq> Suc (length xs)" using length_filter_le[of P xs] by linarith
  then show ?case using Cons by simp
qed simp

lemma list_all2_change:
  "list_all2 P xs ys \<Longrightarrow> (\<And>x y. x \<in> set xs \<Longrightarrow> y \<in> set ys \<Longrightarrow> P x y \<Longrightarrow> Q x (f y)) \<Longrightarrow> list_all2 Q xs (map f ys)"
  by (induction rule: list_all2_induct) auto

lemma owned_iff:
  assumes "sinks_rel s a"
  shows "sink_active (ss_handles s h) (ss_registry s) \<longleftrightarrow> owned h a"
proof -
  have l2: "list_all2 (entry_rel (ss_handles s)) (sr_sinks (ss_registry s)) (sp_sinks a)" using assms by (simp add: sinks_rel_def)
  have "list_ex (\<lambda>e. se_id e = ss_handles s h) (sr_sinks (ss_registry s)) \<longleftrightarrow> list_ex (\<lambda>x. fst x = Some h) (sp_sinks a)"
    using l2 by (rule list_all2_ex_iff) (metis entry_rel_def)
  moreover have "list_ex (\<lambda>e. se_id e = ss_handles s h) (sr_sinks (ss_registry s)) \<Longrightarrow> ss_handles s h \<noteq> 0"
    using assms by (auto simp: sinks_rel_def list_ex_iff)
  ultimately show ?thesis by (auto simp: sink_active_def owned_def)
qed

lemma step_Remove:
  assumes "sinks_rel s a"
  shows "fst (remove_log_sink h s) = owned h a
    \<and> sinks_rel (snd (remove_log_sink h s)) (a\<lparr>sp_sinks := filter (\<lambda>x. fst x \<noteq> Some h) (sp_sinks a), sp_held := sp_held a - {h}\<rparr>)"
proof -
  let ?i = "ss_handles s h" and ?sinks = "sr_sinks (ss_registry s)" and ?hs = "(ss_handles s)(h := 0)"
  let ?a = "a\<lparr>sp_sinks := filter (\<lambda>x. fst x \<noteq> Some h) (sp_sinks a), sp_held := sp_held a - {h}\<rparr>"
  have l2: "list_all2 (entry_rel (ss_handles s)) ?sinks (sp_sinks a)" using assms by (simp add: sinks_rel_def)
  have f: "list_all2 (entry_rel (ss_handles s)) (filter (\<lambda>e. se_id e \<noteq> ?i) ?sinks) (filter (\<lambda>x. fst x \<noteq> Some h) (sp_sinks a))"
    using l2 by (rule list_all2_filter) (metis entry_rel_def)
  have "list_all2 (entry_rel ?hs) (filter (\<lambda>e. se_id e \<noteq> ?i) ?sinks) (map (\<lambda>x. x) (filter (\<lambda>x. fst x \<noteq> Some h) (sp_sinks a)))"
  proof (rule list_all2_change[OF f])
    fix e x assume "e \<in> set (filter (\<lambda>e. se_id e \<noteq> ?i) ?sinks)" "entry_rel (ss_handles s) e x"
    then show "entry_rel ?hs e x" using assms by (auto simp: entry_rel_def sinks_rel_def)
  qed
  then have l2': "list_all2 (entry_rel ?hs) (filter (\<lambda>e. se_id e \<noteq> ?i) ?sinks) (filter (\<lambda>x. fst x \<noteq> Some h) (sp_sinks a))" by simp
  have same: "filter (\<lambda>e. se_id e \<noteq> ?i) ?sinks = ?sinks" if "?i = 0"
    using that assms by (auto simp: sinks_rel_def filter_id_conv)
  have reg: "snd (remove_log_sink h s) = s\<lparr>ss_registry := (ss_registry s)\<lparr>sr_sinks := filter (\<lambda>e. se_id e \<noteq> ?i) ?sinks\<rparr>, ss_handles := ?hs\<rparr>"
    using same by (simp add: remove_log_sink_def remove_sink_def Let_def)
  have "fst (remove_log_sink h s) \<longleftrightarrow> sink_active ?i (ss_registry s)"
    by (simp add: remove_log_sink_def remove_sink_def Let_def sink_active_def length_filter_all list_all_iff list_ex_iff)
  then have "fst (remove_log_sink h s) = owned h a" using owned_iff[OF assms] by simp
  moreover have "inj_on (ss_handles s) {h. ss_handles s h \<noteq> 0}" using assms by (simp add: sinks_rel_def)
  then have "inj_on ?hs {h'. ?hs h' \<noteq> 0}" unfolding inj_on_def by auto
  then have "sinks_rel (snd (remove_log_sink h s)) ?a"
    using assms l2' unfolding reg by (auto simp: sinks_rel_def distinct_map_filter split: if_splits)
  ultimately show ?thesis by blast
qed

lemma step_Add:
  assumes "sinks_rel s a" "ss_handles s h = 0"
  shows "sinks_rel (s\<lparr>ss_registry := snd (add_log_sink (Some sink) (ss_registry s)), ss_handles := (ss_handles s)(h := fst (add_log_sink (Some sink) (ss_registry s)))\<rparr>)
    (a\<lparr>sp_sinks := sp_sinks a @ [(Some h, sink)], sp_held := insert h (sp_held a)\<rparr>)"
proof -
  let ?n = "sr_next_id (ss_registry s)"
  let ?hs = "(ss_handles s)(h := ?n)"
  have lt: "ss_handles s h' < ?n" for h' using assms(1) by (simp add: sinks_rel_def)
  have "list_all2 (entry_rel ?hs) (sr_sinks (ss_registry s)) (map (\<lambda>x. x) (sp_sinks a))"
  proof (rule list_all2_change)
    show "list_all2 (entry_rel (ss_handles s)) (sr_sinks (ss_registry s)) (sp_sinks a)" using assms(1) by (simp add: sinks_rel_def)
    fix e x assume "e \<in> set (sr_sinks (ss_registry s))" "entry_rel (ss_handles s) e x"
    then show "entry_rel ?hs e x" using assms by (auto simp: entry_rel_def sinks_rel_def)
  qed
  moreover have "entry_rel ?hs \<lparr>se_id = ?n, se_sink = sink\<rparr> (Some h, sink)" using lt by (auto simp: entry_rel_def less_le)
  ultimately have l2: "list_all2 (entry_rel ?hs) (sr_sinks (ss_registry s) @ [\<lparr>se_id = ?n, se_sink = sink\<rparr>]) (sp_sinks a @ [(Some h, sink)])"
    by (simp add: list_all2_appendI)
  have "?n > 0" using lt[of h] by simp
  moreover have "?n \<notin> se_id ` set (sr_sinks (ss_registry s))" using assms(1) by (auto simp: sinks_rel_def)
  moreover have "inj_on ?hs {h'. ?hs h' \<noteq> 0}"
  proof (rule inj_onI)
    fix h1 h2 assume 1: "h1 \<in> {h'. ?hs h' \<noteq> 0}" "h2 \<in> {h'. ?hs h' \<noteq> 0}" "?hs h1 = ?hs h2"
    have inj: "inj_on (ss_handles s) {h. ss_handles s h \<noteq> 0}" using assms(1) by (simp add: sinks_rel_def)
    show "h1 = h2" using 1 lt[of h1] lt[of h2] inj_onD[OF inj, of h1 h2] by (auto split: if_splits)
  qed
  ultimately show ?thesis using assms l2 unfolding sinks_rel_def add_log_sink_def
    by (auto simp: less_Suc_eq)
qed

lemma step_Move:
  assumes "sinks_rel s a" "h \<noteq> other" "ss_handles s h = 0"
  shows "sinks_rel (s\<lparr>ss_handles := (ss_handles s)(h := ss_handles s other, other := 0)\<rparr>)
    (a\<lparr>sp_sinks := map (hand_over h other) (sp_sinks a),
       sp_held := (if other \<in> sp_held a then insert h (sp_held a) else sp_held a) - {other}\<rparr>)"
proof -
  let ?hs = "(ss_handles s)(h := ss_handles s other, other := 0)"
  have "list_all2 (entry_rel ?hs) (sr_sinks (ss_registry s)) (map (hand_over h other) (sp_sinks a))"
  proof (rule list_all2_change)
    show "list_all2 (entry_rel (ss_handles s)) (sr_sinks (ss_registry s)) (sp_sinks a)" using assms(1) by (simp add: sinks_rel_def)
    fix e x assume "e \<in> set (sr_sinks (ss_registry s))" "entry_rel (ss_handles s) e x"
    then have "0 < se_id e" "se_sink e = snd x" "\<And>h. fst x = Some h \<longleftrightarrow> ss_handles s h = se_id e"
      using assms(1) by (auto simp: entry_rel_def sinks_rel_def)
    then show "entry_rel ?hs e (hand_over h other x)" using assms(2,3)
      by (cases "fst x") (auto simp: entry_rel_def hand_over_def, metis)
  qed
  moreover have inj: "inj_on (ss_handles s) {h. ss_handles s h \<noteq> 0}" using assms(1) by (simp add: sinks_rel_def)
  have "inj_on ?hs {h'. ?hs h' \<noteq> 0}"
  proof (rule inj_onI)
    fix h1 h2 assume 1: "h1 \<in> {h'. ?hs h' \<noteq> 0}" "h2 \<in> {h'. ?hs h' \<noteq> 0}" "?hs h1 = ?hs h2"
    show "h1 = h2" using 1 inj_onD[OF inj, of h1 h2] inj_onD[OF inj, of other h2] inj_onD[OF inj, of h1 other]
      by (auto split: if_splits)
  qed
  ultimately show ?thesis using assms by (auto simp: sinks_rel_def split: if_splits)
qed

lemma sinks_rel_dispatch:
  assumes "sinks_rel s a"
  shows "dispatch_log_to_sinks (ss_writer s) suppressed (ss_registry s) m =
    concat (map (\<lambda>x. sink_write (sp_writer a) suppressed (snd x) m) (sp_sinks a))"
proof -
  have l2: "list_all2 (entry_rel (ss_handles s)) (sr_sinks (ss_registry s)) (sp_sinks a)" and w: "sp_writer a = ss_writer s"
    using assms by (simp_all add: sinks_rel_def)
  have "list_all2 (entry_rel hs) es xs \<Longrightarrow>
      concat (map (\<lambda>e. sink_write w' suppressed (se_sink e) m) es) = concat (map (\<lambda>x. sink_write w' suppressed (snd x) m) xs)" for hs es xs w'
    by (induction rule: list_all2_induct) (simp_all add: entry_rel_def)
  then show ?thesis using l2 w by (simp add: dispatch_log_to_sinks_def)
qed

lemma sink_step_rel:
  assumes "sinks_rel s a"
  shows "rel_option (\<lambda>(ob, s') (ob', a'). ob = ob' \<and> sinks_rel s' a') (sink_step s p) (spec_step a p)"
proof (cases p)
  case (Add h sink)
  have "h \<in> sp_held a \<longleftrightarrow> ss_handles s h \<noteq> 0" using assms by (simp add: sinks_rel_def)
  moreover have "s\<lparr>ss_registry := ss_registry s, ss_handles := (ss_handles s)(h := 0)\<rparr> = s" if "ss_handles s h = 0"
    using that by (cases s) (simp add: fun_upd_idem)
  ultimately show ?thesis using Add assms step_Add[OF assms, of h]
    by (cases sink) (auto simp: add_log_sink_def split: prod.splits)
next
  case (Remove h)
  then show ?thesis using step_Remove[OF assms, of h] by (auto split: prod.splits)
next
  case (Move h other)
  have "h \<in> sp_held a \<longleftrightarrow> ss_handles s h \<noteq> 0" using assms by (simp add: sinks_rel_def)
  then show ?thesis using Move assms step_Move[OF assms, of h other] by (auto simp: move_assign_def)
next
  case (Log suppressed m)
  then show ?thesis using sinks_rel_dispatch[OF assms] assms by simp
next
  case Restore_Default
  have "ss_handles s h < sr_next_id (ss_registry s)" for h using assms by (simp add: sinks_rel_def)
  then have "ss_handles s h < Suc (sr_next_id (ss_registry s))" "ss_handles s h \<noteq> sr_next_id (ss_registry s)" "0 < sr_next_id (ss_registry s)" for h
    by (simp_all add: less_SucI less_imp_neq) (metis gr_zeroI not_less0)
  then show ?thesis using Restore_Default assms
    by (simp add: sinks_rel_def restore_default_log_sink_def entry_rel_def)
next
  case (Uninstall state writer)
  then show ?thesis using assms
    by (cases "ss_writer s") (auto simp: sinks_rel_def remove_default_stdout_log_writer_def)
qed (use assms owned_iff[OF assms] in \<open>auto simp: sinks_rel_def remove_all_log_sinks_def install_default_stdout_log_writer_def\<close>)

lemma sink_run_rel: "sinks_rel s a \<Longrightarrow> sink_run s ps = spec_run a ps"
proof (induction ps arbitrary: s a)
  case (Cons p ps)
  then show ?case using sink_step_rel[OF Cons.prems, of p]
    by (cases "sink_step s p"; cases "spec_step a p") auto
qed simp

text \<open>
  C20. Log sinks behave as if handles owned them: for every program of registrations, removals, moves
  of handles, resets and log calls, a message reaches each sink that is registered, once, in the
  order of registration, a removal takes away the sink of its handle and no other one, even after
  all sinks were reset in between, and it reports whether there was one; moving onto a handle that
  still holds something is the only thing that aborts.
\<close>

theorem log_sinks_refine: "sink_run initial_sinks ps = spec_run initial_spec ps"
  by (rule sink_run_rel)
     (simp add: sinks_rel_def initial_sinks_def initial_spec_def new_registry_def entry_rel_def)

end
