(* ===== verification/Parallel_For.thy ===== *)
theory Parallel_For
  imports Prelude
begin

section \<open>Parallel loops of the generator: \<^verbatim>\<open>tools/src/parallel_for.hpp\<close>\<close>

text \<open>
  The generator parses translation units in parallel.  A worker fetches the next index from an
  atomic counter and calls the function for it until the counter has passed the number of tasks.
  The threads are a step relation: a fetch and the return of a call are the steps; the counter does
  not reach the width of \<^verbatim>\<open>std::size_t\<close>, because it stops at tasks plus workers.
\<close>

definition default_concurrency :: "nat \<Rightarrow> nat \<Rightarrow> nat" where
  "default_concurrency hw task_count = (let jobs = (if hw = 0 then 1 else hw) in max 1 (min jobs task_count))"

definition resolve_concurrency :: "nat \<Rightarrow> nat \<Rightarrow> nat \<Rightarrow> nat" where
  "resolve_concurrency hw task_count requested_jobs =
     (if task_count = 0 then 0
      else if requested_jobs = 0 then default_concurrency hw task_count
      else max 1 (min requested_jobs task_count))"

datatype worker = Fetching | Running nat | Exited

record pf_state =
  pf_next :: nat
  pf_workers :: "nat \<Rightarrow> worker"
  pf_done :: "nat list"

definition worker_count :: "nat \<Rightarrow> nat \<Rightarrow> nat" where
  "worker_count task_count jobs = max 1 (min jobs task_count)"

definition pf_start :: pf_state where
  "pf_start = \<lparr>pf_next = 0, pf_workers = (\<lambda>_. Fetching), pf_done = []\<rparr>"

definition fetch_add :: "nat \<Rightarrow> nat \<Rightarrow> pf_state \<Rightarrow> pf_state" where
  "fetch_add n t s = s\<lparr>pf_next := pf_next s + 1,
     pf_workers := (pf_workers s)(t := if pf_next s \<ge> n then Exited else Running (pf_next s))\<rparr>"

definition call_returns :: "nat \<Rightarrow> nat \<Rightarrow> pf_state \<Rightarrow> pf_state" where
  "call_returns t i s = s\<lparr>pf_workers := (pf_workers s)(t := Fetching), pf_done := pf_done s @ [i]\<rparr>"

inductive parallel_step :: "nat \<Rightarrow> nat \<Rightarrow> pf_state \<Rightarrow> pf_state \<Rightarrow> bool" for n jobs where
  fetch: "t < jobs \<Longrightarrow> pf_workers s t = Fetching \<Longrightarrow> parallel_step n jobs s (fetch_add n t s)"
| return: "t < jobs \<Longrightarrow> pf_workers s t = Running i \<Longrightarrow> parallel_step n jobs s (call_returns t i s)"

text \<open>\<open>parallel_run n jobs k s\<close>: the workers can be in state \<open>s\<close> after \<open>k\<close> steps.\<close>

inductive parallel_run :: "nat \<Rightarrow> nat \<Rightarrow> nat \<Rightarrow> pf_state \<Rightarrow> bool" for n jobs where
  start: "parallel_run n jobs 0 pf_start"
| step: "parallel_run n jobs k s \<Longrightarrow> parallel_step n jobs s s' \<Longrightarrow> parallel_run n jobs (Suc k) s'"

definition joined :: "nat \<Rightarrow> pf_state \<Rightarrow> bool" where
  "joined jobs s \<longleftrightarrow> (\<forall>t<jobs. pf_workers s t = Exited)"

text \<open>The loop as a whole: the order of the calls when it returns.\<close>

inductive parallel_for :: "nat \<Rightarrow> nat \<Rightarrow> nat list \<Rightarrow> bool" where
  no_tasks: "parallel_for 0 jobs []"
| sequential: "n > 0 \<Longrightarrow> worker_count n jobs = 1 \<Longrightarrow> parallel_for n jobs [0..<n]"
| threads: "n > 0 \<Longrightarrow> worker_count n jobs > 1 \<Longrightarrow> parallel_run n (worker_count n jobs) k s \<Longrightarrow> joined (worker_count n jobs) s
    \<Longrightarrow> parallel_for n jobs (pf_done s)"

subsection \<open>Every task once\<close>

definition claimed :: "nat \<Rightarrow> pf_state \<Rightarrow> nat set" where
  "claimed jobs s = {i. \<exists>t<jobs. pf_workers s t = Running i}"

definition exited :: "nat \<Rightarrow> pf_state \<Rightarrow> nat set" where
  "exited jobs s = {t. t < jobs \<and> pf_workers s t = Exited}"

definition pf_inv :: "nat \<Rightarrow> nat \<Rightarrow> nat \<Rightarrow> pf_state \<Rightarrow> bool" where
  "pf_inv n jobs k s \<longleftrightarrow>
     distinct (pf_done s) \<and> set (pf_done s) \<union> claimed jobs s = {..<min (pf_next s) n} \<and> set (pf_done s) \<inter> claimed jobs s = {}
     \<and> (\<forall>t t' i. t < jobs \<longrightarrow> t' < jobs \<longrightarrow> pf_workers s t = Running i \<longrightarrow> pf_workers s t' = Running i \<longrightarrow> t = t')
     \<and> (exited jobs s = {} \<or> n \<le> pf_next s) \<and> pf_next s \<le> n + card (exited jobs s)
     \<and> k = pf_next s + length (pf_done s)"

lemma finite_exited [simp]: "finite (exited jobs s)"
  by (simp add: exited_def)

lemma pf_inv_fetch:
  assumes "pf_inv n jobs k s" "t < jobs" "pf_workers s t = Fetching"
  shows "pf_inv n jobs (Suc k) (fetch_add n t s)"
proof (cases "pf_next s \<ge> n")
  case True
  have "t' \<noteq> t" if "pf_workers s t' = Running i" for t' i using that assms(3) by auto
  then have "claimed jobs (fetch_add n t s) = claimed jobs s"
    using True by (auto simp: claimed_def fetch_add_def)
  moreover have "exited jobs (fetch_add n t s) = insert t (exited jobs s)" "t \<notin> exited jobs s"
    using True assms by (auto simp: exited_def fetch_add_def)
  ultimately show ?thesis using assms True by (auto simp: pf_inv_def fetch_add_def min_def split: if_splits)
next
  case False
  have "t' \<noteq> t" if "pf_workers s t' = Running i" for t' i using that assms(3) by auto
  then have c: "claimed jobs (fetch_add n t s) = insert (pf_next s) (claimed jobs s)"
    using assms(2) False by (auto simp: claimed_def fetch_add_def)
  have e: "exited jobs (fetch_add n t s) = exited jobs s"
    using False assms(3) by (auto simp: exited_def fetch_add_def)
  have u: "set (pf_done s) \<union> claimed jobs s = {..<pf_next s}" using assms(1) False by (auto simp: pf_inv_def min_def)
  then have fresh: "pf_next s \<notin> set (pf_done s)" "pf_next s \<notin> claimed jobs s" by auto
  have "set (pf_done s) \<union> claimed jobs (fetch_add n t s) = {..<min (Suc (pf_next s)) n}"
    using u c False by (auto simp: min_def less_Suc_eq)
  moreover have "\<forall>t1 t2 i. t1 < jobs \<longrightarrow> t2 < jobs \<longrightarrow> pf_workers (fetch_add n t s) t1 = Running i
      \<longrightarrow> pf_workers (fetch_add n t s) t2 = Running i \<longrightarrow> t1 = t2"
    using assms(1) fresh(2) False by (auto simp: pf_inv_def fetch_add_def claimed_def)
  moreover have "set (pf_done s) \<inter> insert (pf_next s) (claimed jobs s) = {}" using assms(1) fresh by (auto simp: pf_inv_def)
  ultimately show ?thesis using assms(1) False c e unfolding pf_inv_def by (simp add: fetch_add_def)
qed

lemma pf_inv_return:
  assumes "pf_inv n jobs k s" "t < jobs" "pf_workers s t = Running i"
  shows "pf_inv n jobs (Suc k) (call_returns t i s)"
proof -
  have ic: "i \<in> claimed jobs s" using assms(2,3) by (auto simp: claimed_def)
  have uniq: "t' = t" if "t' < jobs" "pf_workers s t' = Running i" for t' using that assms unfolding pf_inv_def by blast
  have w: "pf_workers (call_returns t i s) t' = Running j \<longleftrightarrow> t' \<noteq> t \<and> pf_workers s t' = Running j" for t' j
    by (simp add: call_returns_def)
  have c: "claimed jobs (call_returns t i s) = claimed jobs s - {i}"
  proof (rule set_eqI)
    fix j
    have "(\<exists>t'<jobs. t' \<noteq> t \<and> pf_workers s t' = Running j) \<longleftrightarrow> (\<exists>t'<jobs. pf_workers s t' = Running j) \<and> j \<noteq> i"
      (is "?l \<longleftrightarrow> ?r")
    proof
      assume ?l
      then obtain t' where "t' < jobs" "t' \<noteq> t" "pf_workers s t' = Running j" by blast
      moreover from this have "j \<noteq> i" using uniq by blast
      ultimately show ?r by blast
    next
      assume ?r
      then obtain t' where "t' < jobs" "pf_workers s t' = Running j" "j \<noteq> i" by blast
      moreover from this have "t' \<noteq> t" using assms(3) by force
      ultimately show ?l by blast
    qed
    then show "j \<in> claimed jobs (call_returns t i s) \<longleftrightarrow> j \<in> claimed jobs s - {i}" by (simp add: claimed_def w)
  qed
  have "exited jobs (call_returns t i s) = exited jobs s" using assms(3) by (auto simp: exited_def call_returns_def)
  moreover have "i \<notin> set (pf_done s)" using assms(1) ic by (auto simp: pf_inv_def)
  moreover have "set (pf_done (call_returns t i s)) \<union> claimed jobs (call_returns t i s) = set (pf_done s) \<union> claimed jobs s"
    using c ic by (auto simp: call_returns_def)
  moreover have "set (pf_done s) \<inter> claimed jobs s = {}" using assms(1) by (simp add: pf_inv_def)
  then have "set (pf_done s @ [i]) \<inter> (claimed jobs s - {i}) = {}" by auto
  ultimately show ?thesis using assms(1) c unfolding pf_inv_def by (simp add: call_returns_def)
qed

lemma pf_inv_run: "parallel_run n jobs k s \<Longrightarrow> pf_inv n jobs k s"
proof (induction rule: parallel_run.induct)
  case start
  show ?case by (auto simp: pf_inv_def pf_start_def claimed_def exited_def)
next
  case (step k s s')
  from step(2) step(3) show ?case by (cases rule: parallel_step.cases) (auto intro: pf_inv_fetch pf_inv_return)
qed

lemma joined_done:
  assumes "parallel_run n jobs k s" "joined jobs s" "jobs > 0"
  shows "mset (pf_done s) = mset [0..<n]"
proof -
  note inv = pf_inv_run[OF assms(1)]
  have "claimed jobs s = {}" using assms(2) by (auto simp: claimed_def joined_def)
  moreover have "0 \<in> exited jobs s" using assms(2,3) by (auto simp: exited_def joined_def)
  ultimately have "set (pf_done s) = {..<n}" "distinct (pf_done s)" using inv by (auto simp: pf_inv_def)
  then show ?thesis by (metis atLeast0LessThan atLeast_upt distinct_upt set_eq_iff_mset_eq_distinct)
qed

lemma run_bound:
  assumes "parallel_run n w k s"
  shows "k \<le> 2 * n + w"
proof -
  note inv = pf_inv_run[OF assms]
  have "card (exited w s) \<le> card {..<w}" by (rule card_mono) (auto simp: exited_def)
  moreover have "length (pf_done s) = card (set (pf_done s))" using inv by (simp add: pf_inv_def distinct_card)
  moreover have "set (pf_done s) \<subseteq> {..<min (pf_next s) n}" using inv unfolding pf_inv_def by blast
  then have "card (set (pf_done s)) \<le> card {..<min (pf_next s) n}" by (intro card_mono) auto
  ultimately show ?thesis using inv by (simp add: pf_inv_def)
qed

lemma joined_or_step: "joined w s \<or> (\<exists>s'. parallel_step n w s s')"
proof (rule disjCI)
  assume "\<nexists>s'. parallel_step n w s s'"
  then have "pf_workers s t = Exited" if "t < w" for t
    using that by (cases "pf_workers s t") (blast intro: parallel_step.intros)+
  then show "joined w s" by (simp add: joined_def)
qed

lemma run_joins: "\<exists>k s. parallel_run n w k s \<and> joined w s"
proof -
  let ?K = "{k. \<exists>s. parallel_run n w k s}"
  have fin: "finite ?K" by (rule finite_subset[of _ "{..2 * n + w}"]) (auto dest: run_bound)
  have "0 \<in> ?K" using parallel_run.start by blast
  then have "Max ?K \<in> ?K" using Max_in[OF fin] by blast
  then obtain s where s: "parallel_run n w (Max ?K) s" by blast
  have "\<nexists>s'. parallel_step n w s s'"
  proof
    assume "\<exists>s'. parallel_step n w s s'"
    then have "Suc (Max ?K) \<in> ?K" using s parallel_run.step by blast
    then show False using Max_ge[OF fin] by fastforce
  qed
  then show ?thesis using s joined_or_step by blast
qed

text \<open>
  C19. A parallel loop returns, and whenever it does it has called the function exactly once for every
  index, whatever the number of workers and however they interleave; no execution of the workers
  has more than two steps per task and one per worker.
\<close>

theorem parallel_for_every_task_once:
  "(\<exists>calls. parallel_for n jobs calls) \<and> Collect (parallel_for n jobs) \<subseteq> {calls. mset calls = mset [0..<n]}
   \<and> {(k, s). parallel_run n w k s} \<subseteq> {(k, s). k \<le> 2 * n + w}"
proof -
  have "\<exists>calls. parallel_for n jobs calls"
  proof (cases "n = 0 \<or> worker_count n jobs = 1")
    case False
    then have w: "n > 0" "worker_count n jobs > 1" by (auto simp: worker_count_def)
    obtain k s where "parallel_run n (worker_count n jobs) k s" "joined (worker_count n jobs) s" using run_joins by blast
    then show ?thesis using parallel_for.threads[OF w] by blast
  qed (use parallel_for.no_tasks parallel_for.sequential in \<open>metis gr0I\<close>)
  moreover have "mset calls = mset [0..<n]" if "parallel_for n jobs calls" for calls
    using that by cases (auto dest: joined_done simp del: mset_upt)
  ultimately show ?thesis using run_bound by blast
qed

lemma resolve_concurrency_bounds: "resolve_concurrency hw n r \<le> n \<and> (resolve_concurrency hw n r = 0 \<longleftrightarrow> n = 0)"
  by (auto simp: resolve_concurrency_def default_concurrency_def Let_def)

end
