(* ===== verification/Scan_Expr.thy ===== *)
theory Scan_Expr
  imports Attr_Parse "HOL-Library.Signed_Division"
begin

section \<open>Conditions of the source scanner: \<^verbatim>\<open>tools/src/scan_utils.hpp\<close>\<close>

text \<open>
  Before Clang is run, the generator scans sources for module declarations and imports, and follows
  \<^verbatim>\<open>#if\<close> to see which lines are active.  This theory models the evaluation of conditions: integer
  literals, tokens, and the recursive-descent parser that evaluates while it parses.  A result is a
  value, \<open>Unknown\<close> (\<^verbatim>\<open>std::nullopt\<close>), or \<open>Undefined\<close> where the code runs into undefined behaviour of
  \<^verbatim>\<open>long long\<close>.  The ten methods for binary operators differ in their operators only; they are
  \<open>pp_parse\<close> at levels 10 (\<^verbatim>\<open>parse_logical_or\<close>) down to 1 (\<^verbatim>\<open>parse_multiplicative\<close>).
\<close>

unbundle bit_operations_syntax

datatype 'a pp = Undefined | Unknown | Value 'a

fun bindP :: "'a pp \<Rightarrow> ('a \<Rightarrow> 'b pp) \<Rightarrow> 'b pp" where
  "bindP Undefined f = Undefined"
| "bindP Unknown f = Unknown"
| "bindP (Value x) f = f x"

definition long_long :: "int \<Rightarrow> int pp" where
  "long_long v = (if - (2 ^ 63) \<le> v \<and> v < 2 ^ 63 then Value v else Undefined)"

subsection \<open>Text\<close>

definition ltrim_ascii_view :: "string \<Rightarrow> string" where
  "ltrim_ascii_view s = dropWhile isspace s"

definition rtrim_ascii_view :: "string \<Rightarrow> string" where
  "rtrim_ascii_view s = rev (dropWhile isspace (rev s))"

definition trim_ascii_view :: "string \<Rightarrow> string" where
  "trim_ascii_view s = rtrim_ascii_view (ltrim_ascii_view s)"

definition is_scan_identifier_start :: "char \<Rightarrow> bool" where
  "is_scan_identifier_start c \<longleftrightarrow> isalpha c \<or> c = CHR ''_''"

definition is_scan_identifier_continue :: "char \<Rightarrow> bool" where
  "is_scan_identifier_continue c \<longleftrightarrow> isalnum c \<or> c = CHR ''_''"

definition parse_scan_identifier :: "string \<Rightarrow> string option" where
  "parse_scan_identifier s =
     (case trim_ascii_view s of
        [] \<Rightarrow> None
      | c # cs \<Rightarrow> if is_scan_identifier_start c then Some (c # takeWhile is_scan_identifier_continue cs) else None)"

definition to_lower_ascii :: "char \<Rightarrow> char" where
  "to_lower_ascii c = (if CHR ''A'' \<le> c \<and> c \<le> CHR ''Z'' then char_of (of_char c + 32 :: nat) else c)"


subsection \<open>Integer literals\<close>

definition is_valid_suffix :: "string \<Rightarrow> bool" where
  "is_valid_suffix suffix \<longleftrightarrow>
     map to_lower_ascii suffix \<in> {[], ''u'', ''l'', ''ll'', ''ul'', ''ull'', ''lu'', ''llu''}"

definition is_scan_digit :: "nat \<Rightarrow> char \<Rightarrow> bool" where
  "is_scan_digit base c \<longleftrightarrow>
     base \<le> 10 \<and> CHR ''0'' \<le> c \<and> of_char c \<le> (of_char CHR ''0'' + (base - 1) :: nat)
     \<or> base = 16 \<and> CHR ''a'' \<le> c \<and> c \<le> CHR ''f'' \<or> base = 16 \<and> CHR ''A'' \<le> c \<and> c \<le> CHR ''F''"

definition scan_digit_value :: "nat \<Rightarrow> char \<Rightarrow> nat option" where
  "scan_digit_value base c =
     (if CHR ''0'' \<le> c \<and> c \<le> CHR ''9'' then Some (of_char c - 48)
      else if base = 16 \<and> CHR ''a'' \<le> c \<and> c \<le> CHR ''f'' then Some (10 + (of_char c - 97))
      else if base = 16 \<and> CHR ''A'' \<le> c \<and> c \<le> CHR ''F'' then Some (10 + (of_char c - 65))
      else None)"

fun scan_digits :: "nat \<Rightarrow> int \<Rightarrow> string \<Rightarrow> int pp" where
  "scan_digits base v [] = Value v"
| "scan_digits base v (c # cs) =
     (case scan_digit_value base c of
        None \<Rightarrow> Unknown
      | Some d \<Rightarrow> if base \<le> d then Unknown
                 else bindP (long_long (v * int base)) (\<lambda>v. bindP (long_long (v + int d)) (\<lambda>v. scan_digits base v cs)))"

definition scan_sign :: "string \<Rightarrow> int \<times> string" where
  "scan_sign s = (if hd s = CHR ''+'' then (1, tl s) else if hd s = CHR ''-'' then (- 1, tl s) else (1, s))"

definition scan_base :: "string \<Rightarrow> nat \<times> string" where
  "scan_base s =
     (if 2 < length s \<and> s ! 0 = CHR ''0'' \<and> (s ! 1 = CHR ''x'' \<or> s ! 1 = CHR ''X'') then (16, drop 2 s)
      else if 2 < length s \<and> s ! 0 = CHR ''0'' \<and> (s ! 1 = CHR ''b'' \<or> s ! 1 = CHR ''B'') then (2, drop 2 s)
      else if 1 < length s \<and> s ! 0 = CHR ''0'' then (8, s)
      else (10, s))"

definition scan_magnitude :: "string \<Rightarrow> int pp" where
  "scan_magnitude s =
     (let (base, digits) = scan_base s
      in if digits = [] then Unknown
         else let ds = takeWhile (is_scan_digit base) digits; suffix = dropWhile (is_scan_digit base) digits
              in if ds = [] \<or> \<not> is_valid_suffix suffix then Unknown else scan_digits base 0 ds)"

definition parse_scan_integer_literal :: "string \<Rightarrow> int pp" where
  "parse_scan_integer_literal text =
     (let text = trim_ascii_view text
      in if text = [] then Unknown
         else let normalized = filter (\<lambda>c. c \<noteq> SQ) text
              in if normalized = [] then Undefined
                 else let (sign, rest) = scan_sign normalized; rest = trim_ascii_view rest
                      in if rest = [] then Unknown
                         else bindP (scan_magnitude rest) (\<lambda>v. Value (sign * v)))"

subsection \<open>Tokens\<close>

datatype ScanPpTokenKind =
    Identifier | Number | LParen | RParen | LogicalOr | LogicalAnd | BitOr | BitXor | BitAnd | Equal | NotEqual
  | Less | LessEqual | Greater | GreaterEqual | ShiftLeft | ShiftRight | Plus | Minus | Star | Slash | Percent
  | NotTok | BitNot | End

datatype ScanPpToken = ScanPpToken (token_kind: ScanPpTokenKind) (token_text: string)

definition is_scan_number_continue :: "char \<Rightarrow> bool" where
  "is_scan_number_continue c \<longleftrightarrow> isalnum c \<or> c = CHR ''_'' \<or> c = SQ"

definition two_char_token :: "string \<Rightarrow> ScanPpTokenKind option" where
  "two_char_token two =
     (if two = ''||'' then Some LogicalOr else if two = ''&&'' then Some LogicalAnd
      else if two = ''=='' then Some Equal else if two = ''!='' then Some NotEqual
      else if two = ''<='' then Some LessEqual else if two = ''>='' then Some GreaterEqual
      else if two = ''<<'' then Some ShiftLeft else if two = ''>>'' then Some ShiftRight else None)"

definition one_char_token :: "char \<Rightarrow> ScanPpTokenKind option" where
  "one_char_token c =
     (if c = CHR ''('' then Some LParen else if c = CHR '')'' then Some RParen
      else if c = CHR ''|'' then Some BitOr else if c = CHR ''^'' then Some BitXor
      else if c = CHR ''&'' then Some BitAnd else if c = CHR ''<'' then Some Less
      else if c = CHR ''>'' then Some Greater else if c = CHR ''+'' then Some Plus
      else if c = CHR ''-'' then Some Minus else if c = CHR ''*'' then Some Star
      else if c = CHR ''/'' then Some Slash else if c = CHR ''%'' then Some Percent
      else if c = CHR ''!'' then Some NotTok else if c = CHR ''~'' then Some BitNot else None)"

lemma dropWhile_shorter [termination_simp]: "length (dropWhile P cs) < Suc (length cs)"
  by (simp add: length_dropWhile_le less_Suc_eq_le)

fun tokenize :: "string \<Rightarrow> ScanPpToken list option" where
  "tokenize [] = Some [ScanPpToken End []]"
| "tokenize (c # cs) =
     (if isspace c then tokenize cs
      else if is_scan_identifier_start c then
        map_option ((#) (ScanPpToken Identifier (c # takeWhile is_scan_identifier_continue cs)))
          (tokenize (dropWhile is_scan_identifier_continue cs))
      else if isdigit c then
        map_option ((#) (ScanPpToken Number (c # takeWhile is_scan_number_continue cs)))
          (tokenize (dropWhile is_scan_number_continue cs))
      else case (if cs = [] then None else two_char_token [c, hd cs]) of
             Some k \<Rightarrow> map_option ((#) (ScanPpToken k [c, hd cs])) (tokenize (tl cs))
           | None \<Rightarrow> (case one_char_token c of
                       Some k \<Rightarrow> map_option ((#) (ScanPpToken k [c])) (tokenize cs)
                     | None \<Rightarrow> None))"

definition tokenize_scan_preprocessor_expression :: "string \<Rightarrow> ScanPpToken list" where
  "tokenize_scan_preprocessor_expression s = (case tokenize s of Some ts \<Rightarrow> ts | None \<Rightarrow> [])"


subsection \<open>The operators of each precedence level\<close>

definition of_bool_ll :: "bool \<Rightarrow> int pp" where
  "of_bool_ll b = Value (if b then 1 else 0)"

definition op_logical_or :: "ScanPpTokenKind \<Rightarrow> (int \<Rightarrow> int \<Rightarrow> int pp) option" where
  "op_logical_or k = (if k = LogicalOr then Some (\<lambda>l r. of_bool_ll (l \<noteq> 0 \<or> r \<noteq> 0)) else None)"

definition op_logical_and :: "ScanPpTokenKind \<Rightarrow> (int \<Rightarrow> int \<Rightarrow> int pp) option" where
  "op_logical_and k = (if k = LogicalAnd then Some (\<lambda>l r. of_bool_ll (l \<noteq> 0 \<and> r \<noteq> 0)) else None)"

definition op_bitwise_or :: "ScanPpTokenKind \<Rightarrow> (int \<Rightarrow> int \<Rightarrow> int pp) option" where
  "op_bitwise_or k = (if k = BitOr then Some (\<lambda>l r. Value (l OR r)) else None)"

definition op_bitwise_xor :: "ScanPpTokenKind \<Rightarrow> (int \<Rightarrow> int \<Rightarrow> int pp) option" where
  "op_bitwise_xor k = (if k = BitXor then Some (\<lambda>l r. Value (l XOR r)) else None)"

definition op_bitwise_and :: "ScanPpTokenKind \<Rightarrow> (int \<Rightarrow> int \<Rightarrow> int pp) option" where
  "op_bitwise_and k = (if k = BitAnd then Some (\<lambda>l r. Value (l AND r)) else None)"

definition op_equality :: "ScanPpTokenKind \<Rightarrow> (int \<Rightarrow> int \<Rightarrow> int pp) option" where
  "op_equality k =
     (if k = Equal then Some (\<lambda>l r. of_bool_ll (l = r))
      else if k = NotEqual then Some (\<lambda>l r. of_bool_ll (l \<noteq> r)) else None)"

definition op_relational :: "ScanPpTokenKind \<Rightarrow> (int \<Rightarrow> int \<Rightarrow> int pp) option" where
  "op_relational k =
     (if k = Less then Some (\<lambda>l r. of_bool_ll (l < r))
      else if k = LessEqual then Some (\<lambda>l r. of_bool_ll (l \<le> r))
      else if k = Greater then Some (\<lambda>l r. of_bool_ll (l > r))
      else if k = GreaterEqual then Some (\<lambda>l r. of_bool_ll (l \<ge> r)) else None)"

text \<open>Since C++20 a left shift wraps; a negative or too large shift count is undefined.\<close>

definition op_shift :: "ScanPpTokenKind \<Rightarrow> (int \<Rightarrow> int \<Rightarrow> int pp) option" where
  "op_shift k =
     (if k = ShiftLeft then
        Some (\<lambda>l r. if r < 0 \<or> 64 \<le> r then Undefined else Value (signed_take_bit 63 (push_bit (nat r) l)))
      else if k = ShiftRight then
        Some (\<lambda>l r. if r < 0 \<or> 64 \<le> r then Undefined else Value (drop_bit (nat r) l))
      else None)"

definition op_additive :: "ScanPpTokenKind \<Rightarrow> (int \<Rightarrow> int \<Rightarrow> int pp) option" where
  "op_additive k =
     (if k = Plus then Some (\<lambda>l r. long_long (l + r))
      else if k = Minus then Some (\<lambda>l r. long_long (l - r)) else None)"

text \<open>\<^verbatim>\<open>LLONG_MIN % -1\<close> is undefined, as is the quotient.\<close>

definition op_multiplicative :: "ScanPpTokenKind \<Rightarrow> (int \<Rightarrow> int \<Rightarrow> int pp) option" where
  "op_multiplicative k =
     (if k = Star then Some (\<lambda>l r. long_long (l * r))
      else if k = Slash then Some (\<lambda>l r. if r = 0 then Unknown else long_long (l sdiv r))
      else if k = Percent then
        Some (\<lambda>l r. if r = 0 then Unknown else bindP (long_long (l sdiv r)) (\<lambda>_. Value (l smod r)))
      else None)"

definition binary_op :: "nat \<Rightarrow> ScanPpTokenKind \<Rightarrow> (int \<Rightarrow> int \<Rightarrow> int pp) option" where
  "binary_op level =
     (if level = 10 then op_logical_or else if level = 9 then op_logical_and else if level = 8 then op_bitwise_or
      else if level = 7 then op_bitwise_xor else if level = 6 then op_bitwise_and else if level = 5 then op_equality
      else if level = 4 then op_relational else if level = 3 then op_shift else if level = 2 then op_additive
      else if level = 1 then op_multiplicative else (\<lambda>_. None))"

definition unary_op :: "ScanPpTokenKind \<Rightarrow> (int \<Rightarrow> int pp) option" where
  "unary_op k =
     (if k = NotTok then Some (\<lambda>v. of_bool_ll (v = 0)) else if k = BitNot then Some (\<lambda>v. Value (NOT v))
      else if k = Plus then Some Value else if k = Minus then Some (\<lambda>v. long_long (- v)) else None)"

subsection \<open>The parser\<close>

definition current :: "ScanPpToken list \<Rightarrow> ScanPpToken" where
  "current ts = (case ts of [] \<Rightarrow> ScanPpToken End [] | t # _ \<Rightarrow> t)"

definition consume_token :: "ScanPpTokenKind \<Rightarrow> ScanPpToken list \<Rightarrow> bool \<times> ScanPpToken list" where
  "consume_token k ts = (if token_kind (current ts) = k then (True, tl ts) else (False, ts))"

definition parse_defined :: "(string \<Rightarrow> bool) \<Rightarrow> ScanPpToken list \<Rightarrow> (int \<times> ScanPpToken list) pp" where
  "parse_defined contains ts =
     (let (parenthesized, ts) = consume_token LParen ts
      in if token_kind (current ts) \<noteq> Identifier then Unknown
         else let ident = token_text (current ts); ts = tl ts;
                  (closed, ts) = (if parenthesized then consume_token RParen ts else (True, ts))
              in if \<not> closed then Unknown else Value (if contains ident then 1 else 0, ts))"

definition parse_operand ::
  "(string \<Rightarrow> bool) \<Rightarrow> (string \<Rightarrow> int pp) \<Rightarrow> ScanPpToken list \<Rightarrow> (int \<times> ScanPpToken list) pp" where
  "parse_operand contains idv ts =
     (let t = current ts
      in if token_kind t = Identifier \<and> token_text t = ''defined'' then parse_defined contains (tl ts)
         else if token_kind t = Number then bindP (parse_scan_integer_literal (token_text t)) (\<lambda>v. Value (v, tl ts))
         else if token_kind t = Identifier then bindP (idv (token_text t)) (\<lambda>v. Value (v, tl ts))
         else Unknown)"

datatype pp_task = Level nat | Tail nat int | Unary | Primary

lemma bindP_cong [fundef_cong]:
  assumes "m = m'" and "\<And>x. m' = Value x \<Longrightarrow> f x = g x"
  shows "bindP m f = bindP m' g"
  using assms by (cases m') auto

function pp_parse ::
  "(string \<Rightarrow> bool) \<Rightarrow> (string \<Rightarrow> int pp) \<Rightarrow> pp_task \<Rightarrow> ScanPpToken list \<Rightarrow> (int \<times> ScanPpToken list) pp" where
  "pp_parse contains idv (Level 0) ts = pp_parse contains idv Unary ts"
| "pp_parse contains idv (Level (Suc k)) ts =
     bindP (pp_parse contains idv (Level k) ts)
       (\<lambda>p. pp_parse contains idv (Tail (Suc k) (fst p)) (snd p))"
| "pp_parse contains idv (Tail k l) ts =
     (case binary_op k (token_kind (current ts)) of
        None \<Rightarrow> Value (l, ts)
      | Some f \<Rightarrow>
          bindP (pp_parse contains idv (Level (k - 1)) (tl ts))
            (\<lambda>p. bindP (f l (fst p)) (\<lambda>v. pp_parse contains idv (Tail k v) (snd p))))"
| "pp_parse contains idv Unary ts =
     (case unary_op (token_kind (current ts)) of
        None \<Rightarrow> pp_parse contains idv Primary ts
      | Some f \<Rightarrow>
          bindP (pp_parse contains idv Unary (tl ts)) (\<lambda>p. bindP (f (fst p)) (\<lambda>v. Value (v, snd p))))"
| "pp_parse contains idv Primary ts =
     (if token_kind (current ts) = LParen then
        bindP (pp_parse contains idv (Level 10) (tl ts))
          (\<lambda>p. if token_kind (current (snd p)) = RParen then Value (fst p, tl (snd p)) else Unknown)
      else parse_operand contains idv ts)"
  by pat_completeness auto

lemma binary_op_nonempty:
  assumes "binary_op k (token_kind (current ts)) = Some f"
  shows "length (tl ts) < length ts"
  using assms
  by (cases ts) (auto simp: binary_op_def current_def op_logical_or_def op_logical_and_def op_bitwise_or_def
      op_bitwise_xor_def op_bitwise_and_def op_equality_def op_relational_def op_shift_def op_additive_def
      op_multiplicative_def split: if_splits)

lemma unary_op_nonempty:
  assumes "unary_op (token_kind (current ts)) = Some f"
  shows "length (tl ts) < length ts"
  using assms by (cases ts) (auto simp: unary_op_def current_def split: if_splits)

lemma bindP_Value: "bindP m f = Value y \<longleftrightarrow> (\<exists>x. m = Value x \<and> f x = Value y)"
  by (cases m) auto

lemma tl_le: "length (tl ts) \<le> length ts"
  by (cases ts) auto

lemma parse_operand_shorter:
  assumes "parse_operand contains idv ts = Value (v, r)"
  shows "length r < length ts"
proof (cases ts)
  case Nil
  then show ?thesis using assms by (simp add: parse_operand_def current_def)
next
  case (Cons t us)
  then show ?thesis
    using assms tl_le [of us] tl_le [of "tl us"] tl_le [of "tl (tl us)"]
    by (auto simp: parse_operand_def parse_defined_def consume_token_def current_def bindP_Value Let_def
        split: if_splits prod.splits)
qed

fun task_bound :: "pp_task \<Rightarrow> nat \<Rightarrow> nat" where
  "task_bound (Tail k l) n = Suc n"
| "task_bound _ n = n"

lemma pp_parse_shorter:
  assumes "pp_parse_dom (contains, idv, t, ts)"
    and "pp_parse contains idv t ts = Value (v, r)"
  shows "length r < task_bound t (length ts)"
  using assms
proof (induction contains idv t ts arbitrary: v r rule: pp_parse.pinduct)
  case (1 contains idv ts)
  then show ?case by (simp add: pp_parse.psimps)
next
  case (2 contains idv k ts)
  then obtain p where p: "pp_parse contains idv (Level k) ts = Value p"
    "pp_parse contains idv (Tail (Suc k) (fst p)) (snd p) = Value (v, r)"
    by (auto simp: pp_parse.psimps bindP_Value)
  show ?case using "2.IH"(1) [of "fst p" "snd p"] "2.IH"(2) [OF p] p by simp
next
  case (3 contains idv k l ts)
  show ?case
  proof (cases "binary_op k (token_kind (current ts))")
    case None
    then show ?thesis using 3 by (simp add: pp_parse.psimps)
  next
    case (Some f)
    then obtain p w where p: "pp_parse contains idv (Level (k - 1)) (tl ts) = Value p"
      "f l (fst p) = Value w" "pp_parse contains idv (Tail k w) (snd p) = Value (v, r)"
      using 3 by (auto simp: pp_parse.psimps bindP_Value)
    show ?thesis
      using "3.IH"(1) [OF Some, of "fst p" "snd p"] "3.IH"(2) [OF Some p] p binary_op_nonempty [OF Some] by simp
  qed
next
  case (4 contains idv ts)
  show ?case
  proof (cases "unary_op (token_kind (current ts))")
    case None
    then show ?thesis using 4 by (simp add: pp_parse.psimps)
  next
    case (Some f)
    then obtain p where p: "pp_parse contains idv Unary (tl ts) = Value p" "r = snd p"
      using 4 by (auto simp: pp_parse.psimps bindP_Value)
    show ?thesis
      using "4.IH"(2) [OF Some, of "fst p" "snd p"] p unary_op_nonempty [OF Some] by simp
  qed
next
  case (5 contains idv ts)
  show ?case
  proof (cases "token_kind (current ts) = LParen")
    case False
    then show ?thesis using 5 by (simp add: pp_parse.psimps parse_operand_shorter)
  next
    case True
    then obtain p where p: "pp_parse contains idv (Level 10) (tl ts) = Value p" "r = tl (snd p)"
      using 5 by (auto simp: pp_parse.psimps bindP_Value split: if_splits)
    show ?thesis
      using "5.IH" [OF True, of "fst p" "snd p"] p tl_le [of ts] tl_le [of "snd p"] by simp
  qed
qed

fun task_rank :: "pp_task \<Rightarrow> nat" where
  "task_rank Primary = 0"
| "task_rank Unary = 1"
| "task_rank (Level k) = k + 2"
| "task_rank (Tail k l) = 0"

termination pp_parse
proof (relation "measures [\<lambda>(_, _, t, ts). length ts, \<lambda>(_, _, t, ts). task_rank t]", goal_cases)
  case 1
  then show ?case by simp
next
  case (2 contains idv ts)
  then show ?case by simp
next
  case (3 contains idv k ts)
  then show ?case by simp
next
  case (4 contains idv k ts p)
  then show ?case using pp_parse_shorter [of contains idv "Level k" ts "fst p" "snd p"] by simp
next
  case (5 contains idv k l ts f)
  then show ?case using binary_op_nonempty by fastforce
next
  case (6 contains idv k l ts f p w)
  then show ?case
    using pp_parse_shorter [of contains idv "Level (k - 1)" "tl ts" "fst p" "snd p"] binary_op_nonempty [of k ts f]
    by simp
next
  case (7 contains idv ts)
  then show ?case by simp
next
  case (8 contains idv ts f)
  then show ?case using unary_op_nonempty by fastforce
next
  case (9 contains idv ts)
  then show ?case by (cases ts) (auto simp: current_def)
qed

subsection \<open>Expansion of macros\<close>

text \<open>
  A macro without a value counts as 1, an identifier that is no macro as 0; the value of a macro is
  parsed by a nested parser, to a depth of 32.  The argument is what is left of that depth.
\<close>

definition scan_identifier_value :: "(string \<rightharpoonup> string) \<Rightarrow> (string \<Rightarrow> int pp) \<Rightarrow> string \<Rightarrow> int pp" where
  "scan_identifier_value macros nested ident =
     (case macros ident of
        None \<Rightarrow> Value 0
      | Some body \<Rightarrow> if trim_ascii_view body = [] then Value 1 else nested (trim_ascii_view body))"

definition parse_tokens ::
  "(string \<Rightarrow> bool) \<Rightarrow> (string \<Rightarrow> int pp) \<Rightarrow> ScanPpToken list \<Rightarrow> int pp" where
  "parse_tokens contains idv ts =
     (if ts = [] then Unknown
      else bindP (pp_parse contains idv (Level 10) ts)
             (\<lambda>p. if token_kind (current (snd p)) = End then Value (fst p) else Unknown))"

primrec scan_parse :: "(string \<rightharpoonup> string) \<Rightarrow> nat \<Rightarrow> string \<Rightarrow> int pp" where
  "scan_parse macros 0 s =
     parse_tokens (\<lambda>x. macros x \<noteq> None) (scan_identifier_value macros (\<lambda>_. Unknown))
       (tokenize_scan_preprocessor_expression s)"
| "scan_parse macros (Suc n) s =
     parse_tokens (\<lambda>x. macros x \<noteq> None) (scan_identifier_value macros (scan_parse macros n))
       (tokenize_scan_preprocessor_expression s)"

declare pp_parse.simps [simp del]

lemmas pp_parse_Level0 = pp_parse.simps(1)
lemmas pp_parse_Tail = pp_parse.simps(3)
lemmas pp_parse_Unary = pp_parse.simps(4)
lemmas pp_parse_Primary = pp_parse.simps(5)

subsection \<open>What an expression means\<close>

datatype pp_expr =
    Num string
  | Ident string
  | Defined string
  | UnOp ScanPpTokenKind pp_expr
  | BinOp ScanPpTokenKind pp_expr pp_expr
  | Paren pp_expr

fun op_level :: "ScanPpTokenKind \<Rightarrow> nat" where
  "op_level LogicalOr = 10"
| "op_level LogicalAnd = 9"
| "op_level BitOr = 8"
| "op_level BitXor = 7"
| "op_level BitAnd = 6"
| "op_level Equal = 5"
| "op_level NotEqual = 5"
| "op_level Less = 4"
| "op_level LessEqual = 4"
| "op_level Greater = 4"
| "op_level GreaterEqual = 4"
| "op_level ShiftLeft = 3"
| "op_level ShiftRight = 3"
| "op_level Plus = 2"
| "op_level Minus = 2"
| "op_level Star = 1"
| "op_level Slash = 1"
| "op_level Percent = 1"
| "op_level _ = 0"

fun op_spelling :: "ScanPpTokenKind \<Rightarrow> string" where
  "op_spelling LogicalOr = ''||''"
| "op_spelling LogicalAnd = ''&&''"
| "op_spelling BitOr = ''|''"
| "op_spelling BitXor = ''^''"
| "op_spelling BitAnd = ''&''"
| "op_spelling Equal = ''==''"
| "op_spelling NotEqual = ''!=''"
| "op_spelling Less = ''<''"
| "op_spelling LessEqual = ''<=''"
| "op_spelling Greater = ''>''"
| "op_spelling GreaterEqual = ''>=''"
| "op_spelling ShiftLeft = ''<<''"
| "op_spelling ShiftRight = ''>>''"
| "op_spelling Plus = ''+''"
| "op_spelling Minus = ''-''"
| "op_spelling Star = ''*''"
| "op_spelling Slash = ''/''"
| "op_spelling Percent = ''%''"
| "op_spelling NotTok = ''!''"
| "op_spelling BitNot = ''~''"
| "op_spelling LParen = ''(''"
| "op_spelling RParen = '')''"
| "op_spelling _ = []"

definition op_token :: "ScanPpTokenKind \<Rightarrow> ScanPpToken" where
  "op_token k = ScanPpToken k (op_spelling k)"

fun expr_tokens :: "pp_expr \<Rightarrow> ScanPpToken list" where
  "expr_tokens (Num s) = [ScanPpToken Number s]"
| "expr_tokens (Ident s) = [ScanPpToken Identifier s]"
| "expr_tokens (Defined s) = [ScanPpToken Identifier ''defined'', op_token LParen, ScanPpToken Identifier s, op_token RParen]"
| "expr_tokens (UnOp k e) = op_token k # expr_tokens e"
| "expr_tokens (BinOp k l r) = expr_tokens l @ op_token k # expr_tokens r"
| "expr_tokens (Paren e) = op_token LParen # expr_tokens e @ [op_token RParen]"

text \<open>The operands of an operator bind at least as tightly as the grammar of C++ asks: operators of
  the same level group to the left.\<close>

fun precedence_ok :: "nat \<Rightarrow> pp_expr \<Rightarrow> bool" where
  "precedence_ok n (BinOp k l r) \<longleftrightarrow>
     0 < op_level k \<and> op_level k \<le> n \<and> precedence_ok (op_level k) l \<and> precedence_ok (op_level k - 1) r"
| "precedence_ok n (UnOp k e) \<longleftrightarrow> unary_op k \<noteq> None \<and> precedence_ok 0 e"
| "precedence_ok n (Paren e) \<longleftrightarrow> precedence_ok 10 e"
| "precedence_ok n (Ident s) \<longleftrightarrow> s \<noteq> ''defined''"
| "precedence_ok n _ \<longleftrightarrow> True"

fun eval_expr :: "(string \<Rightarrow> bool) \<Rightarrow> (string \<Rightarrow> int pp) \<Rightarrow> pp_expr \<Rightarrow> int pp" where
  "eval_expr contains idv (Num s) = parse_scan_integer_literal s"
| "eval_expr contains idv (Ident s) = idv s"
| "eval_expr contains idv (Defined s) = of_bool_ll (contains s)"
| "eval_expr contains idv (UnOp k e) = bindP (eval_expr contains idv e) (the (unary_op k))"
| "eval_expr contains idv (BinOp k l r) =
     bindP (eval_expr contains idv l)
       (\<lambda>a. bindP (eval_expr contains idv r) (\<lambda>b. the (binary_op (op_level k) k) a b))"
| "eval_expr contains idv (Paren e) = eval_expr contains idv e"

lemmas op_defs = op_logical_or_def op_logical_and_def op_bitwise_or_def op_bitwise_xor_def op_bitwise_and_def
  op_equality_def op_relational_def op_shift_def op_additive_def op_multiplicative_def

lemma binary_op_eq_None: "binary_op n k = None \<longleftrightarrow> n = 0 \<or> op_level k \<noteq> n"
  by (cases k) (auto simp: binary_op_def op_defs)

lemma binary_op_level:
  assumes "0 < op_level k"
  obtains f where "binary_op (op_level k) k = Some f"
  using assms binary_op_eq_None [of "op_level k" k] by auto

lemma bindP_assoc: "bindP (bindP m f) g = bindP m (\<lambda>x. bindP (f x) g)"
  by (cases m) auto

lemma tail_stops:
  assumes "op_level (token_kind (current rest)) \<noteq> n \<or> n = 0"
  shows "pp_parse contains idv (Tail n v) rest = Value (v, rest)"
  using assms binary_op_eq_None [of n "token_kind (current rest)"] by (auto simp: pp_parse_Tail)

definition follows :: "nat \<Rightarrow> ScanPpToken list \<Rightarrow> bool" where
  "follows n rest \<longleftrightarrow> op_level (token_kind (current rest)) \<notin> {0<..<n}"

lemma level_lift:
  assumes "pp_parse contains idv (Level j) ts = bindP m (\<lambda>v. pp_parse contains idv (Tail j v) rest)"
    and "j \<le> n" and "follows n rest"
  shows "pp_parse contains idv (Level n) ts = bindP m (\<lambda>v. pp_parse contains idv (Tail n v) rest)"
  using assms(2,1,3)
proof (induction rule: dec_induct)
  case (step n)
  have *: "follows n rest" using step.prems(2) by (auto simp: follows_def)
  have stop: "pp_parse contains idv (Tail n v) rest = Value (v, rest)" for v
    by (rule tail_stops) (use step.prems(2) in \<open>auto simp: follows_def\<close>)
  show ?case
    by (simp only: pp_parse.simps(2) step.IH [OF step.prems(1) *] stop bindP_assoc bindP.simps fst_conv snd_conv)
qed

lemma current_Cons [simp]: "current (t # ts) = t"
  by (simp add: current_def)

lemma op_token_kind [simp]: "token_kind (op_token k) = k"
  by (simp add: op_token_def)

lemma primary_level:
  assumes "unary_op (token_kind (current ts)) = None"
    and "pp_parse contains idv Primary ts = bindP m (\<lambda>v. Value (v, rest))"
  shows "pp_parse contains idv (Level 0) ts = bindP m (\<lambda>v. pp_parse contains idv (Tail 0 v) rest)"
  using assms by (simp add: tail_stops pp_parse_Level0 pp_parse_Unary)

lemma pp_parse_expr:
  assumes "precedence_ok n e" and "follows n rest"
  shows "pp_parse contains idv (Level n) (expr_tokens e @ rest) =
     bindP (eval_expr contains idv e) (\<lambda>v. pp_parse contains idv (Tail n v) rest)"
  using assms
proof (induction e arbitrary: n rest)
  case (Num s)
  show ?case
    by (rule level_lift [OF primary_level]) (use Num in \<open>simp_all add: unary_op_def pp_parse_Primary parse_operand_def\<close>)
next
  case (Ident s)
  show ?case
    by (rule level_lift [OF primary_level]) (use Ident in \<open>simp_all add: unary_op_def pp_parse_Primary parse_operand_def\<close>)
next
  case (Defined s)
  show ?case
    by (rule level_lift [OF primary_level])
      (use Defined in \<open>simp_all add: unary_op_def pp_parse_Primary parse_operand_def parse_defined_def consume_token_def of_bool_ll_def\<close>)
next
  case (UnOp k e)
  then obtain f where f: "unary_op k = Some f" by auto
  have "pp_parse contains idv (Level 0) (expr_tokens e @ rest) =
      bindP (eval_expr contains idv e) (\<lambda>v. pp_parse contains idv (Tail 0 v) rest)"
    using UnOp by (simp add: follows_def)
  then have "pp_parse contains idv (Level 0) (expr_tokens (UnOp k e) @ rest) =
      bindP (eval_expr contains idv (UnOp k e)) (\<lambda>v. pp_parse contains idv (Tail 0 v) rest)"
    by (simp add: f tail_stops bindP_assoc pp_parse_Level0 pp_parse_Unary [of _ _ "op_token k # _"])
  then show ?case by (rule level_lift) (use UnOp in simp_all)
next
  case (BinOp k l r)
  let ?j = "op_level k"
  from BinOp.prems(1) have j: "0 < ?j" "?j \<le> n" by simp_all
  obtain f where f: "binary_op ?j k = Some f" using j(1) by (rule binary_op_level)
  have right: "pp_parse contains idv (Level (?j - 1)) (expr_tokens r @ rest) =
      bindP (eval_expr contains idv r) (\<lambda>v. Value (v, rest))"
  proof -
    have fol: "follows (?j - 1) rest" using BinOp.prems(2) j by (auto simp: follows_def)
    have stop: "pp_parse contains idv (Tail (?j - 1) v) rest = Value (v, rest)" for v
      by (rule tail_stops) (use BinOp.prems(2) j in \<open>auto simp: follows_def\<close>)
    show ?thesis using BinOp.IH(2) [OF _ fol] BinOp.prems(1) by (simp only: precedence_ok.simps stop simp_thms)
  qed
  have left: "pp_parse contains idv (Level ?j) (expr_tokens l @ op_token k # expr_tokens r @ rest) =
      bindP (eval_expr contains idv l)
        (\<lambda>v. pp_parse contains idv (Tail ?j v) (op_token k # expr_tokens r @ rest))"
    by (rule BinOp.IH(1)) (use BinOp.prems(1) in \<open>simp_all add: follows_def\<close>)
  have "pp_parse contains idv (Level ?j) (expr_tokens (BinOp k l r) @ rest) =
      bindP (eval_expr contains idv (BinOp k l r)) (\<lambda>v. pp_parse contains idv (Tail ?j v) rest)"
    using left right f by (simp add: bindP_assoc pp_parse_Tail [of _ _ ?j _ "op_token k # expr_tokens r @ rest"])
  then show ?case by (rule level_lift) (use BinOp j in simp_all)
next
  case (Paren e)
  have "pp_parse contains idv (Level 10) (expr_tokens e @ op_token RParen # rest) =
      bindP (eval_expr contains idv e) (\<lambda>v. Value (v, op_token RParen # rest))"
    using Paren.IH [of 10 "op_token RParen # rest"] Paren.prems(1) tail_stops [of "op_token RParen # rest" 10]
    by (simp add: follows_def)
  then show ?case
    by (intro level_lift [OF primary_level])
      (use Paren in \<open>simp_all add: unary_op_def pp_parse_Primary bindP_assoc\<close>)
qed

lemma parse_tokens_expr:
  assumes "precedence_ok 10 e"
  shows "parse_tokens contains idv (expr_tokens e @ [ScanPpToken End []]) = eval_expr contains idv e"
proof -
  have "pp_parse contains idv (Level 10) (expr_tokens e @ [ScanPpToken End []]) =
      bindP (eval_expr contains idv e) (\<lambda>v. Value (v, [ScanPpToken End []]))"
    using pp_parse_expr [OF assms, of "[ScanPpToken End []]"] tail_stops [of "[ScanPpToken End []]" 10]
    by (simp add: follows_def)
  moreover have "bindP m Value = m" for m :: "int pp" by (cases m) auto
  ultimately show ?thesis by (simp add: parse_tokens_def bindP_assoc)
qed

subsection \<open>From text to value\<close>

fun token_ok :: "ScanPpToken \<Rightarrow> bool" where
  "token_ok (ScanPpToken Identifier s) \<longleftrightarrow>
     s \<noteq> [] \<and> is_scan_identifier_start (hd s) \<and> list_all is_scan_identifier_continue (tl s)"
| "token_ok (ScanPpToken Number s) \<longleftrightarrow> s \<noteq> [] \<and> isdigit (hd s) \<and> list_all is_scan_number_continue (tl s)"
| "token_ok (ScanPpToken End s) \<longleftrightarrow> False"
| "token_ok (ScanPpToken k s) \<longleftrightarrow> s = op_spelling k"

definition print_tokens :: "ScanPpToken list \<Rightarrow> string" where
  "print_tokens ts = concat (map (\<lambda>t. token_text t @ '' '') ts)"

fun names_ok :: "pp_expr \<Rightarrow> bool" where
  "names_ok (Num s) \<longleftrightarrow> token_ok (ScanPpToken Number s)"
| "names_ok (Ident s) \<longleftrightarrow> token_ok (ScanPpToken Identifier s)"
| "names_ok (Defined s) \<longleftrightarrow> token_ok (ScanPpToken Identifier s)"
| "names_ok (UnOp k e) \<longleftrightarrow> names_ok e"
| "names_ok (BinOp k l r) \<longleftrightarrow> names_ok l \<and> names_ok r"
| "names_ok (Paren e) \<longleftrightarrow> names_ok e"

lemma takeWhile_space: "list_all P xs \<Longrightarrow> \<not> P y \<Longrightarrow> takeWhile P (xs @ y # ys) = xs"
  by (induction xs) auto

lemma dropWhile_space: "list_all P xs \<Longrightarrow> \<not> P y \<Longrightarrow> dropWhile P (xs @ y # ys) = y # ys"
  by (induction xs) auto

lemma space_char [simp]:
  "isspace CHR '' ''" "\<not> is_scan_identifier_continue CHR '' ''" "\<not> is_scan_number_continue CHR '' ''"
  by code_simp+

lemma identifier_start_not_space: "is_scan_identifier_start c \<Longrightarrow> \<not> isspace c"
  by (auto simp: is_scan_identifier_start_def isalpha_def isspace_def)

lemma digit_not_space: "isdigit c \<Longrightarrow> \<not> isspace c \<and> \<not> is_scan_identifier_start c"
  by (auto simp: is_scan_identifier_start_def isalpha_def isspace_def isdigit_def)

lemma tokenize_op:
  assumes "token_ok (ScanPpToken k s)" and "k \<noteq> Identifier" and "k \<noteq> Number"
  shows "tokenize (s @ CHR '' '' # rest) = map_option ((#) (ScanPpToken k s)) (tokenize rest)"
  using assms
  by (cases k) (simp_all add: two_char_token_def one_char_token_def isdigit_def isspace_def
      is_scan_identifier_start_def isalpha_def option.map_comp)

lemma tokenize_token:
  assumes "token_ok t"
  shows "tokenize (token_text t @ CHR '' '' # rest) = map_option ((#) t) (tokenize rest)"
proof -
  obtain k s where t: "t = ScanPpToken k s" by (cases t)
  show ?thesis
  proof (cases "k = Identifier \<or> k = Number")
    case False
    then show ?thesis using assms tokenize_op by (simp add: t)
  next
    case True
    then obtain c cs where s: "s = c # cs" using assms t by (cases s) auto
    show ?thesis
      using True assms
      by (auto simp: t s takeWhile_space dropWhile_space identifier_start_not_space digit_not_space)
  qed
qed

lemma tokenize_print:
  assumes "list_all token_ok ts"
  shows "tokenize (print_tokens ts) = Some (ts @ [ScanPpToken End []])"
  using assms
  by (induction ts) (simp_all add: print_tokens_def tokenize_token)

lemma expr_tokens_ok:
  assumes "names_ok e" and "precedence_ok n e"
  shows "list_all token_ok (expr_tokens e)"
  using assms
proof (induction e arbitrary: n)
  case (UnOp k e)
  have "token_ok (op_token k)" using UnOp.prems by (cases k) (auto simp: op_token_def unary_op_def)
  then show ?case using UnOp by auto
next
  case (BinOp k l r)
  have "token_ok (op_token k)" using BinOp.prems by (cases k) (auto simp: op_token_def)
  then show ?case using BinOp by auto
next
  case (Defined s)
  moreover have "token_ok (ScanPpToken Identifier ''defined'')" by code_simp
  ultimately show ?case by (simp add: op_token_def)
qed (auto simp: op_token_def)

text \<open>
  C17. A well-formed condition has the value that the rules of C++ for precedence and grouping give
  it: for every expression tree whose operands bind as tightly as the grammar asks, the text printed
  from the tree is tokenised, parsed and evaluated to the value of the tree, including the results
  \<open>Unknown\<close> and \<open>Undefined\<close>; every operand is evaluated, there is no short cut.
\<close>

theorem condition_value:
  assumes "precedence_ok 10 e" and "names_ok e"
  shows "scan_parse macros (Suc n) (print_tokens (expr_tokens e)) =
     eval_expr (\<lambda>x. macros x \<noteq> None) (scan_identifier_value macros (scan_parse macros n)) e"
  using assms
  by (simp add: tokenize_scan_preprocessor_expression_def tokenize_print expr_tokens_ok parse_tokens_expr)

theorem condition_value_witness:
  "scan_parse [''A'' \<mapsto> ''4''] 32 (print_tokens (expr_tokens (BinOp LogicalAnd (Defined ''A'') (BinOp GreaterEqual (Ident ''A'') (Num ''3''))))) = Value 1"
proof -
  let ?e = "BinOp LogicalAnd (Defined ''A'') (BinOp GreaterEqual (Ident ''A'') (Num ''3''))"
  have ok: "precedence_ok 10 ?e" "names_ok ?e" by code_simp+
  have "eval_expr (\<lambda>x. [''A'' \<mapsto> ''4''] x \<noteq> None)
      (scan_identifier_value [''A'' \<mapsto> ''4''] (scan_parse [''A'' \<mapsto> ''4''] 31)) ?e = Value 1"
    by code_simp
  then show ?thesis using condition_value [OF ok, of "[''A'' \<mapsto> ''4'']" 31] by simp
qed

subsection \<open>Every value is a \<^verbatim>\<open>long long\<close>\<close>

definition ll_range :: "int set" where
  "ll_range = {- (2 ^ 63)..<2 ^ 63}"

definition ll_result :: "int pp \<Rightarrow> bool" where
  "ll_result m \<longleftrightarrow> (case m of Value v \<Rightarrow> v \<in> ll_range | _ \<Rightarrow> True)"

lemma ll_result_simps [simp]:
  "ll_result Undefined" "ll_result Unknown" "ll_result (Value v) \<longleftrightarrow> v \<in> ll_range"
  by (simp_all add: ll_result_def)

lemma ll_result_bindP:
  assumes "\<And>v. m = Value v \<Longrightarrow> ll_result (f v)"
  shows "ll_result (bindP m f)"
  using assms by (cases m) auto

lemma ll_result_long_long [simp]: "ll_result (long_long v)"
  by (simp add: long_long_def ll_range_def)

lemma ll_result_of_bool [simp]: "ll_result (of_bool_ll b)"
  by (simp add: of_bool_ll_def ll_range_def)

lemma ll_range_take_bit: "v \<in> ll_range \<longleftrightarrow> signed_take_bit 63 v = v"
  by (simp add: ll_range_def signed_take_bit_int_eq_self_iff)

lemma signed_take_bit_bitwise:
  fixes l r :: int
  shows "signed_take_bit n (l OR r) = signed_take_bit n l OR signed_take_bit n r"
    and "signed_take_bit n (l XOR r) = signed_take_bit n l XOR signed_take_bit n r"
    and "signed_take_bit n (l AND r) = signed_take_bit n l AND signed_take_bit n r"
    and "signed_take_bit n (NOT l) = NOT (signed_take_bit n l)"
  by (auto intro!: bit_eqI simp: bit_signed_take_bit_iff bit_or_iff bit_xor_iff bit_and_iff bit_not_iff)

lemma ll_range_bits:
  assumes "l \<in> ll_range" and "r \<in> ll_range"
  shows "l OR r \<in> ll_range" "l XOR r \<in> ll_range" "l AND r \<in> ll_range" "NOT l \<in> ll_range"
  using assms
  by (simp_all add: ll_range_take_bit signed_take_bit_bitwise)

lemma ll_range_shift:
  assumes "l \<in> ll_range"
  shows "signed_take_bit 63 v \<in> ll_range" "drop_bit n l \<in> ll_range"
proof -
  show "signed_take_bit 63 v \<in> ll_range" by (simp add: ll_range_take_bit)
  have "min l (- 1) \<le> l div 2 ^ n" "l div 2 ^ n \<le> max l 0"
  proof -
    show "l div 2 ^ n \<le> max l 0"
    proof (cases "0 \<le> l")
      case True
      then show ?thesis using zdiv_mono2 [of l 1 "2 ^ n"] by simp
    next
      case False
      then have "l div 2 ^ n \<le> 0 div 2 ^ n" by (intro zdiv_mono1) simp_all
      then show ?thesis by simp
    qed
    show "min l (- 1) \<le> l div 2 ^ n"
    proof (cases "0 \<le> l")
      case True
      then have "0 \<le> l div 2 ^ n" by (simp add: pos_imp_zdiv_nonneg_iff)
      then show ?thesis by simp
    next
      case False
      have "l * 2 ^ n \<le> l * 1" using False by (intro mult_left_mono_neg) auto
      then have "l * 2 ^ n div 2 ^ n \<le> l div 2 ^ n" by (intro zdiv_mono1) auto
      then show ?thesis by simp
    qed
  qed
  then show "drop_bit n l \<in> ll_range" using assms by (auto simp: ll_range_def drop_bit_eq_div)
qed

lemma ll_range_smod:
  assumes "l \<in> ll_range" and "r \<in> ll_range" and "r \<noteq> 0"
  shows "l smod r \<in> ll_range"
  using assms smod_int_range [of r l] by (auto simp: ll_range_def abs_if split: if_splits)

lemma binary_op_range:
  assumes "binary_op n k = Some f" and "l \<in> ll_range" and "r \<in> ll_range"
  shows "ll_result (f l r)"
  using assms ll_range_bits [OF assms(2,3)] ll_range_shift [OF assms(2)] ll_range_smod [OF assms(2,3)]
  by (auto simp: binary_op_def op_defs intro!: ll_result_bindP split: if_splits)

lemma unary_op_range:
  assumes "unary_op k = Some f" and "v \<in> ll_range"
  shows "ll_result (f v)"
  using assms ll_range_bits(4) [OF assms(2,2)] by (auto simp: unary_op_def split: if_splits)

lemma scan_digits_range: "v \<in> ll_range \<Longrightarrow> 0 \<le> v \<Longrightarrow> scan_digits base v ds = Value w \<Longrightarrow> 0 \<le> w \<and> w \<in> ll_range"
proof (induction ds arbitrary: v)
  case (Cons c cs)
  then show ?case
    by (auto simp: bindP_Value long_long_def ll_range_def split: option.splits if_splits)
qed simp

lemma literal_range: "ll_result (parse_scan_integer_literal s)"
proof -
  have mag: "scan_magnitude t = Value w \<Longrightarrow> 0 \<le> w \<and> w \<in> ll_range" for t w
    using scan_digits_range [of 0] by (auto simp: scan_magnitude_def Let_def ll_range_def split: prod.splits if_splits)
  have sign: "fst (scan_sign t) \<in> {1, - 1}" for t by (simp add: scan_sign_def)
  show ?thesis
  proof (cases "parse_scan_integer_literal s")
    case (Value v)
    then obtain t u w where "v = fst (scan_sign t) * w" "scan_magnitude u = Value w"
      unfolding parse_scan_integer_literal_def Let_def
      by (simp add: bindP_Value case_prod_unfold split: if_splits) blast
    then show ?thesis using mag sign [of t] Value by (fastforce simp: ll_range_def)
  qed auto
qed

lemma parse_operand_range:
  assumes "\<And>x. ll_result (idv x)" and "parse_operand contains idv ts = Value p"
  shows "fst p \<in> ll_range"
proof -
  have "parse_defined contains us = Value p \<Longrightarrow> fst p \<in> ll_range" for us
    by (auto simp: parse_defined_def consume_token_def ll_range_def Let_def split: if_splits)
  moreover have "parse_scan_integer_literal x = Value v \<Longrightarrow> v \<in> ll_range" for x v
    using literal_range [of x] by simp
  moreover have "idv x = Value v \<Longrightarrow> v \<in> ll_range" for x v
    using assms(1) [of x] by simp
  ultimately show ?thesis
    using assms(2) by (auto simp: parse_operand_def Let_def bindP_Value split: if_splits)
qed

fun task_range :: "pp_task \<Rightarrow> bool" where
  "task_range (Tail k l) \<longleftrightarrow> l \<in> ll_range"
| "task_range _ \<longleftrightarrow> True"

lemma pp_parse_range:
  assumes "\<And>x. ll_result (idv x)" and "task_range t" and "pp_parse contains idv t ts = Value p"
  shows "fst p \<in> ll_range"
  using assms
proof (induction contains idv t ts arbitrary: p rule: pp_parse.induct)
  case (1 contains idv ts)
  then show ?case by (simp add: pp_parse_Level0)
next
  case (2 contains idv k ts)
  from "2.prems"(3) obtain q where q: "pp_parse contains idv (Level k) ts = Value q"
    "pp_parse contains idv (Tail (Suc k) (fst q)) (snd q) = Value p"
    by (auto simp: pp_parse.simps(2) bindP_Value)
  have "fst q \<in> ll_range" using "2.IH"(1) [OF "2.prems"(1) _ q(1)] by simp
  then show ?case using "2.IH"(2) [OF q(1) "2.prems"(1) _ q(2)] by simp
next
  case (3 contains idv k l ts)
  show ?case
  proof (cases "binary_op k (token_kind (current ts))")
    case None
    then show ?thesis using 3 by (auto simp: pp_parse_Tail)
  next
    case (Some f)
    then obtain q w where q: "pp_parse contains idv (Level (k - 1)) (tl ts) = Value q"
      "f l (fst q) = Value w" "pp_parse contains idv (Tail k w) (snd q) = Value p"
      using "3.prems"(3) by (auto simp: pp_parse_Tail bindP_Value)
    have "fst q \<in> ll_range" using "3.IH"(1) [OF Some "3.prems"(1) _ q(1)] by simp
    then have "w \<in> ll_range" using binary_op_range [OF Some, of l "fst q"] "3.prems"(2) q(2) by simp
    then show ?thesis using "3.IH"(2) [OF Some q(1,2) "3.prems"(1) _ q(3)] by simp
  qed
next
  case (4 contains idv ts)
  show ?case
  proof (cases "unary_op (token_kind (current ts))")
    case None
    then show ?thesis using 4 by (simp add: pp_parse_Unary)
  next
    case (Some f)
    then obtain q w where q: "pp_parse contains idv Unary (tl ts) = Value q" "f (fst q) = Value w" "p = (w, snd q)"
      using "4.prems"(3) by (auto simp: pp_parse_Unary bindP_Value)
    have "fst q \<in> ll_range" using "4.IH"(2) [OF Some "4.prems"(1) _ q(1)] by simp
    then show ?thesis using unary_op_range [OF Some, of "fst q"] q by simp
  qed
next
  case (5 contains idv ts)
  show ?case
  proof (cases "token_kind (current ts) = LParen")
    case False
    then have "parse_operand contains idv ts = Value p" using "5.prems"(3) by (simp add: pp_parse_Primary)
    then show ?thesis by (rule parse_operand_range [OF "5.prems"(1)])
  next
    case True
    then obtain q where q: "pp_parse contains idv (Level 10) (tl ts) = Value q" "fst p = fst q"
      using "5.prems"(3) by (auto simp: pp_parse_Primary bindP_Value split: if_splits)
    show ?thesis using "5.IH" [OF True "5.prems"(1) _ q(1)] q(2) by simp
  qed
qed

lemma parse_tokens_range:
  assumes "\<And>x. ll_result (idv x)"
  shows "ll_result (parse_tokens contains idv ts)"
  using pp_parse_range [of idv "Level 10" contains ts, OF assms]
  by (auto simp: parse_tokens_def intro!: ll_result_bindP)

lemma identifier_value_range:
  assumes "\<And>s. ll_result (nested s)"
  shows "ll_result (scan_identifier_value macros nested x)"
  using assms by (auto simp: scan_identifier_value_def ll_range_def split: option.splits)


subsection \<open>Literals\<close>

lemma hex_digit_ignored:
  assumes "isdigit d"
  shows "\<not> is_scan_digit 16 d"
  using assms by (auto simp: is_scan_digit_def isdigit_def less_eq_char_def)

lemma dropWhile_rev_same:
  assumes "list_all (\<lambda>c. \<not> P c) s"
  shows "rev (dropWhile P (rev s)) = s" "dropWhile P s = s"
proof -
  have "list_all (\<lambda>c. \<not> P c) (rev s)" using assms by (simp add: list_all_iff)
  then show "rev (dropWhile P (rev s)) = s" by (cases "rev s") auto
  show "dropWhile P s = s" using assms by (cases s) auto
qed

lemma trim_same: "list_all (\<lambda>c. \<not> isspace c) s \<Longrightarrow> trim_ascii_view s = s"
  by (simp add: trim_ascii_view_def ltrim_ascii_view_def rtrim_ascii_view_def dropWhile_rev_same)

lemma hex_literal_with_digit_unknown:
  assumes "isdigit d" and "list_all isalnum ds"
  shows "parse_scan_integer_literal (''0x'' @ d # ds) = Unknown"
proof -
  have *: "isalnum c \<Longrightarrow> \<not> isspace c \<and> c \<noteq> SQ" for c
    by (auto simp: isalnum_def isalpha_def isdigit_def isspace_def)
  have "trim_ascii_view (''0x'' @ d # ds) = ''0x'' @ d # ds"
    using assms * by (intro trim_same) (auto simp: list_all_iff isalnum_def isspace_def)
  moreover have "filter (\<lambda>c. c \<noteq> SQ) (''0x'' @ d # ds) = ''0x'' @ d # ds"
    using assms * by (auto simp: list_all_iff isalnum_def filter_id_conv)
  ultimately show ?thesis
    using assms
    by (simp add: parse_scan_integer_literal_def scan_sign_def scan_magnitude_def scan_base_def hex_digit_ignored)
qed

end
