(* ===== verification/Scan_Lines.thy ===== *)
theory Scan_Lines
  imports Scan_Expr
begin

section \<open>Scanning a source line by line: \<^verbatim>\<open>tools/src/scan_utils.hpp\<close>\<close>

text \<open>
  The scanner reads physical lines, removes comments, joins continued preprocessor lines, keeps a
  stack of conditional groups and a table of object-like macros, and hands on the lines of active
  groups.  Callers split these into statements and look for module declarations and imports.

  The state is \<open>ScanStreamState\<close>; the back of the vector \<^verbatim>\<open>conditionals\<close> is the head of the list.  The
  warnings about conditions that cannot be evaluated go to a log.  The file system is the
  parameter \<open>exists_file\<close>.  Where the code has no defined result the model has \<open>None\<close>: undefined
  arithmetic in a condition, and unbounded recursion of the operand of \<^verbatim>\<open>__has_include\<close>.
\<close>

subsection \<open>Lines and names\<close>

definition append_gap :: "string \<Rightarrow> string" where
  "append_gap out = (if out \<noteq> [] \<and> \<not> isspace (last out) then out @ '' '' else out)"

fun after_comment :: "string \<Rightarrow> string option" where
  "after_comment (a # b # cs) = (if a = CHR ''*'' \<and> b = CHR ''/'' then Some cs else after_comment (b # cs))"
| "after_comment _ = None"

lemma after_comment_shorter: "after_comment s = Some t \<Longrightarrow> length t < length s"
  by (induction s rule: after_comment.induct) (auto split: if_splits)

function strip_comments_loop :: "string \<Rightarrow> bool \<Rightarrow> string \<Rightarrow> string \<times> bool" where
  "strip_comments_loop out in_block [] = (out, in_block)"
| "strip_comments_loop out True (c # cs) =
     (case after_comment (c # cs) of
        None \<Rightarrow> (out, True)
      | Some rest \<Rightarrow> strip_comments_loop (append_gap out) False rest)"
| "strip_comments_loop out False (c # cs) =
     (if cs \<noteq> [] \<and> c = CHR ''/'' \<and> hd cs = CHR ''*'' then strip_comments_loop (append_gap out) True (tl cs)
      else if cs \<noteq> [] \<and> c = CHR ''/'' \<and> hd cs = CHR ''/'' then (out, False)
      else strip_comments_loop (out @ [c]) False cs)"
  by pat_completeness auto
termination
  by (relation "measure (\<lambda>(_, _, s). length s)") (auto dest: after_comment_shorter)

definition strip_comments_for_line_scan :: "string \<Rightarrow> bool \<Rightarrow> string \<times> bool" where
  "strip_comments_for_line_scan line in_block = strip_comments_loop [] in_block line"

fun normalize_loop :: "string \<Rightarrow> bool \<Rightarrow> string \<Rightarrow> string" where
  "normalize_loop out pending_space [] = out"
| "normalize_loop out pending_space (c # cs) =
     (if isspace c then normalize_loop out (out \<noteq> []) cs
      else normalize_loop ((if pending_space \<and> out \<noteq> [] then out @ '' '' else out) @ [c]) False cs)"

definition normalize_scan_directive_line :: "string \<Rightarrow> string" where
  "normalize_scan_directive_line line = normalize_loop [] False line"

definition scan_component_part :: "string \<Rightarrow> bool" where
  "scan_component_part part \<longleftrightarrow>
     part \<noteq> [] \<and> is_scan_identifier_start (hd part) \<and> list_all is_scan_identifier_continue (tl part)"

function scan_component_parts :: "string \<Rightarrow> bool" where
  "scan_component_parts s =
     (if s = [] then True
      else scan_component_part (takeWhile (\<lambda>c. c \<noteq> CHR ''.'') s)
           \<and> scan_component_parts (tl (dropWhile (\<lambda>c. c \<noteq> CHR ''.'') s)))"
  by pat_completeness auto
termination
proof (relation "measure length", goal_cases)
  case (2 s)
  have *: "length (tl t) < length s" if "length t \<le> length s" for t :: string
    using that 2 by (cases s) (auto simp: less_Suc_eq_le)
  show ?case using * [OF length_dropWhile_le] by simp
qed simp

declare scan_component_parts.simps [simp del]

definition is_valid_scan_module_component :: "string \<Rightarrow> bool" where
  "is_valid_scan_module_component text =
     (let text = trim_ascii_view text in text \<noteq> [] \<and> scan_component_parts text)"

definition canonicalize_scan_module_name :: "string \<Rightarrow> bool \<Rightarrow> string option" where
  "canonicalize_scan_module_name text allow_partition_only =
     (let text = trim_ascii_view text
      in if text = [] then None
         else if CHR '':'' \<notin> set text then (if is_valid_scan_module_component text then Some text else None)
         else let before_colon = takeWhile (\<lambda>c. c \<noteq> CHR '':'') text;
                  after_colon = tl (dropWhile (\<lambda>c. c \<noteq> CHR '':'') text)
              in if CHR '':'' \<in> set after_colon then None
                 else let primary = trim_ascii_view before_colon; partition = trim_ascii_view after_colon
                      in if partition = [] \<or> \<not> is_valid_scan_module_component partition then None
                         else if primary = [] then (if allow_partition_only then Some ('':'' @ partition) else None)
                         else if is_valid_scan_module_component primary then Some (primary @ '':'' @ partition)
                         else None)"

definition has_trailing_line_continuation :: "string \<Rightarrow> bool" where
  "has_trailing_line_continuation line = (let line = rtrim_ascii_view line in line \<noteq> [] \<and> last line = BS)"

definition strip_trailing_line_continuation :: "string \<Rightarrow> string" where
  "strip_trailing_line_continuation line =
     (let line = rtrim_ascii_view line
      in rtrim_ascii_view (if line \<noteq> [] \<and> last line = BS then butlast line else line))"

text \<open>The characters skipped here are blank, tab, carriage return and line feed only.\<close>

definition consume_scan_keyword :: "string \<Rightarrow> string \<Rightarrow> bool \<times> string" where
  "consume_scan_keyword cursor keyword =
     (let cursor = dropWhile (\<lambda>c. c \<in> {CHR '' '', CHR 0x09, CHR 0x0D, LF}) cursor; rest = drop (length keyword) cursor
      in if cursor = [] then (False, [])
         else if \<not> starts_with cursor keyword then (False, cursor)
         else if rest \<noteq> [] \<and> \<not> isspace (hd rest) \<and> hd rest \<notin> {CHR '';'', CHR ''<'', DQ, CHR '':''} then (False, cursor)
         else (True, rest))"

subsection \<open>State\<close>

record ScanConditionalFrame =
  parent_active :: bool
  branch_taken :: bool
  frame_active :: bool

record ScanStreamState =
  in_block_comment :: bool
  in_preprocessor_continuation :: bool
  current_branch_active :: bool
  pending_preprocessor :: string
  source_path :: string
  source_directory :: string
  include_search_paths :: "string list"
  object_like_macros :: "string \<rightharpoonup> string"
  conditionals :: "ScanConditionalFrame list"
  warn_on_unknown_conditions :: bool
  current_line :: nat
  pending_preprocessor_start_line :: nat
  has_warning_sink :: bool

definition initial_scan_state :: ScanStreamState where
  "initial_scan_state = \<lparr>in_block_comment = False, in_preprocessor_continuation = False, current_branch_active = True,
     pending_preprocessor = [], source_path = [], source_directory = [], include_search_paths = [],
     object_like_macros = Map.empty, conditionals = [], warn_on_unknown_conditions = True, current_line = 0,
     pending_preprocessor_start_line = 0, has_warning_sink = False\<rparr>"

record ProcessedScanLine =
  is_active_code :: bool
  is_preprocessor :: bool
  stripped :: string

subsection \<open>Macros from the command line\<close>

definition define_macro :: "string \<Rightarrow> (string \<rightharpoonup> string) \<Rightarrow> (string \<rightharpoonup> string)" where
  "define_macro d macros =
     (let name = takeWhile (\<lambda>c. c \<noteq> CHR ''='') d
      in if name = [] \<or> CHR ''('' \<in> set name then macros
         else if parse_scan_identifier name = None then macros
         else macros(name \<mapsto> (if CHR ''='' \<notin> set d then ''1'' else tl (dropWhile (\<lambda>c. c \<noteq> CHR ''='') d))))"

definition undefine_macro :: "string \<Rightarrow> (string \<rightharpoonup> string) \<Rightarrow> (string \<rightharpoonup> string)" where
  "undefine_macro d macros =
     (if d = [] \<or> CHR ''('' \<in> set d then macros
      else case parse_scan_identifier d of None \<Rightarrow> macros | Some ident \<Rightarrow> macros(ident := None))"

datatype consume_mode = No_Operand | Define_Operand | Undef_Operand

fun populate_macros :: "consume_mode \<Rightarrow> string list \<Rightarrow> (string \<rightharpoonup> string) \<Rightarrow> (string \<rightharpoonup> string)" where
  "populate_macros mode [] macros = macros"
| "populate_macros Define_Operand (a # as) macros = populate_macros No_Operand as (define_macro a macros)"
| "populate_macros Undef_Operand (a # as) macros = populate_macros No_Operand as (undefine_macro a macros)"
| "populate_macros No_Operand (a # as) macros =
     (if a = ''-D'' \<or> a = ''/D'' then populate_macros Define_Operand as macros
      else if a = ''-U'' \<or> a = ''/U'' then populate_macros Undef_Operand as macros
      else if starts_with a ''-D'' \<or> starts_with a ''/D'' then populate_macros No_Operand as (define_macro (drop 2 a) macros)
      else if starts_with a ''-U'' \<or> starts_with a ''/U'' then populate_macros No_Operand as (undefine_macro (drop 2 a) macros)
      else populate_macros No_Operand as macros)"

definition populate_scan_macros_from_command_line :: "string list \<Rightarrow> ScanStreamState \<Rightarrow> ScanStreamState" where
  "populate_scan_macros_from_command_line args st =
     st\<lparr>object_like_macros := populate_macros No_Operand args (object_like_macros st)\<rparr>"

subsection \<open>\<^verbatim>\<open>__has_include\<close>\<close>

text \<open>The operand of \<^verbatim>\<open>__has_include\<close> is followed through macros without a bound: with a cyclic
  definition the recursion does not end, which is the outer \<open>None\<close>.\<close>

partial_function (option) resolve_operand :: "(string \<rightharpoonup> string) \<Rightarrow> string \<Rightarrow> (string \<times> bool) option option" where
  "resolve_operand macros operand =
     (let operand = trim_ascii_view operand
      in if 2 \<le> length operand \<and> hd operand = DQ \<and> last operand = DQ then Some (Some (butlast (tl operand), False))
         else if 2 \<le> length operand \<and> hd operand = CHR ''<'' \<and> last operand = CHR ''>'' then
           Some (Some (butlast (tl operand), True))
         else case parse_scan_identifier operand of
                None \<Rightarrow> Some None
              | Some ident \<Rightarrow>
                  if ident = operand then
                    (case macros ident of None \<Rightarrow> Some None | Some body \<Rightarrow> resolve_operand macros (trim_ascii_view body))
                  else Some None)"

declare resolve_operand.simps [code]

text \<open>\<^verbatim>\<open>operator/\<close> of a POSIX path.\<close>

definition path_join :: "string \<Rightarrow> string \<Rightarrow> string" where
  "path_join dir name =
     (if starts_with name ''/'' then name
      else if dir = [] \<or> last dir = CHR ''/'' then dir @ name else dir @ ''/'' @ name)"

definition include_exists :: "(string \<Rightarrow> bool) \<Rightarrow> string \<Rightarrow> string list \<Rightarrow> string \<times> bool \<Rightarrow> bool" where
  "include_exists exists_file dir paths inc \<longleftrightarrow>
     (case inc of (name, angled) \<Rightarrow>
        \<not> angled \<and> dir \<noteq> [] \<and> exists_file (path_join dir name)
        \<or> list_ex (\<lambda>d. d \<noteq> [] \<and> exists_file (path_join d name)) paths)"

text \<open>The result is \<open>Some found\<close> when \<^verbatim>\<open>handled\<close> is set, \<open>None\<close> when it is not.\<close>

definition scan_has_include_literal ::
  "(string \<Rightarrow> bool) \<Rightarrow> string \<Rightarrow> string list \<Rightarrow> (string \<rightharpoonup> string) \<Rightarrow> string \<Rightarrow> bool option option" where
  "scan_has_include_literal exists_file dir paths macros expr =
     (let expr = trim_ascii_view expr
      in if \<not> starts_with expr ''__has_include'' then Some None
         else let expr = trim_ascii_view (drop (length ''__has_include'') expr)
              in if expr = [] \<or> hd expr \<noteq> CHR ''('' \<or> last expr \<noteq> CHR '')'' then Some None
                 else let expr = trim_ascii_view (butlast (tl expr))
                      in if length expr < 2 then Some None
                         else map_option (map_option (include_exists exists_file dir paths)) (resolve_operand macros expr))"

text \<open>The scan of a parenthesised operand: the characters up to the closing parenthesis and what follows.\<close>

fun operand_end :: "nat \<Rightarrow> string \<Rightarrow> string \<Rightarrow> (string \<times> string) option" where
  "operand_end depth acc [] = None"
| "operand_end depth acc (c # cs) =
     (if c = CHR ''('' then operand_end (Suc depth) (acc @ [c]) cs
      else if c = CHR '')'' then
        (if depth = 1 then Some (acc @ [c], cs) else operand_end (depth - 1) (acc @ [c]) cs)
      else operand_end depth (acc @ [c]) cs)"

lemma operand_end_shorter: "operand_end depth acc s = Some (a, t) \<Longrightarrow> length t < length s"
  by (induction depth acc s rule: operand_end.induct) (auto split: if_splits)

function rewrite_loop ::
  "(string \<Rightarrow> bool option option) \<Rightarrow> string \<Rightarrow> string \<Rightarrow> string option" where
  "rewrite_loop has_include out text =
     (if text = [] then Some out
      else if starts_with text ''__has_include'' then
        (let after = drop (length ''__has_include'') text; blanks = takeWhile isspace after; rest = dropWhile isspace after
         in if rest = [] \<or> hd rest \<noteq> CHR ''('' then rewrite_loop has_include (out @ ''__has_include'' @ blanks) rest
            else case operand_end 0 [] rest of
                   None \<Rightarrow> Some (out @ text)
                 | Some (operand, tail) \<Rightarrow>
                     let call = ''__has_include'' @ blanks @ operand
                     in (case has_include call of
                           None \<Rightarrow> None
                         | Some handled \<Rightarrow>
                             rewrite_loop has_include
                               (out @ (case handled of None \<Rightarrow> call | Some True \<Rightarrow> ''1'' | Some False \<Rightarrow> ''0'')) tail))
      else rewrite_loop has_include (out @ [hd text]) (tl text))"
  by pat_completeness auto
termination
proof (relation "measure (\<lambda>(_, _, s). length s)", goal_cases)
  case 1
  then show ?case by simp
next
  case (2 has_include out s after blanks rest)
  have "length (dropWhile isspace after) \<le> length after" by (rule length_dropWhile_le)
  then show ?case using 2 starts_with_length [of s "''__has_include''"] by simp
next
  case (3 has_include out s after blanks rest a tail)
  then show ?case
    using length_dropWhile_le [of isspace after] starts_with_length [of s "''__has_include''"]
    by (auto dest!: operand_end_shorter)
next
  case (4 has_include out s)
  then show ?case by (cases s) auto
qed

declare rewrite_loop.simps [simp del]

definition rewrite_scan_has_include_operators ::
  "(string \<Rightarrow> bool) \<Rightarrow> string \<Rightarrow> string list \<Rightarrow> (string \<rightharpoonup> string) \<Rightarrow> string \<Rightarrow> string option" where
  "rewrite_scan_has_include_operators exists_file dir paths macros text =
     rewrite_loop (scan_has_include_literal exists_file dir paths macros) [] text"

definition evaluate_simple_preprocessor_condition ::
  "(string \<Rightarrow> bool) \<Rightarrow> string \<Rightarrow> string list \<Rightarrow> (string \<rightharpoonup> string) \<Rightarrow> string \<Rightarrow> bool pp" where
  "evaluate_simple_preprocessor_condition exists_file dir paths macros text =
     (let text = trim_ascii_view text
      in if text = [] then Unknown
         else case rewrite_scan_has_include_operators exists_file dir paths macros text of
                None \<Rightarrow> Undefined
              | Some rewritten \<Rightarrow> bindP (scan_parse macros 32 rewritten) (\<lambda>v. Value (v \<noteq> 0)))"

subsection \<open>Directives\<close>

definition update_preprocessor_branch_state :: "ScanStreamState \<Rightarrow> ScanStreamState" where
  "update_preprocessor_branch_state st =
     st\<lparr>current_branch_active := (case conditionals st of [] \<Rightarrow> True | f # _ \<Rightarrow> frame_active f)\<rparr>"

datatype scan_warning = To_Sink string nat string string | To_Stderr string

record scan_log =
  warned_conditions :: "string list"
  warnings :: "scan_warning list"

definition warn_unknown_preprocessor_condition ::
  "string \<Rightarrow> string \<Rightarrow> nat \<Rightarrow> ScanStreamState \<Rightarrow> scan_log \<Rightarrow> scan_log" where
  "warn_unknown_preprocessor_condition keyword expr line st lg =
     (let normalized = trim_ascii_view expr;
          source = (if source_path st = [] then ''<unknown>'' else source_path st);
          key = source @ '':'' @ show_nat line @ '':'' @ keyword @ '':'' @ normalized
      in if \<not> warn_on_unknown_conditions st \<or> keyword = [] \<or> normalized = [] \<or> key \<in> set (warned_conditions lg) then lg
         else let lg = lg\<lparr>warned_conditions := key # warned_conditions lg\<rparr>
              in if has_warning_sink st then lg\<lparr>warnings := warnings lg @ [To_Sink source line keyword normalized]\<rparr>
                 else lg\<lparr>warnings := warnings lg @ [To_Stderr
                   (''gentest_codegen: warning: unable to evaluate preprocessor condition during module/import scan at ''
                    @ source @ '':'' @ show_nat line @ ''; treating #'' @ keyword @ '' branch as inactive: ''
                    @ normalized @ [LF])]\<rparr>)"

definition push_frame :: "bool \<Rightarrow> ScanStreamState \<Rightarrow> ScanStreamState" where
  "push_frame branch_active st =
     update_preprocessor_branch_state
       (st\<lparr>conditionals := \<lparr>parent_active = current_branch_active st, branch_taken = branch_active,
                          frame_active = branch_active\<rparr> # conditionals st\<rparr>)"

definition state_condition :: "(string \<Rightarrow> bool) \<Rightarrow> ScanStreamState \<Rightarrow> string \<Rightarrow> bool pp" where
  "state_condition exists_file st =
     evaluate_simple_preprocessor_condition exists_file (source_directory st) (include_search_paths st) (object_like_macros st)"

definition handle_if ::
  "(string \<Rightarrow> bool) \<Rightarrow> string \<Rightarrow> nat \<Rightarrow> ScanStreamState \<times> scan_log \<Rightarrow> (ScanStreamState \<times> scan_log) option" where
  "handle_if exists_file rest line sl =
     (case sl of (st, lg) \<Rightarrow>
        let evaluated = state_condition exists_file st rest
        in if evaluated = Undefined then None
           else let lg = (if current_branch_active st \<and> evaluated = Unknown
                          then warn_unknown_preprocessor_condition ''if'' rest line st lg else lg)
                in Some (push_frame (current_branch_active st \<and> evaluated = Value True) st, lg))"

definition handle_ifdef :: "bool \<Rightarrow> string \<Rightarrow> ScanStreamState \<Rightarrow> ScanStreamState" where
  "handle_ifdef want_defined rest st =
     (let is_defined = (case parse_scan_identifier rest of None \<Rightarrow> False | Some ident \<Rightarrow> object_like_macros st ident \<noteq> None)
      in push_frame (current_branch_active st \<and> (is_defined = want_defined)) st)"

definition set_branch :: "bool \<Rightarrow> bool \<Rightarrow> ScanConditionalFrame \<Rightarrow> ScanConditionalFrame" where
  "set_branch branch_active taken f = f\<lparr>frame_active := branch_active, branch_taken := taken\<rparr>"

definition handle_elif ::
  "(string \<Rightarrow> bool) \<Rightarrow> string \<Rightarrow> nat \<Rightarrow> ScanStreamState \<times> scan_log \<Rightarrow> (ScanStreamState \<times> scan_log) option" where
  "handle_elif exists_file rest line sl =
     (case sl of (st, lg) \<Rightarrow>
        (case conditionals st of
           [] \<Rightarrow> Some (st, lg)
         | f # fs \<Rightarrow>
             let evaluated = state_condition exists_file st rest
             in if evaluated = Undefined then None
                else let lg = (if parent_active f \<and> \<not> branch_taken f \<and> evaluated = Unknown
                               then warn_unknown_preprocessor_condition ''elif'' rest line st lg else lg);
                         branch_active = (parent_active f \<and> \<not> branch_taken f \<and> evaluated = Value True)
                     in Some (update_preprocessor_branch_state
                                (st\<lparr>conditionals := set_branch branch_active (branch_taken f \<or> branch_active) f # fs\<rparr>), lg)))"

definition handle_else :: "ScanStreamState \<Rightarrow> ScanStreamState" where
  "handle_else st =
     (case conditionals st of
        [] \<Rightarrow> st
      | f # fs \<Rightarrow> update_preprocessor_branch_state
                  (st\<lparr>conditionals := set_branch (parent_active f \<and> \<not> branch_taken f) True f # fs\<rparr>))"

definition handle_endif :: "ScanStreamState \<Rightarrow> ScanStreamState" where
  "handle_endif st = update_preprocessor_branch_state (st\<lparr>conditionals := tl (conditionals st)\<rparr>)"

definition apply_define_undef :: "string \<Rightarrow> string \<Rightarrow> (string \<rightharpoonup> string) \<Rightarrow> (string \<rightharpoonup> string)" where
  "apply_define_undef keyword rest macros =
     (if keyword = ''define'' then
        (case parse_scan_identifier rest of
           None \<Rightarrow> macros
         | Some ident \<Rightarrow>
             let remainder = trim_ascii_view (drop (length ident) rest)
             in if remainder \<noteq> [] \<and> hd remainder = CHR ''('' then macros else macros(ident \<mapsto> remainder))
      else if keyword = ''undef'' then
        (case parse_scan_identifier rest of None \<Rightarrow> macros | Some ident \<Rightarrow> macros(ident := None))
      else macros)"

definition directive_parts :: "string \<Rightarrow> (string \<times> string) option" where
  "directive_parts raw =
     (let cursor = ltrim_ascii_view raw
      in if cursor = [] \<or> hd cursor \<noteq> CHR ''#'' then None
         else let cursor = ltrim_ascii_view (tl cursor)
              in Some (takeWhile isalpha cursor, trim_ascii_view (dropWhile isalpha cursor)))"

definition handle_preprocessor_logical_line ::
  "(string \<Rightarrow> bool) \<Rightarrow> string \<Rightarrow> nat \<Rightarrow> ScanStreamState \<times> scan_log \<Rightarrow> (ScanStreamState \<times> scan_log) option" where
  "handle_preprocessor_logical_line exists_file raw line sl =
     (case directive_parts raw of
        None \<Rightarrow> Some sl
      | Some (keyword, rest) \<Rightarrow>
          let (st, lg) = sl
          in if keyword = ''if'' then handle_if exists_file rest line (st, lg)
             else if keyword = ''ifdef'' \<or> keyword = ''ifndef'' then Some (handle_ifdef (keyword = ''ifdef'') rest st, lg)
             else if keyword = ''elif'' then handle_elif exists_file rest line (st, lg)
             else if keyword = ''else'' then Some (handle_else st, lg)
             else if keyword = ''endif'' then Some (handle_endif st, lg)
             else if \<not> current_branch_active st then Some (st, lg)
             else Some (st\<lparr>object_like_macros := apply_define_undef keyword rest (object_like_macros st)\<rparr>, lg))"

definition pend_line :: "string \<Rightarrow> ScanStreamState \<Rightarrow> ScanStreamState" where
  "pend_line trimmed st =
     (if trimmed = [] then st
      else st\<lparr>pending_preprocessor_start_line :=
               (if pending_preprocessor st = [] then current_line st else pending_preprocessor_start_line st),
             pending_preprocessor :=
               (if pending_preprocessor st = [] then [] else pending_preprocessor st @ '' '') @ trimmed\<rparr>)"

definition process_scan_physical_line ::
  "(string \<Rightarrow> bool) \<Rightarrow> string \<Rightarrow> ScanStreamState \<times> scan_log
     \<Rightarrow> (ProcessedScanLine \<times> ScanStreamState \<times> scan_log) option" where
  "process_scan_physical_line exists_file raw sl =
     (let (st, lg) = sl;
          (text, in_block) = strip_comments_for_line_scan raw (in_block_comment st);
          st = st\<lparr>current_line := Suc (current_line st), in_block_comment := in_block\<rparr>;
          trimmed = trim_ascii_view text
      in if in_preprocessor_continuation st \<or> trimmed \<noteq> [] \<and> hd trimmed = CHR ''#'' then
           let processed = \<lparr>is_active_code = False, is_preprocessor = True, stripped = []\<rparr>;
               st = pend_line trimmed st;
               continued = has_trailing_line_continuation trimmed;
               st = st\<lparr>in_preprocessor_continuation := continued\<rparr>
           in if continued then
                Some (processed, st\<lparr>pending_preprocessor := strip_trailing_line_continuation (pending_preprocessor st)\<rparr>, lg)
              else if pending_preprocessor st \<noteq> [] then
                map_option (\<lambda>(st, lg). (processed, st\<lparr>pending_preprocessor := [], pending_preprocessor_start_line := 0\<rparr>, lg))
                  (handle_preprocessor_logical_line exists_file (pending_preprocessor st)
                     (pending_preprocessor_start_line st) (st, lg))
              else Some (processed, st, lg)
         else if \<not> current_branch_active st then
           Some (\<lparr>is_active_code = False, is_preprocessor = False, stripped = []\<rparr>, st, lg)
         else Some (\<lparr>is_active_code = (trimmed \<noteq> []), is_preprocessor = False, stripped = trimmed\<rparr>, st, lg))"

subsection \<open>The stack of conditional groups\<close>

fun top_active :: "ScanConditionalFrame list \<Rightarrow> bool" where
  "top_active [] = True"
| "top_active (f # fs) = frame_active f"

fun frames_ok :: "ScanConditionalFrame list \<Rightarrow> bool" where
  "frames_ok [] = True"
| "frames_ok (f # fs) \<longleftrightarrow>
     (frame_active f \<longrightarrow> parent_active f \<and> branch_taken f) \<and> parent_active f = top_active fs \<and> frames_ok fs"

definition scan_state_ok :: "ScanStreamState \<Rightarrow> bool" where
  "scan_state_ok st \<longleftrightarrow> frames_ok (conditionals st) \<and> current_branch_active st = top_active (conditionals st)"

lemma update_branch_active:
  "update_preprocessor_branch_state st = st\<lparr>current_branch_active := top_active (conditionals st)\<rparr>"
  by (simp add: update_preprocessor_branch_state_def split: list.split)

lemma push_frame_ok [invar_intros]:
  assumes "scan_state_ok st" and "b \<longrightarrow> current_branch_active st"
  shows "scan_state_ok (push_frame b st)"
  using assms by (auto simp: scan_state_ok_def push_frame_def update_branch_active)

lemma handle_if_ok:
  assumes "scan_state_ok st" and "handle_if ex rest line (st, lg) = Some (st', lg')"
  shows "scan_state_ok st'"
  using assms by (auto simp: handle_if_def Let_def split: if_splits intro!: push_frame_ok)

lemma handle_ifdef_ok [invar_intros]: "scan_state_ok st \<Longrightarrow> scan_state_ok (handle_ifdef w rest st)"
  by (simp add: handle_ifdef_def Let_def push_frame_ok)

lemma handle_elif_ok:
  assumes "scan_state_ok st" and "handle_elif ex rest line (st, lg) = Some (st', lg')"
  shows "scan_state_ok st'"
  using assms
  by (auto simp: handle_elif_def Let_def set_branch_def scan_state_ok_def update_branch_active split: if_splits list.splits)

lemma handle_else_ok [invar_intros]: "scan_state_ok st \<Longrightarrow> scan_state_ok (handle_else st)"
  by (auto simp: handle_else_def set_branch_def scan_state_ok_def update_branch_active split: list.splits)

lemma frames_ok_tl: "frames_ok fs \<Longrightarrow> frames_ok (tl fs)"
  by (cases fs) auto

lemma handle_endif_ok [invar_intros]: "scan_state_ok st \<Longrightarrow> scan_state_ok (handle_endif st)"
  by (auto simp: handle_endif_def scan_state_ok_def update_branch_active frames_ok_tl)

lemma handle_line_ok:
  assumes "scan_state_ok st" and "handle_preprocessor_logical_line ex raw line (st, lg) = Some (st', lg')"
  shows "scan_state_ok st'"
proof (cases "directive_parts raw")
  case None
  then show ?thesis using assms by (simp add: handle_preprocessor_logical_line_def)
next
  case (Some kr)
  have same: "scan_state_ok (st\<lparr>object_like_macros := m\<rparr>)" for m
    using assms(1) by (simp add: scan_state_ok_def)
  show ?thesis
    using assms Some handle_if_ok [OF assms(1)] handle_elif_ok [OF assms(1)]
    by (auto simp: handle_preprocessor_logical_line_def same intro: invar_intros split: prod.splits if_splits)
qed

lemma process_line_ok:
  assumes "scan_state_ok st" and "process_scan_physical_line ex raw (st, lg) = Some (p, st', lg')"
  shows "scan_state_ok st'"
proof -
  have same: "scan_state_ok (st\<lparr>current_line := a, in_block_comment := b\<rparr>)"
    "\<And>s c. scan_state_ok (pend_line t s\<lparr>in_preprocessor_continuation := c\<rparr>) = scan_state_ok s"
    "\<And>s c. scan_state_ok (s\<lparr>pending_preprocessor := c\<rparr>) = scan_state_ok s"
    "\<And>s c d. scan_state_ok (s\<lparr>pending_preprocessor := c, pending_preprocessor_start_line := d\<rparr>) = scan_state_ok s"
    for a b t
    using assms(1) by (auto simp: scan_state_ok_def pend_line_def)
  show ?thesis
    using assms(2)
    by (auto simp: process_scan_physical_line_def Let_def same split: prod.splits if_splits dest!: handle_line_ok [rotated])
qed

fun scan_lines ::
  "(string \<Rightarrow> bool) \<Rightarrow> string list \<Rightarrow> ScanStreamState \<times> scan_log
     \<Rightarrow> (ProcessedScanLine list \<times> ScanStreamState \<times> scan_log) option" where
  "scan_lines ex [] sl = Some ([], sl)"
| "scan_lines ex (s # ss) sl =
     (case process_scan_physical_line ex s sl of
        None \<Rightarrow> None
      | Some (p, sl) \<Rightarrow> map_option (\<lambda>(ps, sl). (p # ps, sl)) (scan_lines ex ss sl))"

lemma scan_lines_ok:
  assumes "scan_state_ok st" and "scan_lines ex ls (st, lg) = Some (ps, st', lg')"
  shows "scan_state_ok st'"
  using assms
  by (induction ls arbitrary: st lg ps) (auto split: option.splits dest: process_line_ok)

lemma top_active_all: "frames_ok fs \<Longrightarrow> top_active fs = list_all frame_active fs"
  by (induction fs) (auto split: list.splits)

text \<open>
  After any lines, a line is handed on as active code exactly if every conditional group that is
  open has its active branch there: an inactive group is never reopened by what it encloses.
\<close>

theorem active_iff_every_group_active:
  assumes "scan_state_ok st" and "scan_lines ex ls (st, lg) = Some (ps, st', lg')"
  shows "current_branch_active st' \<longleftrightarrow> list_all frame_active (conditionals st')"
  using scan_lines_ok [OF assms] by (simp add: scan_state_ok_def top_active_all)

subsection \<open>Structured sources\<close>

text \<open>A source whose conditional groups are closed, as a tree: lines and groups; what it prints to,
  and which lines the rules of the preprocessor select from it.\<close>

datatype scan_block =
    Done
  | Line string scan_block
  | Group string scan_block scan_chain scan_block
and scan_chain =
    Elif string scan_block scan_chain
  | Else scan_block
  | Endif

primrec print_block :: "scan_block \<Rightarrow> string list" and print_chain :: "scan_chain \<Rightarrow> string list" where
  "print_block Done = []"
| "print_block (Line s b) = s # print_block b"
| "print_block (Group c body ch b) = (''#if '' @ c) # print_block body @ print_chain ch @ print_block b"
| "print_chain (Elif c body ch) = (''#elif '' @ c) # print_block body @ print_chain ch"
| "print_chain (Else body) = ''#else'' # print_block body @ [''#endif'']"
| "print_chain Endif = [''#endif'']"

definition is_directive :: "string \<Rightarrow> bool" where
  "is_directive s \<longleftrightarrow> trim_ascii_view s \<noteq> [] \<and> hd (trim_ascii_view s) = CHR ''#''"

definition select_line :: "bool \<Rightarrow> string \<Rightarrow> (string \<rightharpoonup> string) \<Rightarrow> string list \<times> (string \<rightharpoonup> string)" where
  "select_line act s m =
     (if is_directive s then
        ([], case directive_parts s of Some (keyword, rest) \<Rightarrow> if act then apply_define_undef keyword rest m else m | None \<Rightarrow> m)
      else (if act \<and> trim_ascii_view s \<noteq> [] then [trim_ascii_view s] else [], m))"

fun then_select ::
  "(string list \<times> (string \<rightharpoonup> string)) option \<Rightarrow> ((string \<rightharpoonup> string) \<Rightarrow> (string list \<times> (string \<rightharpoonup> string)) option)
     \<Rightarrow> (string list \<times> (string \<rightharpoonup> string)) option" where
  "then_select None f = None"
| "then_select (Some (ls, m)) f = map_option (apfst ((@) ls)) (f m)"

primrec select_block ::
  "((string \<rightharpoonup> string) \<Rightarrow> string \<Rightarrow> bool pp) \<Rightarrow> scan_block \<Rightarrow> bool \<Rightarrow> (string \<rightharpoonup> string)
     \<Rightarrow> (string list \<times> (string \<rightharpoonup> string)) option"
and select_chain ::
  "((string \<rightharpoonup> string) \<Rightarrow> string \<Rightarrow> bool pp) \<Rightarrow> scan_chain \<Rightarrow> bool \<Rightarrow> bool \<Rightarrow> (string \<rightharpoonup> string)
     \<Rightarrow> (string list \<times> (string \<rightharpoonup> string)) option"
where
  "select_block cond Done act m = Some ([], m)"
| "select_block cond (Line s b) act m = then_select (Some (select_line act s m)) (select_block cond b act)"
| "select_block cond (Group c body ch b) act m =
     (let v = cond m (trim_ascii_view c); here = (act \<and> v = Value True)
      in if v = Undefined then None
         else then_select (select_block cond body here m)
                (\<lambda>m. then_select (select_chain cond ch act here m) (select_block cond b act)))"
| "select_chain cond (Elif c body ch) parent taken m =
     (let v = cond m (trim_ascii_view c); here = (parent \<and> \<not> taken \<and> v = Value True)
      in if v = Undefined then None
         else then_select (select_block cond body here m) (select_chain cond ch parent (taken \<or> here)))"
| "select_chain cond (Else body) parent taken m = select_block cond body (parent \<and> \<not> taken) m"
| "select_chain cond Endif parent taken m = Some ([], m)"

text \<open>Lines without comments and continuations; a line of its own is no conditional directive.\<close>

definition line_ok :: "string \<Rightarrow> bool" where
  "line_ok s \<longleftrightarrow> strip_comments_for_line_scan s False = (s, False) \<and> \<not> has_trailing_line_continuation (trim_ascii_view s)"

definition plain_line :: "string \<Rightarrow> bool" where
  "plain_line s \<longleftrightarrow> line_ok s \<and>
     (case directive_parts s of
        None \<Rightarrow> True
      | Some (keyword, _) \<Rightarrow> keyword \<notin> {''if'', ''ifdef'', ''ifndef'', ''elif'', ''else'', ''endif''})"

primrec block_ok :: "scan_block \<Rightarrow> bool" and chain_ok :: "scan_chain \<Rightarrow> bool" where
  "block_ok Done \<longleftrightarrow> True"
| "block_ok (Line s b) \<longleftrightarrow> plain_line s \<and> block_ok b"
| "block_ok (Group c body ch b) \<longleftrightarrow> line_ok (''#if '' @ c) \<and> block_ok body \<and> chain_ok ch \<and> block_ok b"
| "chain_ok (Elif c body ch) \<longleftrightarrow> line_ok (''#elif '' @ c) \<and> block_ok body \<and> chain_ok ch"
| "chain_ok (Else body) \<longleftrightarrow> block_ok body"
| "chain_ok Endif \<longleftrightarrow> True"

text \<open>Between lines: no open comment, no continued directive.\<close>

definition scan_ready :: "ScanStreamState \<Rightarrow> bool" where
  "scan_ready st \<longleftrightarrow> \<not> in_block_comment st \<and> \<not> in_preprocessor_continuation st \<and> pending_preprocessor st = []
     \<and> current_branch_active st = top_active (conditionals st)"

definition active_text :: "ProcessedScanLine list \<Rightarrow> string list" where
  "active_text ps = map stripped (filter is_active_code ps)"

definition scan_summary ::
  "(ProcessedScanLine list \<times> ScanStreamState \<times> scan_log) option \<Rightarrow> (string list \<times> (string \<rightharpoonup> string)) option" where
  "scan_summary = map_option (\<lambda>(ps, st, _). (active_text ps, object_like_macros st))"

subsection \<open>Text of directives\<close>

lemma trim_Nil [simp]: "trim_ascii_view [] = []"
  by (simp add: trim_ascii_view_def ltrim_ascii_view_def rtrim_ascii_view_def)

lemma rtrim_split:
  obtains sp where "s = rtrim_ascii_view s @ sp" and "list_all isspace sp"
proof
  show "s = rtrim_ascii_view s @ rev (takeWhile isspace (rev s))"
    unfolding rtrim_ascii_view_def by (metis rev_append rev_rev_ident takeWhile_dropWhile_id)
  show "list_all isspace (rev (takeWhile isspace (rev s)))"
    by (auto simp: list_all_iff dest: set_takeWhileD)
qed

lemma rtrim_append_space: "list_all isspace sp \<Longrightarrow> rtrim_ascii_view (s @ sp) = rtrim_ascii_view s"
  using dropWhile_append2 [of "rev sp" isspace "rev s"] by (simp add: rtrim_ascii_view_def list_all_iff)

lemma ltrim_append_space:
  "list_all isspace sp \<Longrightarrow> ltrim_ascii_view (s @ sp) = (if list_all isspace s then [] else ltrim_ascii_view s @ sp)"
  by (auto simp: ltrim_ascii_view_def dropWhile_append list_all_iff)

lemma trim_append_space: "list_all isspace sp \<Longrightarrow> trim_ascii_view (s @ sp) = trim_ascii_view s"
proof -
  assume sp: "list_all isspace sp"
  show ?thesis
  proof (cases "list_all isspace s")
    case True
    then have "ltrim_ascii_view s = []" by (simp add: ltrim_ascii_view_def list_all_iff)
    then show ?thesis using True sp by (simp add: trim_ascii_view_def ltrim_append_space)
  next
    case False
    then show ?thesis using sp by (simp add: trim_ascii_view_def ltrim_append_space rtrim_append_space)
  qed
qed

lemma alpha_not_space: "isspace c \<Longrightarrow> \<not> isalpha c"
  by (auto simp: isalpha_def isspace_def)

lemma alpha_prefix_space:
  assumes "list_all isspace sp"
  shows "takeWhile isalpha (s @ sp) = takeWhile isalpha s" "dropWhile isalpha (s @ sp) = dropWhile isalpha s @ sp"
proof -
  have "takeWhile isalpha sp = []" "dropWhile isalpha sp = sp"
    using assms by (cases sp; simp add: alpha_not_space)+
  then show "takeWhile isalpha (s @ sp) = takeWhile isalpha s" "dropWhile isalpha (s @ sp) = dropWhile isalpha s @ sp"
    by (induction s) auto
qed

lemma ltrim_idem: "ltrim_ascii_view (ltrim_ascii_view s) = ltrim_ascii_view s"
  by (simp add: ltrim_ascii_view_def dropWhile_idem)

lemma directive_parts_append_space:
  assumes "list_all isspace sp"
  shows "directive_parts (s @ sp) = directive_parts s"
proof (cases "ltrim_ascii_view s")
  case Nil
  then have "list_all isspace s" by (simp add: ltrim_ascii_view_def list_all_iff dropWhile_eq_Nil_conv)
  then show ?thesis using assms Nil by (simp add: directive_parts_def ltrim_append_space)
next
  case (Cons c cs)
  then have s: "\<not> list_all isspace s"
    using dropWhile_eq_Nil_conv [of isspace s] by (auto simp: ltrim_ascii_view_def list_all_iff)
  have "ltrim_ascii_view (cs @ sp) = ltrim_ascii_view cs @ (if ltrim_ascii_view cs = [] then [] else sp)"
    using assms dropWhile_eq_Nil_conv [of isspace cs]
    by (auto simp: ltrim_append_space) (auto simp: ltrim_ascii_view_def list_all_iff)
  then show ?thesis
    using assms Cons s
    by (simp add: directive_parts_def ltrim_append_space alpha_prefix_space trim_append_space Let_def)
qed

lemma directive_parts_trim: "directive_parts (trim_ascii_view s) = directive_parts s"
proof -
  have "directive_parts (ltrim_ascii_view s) = directive_parts s" by (simp add: directive_parts_def ltrim_idem)
  then show ?thesis
    using rtrim_split [of "ltrim_ascii_view s"] directive_parts_append_space
    unfolding trim_ascii_view_def by metis
qed

subsection \<open>One line\<close>

definition directive_line :: ProcessedScanLine where
  "directive_line = \<lparr>is_active_code = False, is_preprocessor = True, stripped = []\<rparr>"

definition at_directive :: "string \<Rightarrow> ScanStreamState \<Rightarrow> ScanStreamState" where
  "at_directive s st =
     st\<lparr>current_line := Suc (current_line st), in_block_comment := False,
        pending_preprocessor_start_line := Suc (current_line st), pending_preprocessor := trim_ascii_view s,
        in_preprocessor_continuation := False\<rparr>"

definition after_directive :: "ScanStreamState \<Rightarrow> ScanStreamState" where
  "after_directive st = st\<lparr>pending_preprocessor := [], pending_preprocessor_start_line := 0\<rparr>"

lemma process_directive:
  assumes "scan_ready st" and "line_ok s" and "is_directive s"
  shows "process_scan_physical_line ex s (st, lg) =
     map_option (\<lambda>(st, lg). (directive_line, after_directive st, lg))
       (handle_preprocessor_logical_line ex (trim_ascii_view s) (Suc (current_line st)) (at_directive s st, lg))"
  using assms
  by (simp add: process_scan_physical_line_def scan_ready_def line_ok_def is_directive_def pend_line_def Let_def
      at_directive_def after_directive_def directive_line_def)

lemma process_code:
  assumes "scan_ready st" and "line_ok s" and "\<not> is_directive s"
  shows "process_scan_physical_line ex s (st, lg) =
     Some (\<lparr>is_active_code = (current_branch_active st \<and> trim_ascii_view s \<noteq> []), is_preprocessor = False,
            stripped = (if current_branch_active st then trim_ascii_view s else [])\<rparr>,
       st\<lparr>current_line := Suc (current_line st), in_block_comment := False\<rparr>, lg)"
  using assms
  by (simp add: process_scan_physical_line_def scan_ready_def line_ok_def is_directive_def Let_def)

text \<open>What a line leaves as it is.\<close>

definition scan_same :: "ScanStreamState \<Rightarrow> ScanStreamState \<Rightarrow> bool" where
  "scan_same st st' \<longleftrightarrow> source_directory st' = source_directory st \<and> include_search_paths st' = include_search_paths st"

lemma scan_same_trans [trans]: "scan_same a b \<Longrightarrow> scan_same b c \<Longrightarrow> scan_same a c"
  by (simp add: scan_same_def)

definition scan_condition :: "(string \<Rightarrow> bool) \<Rightarrow> ScanStreamState \<Rightarrow> (string \<rightharpoonup> string) \<Rightarrow> string \<Rightarrow> bool pp" where
  "scan_condition ex st = evaluate_simple_preprocessor_condition ex (source_directory st) (include_search_paths st)"

lemma scan_condition_same: "scan_same st st' \<Longrightarrow> scan_condition ex st' = scan_condition ex st"
  by (simp add: scan_condition_def scan_same_def)

definition scan_step :: "ScanStreamState \<Rightarrow> ScanStreamState \<Rightarrow> (string \<rightharpoonup> string) \<Rightarrow> ScanConditionalFrame list \<Rightarrow> bool" where
  "scan_step st st' m fs \<longleftrightarrow>
     scan_ready st' \<and> scan_same st st' \<and> object_like_macros st' = m \<and> conditionals st' = fs"

lemma scan_stepD:
  assumes "scan_step st st' m fs"
  shows "scan_ready st'" "scan_same st st'" "object_like_macros st' = m" "conditionals st' = fs"
    "current_branch_active st' = top_active fs"
  using assms by (simp_all add: scan_step_def scan_ready_def)

lemma if_parts:
  "directive_parts (''#if '' @ c) = Some (''if'', trim_ascii_view c)"
  "directive_parts (''#elif '' @ c) = Some (''elif'', trim_ascii_view c)"
  "directive_parts ''#else'' = Some (''else'', [])"
  "directive_parts ''#endif'' = Some (''endif'', [])"
  by (simp_all add: directive_parts_def ltrim_ascii_view_def isspace_def isalpha_def trim_ascii_view_def Let_def
      rtrim_ascii_view_def)

lemma hash_is_directive:
  assumes "s = CHR ''#'' # t"
  shows "is_directive s"
proof -
  have "trim_ascii_view s \<noteq> [] \<and> hd (trim_ascii_view s) = CHR ''#''"
  proof -
    have l: "ltrim_ascii_view s = s" using assms by (simp add: ltrim_ascii_view_def isspace_def)
    obtain sp where sp: "s = rtrim_ascii_view s @ sp" "list_all isspace sp" by (rule rtrim_split)
    have "\<not> isspace CHR ''#''" by (simp add: isspace_def)
    then have "rtrim_ascii_view s \<noteq> []" using sp assms by (cases "rtrim_ascii_view s") auto
    then have "hd (rtrim_ascii_view s) = hd s" using sp(1) by (metis hd_append2)
    then show ?thesis using l assms \<open>rtrim_ascii_view s \<noteq> []\<close> by (simp add: trim_ascii_view_def)
  qed
  then show ?thesis by (simp add: is_directive_def)
qed

lemma step_if:
  assumes st: "scan_ready st" and ok: "line_ok (''#if '' @ c)"
    and v: "v = scan_condition ex st (object_like_macros st) (trim_ascii_view c)" and here: "here = (current_branch_active st \<and> v = Value True)"
  shows "if v = Undefined then process_scan_physical_line ex (''#if '' @ c) (st, lg) = None
     else \<exists>st' lg'. process_scan_physical_line ex (''#if '' @ c) (st, lg) = Some (directive_line, st', lg')
       \<and> scan_step st st' (object_like_macros st)
           (\<lparr>parent_active = current_branch_active st, branch_taken = here, frame_active = here\<rparr> # conditionals st)"
proof -
  have "is_directive (''#if '' @ c)" by (rule hash_is_directive) simp
  note p = process_directive [OF st ok this, of ex lg]
  have h: "handle_preprocessor_logical_line ex (trim_ascii_view (''#if '' @ c)) k (at_directive (''#if '' @ c) st, lg) =
      handle_if ex (trim_ascii_view c) k (at_directive (''#if '' @ c) st, lg)" for k
    by (simp only: handle_preprocessor_logical_line_def directive_parts_trim if_parts) simp
  show ?thesis
    unfolding p h
    by (auto simp: v here handle_if_def state_condition_def scan_condition_def at_directive_def Let_def push_frame_def update_branch_active
        scan_step_def scan_same_def scan_ready_def after_directive_def)
qed

lemmas step_defs = state_condition_def scan_condition_def at_directive_def Let_def update_branch_active set_branch_def
  scan_step_def scan_same_def scan_ready_def after_directive_def

lemma step_elif:
  assumes st: "scan_ready st" and ok: "line_ok (''#elif '' @ c)" and fs: "conditionals st = f # fs"
    and v: "v = scan_condition ex st (object_like_macros st) (trim_ascii_view c)"
    and here: "here = (parent_active f \<and> \<not> branch_taken f \<and> v = Value True)"
  shows "if v = Undefined then process_scan_physical_line ex (''#elif '' @ c) (st, lg) = None
     else \<exists>st' lg'. process_scan_physical_line ex (''#elif '' @ c) (st, lg) = Some (directive_line, st', lg')
       \<and> scan_step st st' (object_like_macros st) (set_branch here (branch_taken f \<or> here) f # fs)"
proof -
  have "is_directive (''#elif '' @ c)" by (rule hash_is_directive) simp
  note p = process_directive [OF st ok this, of ex lg]
  have h: "handle_preprocessor_logical_line ex (trim_ascii_view (''#elif '' @ c)) k (at_directive (''#elif '' @ c) st, lg) =
      handle_elif ex (trim_ascii_view c) k (at_directive (''#elif '' @ c) st, lg)" for k
    by (simp only: handle_preprocessor_logical_line_def directive_parts_trim if_parts) simp
  show ?thesis
    unfolding p h by (auto simp: v here fs handle_elif_def step_defs)
qed

lemma fixed_lines_ok: "line_ok ''#else''" "line_ok ''#endif''"
  by code_simp+

lemma step_else:
  assumes st: "scan_ready st" and fs: "conditionals st = f # fs" and here: "here = (parent_active f \<and> \<not> branch_taken f)"
  shows "\<exists>st' lg'. process_scan_physical_line ex ''#else'' (st, lg) = Some (directive_line, st', lg')
     \<and> scan_step st st' (object_like_macros st) (set_branch here True f # fs)"
proof -
  have "is_directive ''#else''" by (rule hash_is_directive) simp
  note p = process_directive [OF st fixed_lines_ok(1) this, of ex lg]
  have h: "handle_preprocessor_logical_line ex (trim_ascii_view ''#else'') k (at_directive ''#else'' st, lg) =
      Some (handle_else (at_directive ''#else'' st), lg)" for k
    by (simp only: handle_preprocessor_logical_line_def directive_parts_trim if_parts) simp
  show ?thesis
    unfolding p h by (auto simp: here fs handle_else_def step_defs)
qed

lemma step_endif:
  assumes st: "scan_ready st" and fs: "conditionals st = f # fs"
  shows "\<exists>st' lg'. process_scan_physical_line ex ''#endif'' (st, lg) = Some (directive_line, st', lg')
     \<and> scan_step st st' (object_like_macros st) fs"
proof -
  have "is_directive ''#endif''" by (rule hash_is_directive) simp
  note p = process_directive [OF st fixed_lines_ok(2) this, of ex lg]
  have h: "handle_preprocessor_logical_line ex (trim_ascii_view ''#endif'') k (at_directive ''#endif'' st, lg) =
      Some (handle_endif (at_directive ''#endif'' st), lg)" for k
    by (simp only: handle_preprocessor_logical_line_def directive_parts_trim if_parts) simp
  show ?thesis
    unfolding p h by (auto simp: fs handle_endif_def step_defs)
qed

lemma step_plain:
  assumes st: "scan_ready st" and ok: "plain_line s"
  shows "\<exists>p st' lg'. process_scan_physical_line ex s (st, lg) = Some (p, st', lg')
     \<and> active_text [p] = fst (select_line (current_branch_active st) s (object_like_macros st))
     \<and> scan_step st st' (snd (select_line (current_branch_active st) s (object_like_macros st))) (conditionals st)"
proof (cases "is_directive s")
  case False
  from ok have "line_ok s" by (simp add: plain_line_def)
  from process_code [OF st this False] st False show ?thesis
    by (simp add: select_line_def active_text_def scan_step_def scan_same_def scan_ready_def)
next
  case True
  from ok have line: "line_ok s" by (simp add: plain_line_def)
  note p = process_directive [OF st line True, of ex lg]
  show ?thesis
  proof (cases "directive_parts s")
    case None
    then show ?thesis
      unfolding p
      using st True
      by (auto simp: handle_preprocessor_logical_line_def directive_parts_trim select_line_def directive_line_def active_text_def step_defs)
  next
    case (Some kr)
    obtain keyword rest where kr: "kr = (keyword, rest)" by (cases kr)
    have "keyword \<notin> {''if'', ''ifdef'', ''ifndef'', ''elif'', ''else'', ''endif''}"
      using ok Some kr by (simp add: plain_line_def)
    then show ?thesis
      unfolding p
      using st True Some kr
      by (auto simp: handle_preprocessor_logical_line_def directive_parts_trim select_line_def directive_line_def
          active_text_def step_defs)
  qed
qed

subsection \<open>Whole sources\<close>

lemma scan_lines_append:
  "scan_lines ex (xs @ ys) sl =
     (case scan_lines ex xs sl of
        None \<Rightarrow> None
      | Some (ps, sl) \<Rightarrow> map_option (\<lambda>(qs, sl). (ps @ qs, sl)) (scan_lines ex ys sl))"
proof (induction xs arbitrary: sl)
  case Nil
  show ?case by (cases "scan_lines ex ys sl") auto
next
  case (Cons x xs)
  then show ?case by (auto simp: option.map_comp intro!: option.map_cong split: option.splits prod.splits)
qed

lemma active_text_append: "active_text (ps @ qs) = active_text ps @ active_text qs"
  by (simp add: active_text_def)

lemma active_text_Nil [simp]: "active_text [] = []"
  by (simp add: active_text_def)

lemma active_text_directive [simp]: "active_text (directive_line # ps) = active_text ps"
  by (simp add: active_text_def directive_line_def)

text \<open>A run of lines does what a selection says, and leaves the given groups open.\<close>

definition implements ::
  "(string \<Rightarrow> bool) \<Rightarrow> string list \<Rightarrow> ScanStreamState \<Rightarrow> scan_log \<Rightarrow> (string list \<times> (string \<rightharpoonup> string)) option
     \<Rightarrow> ScanConditionalFrame list \<Rightarrow> bool" where
  "implements ex ls st lg sel fs \<longleftrightarrow>
     (case sel of
        None \<Rightarrow> scan_lines ex ls (st, lg) = None
      | Some (out, m) \<Rightarrow>
          \<exists>ps st' lg'. scan_lines ex ls (st, lg) = Some (ps, st', lg') \<and> active_text ps = out \<and> scan_step st st' m fs)"

lemma implements_append:
  assumes "implements ex xs st lg sel fs"
    and "\<And>st' lg' out m. sel = Some (out, m) \<Longrightarrow> scan_step st st' m fs \<Longrightarrow> implements ex ys st' lg' (f m) gs"
  shows "implements ex (xs @ ys) st lg (then_select sel f) gs"
proof (cases sel)
  case None
  then show ?thesis using assms(1) by (simp add: implements_def scan_lines_append)
next
  case (Some om)
  obtain out m where om: "om = (out, m)" by (cases om)
  then obtain ps st' lg' where run: "scan_lines ex xs (st, lg) = Some (ps, st', lg')" "active_text ps = out"
    and step: "scan_step st st' m fs"
    using assms(1) Some by (auto simp: implements_def)
  have "implements ex ys st' lg' (f m) gs" using assms(2) [OF _ step] Some om by simp
  then show ?thesis
    using run step Some om
    by (auto simp: implements_def scan_lines_append active_text_append scan_step_def scan_same_def split: option.splits)
qed

lemma implements_cons:
  assumes "process_scan_physical_line ex s (st, lg) = Some (p, st1, lg1)" and "scan_step st st1 m fs"
    and "implements ex ls st1 lg1 sel gs"
  shows "implements ex (s # ls) st lg (map_option (apfst ((@) (active_text [p]))) sel) gs"
  using assms
  by (auto simp: implements_def active_text_def scan_step_def scan_same_def split: option.splits)

lemma implements_directive:
  assumes "process_scan_physical_line ex s (st, lg) = Some (directive_line, st1, lg1)" and "scan_step st st1 m fs"
    and "implements ex ls st1 lg1 sel gs"
  shows "implements ex (s # ls) st lg sel gs"
proof -
  have "map_option (apfst ((@) (active_text [directive_line]))) sel = sel" by (cases sel) auto
  then show ?thesis using implements_cons [OF assms] by simp
qed

lemma implements_stuck:
  assumes "process_scan_physical_line ex s (st, lg) = None"
  shows "implements ex (s # ls) st lg None gs"
  using assms by (simp add: implements_def)

lemma set_branch_simps [simp]:
  "parent_active (set_branch a t f) = parent_active f" "branch_taken (set_branch a t f) = t"
  "frame_active (set_branch a t f) = a"
  by (simp_all add: set_branch_def)

lemma block_chain_implements:
  "\<And>st lg. scan_ready st \<Longrightarrow> block_ok b \<Longrightarrow>
     implements ex (print_block b) st lg
       (select_block (scan_condition ex st) b (current_branch_active st) (object_like_macros st)) (conditionals st)"
  "\<And>st lg f fs. scan_ready st \<Longrightarrow> chain_ok ch \<Longrightarrow> conditionals st = f # fs \<Longrightarrow>
     implements ex (print_chain ch) st lg
       (select_chain (scan_condition ex st) ch (parent_active f) (branch_taken f) (object_like_macros st)) fs"
proof (induction b and ch)
  case Done
  then show ?case by (auto simp: implements_def active_text_def scan_step_def scan_same_def)
next
  case (Line s b)
  obtain p st1 lg1 where line: "process_scan_physical_line ex s (st, lg) = Some (p, st1, lg1)"
    "active_text [p] = fst (select_line (current_branch_active st) s (object_like_macros st))"
    and step: "scan_step st st1 (snd (select_line (current_branch_active st) s (object_like_macros st))) (conditionals st)"
    using step_plain [OF Line.prems(1)] Line.prems(2) by (metis block_ok.simps(2))
  note d = scan_stepD [OF step]
  have act: "current_branch_active st1 = current_branch_active st"
    using d(5) Line.prems(1) by (simp add: scan_ready_def)
  have "implements ex (print_block b) st1 lg1
      (select_block (scan_condition ex st) b (current_branch_active st)
        (snd (select_line (current_branch_active st) s (object_like_macros st)))) (conditionals st)"
    using Line.IH [OF d(1), of lg1] Line.prems(2) scan_condition_same [OF d(2)] act d by simp
  from implements_cons [OF line(1) step this] show ?case
    by (cases "select_line (current_branch_active st) s (object_like_macros st)") (simp add: line(2))
next
  case (Group c body ch b)
  let ?v = "scan_condition ex st (object_like_macros st) (trim_ascii_view c)"
  let ?here = "current_branch_active st \<and> ?v = Value True"
  let ?f = "\<lparr>parent_active = current_branch_active st, branch_taken = ?here, frame_active = ?here\<rparr>"
  have ok: "line_ok (''#if '' @ c)" "block_ok body" "chain_ok ch" "block_ok b" using Group.prems(2) by simp_all
  note s = step_if [OF Group.prems(1) ok(1) refl refl, of ex lg]
  show ?case
  proof (cases "?v = Undefined")
    case True
    then show ?thesis using s by (simp add: implements_stuck)
  next
    case False
    then obtain st1 lg1 where line: "process_scan_physical_line ex (''#if '' @ c) (st, lg) = Some (directive_line, st1, lg1)"
      and step: "scan_step st st1 (object_like_macros st) (?f # conditionals st)"
      using s by auto
    note d = scan_stepD [OF step]
    have body: "implements ex (print_block body) st1 lg1
        (select_block (scan_condition ex st) body ?here (object_like_macros st)) (?f # conditionals st)"
      using Group.IH(1) [OF d(1) ok(2), of lg1] scan_condition_same [OF d(2)] d by simp
    have rest: "implements ex (print_chain ch @ print_block b) st2 lg2
        (then_select (select_chain (scan_condition ex st) ch (current_branch_active st) ?here m)
           (select_block (scan_condition ex st) b (current_branch_active st))) (conditionals st)"
      if step2: "scan_step st1 st2 m (?f # conditionals st)" for st2 lg2 m
    proof (rule implements_append)
      note d2 = scan_stepD [OF step2]
      have c2: "scan_condition ex st2 = scan_condition ex st"
        using scan_condition_same [OF scan_same_trans [OF d(2) d2(2)]] .
      show "implements ex (print_chain ch) st2 lg2
          (select_chain (scan_condition ex st) ch (current_branch_active st) ?here m) (conditionals st)"
        using Group.IH(2) [OF d2(1) ok(3) d2(4), of lg2] c2 d2(3) by simp
      fix st3 lg3 out m3
      assume step3: "scan_step st2 st3 m3 (conditionals st)"
      note d3 = scan_stepD [OF step3]
      have "scan_condition ex st3 = scan_condition ex st" "current_branch_active st3 = current_branch_active st"
        using scan_condition_same [OF d3(2)] c2 d3(5) Group.prems(1) by (simp_all add: scan_ready_def)
      then show "implements ex (print_block b) st3 lg3
          (select_block (scan_condition ex st) b (current_branch_active st) m3) (conditionals st)"
        using Group.IH(3) [OF d3(1) ok(4), of lg3] d3 by simp
    qed
    have "implements ex (print_block body @ print_chain ch @ print_block b) st1 lg1
        (then_select (select_block (scan_condition ex st) body ?here (object_like_macros st))
          (\<lambda>m. then_select (select_chain (scan_condition ex st) ch (current_branch_active st) ?here m)
             (select_block (scan_condition ex st) b (current_branch_active st)))) (conditionals st)"
      by (rule implements_append [OF body]) (rule rest)
    from implements_directive [OF line step this] False show ?thesis by (simp add: Let_def)
  qed
next
  case (Elif c body ch)
  let ?v = "scan_condition ex st (object_like_macros st) (trim_ascii_view c)"
  let ?here = "parent_active f \<and> \<not> branch_taken f \<and> ?v = Value True"
  let ?f = "set_branch ?here (branch_taken f \<or> ?here) f"
  have ok: "line_ok (''#elif '' @ c)" "block_ok body" "chain_ok ch" using Elif.prems(2) by simp_all
  note s = step_elif [OF Elif.prems(1) ok(1) Elif.prems(3) refl refl, of ex lg]
  show ?case
  proof (cases "?v = Undefined")
    case True
    then show ?thesis using s by (simp add: implements_stuck)
  next
    case False
    then obtain st1 lg1 where line: "process_scan_physical_line ex (''#elif '' @ c) (st, lg) = Some (directive_line, st1, lg1)"
      and step: "scan_step st st1 (object_like_macros st) (?f # fs)"
      using s by auto
    note d = scan_stepD [OF step]
    have body: "implements ex (print_block body) st1 lg1
        (select_block (scan_condition ex st) body ?here (object_like_macros st)) (?f # fs)"
      using Elif.IH(1) [OF d(1) ok(2), of lg1] scan_condition_same [OF d(2)] d by simp
    have "implements ex (print_chain ch) st2 lg2
        (select_chain (scan_condition ex st) ch (parent_active f) (branch_taken f \<or> ?here) m) fs"
      if step2: "scan_step st1 st2 m (?f # fs)" for st2 lg2 m
    proof -
      note d2 = scan_stepD [OF step2]
      have "scan_condition ex st2 = scan_condition ex st"
        using scan_condition_same [OF scan_same_trans [OF d(2) d2(2)]] .
      then show ?thesis using Elif.IH(2) [OF d2(1) ok(3) d2(4), of lg2] d2(3) by simp
    qed
    then have "implements ex (print_block body @ print_chain ch) st1 lg1
        (then_select (select_block (scan_condition ex st) body ?here (object_like_macros st))
          (select_chain (scan_condition ex st) ch (parent_active f) (branch_taken f \<or> ?here))) fs"
      by (intro implements_append [OF body])
    from implements_directive [OF line step this] False show ?thesis by (simp add: Let_def)
  qed
next
  case (Else body)
  let ?here = "parent_active f \<and> \<not> branch_taken f"
  obtain st1 lg1 where line: "process_scan_physical_line ex ''#else'' (st, lg) = Some (directive_line, st1, lg1)"
    and step: "scan_step st st1 (object_like_macros st) (set_branch ?here True f # fs)"
    using step_else [OF Else.prems(1,3) refl] by blast
  note d = scan_stepD [OF step]
  have body: "implements ex (print_block body) st1 lg1
      (select_block (scan_condition ex st) body ?here (object_like_macros st)) (set_branch ?here True f # fs)"
    using Else.IH [OF d(1), of lg1] Else.prems(2) scan_condition_same [OF d(2)] d by simp
  have "implements ex [''#endif''] st2 lg2 (Some ([], m)) fs"
    if "scan_step st1 st2 m (set_branch ?here True f # fs)" for st2 lg2 m
    using step_endif [OF scan_stepD(1,4) [OF that], of ex lg2] scan_stepD(3) [OF that]
    by (auto simp: implements_def)
  then have "implements ex (print_block body @ [''#endif'']) st1 lg1
      (then_select (select_block (scan_condition ex st) body ?here (object_like_macros st)) (\<lambda>m. Some ([], m))) fs"
    by (intro implements_append [OF body])
  moreover have "then_select sel (\<lambda>m. Some ([], m)) = sel" for sel by (cases sel) auto
  ultimately show ?case using implements_directive [OF line step] by simp
next
  case Endif
  then show ?case using step_endif [OF Endif(1,3), of ex lg] by (auto simp: implements_def)
qed


subsection \<open>Instances\<close>

definition empty_log :: scan_log where
  "empty_log = \<lparr>warned_conditions = [], warnings = []\<rparr>"

definition sample_block :: scan_block where
  "sample_block =
     Line ''module;''
       (Group ''defined(A) && A >= 3'' (Line ''export module new.one;'' Done)
          (Elif ''defined(B)'' (Line ''export module b;'' Done) (Else (Line ''export module old;'' Done))) Done)"


definition inactive_lines :: "string list" where
  "inactive_lines = [''#if 0'', ''#if 1'', ''int x;'']"

theorem active_iff_every_group_active_witness:
  "\<exists>ps st lg. scan_lines (\<lambda>_. False) inactive_lines (initial_scan_state, empty_log) = Some (ps, st, lg)
     \<and> length (conditionals st) = 2 \<and> current_branch_active st = list_all frame_active (conditionals st)"
proof -
  have ok: "scan_state_ok initial_scan_state" by code_simp
  have "map_option (\<lambda>(ps, st, lg). length (conditionals st)) (scan_lines (\<lambda>_. False) inactive_lines (initial_scan_state, empty_log)) = Some 2"
    by code_simp
  then obtain ps st lg where run: "scan_lines (\<lambda>_. False) inactive_lines (initial_scan_state, empty_log) = Some (ps, st, lg)"
    "length (conditionals st) = 2" by auto
  then show ?thesis using active_iff_every_group_active [OF ok run(1)] by blast
qed

end
