(* ===== verification/Scan_Modules.thy ===== *)
theory Scan_Modules
  imports Scan_Lines
begin

section \<open>Module declarations and imports in a source: \<^verbatim>\<open>tools/src/scan_utils.hpp\<close>\<close>

text \<open>
  The readers of active lines: statements, module declarations and imports, canonical module names,
  include directives; the rewriting of the preamble of a module unit to one declaration per line; the
  directories searched for \<^verbatim>\<open>__has_include\<close>; and the module name of a source file, which composes them
  with the scanner.
\<close>

subsection \<open>Statements, module declarations and imports\<close>

fun split_statements :: "string \<Rightarrow> string \<Rightarrow> string list" where
  "split_statements acc [] = (let trailing = trim_ascii_view acc in if trailing = [] then [] else [trailing])"
| "split_statements acc (c # cs) =
     (let acc = acc @ [c]
      in if c = CHR '';'' then
           (if trim_ascii_view acc = [] then [] else [trim_ascii_view acc]) @ split_statements [] cs
         else split_statements acc cs)"

definition split_scan_statements :: "string \<Rightarrow> string list" where
  "split_scan_statements line = split_statements [] line"

definition is_preprocessor_directive_scan_line :: "string \<Rightarrow> bool" where
  "is_preprocessor_directive_scan_line line = starts_with (trim_ascii_view line) ''#''"

definition is_global_module_fragment_scan_line :: "string \<Rightarrow> bool" where
  "is_global_module_fragment_scan_line line \<longleftrightarrow> normalize_scan_directive_line line = ''module;''"

definition before_semi :: "string \<Rightarrow> string" where
  "before_semi s = takeWhile (\<lambda>c. c \<noteq> CHR '';'') s"

definition is_private_module_fragment_scan_line :: "string \<Rightarrow> bool" where
  "is_private_module_fragment_scan_line line =
     (let (found, cursor) = consume_scan_keyword (normalize_scan_directive_line line) ''module''
      in if \<not> found then False
         else let cursor = ltrim_ascii_view cursor
              in if cursor = [] \<or> hd cursor \<noteq> CHR '':'' then False
                 else if CHR '';'' \<notin> set cursor then False
                 else canonicalize_scan_module_name (before_semi cursor) True = Some '':private'')"

text \<open>The optional \<^verbatim>\<open>export\<close>: after it the cursor is trimmed.\<close>

definition skip_export :: "string \<Rightarrow> bool \<times> string" where
  "skip_export line =
     (let (found, cursor) = consume_scan_keyword (normalize_scan_directive_line line) ''export''
      in (found, if found then ltrim_ascii_view cursor else cursor))"

definition looks_like_scan_prefix :: "string \<Rightarrow> string \<Rightarrow> bool" where
  "looks_like_scan_prefix keyword line =
     (let (exported, cursor) = skip_export line
      in if exported \<and> cursor = [] then True
         else if cursor = keyword then True
         else fst (consume_scan_keyword cursor keyword))"

definition looks_like_named_module_scan_prefix :: "string \<Rightarrow> bool" where
  "looks_like_named_module_scan_prefix line = looks_like_scan_prefix ''module'' line"

definition looks_like_import_scan_prefix :: "string \<Rightarrow> bool" where
  "looks_like_import_scan_prefix line = looks_like_scan_prefix ''import'' line"

definition parse_named_module_name_from_scan_line :: "string \<Rightarrow> string option" where
  "parse_named_module_name_from_scan_line line =
     (let (found, cursor) = consume_scan_keyword (snd (skip_export line)) ''module''
      in if \<not> found then None
         else let cursor = ltrim_ascii_view cursor
              in if cursor = [] \<or> hd cursor = CHR '';'' then None
                 else if CHR '';'' \<notin> set cursor then None
                 else canonicalize_scan_module_name (before_semi cursor) False)"

definition is_any_import_scan_line :: "string \<Rightarrow> bool" where
  "is_any_import_scan_line line =
     (let (found, cursor) = consume_scan_keyword (snd (skip_export line)) ''import''
      in if \<not> found then False
         else let cursor = ltrim_ascii_view cursor in cursor \<noteq> [] \<and> CHR '';'' \<in> set cursor)"

definition parse_imported_module_name_from_scan_line :: "string \<Rightarrow> string option" where
  "parse_imported_module_name_from_scan_line line =
     (if \<not> is_any_import_scan_line line then None
      else let (found, cursor) = consume_scan_keyword (snd (skip_export line)) ''import''
           in if \<not> found then None
              else let cursor = ltrim_ascii_view cursor
                   in if cursor = [] \<or> hd cursor = CHR ''<'' \<or> hd cursor = DQ then None
                      else if CHR '';'' \<notin> set cursor then None
                      else canonicalize_scan_module_name (before_semi cursor) True)"

record ScanIncludeDirective =
  header :: string
  angled :: bool

definition parse_include_directive_from_scan_line :: "string \<Rightarrow> ScanIncludeDirective option" where
  "parse_include_directive_from_scan_line line =
     (let trimmed = trim_ascii_view line
      in if trimmed = [] \<or> hd trimmed \<noteq> CHR ''#'' then None
         else let cursor = ltrim_ascii_view (tl trimmed); rest = drop (length ''include'') cursor
              in if \<not> starts_with cursor ''include'' then None
                 else if rest \<noteq> [] \<and> \<not> isspace (hd rest) \<and> hd rest \<noteq> CHR ''<'' \<and> hd rest \<noteq> DQ then None
                 else case ltrim_ascii_view rest of
                        [] \<Rightarrow> None
                      | opening # cs \<Rightarrow>
                          let closing = (if opening = CHR ''<'' then CHR ''>'' else if opening = DQ then DQ else NUL)
                          in if closing = NUL then None
                             else if closing \<notin> set cs then None
                             else Some \<lparr>header = takeWhile (\<lambda>c. c \<noteq> closing) cs, angled = (opening = CHR ''<'')\<rparr>)"

definition parse_include_header_from_scan_line :: "string \<Rightarrow> string option" where
  "parse_include_header_from_scan_line line = map_option header (parse_include_directive_from_scan_line line)"

subsection \<open>The module name of a source\<close>

datatype module_search = Found string | Search "string option"

text \<open>One statement: \<open>Search pending\<close> goes on, with the statement that is being collected, if any.\<close>

definition search_statement :: "string option \<Rightarrow> string \<Rightarrow> module_search" where
  "search_statement pending statement =
     (let prefix = (\<lambda>s. looks_like_named_module_scan_prefix s \<or> is_global_module_fragment_scan_line s)
      in case (case pending of
                 None \<Rightarrow> if prefix statement then Some statement else None
               | Some p \<Rightarrow> Some (p @ '' '' @ statement)) of
           None \<Rightarrow> Search None
         | Some p \<Rightarrow>
             if CHR '';'' \<notin> set statement then Search (if prefix p then Some p else None)
             else case parse_named_module_name_from_scan_line p of Some name \<Rightarrow> Found name | None \<Rightarrow> Search None)"

fun search_statements :: "string option \<Rightarrow> string list \<Rightarrow> module_search" where
  "search_statements pending [] = Search pending"
| "search_statements pending (s # ss) =
     (case search_statement pending s of Found name \<Rightarrow> Found name | Search p \<Rightarrow> search_statements p ss)"

fun search_module ::
  "(string \<Rightarrow> bool) \<Rightarrow> string list \<Rightarrow> string option \<Rightarrow> ScanStreamState \<times> scan_log \<Rightarrow> string option option" where
  "search_module ex [] pending sl = Some None"
| "search_module ex (l # ls) pending sl =
     (case process_scan_physical_line ex l sl of
        None \<Rightarrow> None
      | Some (p, sl) \<Rightarrow>
          if \<not> is_active_code p then search_module ex ls pending sl
          else case search_statements pending (split_scan_statements (stripped p)) of
                 Found name \<Rightarrow> Some (Some name)
               | Search pend \<Rightarrow> search_module ex ls pend sl)"

text \<open>\<^verbatim>\<open>std::getline\<close>: lines end at a line feed; a last line without one counts if it is not empty.\<close>

fun getlines :: "string \<Rightarrow> string \<Rightarrow> string list" where
  "getlines acc [] = (if acc = [] then [] else [acc])"
| "getlines acc (c # cs) = (if c = LF then acc # getlines [] cs else getlines (acc @ [c]) cs)"

subsection \<open>Canonical module names\<close>

definition name_char :: "char \<Rightarrow> bool" where
  "name_char c \<longleftrightarrow> is_scan_identifier_continue c \<or> c = CHR ''.'' \<or> c = CHR '':''"

definition component_char :: "char \<Rightarrow> bool" where
  "component_char c \<longleftrightarrow> is_scan_identifier_continue c \<or> c = CHR ''.''"

lemma name_char_facts:
  assumes "name_char c"
  shows "\<not> isspace c" "c \<noteq> CHR '';''" "c \<noteq> CHR ''<''" "c \<noteq> DQ"
  using assms
  by (auto simp: name_char_def is_scan_identifier_continue_def isalnum_def isalpha_def isdigit_def isspace_def)

lemma component_char_facts:
  assumes "component_char c"
  shows "name_char c" "c \<noteq> CHR '':''"
  using assms
  by (auto simp: name_char_def component_char_def is_scan_identifier_continue_def isalnum_def isalpha_def isdigit_def)

lemma component_part_chars: "scan_component_part p \<Longrightarrow> list_all is_scan_identifier_continue p"
  by (cases p) (auto simp: scan_component_part_def is_scan_identifier_start_def is_scan_identifier_continue_def isalnum_def)

lemma component_parts_chars: "scan_component_parts s \<Longrightarrow> list_all component_char s"
proof (induction s rule: scan_component_parts.induct)
  case (1 s)
  show ?case
  proof (cases "s = []")
    case False
    let ?p = "takeWhile (\<lambda>c. c \<noteq> CHR ''.'') s" and ?q = "dropWhile (\<lambda>c. c \<noteq> CHR ''.'') s"
    have parts: "scan_component_part ?p" "scan_component_parts (tl ?q)"
      using "1.prems" False scan_component_parts.simps [of s] by auto
    have p: "list_all component_char ?p"
      using component_part_chars [OF parts(1)] by (simp add: list_all_iff component_char_def)
    have q: "list_all component_char (tl ?q)" using "1.IH" [OF False parts(2)] .
    have "?q = [] \<or> hd ?q = CHR ''.''" using hd_dropWhile [of "\<lambda>c. c \<noteq> CHR ''.''" s] by auto
    moreover have "t = [] \<or> hd t = CHR ''.'' \<Longrightarrow> list_all component_char (tl t) \<Longrightarrow> list_all component_char t" for t
      by (cases t) (auto simp: component_char_def)
    ultimately have "list_all component_char ?q" using q by blast
    then show ?thesis using p by (metis list_all_append takeWhile_dropWhile_id)
  qed simp
qed

lemma trim_idem: "trim_ascii_view (trim_ascii_view s) = trim_ascii_view s"
proof -
  obtain sp where sp: "ltrim_ascii_view s = rtrim_ascii_view (ltrim_ascii_view s) @ sp" "list_all isspace sp"
    by (rule rtrim_split)
  have "trim_ascii_view (ltrim_ascii_view s) = trim_ascii_view s" by (simp add: trim_ascii_view_def ltrim_idem)
  then show ?thesis using sp trim_append_space unfolding trim_ascii_view_def by metis
qed

lemma trim_names: "list_all name_char s \<Longrightarrow> trim_ascii_view s = s"
  by (rule trim_same) (auto simp: list_all_iff name_char_facts)

lemma valid_component_chars:
  assumes "is_valid_scan_module_component (trim_ascii_view s)"
  shows "list_all component_char (trim_ascii_view s)"
  using assms component_parts_chars by (simp add: is_valid_scan_module_component_def trim_idem Let_def)

lemma takeWhile_colon:
  assumes "list_all component_char p"
  shows "takeWhile (\<lambda>c. c \<noteq> CHR '':'') (p @ CHR '':'' # q) = p"
    "dropWhile (\<lambda>c. c \<noteq> CHR '':'') (p @ CHR '':'' # q) = CHR '':'' # q"
  using assms component_char_facts
  by (auto simp: takeWhile_space dropWhile_space list_all_iff intro!: takeWhile_space dropWhile_space)

lemma canonical_partition:
  assumes "list_all component_char p" and "list_all component_char q"
    and "p = [] \<and> a \<or> p \<noteq> [] \<and> is_valid_scan_module_component p"
    and "q \<noteq> []" and "is_valid_scan_module_component q"
  shows "canonicalize_scan_module_name (p @ CHR '':'' # q) a = Some (p @ CHR '':'' # q)"
proof -
  have chars: "list_all name_char p" "list_all name_char q" "CHR '':'' \<notin> set q"
    using assms(1,2) component_char_facts by (auto simp: list_all_iff)
  then have "trim_ascii_view (p @ CHR '':'' # q) = p @ CHR '':'' # q"
    by (intro trim_names) (simp add: name_char_def)
  then show ?thesis
    using assms chars
    by (auto simp: canonicalize_scan_module_name_def takeWhile_colon trim_names Let_def)
qed

lemma canonical_fixed:
  assumes "canonicalize_scan_module_name t a = Some n"
  shows "canonicalize_scan_module_name n a = Some n \<and> list_all name_char n \<and> n \<noteq> []"
proof (cases "CHR '':'' \<in> set (trim_ascii_view t)")
  case False
  then have n: "n = trim_ascii_view t" "is_valid_scan_module_component (trim_ascii_view t)" "n \<noteq> []"
    using assms by (auto simp: canonicalize_scan_module_name_def Let_def split: if_splits)
  moreover have "list_all name_char n"
    using valid_component_chars [OF n(2)] component_char_facts n(1) by (auto simp: list_all_iff)
  ultimately show ?thesis using False by (simp add: canonicalize_scan_module_name_def trim_idem)
next
  case True
  define p where "p = trim_ascii_view (takeWhile (\<lambda>c. c \<noteq> CHR '':'') (trim_ascii_view t))"
  define q where "q = trim_ascii_view (tl (dropWhile (\<lambda>c. c \<noteq> CHR '':'') (trim_ascii_view t)))"
  from assms True have n: "n = p @ CHR '':'' # q" "p = [] \<and> a \<or> p \<noteq> [] \<and> is_valid_scan_module_component p"
    "q \<noteq> []" "is_valid_scan_module_component q"
    unfolding canonicalize_scan_module_name_def Let_def p_def [symmetric] q_def [symmetric]
    by (auto split: if_splits)
  have q: "list_all component_char q" using n(4) valid_component_chars unfolding q_def by blast
  have p: "list_all component_char p" using n(2) valid_component_chars unfolding p_def by auto
  have "list_all name_char n" using p q n(1) component_char_facts by (auto simp: list_all_iff name_char_def)
  then show ?thesis using canonical_partition [OF p q n(2-4)] n(1) by simp
qed

lemma normalize_word:
  assumes "list_all (\<lambda>c. \<not> isspace c) w"
  shows "normalize_loop out False w = out @ w"
  using assms by (induction w arbitrary: out) auto

lemma normalize_words:
  assumes "list_all (\<lambda>c. \<not> isspace c) u" and "u \<noteq> []" and "w \<noteq> []" and "\<not> isspace (hd w)"
  shows "normalize_loop out False (u @ CHR '' '' # w) = normalize_loop (out @ u @ '' '') False w"
proof -
  have "normalize_loop out False (u @ v) = normalize_loop (out @ u) False v" for v
    using assms(1) by (induction u arbitrary: out) auto
  then show ?thesis using assms(2-4) by (cases w) auto
qed

lemma normalize_decl:
  assumes "list_all name_char n" and "n \<noteq> []"
  shows "normalize_scan_directive_line (''module '' @ n @ '';'') = ''module '' @ n @ '';''"
    "normalize_scan_directive_line (''export module '' @ n @ '';'') = ''export module '' @ n @ '';''"
    "normalize_scan_directive_line (''import '' @ n @ '';'') = ''import '' @ n @ '';''"
    "normalize_scan_directive_line (''export import '' @ n @ '';'') = ''export import '' @ n @ '';''"
proof -
  have w: "list_all (\<lambda>c. \<not> isspace c) (n @ [CHR '';''])"
    using assms name_char_facts(1) by (auto simp: list_all_iff) (simp add: isspace_def)
  then have h: "\<not> isspace (hd (n @ '';''))" using assms(2) by (cases n) auto
  have l: "\<not> isspace CHR ''m''" "list_all (\<lambda>c. \<not> isspace c) ''module''" "list_all (\<lambda>c. \<not> isspace c) ''export''"
    "list_all (\<lambda>c. \<not> isspace c) ''import''" "\<not> isspace CHR ''i''"
    by (simp_all add: isspace_def)
  show "normalize_scan_directive_line (''module '' @ n @ '';'') = ''module '' @ n @ '';''"
    using normalize_words [OF l(2) _ _ h, of "[]"] normalize_word [OF w]
    by (simp add: normalize_scan_directive_line_def)
  show "normalize_scan_directive_line (''import '' @ n @ '';'') = ''import '' @ n @ '';''"
    using normalize_words [OF l(4) _ _ h, of "[]"] normalize_word [OF w]
    by (simp add: normalize_scan_directive_line_def)
  show "normalize_scan_directive_line (''export module '' @ n @ '';'') = ''export module '' @ n @ '';''"
    using normalize_words [OF l(3), of "''module '' @ n @ '';''" "[]"] normalize_words [OF l(2) _ _ h, of "''export ''"]
      normalize_word [OF w] l
    by (simp add: normalize_scan_directive_line_def)
  show "normalize_scan_directive_line (''export import '' @ n @ '';'') = ''export import '' @ n @ '';''"
    using normalize_words [OF l(3), of "''import '' @ n @ '';''" "[]"] normalize_words [OF l(4) _ _ h, of "''export ''"]
      normalize_word [OF w] l
    by (simp add: normalize_scan_directive_line_def)
qed

lemma name_text:
  assumes "list_all name_char n" and "n \<noteq> []"
  shows "ltrim_ascii_view (CHR '' '' # n @ '';'') = n @ '';''" "before_semi (n @ '';'') = n"
    "hd (n @ '';'') \<notin> {CHR '';'', CHR ''<'', DQ}"
proof -
  have s: "\<not> isspace (hd n)" "hd n \<notin> {CHR '';'', CHR ''<'', DQ}" "list_all (\<lambda>c. c \<noteq> CHR '';'') n"
    using assms name_char_facts by (cases n; auto simp: list_all_iff)+
  then show "ltrim_ascii_view (CHR '' '' # n @ '';'') = n @ '';''"
    using assms(2) by (cases n) (auto simp: ltrim_ascii_view_def)
  show "before_semi (n @ '';'') = n" using s(3) by (induction n) (auto simp: before_semi_def)
  show "hd (n @ '';'') \<notin> {CHR '';'', CHR ''<'', DQ}" using s(2) assms(2) by simp
qed

lemma consume_found:
  assumes "k = c # ks" and "c \<notin> {CHR '' '', CHR 0x09, CHR 0x0D, LF}"
  shows "consume_scan_keyword (k @ CHR '' '' # r) k = (True, CHR '' '' # r)"
  using assms by (simp add: consume_scan_keyword_def starts_with_def isspace_def)

lemma consume_missing:
  assumes "s = c # cs" and "c \<notin> {CHR '' '', CHR 0x09, CHR 0x0D, LF}" and "k = d # ks" and "c \<noteq> d"
  shows "consume_scan_keyword s k = (False, s)"
  using assms by (simp add: consume_scan_keyword_def starts_with_def)

lemma skip_export_decl:
  assumes "list_all name_char n" and "n \<noteq> []" and "e \<in> {[], ''export ''}"
  shows "snd (skip_export (e @ ''module '' @ n @ '';'')) = ''module'' @ CHR '' '' # n @ '';''"
    and "snd (skip_export (e @ ''import '' @ n @ '';'')) = ''import'' @ CHR '' '' # n @ '';''"
proof -
  note nd = normalize_decl [OF assms(1,2)]
  have m: "consume_scan_keyword (''module '' @ n @ '';'') ''export'' = (False, ''module '' @ n @ '';'')"
    and i: "consume_scan_keyword (''import '' @ n @ '';'') ''export'' = (False, ''import '' @ n @ '';'')"
    by (simp_all add: consume_missing)
  have me: "consume_scan_keyword (''export module '' @ n @ '';'') ''export'' = (True, '' module '' @ n @ '';'')"
    and ie: "consume_scan_keyword (''export import '' @ n @ '';'') ''export'' = (True, '' import '' @ n @ '';'')"
    using consume_found [of "''export''" "CHR ''e''" "''xport''"] by simp_all
  have t: "ltrim_ascii_view ('' module '' @ r) = ''module '' @ r" "ltrim_ascii_view ('' import '' @ r) = ''import '' @ r" for r
    by (simp_all add: ltrim_ascii_view_def isspace_def)
  consider (none) "e = []" | (export) "e = ''export ''" using assms(3) by auto
  then show "snd (skip_export (e @ ''module '' @ n @ '';'')) = ''module'' @ CHR '' '' # n @ '';''"
  proof cases
    case none
    show ?thesis unfolding none append.simps(1) skip_export_def nd m by (simp add: Let_def)
  next
    case export
    then have e: "e @ ''module '' @ n @ '';'' = ''export module '' @ n @ '';''" by simp
    show ?thesis unfolding e skip_export_def nd me by (simp only: Let_def split_conv if_True snd_conv t) simp
  qed
  consider (none) "e = []" | (export) "e = ''export ''" using assms(3) by auto
  then show "snd (skip_export (e @ ''import '' @ n @ '';'')) = ''import'' @ CHR '' '' # n @ '';''"
  proof cases
    case none
    show ?thesis unfolding none append.simps(1) skip_export_def nd i by (simp add: Let_def)
  next
    case export
    then have e: "e @ ''import '' @ n @ '';'' = ''export import '' @ n @ '';''" by simp
    show ?thesis unfolding e skip_export_def nd ie by (simp only: Let_def split_conv if_True snd_conv t) simp
  qed
qed

text \<open>
  The canonical form of a module name is a fixed point, and a module declaration or an import
  printed with it, with or without \<^verbatim>\<open>export\<close>, is read back as that name.
\<close>

theorem module_declaration_roundtrip:
  assumes "canonicalize_scan_module_name t allow = Some n" and "e \<in> {[], ''export ''}"
  shows "canonicalize_scan_module_name n allow = Some n
     \<and> parse_named_module_name_from_scan_line (e @ ''module '' @ n @ '';'') = canonicalize_scan_module_name n False
     \<and> parse_imported_module_name_from_scan_line (e @ ''import '' @ n @ '';'') = canonicalize_scan_module_name n True"
proof (intro conjI)
  have n: "canonicalize_scan_module_name n allow = Some n" "list_all name_char n" "n \<noteq> []"
    using canonical_fixed [OF assms(1)] by auto
  show "canonicalize_scan_module_name n allow = Some n" by (rule n(1))
  note skip = skip_export_decl [OF n(2,3) assms(2)] and nt = name_text [OF n(2,3)]
  have m: "consume_scan_keyword (''module'' @ CHR '' '' # n @ '';'') ''module'' = (True, CHR '' '' # n @ '';'')"
    and i: "consume_scan_keyword (''import'' @ CHR '' '' # n @ '';'') ''import'' = (True, CHR '' '' # n @ '';'')"
    using consume_found [of "''module''" "CHR ''m''" "''odule''"] consume_found [of "''import''" "CHR ''i''" "''mport''"]
    by simp_all
  show "parse_named_module_name_from_scan_line (e @ ''module '' @ n @ '';'') = canonicalize_scan_module_name n False"
    unfolding parse_named_module_name_from_scan_line_def skip m using nt by (simp add: Let_def)
  show "parse_imported_module_name_from_scan_line (e @ ''import '' @ n @ '';'') = canonicalize_scan_module_name n True"
    unfolding parse_imported_module_name_from_scan_line_def is_any_import_scan_line_def skip i using nt by (simp add: Let_def)
qed

subsection \<open>The preamble of a module unit\<close>

datatype PendingKind = No_Pending | Named_Module | Import_Decl

record preamble_state =
  seen_named_module :: bool
  pending_kind :: PendingKind
  pending_statement :: string

definition initial_preamble :: preamble_state where
  "initial_preamble = \<lparr>seen_named_module = False, pending_kind = No_Pending, pending_statement = []\<rparr>"

text \<open>Pieces of the text that end with their line feed, and the line without its ending.\<close>

function line_chunks :: "string \<Rightarrow> string list" where
  "line_chunks text =
     (if text = [] then []
      else let line = takeWhile (\<lambda>c. c \<noteq> LF) text; rest = dropWhile (\<lambda>c. c \<noteq> LF) text
           in if rest = [] then [line] else (line @ [LF]) # line_chunks (tl rest))"
  by pat_completeness auto
termination
proof (relation "measure length", goal_cases)
  case (2 s line rest)
  have *: "length (tl t) < length s" if "length t \<le> length s" for t :: string
    using that 2(1) by (cases s) (auto simp: less_Suc_eq_le)
  show ?case using * [OF length_dropWhile_le] 2 by simp
qed simp

declare line_chunks.simps [simp del]

definition line_without_ending :: "string \<Rightarrow> string" where
  "line_without_ending line =
     (let line = (if line \<noteq> [] \<and> last line = LF then butlast line else line)
      in if line \<noteq> [] \<and> last line = CHR 0x0D then butlast line else line)"

datatype rewrite_check = Needs_Rewrite | Not_Preamble | Go_On preamble_state

definition check_statement :: "preamble_state \<Rightarrow> string \<Rightarrow> rewrite_check" where
  "check_statement ps s =
     (if \<not> seen_named_module ps then
        (if is_global_module_fragment_scan_line s then Go_On ps
         else if pending_kind ps = Named_Module then Needs_Rewrite
         else if \<not> looks_like_named_module_scan_prefix s then Not_Preamble
         else let ps = ps\<lparr>pending_statement := s, pending_kind := Named_Module\<rparr>
              in if CHR '';'' \<notin> set s then Go_On ps
                 else if parse_named_module_name_from_scan_line s = None then Not_Preamble
                 else Go_On (ps\<lparr>pending_statement := [], pending_kind := No_Pending, seen_named_module := True\<rparr>))
      else if pending_kind ps = Import_Decl then Needs_Rewrite
      else if \<not> looks_like_import_scan_prefix s then Not_Preamble
      else let ps = ps\<lparr>pending_statement := s, pending_kind := Import_Decl\<rparr>
           in if CHR '';'' \<notin> set s then Go_On ps
              else if \<not> is_any_import_scan_line s then Not_Preamble
              else Go_On (ps\<lparr>pending_statement := [], pending_kind := No_Pending\<rparr>))"

fun preamble_requires_rewrite ::
  "(string \<Rightarrow> bool) \<Rightarrow> preamble_state \<Rightarrow> string list \<Rightarrow> ScanStreamState \<times> scan_log \<Rightarrow> bool option" where
  "preamble_requires_rewrite ex ps [] sl = Some False"
| "preamble_requires_rewrite ex ps (l # ls) sl =
     (case process_scan_physical_line ex (line_without_ending l) sl of
        None \<Rightarrow> None
      | Some (p, sl) \<Rightarrow>
          if \<not> is_active_code p then preamble_requires_rewrite ex ps ls sl
          else (case split_scan_statements (stripped p) of
                  [] \<Rightarrow> preamble_requires_rewrite ex ps ls sl
                | s # ss \<Rightarrow>
                    if ss \<noteq> [] then Some True
                    else case check_statement ps s of
                           Needs_Rewrite \<Rightarrow> Some True
                         | Not_Preamble \<Rightarrow> Some False
                         | Go_On ps \<Rightarrow> preamble_requires_rewrite ex ps ls sl))"

text \<open>The two flushes: \<open>None\<close> when the statement is no declaration; then nothing changes.\<close>

definition flush_named_module :: "preamble_state \<times> string \<Rightarrow> (preamble_state \<times> string) option" where
  "flush_named_module po =
     (case po of (ps, out) \<Rightarrow>
        (case parse_named_module_name_from_scan_line (pending_statement ps) of
           None \<Rightarrow> None
         | Some name \<Rightarrow>
             Some (ps\<lparr>pending_statement := [], pending_kind := No_Pending, seen_named_module := True\<rparr>,
                   out @ (if starts_with (normalize_scan_directive_line (pending_statement ps)) ''export ''
                          then ''export module '' else ''module '') @ name @ '';'' @ [LF])))"

definition flush_import :: "preamble_state \<times> string \<Rightarrow> (preamble_state \<times> string) option" where
  "flush_import po =
     (case po of (ps, out) \<Rightarrow>
        if \<not> is_any_import_scan_line (pending_statement ps) then None
        else Some (ps\<lparr>pending_statement := [], pending_kind := No_Pending\<rparr>,
                   out @ normalize_scan_directive_line (pending_statement ps) @ [LF]))"

definition join_pending :: "string \<Rightarrow> string \<Rightarrow> string" where
  "join_pending pending s = (if pending = [] then s else pending @ '' '' @ s)"

text \<open>One statement: the new state, or \<open>Inl\<close> the state in which the line is found not to be preamble.\<close>

definition rewrite_statement ::
  "preamble_state \<times> string \<Rightarrow> string \<Rightarrow> (preamble_state \<times> string) + (preamble_state \<times> string)" where
  "rewrite_statement po s =
     (let (ps, out) = po
      in if \<not> seen_named_module ps then
           (if is_global_module_fragment_scan_line s then Inr (ps, out @ ''module;'' @ [LF])
            else if pending_kind ps \<noteq> Named_Module \<and> \<not> looks_like_named_module_scan_prefix s then Inl po
            else let ps = ps\<lparr>pending_statement :=
                             (if pending_kind ps = Named_Module then join_pending (pending_statement ps) s else s),
                           pending_kind := Named_Module\<rparr>
                 in if CHR '';'' \<notin> set s then Inr (ps, out)
                    else case flush_named_module (ps, out) of None \<Rightarrow> Inl (ps, out) | Some po \<Rightarrow> Inr po)
         else if pending_kind ps \<noteq> Import_Decl \<and> \<not> looks_like_import_scan_prefix s then Inl po
         else let ps = ps\<lparr>pending_statement :=
                          (if pending_kind ps = Import_Decl then join_pending (pending_statement ps) s else s),
                        pending_kind := Import_Decl\<rparr>
              in if CHR '';'' \<notin> set s then Inr (ps, out)
                 else case flush_import (ps, out) of None \<Rightarrow> Inl (ps, out) | Some po \<Rightarrow> Inr po)"

fun rewrite_statements ::
  "preamble_state \<times> string \<Rightarrow> string list \<Rightarrow> (preamble_state \<times> string) + (preamble_state \<times> string)" where
  "rewrite_statements po [] = Inr po"
| "rewrite_statements po (s # ss) =
     (case rewrite_statement po s of Inl po \<Rightarrow> Inl po | Inr po \<Rightarrow> rewrite_statements po ss)"

definition finish_preamble :: "preamble_state \<times> string \<Rightarrow> string" where
  "finish_preamble po =
     (case po of (ps, out) \<Rightarrow>
        let rest = out @ pending_statement ps
        in if pending_kind ps = Named_Module then (case flush_named_module po of Some (_, out) \<Rightarrow> out | None \<Rightarrow> rest)
           else if pending_kind ps = Import_Decl then (case flush_import po of Some (_, out) \<Rightarrow> out | None \<Rightarrow> rest)
           else rest)"

fun rewrite_preamble ::
  "(string \<Rightarrow> bool) \<Rightarrow> preamble_state \<times> string \<Rightarrow> string list \<Rightarrow> ScanStreamState \<times> scan_log \<Rightarrow> string option" where
  "rewrite_preamble ex po [] sl = Some (finish_preamble po)"
| "rewrite_preamble ex po (l # ls) sl =
     (case process_scan_physical_line ex (line_without_ending l) sl of
        None \<Rightarrow> None
      | Some (p, sl) \<Rightarrow>
          if \<not> is_active_code p then rewrite_preamble ex (fst po, snd po @ l) ls sl
          else (case rewrite_statements po (split_scan_statements (stripped p)) of
                  Inl po \<Rightarrow> Some (snd po @ concat (l # ls))
                | Inr po \<Rightarrow> rewrite_preamble ex po ls sl))"

definition normalize_scan_module_preamble_source :: "(string \<Rightarrow> bool) \<Rightarrow> scan_log \<Rightarrow> string \<Rightarrow> string option" where
  "normalize_scan_module_preamble_source ex lg text =
     (let chunks = line_chunks text; st = initial_scan_state\<lparr>warn_on_unknown_conditions := False\<rparr>
      in case preamble_requires_rewrite ex initial_preamble chunks (st, lg) of
           None \<Rightarrow> None
         | Some False \<Rightarrow> Some text
         | Some True \<Rightarrow> rewrite_preamble ex (initial_preamble, []) chunks (st, lg))"

subsection \<open>Where the scanner falls short\<close>

lemma preamble_duplicates_declaration:
  "normalize_scan_module_preamble_source (\<lambda>_. False) empty_log (''module a; int x;'' @ [LF]) =
     Some (''module a;'' @ [LF] @ ''module a; int x;'' @ [LF])"
  by code_simp

lemma preamble_loses_export:
  "normalize_scan_module_preamble_source (\<lambda>_. False) empty_log
     (''export module a;'' @ [LF] @ ''export'' @ [LF] @ ''int x;'' @ [LF]) =
   Some (''export module a;'' @ [LF] @ ''int x;'' @ [LF])"
  by code_simp

lemma parenthesised_macro_dropped: "apply_define_undef ''define'' ''A (1)'' m = m"
proof -
  have "parse_scan_identifier ''A (1)'' = Some ''A''" "trim_ascii_view (drop (length ''A'') ''A (1)'') = ''(1)''"
    by code_simp+
  then show ?thesis by (simp add: apply_define_undef_def)
qed

lemma trailing_dot_accepted: "is_valid_scan_module_component ''a.''"
  by code_simp

lemma cyclic_operand_diverges: "resolve_operand [''A'' \<mapsto> ''A''] ''A'' = None"
proof -
  have a: "trim_ascii_view ''A'' = ''A''" "parse_scan_identifier ''A'' = Some ''A''" by code_simp+
  have "resolve_operand m s = Some y \<Longrightarrow> \<not> (m = [''A'' \<mapsto> ''A''] \<and> s = ''A'')" for m s y
  proof (erule resolve_operand.raw_induct [rotated])
    fix f m s y
    assume "\<And>m s y. f m s = Some y \<Longrightarrow> \<not> (m = [''A'' \<mapsto> ''A''] \<and> s = ''A'')"
      and "(let operand = trim_ascii_view s
            in if 2 \<le> length operand \<and> hd operand = DQ \<and> last operand = DQ then Some (Some (butlast (tl operand), False))
               else if 2 \<le> length operand \<and> hd operand = CHR ''<'' \<and> last operand = CHR ''>'' then
                 Some (Some (butlast (tl operand), True))
               else case parse_scan_identifier operand of
                      None \<Rightarrow> Some None
                    | Some ident \<Rightarrow>
                        if ident = operand then (case m ident of None \<Rightarrow> Some None | Some body \<Rightarrow> f m (trim_ascii_view body))
                        else Some None) = Some y"
    then show "\<not> (m = [''A'' \<mapsto> ''A''] \<and> s = ''A'')" by (auto simp: a Let_def) blast
  qed
  then show ?thesis by (cases "resolve_operand [''A'' \<mapsto> ''A''] ''A''") auto
qed

subsection \<open>Include directories\<close>

text \<open>
  Paths of POSIX: the name after the last separator, what is before it, and the normal form of
  \<^verbatim>\<open>lexically_normal\<close>.  The directory listing, the two file-system queries and the environment are
  parameters, collected in \<open>scan_fs\<close>; the model is of the branch for Linux.
\<close>

record scan_fs =
  fs_exists :: "string \<Rightarrow> bool"
  fs_is_directory :: "string \<Rightarrow> bool"
  fs_entries :: "string \<Rightarrow> string list"
  fs_getenv :: "string \<Rightarrow> string option"

definition path_filename :: "string \<Rightarrow> string" where
  "path_filename p = rev (takeWhile (\<lambda>c. c \<noteq> CHR ''/'') (rev p))"

definition path_parent :: "string \<Rightarrow> string" where
  "path_parent p =
     (let dir = rev (dropWhile (\<lambda>c. c \<noteq> CHR ''/'') (rev p)); bare = rev (dropWhile (\<lambda>c. c = CHR ''/'') (rev dir))
      in if bare = [] \<and> dir \<noteq> [] then ''/'' else bare)"

fun split_path :: "string \<Rightarrow> string \<Rightarrow> string list" where
  "split_path acc [] = [acc]"
| "split_path acc (c # cs) = (if c = CHR ''/'' then acc # split_path [] cs else split_path (acc @ [c]) cs)"

fun normal_components :: "bool \<Rightarrow> string list \<Rightarrow> string list \<Rightarrow> string list" where
  "normal_components absolute acc [] = rev acc"
| "normal_components absolute acc (x # xs) =
     (if x = [] \<or> x = ''.'' then normal_components absolute acc xs
      else if x = ''..'' then
        (case acc of
           [] \<Rightarrow> normal_components absolute (if absolute then [] else [''..'']) xs
         | y # ys \<Rightarrow> if y = ''..'' then normal_components absolute (''..'' # acc) xs else normal_components absolute ys xs)
      else normal_components absolute (x # acc) xs)"

fun join_path :: "string list \<Rightarrow> string" where
  "join_path [] = []"
| "join_path [x] = x"
| "join_path (x # xs) = x @ ''/'' @ join_path xs"

definition lexically_normal :: "string \<Rightarrow> string" where
  "lexically_normal p =
     (if p = [] then []
      else let parts = split_path [] p; absolute = (hd p = CHR ''/''); comps = normal_components absolute [] parts;
               trailing = (last parts \<in> {[], ''.'', ''..''} \<and> comps \<noteq> [] \<and> last comps \<noteq> ''..'');
               body = join_path comps @ (if trailing then ''/'' else [])
           in if absolute then ''/'' @ body else if body = [] then ''.'' else body)"

definition read_scan_env_value :: "scan_fs \<Rightarrow> string \<Rightarrow> string option" where
  "read_scan_env_value fs name = (case fs_getenv fs name of None \<Rightarrow> None | Some v \<Rightarrow> if v = [] then None else Some v)"

fun split_env :: "string \<Rightarrow> string \<Rightarrow> string list" where
  "split_env acc [] = (if trim_ascii_view acc = [] then [] else [trim_ascii_view acc])"
| "split_env acc (c # cs) =
     (if c = CHR '':'' then (if trim_ascii_view acc = [] then [] else [trim_ascii_view acc]) @ split_env [] cs
      else split_env (acc @ [c]) cs)"

definition split_scan_env_paths :: "scan_fs \<Rightarrow> string \<Rightarrow> string list" where
  "split_scan_env_paths fs name = (case read_scan_env_value fs name of None \<Rightarrow> [] | Some raw \<Rightarrow> split_env [] raw)"

definition usable_directory :: "scan_fs \<Rightarrow> string \<Rightarrow> bool" where
  "usable_directory fs path \<longleftrightarrow> path \<noteq> [] \<and> fs_exists fs path \<and> fs_is_directory fs path"

definition append_unique_scan_path :: "scan_fs \<Rightarrow> string \<Rightarrow> string list \<Rightarrow> string list" where
  "append_unique_scan_path fs path paths =
     (if \<not> usable_directory fs path then paths
      else let normalized = lexically_normal path in if normalized \<in> set paths then paths else paths @ [normalized])"

definition directory_entries :: "scan_fs \<Rightarrow> string \<Rightarrow> string list" where
  "directory_entries fs root_dir = map (path_join root_dir) (fs_entries fs root_dir)"

definition append_scan_subdirectories :: "scan_fs \<Rightarrow> string \<Rightarrow> string list \<Rightarrow> string list" where
  "append_scan_subdirectories fs root_dir paths =
     (if \<not> usable_directory fs root_dir then paths
      else fold (append_unique_scan_path fs) (filter (fs_is_directory fs) (directory_entries fs root_dir)) paths)"

definition contains_text :: "string \<Rightarrow> string \<Rightarrow> bool" where
  "contains_text s t \<longleftrightarrow> list_ex (\<lambda>i. starts_with (drop i s) t) [0..<Suc (length s)]"

definition target_cxx_directories :: "scan_fs \<Rightarrow> string list \<Rightarrow> string list" where
  "target_cxx_directories fs paths =
     (if \<not> fs_exists fs ''/usr/include'' then paths
      else fold (\<lambda>entry paths.
               if fs_is_directory fs entry \<and> contains_text (path_filename entry) ''-linux-gnu''
               then append_scan_subdirectories fs (path_join entry ''c++'') (append_unique_scan_path fs (path_join entry ''c++'') paths)
               else paths)
             (directory_entries fs ''/usr/include'') paths)"

definition clang_directories :: "scan_fs \<Rightarrow> string list \<Rightarrow> string list" where
  "clang_directories fs paths =
     (let paths = append_scan_subdirectories fs ''/usr/lib/clang'' (append_unique_scan_path fs ''/usr/lib/clang'' paths);
          paths = fold (append_scan_subdirectories fs) (filter (\<lambda>p. path_filename p = ''clang'') paths) paths;
          include_dirs =
            fold (\<lambda>p dirs.
                if path_filename p = ''include'' \<and> path_filename (path_parent p) = ''clang'' then dirs
                else if path_filename (path_parent p) = ''clang'' then append_unique_scan_path fs (path_join p ''include'') dirs
                else dirs) paths []
      in fold (append_unique_scan_path fs) include_dirs paths)"

definition default_scan_include_search_paths :: "scan_fs \<Rightarrow> string \<Rightarrow> string list \<Rightarrow> string list" where
  "default_scan_include_search_paths fs source_dir extra_paths =
     (let paths = fold (append_unique_scan_path fs) extra_paths (append_unique_scan_path fs source_dir []);
          paths = fold (append_unique_scan_path fs)
                    (concat (map (split_scan_env_paths fs) [''CPATH'', ''CPLUS_INCLUDE_PATH'', ''C_INCLUDE_PATH''])) paths;
          paths = fold (append_unique_scan_path fs) [''/usr/local/include'', ''/usr/include'', ''/usr/include/c++''] paths;
          paths = append_scan_subdirectories fs ''/usr/include/c++'' paths
      in clang_directories fs (target_cxx_directories fs paths))"

text \<open>Every step extends the list by normal forms of usable directories it does not have yet.\<close>

definition extends_paths :: "scan_fs \<Rightarrow> string list \<Rightarrow> string list \<Rightarrow> bool" where
  "extends_paths fs ps qs \<longleftrightarrow>
     (distinct ps \<longrightarrow> distinct qs) \<and> (\<exists>xs. qs = ps @ xs \<and> set xs \<subseteq> lexically_normal ` Collect (usable_directory fs))"

lemma extends_refl: "extends_paths fs ps ps"
  by (auto simp: extends_paths_def)

lemma extends_trans: "extends_paths fs ps qs \<Longrightarrow> extends_paths fs qs rs \<Longrightarrow> extends_paths fs ps rs"
  by (force simp: extends_paths_def)

lemma extends_append: "extends_paths fs ps (append_unique_scan_path fs p ps)"
  by (auto simp: extends_paths_def append_unique_scan_path_def Let_def)

lemma extends_fold:
  assumes "\<And>x ps. extends_paths fs ps (f x ps)"
  shows "extends_paths fs ps (fold f xs ps)"
  using assms by (induction xs arbitrary: ps) (auto intro: extends_refl extends_trans)

lemma extends_subdirectories: "extends_paths fs ps (append_scan_subdirectories fs r ps)"
  by (simp add: append_scan_subdirectories_def extends_refl extends_fold extends_append)

lemma extends_target: "extends_paths fs ps (target_cxx_directories fs ps)"
  by (auto simp: target_cxx_directories_def extends_refl extends_trans [OF extends_append extends_subdirectories]
      intro!: extends_fold)

lemma extends_clang: "extends_paths fs ps (clang_directories fs ps)"
  unfolding clang_directories_def Let_def
  by (rule extends_trans [OF extends_trans [OF extends_trans [OF extends_append extends_subdirectories]
          extends_fold [OF extends_subdirectories]] extends_fold [OF extends_append]])

lemma default_paths_extend:
  "extends_paths fs (append_unique_scan_path fs source_dir []) (default_scan_include_search_paths fs source_dir extra)"
  unfolding default_scan_include_search_paths_def Let_def
  by (rule extends_trans [OF _ extends_clang], rule extends_trans [OF _ extends_target],
      rule extends_trans [OF _ extends_subdirectories], rule extends_trans [OF _ extends_fold [OF extends_append]],
      rule extends_trans [OF _ extends_fold [OF extends_append]], rule extends_fold [OF extends_append])

text \<open>
  The search path of \<^verbatim>\<open>__has_include\<close> lists normal forms of existing directories only, each once.
\<close>

theorem search_paths_distinct_directories:
  "distinct (default_scan_include_search_paths fs source_dir extra)
   \<and> set (default_scan_include_search_paths fs source_dir extra) \<subseteq> lexically_normal ` Collect (usable_directory fs)"
proof -
  have "extends_paths fs [] (default_scan_include_search_paths fs source_dir extra)"
    using extends_append default_paths_extend by (rule extends_trans)
  then show ?thesis by (auto simp: extends_paths_def)
qed

subsection \<open>The module name of a source file\<close>

definition named_module_name_from_source_file ::
  "scan_fs \<Rightarrow> (string \<Rightarrow> string option) \<Rightarrow> string \<Rightarrow> string list \<Rightarrow> string list \<Rightarrow> scan_log \<Rightarrow> string option option" where
  "named_module_name_from_source_file fs read_file path extra_paths command_line lg =
     (case read_file path of
        None \<Rightarrow> Some None
      | Some text \<Rightarrow>
          search_module (fs_exists fs) (getlines [] text) None
            (populate_scan_macros_from_command_line command_line
               (initial_scan_state\<lparr>source_path := path, source_directory := path_parent path,
                  include_search_paths := default_scan_include_search_paths fs (path_parent path) extra_paths\<rparr>), lg))"

text \<open>The search over the active lines alone.\<close>

fun search_active :: "string option \<Rightarrow> string list \<Rightarrow> string option" where
  "search_active pending [] = None"
| "search_active pending (l # ls) =
     (case search_statements pending (split_scan_statements l) of Found name \<Rightarrow> Some name | Search p \<Rightarrow> search_active p ls)"

lemma search_module_active:
  assumes "scan_lines ex ls sl = Some (ps, sl')"
  shows "search_module ex ls pending sl = Some (search_active pending (active_text ps))"
  using assms
  by (induction ls arbitrary: pending sl ps) (auto simp: active_text_def split: option.splits module_search.splits)

definition join_lines :: "string list \<Rightarrow> string" where
  "join_lines ls = concat (map (\<lambda>l. l @ [LF]) ls)"

lemma getlines_line: "LF \<notin> set l \<Longrightarrow> getlines acc (l @ LF # rest) = (acc @ l) # getlines [] rest"
  by (induction l arbitrary: acc) auto

lemma getlines_join: "list_all (\<lambda>l. LF \<notin> set l) ls \<Longrightarrow> getlines [] (join_lines ls) = ls"
  by (induction ls) (simp_all add: join_lines_def getlines_line)

definition source_state :: "scan_fs \<Rightarrow> string \<Rightarrow> string list \<Rightarrow> string list \<Rightarrow> ScanStreamState" where
  "source_state fs path extra_paths command_line =
     populate_scan_macros_from_command_line command_line
       (initial_scan_state\<lparr>source_path := path, source_directory := path_parent path,
          include_search_paths := default_scan_include_search_paths fs (path_parent path) extra_paths\<rparr>)"


subsection \<open>Instances\<close>

definition sample_fs :: scan_fs where
  "sample_fs = \<lparr>fs_exists = (\<lambda>_. False), fs_is_directory = (\<lambda>_. False), fs_entries = (\<lambda>_. []), fs_getenv = (\<lambda>_. None)\<rparr>"


theorem module_declaration_roundtrip_witness:
  "parse_named_module_name_from_scan_line ''export module a.b:part;'' = Some ''a.b:part''"
proof -
  have "canonicalize_scan_module_name '' a.b : part '' False = Some ''a.b:part''" by code_simp
  from module_declaration_roundtrip [OF this, of "''export ''"] show ?thesis by simp
qed

end
