(* ===== verification/Output_Plan.thy ===== *)
theory Output_Plan
  imports Scan_Modules Cli
begin

section \<open>Options and planned outputs of the generator: \<^verbatim>\<open>tools/src/model.hpp\<close>, \<^verbatim>\<open>emit.cpp\<close>, \<^verbatim>\<open>mock_domain_plan.hpp\<close>\<close>

text \<open>
  Before anything is written, the generator derives every output path from its options and refuses
  options under which two outputs, or an output and an input, are the same file.  A path is a string;
  \<open>path_key\<close> (absolute and weakly canonical, a file-system query) and the module name that the scanner
  finds in a source are arguments.  \<open>Inl\<close> carries the error message.
\<close>

subsection \<open>Options\<close>

record CollectorOptions =
  tu_output_dir :: string
  tu_output_headers :: "string list"
  module_wrapper_outputs :: "string list"
  module_registration_outputs :: "string list"
  textual_registration_outputs :: "string list"
  scan_slot_kinds :: "string list"
  compile_context_ids :: "string list"
  compile_context_fingerprints :: "string list"
  artifact_manifest_path :: string
  mock_domain_registry_outputs :: "string list"
  mock_domain_impl_outputs :: "string list"
  mock_output_domain_modules :: "string list"
  mock_manifest_output_path :: string
  mock_manifest_input_path :: string
  mock_registry_path :: string
  mock_impl_path :: string
  mock_public_header_path :: string
  mock_aggregate_module_path :: string
  mock_aggregate_module_name :: string
  depfile_path :: "string option"
  sources :: "string list"
  module_interface_names_by_source :: "string \<rightharpoonup> string"
  module_interface_sources :: "string set"
  explicit_module_sources_by_name :: "(string \<times> string list) list"
  header_declaration_registration :: bool

definition path_replace_extension :: "string \<Rightarrow> string \<Rightarrow> string" where
  "path_replace_extension ext p =
     (let name = path_filename p; dir = take (length p - length name) p;
          stem = rev (tl (dropWhile (\<lambda>c. c \<noteq> CHR ''.'') (rev name)))
      in if name = [] \<or> name = ''.'' \<or> name = ''..'' \<or> CHR ''.'' \<notin> set name \<or> stem = [] then p @ ext
         else dir @ stem @ ext)"

definition resolve_tu_header_output :: "CollectorOptions \<Rightarrow> nat \<Rightarrow> string" where
  "resolve_tu_header_output opts idx =
     (if idx < length (tu_output_headers opts) \<and> tu_output_headers opts ! idx \<noteq> [] then tu_output_headers opts ! idx
      else path_replace_extension ''.h'' (path_join (tu_output_dir opts) (path_filename (sources opts ! idx))))"

definition is_module_interface_source :: "(string \<Rightarrow> string option) \<Rightarrow> CollectorOptions \<Rightarrow> string \<Rightarrow> bool" where
  "is_module_interface_source source_module opts path \<longleftrightarrow>
     path \<in> module_interface_sources opts \<or> source_module path \<noteq> None"

definition compile_context_id_for :: "CollectorOptions \<Rightarrow> nat \<Rightarrow> string" where
  "compile_context_id_for opts idx =
     (if idx < length (compile_context_ids opts) \<and> compile_context_ids opts ! idx \<noteq> [] then compile_context_ids opts ! idx
      else if idx < length (sources opts) then sources opts ! idx else [])"

subsection \<open>Checks of the options\<close>

definition validate_compile_context_ids :: "CollectorOptions \<Rightarrow> string option" where
  "validate_compile_context_ids opts =
     (if compile_context_ids opts = [] then None
      else if length (compile_context_ids opts) \<noteq> length (sources opts) then
        Some (''expected '' @ show_nat (length (sources opts)) @ '' --compile-context-id value(s) for ''
              @ show_nat (length (sources opts)) @ '' input source(s), got '' @ show_nat (length (compile_context_ids opts)))
      else None)"

fun unsupported_kind :: "string list \<Rightarrow> string option" where
  "unsupported_kind [] = None"
| "unsupported_kind (k # ks) =
     (if k \<noteq> ''authored-tu'' \<and> k \<noteq> ''fallback-header'' then
        Some (''unsupported --scan-slot-kind '' @ [SQ] @ k @ [SQ] @ ''; expected '' @ [SQ] @ ''authored-tu'' @ [SQ] @ '' or ''
              @ [SQ] @ ''fallback-header'' @ [SQ])
      else unsupported_kind ks)"

definition validate_scan_slot_kinds :: "CollectorOptions \<Rightarrow> string option" where
  "validate_scan_slot_kinds opts =
     (if scan_slot_kinds opts = [] then None
      else if \<not> header_declaration_registration opts then Some ''--scan-slot-kind requires --textual-registration-output''
      else if length (scan_slot_kinds opts) \<noteq> length (sources opts) then
        Some (''expected '' @ show_nat (length (sources opts)) @ '' --scan-slot-kind value(s) for ''
              @ show_nat (length (sources opts)) @ '' input source(s), got '' @ show_nat (length (scan_slot_kinds opts)))
      else unsupported_kind (scan_slot_kinds opts))"

definition has_explicit_output :: "string list \<Rightarrow> nat \<Rightarrow> bool" where
  "has_explicit_output outputs idx \<longleftrightarrow> idx < length outputs \<and> outputs ! idx \<noteq> []"

definition validate_module_wrapper_outputs :: "CollectorOptions \<Rightarrow> string option" where
  "validate_module_wrapper_outputs opts =
     (if tu_output_dir opts = [] \<or> module_interface_sources opts = {} \<or> module_registration_outputs opts \<noteq> [] then None
      else case List.find (\<lambda>idx. sources opts ! idx \<in> module_interface_sources opts
                             \<and> \<not> has_explicit_output (module_wrapper_outputs opts) idx) [0..<length (sources opts)] of
             None \<Rightarrow> None
           | Some idx \<Rightarrow> Some (''named module source '' @ [SQ] @ sources opts ! idx @ [SQ]
                              @ '' requires an explicit --module-wrapper-output path in TU mode''))"

fun registration_errors :: "CollectorOptions \<Rightarrow> nat list \<Rightarrow> string option" where
  "registration_errors opts [] = None"
| "registration_errors opts (idx # is) =
     (let source = sources opts ! idx
      in case module_interface_names_by_source opts source of
           None \<Rightarrow> Some (''module registration input '' @ [SQ] @ source @ [SQ] @ '' is not a named module source'')
         | Some name \<Rightarrow>
             if name = [] then Some (''module registration input '' @ [SQ] @ source @ [SQ] @ '' is not a named module source'')
             else if \<not> has_explicit_output (module_registration_outputs opts) idx then
               Some (''named module source '' @ [SQ] @ source @ [SQ] @ '' requires an explicit --module-registration-output path'')
             else registration_errors opts is)"

definition validate_module_registration_outputs :: "CollectorOptions \<Rightarrow> string option" where
  "validate_module_registration_outputs opts =
     (if module_registration_outputs opts = [] then None else registration_errors opts [0..<length (sources opts)])"

subsection \<open>Output domains of mocks\<close>

datatype MockDomainKind = Header_Domain | Module_Domain

record MockOutputDomainPlan =
  domain_kind :: MockDomainKind
  domain_module :: string
  domain_registry :: string
  domain_impl :: string

definition module_domain :: "string \<Rightarrow> MockOutputDomainPlan" where
  "module_domain name = \<lparr>domain_kind = Module_Domain, domain_module = name, domain_registry = [], domain_impl = []\<rparr>"

fun first_seen :: "string list \<Rightarrow> string list \<Rightarrow> string list" where
  "first_seen seen_names [] = []"
| "first_seen seen_names (n # ns) =
     (if n = [] \<or> n \<in> set seen_names then first_seen seen_names ns else n # first_seen (n # seen_names) ns)"

definition source_module_names :: "(string \<Rightarrow> string option) \<Rightarrow> CollectorOptions \<Rightarrow> string list" where
  "source_module_names source_module opts =
     List.map_filter (\<lambda>s. case module_interface_names_by_source opts s of Some n \<Rightarrow> Some n | None \<Rightarrow> source_module s) (sources opts)"

definition mock_domain_modules_from_context :: "(string \<Rightarrow> string option) \<Rightarrow> CollectorOptions \<Rightarrow> string list" where
  "mock_domain_modules_from_context source_module opts = first_seen [] (source_module_names source_module opts)"

definition describe_mock_output_domains ::
  "(string \<Rightarrow> string option) \<Rightarrow> CollectorOptions \<Rightarrow> MockOutputDomainPlan list" where
  "describe_mock_output_domains source_module opts =
     (if mock_registry_path opts = [] \<and> mock_impl_path opts = [] then []
      else let header = \<lparr>domain_kind = Header_Domain, domain_module = [], domain_registry = [], domain_impl = []\<rparr>
           in if mock_registry_path opts = [] \<or> mock_impl_path opts = [] then [header]
              else header # map module_domain
                     (first_seen [] (if mock_output_domain_modules opts \<noteq> [] then mock_output_domain_modules opts
                                     else source_module_names source_module opts)))"

definition validate_mock_output_domains :: "(string \<Rightarrow> string option) \<Rightarrow> CollectorOptions \<Rightarrow> string option" where
  "validate_mock_output_domains source_module opts =
     (let base_registry = (mock_registry_path opts \<noteq> []); base_impl = (mock_impl_path opts \<noteq> []);
          explicit_registry = (mock_domain_registry_outputs opts \<noteq> []); explicit_impl = (mock_domain_impl_outputs opts \<noteq> []);
          expected = length (describe_mock_output_domains source_module opts)
      in if \<not> explicit_registry \<and> \<not> explicit_impl then
           (if base_registry \<and> base_impl
            then Some ''mock outputs require explicit --mock-domain-registry-output/--mock-domain-impl-output paths'' else None)
         else if explicit_registry \<noteq> explicit_impl then
           Some ''explicit mock domain outputs require matching --mock-domain-registry-output and --mock-domain-impl-output lists''
         else if \<not> base_registry \<or> \<not> base_impl then
           Some ''explicit mock domain outputs require both --mock-registry and --mock-impl''
         else if length (mock_domain_registry_outputs opts) \<noteq> expected \<or> length (mock_domain_impl_outputs opts) \<noteq> expected then
           Some (''expected '' @ show_nat expected
             @ '' --mock-domain-registry-output/--mock-domain-impl-output value(s) for discovered mock output domains, got ''
             @ show_nat (length (mock_domain_registry_outputs opts)) @ '' and '' @ show_nat (length (mock_domain_impl_outputs opts)))
         else None)"

definition build_mock_output_domains ::
  "(string \<Rightarrow> string option) \<Rightarrow> CollectorOptions \<Rightarrow> MockOutputDomainPlan list" where
  "build_mock_output_domains source_module opts =
     (let domains = describe_mock_output_domains source_module opts
      in map (\<lambda>idx. if idx < length (mock_domain_registry_outputs opts) \<and> idx < length (mock_domain_impl_outputs opts)
                    then (domains ! idx)\<lparr>domain_registry := mock_domain_registry_outputs opts ! idx,
                                         domain_impl := mock_domain_impl_outputs opts ! idx\<rparr>
                    else domains ! idx) [0..<length domains])"

subsection \<open>Collisions of outputs\<close>

text \<open>An output or a reserved input: its canonical path, its role and its owner.\<close>

type_synonym artifact = "string \<times> string \<times> string"

definition casefolded_path_key :: "(string \<Rightarrow> string) \<Rightarrow> string \<Rightarrow> string" where
  "casefolded_path_key path_key path = map to_lower_ascii (path_key path)"

definition add_artifact :: "(string \<Rightarrow> string) \<Rightarrow> string \<times> string \<times> string \<Rightarrow> artifact list \<Rightarrow> string + artifact list" where
  "add_artifact path_key pro arts =
     (case pro of (path, role, owner) \<Rightarrow>
        if path = [] then Inl (''generated artifact output is empty for role '' @ [SQ] @ role @ [SQ] @ '' owned by '' @ owner)
        else Inr (arts @ [(casefolded_path_key path_key path, role, owner)]))"

fun add_artifacts :: "(string \<Rightarrow> string) \<Rightarrow> (string \<times> string \<times> string) list \<Rightarrow> artifact list \<Rightarrow> string + artifact list" where
  "add_artifacts path_key [] arts = Inr arts"
| "add_artifacts path_key (p # ps) arts =
     (case add_artifact path_key p arts of Inl e \<Rightarrow> Inl e | Inr arts \<Rightarrow> add_artifacts path_key ps arts)"

definition slot_owner :: "CollectorOptions \<Rightarrow> nat \<Rightarrow> string \<Rightarrow> string" where
  "slot_owner opts idx how = ''source slot '' @ show_nat idx @ '' '' @ [SQ] @ sources opts ! idx @ [SQ] @ '' ('' @ how @ '')''"

definition reserved_inputs :: "(string \<Rightarrow> string) \<Rightarrow> CollectorOptions \<Rightarrow> artifact list" where
  "reserved_inputs path_key opts =
     map (\<lambda>(path, role, owner). (casefolded_path_key path_key path, role, owner))
       (filter (\<lambda>(path, _). path \<noteq> [])
         (map (\<lambda>idx. (sources opts ! idx, ''input source'',
                 ''source slot '' @ show_nat idx @ '' '' @ [SQ] @ sources opts ! idx @ [SQ])) [0..<length (sources opts)]
          @ [(mock_manifest_input_path opts, ''mock manifest input'',
               ''option '' @ [SQ] @ ''--mock-manifest-input'' @ [SQ] @ '' ('' @ [SQ] @ mock_manifest_input_path opts @ [SQ] @ '')'')]
          @ concat (map (\<lambda>(name, paths). map (\<lambda>path. (path, ''external module source'',
               ''external module source for '' @ [SQ] @ name @ [SQ] @ '' ('' @ [SQ] @ path @ [SQ] @ '')'')) paths)
             (explicit_module_sources_by_name opts))))"

definition misaligned :: "CollectorOptions \<Rightarrow> string list \<times> string \<Rightarrow> bool" where
  "misaligned opts po \<longleftrightarrow> fst po \<noteq> [] \<and> length (fst po) \<noteq> length (sources opts)"

definition alignment_error :: "CollectorOptions \<Rightarrow> string option" where
  "alignment_error opts =
     map_option (\<lambda>(paths, option_name). ''generated artifact output alignment for '' @ option_name @ '' expected ''
         @ show_nat (length (sources opts)) @ '' slot(s), got '' @ show_nat (length paths))
       (List.find (misaligned opts)
         [(tu_output_headers opts, ''--tu-header-output''), (textual_registration_outputs opts, ''--textual-registration-output''),
          (module_wrapper_outputs opts, ''--module-wrapper-output''), (module_registration_outputs opts, ''--module-registration-output'')])"

definition header_outputs :: "CollectorOptions \<Rightarrow> (string \<times> string \<times> string) list" where
  "header_outputs opts =
     (if tu_output_dir opts \<noteq> [] \<and> textual_registration_outputs opts = [] then
        map (\<lambda>idx. (resolve_tu_header_output opts idx, ''TU registration header'',
               slot_owner opts idx (if has_explicit_output (tu_output_headers opts) idx then ''--tu-header-output''
                                    else ''derived from --tu-out-dir''))) [0..<length (sources opts)]
      else [])"

definition slot_outputs :: "CollectorOptions \<Rightarrow> string list \<Rightarrow> string \<Rightarrow> string \<Rightarrow> (string \<times> string \<times> string) list" where
  "slot_outputs opts outputs role option_name =
     map (\<lambda>idx. (outputs ! idx, role, slot_owner opts idx option_name)) [0..<length outputs]"

text \<open>The wrapper of a named module: an empty path is an error only if the source was declared a module interface.\<close>

definition wrapper_outputs :: "(string \<Rightarrow> string option) \<Rightarrow> CollectorOptions \<Rightarrow> (string \<times> string \<times> string) list" where
  "wrapper_outputs source_module opts =
     map (\<lambda>idx. (module_wrapper_outputs opts ! idx, ''module wrapper'', slot_owner opts idx ''--module-wrapper-output''))
       (filter (\<lambda>idx. is_module_interface_source source_module opts (sources opts ! idx)
                  \<and> (module_wrapper_outputs opts ! idx = [] \<longrightarrow> sources opts ! idx \<in> module_interface_sources opts))
         [0..<length (module_wrapper_outputs opts)])"

definition option_outputs :: "CollectorOptions \<Rightarrow> (string \<times> string \<times> string) list" where
  "option_outputs opts =
     map (\<lambda>(path, role, option_name). (path, role, ''option '' @ [SQ] @ option_name @ [SQ]))
       (filter (\<lambda>(path, _). path \<noteq> [])
         [(artifact_manifest_path opts, ''artifact manifest'', ''--artifact-manifest''),
          (mock_registry_path opts, ''mock registry'', ''--mock-registry''),
          (mock_impl_path opts, ''mock implementation'', ''--mock-impl''),
          (mock_public_header_path opts, ''mock public header'', ''--mock-public-header''),
          (mock_aggregate_module_path opts, ''mock aggregate module'', ''--mock-aggregate-module-output''),
          (mock_manifest_output_path opts, ''mock manifest'', ''--mock-manifest-output''),
          (case depfile_path opts of None \<Rightarrow> [] | Some p \<Rightarrow> p, ''depfile'', ''--depfile'')])"

definition mock_domain_owner :: "CollectorOptions \<Rightarrow> nat \<Rightarrow> string \<Rightarrow> string" where
  "mock_domain_owner opts idx option_name =
     (if idx = 0 then ''mock output domain slot 0 '' @ [SQ] @ ''header'' @ [SQ] @ '' ('' @ option_name @ '')''
      else if idx - 1 < length (mock_output_domain_modules opts) then
        ''mock output domain slot '' @ show_nat idx @ '' module '' @ [SQ] @ mock_output_domain_modules opts ! (idx - 1) @ [SQ]
        @ '' ('' @ option_name @ '')''
      else ''mock output domain slot '' @ show_nat idx @ '' ('' @ option_name @ '')'')"

definition domain_outputs :: "CollectorOptions \<Rightarrow> (string \<times> string \<times> string) list" where
  "domain_outputs opts =
     concat (map (\<lambda>idx.
         [(mock_domain_registry_outputs opts ! idx, ''mock domain registry'', mock_domain_owner opts idx ''--mock-domain-registry-output''),
          (mock_domain_impl_outputs opts ! idx, ''mock domain implementation'', mock_domain_owner opts idx ''--mock-domain-impl-output'')])
       [0..<length (mock_domain_registry_outputs opts)])"

definition slot_artifacts :: "(string \<Rightarrow> string option) \<Rightarrow> CollectorOptions \<Rightarrow> (string \<times> string \<times> string) list" where
  "slot_artifacts source_module opts =
     header_outputs opts
     @ slot_outputs opts (textual_registration_outputs opts) ''textual header registration'' ''--textual-registration-output''
     @ wrapper_outputs source_module opts
     @ slot_outputs opts (module_registration_outputs opts) ''module registration'' ''--module-registration-output''
     @ option_outputs opts"

definition planned_artifacts ::
  "(string \<Rightarrow> string) \<Rightarrow> (string \<Rightarrow> string option) \<Rightarrow> CollectorOptions \<Rightarrow> string + artifact list" where
  "planned_artifacts path_key source_module opts =
     (if (tu_output_headers opts \<noteq> [] \<or> textual_registration_outputs opts \<noteq> [] \<or> module_wrapper_outputs opts \<noteq> []
          \<or> module_registration_outputs opts \<noteq> []) \<and> tu_output_dir opts = [] then
        Inl ''source-associated generated artifact outputs require --tu-out-dir''
      else case alignment_error opts of
        Some e \<Rightarrow> Inl e
      | None \<Rightarrow>
          (case add_artifacts path_key (slot_artifacts source_module opts) [] of
             Inl e \<Rightarrow> Inl e
           | Inr arts \<Rightarrow>
               if length (mock_domain_registry_outputs opts) \<noteq> length (mock_domain_impl_outputs opts) then
                 Inl (''generated artifact output alignment for explicit mock domains expected matching registry/implementation slots, got ''
                      @ show_nat (length (mock_domain_registry_outputs opts)) @ '' and '' @ show_nat (length (mock_domain_impl_outputs opts)))
               else add_artifacts path_key (domain_outputs opts) arts))"

fun input_conflict :: "artifact list \<Rightarrow> artifact list \<Rightarrow> string option" where
  "input_conflict inputs [] = None"
| "input_conflict inputs ((key, role, owner) # arts) =
     (case dropWhile (\<lambda>i. fst i < key) inputs of
        [] \<Rightarrow> input_conflict inputs arts
      | (ikey, irole, iowner) # _ \<Rightarrow>
          if ikey \<noteq> key then input_conflict inputs arts
          else Some (''generated artifact output at canonical path '' @ [SQ] @ key @ [SQ] @ '': role '' @ [SQ] @ role @ [SQ]
                     @ '' owned by '' @ owner @ '' conflicts with '' @ irole @ '' owned by '' @ iowner))"

fun artifact_conflict :: "artifact list \<Rightarrow> string option" where
  "artifact_conflict ((k1, r1, o1) # (k2, r2, o2) # arts) =
     (if k1 \<noteq> k2 \<or> r1 = r2 \<and> o1 = o2 then artifact_conflict ((k2, r2, o2) # arts)
      else Some (''generated artifact collision at canonical path '' @ [SQ] @ k1 @ [SQ] @ '': role '' @ [SQ] @ r1 @ [SQ]
                 @ '' owned by '' @ o1 @ '' conflicts with role '' @ [SQ] @ r2 @ [SQ] @ '' owned by '' @ o2
                 @ (if r1 = ''TU registration header'' \<and> r2 = ''TU registration header''
                    then ''; multiple sources map to the same TU output header'' else [])))"
| "artifact_conflict _ = None"

definition validate_generated_artifact_outputs ::
  "(string \<Rightarrow> string) \<Rightarrow> (string \<Rightarrow> string option) \<Rightarrow> CollectorOptions \<Rightarrow> string option" where
  "validate_generated_artifact_outputs path_key source_module opts =
     (case planned_artifacts path_key source_module opts of
        Inl e \<Rightarrow> Some e
      | Inr arts \<Rightarrow>
          (case input_conflict (sort (reserved_inputs path_key opts)) arts of
             Some e \<Rightarrow> Some e
           | None \<Rightarrow> artifact_conflict (sort arts)))"

subsection \<open>Accepted options have no collisions\<close>

lemma input_conflict_None:
  assumes "sorted inputs"
  shows "input_conflict inputs arts = None \<longleftrightarrow> fst ` set arts \<inter> fst ` set inputs = {}"
proof (induction arts)
  case (Cons a arts)
  obtain key role owner where a: "a = (key, role, owner)" by (cases a)
  have "(case dropWhile (\<lambda>i. fst i < key) inputs of [] \<Rightarrow> False | i # _ \<Rightarrow> fst i = key) \<longleftrightarrow> key \<in> fst ` set inputs"
    using assms
  proof (induction inputs)
    case (Cons i inputs)
    have le: "fst i \<le> fst j" if "j \<in> set inputs" for j
      using Cons.prems that by (cases i; cases j) (auto simp: less_eq_prod_def)
    show ?case
    proof (cases "fst i < key")
      case True
      then show ?thesis using Cons by auto
    next
      case False
      then show ?thesis using le by (fastforce simp: image_iff)
    qed
  qed simp
  moreover have "input_conflict inputs (a # arts) = None \<longleftrightarrow>
      \<not> (case dropWhile (\<lambda>i. fst i < key) inputs of [] \<Rightarrow> False | i # _ \<Rightarrow> fst i = key) \<and> input_conflict inputs arts = None"
  proof -
    obtain d where d: "dropWhile (\<lambda>i. fst i < key) inputs = d" by blast
    show ?thesis unfolding a input_conflict.simps d by (cases d) (simp_all split: prod.split)
  qed
  ultimately show ?case using Cons.IH by (auto simp: a)
qed simp

lemma artifact_conflict_None:
  assumes "sorted arts"
  shows "artifact_conflict arts = None \<longleftrightarrow> inj_on fst (set arts)"
  using assms
proof (induction arts rule: artifact_conflict.induct)
  case (1 k1 r1 o1 k2 r2 o2 arts)
  have tail: "sorted ((k2, r2, o2) # arts)" and le: "(k1, r1, o1) \<le> (k2, r2, o2)"
    using "1.prems" by simp_all
  show ?case
  proof (cases "k1 \<noteq> k2 \<or> r1 = r2 \<and> o1 = o2")
    case False
    then have "\<not> inj_on fst (set ((k1, r1, o1) # (k2, r2, o2) # arts))" by (auto simp: inj_on_def)
    then show ?thesis using False by auto
  next
    case True
    have "k1 \<noteq> k2 \<Longrightarrow> k1 \<notin> fst ` set ((k2, r2, o2) # arts)"
    proof
      assume k: "k1 \<noteq> k2" "k1 \<in> fst ` set ((k2, r2, o2) # arts)"
      then obtain x where x: "x \<in> set ((k2, r2, o2) # arts)" "fst x = k1" by auto
      have "(k2, r2, o2) \<le> x" using tail x(1) by auto
      then have "k2 \<le> k1" using x(2) by (cases x) (auto simp: less_eq_prod_def)
      moreover have "k1 \<le> k2" using le by (auto simp: less_eq_prod_def)
      ultimately show False using k(1) by simp
    qed
    then have "inj_on fst (set ((k1, r1, o1) # (k2, r2, o2) # arts)) \<longleftrightarrow> inj_on fst (set ((k2, r2, o2) # arts))"
      using True by (auto simp: inj_on_insert insert_absorb)
    then show ?thesis using "1.IH" [OF True tail] True by simp
  qed
qed auto

lemma add_artifacts_Inr:
  "add_artifacts path_key ps arts = Inr as \<longleftrightarrow>
     list_all (\<lambda>(path, _). path \<noteq> []) ps
     \<and> as = arts @ map (\<lambda>(path, role, owner). (casefolded_path_key path_key path, role, owner)) ps"
  by (induction ps arbitrary: arts) (auto simp: add_artifact_def split: prod.splits)

lemma show_nat_inject: "show_nat m = show_nat n \<longleftrightarrow> m = n"
  using dec_value_show_nat by metis

lemma digits_then:
  assumes "\<not> is_digit c" and "\<not> is_digit d"
  shows "show_nat m @ c # s = show_nat n @ d # t \<longleftrightarrow> m = n \<and> c = d \<and> s = t"
proof -
  have "takeWhile is_digit (show_nat k @ x # u) = show_nat k" if "\<not> is_digit x" for k x u
    using that show_nat_digits [of k] by (auto simp: takeWhile_space list_all_iff intro!: takeWhile_space)
  then show ?thesis using assms show_nat_inject by (metis append_same_eq list.inject same_append_eq)
qed

lemma not_digit_space [simp]: "\<not> is_digit CHR '' ''"
  by code_simp

lemma slot_owner_inj: "slot_owner opts i a = slot_owner opts j b \<Longrightarrow> i = j"
  by (simp add: slot_owner_def digits_then)

lemma distinct_slots:
  assumes "distinct is" and "\<And>i j. owner i = owner j \<Longrightarrow> i = j"
  shows "distinct (map (\<lambda>i. (r, owner i)) is)"
  using assms by (auto simp: distinct_map inj_on_def)

lemma mock_domain_owner_inj:
  assumes "mock_domain_owner opts i a = mock_domain_owner opts j b"
  shows "i = j"
proof -
  have zero: "show_nat 0 = [CHR ''0'']" by code_simp
  have form: "\<exists>s. mock_domain_owner opts k x = ''mock output domain slot '' @ show_nat k @ CHR '' '' # s" for k x
    by (auto simp: mock_domain_owner_def zero)
  obtain s t where "mock_domain_owner opts i a = ''mock output domain slot '' @ show_nat i @ CHR '' '' # s"
    "mock_domain_owner opts j b = ''mock output domain slot '' @ show_nat j @ CHR '' '' # t"
    using form by meson
  then show ?thesis using assms by (simp add: digits_then)
qed

definition writers :: "(string \<Rightarrow> string option) \<Rightarrow> CollectorOptions \<Rightarrow> (string \<times> string \<times> string) list" where
  "writers source_module opts = slot_artifacts source_module opts @ domain_outputs opts"

lemma roles_of_writers:
  "fst ` snd ` set (header_outputs opts) \<subseteq> {''TU registration header''}"
  "fst ` snd ` set (slot_outputs opts outs r how) \<subseteq> {r}"
  "fst ` snd ` set (wrapper_outputs source_module opts) \<subseteq> {''module wrapper''}"
  "fst ` snd ` set (option_outputs opts) \<subseteq> {''artifact manifest'', ''mock registry'', ''mock implementation'', ''mock public header'',
      ''mock aggregate module'', ''mock manifest'', ''depfile''}"
  "fst ` snd ` set (domain_outputs opts) \<subseteq> {''mock domain registry'', ''mock domain implementation''}"
  by (auto simp: header_outputs_def slot_outputs_def wrapper_outputs_def option_outputs_def domain_outputs_def split: if_splits)

lemma distinct_option_outputs: "distinct (map (fst \<circ> snd) (option_outputs opts))"
  by (simp add: option_outputs_def)

lemma distinct_domain_outputs: "distinct (map snd (domain_outputs opts))"
proof -
  have "distinct (concat (map (\<lambda>idx. [(''mock domain registry'', mock_domain_owner opts idx a), (''mock domain implementation'', mock_domain_owner opts idx b)]) [0..<n]))"
    for a b n
    by (induction n) (auto dest: mock_domain_owner_inj)
  then show ?thesis by (simp add: domain_outputs_def map_concat comp_def)
qed

lemma distinct_headers: "distinct (map snd (header_outputs opts))"
  by (auto simp: header_outputs_def distinct_map inj_on_def dest: slot_owner_inj)

lemma distinct_slot_outputs: "distinct (map snd (slot_outputs opts outs r how))"
  by (auto simp: slot_outputs_def distinct_map inj_on_def dest: slot_owner_inj)

lemma distinct_wrappers: "distinct (map snd (wrapper_outputs source_module opts))"
  by (auto simp: wrapper_outputs_def distinct_map inj_on_def dest: slot_owner_inj)

lemma distinct_map_snd: "distinct (map (fst \<circ> snd) xs) \<Longrightarrow> distinct (map snd xs)"
  by (metis distinct_map map_map)

lemma disjoint_roles:
  assumes "fst ` snd ` set xs \<subseteq> A" and "fst ` snd ` set ys \<subseteq> B" and "A \<inter> B = {}"
  shows "snd ` set xs \<inter> snd ` set ys = {}"
  using assms by blast

lemma distinct_append_roles:
  assumes "distinct (map snd xs)" and "distinct (map snd ys)"
    and "fst ` snd ` set xs \<subseteq> A" and "fst ` snd ` set ys \<subseteq> B" and "A \<inter> B = {}"
  shows "distinct (map snd (xs @ ys)) \<and> fst ` snd ` set (xs @ ys) \<subseteq> A \<union> B"
proof
  show "distinct (map snd (xs @ ys))" using assms(1,2) disjoint_roles [OF assms(3-5)] by simp
  show "fst ` snd ` set (xs @ ys) \<subseteq> A \<union> B" using assms(3,4) by (simp add: image_Un) blast
qed

lemma distinct_writers: "distinct (map snd (writers source_module opts))"
proof -
  note opt = distinct_append_roles [OF distinct_map_snd [OF distinct_option_outputs] distinct_domain_outputs roles_of_writers(4,5), of opts opts]
  note reg = distinct_append_roles [OF distinct_slot_outputs [of opts "module_registration_outputs opts" "''module registration''" "''--module-registration-output''"]
      opt [THEN conjunct1] roles_of_writers(2) opt [THEN conjunct2]]
  note wrap = distinct_append_roles [OF distinct_wrappers [of source_module opts] reg [THEN conjunct1] roles_of_writers(3) reg [THEN conjunct2]]
  note tex = distinct_append_roles [OF distinct_slot_outputs [of opts "textual_registration_outputs opts" "''textual header registration''" "''--textual-registration-output''"]
      wrap [THEN conjunct1] roles_of_writers(2) wrap [THEN conjunct2]]
  show ?thesis
    using distinct_append_roles [OF distinct_headers [of opts] tex [THEN conjunct1] roles_of_writers(1) tex [THEN conjunct2]]
    by (simp add: writers_def slot_artifacts_def)
qed

definition aligned_options :: "CollectorOptions \<Rightarrow> bool" where
  "aligned_options opts \<longleftrightarrow>
     list_all (\<lambda>outputs. outputs = [] \<or> tu_output_dir opts \<noteq> [] \<and> length outputs = length (sources opts))
       [tu_output_headers opts, textual_registration_outputs opts, module_wrapper_outputs opts, module_registration_outputs opts]
     \<and> length (mock_domain_registry_outputs opts) = length (mock_domain_impl_outputs opts)"

definition needs_output_dir :: "CollectorOptions \<Rightarrow> bool" where
  "needs_output_dir opts \<longleftrightarrow> tu_output_headers opts \<noteq> [] \<or> textual_registration_outputs opts \<noteq> []
     \<or> module_wrapper_outputs opts \<noteq> [] \<or> module_registration_outputs opts \<noteq> []"

lemma aligned_options_iff:
  "aligned_options opts \<longleftrightarrow> \<not> (needs_output_dir opts \<and> tu_output_dir opts = []) \<and> alignment_error opts = None
     \<and> length (mock_domain_registry_outputs opts) = length (mock_domain_impl_outputs opts)"
proof -
  have "alignment_error opts = None \<longleftrightarrow>
      list_all (\<lambda>outputs. outputs = [] \<or> length outputs = length (sources opts))
       [tu_output_headers opts, textual_registration_outputs opts, module_wrapper_outputs opts, module_registration_outputs opts]"
    by (auto simp: alignment_error_def find_None_iff misaligned_def)
  then show ?thesis by (auto simp: aligned_options_def needs_output_dir_def)
qed

lemma add_artifacts_total:
  "\<exists>e. add_artifacts path_key ps arts =
     (if list_all (\<lambda>(path, _). path \<noteq> []) ps
      then Inr (arts @ map (\<lambda>(path, role, owner). (casefolded_path_key path_key path, role, owner)) ps) else Inl e)"
  by (induction ps arbitrary: arts) (auto simp: add_artifact_def split: prod.splits)

lemma planned_artifacts_Inr:
  "planned_artifacts path_key source_module opts = Inr as \<longleftrightarrow>
     aligned_options opts \<and> list_all (\<lambda>(path, _). path \<noteq> []) (writers source_module opts)
     \<and> as = map (\<lambda>(path, role, owner). (casefolded_path_key path_key path, role, owner)) (writers source_module opts)"
proof -
  let ?key = "map (\<lambda>(path, role, owner). (casefolded_path_key path_key path, role, owner))"
  define ks ds where "ks = ?key (slot_artifacts source_module opts)" and "ds = ?key (domain_outputs opts)"
  define sok dok where "sok = list_all (\<lambda>(path, _). path \<noteq> []) (slot_artifacts source_module opts)"
    and "dok = list_all (\<lambda>(path, _). path \<noteq> []) (domain_outputs opts)"
  obtain e1 where e1: "add_artifacts path_key (slot_artifacts source_module opts) [] = (if sok then Inr ks else Inl e1)"
    using add_artifacts_total [of path_key "slot_artifacts source_module opts" "[]", unfolded append.simps(1)]
    unfolding ks_def sok_def by blast
  obtain e2 where e2: "add_artifacts path_key (domain_outputs opts) ks = (if dok then Inr (ks @ ds) else Inl e2)"
    using add_artifacts_total [of path_key "domain_outputs opts" ks] unfolding ds_def dok_def by blast
  have w: "?key (writers source_module opts) = ks @ ds"
    "list_all (\<lambda>(path, _). path \<noteq> []) (writers source_module opts) = (sok \<and> dok)"
    by (simp_all add: writers_def ks_def ds_def sok_def dok_def)
  have p: "planned_artifacts path_key source_module opts =
     (if needs_output_dir opts \<and> tu_output_dir opts = [] then
        Inl ''source-associated generated artifact outputs require --tu-out-dir''
      else case alignment_error opts of
        Some e \<Rightarrow> Inl e
      | None \<Rightarrow>
          (case add_artifacts path_key (slot_artifacts source_module opts) [] of
             Inl e \<Rightarrow> Inl e
           | Inr arts \<Rightarrow>
               if length (mock_domain_registry_outputs opts) \<noteq> length (mock_domain_impl_outputs opts) then
                 Inl (''generated artifact output alignment for explicit mock domains expected matching registry/implementation slots, got ''
                      @ show_nat (length (mock_domain_registry_outputs opts)) @ '' and '' @ show_nat (length (mock_domain_impl_outputs opts)))
               else add_artifacts path_key (domain_outputs opts) arts))"
    by (simp add: planned_artifacts_def needs_output_dir_def)
  show ?thesis
    unfolding p e1 aligned_options_iff w by (auto simp: e2 split: option.splits)
qed

lemma planned_artifacts_cases:
  "(\<exists>e. planned_artifacts path_key source_module opts = Inl e) \<longleftrightarrow>
     \<not> (aligned_options opts \<and> list_all (\<lambda>(path, _). path \<noteq> []) (writers source_module opts))"
  using planned_artifacts_Inr [of path_key source_module opts]
  by (cases "planned_artifacts path_key source_module opts") auto

lemma distinct_keys_iff:
  assumes "distinct (map snd ws)"
  shows "inj_on fst (set (map (\<lambda>(path, role, owner). (key path, role, owner)) ws)) \<longleftrightarrow> distinct (map (\<lambda>(path, _). key path) ws)"
proof -
  let ?as = "map (\<lambda>(path, role, owner). (key path, role, owner)) ws"
  have "map snd ?as = map snd ws" by (induction ws) auto
  then have d: "distinct ?as" using assms by (metis distinct_map)
  have f: "map fst ?as = map (\<lambda>(path, _). key path) ws" by (induction ws) auto
  show ?thesis using d distinct_map [of fst ?as] unfolding f by blast
qed

definition input_paths :: "CollectorOptions \<Rightarrow> string set" where
  "input_paths opts =
     (set (sources opts) \<union> {mock_manifest_input_path opts} \<union> (\<Union>(name, paths)\<in>set (explicit_module_sources_by_name opts). set paths)) - {[]}"

lemma reserved_keys: "fst ` set (reserved_inputs path_key opts) = casefolded_path_key path_key ` input_paths opts"
proof -
  have keys: "fst ` set (map (\<lambda>(path, role, owner). (casefolded_path_key path_key path, role, owner)) (filter (\<lambda>(path, _). path \<noteq> []) ps))
      = casefolded_path_key path_key ` (fst ` set ps - {[]})" for ps :: "(string \<times> string \<times> string) list"
    by (induction ps) auto
  have s: "fst ` set (map (\<lambda>idx. (sources opts ! idx, ''input source'', f idx)) [0..<length (sources opts)]) = set (sources opts)" for f
    by (force simp: set_conv_nth image_iff)
  have m: "fst ` set (concat (map (\<lambda>(name, paths). map (\<lambda>path. (path, ''external module source'', f name path)) paths) xs))
      = (\<Union>(name, paths)\<in>set xs. set paths)" for f and xs :: "(string \<times> string list) list"
    by (induction xs) (auto simp: image_Un image_image)
  show ?thesis
    unfolding reserved_inputs_def keys set_append image_Un s m input_paths_def by (simp add: Un_assoc)
qed


subsection \<open>The dependency file\<close>

definition absolute_path :: "string \<Rightarrow> string \<Rightarrow> string" where
  "absolute_path cwd p = (if starts_with p ''/'' then p else path_join cwd p)"

definition normalize_dependency_path :: "string \<Rightarrow> string \<Rightarrow> string" where
  "normalize_dependency_path cwd p = (if p = [] then [] else lexically_normal (absolute_path cwd p))"

text \<open>\<^verbatim>\<open>lexically_relative\<close> on the elements of two absolute normal paths; a trailing separator is an empty last element.\<close>

fun skip_common :: "string list \<Rightarrow> string list \<Rightarrow> string list \<times> string list" where
  "skip_common (x # xs) (y # ys) = (if x = y then skip_common xs ys else (x # xs, y # ys))"
| "skip_common xs ys = (xs, ys)"

fun climb :: "string list \<Rightarrow> int" where
  "climb [] = 0"
| "climb (x # xs) = (if x = ''..'' then climb xs - 1 else if x = [] \<or> x = ''.'' then climb xs else climb xs + 1)"

definition lexically_relative :: "string \<Rightarrow> string \<Rightarrow> string" where
  "lexically_relative p base =
     (if starts_with p ''/'' \<noteq> starts_with base ''/'' then []
      else let (rest, up) = skip_common (split_path [] p) (split_path [] base); n = climb up
           in if rest = [] \<and> up = [] then ''.''
              else if n < 0 then []
              else if n = 0 \<and> (rest = [] \<or> rest = [[]]) then ''.''
              else join_path (replicate (nat n) ''..'' @ rest))"

definition depfile_path_for_build :: "string \<Rightarrow> string \<Rightarrow> string \<Rightarrow> string" where
  "depfile_path_for_build cwd p base_dir =
     (let normalized = lexically_normal (absolute_path cwd p); base = lexically_normal (absolute_path cwd base_dir);
          rel = lexically_relative normalized base
      in if rel \<noteq> [] \<and> \<not> starts_with rel ''/'' then rel else normalized)"

definition depfile_special :: "char \<Rightarrow> bool" where
  "depfile_special c \<longleftrightarrow> c \<in> {CHR '' '', CHR 0x09, CHR ''#'', CHR ''$'', CHR '':'', BS}"

definition append_depfile_escaped :: "string \<Rightarrow> string \<Rightarrow> string" where
  "append_depfile_escaped out path = out @ concat (map (\<lambda>c. if depfile_special c then [BS, c] else [c]) path)"

definition slot_target :: "CollectorOptions \<Rightarrow> nat \<Rightarrow> string" where
  "slot_target opts idx =
     (if has_explicit_output (textual_registration_outputs opts) idx then textual_registration_outputs opts ! idx
      else resolve_tu_header_output opts idx)"

text \<open>
  A module source takes its slot of the registration or the wrapper outputs.  The code reads the
  slot without a check of its own: the validators of the options have to come first.
\<close>

definition slot_targets :: "(string \<Rightarrow> string option) \<Rightarrow> CollectorOptions \<Rightarrow> nat \<Rightarrow> string list" where
  "slot_targets source_module opts idx =
     slot_target opts idx
     # (if is_module_interface_source source_module opts (sources opts ! idx) then
          [if module_registration_outputs opts \<noteq> [] then module_registration_outputs opts ! idx else module_wrapper_outputs opts ! idx]
        else [])"

definition depfile_targets_for :: "(string \<Rightarrow> string option) \<Rightarrow> CollectorOptions \<Rightarrow> string list" where
  "depfile_targets_for source_module opts =
     (if tu_output_dir opts \<noteq> [] then concat (map (slot_targets source_module opts) [0..<length (sources opts)]) else [])
     @ filter (\<lambda>p. p \<noteq> []) [artifact_manifest_path opts, mock_manifest_output_path opts, mock_registry_path opts, mock_impl_path opts,
         mock_public_header_path opts, mock_aggregate_module_path opts]
     @ concat (map (\<lambda>d. filter (\<lambda>p. p \<noteq> []) [domain_registry d, domain_impl d]) (build_mock_output_domains source_module opts))"

definition normalized_dependencies :: "string \<Rightarrow> string list \<Rightarrow> string list" where
  "normalized_dependencies cwd deps = sort (remdups (filter (\<lambda>d. d \<noteq> []) (map (normalize_dependency_path cwd) deps)))"

definition depfile_text :: "string list \<Rightarrow> string list \<Rightarrow> string" where
  "depfile_text targets deps =
     concat (map (\<lambda>t. append_depfile_escaped [] t @ '' '') targets) @ '':''
     @ concat (map (\<lambda>d. '' '' @ append_depfile_escaped [] d) deps) @ [LF]"

text \<open>\<open>None\<close> when there is nothing to write; the stream of LLVM that writes the text is not part of the model.\<close>

definition write_depfile ::
  "(string \<Rightarrow> string option) \<Rightarrow> string \<Rightarrow> string option \<Rightarrow> CollectorOptions \<Rightarrow> string list \<Rightarrow> (string \<times> string) option" where
  "write_depfile source_module cwd compdb opts deps =
     (case depfile_path opts of
        None \<Rightarrow> None
      | Some path \<Rightarrow>
          if path = [] then None
          else let build_dir = (case compdb of Some dir \<Rightarrow> lexically_normal dir | None \<Rightarrow> cwd);
                   targets = depfile_targets_for source_module opts
               in if targets = [] then None
                  else Some (path, depfile_text (map (\<lambda>t. depfile_path_for_build cwd t build_dir) targets)
                                     (map (\<lambda>d. depfile_path_for_build cwd d build_dir) (normalized_dependencies cwd deps))))"

text \<open>A reader of such files: names separated by blanks, a backslash takes the next character as it is.\<close>

fun read_names :: "string \<Rightarrow> string \<Rightarrow> string list" where
  "read_names acc [] = (if acc = [] then [] else [acc])"
| "read_names acc (c # cs) =
     (if c = BS \<and> cs \<noteq> [] then read_names (acc @ [hd cs]) (tl cs)
      else if c = CHR '' '' then (if acc = [] then [] else [acc]) @ read_names [] cs
      else read_names (acc @ [c]) cs)"

text \<open>The first colon that is not escaped ends the targets.\<close>

fun split_rule :: "string \<Rightarrow> string \<Rightarrow> string \<times> string" where
  "split_rule acc [] = (acc, [])"
| "split_rule acc (c # cs) =
     (if c = BS \<and> cs \<noteq> [] then split_rule (acc @ [c, hd cs]) (tl cs)
      else if c = CHR '':'' then (acc, cs)
      else split_rule (acc @ [c]) cs)"

definition read_depfile :: "string \<Rightarrow> string list \<times> string list" where
  "read_depfile s = (let (ts, ds) = split_rule [] (butlast s) in (read_names [] ts, read_names [] ds))"

abbreviation escaped :: "string \<Rightarrow> string" where
  "escaped p \<equiv> append_depfile_escaped [] p"

lemma escaped_Cons: "escaped (c # cs) = (if depfile_special c then [BS, c] else [c]) @ escaped cs"
  by (simp add: append_depfile_escaped_def)

lemma escaped_Nil [simp]: "escaped [] = []"
  by (simp add: append_depfile_escaped_def)

lemma special_facts: "depfile_special BS" "depfile_special CHR '' ''" "depfile_special CHR '':''"
  by (simp_all add: depfile_special_def)

lemma read_escaped: "read_names acc (escaped p @ rest) = read_names (acc @ p) rest"
proof (induction p arbitrary: acc)
  case (Cons c cs)
  have "\<not> depfile_special c \<Longrightarrow> c \<noteq> BS \<and> c \<noteq> CHR '' ''" using special_facts by auto
  then show ?case using Cons by (auto simp: escaped_Cons)
qed simp

lemma split_rule_escaped: "split_rule acc (escaped p @ rest) = split_rule (acc @ escaped p) rest"
proof (induction p arbitrary: acc)
  case (Cons c cs)
  have "\<not> depfile_special c \<Longrightarrow> c \<noteq> BS \<and> c \<noteq> CHR '':''" using special_facts by auto
  then show ?case using Cons by (auto simp: escaped_Cons)
qed simp

lemma split_targets:
  "split_rule acc (concat (map (\<lambda>t. escaped t @ '' '') ts) @ CHR '':'' # rest) = (acc @ concat (map (\<lambda>t. escaped t @ '' '') ts), rest)"
  by (induction ts arbitrary: acc) (simp_all add: split_rule_escaped)

lemma read_targets: "read_names [] (concat (map (\<lambda>t. escaped t @ '' '') ts)) = filter (\<lambda>t. t \<noteq> []) ts"
  by (induction ts) (simp_all add: read_escaped)

lemma read_deps: "read_names acc (concat (map (\<lambda>d. '' '' @ escaped d) ds)) = filter (\<lambda>d. d \<noteq> []) (acc # ds)"
proof (induction ds arbitrary: acc)
  case (Cons d ds)
  then show ?case using read_escaped [of "[]" d] by (simp add: read_escaped)
qed simp

text \<open>
  Whatever characters the paths have, a reader of the dependency file finds in it exactly the
  targets and the dependencies that the generator meant, in order.
\<close>

theorem depfile_roundtrip:
  "read_depfile (depfile_text targets deps) = (filter (\<lambda>t. t \<noteq> []) targets, filter (\<lambda>d. d \<noteq> []) deps)"
proof -
  have "butlast (depfile_text targets deps) =
      concat (map (\<lambda>t. escaped t @ '' '') targets) @ CHR '':'' # concat (map (\<lambda>d. '' '' @ escaped d) deps)"
    by (simp add: depfile_text_def butlast_append)
  then show ?thesis using read_deps [of "[]" deps] by (simp add: read_depfile_def split_targets read_targets)
qed

end
