(* ===== verification/Decl_Merge.thy ===== *)
theory Decl_Merge
  imports Fixture_Resolve "HOL-Library.Sublist"
begin

section \<open>Merging declarations across translation units: \<^verbatim>\<open>tools/src/codegen_tool.cpp\<close>\<close>

text \<open>
  A header that several translation units include is discovered once per scan slot.  The generator
  checks that all slots saw the same declarations and keeps one occurrence of each; it also refuses
  two tests of one name at different places.  \<^verbatim>\<open>std::map\<close> is iterated in the order of its keys:
  \<open>groups_by\<close> lists the groups of a list by key, each in the order of the list.  A failing step
  returns its messages as \<open>Inl\<close>.
\<close>

subsection \<open>Groups\<close>

definition groups_by :: "('a \<Rightarrow> 'k::linorder) \<Rightarrow> 'a list \<Rightarrow> ('k \<times> 'a list) list" where
  "groups_by key xs = map (\<lambda>k. (k, filter (\<lambda>x. key x = k) xs)) (sort (remdups (map key xs)))"

lemma groups_by_mem:
  "(k, g) \<in> set (groups_by key xs) \<longleftrightarrow> k \<in> key ` set xs \<and> g = filter (\<lambda>x. key x = k) xs"
  by (auto simp: groups_by_def)

lemma groups_by_nonempty: "(k, g) \<in> set (groups_by key xs) \<Longrightarrow> g \<noteq> []"
  by (auto simp: groups_by_mem filter_empty_conv)

lemma groups_by_cover: "(\<Union>(k, g)\<in>set (groups_by key xs). set g) = set xs"
  by (auto simp: groups_by_def)

lemma sort_Nil_iff: "sort ys = [] \<longleftrightarrow> ys = []"
  by (metis length_0_conv length_sort)

lemma groups_by_Nil [simp]: "groups_by key xs = [] \<longleftrightarrow> xs = []"
  by (simp add: groups_by_def sort_Nil_iff)

lemma groups_by_keys: "distinct (map fst (groups_by key xs))"
  by (simp add: groups_by_def comp_def)

subsection \<open>Unique names\<close>

definition location :: "test_info \<Rightarrow> string" where
  "location t = te_filename t @ '':'' @ show_nat (te_line t)"

definition name_order :: "test_info \<Rightarrow> string \<times> string \<times> nat \<times> string \<times> string" where
  "name_order t = (te_base_name t, te_filename t, te_line t, te_display_name t, te_qualified_name t)"

record unique_scan =
  us_first :: "string \<rightharpoonup> string"
  us_reported :: "string list"
  us_dropped :: "nat list"
  us_log :: "string list"

definition duplicate_message :: "string \<Rightarrow> string \<Rightarrow> string \<Rightarrow> string" where
  "duplicate_message base here first_at = ''gentest_codegen: duplicate test name '' @ [SQ] @ base @ [SQ] @ '' at '' @ here
     @ '' (previously declared at '' @ first_at @ '')'' @ [LF]"

definition unique_step :: "test_info list \<Rightarrow> nat \<Rightarrow> unique_scan \<Rightarrow> unique_scan" where
  "unique_step cases idx s =
     (let c = cases ! idx; here = location c
      in if te_base_name c = [] then s
         else case us_first s (te_base_name c) of
                None \<Rightarrow> s\<lparr>us_first := (us_first s)(te_base_name c \<mapsto> here)\<rparr>
              | Some first_at \<Rightarrow>
                  if first_at = here then s
                  else let s = s\<lparr>us_dropped := us_dropped s @ [idx]\<rparr>; report_key = te_base_name c @ [LF] @ here
                       in if report_key \<in> set (us_reported s) then s
                          else s\<lparr>us_reported := report_key # us_reported s,
                                 us_log := us_log s @ [duplicate_message (te_base_name c) here first_at]\<rparr>)"

definition unique_scan_of :: "test_info list \<Rightarrow> unique_scan" where
  "unique_scan_of cases =
     fold (unique_step cases) (sort_key (\<lambda>i. name_order (cases ! i)) [0..<length cases])
       \<lparr>us_first = Map.empty, us_reported = [], us_dropped = [], us_log = []\<rparr>"

definition enforce_unique_base_names :: "test_info list \<Rightarrow> test_info list \<times> string list \<times> bool" where
  "enforce_unique_base_names cases =
     (let s = unique_scan_of cases
      in if us_dropped s = [] then (cases, us_log s, True)
         else (map (\<lambda>i. cases ! i) (filter (\<lambda>i. i \<notin> set (us_dropped s)) [0..<length cases]), us_log s, False))"

subsection \<open>Fixtures\<close>

definition context_label :: "string \<Rightarrow> nat \<Rightarrow> string" where
  "context_label context slot = (if context = [] then ''scan slot '' @ show_nat slot else context)"

definition difference_message :: "string \<Rightarrow> string \<times> nat \<times> string \<times> nat \<Rightarrow> string \<times> nat \<times> string \<times> nat \<Rightarrow> string" where
  "difference_message what a b =
     (let place = (\<lambda>(file, line, context, slot). ''  '' @ file @ '':'' @ show_nat line @ '' ['' @ context_label context slot @ '']'' @ [LF])
      in ''gentest_codegen: '' @ what @ '':'' @ [LF] @ place a @ place b)"

definition fixture_place :: "FixtureDeclInfo \<Rightarrow> string \<times> nat \<times> string \<times> nat" where
  "fixture_place f = (fd_filename f, fd_line f, fd_scan_context f, fd_scan_slot f)"

definition fixture_owner_key :: "FixtureDeclInfo \<Rightarrow> nat \<times> string \<times> nat \<times> string \<times> string" where
  "fixture_owner_key f = (fd_scan_slot f, fd_filename f, fd_line f, fd_tu_filename f, fd_declaration_site_key f)"

record FixtureSite =
  fs_key :: string
  fs_entity :: string
  fs_occurrences :: "FixtureDeclInfo list"

definition slot_candidates :: "FixtureDeclInfo list \<Rightarrow> FixtureDeclInfo list" where
  "slot_candidates fs = map (\<lambda>(_, g). hd (sort_key fixture_owner_key g)) (groups_by fd_scan_slot fs)"

definition fixture_sites :: "FixtureDeclInfo list \<Rightarrow> FixtureSite list" where
  "fixture_sites fixtures =
     map (\<lambda>(k, g). let occurrences = slot_candidates g
                   in \<lparr>fs_key = k, fs_entity = fd_entity_key (hd occurrences), fs_occurrences = occurrences\<rparr>)
       (groups_by fd_declaration_site_key fixtures)"

definition fixture_site_errors :: "FixtureSite \<Rightarrow> string list" where
  "fixture_site_errors site =
     (let first = hd (fs_occurrences site)
      in map (\<lambda>c. difference_message ''header fixture declaration differs between compile contexts'' (fixture_place first) (fixture_place c))
           (filter (\<lambda>c. fd_entity_key c \<noteq> fs_entity site \<or> fd_semantic_fingerprint c \<noteq> fd_semantic_fingerprint first)
             (tl (fs_occurrences site))))"

fun least_by :: "('a \<Rightarrow> 'k::linorder) \<Rightarrow> 'a \<Rightarrow> 'a list \<Rightarrow> 'a" where
  "least_by key x [] = x"
| "least_by key x (y # ys) = least_by key (if key y < key x then y else x) ys"

definition fixture_owner :: "FixtureSite list \<Rightarrow> FixtureDeclInfo" where
  "fixture_owner sites = (let cs = concat (map fs_occurrences (sort_key fs_key sites)) in least_by fixture_owner_key (hd cs) (tl cs))"

definition fixture_entity_errors :: "FixtureSite list \<Rightarrow> string list" where
  "fixture_entity_errors sites =
     (let owner = fixture_owner sites
      in map (\<lambda>c. difference_message ''annotated fixture redeclarations differ'' (fixture_place owner) (fixture_place c))
           (filter (\<lambda>c. fd_semantic_fingerprint c \<noteq> fd_semantic_fingerprint owner)
             (map (hd \<circ> fs_occurrences) (sort_key fs_key sites))))"

definition canonical_fixtures :: "FixtureDeclInfo list \<Rightarrow> string list + FixtureDeclInfo list" where
  "canonical_fixtures fixtures =
     (let sites = fixture_sites fixtures; site_errors = concat (map fixture_site_errors sites);
          groups = groups_by fs_entity sites; entity_errors = concat (map (fixture_entity_errors \<circ> snd) groups)
      in if site_errors \<noteq> [] then Inl site_errors
         else if entity_errors \<noteq> [] then Inl entity_errors
         else Inr (map (\<lambda>(_, ss). let owner = fixture_owner ss in owner\<lparr>fd_registration_header := fd_filename owner\<rparr>) groups))"

subsection \<open>Cases\<close>

fun fixture_scope_number :: "FixtureScope \<Rightarrow> nat" where
  "fixture_scope_number FS_Local = 0"
| "fixture_scope_number FS_Suite = 1"
| "fixture_scope_number FS_Global = 2"

definition resolved_case_fingerprint :: "test_info \<Rightarrow> string" where
  "resolved_case_fingerprint t =
     te_semantic_fingerprint t
     @ concat (map (\<lambda>u. ''|resolved-fixture:'' @ fu_type_name u @ '':'' @ fu_registry_name u @ '':''
           @ show_nat (fixture_scope_number (fu_scope u)) @ '':'' @ fu_suite_name u) (te_free_fixtures t))"

definition case_place :: "test_info \<Rightarrow> string \<times> nat \<times> string \<times> nat" where
  "case_place t = (te_filename t, te_line t, te_scan_context t, te_scan_slot t)"

definition sort_case_occurrences :: "test_info list \<Rightarrow> test_info list" where
  "sort_case_occurrences = sort_key (\<lambda>t. (resolved_case_fingerprint t, te_display_name t, te_qualified_name t, te_call_arguments t))"

definition case_semantics :: "test_info list \<Rightarrow> string list" where
  "case_semantics items = map resolved_case_fingerprint items"

definition inventory_for :: "test_info list \<Rightarrow> string list" where
  "inventory_for items = sort (remdups (case_semantics items))"

definition inventory_errors :: "test_info list \<Rightarrow> string list" where
  "inventory_errors cases =
     concat (map (\<lambda>(_, g).
         let by_slot = groups_by te_scan_slot g; first = snd (hd by_slot)
         in map (\<lambda>(_, items). difference_message ''header declaration differs between compile contexts''
                   (case_place (hd first)) (case_place (hd items)))
              (filter (\<lambda>(_, items). inventory_for items \<noteq> inventory_for first) (tl by_slot)))
       (groups_by (\<lambda>t. te_qualified_name t @ ''|'' @ te_base_name t) cases))"

record CaseSite =
  cs_key :: string
  cs_entity :: string
  cs_occurrences :: "test_info list list"

definition case_sites :: "test_info list \<Rightarrow> CaseSite list" where
  "case_sites cases =
     map (\<lambda>(k, g). let occurrences = map (\<lambda>(_, items). sort_case_occurrences items) (groups_by te_scan_slot g)
                   in \<lparr>cs_key = k, cs_entity = te_entity_key (hd (hd occurrences)), cs_occurrences = occurrences\<rparr>)
       (groups_by te_declaration_site_key cases)"

definition case_site_errors :: "CaseSite \<Rightarrow> string list" where
  "case_site_errors site =
     (let first = hd (cs_occurrences site)
      in map (\<lambda>items. difference_message ''header declaration differs between compile contexts'' (case_place (hd first)) (case_place (hd items)))
           (filter (\<lambda>items. case_semantics items \<noteq> case_semantics first \<or> te_entity_key (hd items) \<noteq> cs_entity site)
             (tl (cs_occurrences site))))"

definition case_owner_key :: "string \<times> test_info list \<Rightarrow> nat \<times> string \<times> nat \<times> string \<times> string" where
  "case_owner_key ki =
     (case ki of (key, items) \<Rightarrow>
        (te_scan_slot (hd items), te_filename (hd items), te_line (hd items), te_tu_filename (hd items), key))"

definition owner_cases :: "CaseSite list \<Rightarrow> test_info list" where
  "owner_cases sites =
     (let cs = concat (map (\<lambda>s. map (Pair (cs_key s)) (cs_occurrences s)) (sort_key cs_key sites))
      in snd (least_by case_owner_key (hd cs) (tl cs)))"

definition case_entity_errors :: "CaseSite list \<Rightarrow> string list" where
  "case_entity_errors sites =
     (let owner = owner_cases sites
      in map (\<lambda>items. difference_message ''annotated redeclarations of one entity differ'' (case_place (hd owner)) (case_place (hd items)))
           (filter (\<lambda>items. case_semantics items \<noteq> case_semantics owner)
             (map (hd \<circ> cs_occurrences) (sort_key cs_key sites))))"

definition with_headers :: "test_info \<Rightarrow> test_info" where
  "with_headers t =
     t\<lparr>te_registration_headers :=
         (if te_filename t = [] then [] else [te_filename t])
         @ filter (\<lambda>h. h \<noteq> te_filename t) (sort (remdups (te_registration_headers t)))\<rparr>"

definition canonical_cases :: "test_info list \<Rightarrow> string list + test_info list" where
  "canonical_cases cases =
     (let sites = case_sites cases; site_errors = concat (map case_site_errors sites);
          groups = groups_by cs_entity sites; entity_errors = concat (map (case_entity_errors \<circ> snd) groups)
      in if inventory_errors cases \<noteq> [] then Inl (inventory_errors cases)
         else if site_errors \<noteq> [] then Inl site_errors
         else if entity_errors \<noteq> [] then Inl entity_errors
         else Inr (concat (map (\<lambda>(_, ss). map with_headers (owner_cases ss)) groups)))"

definition merge_header_declaration_occurrences ::
  "test_info list \<Rightarrow> FixtureDeclInfo list \<Rightarrow> string list + test_info list \<times> FixtureDeclInfo list" where
  "merge_header_declaration_occurrences cases fixtures =
     (case canonical_fixtures fixtures of
        Inl e \<Rightarrow> Inl e
      | Inr fs \<Rightarrow>
          (case resolve_free_fixtures cases fixtures of
             (resolved, r) \<Rightarrow>
               if re_log r \<noteq> [] then Inl (re_log r)
               else case canonical_cases resolved of
                      Inl e \<Rightarrow> Inl e
                    | Inr cs \<Rightarrow> Inr (sort_key te_display_name cs,
                                   sort_key (\<lambda>f. (fd_qualified_name f, fd_declaration_site_key f, fd_scan_slot f)) fs)))"

subsection \<open>Names are unique afterwards\<close>

definition names_unique :: "test_info list \<Rightarrow> bool" where
  "names_unique cs \<longleftrightarrow>
     (\<forall>c\<in>set cs. \<forall>d\<in>set cs. te_base_name c = te_base_name d \<and> te_base_name c \<noteq> [] \<longrightarrow> location c = location d)"

definition first_index :: "test_info list \<Rightarrow> nat list \<Rightarrow> string \<Rightarrow> nat option" where
  "first_index cases ps b = List.find (\<lambda>i. te_base_name (cases ! i) = b) ps"

definition misplaced :: "test_info list \<Rightarrow> nat list \<Rightarrow> nat \<Rightarrow> bool" where
  "misplaced cases ps i \<longleftrightarrow> te_base_name (cases ! i) \<noteq> []
     \<and> location (cases ! i) \<noteq> location (cases ! the (first_index cases ps (te_base_name (cases ! i))))"

definition unique_inv :: "test_info list \<Rightarrow> nat list \<Rightarrow> unique_scan \<Rightarrow> bool" where
  "unique_inv cases ps s \<longleftrightarrow>
     (\<forall>b. b \<noteq> [] \<longrightarrow> us_first s b = map_option (\<lambda>i. location (cases ! i)) (first_index cases ps b))
     \<and> set (us_dropped s) = {i \<in> set ps. misplaced cases ps i}"

lemma first_index_snoc:
  "first_index cases (ps @ [i]) b =
     (case first_index cases ps b of Some j \<Rightarrow> Some j | None \<Rightarrow> if te_base_name (cases ! i) = b then Some i else None)"
  unfolding first_index_def by (induction ps) (auto split: option.split)

lemma first_index_None: "first_index cases ps b = None \<longleftrightarrow> (\<forall>i\<in>set ps. te_base_name (cases ! i) \<noteq> b)"
  by (auto simp: first_index_def find_None_iff)

lemma first_index_mem: "first_index cases ps b = Some i \<Longrightarrow> i \<in> set ps \<and> te_base_name (cases ! i) = b"
  by (auto simp: first_index_def find_Some_iff)

lemma misplaced_snoc:
  assumes "j \<in> set ps"
  shows "misplaced cases (ps @ [i]) j = misplaced cases ps j"
proof -
  obtain k where "first_index cases ps (te_base_name (cases ! j)) = Some k"
    using assms first_index_None by (metis option.exhaust)
  then show ?thesis by (simp add: misplaced_def first_index_snoc)
qed

lemma unique_step_inv:
  assumes "unique_inv cases ps s"
  shows "unique_inv cases (ps @ [i]) (unique_step cases i s)"
proof -
  let ?b = "te_base_name (cases ! i)"
  have first: "us_first s b = map_option (\<lambda>i. location (cases ! i)) (first_index cases ps b)" if "b \<noteq> []" for b
    using assms that by (simp add: unique_inv_def)
  have dropped: "set (us_dropped s) = {j \<in> set ps. misplaced cases ps j}" using assms by (simp add: unique_inv_def)
  have old: "{j \<in> set ps. misplaced cases (ps @ [i]) j} = {j \<in> set ps. misplaced cases ps j}"
    using misplaced_snoc by auto
  have set_eq: "{j \<in> set (ps @ [i]). misplaced cases (ps @ [i]) j} =
      {j \<in> set ps. misplaced cases ps j} \<union> (if misplaced cases (ps @ [i]) i then {i} else {})"
    using old by auto
  consider (empty) "?b = []" | (new) "?b \<noteq> []" "first_index cases ps ?b = None"
    | (known) k where "?b \<noteq> []" "first_index cases ps ?b = Some k"
    by blast
  then show ?thesis
  proof cases
    case empty
    then show ?thesis
      unfolding unique_inv_def set_eq
      using first dropped by (auto simp: unique_step_def misplaced_def first_index_snoc Let_def split: option.split)
  next
    case new
    then show ?thesis
      unfolding unique_inv_def set_eq
      using first dropped by (auto simp: unique_step_def misplaced_def first_index_snoc Let_def split: option.split)
  next
    case (known k)
    have mis: "misplaced cases (ps @ [i]) i \<longleftrightarrow> location (cases ! i) \<noteq> location (cases ! k)"
      using known by (simp add: misplaced_def first_index_snoc)
    have fi: "first_index cases (ps @ [i]) b = first_index cases ps b" if "b \<noteq> []" for b
      using known by (auto simp: first_index_snoc split: option.split)
    show ?thesis
      unfolding unique_inv_def set_eq mis
      using first dropped known by (auto simp: unique_step_def fi Let_def)
  qed
qed

lemma unique_scan_inv:
  "unique_inv cases ps (fold (unique_step cases) ps \<lparr>us_first = Map.empty, us_reported = [], us_dropped = [], us_log = []\<rparr>)"
proof (induction ps rule: rev_induct)
  case Nil
  show ?case by (simp add: unique_inv_def first_index_def)
next
  case (snoc i ps)
  then show ?case using unique_step_inv by simp
qed

lemma filter_map_subseq: "subseq (map f (filter P xs)) (map f xs)"
  by (intro subseq_map subseq_filter_left)

lemma first_of_name:
  assumes "set ps = {0..<length cases}" and "i < length cases"
  obtains k where "first_index cases ps (te_base_name (cases ! i)) = Some k" "k < length cases"
    "te_base_name (cases ! k) = te_base_name (cases ! i)" "\<not> misplaced cases ps k"
proof -
  have "i \<in> set ps" using assms by simp
  then have "first_index cases ps (te_base_name (cases ! i)) \<noteq> None" unfolding first_index_None by blast
  then obtain k where k: "first_index cases ps (te_base_name (cases ! i)) = Some k" by blast
  have mem: "k \<in> set ps" "te_base_name (cases ! k) = te_base_name (cases ! i)" using first_index_mem [OF k] by simp_all
  have "\<not> misplaced cases ps k" unfolding misplaced_def mem(2) k by simp
  then show ?thesis using that [OF k _ mem(2)] mem(1) assms(1) by simp
qed

lemma unique_not_misplaced:
  assumes "set ps = {0..<length cases}" "names_unique cases" "i < length cases"
  shows "\<not> misplaced cases ps i"
proof -
  obtain k where k: "first_index cases ps (te_base_name (cases ! i)) = Some k" "k < length cases"
    "te_base_name (cases ! k) = te_base_name (cases ! i)"
    using first_of_name [OF assms(1,3)] by blast
  have "te_base_name (cases ! i) \<noteq> [] \<Longrightarrow> location (cases ! i) = location (cases ! k)"
    using assms(2) nth_mem [OF assms(3)] nth_mem [OF k(2)] k(3) unfolding names_unique_def by metis
  then show ?thesis by (auto simp: misplaced_def k(1))
qed

text \<open>
  C23. After the check of names no two tests that are kept have one name and different places, every
  name keeps a test, the order of the tests is that of the input, and the check succeeds, keeping
  everything, exactly when the names were unique.
\<close>

theorem unique_names_enforced:
  "case enforce_unique_base_names cases of (kept, _, ok) \<Rightarrow>
     names_unique kept \<and> subseq kept cases \<and> te_base_name ` set kept = te_base_name ` set cases
     \<and> (ok \<longleftrightarrow> names_unique cases) \<and> (ok \<longleftrightarrow> kept = cases)"
proof -
  define ps where "ps = sort_key (\<lambda>i. name_order (cases ! i)) [0..<length cases]"
  have sps: "set ps = {0..<length cases}" by (simp add: ps_def)
  define s where "s = unique_scan_of cases"
  have inv: "unique_inv cases ps s" unfolding s_def unique_scan_of_def ps_def by (rule unique_scan_inv)
  have dropped: "set (us_dropped s) = {i. i < length cases \<and> misplaced cases ps i}"
    using inv sps by (auto simp: unique_inv_def)
  define ks where "ks = map (\<lambda>i. cases ! i) (filter (\<lambda>i. i \<notin> set (us_dropped s)) [0..<length cases])"
  have all: "map (\<lambda>i. cases ! i) [0..<length cases] = cases" by (rule map_nth)
  obtain kept lg ok where e: "enforce_unique_base_names cases = (kept, lg, ok)" by (rule prod_cases3)
  have kept: "kept = ks" "ok = (us_dropped s = [])"
    using e all by (auto simp: enforce_unique_base_names_def s_def [symmetric] Let_def ks_def split: if_splits)
  have mem: "c \<in> set ks \<longleftrightarrow> (\<exists>i < length cases. c = cases ! i \<and> \<not> misplaced cases ps i)" for c
    by (auto simp: ks_def dropped)
  have uni: "names_unique ks"
    unfolding names_unique_def by (auto simp: mem misplaced_def)
  have sub: "subseq ks cases" unfolding ks_def using filter_map_subseq all by metis
  have "te_base_name (cases ! i) \<in> te_base_name ` set ks" if "i < length cases" for i
    using first_of_name [OF sps that] mem by (metis image_eqI)
  then have "te_base_name ` set cases \<subseteq> te_base_name ` set ks" by (auto simp: set_conv_nth [of cases])
  moreover have "set ks \<subseteq> set cases" by (auto simp: mem)
  ultimately have names: "te_base_name ` set ks = te_base_name ` set cases" by blast
  have "us_dropped s = []" if "names_unique cases"
  proof -
    have "set (us_dropped s) = {}" unfolding dropped using unique_not_misplaced [OF sps that] by blast
    then show ?thesis by simp
  qed
  moreover have "us_dropped s = [] \<Longrightarrow> ks = cases" using all by (simp add: ks_def)
  ultimately have "(us_dropped s = []) = names_unique cases" "(us_dropped s = []) = (ks = cases)"
    using uni by auto
  then show ?thesis unfolding e kept using uni sub names by simp
qed

subsection \<open>Merging keeps every declaration once\<close>

lemma least_by_mem: "least_by key x ys \<in> insert x (set ys)"
proof (induction ys arbitrary: x)
  case (Cons y ys)
  show ?case using Cons.IH [of "if key y < key x then y else x"] by (auto split: if_splits)
qed simp

lemma least_by_le: "z \<in> insert x (set ys) \<Longrightarrow> key (least_by key x ys) \<le> key z"
proof (induction ys arbitrary: x z)
  case (Cons y ys)
  let ?x = "if key y < key x then y else x"
  have "key (least_by key ?x ys) \<le> key ?x" by (rule Cons.IH) simp
  moreover have "key ?x \<le> key x" "key ?x \<le> key y" by auto
  ultimately show ?case using Cons.IH [of z ?x] Cons.prems by (auto split: if_splits intro: order_trans)
qed simp

lemma least_of_list:
  assumes "cs \<noteq> []"
  shows "least_by key (hd cs) (tl cs) \<in> set cs" "c \<in> set cs \<Longrightarrow> key (least_by key (hd cs) (tl cs)) \<le> key c"
  using least_by_mem [of key "hd cs" "tl cs"] least_by_le [of c "hd cs" "tl cs" key] assms
  by (cases cs; auto)+

definition fixture_candidates :: "FixtureDeclInfo list \<Rightarrow> FixtureDeclInfo list" where
  "fixture_candidates fixtures = concat (map fs_occurrences (fixture_sites fixtures))"

lemma fixture_site_occurrences:
  assumes "s \<in> set (fixture_sites fixtures)"
  shows "fs_occurrences s \<noteq> [] \<and> fs_entity s = fd_entity_key (hd (fs_occurrences s))"
proof -
  obtain k g where "(k, g) \<in> set (groups_by fd_declaration_site_key fixtures)" "fs_occurrences s = slot_candidates g"
    "fs_entity s = fd_entity_key (hd (slot_candidates g))"
    using assms by (auto simp: fixture_sites_def Let_def)
  then show ?thesis using groups_by_nonempty by (fastforce simp: slot_candidates_def)
qed

lemma fixture_group:
  assumes "canonical_fixtures fixtures = Inr fs" and "(e, ss) \<in> set (groups_by fs_entity (fixture_sites fixtures))"
  shows "fixture_owner ss \<in> set (concat (map fs_occurrences ss))"
    and "c \<in> set (concat (map fs_occurrences ss)) \<Longrightarrow> fd_entity_key c = e \<and> fd_semantic_fingerprint c = fd_semantic_fingerprint (fixture_owner ss)
        \<and> fixture_owner_key (fixture_owner ss) \<le> fixture_owner_key c"
proof -
  let ?cs = "concat (map fs_occurrences (sort_key fs_key ss))"
  have ss: "ss = filter (\<lambda>s. fs_entity s = e) (fixture_sites fixtures)" "ss \<noteq> []"
    using groups_by_nonempty [OF assms(2)] assms(2) by (simp_all add: groups_by_mem)
  have set_cs: "set ?cs = set (concat (map fs_occurrences ss))" by simp
  obtain s where s: "s \<in> set ss" using ss(2) by (meson last_in_set)
  then have "fs_occurrences s \<noteq> []" using ss(1) fixture_site_occurrences by auto
  then have ne: "?cs \<noteq> []" using s by auto
  have site_ok: "fd_entity_key c = fs_entity s \<and> fd_semantic_fingerprint c = fd_semantic_fingerprint (hd (fs_occurrences s))"
    if "s \<in> set (fixture_sites fixtures)" "c \<in> set (fs_occurrences s)" for s c
  proof -
    have "fixture_site_errors s = []"
      using assms(1) that(1) by (auto simp: canonical_fixtures_def Let_def split: if_splits)
    then have "\<forall>c\<in>set (tl (fs_occurrences s)). fd_entity_key c = fs_entity s \<and> fd_semantic_fingerprint c = fd_semantic_fingerprint (hd (fs_occurrences s))"
      by (auto simp: fixture_site_errors_def Let_def filter_empty_conv)
    then show ?thesis
      using that(2) fixture_site_occurrences [OF that(1)] by (cases "fs_occurrences s") auto
  qed
  have entity_ok: "fd_semantic_fingerprint (hd (fs_occurrences s)) = fd_semantic_fingerprint (fixture_owner ss)" if "s \<in> set ss" for s
  proof -
    have "fixture_entity_errors ss = []"
      using assms by (auto simp: canonical_fixtures_def Let_def split: if_splits)
    then show ?thesis using that by (auto simp: fixture_entity_errors_def Let_def filter_empty_conv)
  qed
  have owner: "fixture_owner ss = least_by fixture_owner_key (hd ?cs) (tl ?cs)" by (simp add: fixture_owner_def Let_def)
  show "fixture_owner ss \<in> set (concat (map fs_occurrences ss))"
    using least_of_list(1) [OF ne, of fixture_owner_key] unfolding owner set_cs .
  assume c: "c \<in> set (concat (map fs_occurrences ss))"
  then obtain s where s: "s \<in> set ss" "c \<in> set (fs_occurrences s)" by auto
  then have "s \<in> set (fixture_sites fixtures)" "fs_entity s = e" using ss(1) by auto
  then show "fd_entity_key c = e \<and> fd_semantic_fingerprint c = fd_semantic_fingerprint (fixture_owner ss)
        \<and> fixture_owner_key (fixture_owner ss) \<le> fixture_owner_key c"
    using site_ok [OF _ s(2)] entity_ok [OF s(1)] least_of_list(2) [OF ne, of c fixture_owner_key] c
    unfolding owner [symmetric] set_cs by metis
qed

definition decl_identity :: "FixtureDeclInfo \<Rightarrow> string \<times> string" where
  "decl_identity f = (fd_entity_key f, fd_semantic_fingerprint f)"

lemma canonical_fixtures_exact:
  assumes "canonical_fixtures fixtures = Inr fs"
  shows "distinct (map fd_entity_key fs) \<and> decl_identity ` set fs = decl_identity ` set (fixture_candidates fixtures)"
proof -
  let ?gs = "groups_by fs_entity (fixture_sites fixtures)"
  let ?canon = "\<lambda>ss. (fixture_owner ss)\<lparr>fd_registration_header := fd_filename (fixture_owner ss)\<rparr>"
  have fs: "fs = map (\<lambda>(_, ss). ?canon ss) ?gs"
    using assms by (auto simp: canonical_fixtures_def Let_def split: if_splits)
  have ent: "fd_entity_key (fixture_owner ss) = e" if "(e, ss) \<in> set ?gs" for e ss
    using fixture_group [OF assms that] by blast
  have "map fd_entity_key fs = map fst ?gs" unfolding fs using ent by (auto simp: comp_def)
  then have d: "distinct (map fd_entity_key fs)" using groups_by_keys by metis
  have decl: "decl_identity (?canon ss) = decl_identity (fixture_owner ss)" for ss by (simp add: decl_identity_def)
  have cov: "set (fixture_candidates fixtures) = (\<Union>(e, ss)\<in>set ?gs. set (concat (map fs_occurrences ss)))"
    using groups_by_cover [of fs_entity "fixture_sites fixtures"] by (fastforce simp: fixture_candidates_def)
  have "decl_identity ` set fs = decl_identity ` set (fixture_candidates fixtures)"
  proof
    show "decl_identity ` set fs \<subseteq> decl_identity ` set (fixture_candidates fixtures)"
      unfolding fs cov using fixture_group(1) [OF assms] decl by fastforce
    show "decl_identity ` set (fixture_candidates fixtures) \<subseteq> decl_identity ` set fs"
    proof
      fix x
      assume "x \<in> decl_identity ` set (fixture_candidates fixtures)"
      then obtain e ss c where g: "(e, ss) \<in> set ?gs" "c \<in> set (concat (map fs_occurrences ss))" "x = decl_identity c"
        unfolding cov by blast
      then have "x = decl_identity (?canon ss)"
        using fixture_group(2) [OF assms g(1) g(2)] ent [OF g(1)] decl by (simp add: decl_identity_def)
      then show "x \<in> decl_identity ` set fs" using g(1) unfolding fs by force
    qed
  qed
  then show ?thesis using d by blast
qed

lemma case_site_occurrences:
  assumes "s \<in> set (case_sites cases)"
  shows "cs_occurrences s \<noteq> [] \<and> [] \<notin> set (cs_occurrences s)"
proof -
  obtain k g where kg: "(k, g) \<in> set (groups_by te_declaration_site_key cases)"
    "cs_occurrences s = map (\<lambda>(_, items). sort_case_occurrences items) (groups_by te_scan_slot g)"
    using assms by (auto simp: case_sites_def Let_def)
  have "g \<noteq> []" using kg(1) by (rule groups_by_nonempty)
  then have ne: "groups_by te_scan_slot g \<noteq> []" by simp
  have "items \<noteq> []" if m: "items \<in> set (cs_occurrences s)" for items
  proof -
    obtain j js where js: "(j, js) \<in> set (groups_by te_scan_slot g)" "items = sort_case_occurrences js"
      using m unfolding kg(2) by auto
    have "set items = set js" by (simp add: js(2) sort_case_occurrences_def)
    then show ?thesis using groups_by_nonempty [OF js(1)] by (metis set_empty)
  qed
  then have "[] \<notin> set (cs_occurrences s)" by blast
  moreover have "cs_occurrences s \<noteq> []" using ne by (simp add: kg(2))
  ultimately show ?thesis by blast
qed

lemma case_sites_cover: "(\<Union>s\<in>set (case_sites cases). \<Union>items\<in>set (cs_occurrences s). set items) = set cases"
proof -
  have "(\<Union>items\<in>set (map (\<lambda>(_, items). sort_case_occurrences items) (groups_by te_scan_slot g)). set items) = set g" for g
    using groups_by_cover [of te_scan_slot g] by (fastforce simp: sort_case_occurrences_def)
  then have "(\<Union>s\<in>set (case_sites cases). \<Union>items\<in>set (cs_occurrences s). set items) =
      (\<Union>(k, g)\<in>set (groups_by te_declaration_site_key cases). set g)"
    by (force simp: case_sites_def Let_def)
  then show ?thesis using groups_by_cover by metis
qed

lemma case_group:
  assumes "canonical_cases cases = Inr cs" and "(e, ss) \<in> set (groups_by cs_entity (case_sites cases))"
  shows "\<exists>s\<in>set ss. owner_cases ss \<in> set (cs_occurrences s)"
    and "s \<in> set ss \<Longrightarrow> items \<in> set (cs_occurrences s) \<Longrightarrow> case_semantics items = case_semantics (owner_cases ss)"
proof -
  let ?cs = "concat (map (\<lambda>s. map (Pair (cs_key s)) (cs_occurrences s)) (sort_key cs_key ss))"
  have ss: "ss = filter (\<lambda>s. cs_entity s = e) (case_sites cases)" "ss \<noteq> []"
    using groups_by_nonempty [OF assms(2)] assms(2) by (simp_all add: groups_by_mem)
  obtain s0 where s0: "s0 \<in> set ss" using ss(2) by (meson last_in_set)
  then have "cs_occurrences s0 \<noteq> []" using ss(1) case_site_occurrences by auto
  then have ne: "?cs \<noteq> []" using s0 by auto
  have owner: "owner_cases ss = snd (least_by case_owner_key (hd ?cs) (tl ?cs))" by (simp add: owner_cases_def Let_def)
  show "\<exists>s\<in>set ss. owner_cases ss \<in> set (cs_occurrences s)"
    using least_of_list(1) [OF ne, of case_owner_key] unfolding owner by force
  assume s: "s \<in> set ss" "items \<in> set (cs_occurrences s)"
  then have site: "s \<in> set (case_sites cases)" using ss(1) by auto
  have "case_site_errors s = []"
    using assms(1) site by (auto simp: canonical_cases_def Let_def split: if_splits)
  then have "\<forall>i\<in>set (tl (cs_occurrences s)). case_semantics i = case_semantics (hd (cs_occurrences s))"
    by (auto simp: case_site_errors_def Let_def filter_empty_conv)
  then have "case_semantics items = case_semantics (hd (cs_occurrences s))"
    using s(2) by (cases "cs_occurrences s") auto
  moreover have "case_entity_errors ss = []"
    using assms by (auto simp: canonical_cases_def Let_def split: if_splits)
  then have "case_semantics (hd (cs_occurrences s)) = case_semantics (owner_cases ss)"
    using s(1) by (auto simp: case_entity_errors_def Let_def filter_empty_conv)
  ultimately show "case_semantics items = case_semantics (owner_cases ss)" by simp
qed

lemma with_headers_fingerprint [simp]: "resolved_case_fingerprint (with_headers t) = resolved_case_fingerprint t"
  by (simp add: resolved_case_fingerprint_def with_headers_def)

lemma canonical_cases_exact:
  assumes "canonical_cases cases = Inr cs"
  shows "resolved_case_fingerprint ` set cs = resolved_case_fingerprint ` set cases"
proof -
  let ?gs = "groups_by cs_entity (case_sites cases)"
  let ?fp = resolved_case_fingerprint
  have cs: "cs = concat (map (\<lambda>(_, ss). map with_headers (owner_cases ss)) ?gs)"
    using assms by (auto simp: canonical_cases_def Let_def split: if_splits)
  have fp_cs: "?fp ` set cs = (\<Union>(e, ss)\<in>set ?gs. set (case_semantics (owner_cases ss)))"
  proof -
    have "?fp ` with_headers ` set xs = set (case_semantics xs)" for xs by (simp add: case_semantics_def image_image)
    then show ?thesis by (simp add: cs image_UN split_beta)
  qed
  have sites: "(\<Union>(e, ss)\<in>set ?gs. set ss) = set (case_sites cases)" by (rule groups_by_cover)
  show ?thesis
  proof
    show "?fp ` set cs \<subseteq> ?fp ` set cases"
    proof
      fix x
      assume "x \<in> ?fp ` set cs"
      then obtain e ss where g: "(e, ss) \<in> set ?gs" "x \<in> set (case_semantics (owner_cases ss))" unfolding fp_cs by blast
      obtain s where "s \<in> set ss" "owner_cases ss \<in> set (cs_occurrences s)" using case_group(1) [OF assms g(1)] by blast
      moreover have "s \<in> set (case_sites cases)" using sites g(1) \<open>s \<in> set ss\<close> by blast
      ultimately have "set (owner_cases ss) \<subseteq> set cases" using case_sites_cover [of cases] by blast
      then show "x \<in> ?fp ` set cases" using g(2) by (auto simp: case_semantics_def)
    qed
    show "?fp ` set cases \<subseteq> ?fp ` set cs"
    proof
      fix x
      assume "x \<in> ?fp ` set cases"
      then obtain s items where s: "s \<in> set (case_sites cases)" "items \<in> set (cs_occurrences s)" "x \<in> set (case_semantics items)"
        unfolding case_sites_cover [of cases, symmetric] by (auto simp: case_semantics_def)
      then obtain e ss where g: "(e, ss) \<in> set ?gs" "s \<in> set ss" using sites by blast
      have "x \<in> set (case_semantics (owner_cases ss))" using case_group(2) [OF assms g s(2)] s(3) by simp
      then show "x \<in> ?fp ` set cs" unfolding fp_cs using g(1) by blast
    qed
  qed
qed

text \<open>
  C21. When the declarations of all translation units are merged without an error, the merged tests
  have exactly the fingerprints of the tests that were found, with their fixtures resolved as the
  resolver says: none is lost, none is added, and they are sorted by name.  Every fixture entity is
  registered once, with the fingerprint that each of its sites has in each scan slot (of several
  occurrences of a site in one slot the code looks at the first in the order of owners).
\<close>

theorem merge_keeps_declarations:
  assumes "merge_header_declaration_occurrences cases fixtures = Inr (merged, fs)"
  shows "resolved_case_fingerprint ` set merged = resolved_case_fingerprint ` set (fst (resolve_free_fixtures cases fixtures))
    \<and> sorted (map te_display_name merged)
    \<and> distinct (map fd_entity_key fs)
    \<and> decl_identity ` set fs = decl_identity ` set (fixture_candidates fixtures)"
proof -
  obtain fs0 cs0 where parts: "canonical_fixtures fixtures = Inr fs0"
    "canonical_cases (fst (resolve_free_fixtures cases fixtures)) = Inr cs0"
    "merged = sort_key te_display_name cs0"
    "fs = sort_key (\<lambda>f. (fd_qualified_name f, fd_declaration_site_key f, fd_scan_slot f)) fs0"
    using assms
    by (auto simp: merge_header_declaration_occurrences_def split: sum.splits prod.splits if_splits)
  have "mset (map fd_entity_key fs) = mset (map fd_entity_key fs0)" unfolding parts by simp
  then have "distinct (map fd_entity_key fs) = distinct (map fd_entity_key fs0)" by (rule mset_eq_imp_distinct_iff)
  then show ?thesis
    using canonical_fixtures_exact [OF parts(1)] canonical_cases_exact [OF parts(2)] unfolding parts(3,4) by simp
qed

definition in_slot :: "nat \<Rightarrow> test_info \<Rightarrow> test_info" where
  "in_slot n t = t\<lparr>te_scan_slot := n, te_qualified_name := ''a::t'', te_base_name := ''t'', te_declaration_site_key := ''h:3'',
     te_entity_key := ''e:t'', te_semantic_fingerprint := ''f:t''\<rparr>"

definition fixture_in_slot :: "nat \<Rightarrow> FixtureDeclInfo \<Rightarrow> FixtureDeclInfo" where
  "fixture_in_slot n f = f\<lparr>fd_scan_slot := n\<rparr>"

definition scanned_cases :: "test_info list" where
  "scanned_cases = [in_slot 0 sample_test, in_slot 1 sample_test]"

definition scanned_fixtures :: "FixtureDeclInfo list" where
  "scanned_fixtures = [fixture_in_slot 0 sample_fixture, fixture_in_slot 1 sample_fixture]"

definition merged_sample :: "test_info list \<times> FixtureDeclInfo list" where
  "merged_sample = projr (merge_header_declaration_occurrences scanned_cases scanned_fixtures)"

theorem merge_keeps_declarations_witness:
  "map te_scan_slot (fst merged_sample) = [0] \<and> map fd_scan_slot (snd merged_sample) = [0]
   \<and> resolved_case_fingerprint ` set (fst merged_sample) =
      resolved_case_fingerprint ` set (fst (resolve_free_fixtures scanned_cases scanned_fixtures))"
proof -
  let ?m = "merge_header_declaration_occurrences scanned_cases scanned_fixtures"
  have run: "case ?m of Inr (merged, fs) \<Rightarrow> map te_scan_slot merged = [0] \<and> map fd_scan_slot fs = [0] | Inl _ \<Rightarrow> False"
    by code_simp
  then have ok: "?m = Inr (fst merged_sample, snd merged_sample)"
    by (cases ?m) (simp_all add: merged_sample_def)
  have "map te_scan_slot (fst merged_sample) = [0] \<and> map fd_scan_slot (snd merged_sample) = [0]"
    using run unfolding ok sum.case prod.case .
  then show ?thesis using merge_keeps_declarations [OF ok] by (elim conjE, intro conjI)
qed

end
