(* ===== verification/Spec2Isabelle.thy ===== *)
theory Spec2Isabelle
  imports Orchestrator Bench_Run Async_Scheduler Fixture_Resolve Mock Mock_Manifest Log_Sink Parallel_For Output_Plan Decl_Merge
begin

text \<open>
  Verification of \<^bold>\<open>gentest\<close>, a C++ test framework with generated registration code.  The
  development models the runner (\<^verbatim>\<open>src/src\<close> and the runtime headers under
  \<^verbatim>\<open>src/include/gentest\<close>), the program that a test executable becomes once the generated
  code has registered its cases, and the core of the code generator (\<^verbatim>\<open>src/tools/src\<close>),
  the program that turns attributes of functions into that registration code.

  \<^bold>\<open>The program.\<close>  Generated code registers cases (\<^verbatim>\<open>runner_impl.cpp\<close>) and shared fixtures
  (\<^verbatim>\<open>runner_fixture_runtime.cpp\<close>) during static initialisation.  \<^verbatim>\<open>main\<close> parses the command
  line (\<^verbatim>\<open>runner_cli.cpp\<close>) and hands over to the orchestrator (\<^verbatim>\<open>runner_orchestrator.cpp\<close>),
  which lists cases or selects them (\<^verbatim>\<open>runner_selector.cpp\<close>), sets up the shared fixtures,
  groups the selected tests by suite and fixture (\<^verbatim>\<open>runner_test_plan.cpp\<close>), runs them
  (\<^verbatim>\<open>runner_test_executor.cpp\<close>), each in its own test context (\<^verbatim>\<open>runtime_context.cpp\<close>,
  \<^verbatim>\<open>context_api.cpp\<close>) through \<^verbatim>\<open>runner_case_invoker.cpp\<close> and \<^verbatim>\<open>runner_case_result.cpp\<close>,
  measures benchmarks and jitter cases (\<^verbatim>\<open>runner_measured_executor.cpp\<close>), tears the fixtures
  down and writes reports (\<^verbatim>\<open>runner_reporting.cpp\<close>, \<^verbatim>\<open>runner_reporting_allure.cpp\<close>).
  Coroutine tests run on a scheduler (\<^verbatim>\<open>async_scheduler_core.h\<close>, \<^verbatim>\<open>async_timer_queue.h\<close>).
  The generator parses the attributes of a declaration (\<^verbatim>\<open>parse_core.cpp\<close>), validates them
  (\<^verbatim>\<open>validate.cpp\<close>), expands templates and parameter axes into cases and resolves the
  fixtures of their parameters (\<^verbatim>\<open>discovery.cpp\<close>, \<^verbatim>\<open>discovery_utils.hpp\<close>).  Its driver
  (\<^verbatim>\<open>codegen_tool.cpp\<close>) checks the options and the planned outputs (\<^verbatim>\<open>emit.cpp\<close>,
  \<^verbatim>\<open>mock_domain_plan.hpp\<close>), scans sources for modules and imports (\<^verbatim>\<open>scan_utils.hpp\<close>), works on
  translation units in parallel (\<^verbatim>\<open>parallel_for.hpp\<close>), merges what they declare, and hands mocks
  from one target to another in a manifest (\<^verbatim>\<open>mock_manifest.cpp\<close>).  Tests may use mock objects
  (\<^verbatim>\<open>mock.h\<close>) and log sinks (\<^verbatim>\<open>log_sink.cpp\<close>).

  \<^bold>\<open>The theories of the runner\<close>, in the order of their imports:

  \<^item> \<open>Prelude\<close>: words, strings, decimal printing, and grouping by first occurrence (the locale
    \<open>bucketing\<close> that the plan builder instantiates twice).
  \<^item> \<open>Case_Api\<close>: \<^verbatim>\<open>struct Case\<close>, tags, the case registry with its sorted snapshots.
  \<^item> \<open>Cli\<close>: \<^verbatim>\<open>parse_cli\<close> with all option handlers; the locale \<open>parse_invariant\<close> carries a
    property of the parser state through every handler.
  \<^item> \<open>Selector\<close>: wildcard matching and case selection.
  \<^item> \<open>Test_Plan\<close>: execution plans, shuffling, and the reference plan they refine.
  \<^item> \<open>Report_Text\<close>, \<open>Reporting\<close>, \<open>Allure\<close>: escaping and UTF-8 (locale \<open>char_escape\<close>), results,
    annotations, the JUnit document, the Allure session and the order in which report files are
    written (locale \<open>report_step\<close>).
  \<^item> \<open>Inventory\<close>: the JSON inventory and the list output, with a reader of JSON strings.
  \<^item> \<open>Run_Context\<close>: test contexts, thread-local buffers, leases of worker threads, scopes; the
    interleaving of threads as a step relation (locale \<open>buffered_field\<close> for what buffers keep).
  \<^item> \<open>Case_Result\<close>: invocation of a case, outcomes, counters, console output.
  \<^item> \<open>Fixture_Runtime\<close>: shared fixtures: registration, gate, set-up, look-up, tear-down.
  \<^item> \<open>Test_Executor\<close>: the synchronous executor over a plan, with fail-fast.
  \<^item> \<open>Bench_Stats\<close>, \<open>Bench_Run\<close>, \<open>Measured\<close>: sample statistics, histograms and display units;
    calibration, warm-up, epochs and batches of a measurement; the driver that brackets measured
    calls by set-up and tear-down.
  \<^item> \<open>Orchestrator\<close>: modes, phases, reports and the exit code.
  \<^item> \<open>Timer_Queue\<close>, \<open>Async_Scheduler\<close>: the lazily purged timer heap against a timer service in
    arrival order, and the scheduler core with frames, owners, waiters, cancellation and deadlines.
  \<^item> \<open>Mock\<close>: expectations of mock objects, their handles, the dispatch of a call, argument
    matchers and the verification on destruction, against a reference that only counts calls.
  \<^item> \<open>Log_Sink\<close>: the registry of log sinks with its owning handles, against a list of live sinks.

  \<^bold>\<open>The theories of the generator:\<close>

  \<^item> \<open>Attr_Parse\<close>: the attribute list parser with quoting, raw strings, template brackets, scopes.
  \<^item> \<open>Attr_Validate\<close>: attributes of functions, fixture types and namespaces.
  \<^item> \<open>Type_Kind\<close>: classification of parameter types and literals for their values.
  \<^item> \<open>Template_Args\<close>: rows and products of template arguments.
  \<^item> \<open>Case_Expand\<close>: parameter roles, numeric axes, the nested loops that emit cases.
  \<^item> \<open>Fixture_Resolve\<close>: binding of fixture parameters to declared or local fixtures.
  \<^item> \<open>Decl_Merge\<close>: unique test names, and one declaration from the occurrences that the
    translation units saw.
  \<^item> \<open>Scan_Expr\<close>, \<open>Scan_Lines\<close>, \<open>Scan_Modules\<close>: the source scanner: conditions of \<^verbatim>\<open>#if\<close> with
    their tokens and precedences, physical lines with comments, continuations, macros and
    conditional groups, module declarations, imports, preamble rewriting and include directories.
  \<^item> \<open>Mock_Manifest\<close>: writer and reader of the mock manifest.
  \<^item> \<open>Parallel_For\<close>: the workers of a parallel loop as a step relation.
  \<^item> \<open>Output_Plan\<close>: options of the tool, output domains of mocks, collisions of outputs, and the
    dependency file.

  Structs are records with prefixed field names (a struct that two parts of the generator use is
  a record of the fields of each part), enums are datatypes, hash maps are maps,
  \<^verbatim>\<open>std::uint64_t\<close> is \<open>64 word\<close> where it can overflow, strings are byte lists.  State that C++
  keeps in globals or thread-locals is passed explicitly.  Errors are sums or options; an
  \<^verbatim>\<open>abort\<close> and signed overflow are values of their own.

  \<^bold>\<open>What the theorems show.\<close>  From selection to exit code: a run of synchronous cases ends, visits
  every selected case once, reports the outcome its body deserves, and exits with zero exactly
  when nothing went wrong.  A test body gets the promised verdict; contexts lose no log line or
  failure under any interleaving; fixtures are set up once and released in reverse order, one run
  at a time; selection is exactly the filters; the command line is accepted only within bounds;
  reports are complete or the failure is recorded; text survives escaping; the inventory can be
  read back.  Measured calls are bracketed, a measurement returns on a steady clock and its
  figures are those of its epochs.  The timer heap refines its service, and cancelling an owner
  forgets exactly its frames.  In the generator, printed attributes parse back, validation accepts
  exactly the well-formed declarations, a declaration expands into one case per combination, and
  a resolution without complaint binds every fixture parameter to what it names.  A mock test
  passes exactly when every expectation is met, and each log message reaches the live sinks.  The
  scanner selects the lines that the block structure of conditionals selects, evaluates printed
  conditions to their value and finds the module name accordingly; manifests are read back;
  parallel loops call the body once per index; merged declarations are those that were found; an
  output plan is accepted exactly when no two files collide.

  Some behaviours differ from what the code means to do and are proved as such: a literal star in
  a case name can defeat a wildcard, a refused re-entry of a fixture session leaves the gate
  closed, a benchmark that fails with an empty message passes, a raw string argument is split at
  its commas, and an integer range that ends at the largest value overflows.  In the scanner, a
  hexadecimal literal with a decimal digit makes its condition unknown, a macro whose replacement
  starts with a parenthesis is dropped, a macro that names itself as an operand of
  \<^verbatim>\<open>__has_include\<close> sends the scanner into a loop, a module name may end with a dot, and the
  rewriting of a preamble can duplicate a module declaration or lose a line.

  \<^bold>\<open>Loops and fuel.\<close>  The one bound that looks like fuel is that of the source: the expansion of
  macros in conditions stops at depth 32.  Loops are structural recursions or have a termination
  measure (\<open>calibrate_loop\<close>, \<open>cancel_list\<close>, \<open>args_scan\<close>, \<open>scope_loop\<close>, \<open>attribute_loop\<close>,
  \<open>int_range\<close>, \<open>float_range\<close>, and \<open>pp_parse\<close> by the rest of the tokens and the level of
  precedence); the wildcard loop and the epoch loop are partial functions into option and proved
  to return; \<open>resolve_operand\<close> is one that need not.

  \<^bold>\<open>Parameters.\<close>  What the code gets from outside is an argument: environment variables and
  \<^verbatim>\<open>stod\<close> (\<open>Cli\<close>), shuffling and hashing (\<open>Test_Plan\<close>), the file system, Boost.JSON and the
  printing of doubles (\<open>Allure\<close>), user code (\<open>Case_Result\<close>, \<open>Fixture_Runtime\<close>, \<open>Measured\<close>), the
  clock (\<open>Bench_Run\<close>, \<open>Async_Scheduler\<close>), number formatting (\<open>Bench_Stats\<close>, \<open>Case_Expand\<close>) and what
  Clang says about declarations (\<open>Case_Expand\<close>, \<open>Fixture_Resolve\<close>, \<open>Decl_Merge\<close>), the JSON library of
  LLVM (\<open>Mock_Manifest\<close>), the body of a loop (\<open>Parallel_For\<close>), files and directories
  (\<open>Scan_Lines\<close>, \<open>Scan_Modules\<close>), and canonical paths (\<open>Output_Plan\<close>).  Measurements and numeric axes
  are over the real numbers; the rounding of \<^verbatim>\<open>double\<close> is not modelled.

  \<^bold>\<open>Not modelled.\<close>  The asynchronous batch executor, the live status display, the printed tables of
  measured cases, coroutine types, the assertion headers; in the generator what talks to Clang, the
  artifact manifest and the templates of generated text; the branches for Windows and macOS; the
  build-system glue.
\<close>

text \<open>
  C33. Whatever the order in which translation units register their cases and callers take
  snapshots, a snapshot of the registry is ordered by name, file and line, and holds exactly
  the cases registered so far (as a multiset), so neither listing nor execution depends on
  static-initialisation order beyond cases that tie on all three keys.
\<close>

theorem registry_snapshot_complete_and_ordered:
  "cases_ordered (fst (snapshot_cases (registry_run ops empty_registry)))
   \<and> mset (fst (snapshot_cases (registry_run ops empty_registry))) = mset (registered_by ops)"
  by (simp add: snapshot_ordered registry_run_wf registry_wf_empty snapshot_mset registry_run_mset)
     (simp add: empty_registry_def)

end
